(* ===== verification/Prelude.thy ===== *)
theory Prelude
  imports
    Complex_Main
    "HOL-Library.AList"
    "HOL-Library.Char_ord"
    "HOL-Library.List_Lexorder"
    "HOL-Library.Product_Lexorder"
    "HOL-Library.Multiset"
    "HOL-Library.Code_Target_Numeral"
begin

text \<open>
  Shared vocabulary of the development.

  \<^item> Exceptions are values: a Python function that may raise returns a \<open>result\<close>, the sum of
    \<open>py_error\<close> (left) and the returned value (right); \<open>rbind\<close> sequences two such
    computations and \<open>rmap\<close>, \<open>rfold\<close> are the comprehension and the loop that stop at
    the first exception.
  \<^item> A Python \<^verbatim>\<open>dict\<close> keeps insertion order, so it is an association list with
    \<open>AList.update\<close> for item assignment; \<open>dict_get\<close> is \<^verbatim>\<open>.get(key, default)\<close>.
  \<^item> \<^verbatim>\<open>sorted(xs, key=f)\<close> is \<open>sort_key f xs\<close>, which is stable like Python's sort; tuples and
    strings are compared lexicographically.
  \<^item> A string is the list of its UTF-8 bytes: byte order coincides with Python's code-point
    order, and \<open>py_len\<close> counts code points.
\<close>

section \<open>Collections of facts\<close>

named_theorems result_simps \<open>inversion and evaluation of computations that may raise\<close>
named_theorems dval_simps \<open>values of decimal operations\<close>
named_theorems raise_intros \<open>which exceptions a computation can raise\<close>
named_theorems wf_intros \<open>introduction rules for well-formedness invariants\<close>

section \<open>Exceptions as values\<close>

text \<open>
  One constructor per exception class of the modelled sources; the argument is the fixed part of
  the message. \<open>NonTermination\<close> is no exception: it marks a loop that does not return.
\<close>

datatype py_error =
    ValueError string
  | ValidationError string
  | OrderStateError string
  | SettlementError string
  | Q1RiskError string
  | Q1MathError string
  | Q1PlanningError string
  | Q1ExecutionCycleError string
  | Q1PriceGuardViolation
  | Q1CycleError string
  | PolicyCompileError string
  | ForwardPortfolioError string
  | EvaluationError string
  | Q1PersistenceConflict string
  | Q1CycleFenceError string
  | Q1RuntimePersistenceError string
  | Q1StaleWorkerError string
  | IntegrityError string
  | InvalidOperation
  | DivisionByZero
  | KeyError string
  | CanonicalizationError string
  | NonTermination

text \<open>The classes that \<^verbatim>\<open>except ValueError\<close> catches.\<close>

fun is_value_error :: "py_error \<Rightarrow> bool" where
  "is_value_error (Q1ExecutionCycleError m) = False"
| "is_value_error Q1PriceGuardViolation = False"
| "is_value_error (Q1CycleError m) = False"
| "is_value_error (Q1PersistenceConflict m) = False"
| "is_value_error (Q1CycleFenceError m) = False"
| "is_value_error (Q1RuntimePersistenceError m) = False"
| "is_value_error (Q1StaleWorkerError m) = False"
| "is_value_error (IntegrityError m) = False"
| "is_value_error InvalidOperation = False"
| "is_value_error DivisionByZero = False"
| "is_value_error (KeyError k) = False"
| "is_value_error NonTermination = False"
| "is_value_error _ = True"

type_synonym 'a result = "py_error + 'a"

text \<open>The value of a call to a loop that need not return.\<close>

definition returned :: "'a result option \<Rightarrow> 'a result" where
  "returned m = (case m of None \<Rightarrow> Inl NonTermination | Some r \<Rightarrow> r)"

lemma returned_Some [simp]: "returned (Some r) = r"
  by (simp add: returned_def)

definition rbind :: "'a result \<Rightarrow> ('a \<Rightarrow> 'b result) \<Rightarrow> 'b result" where
  "rbind m k = (case m of Inl e \<Rightarrow> Inl e | Inr x \<Rightarrow> k x)"

text \<open>
  For evaluation in the kernel a continuation becomes a case distinction, and a case distinction
  on a pair a local definition: both evaluate their argument before their body.
\<close>

declare rbind_def [code_unfold]

lemma case_prod_Let [code_unfold]: "case_prod f p = (let q = p in f (fst q) (snd q))"
  by (simp add: split_beta)

text \<open>Evaluation by the simplifier: arguments first, continuations only once applied.\<close>

lemma rbind_weak_cong: "m = m' \<Longrightarrow> rbind m k = rbind m' k"
  by simp

lemmas eval_congs = let_weak_cong rbind_weak_cong if_weak_cong option.case_cong_weak sum.case_cong_weak

text \<open>\<open>guard_not c e\<close> is the statement \<^verbatim>\<open>if c: raise e\<close>.\<close>

definition guard_not :: "bool \<Rightarrow> py_error \<Rightarrow> unit result" where
  "guard_not c e = (if c then Inl e else Inr ())"

fun rmap :: "('a \<Rightarrow> 'b result) \<Rightarrow> 'a list \<Rightarrow> 'b list result" where
  "rmap f [] = Inr []"
| "rmap f (x # xs) = rbind (f x) (\<lambda>y. rbind (rmap f xs) (\<lambda>ys. Inr (y # ys)))"

fun rfold :: "('a \<Rightarrow> 's \<Rightarrow> 's result) \<Rightarrow> 'a list \<Rightarrow> 's \<Rightarrow> 's result" where
  "rfold f [] s = Inr s"
| "rfold f (x # xs) s = rbind (f x s) (rfold f xs)"

lemma rbind_simps [simp]:
  "rbind (Inl e) k = Inl e"
  "rbind (Inr x) k = k x"
  by (simp_all add: rbind_def)

lemma rbind_eq_Inr [result_simps]: "rbind m k = Inr y \<longleftrightarrow> (\<exists>x. m = Inr x \<and> k x = Inr y)"
  by (cases m) auto

lemma rbind_eq_Inl [result_simps]:
  "rbind m k = Inl e \<longleftrightarrow> m = Inl e \<or> (\<exists>x. m = Inr x \<and> k x = Inl e)"
  by (cases m) auto

lemma guard_not_eq_Inr [result_simps]: "guard_not c e = Inr u \<longleftrightarrow> \<not> c"
  by (simp add: guard_not_def)

lemma guard_not_eq_Inl [result_simps]: "guard_not c e = Inl e' \<longleftrightarrow> c \<and> e' = e"
  by (auto simp: guard_not_def)

lemma guard_not_simps [simp]:
  "guard_not False e = Inr ()"
  "guard_not True e = Inl e"
  by (simp_all add: guard_not_def)

lemma rfold_append: "rfold f (xs @ ys) s = rbind (rfold f xs s) (rfold f ys)"
proof (induction xs arbitrary: s)
  case (Cons x xs)
  then show ?case by (cases "f x s") auto
qed simp

lemma rfold_snoc: "rfold f (xs @ [x]) s = rbind (rfold f xs s) (f x)"
proof -
  have "rfold f [x] = f x"
  proof
    show "rfold f [x] s = f x s" for s by (cases "f x s") auto
  qed
  then show ?thesis by (simp only: rfold_append)
qed

lemma rmap_eq_Inr: "rmap f xs = Inr ys \<longleftrightarrow> list_all2 (\<lambda>x y. f x = Inr y) xs ys"
proof (induction xs arbitrary: ys)
  case (Cons x xs)
  then show ?case by (cases ys) (auto simp: result_simps)
qed auto

lemma list_all2_mem:
  "list_all2 P xs ys \<Longrightarrow> x \<in> set xs \<Longrightarrow> \<exists>y\<in>set ys. P x y"
  "list_all2 P xs ys \<Longrightarrow> y \<in> set ys \<Longrightarrow> \<exists>x\<in>set xs. P x y"
  by (induction rule: list_all2_induct) auto

lemma rmap_Inr_length: "rmap f xs = Inr ys \<Longrightarrow> length ys = length xs"
  by (simp add: rmap_eq_Inr list_all2_lengthD)

lemma rmap_Inr_mem: "rmap f xs = Inr ys \<Longrightarrow> y \<in> set ys \<Longrightarrow> \<exists>x\<in>set xs. f x = Inr y"
  by (induction xs arbitrary: ys) (auto simp: result_simps)

lemma rmap_cong [fundef_cong]:
  "xs = ys \<Longrightarrow> (\<And>x. x \<in> set ys \<Longrightarrow> f x = g x) \<Longrightarrow> rmap f xs = rmap g ys"
  by (induction ys arbitrary: xs) auto

lemma rmap_map: "(\<And>x. x \<in> set xs \<Longrightarrow> g (f x) = Inr (h x)) \<Longrightarrow> rmap g (map f xs) = Inr (map h xs)"
  by (induction xs) auto

section \<open>Strings\<close>

definition py_len :: "string \<Rightarrow> nat" where
  "py_len s = length (filter (\<lambda>c. \<not> (128 \<le> (of_char c :: nat) \<and> (of_char c :: nat) < 192)) s)"

section \<open>Dictionaries\<close>

type_synonym ('k, 'v) dict = "('k \<times> 'v) list"

definition dict_get :: "('k, 'v) dict \<Rightarrow> 'k \<Rightarrow> 'v \<Rightarrow> 'v" where
  "dict_get d k v = (case map_of d k of None \<Rightarrow> v | Some w \<Rightarrow> w)"

definition dict_keys :: "('k, 'v) dict \<Rightarrow> 'k list" where
  "dict_keys d = map fst d"

definition dict_values :: "('k, 'v) dict \<Rightarrow> 'v list" where
  "dict_values d = map snd d"

definition dict_has :: "('k, 'v) dict \<Rightarrow> 'k \<Rightarrow> bool" where
  "dict_has d k \<longleftrightarrow> map_of d k \<noteq> None"

text \<open>\<^verbatim>\<open>d[k]\<close>.\<close>

definition dict_lookup :: "(string, 'v) dict \<Rightarrow> string \<Rightarrow> 'v result" where
  "dict_lookup d k = (case map_of d k of None \<Rightarrow> Inl (KeyError k) | Some v \<Rightarrow> Inr v)"

lemma dict_lookup_Inr [result_simps]: "dict_lookup d k = Inr v \<longleftrightarrow> map_of d k = Some v"
  by (simp add: dict_lookup_def split: option.split)

text \<open>\<^verbatim>\<open>sorted(d.items())\<close> of a dictionary: keys are distinct, so values are never compared.\<close>

definition sorted_items :: "('k::linorder, 'v) dict \<Rightarrow> ('k, 'v) dict" where
  "sorted_items d = sort_key fst d"

lemma dict_has_iff: "dict_has d k \<longleftrightarrow> k \<in> set (dict_keys d)"
  by (simp add: dict_has_def dict_keys_def map_of_eq_None_iff)

lemma dict_get_Nil [simp]: "dict_get [] k v = v"
  by (simp add: dict_get_def)

lemma dict_get_update:
  "dict_get (AList.update k v d) k' w = (if k' = k then v else dict_get d k' w)"
  by (simp add: dict_get_def AList.update_conv')

section \<open>Sorting\<close>

text \<open>
  Two lists with the same elements and pairwise different keys sort to the same list: the basis
  of every statement that a replay does not depend on the order in which rows are supplied.
\<close>

lemma sort_key_permutation_unique:
  assumes "mset xs = mset ys" and "inj_on f (set xs)"
  shows "sort_key f xs = sort_key f ys"
proof (rule sort_key_inj_key_eq [OF _ _ _])
  show "mset xs = mset (sort_key f ys)" using assms(1) by simp
  show "inj_on f (set xs)" by (rule assms(2))
  show "sorted (map f (sort_key f ys))" by simp
qed

lemma distinct_map_mset_cong: "mset xs = mset ys \<Longrightarrow> distinct (map f xs) \<longleftrightarrow> distinct (map f ys)"
  by (metis mset_eq_imp_distinct_iff mset_map)

lemma mset_concat_map_cong:
  assumes "mset xs = mset ys"
  shows "mset (concat (map f xs)) = mset (concat (map f ys))"
proof -
  have "mset (concat (map f zs)) = sum_mset (image_mset (\<lambda>x. mset (f x)) (mset zs))" for zs
    by (induction zs) auto
  then show ?thesis using assms by simp
qed

lemma sum_list_mset_cong:
  fixes f :: "'a \<Rightarrow> 'b::comm_monoid_add"
  assumes "mset xs = mset ys"
  shows "(\<Sum>x\<leftarrow>filter P xs. f x) = (\<Sum>x\<leftarrow>filter P ys. f x)"
  using assms by (metis mset_filter mset_map sum_mset_sum_list)

lemma sum_list_filter_le:
  fixes f :: "'a \<Rightarrow> 'b::ordered_comm_monoid_add"
  assumes "\<And>x. 0 \<le> f x"
  shows "(\<Sum>x\<leftarrow>filter P xs. f x) \<le> (\<Sum>x\<leftarrow>xs. f x)"
proof (induction xs)
  case (Cons x xs)
  then show ?case using assms by (auto intro: add_increasing add_left_mono)
qed simp

lemma distinct_map_inj_on: "distinct (map f xs) \<Longrightarrow> inj_on f (set xs)"
  by (simp add: distinct_map)

lemma sorted_items_distinct: "distinct (dict_keys d) \<Longrightarrow> distinct (dict_keys (sorted_items d))"
  using distinct_map_mset_cong [of "sorted_items d" d fst] by (simp add: sorted_items_def dict_keys_def)

text \<open>\<^verbatim>\<open>len(xs) != len(set(xs))\<close>.\<close>

definition has_duplicates :: "'a list \<Rightarrow> bool" where
  "has_duplicates xs \<longleftrightarrow> \<not> distinct xs"

lemma has_duplicates_card: "has_duplicates xs \<longleftrightarrow> length xs \<noteq> card (set xs)"
  by (auto simp: has_duplicates_def distinct_card intro: card_distinct)

text \<open>\<^verbatim>\<open>any(x != i for i, x in enumerate(xs, start=n))\<close> is false.\<close>

fun contiguous_from :: "int \<Rightarrow> int list \<Rightarrow> bool" where
  "contiguous_from n [] \<longleftrightarrow> True"
| "contiguous_from n (x # xs) \<longleftrightarrow> x = n \<and> contiguous_from (n + 1) xs"


lemma contiguous_from_nth: "contiguous_from n xs \<longleftrightarrow> (\<forall>i < length xs. xs ! i = n + int i)"
proof (induction xs arbitrary: n)
  case (Cons x xs)
  have "(\<forall>i < length (x # xs). (x # xs) ! i = n + int i) \<longleftrightarrow>
      x = n \<and> (\<forall>i < length xs. xs ! i = n + int (Suc i))"
    by (auto simp: less_Suc_eq_0_disj)
  then show ?case using Cons.IH [of "n + 1"] by (simp add: algebra_simps)
qed simp

lemma contiguous_from_append:
  "contiguous_from n (xs @ ys) \<longleftrightarrow> contiguous_from n xs \<and> contiguous_from (n + int (length xs)) ys"
  by (induction xs arbitrary: n) (auto simp: algebra_simps)

lemma contiguous_from_ge: "contiguous_from n xs \<Longrightarrow> x \<in> set xs \<Longrightarrow> n \<le> x \<and> x < n + int (length xs)"
  by (auto simp: contiguous_from_nth in_set_conv_nth)

lemma contiguous_from_last:
  "contiguous_from n xs \<Longrightarrow> xs \<noteq> [] \<Longrightarrow> last xs = n + int (length xs) - 1"
  by (cases xs rule: rev_cases) (auto simp: contiguous_from_append)

lemma contiguous_from_distinct: "contiguous_from n xs \<Longrightarrow> distinct xs"
  by (auto simp: contiguous_from_nth distinct_conv_nth)

lemma contiguous_from_sorted: "contiguous_from n xs \<Longrightarrow> sorted xs"
  by (auto simp: contiguous_from_nth sorted_iff_nth_mono)

section \<open>Lists of results and sums\<close>

lemma rmap_exists:
  assumes "\<And>x. x \<in> set xs \<Longrightarrow> \<exists>y. f x = Inr y \<and> P x y"
  shows "\<exists>ys. rmap f xs = Inr ys \<and> list_all2 P xs ys"
  using assms
proof (induction xs)
  case (Cons x xs)
  then obtain y ys where "f x = Inr y" "P x y" "rmap f xs = Inr ys" "list_all2 P xs ys"
    by (metis list.set_intros)
  then show ?case by simp
qed simp

lemma map_sort_key: "map f (sort_key f xs) = sort (map f xs)"
  by (rule properties_for_sort [symmetric]) simp_all

lemma sort_key_map: "sort_key f (map g xs) = map g (sort_key (\<lambda>x. f (g x)) xs)"
proof (induction xs)
  case (Cons x xs)
  have "insort_key f (g x) (map g ys) = map g (insort_key (\<lambda>x. f (g x)) x ys)" for ys by (induction ys) auto
  then show ?case using Cons.IH by simp
qed simp

lemma sum_list_all2_mono:
  fixes f :: "'b \<Rightarrow> rat"
  assumes "list_all2 P xs ys" "\<And>x y. x \<in> set xs \<Longrightarrow> P x y \<Longrightarrow> f y \<le> g x"
  shows "(\<Sum>y\<leftarrow>ys. f y) \<le> (\<Sum>x\<leftarrow>xs. g x)"
  using assms by (induction rule: list_all2_induct) (auto intro: add_mono)

lemma filter_two_keys:
  assumes "distinct (dict_keys d)"
  shows "length (filter (\<lambda>p. fst p \<in> {a, b}) d) \<le> 2"
proof -
  have "distinct (map fst (filter (\<lambda>p. fst p \<in> {a, b}) d))"
    using assms by (simp add: dict_keys_def distinct_map_filter)
  then have "length (filter (\<lambda>p. fst p \<in> {a, b}) d) = card (fst ` set (filter (\<lambda>p. fst p \<in> {a, b}) d))"
    by (metis distinct_card length_map set_map)
  also have "\<dots> \<le> card {a, b}" by (intro card_mono) auto
  also have "\<dots> \<le> 2" by (simp add: card_insert_if)
  finally show ?thesis .
qed

section \<open>Sums and lookups over dictionaries\<close>

lemma sum_dict_update:
  fixes f :: "'k \<Rightarrow> 'v \<Rightarrow> rat"
  assumes "distinct (dict_keys d)"
  shows "(\<Sum>(k, v)\<leftarrow>AList.update a x d. f k v) =
    (\<Sum>(k, v)\<leftarrow>d. f k v) + f a x - (case map_of d a of None \<Rightarrow> 0 | Some y \<Rightarrow> f a y)"
  using assms by (induction d) (auto simp: dict_keys_def dest: map_of_SomeD split: option.splits)

lemma sum_dict_delete:
  fixes f :: "'k \<Rightarrow> 'v \<Rightarrow> rat"
  assumes "distinct (dict_keys d)"
  shows "(\<Sum>(k, v)\<leftarrow>AList.delete a d. f k v) =
    (\<Sum>(k, v)\<leftarrow>d. f k v) - (case map_of d a of None \<Rightarrow> 0 | Some y \<Rightarrow> f a y)"
  using assms
proof (induction d)
  case (Cons p d)
  have "AList.delete a d = d" if "a \<notin> fst ` set d"
    using that by (auto simp: AList.delete_eq image_iff intro!: filter_True)
  then show ?case using Cons by (cases p) (auto simp: dict_keys_def split: option.splits)
qed simp

lemma mem_dict_values: "(k, v) \<in> set d \<Longrightarrow> v \<in> set (dict_values d)"
  by (force simp: dict_values_def)

lemma dict_get_values:
  assumes "\<forall>v\<in>set (dict_values d). P v" "P w"
  shows "P (dict_get d k w)"
  using assms by (force simp: dict_get_def dict_values_def dest: map_of_SomeD split: option.split)

lemma update_values: "set (dict_values (AList.update k v d)) \<subseteq> insert v (set (dict_values d))"
  by (induction d) (auto simp: dict_values_def)

lemma update_mem: "p \<in> set (AList.update k v d) \<Longrightarrow> p = (k, v) \<or> p \<in> set d"
  by (induction d) (auto split: if_splits)

section \<open>Which exceptions a computation raises\<close>

definition only_raises :: "(py_error \<Rightarrow> bool) \<Rightarrow> 'a result \<Rightarrow> bool" where
  "only_raises P m \<longleftrightarrow> (\<forall>e. m = Inl e \<longrightarrow> P e)"

lemma only_raises_result [raise_intros]:
  "only_raises P (Inr x)"
  "P e \<Longrightarrow> only_raises P (Inl e)"
  by (simp_all add: only_raises_def)

lemma only_raises_rbind [raise_intros]:
  "only_raises P m \<Longrightarrow> (\<And>x. m = Inr x \<Longrightarrow> only_raises P (k x)) \<Longrightarrow> only_raises P (rbind m k)"
  by (cases m) (auto simp: only_raises_def)

lemma only_raises_if [raise_intros]:
  "(c \<Longrightarrow> only_raises P a) \<Longrightarrow> (\<not> c \<Longrightarrow> only_raises P b) \<Longrightarrow> only_raises P (if c then a else b)"
  by simp

lemma only_raises_Let [raise_intros]: "only_raises P (f x) \<Longrightarrow> only_raises P (Let x f)"
  by simp

lemma only_raises_mono: "only_raises P m \<Longrightarrow> (\<And>e. P e \<Longrightarrow> Q e) \<Longrightarrow> only_raises Q m"
  by (auto simp: only_raises_def)

lemma rfold_invariant:
  assumes "rfold f xs s = Inr s'" "P s" "\<And>x s s'. x \<in> set xs \<Longrightarrow> P s \<Longrightarrow> f x s = Inr s' \<Longrightarrow> P s'"
  shows "P s'"
  using assms by (induction xs arbitrary: s) (auto simp: rbind_eq_Inr)

lemma update_fresh: "k \<notin> fst ` set d \<Longrightarrow> AList.update k v d = d @ [(k, v)]"
  by (induction d) auto

lemma filter_unique: "distinct (map f xs) \<Longrightarrow> x \<in> set xs \<Longrightarrow> filter (\<lambda>y. f y = f x) xs = [x]"
  by (induction xs) (auto simp: filter_empty_conv image_iff)

end
