(* ===== verification/Decimal.thy ===== *)
theory Decimal
  imports Prelude
begin

text \<open>
  Python's \<^verbatim>\<open>decimal.Decimal\<close> under the default context (28 significant digits,
  \<^verbatim>\<open>ROUND_HALF_EVEN\<close>), as far as the sources use it: a finite decimal is a sign, a coefficient
  and an exponent. Every arithmetic operation computes the exact result and rounds it to the
  context (\<open>dfix\<close>); comparisons are exact and by value, so they identify \<^verbatim>\<open>1.0\<close> and
  \<^verbatim>\<open>1.00\<close>, while formatting distinguishes them. Exponent overflow and underflow (beyond
  ten to the power of 999999) and the special values NaN and Infinity are left out.

  The second half relates every operation to the rational number it denotes: \<open>dval\<close> of a
  result is \<open>ctx\<close> of the exact rational result, where \<open>ctx\<close> rounds half-even to 28
  significant digits, is monotone, odd, exact on every number of at most 28 digits and has
  relative error at most \<open>10 powi -27 / 2\<close>.
\<close>

section \<open>Representation\<close>

datatype decimal = Dec (dneg: bool) (dcoef: nat) (dexp: int)

definition prec :: nat where
  "prec = 28"

definition scoef :: "decimal \<Rightarrow> int" where
  "scoef d = (if dneg d then - int (dcoef d) else int (dcoef d))"

text \<open>The decimal with signed coefficient \<open>k\<close>; \<open>z\<close> is the sign of a zero result.\<close>

definition mkdec :: "bool \<Rightarrow> int \<Rightarrow> int \<Rightarrow> decimal" where
  "mkdec z k e = Dec (if k = 0 then z else k < 0) (nat \<bar>k\<bar>) e"

text \<open>A literal: \<open>D 1 (-2)\<close> is \<^verbatim>\<open>Decimal("0.01")\<close>.\<close>

definition D :: "int \<Rightarrow> int \<Rightarrow> decimal" where
  "D k e = mkdec False k e"

fun ndigits :: "nat \<Rightarrow> nat" where
  "ndigits n = (if n < 10 then 1 else Suc (ndigits (n div 10)))"

declare ndigits.simps [simp del]

datatype rounding = ROUND_HALF_EVEN | ROUND_DOWN

text \<open>\<open>n / m\<close> rounded to an integer.\<close>

fun round_quot :: "rounding \<Rightarrow> nat \<Rightarrow> nat \<Rightarrow> nat" where
  "round_quot ROUND_DOWN n m = n div m"
| "round_quot ROUND_HALF_EVEN n m =
     (let q = n div m; r = n mod m in
      if 2 * r < m then q else if m < 2 * r then Suc q else if even q then q else Suc q)"

text \<open>Rounding to the context precision; a carry to 29 digits drops the last digit.\<close>

definition dfix :: "decimal \<Rightarrow> decimal" where
  "dfix d =
     (let n = ndigits (dcoef d) in
      if n \<le> prec then d
      else let k = n - prec; q = round_quot ROUND_HALF_EVEN (dcoef d) (10 ^ k) in
           if q = 10 ^ prec then Dec (dneg d) (10 ^ (prec - 1)) (dexp d + int k + 1)
           else Dec (dneg d) q (dexp d + int k))"

section \<open>Comparison\<close>

definition align :: "decimal \<Rightarrow> decimal \<Rightarrow> int \<times> int" where
  "align a b =
     (let e = min (dexp a) (dexp b)
      in (scoef a * 10 ^ nat (dexp a - e), scoef b * 10 ^ nat (dexp b - e)))"

text \<open>\<^verbatim>\<open>a == b\<close> compares values.\<close>

definition d_eq :: "decimal \<Rightarrow> decimal \<Rightarrow> bool" where
  "d_eq a b \<longleftrightarrow> (case align a b of (x, y) \<Rightarrow> x = y)"

section \<open>Arithmetic\<close>

definition d_add :: "decimal \<Rightarrow> decimal \<Rightarrow> decimal" where
  "d_add a b =
     (case align a b of (x, y) \<Rightarrow>
        dfix (mkdec (dneg a \<and> dneg b) (x + y) (min (dexp a) (dexp b))))"

text \<open>Subtraction adds the second operand with its sign bit flipped.\<close>

definition d_sub :: "decimal \<Rightarrow> decimal \<Rightarrow> decimal" where
  "d_sub a b = d_add a (Dec (\<not> dneg b) (dcoef b) (dexp b))"

definition d_mul :: "decimal \<Rightarrow> decimal \<Rightarrow> decimal" where
  "d_mul a b = dfix (Dec (dneg a \<noteq> dneg b) (dcoef a * dcoef b) (dexp a + dexp b))"

text \<open>Unary minus and \<^verbatim>\<open>abs\<close> never return a negative zero.\<close>

definition d_neg :: "decimal \<Rightarrow> decimal" where
  "d_neg a = dfix (Dec (dcoef a \<noteq> 0 \<and> \<not> dneg a) (dcoef a) (dexp a))"

definition d_abs :: "decimal \<Rightarrow> decimal" where
  "d_abs a = dfix (Dec False (dcoef a) (dexp a))"

text \<open>Unary plus rounds to the context and drops the sign of zero.\<close>

definition d_pos :: "decimal \<Rightarrow> decimal" where
  "d_pos a = dfix (Dec (dcoef a \<noteq> 0 \<and> dneg a) (dcoef a) (dexp a))"

text \<open>Dropping trailing zeros towards the ideal exponent of an exact quotient.\<close>

fun strip_zeros :: "nat \<Rightarrow> nat \<Rightarrow> int \<Rightarrow> nat \<times> int" where
  "strip_zeros 0 c e = (c, e)"
| "strip_zeros (Suc n) c e =
     (if c mod 10 = 0 then strip_zeros n (c div 10) (e + 1) else (c, e))"

text \<open>
  Division: the quotient is computed to at least one digit more than the precision; an inexact
  quotient ending in 0 or 5 gets a sticky last digit so that the final rounding is correct.
  The caller excludes a zero divisor, for which Python raises.
\<close>

definition d_div :: "decimal \<Rightarrow> decimal \<Rightarrow> decimal" where
  "d_div a b =
     (let s = (dneg a \<noteq> dneg b); ideal = dexp a - dexp b in
      if dcoef a = 0 then dfix (Dec s 0 ideal)
      else
        let shift = int (ndigits (dcoef b)) - int (ndigits (dcoef a)) + int prec + 1;
            num = dcoef a * 10 ^ nat shift;
            den = dcoef b * 10 ^ nat (- shift);
            c = num div den; r = num mod den; e = ideal - shift in
        if r \<noteq> 0 then dfix (Dec s (if c mod 5 = 0 then c + 1 else c) e)
        else case strip_zeros (nat (ideal - e)) c e of (c', e') \<Rightarrow> dfix (Dec s c' e'))"

text \<open>\<^verbatim>\<open>a / b\<close> with the signals of the default context for a zero divisor.\<close>

definition dec_div :: "decimal \<Rightarrow> decimal \<Rightarrow> decimal result" where
  "dec_div a b =
     (if dcoef b = 0 then Inl (if dcoef a = 0 then InvalidOperation else DivisionByZero)
      else Inr (d_div a b))"

text \<open>\<^verbatim>\<open>a.quantize(q, rounding=m)\<close>: the exponent of \<open>q\<close>, more than 28 digits being invalid.\<close>

definition quantize :: "rounding \<Rightarrow> decimal \<Rightarrow> decimal \<Rightarrow> decimal result" where
  "quantize m q a =
     (let k = dexp a - dexp q;
          c = round_quot m (dcoef a * 10 ^ nat k) (10 ^ nat (- k)) in
      if ndigits c \<le> prec then Inr (Dec (dneg a) c (dexp q)) else Inl InvalidOperation)"

text \<open>
  Square root: Newton's iteration for the integer square root of a coefficient scaled to 29
  base-100 digits, then the same sticky digit as in division.
\<close>

function isqrt_newton :: "nat \<Rightarrow> nat \<Rightarrow> nat" where
  "isqrt_newton c n = (if n \<le> c div n then n else isqrt_newton c ((n + c div n) div 2))"
  by pat_completeness auto
termination
  by (relation "measure snd") auto

declare isqrt_newton.simps [simp del]

definition d_sqrt :: "decimal \<Rightarrow> decimal" where
  "d_sqrt a =
     (if dcoef a = 0 then dfix (Dec (dneg a) 0 (dexp a div 2))
      else
        let odd_exp = odd (dexp a);
            c0 = (if odd_exp then dcoef a * 10 else dcoef a);
            l = (if odd_exp then ndigits (dcoef a) div 2 + 1 else (ndigits (dcoef a) + 1) div 2);
            shift = int (prec + 1) - int l;
            c = c0 * 100 ^ nat shift div 100 ^ nat (- shift);
            rem = c0 * 100 ^ nat shift mod 100 ^ nat (- shift);
            n = isqrt_newton c (10 ^ (prec + 1));
            e = dexp a div 2 - shift in
        if rem = 0 \<and> n * n = c
        then dfix (Dec False (n * 10 ^ nat (- shift) div 10 ^ nat shift) (e + shift))
        else dfix (Dec False (if n mod 5 = 0 then n + 1 else n) e))"

text \<open>Python's two-argument \<^verbatim>\<open>max\<close> and \<^verbatim>\<open>min\<close> keep the first of two equal arguments.\<close>

definition py_max :: "'a::ord \<Rightarrow> 'a \<Rightarrow> 'a" where
  "py_max a b = (if a < b then b else a)"

definition py_min :: "'a::ord \<Rightarrow> 'a \<Rightarrow> 'a" where
  "py_min a b = (if b < a then b else a)"

instantiation decimal :: "{zero, one, plus, minus, times, uminus, ord}"
begin

definition zero_decimal :: decimal where
  "zero_decimal = Dec False 0 0"

definition one_decimal :: decimal where
  "one_decimal = Dec False 1 0"

definition plus_decimal :: "decimal \<Rightarrow> decimal \<Rightarrow> decimal" where
  "plus_decimal = d_add"

definition minus_decimal :: "decimal \<Rightarrow> decimal \<Rightarrow> decimal" where
  "minus_decimal = d_sub"

definition times_decimal :: "decimal \<Rightarrow> decimal \<Rightarrow> decimal" where
  "times_decimal = d_mul"

definition uminus_decimal :: "decimal \<Rightarrow> decimal" where
  "uminus_decimal = d_neg"

definition less_eq_decimal :: "decimal \<Rightarrow> decimal \<Rightarrow> bool" where
  "less_eq_decimal a b \<longleftrightarrow> (case align a b of (x, y) \<Rightarrow> x \<le> y)"

definition less_decimal :: "decimal \<Rightarrow> decimal \<Rightarrow> bool" where
  "less_decimal a b \<longleftrightarrow> (case align a b of (x, y) \<Rightarrow> x < y)"

instance ..

end

text \<open>\<^verbatim>\<open>sum(xs, Decimal("0"))\<close>.\<close>

definition dsum :: "decimal list \<Rightarrow> decimal" where
  "dsum xs = foldl (+) 0 xs"

section \<open>Values\<close>

abbreviation pow10 :: "int \<Rightarrow> rat" where
  "pow10 e \<equiv> 10 powi e"

definition dval :: "decimal \<Rightarrow> rat" where
  "dval d = of_int (scoef d) * pow10 (dexp d)"

text \<open>Rounding half to even on the rationals.\<close>

definition rhe :: "rat \<Rightarrow> int" where
  "rhe x =
     (let f = \<lfloor>x\<rfloor>; r = x - of_int f in
      if r < 1/2 then f else if 1/2 < r then f + 1 else if even f then f else f + 1)"

text \<open>The exponent of the leading digit of a non-zero rational.\<close>

definition adj :: "rat \<Rightarrow> int" where
  "adj x = \<lfloor>log 10 (of_rat \<bar>x\<bar>)\<rfloor>"

text \<open>The context rounding as a function on rationals.\<close>

definition ctx :: "rat \<Rightarrow> rat" where
  "ctx x =
     (if x = 0 then 0
      else let u = pow10 (adj x - int prec + 1) in of_int (rhe (x / u)) * u)"

subsection \<open>Integer rounding\<close>

lemma rhe_of_int [simp]: "rhe (of_int k) = k"
  by (simp add: rhe_def)

lemma rhe_bounds: "\<lfloor>x\<rfloor> \<le> rhe x" "rhe x \<le> \<lfloor>x\<rfloor> + 1"
  by (auto simp: rhe_def Let_def)

lemma rhe_error: "\<bar>of_int (rhe x) - x\<bar> \<le> 1/2"
proof -
  have "of_int \<lfloor>x\<rfloor> \<le> x" "x < of_int \<lfloor>x\<rfloor> + 1" by linarith+
  moreover have "rhe x = \<lfloor>x\<rfloor> \<and> x - of_int \<lfloor>x\<rfloor> \<le> 1/2 \<or> rhe x = \<lfloor>x\<rfloor> + 1 \<and> 1/2 \<le> x - of_int \<lfloor>x\<rfloor>"
    by (auto simp: rhe_def Let_def)
  ultimately show ?thesis by (auto simp: abs_le_iff)
qed

lemma rhe_mono: assumes "x \<le> y" shows "rhe x \<le> rhe y"
proof (cases "\<lfloor>x\<rfloor> = \<lfloor>y\<rfloor>")
  case True
  then show ?thesis using assms by (auto simp: rhe_def Let_def)
next
  case False
  with assms have "\<lfloor>x\<rfloor> + 1 \<le> \<lfloor>y\<rfloor>" using floor_mono [OF assms] by linarith
  then show ?thesis using rhe_bounds [of x] rhe_bounds [of y] by linarith
qed

lemma rhe_uminus: "rhe (- x) = - rhe x"
proof (cases "x = of_int \<lfloor>x\<rfloor>")
  case True
  then show ?thesis by (metis rhe_of_int of_int_minus)
next
  case False
  then have f: "\<lfloor>- x\<rfloor> = - \<lfloor>x\<rfloor> - 1" by linarith
  have "even (- \<lfloor>x\<rfloor> - 1) \<longleftrightarrow> odd \<lfloor>x\<rfloor>" by presburger
  then show ?thesis unfolding rhe_def Let_def f by auto
qed

lemma round_quot_half_even:
  assumes "0 < m"
  shows "int (round_quot ROUND_HALF_EVEN n m) = rhe (of_nat n / of_nat m)"
proof -
  define q r where "q = n div m" and "r = n mod m"
  have n: "n = q * m + r" and r: "r < m" using assms by (auto simp: q_def r_def)
  have eq: "(of_nat n :: rat) / of_nat m = of_nat q + of_nat r / of_nat m"
    using assms by (simp add: n field_simps)
  have frac: "0 \<le> (of_nat r :: rat) / of_nat m" "(of_nat r :: rat) / of_nat m < 1"
    using r assms by (simp_all add: field_simps)
  have fl: "\<lfloor>(of_nat n :: rat) / of_nat m\<rfloor> = int q"
    unfolding eq using frac by (intro floor_unique) auto
  have lt: "(of_nat r :: rat) / of_nat m < 1/2 \<longleftrightarrow> 2 * r < m"
    using assms by (simp add: field_simps) (metis of_nat_less_iff of_nat_mult of_nat_numeral mult.commute)
  have gt: "1/2 < (of_nat r :: rat) / of_nat m \<longleftrightarrow> m < 2 * r"
    using assms by (simp add: field_simps) (metis of_nat_less_iff of_nat_mult of_nat_numeral mult.commute)
  show ?thesis
    unfolding rhe_def Let_def fl unfolding eq using lt gt
    by (auto simp: q_def [symmetric] r_def [symmetric] Let_def)
qed

subsection \<open>The leading digit\<close>

lemma pow10_pos [simp]: "0 < pow10 e" and pow10_nonneg [simp]: "0 \<le> pow10 e"
  by simp_all

lemma pow10_add: "pow10 (a + b) = pow10 a * pow10 b"
  by (simp add: power_int_add)

lemma pow10_diff: "pow10 (a - b) = pow10 a / pow10 b"
  by (simp add: power_int_diff)

lemma pow10_nat: "pow10 (int n) = 10 ^ n"
  by (simp add: power_int_def)

lemma pow10_mono: "a \<le> b \<Longrightarrow> pow10 a \<le> pow10 b"
  by (intro power_int_increasing) auto

lemma pow10_less_iff: "pow10 a < pow10 b \<longleftrightarrow> a < b"
  by (metis linorder_not_less pow10_mono power_int_strict_increasing one_less_numeral_iff semiring_norm(76))

lemma of_rat_pow10: "(of_rat (pow10 k) :: real) = 10 powi k"
  by (simp add: power_int_def of_rat_power of_rat_divide)

lemma adj_bounds:
  assumes "x \<noteq> 0"
  shows "pow10 (adj x) \<le> \<bar>x\<bar>" "\<bar>x\<bar> < pow10 (adj x + 1)"
proof -
  have pos: "(0::real) < of_rat \<bar>x\<bar>" using assms by simp
  have "10 powr real_of_int (adj x) \<le> of_rat \<bar>x\<bar> \<and> of_rat \<bar>x\<bar> < 10 powr real_of_int (adj x + 1)"
    using floor_log_eq_powr_iff [OF pos, of 10 "adj x"] by (simp add: adj_def)
  moreover have "10 powr real_of_int k = of_rat (pow10 k)" for k
    by (simp add: powr_real_of_int' of_rat_pow10)
  ultimately have "of_rat (pow10 (adj x)) \<le> (of_rat \<bar>x\<bar> :: real)"
    "(of_rat \<bar>x\<bar> :: real) < of_rat (pow10 (adj x + 1))" by metis+
  then show "pow10 (adj x) \<le> \<bar>x\<bar>" "\<bar>x\<bar> < pow10 (adj x + 1)"
    by (simp_all only: of_rat_less_eq of_rat_less)
qed

lemma adj_unique:
  assumes "pow10 k \<le> \<bar>x\<bar>" "\<bar>x\<bar> < pow10 (k + 1)"
  shows "adj x = k"
proof -
  have "0 < \<bar>x\<bar>" by (rule less_le_trans [OF pow10_pos assms(1)])
  then have "x \<noteq> 0" by simp
  from adj_bounds [OF this] assms have "pow10 k < pow10 (adj x + 1)" "pow10 (adj x) < pow10 (k + 1)"
    by linarith+
  then show ?thesis by (simp add: pow10_less_iff)
qed

lemma adj_uminus: "adj (- x) = adj x"
  by (simp add: adj_def)

lemma adj_mono:
  assumes "0 < x" "x \<le> y"
  shows "adj x \<le> adj y"
proof -
  have "pow10 (adj x) < pow10 (adj y + 1)"
    using adj_bounds [of x] adj_bounds [of y] assms by linarith
  then show ?thesis by (simp add: pow10_less_iff)
qed

subsection \<open>The context rounding\<close>

abbreviation ulp :: "rat \<Rightarrow> rat" where
  "ulp x \<equiv> pow10 (adj x - int prec + 1)"

lemma ctx_0 [simp]: "ctx 0 = 0"
  by (simp add: ctx_def)

lemma ctx_nonzero: "x \<noteq> 0 \<Longrightarrow> ctx x = of_int (rhe (x / ulp x)) * ulp x"
  by (simp add: ctx_def Let_def)

lemma ctx_uminus [simp]: "ctx (- x) = - ctx x"
  by (simp add: ctx_def Let_def adj_uminus rhe_uminus)

lemma ctx_exact_strict:
  assumes x: "x = of_int k * pow10 e" and k: "\<bar>k\<bar> < 10 ^ prec"
  shows "ctx x = x"
proof (cases "x = 0")
  case False
  have "\<bar>x\<bar> = of_int \<bar>k\<bar> * pow10 e" by (simp add: x abs_mult)
  also have "\<dots> < of_int (10 ^ prec) * pow10 e"
    using k by (intro mult_strict_right_mono) (auto simp only: of_int_less_iff pow10_pos)
  also have "\<dots> = pow10 (e + int prec)" by (simp add: pow10_add pow10_nat)
  finally have "pow10 (adj x) < pow10 (e + int prec)" using adj_bounds(1) [OF False] by linarith
  then have "adj x < e + int prec" by (simp only: pow10_less_iff)
  then have "adj x - int prec + 1 \<le> e" by simp
  then obtain n where n: "e = adj x - int prec + 1 + int n"
    using zle_iff_zadd by blast
  define u where "u = ulp x"
  have "0 < u" by (simp add: u_def)
  have "pow10 e = u * 10 ^ n"
    unfolding u_def by (subst n) (simp only: pow10_add pow10_nat)
  then have q: "x = of_int (k * 10 ^ n) * u" using x by simp
  then have "x / u = of_int (k * 10 ^ n)" using \<open>0 < u\<close> by simp
  then have "rhe (x / u) = k * 10 ^ n" by (simp only: rhe_of_int)
  then have "ctx x = of_int (k * 10 ^ n) * u"
    using ctx_nonzero [OF False] by (simp only: u_def [symmetric])
  with q show ?thesis by simp
qed simp

text \<open>A number with at most 28 digits (or ten to the 28) times a power of ten is not changed.\<close>

lemma ctx_exact:
  assumes x: "x = of_int k * pow10 e" and k: "\<bar>k\<bar> \<le> 10 ^ prec"
  shows "ctx x = x"
proof (cases "\<bar>k\<bar> = 10 ^ prec")
  case True
  then have "k = sgn k * 10 ^ prec" by (metis sgn_mult_abs)
  then have "of_int k = of_int (sgn k) * (10 :: rat) ^ prec"
    by (metis of_int_mult of_int_numeral of_int_power)
  then have "x = of_int (sgn k) * pow10 (e + int prec)"
    using x by (simp add: pow10_add pow10_nat)
  then show ?thesis by (rule ctx_exact_strict) (auto simp: sgn_if prec_def)
next
  case False
  with k show ?thesis by (intro ctx_exact_strict [OF x]) linarith
qed

lemma ctx_pow10 [simp]: "ctx (pow10 e) = pow10 e"
  by (rule ctx_exact [of _ 1]) auto

lemma ctx_pos_bounds:
  assumes "0 < x"
  shows "pow10 (adj x) \<le> ctx x" "ctx x \<le> pow10 (adj x + 1)"
proof -
  have b: "pow10 (adj x) \<le> x" "x < pow10 (adj x + 1)" using adj_bounds [of x] assms by auto
  have e: "pow10 (adj x) / ulp x = of_int (10 ^ (prec - 1))" "pow10 (adj x + 1) / ulp x = of_int (10 ^ prec)"
    by (simp_all add: pow10_diff pow10_add pow10_nat prec_def)
  have "of_int (10 ^ (prec - 1)) \<le> x / ulp x" "x / ulp x \<le> of_int (10 ^ prec)"
    unfolding e [symmetric] using b by (simp_all add: divide_right_mono)
  then have r: "10 ^ (prec - 1) \<le> rhe (x / ulp x)" "rhe (x / ulp x) \<le> 10 ^ prec"
    using rhe_mono rhe_of_int by metis+
  have "pow10 (adj x) = of_int (10 ^ (prec - 1)) * ulp x" "pow10 (adj x + 1) = of_int (10 ^ prec) * ulp x"
    using e by (simp_all add: field_simps)
  then show "pow10 (adj x) \<le> ctx x" "ctx x \<le> pow10 (adj x + 1)"
    using r assms by (simp_all add: ctx_nonzero del: of_int_power)
qed

lemma ctx_pos: "0 < x \<Longrightarrow> 0 < ctx x"
  using ctx_pos_bounds(1) pow10_pos by (rule less_le_trans [rotated])

lemma ctx_nonneg: "0 \<le> x \<Longrightarrow> 0 \<le> ctx x"
  using ctx_pos [of x] by (cases "x = 0") auto

lemma ctx_mono_pos:
  assumes "0 < x" "x \<le> y"
  shows "ctx x \<le> ctx y"
proof (cases "adj x = adj y")
  case True
  then have "rhe (x / ulp x) \<le> rhe (y / ulp y)"
    using assms by (intro rhe_mono) (simp add: divide_right_mono)
  then show ?thesis using True assms by (simp add: ctx_nonzero)
next
  case False
  then have "adj x + 1 \<le> adj y" using adj_mono [OF assms] by simp
  then have "pow10 (adj x + 1) \<le> pow10 (adj y)" by (rule pow10_mono)
  then show ?thesis
    using ctx_pos_bounds(2) [OF assms(1)] ctx_pos_bounds(1) [of y] assms by linarith
qed

lemma ctx_mono: assumes "x \<le> y" shows "ctx x \<le> ctx y"
proof -
  consider "0 < x" | "x \<le> 0" "0 \<le> y" | "y < 0" by linarith
  then show ?thesis
  proof cases
    case 1
    then show ?thesis using assms by (rule ctx_mono_pos)
  next
    case 2
    then have "0 \<le> ctx y" "0 \<le> ctx (- x)" by (auto intro: ctx_nonneg simp del: ctx_uminus)
    then show ?thesis by simp
  next
    case 3
    then have "ctx (- y) \<le> ctx (- x)" using assms by (intro ctx_mono_pos) auto
    then show ?thesis by simp
  qed
qed

lemma ctx_ctx [simp]: "ctx (ctx x) = ctx x"
proof -
  have pos: "ctx (ctx y) = ctx y" if "0 < y" for y
  proof (rule ctx_exact)
    show "ctx y = of_int (rhe (y / ulp y)) * ulp y" using that by (simp add: ctx_nonzero)
    have "of_int (rhe (y / ulp y)) * ulp y \<le> of_int (10 ^ prec) * ulp y"
      using ctx_pos_bounds(2) [OF that] that by (simp add: ctx_nonzero pow10_diff pow10_add pow10_nat field_simps)
    then have "rhe (y / ulp y) \<le> 10 ^ prec"
      by (simp only: mult_le_cancel_right_pos [OF pow10_pos] of_int_le_iff)
    moreover have "0 \<le> of_int (rhe (y / ulp y)) * ulp y" using ctx_pos [OF that] that by (simp add: ctx_nonzero)
    then have "0 \<le> rhe (y / ulp y)" 
      by (metis linorder_not_less mult_neg_pos of_int_less_0_iff pow10_pos)
    ultimately show "\<bar>rhe (y / ulp y)\<bar> \<le> 10 ^ prec" by simp
  qed
  show ?thesis
  proof (cases x "0 :: rat" rule: linorder_cases)
    case less
    then have "ctx (ctx (- x)) = ctx (- x)" by (intro pos) simp
    then show ?thesis by simp
  qed (auto intro: pos)
qed

lemma ctx_error: "\<bar>ctx x - x\<bar> \<le> \<bar>x\<bar> * pow10 (1 - int prec) / 2"
proof (cases "x = 0")
  case False
  have "\<bar>of_int (rhe (x / ulp x)) - x / ulp x\<bar> * ulp x \<le> 1/2 * ulp x"
    by (intro mult_right_mono rhe_error) simp
  moreover have "(of_int (rhe (x / ulp x)) - x / ulp x) * ulp x = ctx x - x"
    using False by (simp add: ctx_nonzero field_simps)
  ultimately have "\<bar>ctx x - x\<bar> \<le> 1/2 * ulp x"
    by (metis abs_mult abs_of_pos pow10_pos)
  also have "\<dots> = pow10 (adj x) * pow10 (1 - int prec) / 2"
    by (simp add: pow10_diff pow10_add)
  also have "\<dots> \<le> \<bar>x\<bar> * pow10 (1 - int prec) / 2"
    using adj_bounds(1) [OF False] by (intro divide_right_mono mult_right_mono) auto
  finally show ?thesis .
qed simp

subsection \<open>Values of the representation\<close>

lemma dval_mkdec [dval_simps]: "dval (mkdec z k e) = of_int k * pow10 e"
  by (auto simp: dval_def mkdec_def scoef_def abs_if)

lemma dval_D [dval_simps]: "dval (D k e) = of_int k * pow10 e"
  by (simp add: D_def dval_mkdec)

lemma dval_Dec: "dval (Dec s c e) = (if s then - of_nat c else of_nat c) * pow10 e"
  by (simp add: dval_def scoef_def)

lemma dval_0 [simp]: "dval 0 = 0"
  by (simp add: zero_decimal_def dval_Dec)

lemma dval_1 [simp]: "dval 1 = 1"
  by (simp add: one_decimal_def dval_Dec)

lemma dval_eq_0_iff: "dval d = 0 \<longleftrightarrow> dcoef d = 0"
  by (auto simp: dval_def scoef_def)

lemma abs_dval: "\<bar>dval d\<bar> = of_nat (dcoef d) * pow10 (dexp d)"
  by (simp add: dval_def scoef_def abs_mult)

lemma ndigits_bounds: "n < 10 ^ ndigits n" "0 < n \<Longrightarrow> 10 ^ (ndigits n - 1) \<le> n" "0 < ndigits n"
proof (induction n rule: ndigits.induct)
  case (1 n)
  {
    case 1
    show ?case
    proof (cases "n < 10")
      case False
      with "1.IH" have "n div 10 < 10 ^ ndigits (n div 10)" by simp
      then have "n < 10 * 10 ^ ndigits (n div 10)" by linarith
      with False show ?thesis by (simp add: ndigits.simps [of n])
    qed (simp add: ndigits.simps [of n])
  next
    case 2
    show ?case
    proof (cases "n < 10")
      case False
      with "1.IH" have "10 ^ (ndigits (n div 10) - 1) \<le> n div 10" "0 < ndigits (n div 10)" by auto
      then have "10 ^ ndigits (n div 10) \<le> 10 * (n div 10)"
        by (metis Suc_diff_1 mult_le_mono2 power_Suc)
      also have "\<dots> \<le> n" by simp
      finally show ?thesis using False by (simp add: ndigits.simps [of n])
    qed (use "2.prems" in \<open>simp add: ndigits.simps [of n]\<close>)
  next
    case 3
    show ?case by (simp add: ndigits.simps [of n])
  }
qed

lemma ndigits_le_iff: "0 < k \<Longrightarrow> ndigits n \<le> k \<longleftrightarrow> n < 10 ^ k"
proof
  assume k: "0 < k" and "ndigits n \<le> k"
  then have "(10 :: nat) ^ ndigits n \<le> 10 ^ k" by (intro power_increasing) auto
  then show "n < 10 ^ k" using ndigits_bounds(1) [of n] by linarith
next
  assume k: "0 < k" and n: "n < 10 ^ k"
  show "ndigits n \<le> k"
  proof (cases "n = 0")
    case True
    then show ?thesis using k by (simp add: ndigits.simps)
  next
    case False
    then have "(10 :: nat) ^ (ndigits n - 1) < 10 ^ k" using ndigits_bounds(2) [of n] n by linarith
    then show ?thesis using power_less_imp_less_exp [of 10 "ndigits n - 1" k] by simp
  qed
qed

lemma adj_dval:
  assumes "dcoef d \<noteq> 0"
  shows "adj (dval d) = dexp d + int (ndigits (dcoef d)) - 1"
proof (rule adj_unique)
  let ?n = "ndigits (dcoef d)"
  have n: "dexp d + int ?n - 1 = dexp d + int (?n - 1)" using ndigits_bounds(3) by (simp add: int_ops)
  have "(10 :: rat) ^ (?n - 1) \<le> of_nat (dcoef d)"
    using ndigits_bounds(2) [of "dcoef d"] assms
    by (metis of_nat_le_iff of_nat_numeral of_nat_power neq0_conv)
  then show "pow10 (dexp d + int ?n - 1) \<le> \<bar>dval d\<bar>"
    unfolding n abs_dval by (simp add: pow10_add pow10_nat)
  have "of_nat (dcoef d) < (10 :: rat) ^ ?n"
    using ndigits_bounds(1) [of "dcoef d"] by (metis of_nat_less_iff of_nat_numeral of_nat_power)
  then show "\<bar>dval d\<bar> < pow10 (dexp d + int ?n - 1 + 1)"
    unfolding abs_dval by (simp add: pow10_add pow10_nat)
qed

lemma dval_dfix [dval_simps]: "dval (dfix d) = ctx (dval d)"
proof (cases "ndigits (dcoef d) \<le> prec")
  case True
  then have "int (dcoef d) < 10 ^ prec"
    by (metis ndigits_le_iff of_nat_less_iff of_nat_numeral of_nat_power prec_def zero_less_numeral)
  then have "\<bar>scoef d\<bar> < 10 ^ prec" by (auto simp: scoef_def)
  then show ?thesis using True ctx_exact_strict [of "dval d" "scoef d" "dexp d"]
    by (simp add: dfix_def dval_def)
next
  case False
  define k q where "k = ndigits (dcoef d) - prec"
    and "q = round_quot ROUND_HALF_EVEN (dcoef d) (10 ^ k)"
  have nz: "dcoef d \<noteq> 0"
    using False by (cases "dcoef d = 0") (simp_all add: prec_def ndigits.simps [of 0])
  have "adj (dval d) - int prec + 1 = dexp d + int k"
    using False by (simp add: adj_dval nz k_def)
  then have u: "ulp (dval d) = pow10 (dexp d) * 10 ^ k" by (simp add: pow10_add pow10_nat)
  have q: "int q = rhe (of_nat (dcoef d) / 10 ^ k)"
    using round_quot_half_even [of "10 ^ k" "dcoef d"] by (simp add: q_def)
  have "dval d / ulp (dval d) = (if dneg d then - (of_nat (dcoef d) / 10 ^ k) else of_nat (dcoef d) / 10 ^ k)"
    unfolding u by (simp add: dval_def scoef_def)
  then have "rhe (dval d / ulp (dval d)) = (if dneg d then - int q else int q)"
    by (simp add: q rhe_uminus)
  then have "ctx (dval d) = of_int (if dneg d then - int q else int q) * ulp (dval d)"
    using ctx_nonzero [of "dval d"] nz by (simp only: dval_eq_0_iff if_False not_False_eq_True)
  then have c: "ctx (dval d) = (if dneg d then - of_nat q else of_nat q) * pow10 (dexp d + int k)"
    unfolding u by (simp add: pow10_add pow10_nat)
  have "dfix d = (if q = 10 ^ prec then Dec (dneg d) (10 ^ (prec - 1)) (dexp d + int k + 1)
      else Dec (dneg d) q (dexp d + int k))"
    using False by (simp add: dfix_def Let_def k_def q_def)
  then show ?thesis unfolding c by (simp add: dval_Dec prec_def pow10_add)
qed

subsection \<open>Values of the operations\<close>

lemma align_values:
  assumes "align a b = (x, y)"
  shows "dval a = of_int x * pow10 (min (dexp a) (dexp b))"
    "dval b = of_int y * pow10 (min (dexp a) (dexp b))"
proof -
  let ?e = "min (dexp a) (dexp b)"
  have p: "pow10 (dexp a) = 10 ^ nat (dexp a - ?e) * pow10 ?e"
    "pow10 (dexp b) = 10 ^ nat (dexp b - ?e) * pow10 ?e"
    by (simp_all add: pow10_nat [symmetric] pow10_add [symmetric])
  show "dval a = of_int x * pow10 ?e" "dval b = of_int y * pow10 ?e"
    using assms p by (auto simp: align_def Let_def dval_def)
qed

lemma less_eq_decimal_dval [dval_simps]: "(a :: decimal) \<le> b \<longleftrightarrow> dval a \<le> dval b"
  by (cases "align a b") (simp add: less_eq_decimal_def align_values)

lemma less_decimal_dval [dval_simps]: "(a :: decimal) < b \<longleftrightarrow> dval a < dval b"
  by (cases "align a b") (simp add: less_decimal_def align_values)

lemma d_eq_dval [dval_simps]: "d_eq a b \<longleftrightarrow> dval a = dval b"
  by (cases "align a b") (simp add: d_eq_def align_values)

lemma dval_plus [dval_simps]: "dval (a + b) = ctx (dval a + dval b)"
  by (cases "align a b")
    (simp add: plus_decimal_def d_add_def dval_dfix dval_mkdec align_values distrib_right)

lemma dval_flip: "dval (Dec (\<not> dneg b) (dcoef b) (dexp b)) = - dval b"
  by (simp add: dval_def scoef_def)

lemma dval_minus [dval_simps]: "dval (a - b) = ctx (dval a - dval b)"
  using dval_plus [of a "Dec (\<not> dneg b) (dcoef b) (dexp b)"]
  by (simp add: minus_decimal_def d_sub_def plus_decimal_def dval_flip)

lemma dval_times [dval_simps]: "dval (a * b) = ctx (dval a * dval b)"
  by (simp add: times_decimal_def d_mul_def dval_dfix) (simp add: dval_def scoef_def pow10_add mult_ac)

lemma dval_uminus [dval_simps]: "dval (- a) = ctx (- dval a)"
  by (simp add: uminus_decimal_def d_neg_def dval_dfix) (simp add: dval_def scoef_def)

lemma dval_pos [dval_simps]: "dval (d_pos a) = ctx (dval a)"
  by (cases a) (auto simp: d_pos_def dval_dfix dval_Dec)

lemma dval_abs [dval_simps]: "dval (d_abs a) = ctx \<bar>dval a\<bar>"
  by (simp add: d_abs_def dval_dfix) (simp add: dval_def scoef_def)

lemma dval_py_max [dval_simps]: "dval (py_max a b) = max (dval a) (dval b)"
  by (simp add: py_max_def less_decimal_dval max_def)

lemma dval_py_min [dval_simps]: "dval (py_min a b) = min (dval a) (dval b)"
  by (simp add: py_min_def less_decimal_dval min_def)

instance decimal :: preorder
  by standard (auto simp: dval_simps)

subsection \<open>Division\<close>

lemma strip_zeros_value:
  "strip_zeros n c e = (c', e') \<Longrightarrow> of_nat c' * pow10 e' = of_nat c * pow10 e"
proof (induction n c e rule: strip_zeros.induct)
  case (2 n c e)
  show ?case
  proof (cases "c mod 10 = 0")
    case True
    then have "of_nat c = (10 :: rat) * of_nat (c div 10)"
      by (metis dvd_imp_mod_0 dvd_mult_div_cancel mod_eq_0_iff_dvd of_nat_mult of_nat_numeral)
    moreover have "of_nat c' * pow10 e' = of_nat (c div 10) * pow10 (e + 1)"
      using 2 True by simp
    ultimately show ?thesis by (simp add: pow10_add)
  qed (use 2 in simp)
qed simp

lemma rhe_no_tie:
  assumes "\<lfloor>x\<rfloor> = f" "x - of_int f \<noteq> 1/2"
  shows "rhe x = (if x - of_int f < 1/2 then f else f + 1)"
  using assms by (auto simp: rhe_def Let_def)

text \<open>Rounding the quotient with its sticky digit is rounding the exact quotient.\<close>

lemma sticky_rhe:
  fixes c h :: nat and t :: rat
  assumes t: "of_nat c < t" "t < of_nat c + 1" and h: "0 < h"
    and c': "c' = (if c mod 5 = 0 then c + 1 else c)"
  shows "rhe (t / of_nat (10 * h)) = rhe (of_nat c' / of_nat (10 * h))"
proof -
  define m q r where "m = 10 * h" and "q = c' div m" and "r = c' mod m"
  have m: "0 < m" using h by (simp add: m_def)
  have c'_eq: "c' = q * m + r" and r: "r < m" using m by (auto simp: q_def r_def)
  have "c' mod 5 \<noteq> 0" unfolding c' by (auto simp: mod_Suc)
  moreover have "c' mod 5 = r mod 5" by (simp add: c'_eq m_def mod_add_eq [symmetric] mod_mult_eq [symmetric])
  ultimately have r5: "r mod 5 \<noteq> 0" by simp
  define \<rho> where "\<rho> = t - of_nat (q * m)"
  have \<rho>: "\<rho> = t - of_nat c' + of_nat r" by (simp add: \<rho>_def c'_eq)
  have close: "(of_nat r < \<rho> \<and> \<rho> < of_nat r + 1) \<or> (of_nat r - 1 < \<rho> \<and> \<rho> < of_nat r \<and> (r - 1) mod 5 = 0)"
  proof (cases "c mod 5 = 0")
    case True
    then have "c' = c + 1" by (simp add: c')
    moreover have "(r - 1) mod 5 = 0"
    proof -
      have "(q * m + r) mod 5 = 1" using True \<open>c' = c + 1\<close> c'_eq by (simp add: mod_Suc)
      then have "r mod 5 = 1" using \<open>c' mod 5 = r mod 5\<close> c'_eq by simp
      then show ?thesis by presburger
    qed
    moreover have "of_nat r - 1 < \<rho>" "\<rho> < of_nat r" using t \<open>c' = c + 1\<close> by (simp_all add: \<rho>)
    ultimately show ?thesis by blast
  next
    case False
    then have "c' = c" by (simp add: c')
    then show ?thesis using t by (simp add: \<rho>)
  qed
  have r1: "0 < r" "r \<noteq> 5 * h" "r + 1 \<le> m" using r5 r by (auto intro: gr0I)
  have half: "\<rho> < of_nat (5 * h) \<longleftrightarrow> r < 5 * h" and ne: "\<rho> \<noteq> of_nat (5 * h)"
  proof -
    have nat_cases: "r < 5 * h \<Longrightarrow> of_nat r + 1 \<le> (of_nat (5 * h) :: rat)"
      "5 * h < r \<Longrightarrow> (of_nat (5 * h) :: rat) \<le> of_nat r - 1"
      by (metis (no_types) Suc_leI of_nat_Suc of_nat_le_iff add.commute)
        (metis (no_types) Suc_leI of_nat_Suc of_nat_le_iff add.commute le_diff_eq)
    consider "r < 5 * h" | "5 * h < r" using r1 by linarith
    then show "\<rho> < of_nat (5 * h) \<longleftrightarrow> r < 5 * h" "\<rho> \<noteq> of_nat (5 * h)"
      using nat_cases close by (cases; linarith)+
  qed
  have range: "0 \<le> \<rho>" "\<rho> < of_nat m"
    using close r1 by (auto simp: Suc_le_eq [symmetric])
  have fl: "\<lfloor>t / of_nat m\<rfloor> = int q" "\<lfloor>(of_nat c' :: rat) / of_nat m\<rfloor> = int q"
  proof -
    show "\<lfloor>t / of_nat m\<rfloor> = int q"
      using range m by (intro floor_unique) (simp_all add: field_simps \<rho>_def)
    show "\<lfloor>(of_nat c' :: rat) / of_nat m\<rfloor> = int q"
      by (simp add: floor_divide_of_nat_eq q_def)
  qed
  have fr: "t / of_nat m - of_int (int q) = \<rho> / of_nat m" "of_nat c' / of_nat m - of_int (int q) = (of_nat r :: rat) / of_nat m"
    using m by (simp_all add: field_simps \<rho>_def c'_eq)
  have cmp: "x / of_nat m < 1/2 \<longleftrightarrow> x < of_nat (5 * h)" "x / of_nat m = 1/2 \<longleftrightarrow> x = of_nat (5 * h)" for x :: rat
    using m by (auto simp: field_simps m_def)
  have "(of_nat r :: rat) \<noteq> of_nat (5 * h)" using r1(2) by (simp only: of_nat_eq_iff not_False_eq_True)
  then have "rhe (of_nat c' / of_nat m) = (if (of_nat r :: rat) < of_nat (5 * h) then int q else int q + 1)"
    by (rule rhe_no_tie [OF fl(2), unfolded fr cmp])
  moreover have "rhe (t / of_nat m) = (if \<rho> < of_nat (5 * h) then int q else int q + 1)"
    by (rule rhe_no_tie [OF fl(1), unfolded fr cmp, OF ne])
  ultimately show ?thesis unfolding m_def [symmetric] using half by (simp only: of_nat_less_iff)
qed

lemma sticky_ctx:
  fixes c :: nat and t :: rat
  assumes t: "of_nat c < t" "t < of_nat c + 1" and c: "10 ^ prec \<le> c"
    and c': "c' = (if c mod 5 = 0 then c + 1 else c)"
  shows "ctx t = ctx (of_nat c')"
proof -
  have pos: "0 < t" "(0 :: rat) < of_nat c'" using t c c' by (auto simp: prec_def)
  define n where "n = nat (adj t)"
  have "pow10 (int prec) \<le> of_nat c" unfolding pow10_nat using c by (metis of_nat_le_iff of_nat_numeral of_nat_power)
  moreover have "t < pow10 (adj t + 1)" using adj_bounds(2) [of t] pos by simp
  ultimately have "pow10 (int prec) < pow10 (adj t + 1)" using t(1) by linarith
  then have "int prec \<le> adj t" by (simp only: pow10_less_iff zless_add1_eq le_less)
  then have n: "adj t = int n" "prec \<le> n" by (simp_all add: n_def nat_le_iff le_nat_iff)
  have tn: "10 ^ n \<le> t" "t < 10 ^ (n + 1)"
    using adj_bounds [of t] pos by (simp_all add: n pow10_add pow10_nat)
  have lo: "10 ^ n \<le> c"
  proof (rule ccontr)
    assume "\<not> 10 ^ n \<le> c"
    then have "Suc c \<le> 10 ^ n" by simp
    then have "(of_nat c :: rat) + 1 \<le> 10 ^ n" by (metis of_nat_Suc of_nat_le_iff of_nat_numeral of_nat_power add.commute)
    with tn t show False by linarith
  qed
  have "of_nat c < (10 :: rat) ^ (n + 1)" using tn t by linarith
  then have "c < 10 ^ (n + 1)" by (metis of_nat_less_iff of_nat_numeral of_nat_power)
  moreover have "(10 :: nat) ^ (n + 1) mod 5 = 0" by (simp add: mod_eq_0_iff_dvd)
  ultimately have hi: "c' < 10 ^ (n + 1)" "c \<le> c'" unfolding c' by (auto simp: mod_Suc intro: le_neq_trans)
  have "adj (of_nat c') = int n"
  proof (rule adj_unique)
    have "10 ^ n \<le> c'" using lo hi by linarith
    then have "of_nat (10 ^ n) \<le> (of_nat c' :: rat)" by (simp only: of_nat_le_iff)
    then show "pow10 (int n) \<le> \<bar>of_nat c'\<bar>" by (simp add: pow10_nat)
    have "(of_nat c' :: rat) < of_nat (10 ^ (n + 1))" using hi(1) by (simp only: of_nat_less_iff)
    then show "\<bar>of_nat c'\<bar> < pow10 (int n + 1)" by (simp add: pow10_add pow10_nat)
  qed
  moreover obtain k where k: "n - prec = k" by blast
  moreover have "pow10 (int n - int prec + 1) = of_nat (10 * 10 ^ k)"
    using n(2) k by (simp add: pow10_add pow10_nat of_nat_diff [symmetric] del: of_nat_diff)
  ultimately show ?thesis
    using pos n(1) sticky_rhe [OF t _ c', of "10 ^ k"] by (simp add: ctx_nonzero)
qed

lemma div_precision:
  assumes "0 < x" "0 < y"
  shows "10 ^ prec \<le> x * 10 ^ nat (int (ndigits y) - int (ndigits x) + int prec + 1)
    div (y * 10 ^ nat (- (int (ndigits y) - int (ndigits x) + int prec + 1)))"
proof -
  define sh where "sh = int (ndigits y) - int (ndigits x) + int prec + 1"
  have "ndigits y + prec + nat (- sh) = (ndigits x - 1) + nat sh"
    using ndigits_bounds(3) [of x] unfolding sh_def by (cases "0 \<le> sh") (auto simp: sh_def)
  then have "(10 :: nat) ^ prec * (10 ^ ndigits y * 10 ^ nat (- sh)) = 10 ^ (ndigits x - 1) * 10 ^ nat sh"
    by (metis add.assoc add.commute power_add)
  moreover have "10 ^ (ndigits x - 1) * 10 ^ nat sh \<le> x * 10 ^ nat sh"
    using ndigits_bounds(2) [OF assms(1)] by simp
  moreover have "10 ^ prec * (y * 10 ^ nat (- sh)) \<le> 10 ^ prec * (10 ^ ndigits y * 10 ^ nat (- sh))"
    using ndigits_bounds(1) [of y] by simp
  ultimately have "10 ^ prec * (y * 10 ^ nat (- sh)) \<le> x * 10 ^ nat sh" by linarith
  then show ?thesis unfolding sh_def [symmetric] using assms by (simp add: less_eq_div_iff_mult_less_eq)
qed

lemma adj_scale: assumes "x \<noteq> 0" shows "adj (x * pow10 e) = adj x + e"
proof (rule adj_unique)
  show "pow10 (adj x + e) \<le> \<bar>x * pow10 e\<bar>" "\<bar>x * pow10 e\<bar> < pow10 (adj x + e + 1)"
    using adj_bounds [OF assms] by (simp_all add: pow10_add abs_mult)
qed

text \<open>The rounding commutes with shifting the decimal point.\<close>

lemma ctx_scale: "ctx (x * pow10 e) = ctx x * pow10 e"
proof (cases "x = 0")
  case False
  then have "ulp (x * pow10 e) = ulp x * pow10 e"
    by (simp add: adj_scale pow10_add pow10_diff)
  then show ?thesis using False by (simp add: ctx_nonzero)
qed simp

lemma dval_d_div:
  assumes "dval b \<noteq> 0"
  shows "dval (d_div a b) = ctx (dval a / dval b)"
proof (cases "dcoef a = 0")
  case True
  then have "dval a = 0" by (simp add: dval_eq_0_iff)
  then show ?thesis using True by (simp add: d_div_def dval_dfix dval_Dec)
next
  case False
  define la lb where "la = ndigits (dcoef a)" and "lb = ndigits (dcoef b)"
  define sh where "sh = int lb - int la + int prec + 1"
  define num den where "num = dcoef a * 10 ^ nat sh" and "den = dcoef b * 10 ^ nat (- sh)"
  define c r e s where "c = num div den" and "r = num mod den" and "e = dexp a - dexp b - sh"
    and "s = (dneg a \<noteq> dneg b)"
  define sg :: rat where "sg = (if s then -1 else 1)"
  have b0: "0 < dcoef b" and den0: "0 < den" using assms by (auto simp: dval_eq_0_iff den_def)
  have quot: "of_nat num / of_nat den = of_nat (dcoef a) / of_nat (dcoef b) * pow10 sh"
    by (cases "0 \<le> sh") (simp_all add: num_def den_def power_int_def field_simps)
  have val: "dval a / dval b = sg * (of_nat num / of_nat den) * pow10 e"
    unfolding quot using b0 by (simp add: dval_def scoef_def sg_def s_def e_def pow10_diff)
  have ctx_sg: "ctx (sg * x) = sg * ctx x" for x by (simp add: sg_def)
  show ?thesis
  proof (cases "r = 0")
    case True
    obtain c' e' where st: "strip_zeros (nat (dexp a - dexp b - e)) c e = (c', e')" by force
    have "of_nat num / of_nat den = (of_nat c :: rat)"
      using True den0 by (simp add: c_def r_def) (metis div_mult_mod_eq add.right_neutral nonzero_mult_div_cancel_right of_nat_eq_0_iff of_nat_mult neq0_conv)
    then have "dval a / dval b = sg * (of_nat c' * pow10 e')" using val strip_zeros_value [OF st] by simp
    moreover have "d_div a b = dfix (Dec s c' e')"
      using False True st unfolding d_div_def Let_def
      by (simp add: la_def [symmetric] lb_def [symmetric] sh_def [symmetric] num_def [symmetric]
          den_def [symmetric] c_def [symmetric] r_def [symmetric] e_def [symmetric] s_def)
    ultimately show ?thesis by (simp add: dval_dfix dval_Dec sg_def)
  next
    case False': False
    define c' where "c' = (if c mod 5 = 0 then c + 1 else c)"
    have dd: "d_div a b = dfix (Dec s c' e)"
      using False False' unfolding d_div_def Let_def
      by (simp add: la_def [symmetric] lb_def [symmetric] sh_def [symmetric] num_def [symmetric]
          den_def [symmetric] c_def [symmetric] r_def [symmetric] e_def [symmetric] s_def c'_def)
    have den: "num = c * den + r" "r < den" using den0 by (simp_all add: c_def r_def)
    define t :: rat where "t = of_nat num / of_nat den"
    have t: "of_nat c < t" "t < of_nat c + 1"
      unfolding t_def using den False' den0 by (simp_all add: field_simps)
    have "10 ^ prec \<le> c"
      unfolding c_def num_def den_def sh_def la_def lb_def by (rule div_precision) (use False b0 in auto)
    then have "ctx t = ctx (of_nat c')" by (rule sticky_ctx [OF t _ c'_def])
    then show ?thesis unfolding dd val t_def [symmetric]
      by (simp add: dval_dfix dval_Dec ctx_sg mult.assoc) (simp add: sg_def ctx_scale)
  qed
qed

lemma dec_div_Inr [result_simps]: "dec_div a b = Inr d \<longleftrightarrow> dval b \<noteq> 0 \<and> d = d_div a b"
  by (auto simp: dec_div_def dval_eq_0_iff)

subsection \<open>Quantizing\<close>

text \<open>The two rounding modes on the rationals: half to even, and towards zero.\<close>

definition rtrunc :: "rat \<Rightarrow> int" where
  "rtrunc x = (if 0 \<le> x then \<lfloor>x\<rfloor> else - \<lfloor>- x\<rfloor>)"

fun dround :: "rounding \<Rightarrow> rat \<Rightarrow> int" where
  "dround ROUND_HALF_EVEN x = rhe x"
| "dround ROUND_DOWN x = rtrunc x"

lemma round_quot_dround: "0 < m \<Longrightarrow> int (round_quot mode n m) = dround mode (of_nat n / of_nat m)"
  by (cases mode) (auto simp: round_quot_half_even rtrunc_def floor_divide_of_nat_eq simp del: round_quot.simps(2))

lemma dround_uminus: "dround mode (- x) = - dround mode x"
  by (cases mode) (auto simp: rhe_uminus rtrunc_def)

lemma dround_mono:
  assumes "x \<le> y"
  shows "dround mode x \<le> dround mode y"
proof (cases mode)
  case ROUND_DOWN
  consider "0 \<le> x" "0 \<le> y" | "x < 0" "0 \<le> y" | "x < 0" "y < 0" using assms by linarith
  then have "rtrunc x \<le> rtrunc y"
  proof cases
    case 2
    then have "0 \<le> \<lfloor>- x\<rfloor>" "0 \<le> \<lfloor>y\<rfloor>" by simp_all
    then have "- \<lfloor>- x\<rfloor> \<le> \<lfloor>y\<rfloor>" by linarith
    then show ?thesis using 2 by (simp add: rtrunc_def)
  qed (use assms in \<open>simp_all add: rtrunc_def floor_mono\<close>)
  then show ?thesis by (simp add: ROUND_DOWN)
qed (use assms in \<open>simp add: rhe_mono\<close>)

lemma dround_of_int [simp]: "dround mode (of_int k) = k"
  by (cases mode) (auto simp: rtrunc_def) 

lemma quantize_value:
  assumes "quantize mode q a = Inr d"
  shows "dval d = of_int (dround mode (dval a / pow10 (dexp q))) * pow10 (dexp q)"
    and "dexp d = dexp q" and "dcoef d < 10 ^ prec"
proof -
  define k where "k = dexp a - dexp q"
  define c where "c = round_quot mode (dcoef a * 10 ^ nat k) (10 ^ nat (- k))"
  have d: "d = Dec (dneg a) c (dexp q)" "ndigits c \<le> prec"
    using assms by (auto simp: quantize_def Let_def k_def c_def split: if_splits)
  have "int c = dround mode (of_nat (dcoef a * 10 ^ nat k) / of_nat (10 ^ nat (- k)))"
    unfolding c_def by (rule round_quot_dround) simp
  also have "of_nat (dcoef a * 10 ^ nat k) / of_nat (10 ^ nat (- k)) = of_nat (dcoef a) * pow10 k"
    by (cases "0 \<le> k") (simp_all add: power_int_def field_simps)
  finally have c: "int c = dround mode (of_nat (dcoef a) * pow10 k)" .
  have "dval a / pow10 (dexp q) = (if dneg a then - (of_nat (dcoef a) * pow10 k) else of_nat (dcoef a) * pow10 k)"
    by (simp add: dval_def scoef_def k_def pow10_diff)
  then have "dround mode (dval a / pow10 (dexp q)) = (if dneg a then - int c else int c)"
    by (simp add: c dround_uminus)
  then show "dval d = of_int (dround mode (dval a / pow10 (dexp q))) * pow10 (dexp q)"
    by (simp add: d dval_Dec)
  show "dexp d = dexp q" by (simp add: d)
  show "dcoef d < 10 ^ prec" using d by (simp add: ndigits_le_iff prec_def)
qed

lemma quantize_down:
  assumes "quantize ROUND_DOWN q a = Inr d" "0 \<le> dval a"
  shows "0 \<le> dval d" "dval d \<le> dval a" "dval a - dval d < pow10 (dexp q)"
proof -
  define x where "x = dval a / pow10 (dexp q)"
  have a: "dval a = x * pow10 (dexp q)" and "0 \<le> x" using assms(2) by (simp_all add: x_def)
  then have d: "dval d = of_int \<lfloor>x\<rfloor> * pow10 (dexp q)"
    using quantize_value(1) [OF assms(1)] by (simp add: x_def rtrunc_def)
  show "0 \<le> dval d" using \<open>0 \<le> x\<close> by (simp add: d)
  show "dval d \<le> dval a" unfolding d a by (intro mult_right_mono) auto
  have "(x - of_int \<lfloor>x\<rfloor>) * pow10 (dexp q) < 1 * pow10 (dexp q)"
    by (intro mult_strict_right_mono) (linarith, simp)
  then show "dval a - dval d < pow10 (dexp q)" unfolding d a by (simp add: left_diff_distrib)
qed

lemma quantize_half_even_error:
  assumes "quantize ROUND_HALF_EVEN q a = Inr d"
  shows "\<bar>dval d - dval a\<bar> \<le> pow10 (dexp q) / 2"
proof -
  define x where "x = dval a / pow10 (dexp q)"
  have "dval d - dval a = (of_int (rhe x) - x) * pow10 (dexp q)"
    using quantize_value(1) [OF assms] by (simp add: x_def left_diff_distrib)
  then have "\<bar>dval d - dval a\<bar> = \<bar>of_int (rhe x) - x\<bar> * pow10 (dexp q)" by (simp add: abs_mult)
  also have "\<dots> \<le> 1/2 * pow10 (dexp q)" by (intro mult_right_mono rhe_error) simp
  finally show ?thesis by simp
qed

lemma quantize_succeeds:
  assumes "\<bar>dval a\<bar> \<le> pow10 (dexp q + 27)"
  shows "\<exists>d. quantize mode q a = Inr d"
proof -
  define k where "k = dexp a - dexp q"
  define c where "c = round_quot mode (dcoef a * 10 ^ nat k) (10 ^ nat (- k))"
  have "int c = dround mode (of_nat (dcoef a * 10 ^ nat k) / of_nat (10 ^ nat (- k)))"
    unfolding c_def by (rule round_quot_dround) simp
  also have "of_nat (dcoef a * 10 ^ nat k) / of_nat (10 ^ nat (- k)) = of_nat (dcoef a) * pow10 k"
    by (cases "0 \<le> k") (simp_all add: power_int_def field_simps)
  also have "of_nat (dcoef a) * pow10 k = \<bar>dval a\<bar> / pow10 (dexp q)"
    by (simp add: abs_dval k_def pow10_diff)
  also have "dround mode \<dots> \<le> dround mode (of_int (10 ^ 27))"
    using assms by (intro dround_mono) (simp add: field_simps pow10_add)
  finally have "int c \<le> 10 ^ 27" by (simp only: dround_of_int)
  then have "c < 10 ^ prec" by (simp add: prec_def)
  then have "ndigits c \<le> prec" by (simp add: ndigits_le_iff prec_def)
  then show ?thesis by (auto simp: quantize_def Let_def k_def c_def)
qed

subsection \<open>Exactness on a grid\<close>

text \<open>
  Money and share amounts are multiples of a fixed power of ten. As long as they stay below
  \<open>pow10 (g + 28)\<close>, additions and subtractions on the grid \<open>pow10 g\<close> are exact.
\<close>

definition on_grid :: "int \<Rightarrow> rat \<Rightarrow> bool" where
  "on_grid g x \<longleftrightarrow> (\<exists>k :: int. x = of_int k * pow10 g)"

lemma on_grid_0 [simp, intro]: "on_grid g 0"
  by (auto simp: on_grid_def intro: exI [of _ 0])

lemma on_grid_add [intro]: "on_grid g x \<Longrightarrow> on_grid g y \<Longrightarrow> on_grid g (x + y)"
  unfolding on_grid_def by (metis distrib_right of_int_add)

lemma on_grid_uminus [intro]: "on_grid g x \<Longrightarrow> on_grid g (- x)"
  unfolding on_grid_def by (metis mult_minus_left of_int_minus)

lemma on_grid_diff [intro]: "on_grid g x \<Longrightarrow> on_grid g y \<Longrightarrow> on_grid g (x - y)"
  using on_grid_add [of g x "- y"] by auto

lemma on_grid_of_int: "on_grid g (of_int k * pow10 g)"
  by (auto simp: on_grid_def)

lemma quantize_on_grid: "quantize mode q a = Inr d \<Longrightarrow> on_grid (dexp q) (dval d)"
  by (auto simp: quantize_value(1) intro: on_grid_of_int)

lemma on_grid_mult: "on_grid h x \<Longrightarrow> on_grid k y \<Longrightarrow> on_grid (h + k) (x * y)"
proof -
  assume "on_grid h x" "on_grid k y"
  then obtain a b :: int where "x = of_int a * pow10 h" "y = of_int b * pow10 k" by (auto simp: on_grid_def)
  then have "x * y = of_int (a * b) * pow10 (h + k)" by (simp add: pow10_add)
  then show "on_grid (h + k) (x * y)" unfolding on_grid_def by blast
qed

lemma on_grid_sum_list: "(\<And>x. x \<in> set xs \<Longrightarrow> on_grid g (f x)) \<Longrightarrow> on_grid g (\<Sum>x\<leftarrow>xs. f x)"
  by (induction xs) auto

lemma ctx_grid:
  assumes "on_grid g x" "\<bar>x\<bar> \<le> pow10 (g + int prec)"
  shows "ctx x = x"
proof -
  obtain k where k: "x = of_int k * pow10 g" using assms(1) by (auto simp: on_grid_def)
  have "of_int \<bar>k\<bar> * pow10 g \<le> of_int (10 ^ prec) * pow10 g"
    using assms(2) by (simp add: k abs_mult pow10_add pow10_nat)
  then have "\<bar>k\<bar> \<le> 10 ^ prec" by (simp only: mult_le_cancel_right_pos [OF pow10_pos] of_int_le_iff)
  then show ?thesis by (rule ctx_exact [OF k])
qed

lemma ctx_D: "\<bar>k\<bar> \<le> 10 ^ 28 \<Longrightarrow> ctx (dval (D k e)) = dval (D k e)"
  unfolding dval_D by (rule ctx_exact [OF refl]) (simp add: prec_def)

lemma ctx_le_pow10: "x \<le> pow10 e \<Longrightarrow> ctx x \<le> pow10 e"
  using ctx_mono [of x "pow10 e"] by simp

lemma ctx_abs: "ctx \<bar>x\<bar> = \<bar>ctx x\<bar>"
proof (cases "0 \<le> x")
  case False
  then have "0 \<le> ctx (- x)" by (intro ctx_nonneg) simp
  then show ?thesis using False by simp
qed (simp add: ctx_nonneg)

lemma ctx_abs_le_pow10: "\<bar>x\<bar> \<le> pow10 e \<Longrightarrow> \<bar>ctx x\<bar> \<le> pow10 e"
  by (metis ctx_abs ctx_le_pow10)

text \<open>Relative error of the rounding, as a bound on the size of a rounded number.\<close>

abbreviation eps :: rat where
  "eps \<equiv> pow10 (- 27) / 2"

lemma ctx_near: "\<bar>ctx x - x\<bar> \<le> \<bar>x\<bar> * eps"
  using ctx_error [of x] by (simp add: prec_def)

lemma ctx_size: "\<bar>ctx x\<bar> \<le> \<bar>x\<bar> * (1 + eps)"
  using ctx_near [of x] by (simp add: algebra_simps abs_if split: if_splits)

lemma dval_dsum_snoc: "dval (dsum (xs @ [x])) = ctx (dval (dsum xs) + dval x)"
  by (simp add: dsum_def dval_plus)

lemma dsum_Nil [simp]: "dsum [] = 0"
  by (simp add: dsum_def)

lemma dsum_nonneg: "(\<And>x. x \<in> set xs \<Longrightarrow> 0 \<le> dval x) \<Longrightarrow> 0 \<le> dval (dsum xs)"
proof (induction xs rule: rev_induct)
  case (snoc x xs)
  then show ?case by (auto simp: dval_dsum_snoc intro!: ctx_nonneg add_nonneg_nonneg)
qed simp

lemma dsum_exact:
  assumes "\<And>x. x \<in> set xs \<Longrightarrow> on_grid g (dval x)"
    and "(\<Sum>x\<leftarrow>xs. \<bar>dval x\<bar>) \<le> pow10 (g + int prec)"
  shows "dval (dsum xs) = (\<Sum>x\<leftarrow>xs. dval x)" "on_grid g (\<Sum>x\<leftarrow>xs. dval x)"
proof -
  have "dval (dsum xs) = (\<Sum>x\<leftarrow>xs. dval x) \<and> on_grid g (\<Sum>x\<leftarrow>xs. dval x)"
    using assms
  proof (induction xs rule: rev_induct)
    case (snoc x xs)
    have le: "(\<Sum>x\<leftarrow>xs. \<bar>dval x\<bar>) \<le> pow10 (g + int prec)"
      using snoc.prems(2) abs_ge_zero [of "dval x"] by simp
    have IH: "dval (dsum xs) = (\<Sum>x\<leftarrow>xs. dval x)" "on_grid g (\<Sum>x\<leftarrow>xs. dval x)"
      using snoc.IH [OF _ le] snoc.prems(1) by auto
    have "\<bar>\<Sum>x\<leftarrow>xs. dval x\<bar> \<le> (\<Sum>x\<leftarrow>xs. \<bar>dval x\<bar>)" by (rule sum_list_abs [of "map dval xs", simplified comp_def map_map])
    then have "\<bar>(\<Sum>x\<leftarrow>xs. dval x) + dval x\<bar> \<le> pow10 (g + int prec)"
      using snoc.prems(2) by simp
    moreover have "on_grid g ((\<Sum>x\<leftarrow>xs. dval x) + dval x)" using IH(2) snoc.prems(1) by auto
    ultimately show ?case using IH by (simp add: dval_dsum_snoc ctx_grid)
  qed simp
  then show "dval (dsum xs) = (\<Sum>x\<leftarrow>xs. dval x)" "on_grid g (\<Sum>x\<leftarrow>xs. dval x)" by auto
qed

subsection \<open>Relative bounds\<close>

lemma ctx_upper: "0 \<le> x \<Longrightarrow> ctx x \<le> x * (1 + eps)"
  using ctx_size [of x] ctx_nonneg [of x] by simp

lemma ctx_lower: "0 \<le> x \<Longrightarrow> x * (1 - eps) \<le> ctx x"
  using ctx_near [of x] by (simp add: algebra_simps abs_if split: if_splits)

lemma ctx_err: "\<bar>x\<bar> \<le> b \<Longrightarrow> \<bar>ctx x - x\<bar> \<le> b * eps"
  using ctx_near [of x] mult_right_mono [of "\<bar>x\<bar>" b eps] by simp

lemma dsum_lower:
  assumes "\<And>x. x \<in> set xs \<Longrightarrow> 0 \<le> dval x"
  shows "(\<Sum>x\<leftarrow>xs. dval x) * (1 - eps) ^ length xs \<le> dval (dsum xs)"
  using assms
proof (induction xs rule: rev_induct)
  case (snoc x xs)
  define p where "p = (1 - eps) ^ length xs"
  have e: "0 \<le> 1 - eps" "1 - eps \<le> 1" by (simp_all add: power_int_def power_one_over)
  have p: "0 \<le> p" "p \<le> 1" using e by (simp_all add: p_def power_le_one)
  have IH: "(\<Sum>x\<leftarrow>xs. dval x) * p \<le> dval (dsum xs)" using snoc by (simp add: p_def)
  have x: "0 \<le> dval x" using snoc.prems by simp
  have "dval x * p \<le> dval x * 1" using p x by (intro mult_left_mono) auto
  then have "((\<Sum>x\<leftarrow>xs. dval x) + dval x) * p * (1 - eps) \<le> (dval (dsum xs) + dval x) * (1 - eps)"
    using IH e by (intro mult_right_mono) (simp_all add: distrib_right)
  also have "\<dots> \<le> ctx (dval (dsum xs) + dval x)"
    using snoc.prems x by (intro ctx_lower add_nonneg_nonneg dsum_nonneg) auto
  finally show ?case by (simp add: dval_dsum_snoc p_def mult.assoc mult.commute [of "1 - eps"])
qed simp

lemma grid_floor:
  assumes "on_grid g q" "on_grid g d" "d < q + pow10 g"
  shows "d \<le> q"
proof -
  obtain i j where ij: "q = of_int i * pow10 g" "d = of_int j * pow10 g"
    using assms(1,2) by (auto simp: on_grid_def)
  have "of_int j * pow10 g < of_int (i + 1) * pow10 g" using assms(3) by (simp add: ij distrib_right)
  then have "j < i + 1" by (simp only: mult_less_cancel_right_pos [OF pow10_pos] of_int_less_iff)
  then show ?thesis by (simp add: ij)
qed

lemma rounding_slack: "(1 + eps) ^ 4 \<le> (1 + pow10 (- 26)) * (1 - eps) ^ 2"
  by (simp add: power_int_def power_one_over power_divide)

lemma capped_sum:
  assumes "S * (1 - eps) ^ 2 \<le> ctx x * (1 + eps) ^ 3" "0 \<le> x"
  shows "S \<le> x * (1 + pow10 (- 26))"
proof -
  have "S * (1 - eps) ^ 2 \<le> x * (1 + eps) * (1 + eps) ^ 3"
    using assms ctx_upper [of x] by (elim order_trans) (intro mult_right_mono, auto)
  also have "\<dots> = x * (1 + eps) ^ 4" by (simp only: power4_eq_xxxx power3_eq_cube mult_ac)
  also have "\<dots> \<le> x * ((1 + pow10 (- 26)) * (1 - eps) ^ 2)" by (rule mult_left_mono [OF rounding_slack assms(2)])
  finally have "S * (1 - eps) ^ 2 \<le> x * (1 + pow10 (- 26)) * (1 - eps) ^ 2" by (simp only: mult_ac)
  moreover have "0 < (1 - eps) ^ 2" by (simp add: power_int_def power_one_over)
  ultimately show ?thesis by (simp only: mult_le_cancel_right_pos)
qed

subsection \<open>Accumulated rounding\<close>

text \<open>\<open>x\<close> is \<open>y\<close> after at most \<open>k\<close> roundings to the context.\<close>

definition near :: "nat \<Rightarrow> rat \<Rightarrow> rat \<Rightarrow> bool" where
  "near k x y \<longleftrightarrow> \<bar>x - y\<bar> \<le> ((1 + eps) ^ k - 1) * \<bar>y\<bar>"

lemma near_refl [simp]: "near 0 x x"
  by (simp add: near_def)

lemma near_mono: "near k x y \<Longrightarrow> k \<le> l \<Longrightarrow> near l x y"
  unfolding near_def by (erule order_trans) (intro mult_right_mono diff_right_mono power_increasing, auto)

lemma near_ctx:
  assumes "near k x y"
  shows "near (Suc k) (ctx x) y"
proof -
  define d where "d = (1 + eps) ^ k - 1"
  have x: "\<bar>x - y\<bar> \<le> d * \<bar>y\<bar>" using assms by (simp add: near_def d_def)
  then have "\<bar>x\<bar> \<le> \<bar>y\<bar> + d * \<bar>y\<bar>" by linarith
  then have "\<bar>ctx x - x\<bar> \<le> (\<bar>y\<bar> + d * \<bar>y\<bar>) * eps" by (rule ctx_err)
  with x have "\<bar>ctx x - y\<bar> \<le> d * \<bar>y\<bar> + (\<bar>y\<bar> + d * \<bar>y\<bar>) * eps" by linarith
  also have "\<dots> = ((1 + d) * (1 + eps) - 1) * \<bar>y\<bar>" by (simp add: algebra_simps)
  also have "(1 + d) * (1 + eps) = (1 + eps) ^ Suc k" by (simp add: d_def)
  finally show ?thesis by (simp add: near_def)
qed

lemma near_times:
  assumes "near k x y"
  shows "near k (x * c) (y * c)"
proof -
  have "\<bar>x * c - y * c\<bar> = \<bar>x - y\<bar> * \<bar>c\<bar>" by (simp only: left_diff_distrib [symmetric] abs_mult)
  also have "\<dots> \<le> ((1 + eps) ^ k - 1) * \<bar>y\<bar> * \<bar>c\<bar>" using assms unfolding near_def by (rule mult_right_mono) simp
  finally show ?thesis unfolding near_def by (simp only: abs_mult mult.assoc)
qed

lemma near_add:
  assumes "near k x y" "near k x' y'" "0 \<le> y" "0 \<le> y'"
  shows "near k (x + x') (y + y')"
  using assms unfolding near_def by (simp add: distrib_left)

lemma near_dsum:
  assumes "list_all2 (\<lambda>x y. near 1 (dval x) y \<and> 0 \<le> y) xs ys"
  shows "near (length xs + 1) (dval (dsum xs)) (sum_list ys)"
proof -
  have "list_all2 (\<lambda>x y. near 1 (dval x) y \<and> 0 \<le> y) xs ys \<Longrightarrow>
      near (length xs + 1) (dval (dsum xs)) (sum_list ys) \<and> 0 \<le> sum_list ys" for xs ys
  proof (induction xs arbitrary: ys rule: rev_induct)
    case Nil
    then show ?case by (simp add: near_def)
  next
    case (snoc x xs)
    then obtain zs z where ys: "ys = zs @ [z]" by (cases ys rule: rev_cases) (auto dest: list_all2_lengthD)
    have len: "length xs = length zs" using list_all2_lengthD [OF snoc.prems] ys by simp
    from snoc.prems have l: "list_all2 (\<lambda>x y. near 1 (dval x) y \<and> 0 \<le> y) xs zs" and z: "near 1 (dval x) z" "0 \<le> z"
      unfolding ys list_all2_append [OF len] by auto
    note IH = snoc.IH [OF l]
    have "near (length xs + 1) (dval (dsum xs) + dval x) (sum_list zs + z)"
      using IH z near_mono [OF z(1), of "length xs + 1"] by (intro near_add) auto
    then show ?case using IH z near_ctx by (fastforce simp: ys dval_dsum_snoc)
  qed
  with assms show ?thesis by blast
qed

lemma near_max:
  assumes "near k x y"
  shows "\<bar>max 0 x - max 0 y\<bar> \<le> ((1 + eps) ^ k - 1) * \<bar>y\<bar>"
proof -
  have "\<bar>max 0 x - max 0 y\<bar> \<le> \<bar>x - y\<bar>" by (auto simp: max_def)
  then show ?thesis using assms by (simp add: near_def)
qed

section \<open>Evaluation by rewriting\<close>

lemma strip_zeros_numeral:
  "strip_zeros (numeral n) c e =
     (if c mod 10 = 0 then strip_zeros (pred_numeral n) (c div 10) (e + 1) else (c, e))"
  by (metis numeral_eq_Suc strip_zeros.simps(2))

text \<open>
  The equations that evaluate decimal expressions on literals with the simplifier: a local
  definition is expanded once its argument is a value (used with \<open>cong: eval_congs split del: if_split\<close>).
\<close>

lemma Let_eval:
  "Let (Dec s c x) f = f (Dec s c x)"
  "Let (- numeral k :: int) g = g (- numeral k)" "Let (- 1 :: int) g = g (- 1)"
  "Let True h = h True" "Let False h = h False"
  by (simp_all add: Let_def)

lemmas dec_eval =
  D_def mkdec_def zero_decimal_def one_decimal_def scoef_def align_def prec_def Let_eval
  ndigits.simps dfix_def plus_decimal_def d_add_def minus_decimal_def d_sub_def
  times_decimal_def d_mul_def uminus_decimal_def d_neg_def d_pos_def d_abs_def dec_div_def d_div_def strip_zeros_numeral
  isqrt_newton.simps less_decimal_def less_eq_decimal_def d_eq_def py_max_def py_min_def
  dsum_def quantize_def

lemma only_raises_arith [raise_intros]:
  "P InvalidOperation \<Longrightarrow> only_raises P (quantize m q a)"
  "P InvalidOperation \<Longrightarrow> P DivisionByZero \<Longrightarrow> only_raises P (dec_div a b)"
  by (auto simp: only_raises_def quantize_def Let_def dec_div_def split: if_splits)

lemma on_grid_refine: "on_grid h x \<Longrightarrow> g \<le> h \<Longrightarrow> on_grid g x"
proof -
  assume "on_grid h x" "g \<le> h"
  then obtain k :: int where "x = of_int k * pow10 h" by (auto simp: on_grid_def)
  also have "pow10 h = of_int (10 ^ nat (h - g)) * pow10 g"
    using \<open>g \<le> h\<close> pow10_add [of "h - g" g] pow10_nat [of "nat (h - g)"] by simp
  finally have "x = of_int (k * 10 ^ nat (h - g)) * pow10 g" by simp
  then show ?thesis by (metis on_grid_of_int)
qed

end
