(* ===== verification/Hashing.thy ===== *)
theory Hashing
  imports Decimal
begin

text \<open>
  Time and canonical identity: \<^verbatim>\<open>src/trading/domain/time.py\<close> and
  \<^verbatim>\<open>src/trading/domain/hashing.py\<close>. A timestamp that has passed \<open>require_aware_utc\<close> is an
  instant, its number of microseconds since the Unix epoch. Values to be hashed are trees
  (\<open>pyval\<close>); \<open>canonical_data\<close> maps them to plain JSON data with sorted keys,
  \<open>canonical_json\<close> renders that as \<^verbatim>\<open>json.dumps\<close> does with compact separators.
  The digest itself (\<^verbatim>\<open>hashlib.sha256(...).hexdigest()\<close> of the UTF-8 bytes) is a parameter
  \<open>H\<close> of every definition that builds an identifier, so each theorem holds for every digest
  function. \<open>canonical_object\<close> is the dispatch on every object, errors included, and agrees with
  \<open>canonical_data\<close> on the values. Floats are the one kind of value \<^verbatim>\<open>canonical_data\<close> accepts that is not modelled:
  no modelled component hashes one.
\<close>

section \<open>Time\<close>

type_synonym instant = int
type_synonym date = "int \<times> int \<times> int"

text \<open>A datetime is naive, or denotes an instant; two aware datetimes compare by instant.\<close>

datatype datetime = Naive int | Aware instant

fun require_aware_utc :: "string \<Rightarrow> datetime \<Rightarrow> instant result" where
  "require_aware_utc field_name (Naive t) = Inl (ValueError (field_name @ '' must be timezone-aware''))"
| "require_aware_utc field_name (Aware t) = Inr t"

lemma require_aware_utc_eq_Inr [result_simps]: "require_aware_utc f d = Inr t \<longleftrightarrow> d = Aware t"
  by (cases d) auto

section \<open>Text of numbers and dates\<close>

definition digit_char :: "nat \<Rightarrow> char" where
  "digit_char d = char_of (48 + d)"

fun nat_str :: "nat \<Rightarrow> string" where
  "nat_str n = (if n < 10 then [digit_char n] else nat_str (n div 10) @ [digit_char (n mod 10)])"

declare nat_str.simps [simp del]

definition int_str :: "int \<Rightarrow> string" where
  "int_str k = (if k < 0 then ''-'' @ nat_str (nat (- k)) else nat_str (nat k))"

text \<open>Zero padding to a minimal width, as in \<^verbatim>\<open>%04d\<close>.\<close>

definition zpad :: "nat \<Rightarrow> nat \<Rightarrow> string" where
  "zpad w n = (let s = nat_str n in replicate (w - length s) (CHR ''0'') @ s)"

text \<open>\<^verbatim>\<open>format(d, "f")\<close>.\<close>

definition format_f :: "decimal \<Rightarrow> string" where
  "format_f d =
     (let d = (if dcoef d = 0 \<and> 0 < dexp d then Dec (dneg d) 0 0 else d);
          s = nat_str (dcoef d);
          dot = dexp d + int (length s);
          sign = (if dneg d then ''-'' else '''') in
      if dot < 0 then sign @ ''0.'' @ replicate (nat (- dot)) (CHR ''0'') @ s
      else if int (length s) < dot then sign @ s @ replicate (nat dot - length s) (CHR ''0'')
      else
        let intpart = (if dot = 0 then ''0'' else take (nat dot) s);
            fracpart = drop (nat dot) s in
        sign @ intpart @ (if fracpart = '''' then '''' else ''.'' @ fracpart))"

text \<open>\<^verbatim>\<open>str(d)\<close>, which switches to scientific notation.\<close>

definition str_decimal :: "decimal \<Rightarrow> string" where
  "str_decimal d =
     (let s = nat_str (dcoef d);
          left = dexp d + int (length s);
          dot = (if dexp d \<le> 0 \<and> - 6 < left then left else 1);
          sign = (if dneg d then ''-'' else '''');
          body = (if dot \<le> 0 then ''0.'' @ replicate (nat (- dot)) (CHR ''0'') @ s
                  else if int (length s) \<le> dot
                  then s @ replicate (nat dot - length s) (CHR ''0'')
                  else take (nat dot) s @ ''.'' @ drop (nat dot) s);
          ex = (if left = dot then ''''
                else ''E'' @ (if 0 \<le> left - dot then ''+'' else '''') @ int_str (left - dot)) in
      sign @ body @ ex)"

definition date_iso :: "date \<Rightarrow> string" where
  "date_iso d =
     (case d of (y, m, dd) \<Rightarrow> zpad 4 (nat y) @ ''-'' @ zpad 2 (nat m) @ ''-'' @ zpad 2 (nat dd))"

text \<open>The civil date of a day number counted from 1970-01-01 (proleptic Gregorian calendar).\<close>

definition civil_of_days :: "int \<Rightarrow> date" where
  "civil_of_days days =
     (let z = days + 719468; era = z div 146097; doe = z mod 146097;
          yoe = (doe - doe div 1460 + doe div 36524 - doe div 146096) div 365;
          doy = doe - (365 * yoe + yoe div 4 - yoe div 100);
          mp = (5 * doy + 2) div 153;
          dd = doy - (153 * mp + 2) div 5 + 1;
          m = (if mp < 10 then mp + 3 else mp - 9);
          y = yoe + era * 400 + (if m \<le> 2 then 1 else 0) in
      (y, m, dd))"

text \<open>\<^verbatim>\<open>isoformat(timespec="microseconds")\<close> of a UTC instant, with \<^verbatim>\<open>Z\<close> for the offset.\<close>

definition instant_iso :: "instant \<Rightarrow> string" where
  "instant_iso t =
     (let us = t mod 86400000000; s = us div 1000000 in
      date_iso (civil_of_days (t div 86400000000)) @ ''T''
      @ zpad 2 (nat (s div 3600)) @ '':'' @ zpad 2 (nat (s div 60 mod 60)) @ '':''
      @ zpad 2 (nat (s mod 60)) @ ''.'' @ zpad 6 (nat (us mod 1000000)) @ ''Z'')"

section \<open>Canonical data\<close>

datatype pyval =
    VNone
  | VBool bool
  | VInt int
  | VStr string
  | VDec decimal
  | VTime instant
  | VDate date
  | VList "pyval list"
  | VDict "(string \<times> pyval) list"

datatype cval =
    CNull
  | CBool bool
  | CInt int
  | CStr string
  | CList "cval list"
  | CDict "(string \<times> cval) list"

fun canonical_data :: "pyval \<Rightarrow> cval" where
  "canonical_data VNone = CNull"
| "canonical_data (VBool b) = CBool b"
| "canonical_data (VInt i) = CInt i"
| "canonical_data (VStr s) = CStr s"
| "canonical_data (VDec d) = CStr (format_f d)"
| "canonical_data (VTime t) = CStr (instant_iso t)"
| "canonical_data (VDate d) = CStr (date_iso d)"
| "canonical_data (VList xs) = CList (map canonical_data xs)"
| "canonical_data (VDict kvs) = CDict (sort_key fst (map (\<lambda>(k, v). (k, canonical_data v)) kvs))"

text \<open>Canonicalizing a datetime raises for a naive one.\<close>

fun canonical_time :: "datetime \<Rightarrow> instant result" where
  "canonical_time (Naive t) = Inl (CanonicalizationError ''Naive datetime cannot be canonicalized'')"
| "canonical_time (Aware t) = Inr t"

text \<open>
  The whole dispatch of \<^verbatim>\<open>canonical_data\<close>, including what it rejects: a naive datetime, and an
  instance of a class it does not know, such as a dataclass with its name and attributes. Entries
  are visited in the order of their keys, so the first error in that order is raised. Floats are
  left out.
\<close>

datatype pyobj =
    ONone
  | OBool bool
  | OInt int
  | OStr string
  | ODec decimal
  | OTime datetime
  | ODate date
  | OEnum pyobj
  | OPath string
  | OModel "(string \<times> pyobj) list"
  | OMap "(string \<times> pyobj) list"
  | OSeq "pyobj list"
  | OInstance string "(string \<times> pyobj) list"

function canonical_object :: "pyobj \<Rightarrow> cval result" where
  "canonical_object (OModel fields) =
     rbind (rmap (\<lambda>(k, v). rbind (canonical_object v) (\<lambda>c. Inr (k, c))) (sort_key fst fields)) (\<lambda>kvs. Inr (CDict kvs))"
| "canonical_object (OTime t) = rbind (canonical_time t) (\<lambda>t. Inr (CStr (instant_iso t)))"
| "canonical_object (ODate d) = Inr (CStr (date_iso d))"
| "canonical_object (ODec d) = Inr (CStr (format_f d))"
| "canonical_object (OEnum v) = canonical_object v"
| "canonical_object (OPath p) = Inr (CStr p)"
| "canonical_object (OMap kvs) =
     rbind (rmap (\<lambda>(k, v). rbind (canonical_object v) (\<lambda>c. Inr (k, c))) (sort_key fst kvs)) (\<lambda>kvs. Inr (CDict kvs))"
| "canonical_object (OSeq xs) = rbind (rmap canonical_object xs) (\<lambda>cs. Inr (CList cs))"
| "canonical_object ONone = Inr CNull"
| "canonical_object (OStr s) = Inr (CStr s)"
| "canonical_object (OInt i) = Inr (CInt i)"
| "canonical_object (OBool b) = Inr (CBool b)"
| "canonical_object (OInstance class_name fields) = Inl (CanonicalizationError (''Unsupported canonical type: '' @ class_name))"
  by pat_completeness auto
termination
proof (relation "measure size")
  fix xs :: "pyobj list" and x assume "x \<in> set xs"
  then show "(x, OSeq xs) \<in> measure size" using size_list_estimation' [of x xs "size x" size] by simp
next
  fix kvs and p :: "string \<times> pyobj" and k v assume "p \<in> set (sort_key fst kvs)" "(k, v) = p"
  then have "(k, v) \<in> set kvs" by simp
  then have "size v \<le> size_list (size_prod (\<lambda>x. 0) size) kvs"
    using size_list_estimation' [of "(k, v)" kvs "size v" "size_prod (\<lambda>x. 0) size"] by simp
  then show "(v, OMap kvs) \<in> measure size" "(v, OModel kvs) \<in> measure size" by simp_all
qed simp_all

text \<open>The values without a naive datetime or an unknown object are canonicalized as \<open>canonical_data\<close> says.\<close>

fun obj_of :: "pyval \<Rightarrow> pyobj" where
  "obj_of VNone = ONone"
| "obj_of (VBool b) = OBool b"
| "obj_of (VInt i) = OInt i"
| "obj_of (VStr s) = OStr s"
| "obj_of (VDec d) = ODec d"
| "obj_of (VTime t) = OTime (Aware t)"
| "obj_of (VDate d) = ODate d"
| "obj_of (VList xs) = OSeq (map obj_of xs)"
| "obj_of (VDict kvs) = OMap (map (\<lambda>(k, v). (k, obj_of v)) kvs)"

lemma sort_items_map: "sort_key fst (map (\<lambda>(k, v). (k, f v)) kvs) = map (\<lambda>(k, v). (k, f v)) (sort_key fst kvs)"
  by (simp add: sort_key_map case_prod_beta)

lemma canonical_object_plain: "canonical_object (obj_of v) = Inr (canonical_data v)"
proof (induction v rule: canonical_data.induct)
  case (8 xs)
  then have "rmap canonical_object (map obj_of xs) = Inr (map canonical_data xs)" by (rule rmap_map)
  then show ?case by simp
next
  case (9 kvs)
  have "rmap (\<lambda>(k, v). rbind (canonical_object v) (\<lambda>c. Inr (k, c))) (map (\<lambda>(k, v). (k, obj_of v)) (sort_key fst kvs))
      = Inr (map (\<lambda>(k, v). (k, canonical_data v)) (sort_key fst kvs))"
    using 9 by (intro rmap_map) auto
  then show ?case by (simp add: sort_items_map)
qed simp_all

text \<open>A validator of a record field turns the error of \<open>require_aware_utc\<close> into its own.\<close>

fun field_time :: "datetime \<Rightarrow> instant result" where
  "field_time (Naive t) = Inl (ValidationError ''datetime must be timezone-aware'')"
| "field_time (Aware t) = Inr t"

fun opt_result :: "('a \<Rightarrow> 'b result) \<Rightarrow> 'a option \<Rightarrow> 'b option result" where
  "opt_result f None = Inr None"
| "opt_result f (Some x) = rbind (f x) (\<lambda>y. Inr (Some y))"

lemma canonical_time_eq_Inr [result_simps]: "canonical_time d = Inr t \<longleftrightarrow> d = Aware t"
  by (cases d) auto

lemma field_time_eq_Inr [result_simps]: "field_time d = Inr t \<longleftrightarrow> d = Aware t"
  by (cases d) auto

section \<open>JSON text\<close>

definition hex_digit :: "nat \<Rightarrow> char" where
  "hex_digit d = (if d < 10 then char_of (48 + d) else char_of (87 + d))"

definition json_char :: "char \<Rightarrow> string" where
  "json_char c =
     (let n = (of_char c :: nat) in
      if n = 34 then [char_of (92 :: nat), c]
      else if n = 92 then [c, c]
      else if n = 8 then [char_of (92 :: nat), CHR ''b'']
      else if n = 9 then [char_of (92 :: nat), CHR ''t'']
      else if n = 10 then [char_of (92 :: nat), CHR ''n'']
      else if n = 12 then [char_of (92 :: nat), CHR ''f'']
      else if n = 13 then [char_of (92 :: nat), CHR ''r'']
      else if n < 32 then [char_of (92 :: nat), CHR ''u'', CHR ''0'', CHR ''0'', hex_digit (n div 16), hex_digit (n mod 16)]
      else [c])"

definition json_string :: "string \<Rightarrow> string" where
  "json_string s = [char_of (34 :: nat)] @ concat (map json_char s) @ [char_of (34 :: nat)]"

fun join :: "string \<Rightarrow> string list \<Rightarrow> string" where
  "join sep [] = ''''"
| "join sep [x] = x"
| "join sep (x # y # zs) = x @ sep @ join sep (y # zs)"

fun json_dumps :: "cval \<Rightarrow> string" where
  "json_dumps CNull = ''null''"
| "json_dumps (CBool b) = (if b then ''true'' else ''false'')"
| "json_dumps (CInt i) = int_str i"
| "json_dumps (CStr s) = json_string s"
| "json_dumps (CList xs) = ''['' @ join '','' (map json_dumps xs) @ '']''"
| "json_dumps (CDict kvs) =
     ''{'' @ join '','' (map (\<lambda>(k, v). json_string k @ '':'' @ json_dumps v) kvs) @ ''}''"

definition canonical_json :: "pyval \<Rightarrow> string" where
  "canonical_json v = json_dumps (canonical_data v)"

section \<open>Digests and stable identifiers\<close>

type_synonym digest = "string \<Rightarrow> string"

definition canonical_hash :: "digest \<Rightarrow> pyval \<Rightarrow> string" where
  "canonical_hash H v = H (canonical_json v)"

definition canonical_object_hash :: "digest \<Rightarrow> pyobj \<Rightarrow> string result" where
  "canonical_object_hash H v = rbind (canonical_object v) (\<lambda>c. Inr (H (json_dumps c)))"

lemma canonical_object_hash_plain: "canonical_object_hash H (obj_of v) = Inr (canonical_hash H v)"
  by (simp add: canonical_object_hash_def canonical_object_plain canonical_hash_def canonical_json_def)

definition stable_id :: "digest \<Rightarrow> string \<Rightarrow> pyval list \<Rightarrow> string" where
  "stable_id H prefix parts =
     prefix @ ''_'' @ take 24 (canonical_hash H (VDict [(''prefix'', VStr prefix), (''parts'', VList parts)]))"

text \<open>Optional values of a hashed dictionary.\<close>

definition vopt :: "('a \<Rightarrow> pyval) \<Rightarrow> 'a option \<Rightarrow> pyval" where
  "vopt f x = (case x of None \<Rightarrow> VNone | Some y \<Rightarrow> f y)"

text \<open>
  A concrete digest for worked examples: the end of the text, which names the last parts of an
  identifier. It stands in for SHA-256 only where a closed example needs an executable \<open>H\<close>.
\<close>

definition tail_digest :: digest where
  "tail_digest s = drop 17 (rev s)"

text \<open>Another one keeps the decimal digits: sequence numbers, amounts and times.\<close>

definition digits_digest :: digest where
  "digits_digest s = filter (\<lambda>c. 48 \<le> (of_char c :: nat) \<and> (of_char c :: nat) < 58) s"

lemma only_raises_option [raise_intros]:
  "(z = None \<Longrightarrow> only_raises P a) \<Longrightarrow> (\<And>x. z = Some x \<Longrightarrow> only_raises P (f x))
    \<Longrightarrow> only_raises P (case z of None \<Rightarrow> a | Some x \<Rightarrow> f x)"
  by (cases z) simp_all

lemma only_raises_rfold [raise_intros]:
  "(\<And>x s. x \<in> set xs \<Longrightarrow> only_raises P (f x s)) \<Longrightarrow> only_raises P (rfold f xs s)"
  by (induction xs arbitrary: s) (auto intro!: raise_intros)

lemma only_raises_opt [raise_intros]: "(\<And>x. only_raises P (f x)) \<Longrightarrow> only_raises P (opt_result f z)"
  by (cases z) (auto intro!: raise_intros)

lemma only_raises_times [raise_intros]:
  "only_raises is_value_error (require_aware_utc f d)"
  "only_raises is_value_error (canonical_time d)"
  "only_raises is_value_error (field_time d)"
  by (cases d; simp add: only_raises_def)+

end
