(* ===== verification/Domain.thy ===== *)
theory Domain
  imports Hashing
begin

text \<open>
  The domain records and enumerations of \<^verbatim>\<open>src/trading/domain\<close> that the modelled components
  exchange. A pydantic model is a record; its field constraints and model validators are a
  \<open>validate_...\<close> function that returns the record or the validation error, so that every
  construction of the source goes through the same checks. Field names carry a short prefix
  because record selectors share one name space.
\<close>

section \<open>Enumerations\<close>

datatype order_side = BUY | SELL

datatype q1_arm_id = HOLD | LIVE_MIRROR | B0_CASH | B0_QQQ | B0_VOL | Q1_DET | Q1_LLM

fun arm_value :: "q1_arm_id \<Rightarrow> string" where
  "arm_value HOLD = ''HOLD''"
| "arm_value LIVE_MIRROR = ''LIVE-MIRROR''"
| "arm_value B0_CASH = ''B0-CASH''"
| "arm_value B0_QQQ = ''B0-QQQ''"
| "arm_value B0_VOL = ''B0-VOL''"
| "arm_value Q1_DET = ''Q1-DET''"
| "arm_value Q1_LLM = ''Q1-LLM''"

datatype order_event_type =
    CREATED | ACTIVE | PARTIALLY_FILLED | FILLED | CANCELED_BY_RISK | SUPERSEDED | EXPIRED
  | REJECTED | BLOCKED_BY_DATA | BLOCKED_BY_PRICE_GUARD

fun order_event_type_value :: "order_event_type \<Rightarrow> string" where
  "order_event_type_value CREATED = ''CREATED''"
| "order_event_type_value ACTIVE = ''ACTIVE''"
| "order_event_type_value PARTIALLY_FILLED = ''PARTIALLY_FILLED''"
| "order_event_type_value FILLED = ''FILLED''"
| "order_event_type_value CANCELED_BY_RISK = ''CANCELED_BY_RISK''"
| "order_event_type_value SUPERSEDED = ''SUPERSEDED''"
| "order_event_type_value EXPIRED = ''EXPIRED''"
| "order_event_type_value REJECTED = ''REJECTED''"
| "order_event_type_value BLOCKED_BY_DATA = ''BLOCKED_BY_DATA''"
| "order_event_type_value BLOCKED_BY_PRICE_GUARD = ''BLOCKED_BY_PRICE_GUARD''"

definition TERMINAL_ORDER_EVENT_TYPES :: "order_event_type list" where
  "TERMINAL_ORDER_EVENT_TYPES = [FILLED, CANCELED_BY_RISK, SUPERSEDED, EXPIRED, REJECTED]"

definition is_terminal_order_event :: "order_event_type \<Rightarrow> bool" where
  "is_terminal_order_event t \<longleftrightarrow> t \<in> set TERMINAL_ORDER_EVENT_TYPES"

definition is_fill_type :: "order_event_type \<Rightarrow> bool" where
  "is_fill_type t \<longleftrightarrow> t = PARTIALLY_FILLED \<or> t = FILLED"

datatype risk_severity = NORMAL | SOFT_STOP | HARD_REDUCE | CRITICAL_EXIT

fun severity_value :: "risk_severity \<Rightarrow> string" where
  "severity_value NORMAL = ''NORMAL''"
| "severity_value SOFT_STOP = ''SOFT_STOP''"
| "severity_value HARD_REDUCE = ''HARD_REDUCE''"
| "severity_value CRITICAL_EXIT = ''CRITICAL_EXIT''"

fun severity_rank :: "risk_severity \<Rightarrow> nat" where
  "severity_rank NORMAL = 0"
| "severity_rank SOFT_STOP = 1"
| "severity_rank HARD_REDUCE = 2"
| "severity_rank CRITICAL_EXIT = 3"

text \<open>Severities are compared by rank throughout the risk engine.\<close>

instantiation risk_severity :: linorder
begin

definition less_eq_risk_severity :: "risk_severity \<Rightarrow> risk_severity \<Rightarrow> bool" where
  "less_eq_risk_severity a b \<longleftrightarrow> severity_rank a \<le> severity_rank b"

definition less_risk_severity :: "risk_severity \<Rightarrow> risk_severity \<Rightarrow> bool" where
  "less_risk_severity a b \<longleftrightarrow> severity_rank a < severity_rank b"

instance
proof
  fix a b :: risk_severity
  show "a \<le> b \<Longrightarrow> b \<le> a \<Longrightarrow> a = b"
    by (cases a; cases b) (simp_all add: less_eq_risk_severity_def)
qed (auto simp: less_eq_risk_severity_def less_risk_severity_def)

end

datatype risk_episode_event_type =
    ACTIVATE | ESCALATE | TARGET_PROGRESS | TARGET_REACHED | RELEASE

fun risk_event_type_value :: "risk_episode_event_type \<Rightarrow> string" where
  "risk_event_type_value ACTIVATE = ''ACTIVATE''"
| "risk_event_type_value ESCALATE = ''ESCALATE''"
| "risk_event_type_value TARGET_PROGRESS = ''TARGET_PROGRESS''"
| "risk_event_type_value TARGET_REACHED = ''TARGET_REACHED''"
| "risk_event_type_value RELEASE = ''RELEASE''"

datatype cash_settlement_event_type =
    OPENING_SETTLED_CASH | BUY_SETTLED_CASH_DEBIT | SELL_RECEIVABLE_CREATED | RECEIVABLE_SETTLED

fun cash_event_type_value :: "cash_settlement_event_type \<Rightarrow> string" where
  "cash_event_type_value OPENING_SETTLED_CASH = ''OPENING_SETTLED_CASH''"
| "cash_event_type_value BUY_SETTLED_CASH_DEBIT = ''BUY_SETTLED_CASH_DEBIT''"
| "cash_event_type_value SELL_RECEIVABLE_CREATED = ''SELL_RECEIVABLE_CREATED''"
| "cash_event_type_value RECEIVABLE_SETTLED = ''RECEIVABLE_SETTLED''"

section \<open>Versioned records\<close>

definition Q1_ALGORITHM_VERSION :: string where
  "Q1_ALGORITHM_VERSION = ''q1_math_core_v1''"

record versioned_q1_record =
  vr_algorithm_version :: string
  vr_config_manifest_hash :: string
  vr_code_version :: string
  vr_model_version :: string
  vr_source_manifest_hash :: string

definition len_within :: "nat \<Rightarrow> nat \<Rightarrow> string \<Rightarrow> bool" where
  "len_within lo hi s \<longleftrightarrow> lo \<le> py_len s \<and> py_len s \<le> hi"

definition versioned_ok :: "('a versioned_q1_record_scheme) \<Rightarrow> bool" where
  "versioned_ok r \<longleftrightarrow>
     vr_algorithm_version r = Q1_ALGORITHM_VERSION
     \<and> len_within 1 64 (vr_config_manifest_hash r)
     \<and> len_within 1 80 (vr_code_version r)
     \<and> len_within 1 120 (vr_model_version r)
     \<and> len_within 1 64 (vr_source_manifest_hash r)"

section \<open>Order events\<close>

record order_event = versioned_q1_record +
  oe_event_id :: string
  oe_order_intent_id :: string
  oe_event_type :: order_event_type
  oe_event_sequence :: int
  oe_quantity_delta :: decimal
  oe_commission_delta_usd :: decimal
  oe_remaining_quantity :: decimal
  oe_cumulative_filled_quantity :: decimal
  oe_cumulative_commission_usd :: decimal
  oe_occurred_at :: instant
  oe_available_at :: instant
  oe_idempotency_key :: string
  oe_reason :: "string option"
  oe_source_id :: "string option"
  oe_quote_id :: "string option"
  oe_source_cycle_id :: "string option"
  oe_worker_fence_token :: string
  oe_cycle_attempt_count :: int
  oe_event_hash :: string

definition validate_order_event :: "order_event \<Rightarrow> order_event result" where
  "validate_order_event e =
     (if \<not> versioned_ok e
         \<or> oe_event_sequence e < 1 \<or> oe_quantity_delta e < 0 \<or> oe_commission_delta_usd e < 0
         \<or> oe_remaining_quantity e < 0 \<or> oe_cumulative_filled_quantity e < 0
         \<or> oe_cumulative_commission_usd e < 0 \<or> oe_cycle_attempt_count e < 1
      then Inl (ValidationError ''order event field constraint'')
      else if oe_available_at e < oe_occurred_at e
      then Inl (ValidationError ''Order event available_at cannot precede occurred_at'')
      else if oe_event_type e = FILLED \<and> \<not> d_eq (oe_remaining_quantity e) 0
      then Inl (ValidationError ''FILLED order event must have zero remaining quantity'')
      else if oe_event_type e = PARTIALLY_FILLED \<and> oe_cumulative_filled_quantity e \<le> 0
      then Inl (ValidationError ''PARTIALLY_FILLED requires a positive cumulative fill'')
      else if is_fill_type (oe_event_type e) \<and> oe_quantity_delta e \<le> 0
      then Inl (ValidationError ''Fill events require a positive quantity_delta'')
      else if \<not> is_fill_type (oe_event_type e)
              \<and> (\<not> d_eq (oe_quantity_delta e) 0 \<or> \<not> d_eq (oe_commission_delta_usd e) 0)
      then Inl (ValidationError ''Non-fill order events cannot change quantity or commission'')
      else Inr e)"

section \<open>Risk targets and episodes\<close>

record risk_target =
  rt_symbol :: string
  rt_target_quantity :: decimal
  rt_trigger_quote_id :: string
  rt_target_generation :: int
  rt_target_id :: "string option"
  rt_trigger_quantity :: "decimal option"
  rt_trigger_price :: "decimal option"
  rt_target_weight :: "decimal option"

definition is_upper :: "char \<Rightarrow> bool" where
  "is_upper c \<longleftrightarrow> 65 \<le> (of_char c :: nat) \<and> (of_char c :: nat) \<le> 90"

definition is_digit :: "char \<Rightarrow> bool" where
  "is_digit c \<longleftrightarrow> 48 \<le> (of_char c :: nat) \<and> (of_char c :: nat) \<le> 57"

text \<open>The pattern \<^verbatim>\<open>^[A-Z][A-Z0-9._-]{0,29}$\<close>.\<close>

definition symbol_ok :: "string \<Rightarrow> bool" where
  "symbol_ok s \<longleftrightarrow>
     (case s of
        [] \<Rightarrow> False
      | c # cs \<Rightarrow> is_upper c \<and> length cs \<le> 29
          \<and> list_all (\<lambda>c. is_upper c \<or> is_digit c \<or> c \<in> set ''._-'') cs)"

definition opt_all :: "('a \<Rightarrow> bool) \<Rightarrow> 'a option \<Rightarrow> bool" where
  "opt_all P x \<longleftrightarrow> (case x of None \<Rightarrow> True | Some y \<Rightarrow> P y)"

definition validate_risk_target :: "risk_target \<Rightarrow> risk_target result" where
  "validate_risk_target t =
     (if symbol_ok (rt_symbol t) \<and> 0 \<le> rt_target_quantity t \<and> 1 \<le> rt_target_generation t
         \<and> opt_all (\<lambda>q. 0 \<le> q) (rt_trigger_quantity t)
         \<and> opt_all (\<lambda>p. 0 < p) (rt_trigger_price t)
         \<and> opt_all (\<lambda>w. 0 \<le> w \<and> w \<le> 1) (rt_target_weight t)
      then Inr t else Inl (ValidationError ''risk target field constraint''))"

record risk_episode = versioned_q1_record +
  re_risk_episode_id :: string
  re_run_id :: string
  re_arm_id :: q1_arm_id
  re_severity :: risk_severity
  re_calendar_session_id :: string
  re_triggered_at :: instant
  re_trigger_nav_usd :: decimal
  re_session_open_nav_usd :: decimal
  re_running_peak_nav_usd :: decimal
  re_daily_loss :: decimal
  re_run_drawdown :: decimal
  re_portfolio_annualized_vol :: "decimal option"
  re_soft_daily_threshold :: decimal
  re_hard_daily_threshold :: decimal
  re_reconciliation_status :: string
  re_targets :: "risk_target list"
  re_target_manifest_hash :: string
  re_episode_hash :: string
  re_created_at :: instant

definition validate_risk_episode :: "risk_episode \<Rightarrow> risk_episode result" where
  "validate_risk_episode e =
     (if \<not> versioned_ok e
         \<or> re_trigger_nav_usd e \<le> 0 \<or> re_session_open_nav_usd e \<le> 0
         \<or> re_running_peak_nav_usd e \<le> 0 \<or> re_daily_loss e < 0 \<or> re_run_drawdown e < 0
         \<or> \<not> opt_all (\<lambda>v. 0 \<le> v) (re_portfolio_annualized_vol e)
         \<or> re_soft_daily_threshold e < 0 \<or> re_hard_daily_threshold e < 0
         \<or> re_targets e = []
      then Inl (ValidationError ''risk episode field constraint'')
      else if re_severity e \<noteq> HARD_REDUCE \<and> re_severity e \<noteq> CRITICAL_EXIT
      then Inl (ValidationError ''Typed risk episodes require HARD_REDUCE or CRITICAL_EXIT'')
      else if has_duplicates (map rt_symbol (re_targets e))
      then Inl (ValidationError ''Risk episode targets must have unique symbols'')
      else if \<exists>t\<in>set (re_targets e). rt_target_generation t \<noteq> 1
      then Inl (ValidationError ''Risk episode activation targets must use generation 1'')
      else if re_created_at e < re_triggered_at e
      then Inl (ValidationError ''Risk episode cannot be created before it is triggered'')
      else Inr e)"

record risk_episode_event = versioned_q1_record +
  rv_risk_episode_event_id :: string
  rv_risk_episode_id :: string
  rv_event_type :: risk_episode_event_type
  rv_event_sequence :: int
  rv_severity :: risk_severity
  rv_target_generation :: int
  rv_occurred_at :: instant
  rv_available_at :: instant
  rv_targets :: "risk_target list"
  rv_target_symbol :: "string option"
  rv_observed_quantity :: "decimal option"
  rv_residual_quantity :: "decimal option"
  rv_consecutive_valid_checks :: int
  rv_source_cycle_id :: "string option"
  rv_worker_fence_token :: string
  rv_cycle_attempt_count :: int
  rv_idempotency_key :: string
  rv_event_hash :: string

definition validate_risk_episode_event :: "risk_episode_event \<Rightarrow> risk_episode_event result" where
  "validate_risk_episode_event e =
     (if \<not> versioned_ok e
         \<or> rv_event_sequence e < 1 \<or> rv_target_generation e < 1
         \<or> \<not> opt_all (\<lambda>q. 0 \<le> q) (rv_observed_quantity e)
         \<or> \<not> opt_all (\<lambda>q. 0 \<le> q) (rv_residual_quantity e)
         \<or> rv_consecutive_valid_checks e < 0 \<or> rv_cycle_attempt_count e < 1
      then Inl (ValidationError ''risk episode event field constraint'')
      else if rv_available_at e < rv_occurred_at e
      then Inl (ValidationError ''Risk event available_at cannot precede occurred_at'')
      else if (rv_event_type e = ACTIVATE \<or> rv_event_type e = ESCALATE) \<and> rv_targets e = []
      then Inl (ValidationError ''ACTIVATE and ESCALATE events require non-empty typed targets'')
      else if (rv_event_type e = TARGET_PROGRESS \<or> rv_event_type e = TARGET_REACHED)
              \<and> rv_target_symbol e = None
      then Inl (ValidationError ''Target progress events require target_symbol'')
      else Inr e)"

section \<open>Cash settlement events\<close>

record cash_settlement_event = versioned_q1_record +
  cs_cash_settlement_event_id :: string
  cs_run_id :: string
  cs_arm_id :: q1_arm_id
  cs_event_type :: cash_settlement_event_type
  cs_receivable_id :: "string option"
  cs_source_fill_id :: "string option"
  cs_settlement_policy_version :: string
  cs_currency :: string
  cs_settled_cash_delta_usd :: decimal
  cs_unsettled_receivable_delta_usd :: decimal
  cs_gross_amount_usd :: decimal
  cs_commission_usd :: decimal
  cs_trade_at :: "instant option"
  cs_settlement_date :: "date option"
  cs_effective_at :: instant
  cs_calendar_session_id :: string
  cs_source_cycle_id :: string
  cs_worker_fence_token :: string
  cs_cycle_attempt_count :: int
  cs_idempotency_key :: string
  cs_event_hash :: string
  cs_created_at :: instant

text \<open>The currency pattern \<^verbatim>\<open>^[A-Z]{3}$\<close>.\<close>

definition currency_ok :: "string \<Rightarrow> bool" where
  "currency_ok s \<longleftrightarrow> length s = 3 \<and> list_all is_upper s"

definition validate_cash_settlement_event ::
  "cash_settlement_event \<Rightarrow> cash_settlement_event result" where
  "validate_cash_settlement_event e =
     (if \<not> versioned_ok e \<or> \<not> currency_ok (cs_currency e)
         \<or> cs_gross_amount_usd e < 0 \<or> cs_commission_usd e < 0 \<or> cs_cycle_attempt_count e < 1
      then Inl (ValidationError ''cash settlement event field constraint'')
      else if (cs_event_type e = SELL_RECEIVABLE_CREATED \<or> cs_event_type e = RECEIVABLE_SETTLED)
              \<and> (cs_receivable_id e = None \<or> cs_settlement_date e = None)
      then Inl (ValidationError ''Receivable events require receivable_id and settlement_date'')
      else if cs_created_at e < cs_effective_at e
      then Inl (ValidationError ''Settlement event cannot be created before effective_at'')
      else Inr e)"

section \<open>Fills and ledger records\<close>

record fill =
  fl_fill_id :: string
  fl_order_intent_id :: string
  fl_arm_id :: string
  fl_symbol :: string
  fl_side :: order_side
  fl_quantity :: decimal
  fl_price :: decimal
  fl_commission_usd :: decimal
  fl_execution_scenario_id :: string
  fl_effective_at :: instant
  fl_created_at :: instant

definition validate_fill :: "fill \<Rightarrow> fill result" where
  "validate_fill f =
     (if 0 < fl_quantity f \<and> 0 < fl_price f \<and> 0 \<le> fl_commission_usd f
      then Inr f else Inl (ValidationError ''fill field constraint''))"

record ledger_transaction =
  lt_ledger_transaction_id :: string
  lt_arm_id :: string
  lt_transaction_type :: string
  lt_source_id :: string
  lt_effective_at :: instant
  lt_created_at :: instant

record ledger_posting =
  lp_posting_id :: string
  lp_ledger_transaction_id :: string
  lp_account_code :: string
  lp_asset_code :: string
  lp_quantity_delta :: decimal
  lp_usd_value_delta :: decimal
  lp_metadata :: "(string \<times> string) list"

record ledger_entry =
  le_transaction :: ledger_transaction
  le_postings :: "ledger_posting list"

definition validate_ledger_entry :: "ledger_entry \<Rightarrow> ledger_entry result" where
  "validate_ledger_entry e =
     (if length (le_postings e) < 2
      then Inl (ValidationError ''ledger entry needs two postings'')
      else if \<exists>p\<in>set (le_postings e).
          lp_ledger_transaction_id p \<noteq> lt_ledger_transaction_id (le_transaction e)
      then Inl (ValidationError ''Ledger posting references another transaction'')
      else if D 1 (- 6) < d_abs (dsum (map lp_usd_value_delta (le_postings e)))
      then Inl (ValidationError ''Ledger transaction is not balanced'')
      else Inr e)"

record nav_snapshot =
  nv_nav_snapshot_id :: string
  nv_arm_id :: string
  nv_as_of :: instant
  nv_cash_usd :: decimal
  nv_positions_market_value_usd :: decimal
  nv_nav_usd :: decimal
  nv_price_manifest_hash :: string
  nv_created_at :: instant

definition validate_nav_snapshot :: "nav_snapshot \<Rightarrow> nav_snapshot result" where
  "validate_nav_snapshot s =
     (if d_eq (nv_cash_usd s + nv_positions_market_value_usd s) (nv_nav_usd s) then Inr s
      else Inl (ValidationError ''NAV arithmetic mismatch''))"

section \<open>Facts shared by the components\<close>

lemma is_terminal_simps [simp]:
  "is_terminal_order_event CREATED = False" "is_terminal_order_event ACTIVE = False"
  "is_terminal_order_event PARTIALLY_FILLED = False" "is_terminal_order_event FILLED = True"
  "is_terminal_order_event CANCELED_BY_RISK = True" "is_terminal_order_event SUPERSEDED = True"
  "is_terminal_order_event EXPIRED = True" "is_terminal_order_event REJECTED = True"
  "is_terminal_order_event BLOCKED_BY_DATA = False"
  "is_terminal_order_event BLOCKED_BY_PRICE_GUARD = False"
  by (simp_all add: is_terminal_order_event_def TERMINAL_ORDER_EVENT_TYPES_def)

lemma is_fill_type_simps [simp]:
  "is_fill_type PARTIALLY_FILLED = True" "is_fill_type FILLED = True"
  "is_fill_type CREATED = False" "is_fill_type ACTIVE = False"
  "is_fill_type CANCELED_BY_RISK = False" "is_fill_type SUPERSEDED = False"
  "is_fill_type EXPIRED = False" "is_fill_type REJECTED = False"
  "is_fill_type BLOCKED_BY_DATA = False" "is_fill_type BLOCKED_BY_PRICE_GUARD = False"
  by (simp_all add: is_fill_type_def)

lemma validate_order_event_Inr:
  "validate_order_event e = Inr e' \<Longrightarrow> e' = e"
  by (auto simp: validate_order_event_def split: if_splits)

lemma validate_order_event_nonneg:
  "validate_order_event e = Inr e' \<Longrightarrow>
     0 \<le> dval (oe_quantity_delta e) \<and> 0 \<le> dval (oe_commission_delta_usd e)
     \<and> 0 \<le> dval (oe_remaining_quantity e) \<and> 1 \<le> oe_event_sequence e
     \<and> oe_occurred_at e \<le> oe_available_at e"
  by (auto simp: validate_order_event_def dval_simps split: if_splits)

lemma validate_risk_episode_event_Inr:
  "validate_risk_episode_event e = Inr e' \<Longrightarrow> e' = e"
  by (auto simp: validate_risk_episode_event_def split: if_splits)

lemma validate_risk_episode_Inr:
  "validate_risk_episode e = Inr e' \<Longrightarrow> e' = e"
  by (auto simp: validate_risk_episode_def split: if_splits)

lemma validate_cash_settlement_event_Inr:
  "validate_cash_settlement_event e = Inr e' \<Longrightarrow> e' = e"
  by (auto simp: validate_cash_settlement_event_def split: if_splits)

lemma severity_le_iff: "(a :: risk_severity) \<le> b \<longleftrightarrow> severity_rank a \<le> severity_rank b"
  by (simp add: less_eq_risk_severity_def)

lemma severity_less_iff: "(a :: risk_severity) < b \<longleftrightarrow> severity_rank a < severity_rank b"
  by (simp add: less_risk_severity_def)

lemma NORMAL_le [simp]: "NORMAL \<le> s"
  by (simp add: severity_le_iff)

end
