(* ===== verification/Event_Log.thy ===== *)
theory Event_Log
  imports Prelude
begin

text \<open>
  The contract every event-sourced part of the program relies on: a state is the replay of a
  log of immutable rows, read from storage in an arbitrary order, sorted by a key and folded
  from an initial state by a step that may raise. The clients' laws are proved once here; the
  ledger, the order book, the settlement journal and the risk episodes interpret them on their
  own definitions.
\<close>

section \<open>Replay of a sorted log\<close>

locale event_replay =
  fixes key :: "'e \<Rightarrow> 'k::linorder"
    and step :: "'e \<Rightarrow> 's \<Rightarrow> 's result"
    and start :: 's
    and valid :: "'e list \<Rightarrow> bool"
  assumes valid_keys: "valid es \<Longrightarrow> distinct (map key es)"
    and valid_mset: "mset es = mset es' \<Longrightarrow> valid es \<Longrightarrow> valid es'"
begin

definition replay :: "'e list \<Rightarrow> 's result" where
  "replay es = rfold step (sort_key key es) start"

text \<open>Storage order does not matter.\<close>

lemma sort_permutation: "valid es \<Longrightarrow> mset es = mset es' \<Longrightarrow> sort_key key es = sort_key key es'"
  by (intro sort_key_permutation_unique distinct_map_inj_on valid_keys)

lemma replay_permutation: "valid es \<Longrightarrow> mset es = mset es' \<Longrightarrow> replay es = replay es'"
  unfolding replay_def by (metis sort_permutation)

text \<open>Rows whose keys come later are applied later.\<close>

lemma sort_key_append:
  assumes "\<And>x y. x \<in> set es \<Longrightarrow> y \<in> set es' \<Longrightarrow> key x \<le> key y"
  shows "sort_key key (es @ es') = sort_key key es @ sort_key key es'"
proof (rule properties_for_sort_key)
  show "mset (sort_key key es @ sort_key key es') = mset (es @ es')" by simp
  show "sorted (map key (sort_key key es @ sort_key key es'))" using assms by (auto simp: sorted_append)
  show "filter (\<lambda>x. key k = key x) (sort_key key es @ sort_key key es') = filter (\<lambda>x. key k = key x) (es @ es')" for k
    using sort_key_stable [of key "key k" es] sort_key_stable [of key "key k" es'] by (simp add: eq_commute)
qed

lemma sort_key_snoc:
  assumes "\<And>x. x \<in> set es \<Longrightarrow> key x \<le> key e"
  shows "sort_key key (es @ [e]) = sort_key key es @ [e]"
  using sort_key_append [of es "[e]"] assms by simp

lemma replay_snoc:
  assumes "\<And>x. x \<in> set es \<Longrightarrow> key x \<le> key e"
  shows "replay (es @ [e]) = rbind (replay es) (step e)"
  using sort_key_snoc [OF assms] by (simp add: replay_def rfold_snoc)

end

text \<open>An invariant of the initial state that every accepted step keeps holds of every replay.\<close>

locale invariant_replay = event_replay key step start valid
  for key :: "'e \<Rightarrow> 'k::linorder" and step :: "'e \<Rightarrow> 's \<Rightarrow> 's result" and start and valid +
  fixes inv :: "'s \<Rightarrow> bool"
  assumes inv_start: "inv start"
    and inv_step: "inv s \<Longrightarrow> step e s = Inr s' \<Longrightarrow> inv s'"
begin

lemma inv_rfold: "inv s \<Longrightarrow> rfold step es s = Inr s' \<Longrightarrow> inv s'"
  by (induction es arbitrary: s) (auto simp: result_simps intro: inv_step)

lemma inv_replay: "replay es = Inr s \<Longrightarrow> inv s"
  unfolding replay_def by (rule inv_rfold [OF inv_start])

end

section \<open>Emitting events for several objects\<close>

text \<open>
  Interface between an operation that closes a batch of objects and the log it writes to:
  \<open>append\<close> builds the next event of one object, \<open>view\<close> derives the state of an object from a
  log, \<open>closed\<close> says that the event had its effect.
\<close>

locale event_emitter =
  fixes append :: "'o \<Rightarrow> 'e list \<Rightarrow> 'e result"
    and view :: "'o \<Rightarrow> 'e list \<Rightarrow> 'a result"
    and ident :: "'o \<Rightarrow> 'i"
    and owner :: "'e \<Rightarrow> 'i"
    and closed :: "'a \<Rightarrow> bool"
  assumes append_owner: "append x es = Inr e \<Longrightarrow> owner e = ident x"
    and append_closes: "append x es = Inr e \<Longrightarrow> \<exists>a. view x (es @ [e]) = Inr a \<and> closed a"
    and view_frame: "(\<And>e. e \<in> set ys \<Longrightarrow> owner e \<noteq> ident x) \<Longrightarrow> view x (xs @ ys) = view x xs"
begin

fun emit :: "'o list \<Rightarrow> 'e list \<Rightarrow> 'e list \<Rightarrow> 'e list result" where
  "emit [] hist out = Inr out"
| "emit (x # xs) hist out = rbind (append x (hist @ out)) (\<lambda>e. emit xs hist (out @ [e]))"

lemma emit_owners:
  "emit xs hist out = Inr out' \<Longrightarrow> \<exists>es. out' = out @ es \<and> map owner es = map ident xs"
proof (induction xs arbitrary: out)
  case (Cons x xs)
  then obtain e where e: "append x (hist @ out) = Inr e" "emit xs hist (out @ [e]) = Inr out'"
    by (auto simp: result_simps)
  then obtain es where "out' = out @ [e] @ es" "map owner es = map ident xs" using Cons.IH by fastforce
  then show ?case using append_owner [OF e(1)] by (intro exI [of _ "e # es"]) simp
qed simp

lemma emit_frame:
  assumes "emit xs hist out = Inr out'" "ident x \<notin> ident ` set xs"
  shows "view x (hist @ out') = view x (hist @ out)"
proof -
  obtain es where es: "out' = out @ es" "map owner es = map ident xs" using emit_owners [OF assms(1)] by auto
  have "owner e \<noteq> ident x" if "e \<in> set es" for e
  proof -
    have "owner e \<in> set (map owner es)" using that by simp
    then show ?thesis using assms(2) unfolding es(2) by auto
  qed
  then show ?thesis using view_frame [of es x "hist @ out"] es(1) by simp
qed

lemma emit_closes:
  "emit xs hist out = Inr out' \<Longrightarrow> distinct (map ident xs) \<Longrightarrow> x \<in> set xs \<Longrightarrow>
     \<exists>a. view x (hist @ out') = Inr a \<and> closed a"
proof (induction xs arbitrary: out)
  case (Cons y xs)
  then obtain e where e: "append y (hist @ out) = Inr e" "emit xs hist (out @ [e]) = Inr out'"
    by (auto simp: result_simps)
  show ?case
  proof (cases "x = y")
    case True
    then have "view x (hist @ out') = view x (hist @ out @ [e])"
      using emit_frame [OF e(2)] Cons.prems(2) by auto
    then show ?thesis using append_closes [OF e(1)] True by simp
  qed (use Cons e(2) in auto)
qed simp

end

end
