(* ===== verification/Ledger.thy ===== *)
theory Ledger
  imports Domain Event_Log
begin

text \<open>
  The double-entry ledger of \<^verbatim>\<open>src/trading/ledger\<close>: construction of the three kinds of
  entries (initial capital, opening portfolio, fill), validation of a set of entries, the
  rebuild of cash and positions from entries, and the NAV snapshot. Shown: a fill entry is
  balanced and accepted for every economically possible fill although each amount is rounded
  to 28 digits; validation accepts exactly the sets of balanced entries without repeated
  identifiers; the rebuilt holdings do not depend on the order of the entries and are the exact
  sums of the postings on a grid; the opening entry round-trips through the rebuild; the NAV is
  within one cent of the exact value.
\<close>

section \<open>Entries\<close>

definition BALANCE_TOLERANCE :: decimal where
  "BALANCE_TOLERANCE = D 1 (- 6)"

definition posting ::
  "string \<Rightarrow> string \<Rightarrow> string \<Rightarrow> string \<Rightarrow> decimal \<Rightarrow> decimal \<Rightarrow> (string \<times> string) list \<Rightarrow> ledger_posting"
  where
  "posting pid tid account asset q v m =
     \<lparr>lp_posting_id = pid, lp_ledger_transaction_id = tid, lp_account_code = account,
      lp_asset_code = asset, lp_quantity_delta = q, lp_usd_value_delta = v, lp_metadata = m\<rparr>"

definition capital_entry :: "digest \<Rightarrow> string \<Rightarrow> decimal \<Rightarrow> instant \<Rightarrow> ledger_entry result" where
  "capital_entry H arm_id amount effective_at =
     (let transaction_id =
            stable_id H ''ltx'' [VStr arm_id, VStr ''INITIAL_CAPITAL'', VStr (str_decimal amount)];
          transaction =
            \<lparr>lt_ledger_transaction_id = transaction_id, lt_arm_id = arm_id,
             lt_transaction_type = ''INITIAL_CAPITAL'',
             lt_source_id = stable_id H ''capital'' [VStr arm_id],
             lt_effective_at = effective_at, lt_created_at = effective_at\<rparr>;
          postings =
            [posting (stable_id H ''post'' [VStr transaction_id, VStr ''cash'']) transaction_id
               ''CASH'' ''USD_CASH'' amount amount [],
             posting (stable_id H ''post'' [VStr transaction_id, VStr ''equity'']) transaction_id
               ''EQUITY:CONTRIBUTED_CAPITAL'' ''USD_CASH'' 0 (- amount) []] in
      validate_ledger_entry \<lparr>le_transaction = transaction, le_postings = postings\<rparr>)"

definition validate_posting_id :: "ledger_posting \<Rightarrow> string set \<Rightarrow> string set result" where
  "validate_posting_id p seen =
     (if lp_posting_id p \<in> seen
      then Inl (ValueError (''Duplicate ledger posting: '' @ lp_posting_id p))
      else Inr (insert (lp_posting_id p) seen))"

definition validate_entry_step ::
  "ledger_entry \<Rightarrow> string set \<times> string set \<Rightarrow> (string set \<times> string set) result" where
  "validate_entry_step entry seen =
     (case seen of (seen_transactions, seen_postings) \<Rightarrow>
        let transaction_id = lt_ledger_transaction_id (le_transaction entry);
            balance = dsum (map lp_usd_value_delta (le_postings entry)) in
        if transaction_id \<in> seen_transactions
        then Inl (ValueError (''Duplicate ledger transaction: '' @ transaction_id))
        else if BALANCE_TOLERANCE < d_abs balance
        then Inl (ValueError (''Unbalanced ledger transaction '' @ transaction_id))
        else rbind (rfold validate_posting_id (le_postings entry) seen_postings)
               (\<lambda>sp. Inr (insert transaction_id seen_transactions, sp)))"

definition validate_entries :: "ledger_entry list \<Rightarrow> unit result" where
  "validate_entries entries =
     rbind (rfold validate_entry_step entries ({}, {})) (\<lambda>_. Inr ())"

text \<open>
  The loop over \<^verbatim>\<open>sorted(positions)\<close> builds the security postings and accumulates their value.
  \<open>prices\<close> has every symbol of \<open>positions\<close>: the caller raises otherwise.
\<close>

fun opening_postings ::
  "digest \<Rightarrow> string \<Rightarrow> string \<Rightarrow> (string, decimal) dict \<Rightarrow> (string, decimal) dict \<Rightarrow> decimal
    \<Rightarrow> ledger_posting list \<times> decimal" where
  "opening_postings H tid source_id prices [] tot = ([], tot)"
| "opening_postings H tid source_id prices ((symbol, quantity) # rest) tot =
     (let price = dict_get prices symbol 0;
          value = quantity * price;
          p = posting (stable_id H ''post'' [VStr tid, VStr ''asset'', VStr symbol]) tid
                ''ASSET:SECURITY'' symbol quantity value
                [(''source_id'', source_id), (''opening_mark'', format_f price)] in
      case opening_postings H tid source_id prices rest (tot + value) of
        (ps, t) \<Rightarrow> (p # ps, t))"

definition portfolio_opening_entry ::
  "digest \<Rightarrow> string \<Rightarrow> string \<Rightarrow> decimal \<Rightarrow> (string, decimal) dict \<Rightarrow> (string, decimal) dict
    \<Rightarrow> instant \<Rightarrow> ledger_entry result" where
  "portfolio_opening_entry H arm_id source_id cash_usd positions prices effective_at =
     (if \<exists>s\<in>set (dict_keys positions). \<not> dict_has prices s
      then Inl (ValueError ''Missing opening prices'')
      else if cash_usd < 0 \<or> (\<exists>q\<in>set (dict_values positions). q \<le> 0)
      then Inl (ValueError ''Opening paper holdings must be non-negative'')
      else
        let tid = stable_id H ''ltx'' [VStr source_id, VStr arm_id, VStr ''PAPER_OPENING_BALANCE''];
            transaction =
              \<lparr>lt_ledger_transaction_id = tid, lt_arm_id = arm_id,
               lt_transaction_type = ''PAPER_OPENING_BALANCE'', lt_source_id = source_id,
               lt_effective_at = effective_at, lt_created_at = effective_at\<rparr>;
            cash = posting (stable_id H ''post'' [VStr tid, VStr ''cash'']) tid
                     ''CASH'' ''USD_CASH'' cash_usd cash_usd [(''source_id'', source_id)] in
        case opening_postings H tid source_id prices (sorted_items positions) cash_usd of
          (assets, total_value) \<Rightarrow>
            let equity = posting (stable_id H ''post'' [VStr tid, VStr ''equity'']) tid
                           ''EQUITY:OPENING_BALANCE'' ''USD_CASH'' 0 (- total_value)
                           [(''source_id'', source_id)] in
            rbind (validate_ledger_entry
                     \<lparr>le_transaction = transaction, le_postings = cash # assets @ [equity]\<rparr>)
              (\<lambda>entry. rbind (validate_entries [entry]) (\<lambda>_. Inr entry)))"

definition fill_entry :: "digest \<Rightarrow> fill \<Rightarrow> ledger_entry result" where
  "fill_entry H f =
     (let tid = stable_id H ''ltx'' [VStr (fl_arm_id f), VStr (fl_fill_id f)];
          transaction =
            \<lparr>lt_ledger_transaction_id = tid, lt_arm_id = fl_arm_id f,
             lt_transaction_type = ''FILL'', lt_source_id = fl_fill_id f,
             lt_effective_at = fl_effective_at f, lt_created_at = fl_created_at f\<rparr>;
          notional = fl_quantity f * fl_price f;
          asset_quantity = (if fl_side f = BUY then fl_quantity f else - fl_quantity f);
          asset_value = (if fl_side f = BUY then notional else - notional);
          cash_quantity =
            (if fl_side f = BUY then - (notional + fl_commission_usd f)
             else notional - fl_commission_usd f);
          cash_value = cash_quantity;
          meta = [(''fill_id'', fl_fill_id f)];
          postings =
            [posting (stable_id H ''post'' [VStr tid, VStr ''asset'']) tid
               ''ASSET:SECURITY'' (fl_symbol f) asset_quantity asset_value meta,
             posting (stable_id H ''post'' [VStr tid, VStr ''cash'']) tid
               ''CASH'' ''USD_CASH'' cash_quantity cash_value meta,
             posting (stable_id H ''post'' [VStr tid, VStr ''fee'']) tid
               ''EXPENSE:COMMISSION'' ''USD_CASH'' 0 (fl_commission_usd f) meta] in
      validate_ledger_entry \<lparr>le_transaction = transaction, le_postings = postings\<rparr>)"

section \<open>Rebuilding holdings\<close>

type_synonym holdings = "decimal \<times> (string, decimal) dict"

definition apply_posting :: "ledger_posting \<Rightarrow> holdings \<Rightarrow> holdings" where
  "apply_posting p h =
     (case h of (cash, positions) \<Rightarrow>
        if lp_account_code p = ''CASH'' then (cash + lp_quantity_delta p, positions)
        else if lp_account_code p = ''ASSET:SECURITY''
        then (cash, AList.update (lp_asset_code p)
                      (dict_get positions (lp_asset_code p) 0 + lp_quantity_delta p) positions)
        else (cash, positions))"

definition entry_key :: "ledger_entry \<Rightarrow> instant \<times> string" where
  "entry_key e = (lt_effective_at (le_transaction e), lt_ledger_transaction_id (le_transaction e))"

definition rebuild_holdings :: "ledger_entry list \<Rightarrow> holdings result" where
  "rebuild_holdings entries =
     rbind (validate_entries entries)
       (\<lambda>_. Inr (fold (\<lambda>entry h. fold apply_posting (le_postings entry) h)
                   (sort_key entry_key entries) (0, [])))"

section \<open>Net asset value\<close>

definition CENT :: decimal where
  "CENT = D 1 (- 2)"

definition calculate_nav ::
  "digest \<Rightarrow> string \<Rightarrow> instant \<Rightarrow> decimal \<Rightarrow> (string, decimal) dict \<Rightarrow> (string, decimal) dict
    \<Rightarrow> nav_snapshot result" where
  "calculate_nav H arm_id as_of cash_usd positions prices =
     (if \<exists>s\<in>set (dict_keys positions). \<not> dict_has prices s
      then Inl (ValueError ''Missing NAV prices'')
      else
        rbind (quantize ROUND_HALF_EVEN CENT
                 (dsum (map (\<lambda>(symbol, quantity). quantity * dict_get prices symbol 0) positions)))
          (\<lambda>market_value.
        rbind (quantize ROUND_HALF_EVEN CENT cash_usd)
          (\<lambda>rounded_cash.
        let nav = rounded_cash + market_value;
            price_hash =
              canonical_hash H (VDict (map (\<lambda>(s, p). (s, VStr (str_decimal p))) prices)) in
        validate_nav_snapshot
          \<lparr>nv_nav_snapshot_id = stable_id H ''nav'' [VStr arm_id, VTime as_of, VStr price_hash],
           nv_arm_id = arm_id, nv_as_of = as_of, nv_cash_usd = rounded_cash,
           nv_positions_market_value_usd = market_value, nv_nav_usd = nav,
           nv_price_manifest_hash = price_hash, nv_created_at = as_of\<rparr>)))"

section \<open>Validation of entries\<close>

lemma rfold_validate_posting_id:
  "rfold validate_posting_id ps seen = Inr seen' \<longleftrightarrow>
     distinct (map lp_posting_id ps) \<and> lp_posting_id ` set ps \<inter> seen = {}
     \<and> seen' = lp_posting_id ` set ps \<union> seen"
  by (induction ps arbitrary: seen) (auto simp: validate_posting_id_def result_simps)

text \<open>What a valid set of entries is, without the loop.\<close>

definition balanced_entry :: "ledger_entry \<Rightarrow> bool" where
  "balanced_entry e \<longleftrightarrow> dval (d_abs (dsum (map lp_usd_value_delta (le_postings e)))) \<le> pow10 (- 6)"

definition entry_posting_ids :: "ledger_entry \<Rightarrow> string list" where
  "entry_posting_ids e = map lp_posting_id (le_postings e)"

abbreviation entry_id :: "ledger_entry \<Rightarrow> string" where
  "entry_id e \<equiv> lt_ledger_transaction_id (le_transaction e)"

lemma validate_entry_step_Inr:
  "validate_entry_step e (st, sp) = Inr (st', sp') \<longleftrightarrow>
     entry_id e \<notin> st \<and> balanced_entry e \<and> distinct (entry_posting_ids e)
     \<and> set (entry_posting_ids e) \<inter> sp = {}
     \<and> st' = insert (entry_id e) st \<and> sp' = set (entry_posting_ids e) \<union> sp"
  by (auto simp: validate_entry_step_def Let_def result_simps rfold_validate_posting_id
      balanced_entry_def entry_posting_ids_def BALANCE_TOLERANCE_def dval_simps)

lemma rfold_validate_entry_step:
  "rfold validate_entry_step es (st, sp) = Inr (st', sp') \<longleftrightarrow>
     distinct (map entry_id es) \<and> entry_id ` set es \<inter> st = {}
     \<and> list_all balanced_entry es
     \<and> distinct (concat (map entry_posting_ids es))
     \<and> set (concat (map entry_posting_ids es)) \<inter> sp = {}
     \<and> st' = entry_id ` set es \<union> st \<and> sp' = set (concat (map entry_posting_ids es)) \<union> sp"
proof (induction es arbitrary: st sp)
  case (Cons e es)
  show ?case
    by (simp add: result_simps validate_entry_step_Inr Cons.IH split_paired_Ex del: set_concat) auto
qed auto

text \<open>The accepted sets of entries: unique transactions, unique postings, every entry balanced.\<close>

definition valid_entries :: "ledger_entry list \<Rightarrow> bool" where
  "valid_entries es \<longleftrightarrow>
     distinct (map entry_id es) \<and> list_all balanced_entry es
     \<and> distinct (concat (map entry_posting_ids es))"

lemma validate_entries_Inr: "validate_entries es = Inr u \<longleftrightarrow> valid_entries es"
  by (simp add: validate_entries_def result_simps split_paired_Ex rfold_validate_entry_step
      valid_entries_def)


lemma valid_entries_mset:
  assumes "mset es = mset es'" and "valid_entries es"
  shows "valid_entries es'"
proof -
  have "mset (concat (map entry_posting_ids es)) = mset (concat (map entry_posting_ids es'))"
    by (rule mset_concat_map_cong [OF assms(1)])
  then have "distinct (concat (map entry_posting_ids es'))"
    using assms(2) mset_eq_imp_distinct_iff by (auto simp: valid_entries_def)
  then show ?thesis
    using assms distinct_map_mset_cong [OF assms(1)] mset_eq_setD [OF assms(1)]
    by (auto simp: valid_entries_def list_all_iff)
qed

section \<open>The rebuild as a replay\<close>

definition apply_entry :: "ledger_entry \<Rightarrow> holdings \<Rightarrow> holdings result" where
  "apply_entry e h = Inr (fold apply_posting (le_postings e) h)"

interpretation ledger_log: event_replay entry_key apply_entry "(0, [])" valid_entries
proof
  fix es :: "ledger_entry list"
  assume "valid_entries es"
  then have "distinct (map entry_id es)" by (simp add: valid_entries_def)
  then show "distinct (map entry_key es)"
    by (auto simp: distinct_map inj_on_def entry_key_def)
qed (rule valid_entries_mset)

lemma rfold_apply_entry:
  "rfold apply_entry es h = Inr (fold (\<lambda>e h. fold apply_posting (le_postings e) h) es h)"
  by (induction es arbitrary: h) (auto simp: apply_entry_def)

lemma rebuild_holdings_replay:
  "rebuild_holdings es = rbind (validate_entries es) (\<lambda>_. ledger_log.replay es)"
  by (simp add: rebuild_holdings_def ledger_log.replay_def rfold_apply_entry)

text \<open>The postings in the order in which the rebuild applies them.\<close>

definition replayed_postings :: "ledger_entry list \<Rightarrow> ledger_posting list" where
  "replayed_postings es = concat (map le_postings (sort_key entry_key es))"

definition cash_deltas :: "ledger_posting list \<Rightarrow> decimal list" where
  "cash_deltas ps = map lp_quantity_delta (filter (\<lambda>p. lp_account_code p = ''CASH'') ps)"

definition position_deltas :: "string \<Rightarrow> ledger_posting list \<Rightarrow> decimal list" where
  "position_deltas s ps =
     map lp_quantity_delta
       (filter (\<lambda>p. lp_account_code p = ''ASSET:SECURITY'' \<and> lp_asset_code p = s) ps)"

lemma fold_apply_posting:
  "fst (fold apply_posting ps h) = foldl (+) (fst h) (cash_deltas ps)"
  "dict_get (snd (fold apply_posting ps h)) s 0 = foldl (+) (dict_get (snd h) s 0) (position_deltas s ps)"
  by (induction ps arbitrary: h)
    (auto simp: apply_posting_def cash_deltas_def position_deltas_def dict_get_update split: prod.split)

lemma fold_concat_postings:
  "fold (\<lambda>e h. fold apply_posting (le_postings e) h) es h = fold apply_posting (concat (map le_postings es)) h"
  by (induction es arbitrary: h) auto

lemma rebuild_holdings_sums:
  assumes "rebuild_holdings es = Inr (cash, positions)"
  shows "cash = dsum (cash_deltas (replayed_postings es))"
    and "dict_get positions s 0 = dsum (position_deltas s (replayed_postings es))"
proof -
  have "fold apply_posting (replayed_postings es) (0, []) = (cash, positions)"
    using assms by (simp add: rebuild_holdings_def result_simps fold_concat_postings replayed_postings_def)
  then show "cash = dsum (cash_deltas (replayed_postings es))"
    "dict_get positions s 0 = dsum (position_deltas s (replayed_postings es))"
    using fold_apply_posting [of "replayed_postings es" "(0, [])"]
    by (simp_all add: dsum_def dict_get_def)
qed

section \<open>Fill entries balance\<close>

text \<open>
  Cancelling a rounded amount against its parts leaves at most the rounding errors: with
  \<open>\<delta>\<close> the error of the rounded cash amount, the balance of a fill entry is
  \<open>ctx (ctx (\<delta> - c) + c)\<close>.
\<close>

lemma cancellation_error:
  assumes "0 \<le> c" "c \<le> t" "\<bar>\<delta>\<bar> \<le> t * eps" "t \<le> 2 * pow10 20"
  shows "\<bar>ctx (ctx (\<delta> - c) + c)\<bar> \<le> pow10 (- 6)"
proof (rule ctx_abs_le_pow10)
  have "\<bar>\<delta> - c\<bar> * eps \<le> (t * eps + t) * eps" 
    using assms(1-3) by (intro mult_right_mono) (linarith, simp)
  then have "\<bar>ctx (\<delta> - c) - (\<delta> - c)\<bar> \<le> (t * eps + t) * eps" using ctx_near order_trans by blast
  then have "\<bar>ctx (\<delta> - c) + c\<bar> \<le> t * eps + (t * eps + t) * eps" using assms by linarith
  also have "\<dots> = t * (2 * eps + eps * eps)" by (simp add: algebra_simps)
  also have "\<dots> \<le> 2 * pow10 20 * (2 * eps + eps * eps)" using assms(4) by (intro mult_right_mono) auto
  also have "\<dots> \<le> pow10 (- 6)" by simp
  finally show "\<bar>ctx (\<delta> - c) + c\<bar> \<le> pow10 (- 6)" .
qed

lemma fill_balance:
  fixes n c :: rat
  assumes "0 \<le> n" "0 \<le> c" "n + c \<le> 2 * pow10 20"
  shows "\<bar>ctx (ctx (n - ctx (n + c)) + c)\<bar> \<le> pow10 (- 6)"
    and "\<bar>ctx (ctx (ctx (n - c) - n) + c)\<bar> \<le> pow10 (- 6)"
proof -
  have "\<bar>ctx (n + c) - (n + c)\<bar> \<le> (n + c) * eps" using ctx_near [of "n + c"] assms by simp
  then have "\<bar>n + c - ctx (n + c)\<bar> \<le> (n + c) * eps" by (simp add: abs_minus_commute)
  from cancellation_error [OF assms(2) _ this assms(3)] assms(1)
  show "\<bar>ctx (ctx (n - ctx (n + c)) + c)\<bar> \<le> pow10 (- 6)" by simp
  have "\<bar>n - c\<bar> * eps \<le> (n + c) * eps" using assms by (intro mult_right_mono) auto
  then have "\<bar>ctx (n - c) - (n - c)\<bar> \<le> (n + c) * eps" using ctx_near order_trans by blast
  from cancellation_error [OF assms(2) _ this assms(3)] assms(1)
  show "\<bar>ctx (ctx (ctx (n - c) - n) + c)\<bar> \<le> pow10 (- 6)" by (simp add: algebra_simps)
qed
lemma fill_entry_Inr:
  assumes "validate_fill f = Inr f"
    and "dval (fl_quantity f) * dval (fl_price f) + dval (fl_commission_usd f) \<le> pow10 20"
  shows "\<exists>e. fill_entry H f = Inr e \<and> balanced_entry e"
proof -
  define n c where "n = ctx (dval (fl_quantity f) * dval (fl_price f))" and "c = dval (fl_commission_usd f)"
  have pos: "0 \<le> c" "0 < dval (fl_quantity f) * dval (fl_price f)"
    using assms(1) by (auto simp: validate_fill_def dval_simps c_def split: if_splits)
  then have "dval (fl_quantity f) * dval (fl_price f) \<le> pow10 20" using assms(2) unfolding c_def by linarith
  then have "n \<le> pow10 20" "0 \<le> n"
    unfolding n_def using pos by (auto intro: ctx_le_pow10 ctx_nonneg simp del: power_int_numeral)
  then have n: "0 \<le> n" "n + c \<le> 2 * pow10 20" using pos assms(2) by (auto simp: c_def)
  have "ctx n = n" by (simp add: n_def)
  then show ?thesis
    using fill_balance [OF n(1) pos(1) n(2)]
    by (simp add: fill_entry_def Let_def validate_ledger_entry_def balanced_entry_def posting_def
        dsum_def dval_simps n_def [symmetric] c_def [symmetric] ctx_abs not_less)
qed


section \<open>Opening entry\<close>

lemma opening_postings_facts:
  assumes "opening_postings H tid src prices items tot = (ps, t)"
  shows "map lp_quantity_delta ps = map snd items" "map lp_asset_code ps = map fst items"
    and "p \<in> set ps \<Longrightarrow> lp_account_code p = ''ASSET:SECURITY''"
  using assms
  by (induction items arbitrary: tot ps) (auto simp: Let_def posting_def split: prod.splits)

lemma fold_asset_postings:
  assumes "\<And>p. p \<in> set ps \<Longrightarrow> lp_account_code p = ''ASSET:SECURITY''"
    and "distinct (map fst h @ map lp_asset_code ps)"
  shows "fold apply_posting ps (c, h) = (c, h @ map (\<lambda>p. (lp_asset_code p, 0 + lp_quantity_delta p)) ps)"
  using assms
proof (induction ps arbitrary: h)
  case (Cons p ps)
  have new: "lp_asset_code p \<notin> fst ` set h" using Cons.prems(2) by auto
  then have "AList.update (lp_asset_code p) v h = h @ [(lp_asset_code p, v)]" for v
    by (induction h) auto
  moreover have "dict_get h (lp_asset_code p) 0 = 0"
    using new by (metis dict_get_def map_of_eq_None_iff option.simps(4))
  ultimately show ?case
    using Cons.prems Cons.IH [of "h @ [(lp_asset_code p, 0 + lp_quantity_delta p)]"]
    by (simp add: apply_posting_def)
qed simp

lemma portfolio_opening_entry_Inr:
  assumes "portfolio_opening_entry H arm src cash positions prices t = Inr e"
  shows "valid_entries [e]" "\<exists>p0 ps p1 w. le_postings e = p0 # ps @ [p1]
     \<and> lp_account_code p0 = ''CASH'' \<and> lp_quantity_delta p0 = cash
     \<and> lp_account_code p1 = ''EQUITY:OPENING_BALANCE''
     \<and> opening_postings H (entry_id e) src prices (sorted_items positions) cash = (ps, w)"
  using assms
  by (auto simp: portfolio_opening_entry_def Let_def result_simps validate_entries_Inr posting_def
      validate_ledger_entry_def split: prod.splits if_splits)

lemma rebuild_opening:
  assumes "portfolio_opening_entry H arm src cash positions prices t = Inr e"
    and "distinct (dict_keys positions)"
  shows "rebuild_holdings [e] = Inr (0 + cash, map (\<lambda>(s, q). (s, 0 + q)) (sorted_items positions))"
proof -
  obtain p0 ps p1 w where e: "le_postings e = p0 # ps @ [p1]"
    and p0: "lp_account_code p0 = ''CASH''" "lp_quantity_delta p0 = cash"
    and p1: "lp_account_code p1 = ''EQUITY:OPENING_BALANCE''"
    and ps: "opening_postings H (entry_id e) src prices (sorted_items positions) cash = (ps, w)"
    using portfolio_opening_entry_Inr(2) [OF assms(1)] by auto
  note facts = opening_postings_facts [OF ps]
  have "distinct (map fst (sorted_items positions))"
    using sorted_items_distinct [OF assms(2)] by (simp add: dict_keys_def)
  then have "distinct (map fst [] @ map lp_asset_code ps)" by (simp add: facts)
  then have "fold apply_posting ps (0 + cash, []) = (0 + cash, map (\<lambda>p. (lp_asset_code p, 0 + lp_quantity_delta p)) ps)"
    using fold_asset_postings [OF facts(3), of ps "[]"] by simp
  also have "map (\<lambda>p. (lp_asset_code p, 0 + lp_quantity_delta p)) ps = map (\<lambda>(s, q). (s, 0 + q)) (sorted_items positions)"
    using facts(1,2) by (simp add: list_eq_iff_nth_eq split_def)
  finally have "fold apply_posting ps (0 + cash, []) = (0 + cash, map (\<lambda>(s, q). (s, 0 + q)) (sorted_items positions))" .
  moreover have "apply_posting p0 (0, []) = (0 + cash, [])" "apply_posting p1 h = h" for h
    by (auto simp: apply_posting_def p0 p1 split: prod.split)
  ultimately show ?thesis
    using portfolio_opening_entry_Inr(1) [OF assms(1)] validate_entries_Inr [of "[e]" "()"]
    by (simp add: rebuild_holdings_def e)
qed

section \<open>Net asset value\<close>

text \<open>Cash plus the positions at their prices, without any rounding.\<close>

definition exact_nav :: "decimal \<Rightarrow> (string, decimal) dict \<Rightarrow> (string, decimal) dict \<Rightarrow> rat" where
  "exact_nav cash positions prices =
     dval cash + (\<Sum>(s, q)\<leftarrow>positions. dval q * dval (dict_get prices s 0))"

lemma dexp_CENT [simp]: "dexp CENT = - 2"
  by (simp add: CENT_def D_def mkdec_def)

lemma market_value_exact:
  assumes "\<And>s q. (s, q) \<in> set positions \<Longrightarrow> on_grid g (dval q * dval (dict_get prices s 0))"
    and "(\<Sum>(s, q)\<leftarrow>positions. \<bar>dval q * dval (dict_get prices s 0)\<bar>) \<le> pow10 (g + int prec)"
  shows "dval (dsum (map (\<lambda>(s, q). q * dict_get prices s 0) positions)) =
    (\<Sum>(s, q)\<leftarrow>positions. dval q * dval (dict_get prices s 0))"
proof -
  let ?v = "\<lambda>(s, q). dval q * dval (dict_get prices s 0)"
  let ?xs = "map (\<lambda>(s, q). q * dict_get prices s 0) positions"
  have val: "dval (q * dict_get prices s 0) = ?v (s, q)" if "(s, q) \<in> set positions" for s q
  proof -
    have "\<bar>?v (s, q)\<bar> \<le> (\<Sum>x\<leftarrow>positions. \<bar>?v x\<bar>)"
      using that by (intro member_le_sum_list) (auto intro: rev_image_eqI)
    then have "ctx (?v (s, q)) = ?v (s, q)"
      using assms that by (intro ctx_grid [of g]) (auto simp: split_def)
    then show ?thesis by (simp add: dval_times)
  qed
  then have vals: "map dval ?xs = map ?v positions" by (auto simp: split_def)
  have "on_grid g (dval x)" if "x \<in> set ?xs" for x
    using that assms(1) val by auto
  moreover have "(\<Sum>x\<leftarrow>?xs. \<bar>dval x\<bar>) = (\<Sum>x\<leftarrow>positions. \<bar>?v x\<bar>)"
    using arg_cong [OF vals, of "\<lambda>l. sum_list (map abs l)"] by (simp add: comp_def)
  ultimately have "dval (dsum ?xs) = sum_list (map dval ?xs)"
    using assms(2) by (intro dsum_exact [of _ g]) (auto simp: split_def)
  then show ?thesis unfolding vals .
qed

text \<open>The two cent roundings and their sum.\<close>

lemma nav_rounding:
  assumes "quantize ROUND_HALF_EVEN CENT mv = Inr m" "quantize ROUND_HALF_EVEN CENT cash = Inr c"
    and "\<bar>dval mv\<bar> \<le> pow10 24" "\<bar>dval cash\<bar> \<le> pow10 24"
  shows "dval (c + m) = dval c + dval m" "\<bar>dval (c + m) - (dval cash + dval mv)\<bar> \<le> 1 / 100"
proof -
  have err: "\<bar>dval m - dval mv\<bar> \<le> 1/200" "\<bar>dval c - dval cash\<bar> \<le> 1/200"
    using quantize_half_even_error [OF assms(1)] quantize_half_even_error [OF assms(2)] by simp_all
  then have "\<bar>dval c + dval m\<bar> \<le> 2 * pow10 24 + 1/100" using assms(3,4) by linarith
  also have "\<dots> \<le> pow10 (- 2 + int prec)" by (simp add: prec_def)
  finally have "ctx (dval c + dval m) = dval c + dval m"
    using quantize_on_grid [OF assms(1)] quantize_on_grid [OF assms(2)] by (intro ctx_grid [of "- 2"]) auto
  then show sum: "dval (c + m) = dval c + dval m" by (simp add: dval_plus)
  show "\<bar>dval (c + m) - (dval cash + dval mv)\<bar> \<le> 1 / 100" unfolding sum using err by linarith
qed

lemma calculate_nav_value:
  assumes "\<forall>s\<in>set (dict_keys positions). dict_has prices s" "\<bar>dval cash\<bar> \<le> pow10 24"
    and "\<And>s q. (s, q) \<in> set positions \<Longrightarrow> on_grid g (dval q * dval (dict_get prices s 0))"
    and "(\<Sum>(s, q)\<leftarrow>positions. \<bar>dval q * dval (dict_get prices s 0)\<bar>) \<le> pow10 (g + int prec)"
    and "(\<Sum>(s, q)\<leftarrow>positions. \<bar>dval q * dval (dict_get prices s 0)\<bar>) \<le> pow10 24"
  shows "\<exists>n. calculate_nav H arm t cash positions prices = Inr n
    \<and> \<bar>dval (nv_nav_usd n) - exact_nav cash positions prices\<bar> \<le> 1 / 100"
proof -
  define mv where "mv = dsum (map (\<lambda>(s, q). q * dict_get prices s 0) positions)"
  have mv: "dval mv = (\<Sum>(s, q)\<leftarrow>positions. dval q * dval (dict_get prices s 0))"
    unfolding mv_def by (rule market_value_exact [OF assms(3,4)])
  have "\<bar>dval mv\<bar> \<le> (\<Sum>(s, q)\<leftarrow>positions. \<bar>dval q * dval (dict_get prices s 0)\<bar>)"
    unfolding mv using sum_list_abs [of "map (\<lambda>(s, q). dval q * dval (dict_get prices s 0)) positions"]
    by (simp add: comp_def split_def)
  then have small: "\<bar>dval mv\<bar> \<le> pow10 24" using assms(5) by linarith
  then obtain m c where q: "quantize ROUND_HALF_EVEN CENT mv = Inr m" "quantize ROUND_HALF_EVEN CENT cash = Inr c"
    using assms(2) quantize_succeeds [of mv CENT] quantize_succeeds [of cash CENT] by fastforce
  note r = nav_rounding [OF q small assms(2)]
  show ?thesis
    using assms(1) q r(2) unfolding exact_nav_def mv [symmetric]
    by (auto simp: calculate_nav_def mv_def [symmetric] validate_nav_snapshot_def Let_def d_eq_dval)
qed

section \<open>Properties\<close>

text \<open>A buy of 1.5 shares and the entries of a small ledger, for the worked examples.\<close>

definition example_fill :: fill where
  "example_fill =
     \<lparr>fl_fill_id = ''fill_1'', fl_order_intent_id = ''order_1'', fl_arm_id = ''A1'', fl_symbol = ''SPY'',
      fl_side = BUY, fl_quantity = D 15 (- 1), fl_price = D 45010 (- 2), fl_commission_usd = D 35 (- 2),
      fl_execution_scenario_id = ''base'', fl_effective_at = 100, fl_created_at = 100\<rparr>"

definition example_entries :: "ledger_entry list" where
  "example_entries =
     (case (capital_entry tail_digest ''A1'' (D 100000 0) 50, fill_entry tail_digest example_fill) of
        (Inr a, Inr b) \<Rightarrow> [a, b] | _ \<Rightarrow> [])"

text \<open>
  C1. A validated fill whose notional and commission together are at most 10^20 dollars always
  yields a ledger entry, and the entry is balanced within the tolerance of 10^-6 although
  notional, cash amount and balance are each rounded to 28 significant digits.
\<close>

theorem fill_entry_balanced:
  assumes "validate_fill f = Inr f"
    and "dval (fl_quantity f) * dval (fl_price f) + dval (fl_commission_usd f) \<le> pow10 20"
  shows "\<exists>e. fill_entry H f = Inr e \<and> balanced_entry e"
  using assms by (rule fill_entry_Inr)

theorem fill_entry_balanced_witness:
  "\<exists>e. fill_entry tail_digest example_fill = Inr e \<and> balanced_entry e"
  by (rule fill_entry_balanced) (simp_all add: example_fill_def validate_fill_def dval_simps)

text \<open>
  Validation accepts a list of entries exactly when transaction identifiers are pairwise
  different, posting identifiers are pairwise different across all entries, and every entry
  balances within the tolerance.
\<close>

theorem validate_entries_characterised: "validate_entries es = Inr () \<longleftrightarrow> valid_entries es"
  by (rule validate_entries_Inr)

text \<open>
  The rebuilt cash and positions do not depend on the order in which the entries are
  supplied: every permutation of the entries rebuilds to the same result, errors included as
  errors.
\<close>

theorem rebuild_holdings_order_independent:
  assumes "mset es = mset es'" and "rebuild_holdings es = Inr h"
  shows "rebuild_holdings es' = Inr h"
proof -
  have "valid_entries es" using assms(2) by (auto simp: rebuild_holdings_def result_simps validate_entries_Inr)
  moreover from this have "valid_entries es'" by (rule valid_entries_mset [OF assms(1)])
  ultimately have "validate_entries es = Inr ()" "validate_entries es' = Inr ()"
    by (simp_all only: validate_entries_Inr)
  then show ?thesis
    using assms(2) ledger_log.replay_permutation [OF \<open>valid_entries es\<close> assms(1)]
    by (simp add: rebuild_holdings_replay)
qed

theorem rebuild_holdings_order_independent_witness:
  "rebuild_holdings (rev example_entries) = Inr (D 99324500 (- 3), [(''SPY'', D 15 (- 1))])"
  by (rule rebuild_holdings_order_independent [of example_entries], simp) code_simp

text \<open>
  C2. When all posted quantities are multiples of one power of ten and their absolute values sum
  to at most 28 digits on that grid, the rebuilt cash is the exact sum of the cash postings and
  the rebuilt position of every symbol the exact sum of its security postings.
\<close>

theorem rebuild_holdings_exact:
  assumes "rebuild_holdings es = Inr (cash, positions)"
    and "\<forall>p\<in>set (concat (map le_postings es)). on_grid g (dval (lp_quantity_delta p))"
    and "(\<Sum>p\<leftarrow>concat (map le_postings es). \<bar>dval (lp_quantity_delta p)\<bar>) \<le> pow10 (g + 28)"
  shows "dval cash = (\<Sum>q\<leftarrow>cash_deltas (concat (map le_postings es)). dval q)
    \<and> dval (dict_get positions s 0) = (\<Sum>q\<leftarrow>position_deltas s (concat (map le_postings es)). dval q)"
proof -
  let ?ps = "concat (map le_postings es)" and ?rs = "replayed_postings es"
  have m: "mset ?rs = mset ?ps" unfolding replayed_postings_def by (rule mset_concat_map_cong) simp
  have exact: "dval (dsum (map lp_quantity_delta (filter P ?rs))) = (\<Sum>q\<leftarrow>map lp_quantity_delta (filter P ?ps). dval q)" for P
  proof -
    let ?xs = "map lp_quantity_delta (filter P ?rs)"
    have "(\<Sum>x\<leftarrow>?xs. \<bar>dval x\<bar>) = (\<Sum>p\<leftarrow>filter P ?ps. \<bar>dval (lp_quantity_delta p)\<bar>)"
      using sum_list_mset_cong [OF m] by (simp add: comp_def)
    also have "\<dots> \<le> (\<Sum>p\<leftarrow>?ps. \<bar>dval (lp_quantity_delta p)\<bar>)" by (rule sum_list_filter_le) simp
    finally have "(\<Sum>x\<leftarrow>?xs. \<bar>dval x\<bar>) \<le> pow10 (g + int prec)" using assms(3) by (simp add: prec_def)
    moreover have "on_grid g (dval x)" if "x \<in> set ?xs" for x
      using that assms(2) mset_eq_setD [OF m] by auto
    ultimately have "dval (dsum ?xs) = (\<Sum>x\<leftarrow>?xs. dval x)" by (intro dsum_exact)
    then show ?thesis using sum_list_mset_cong [OF m] by (simp add: comp_def)
  qed
  then show ?thesis
    using rebuild_holdings_sums [OF assms(1)] by (simp add: cash_deltas_def position_deltas_def)
qed

theorem rebuild_holdings_exact_witness:
  "dval (D 99324500 (- 3)) = (\<Sum>q\<leftarrow>cash_deltas (concat (map le_postings example_entries)). dval q)
    \<and> dval (dict_get [(''SPY'', D 15 (- 1))] ''SPY'' 0)
      = (\<Sum>q\<leftarrow>position_deltas ''SPY'' (concat (map le_postings example_entries)). dval q)"
proof (rule rebuild_holdings_exact [where g = "- 3"])
  have deltas: "map lp_quantity_delta (concat (map le_postings example_entries)) =
      [D 100000 0, 0, D 15 (- 1), D (- 675500) (- 3), 0]" by code_simp
  show "rebuild_holdings example_entries = Inr (D 99324500 (- 3), [(''SPY'', D 15 (- 1))])" by code_simp
  have "\<forall>q\<in>set (map lp_quantity_delta (concat (map le_postings example_entries))). on_grid (- 3) (dval q)"
    unfolding deltas
    by (auto simp: dval_simps on_grid_def intro: exI [of _ 100000000] exI [of _ 1500] exI [of _ "- 675500"])
  then show "\<forall>p\<in>set (concat (map le_postings example_entries)). on_grid (- 3) (dval (lp_quantity_delta p))"
    by auto
  have "(\<Sum>q\<leftarrow>map lp_quantity_delta (concat (map le_postings example_entries)). \<bar>dval q\<bar>) \<le> pow10 (- 3 + 28)"
    unfolding deltas by (simp add: dval_simps)
  then show "(\<Sum>p\<leftarrow>concat (map le_postings example_entries). \<bar>dval (lp_quantity_delta p)\<bar>) \<le> pow10 (- 3 + 28)"
    by (simp add: comp_def)
qed

text \<open>
  Opening a paper portfolio and rebuilding holdings from the single entry gives back the
  cash and exactly the positions that were opened, each rounded once to 28 digits, with the
  symbols in sorted order.
\<close>

theorem opening_entry_roundtrip:
  assumes "portfolio_opening_entry H arm src cash positions prices t = Inr e"
    and "distinct (dict_keys positions)"
  shows "\<exists>c ps. rebuild_holdings [e] = Inr (c, ps) \<and> dval c = ctx (dval cash)
    \<and> dict_keys ps = sort (dict_keys positions)
    \<and> (\<forall>s. dval (dict_get ps s 0) = ctx (dval (dict_get positions s 0)))"
proof -
  let ?ps = "map (\<lambda>(s, q). (s, 0 + q)) (sorted_items positions)"
  have m: "map_of (sorted_items positions) = map_of positions"
    using assms(2) sorted_items_distinct [OF assms(2)]
    by (subst map_of_inject_set) (simp_all add: sorted_items_def dict_keys_def)
  have "dval (dict_get ?ps s 0) = ctx (dval (dict_get positions s 0))" for s
    by (simp add: dict_get_def map_of_map m dval_simps split: option.split)
  moreover have "dict_keys ?ps = sort (dict_keys positions)"
    by (simp add: dict_keys_def sorted_items_def split_def comp_def)
      (metis properties_for_sort mset_map mset_sort sorted_sort_key)
  moreover have "dval (0 + cash) = ctx (dval cash)" by (simp add: dval_simps)
  ultimately show ?thesis using rebuild_opening [OF assms] by blast
qed

theorem opening_entry_roundtrip_witness:
  "\<exists>e c ps. portfolio_opening_entry tail_digest ''A1'' ''src'' (D 500 0)
        [(''SPY'', D 2 0), (''GLD'', D 15 (- 1))] [(''GLD'', D 180 0), (''SPY'', D 45010 (- 2))] 7 = Inr e
     \<and> rebuild_holdings [e] = Inr (c, ps) \<and> dval c = 500 \<and> dict_keys ps = [''GLD'', ''SPY'']"
proof -
  let ?pos = "[(''SPY'', D 2 0), (''GLD'', D 15 (- 1))]"
  let ?r = "portfolio_opening_entry tail_digest ''A1'' ''src'' (D 500 0) ?pos
      [(''GLD'', D 180 0), (''SPY'', D 45010 (- 2))] 7"
  have "case ?r of Inr e \<Rightarrow> True | Inl _ \<Rightarrow> False" by code_simp
  then obtain e where e: "?r = Inr e" by (auto split: sum.splits)
  have "sort (dict_keys ?pos) = [''GLD'', ''SPY'']" "distinct (dict_keys ?pos)" by code_simp+
  moreover have "ctx (dval (D 500 0)) = 500" using ctx_exact [of 500 500 0] by (simp add: dval_simps prec_def)
  ultimately show ?thesis using opening_entry_roundtrip [OF e] e by metis
qed

text \<open>
  When every position has a price, the products of quantity and price lie on a common grid
  of 28 digits, and cash and total market value are at most 10^24 dollars, the NAV snapshot is
  produced and its NAV is within one cent of the exact value.
\<close>

theorem calculate_nav_within_cent:
  assumes "\<forall>s\<in>set (dict_keys positions). dict_has prices s" "\<bar>dval cash\<bar> \<le> pow10 24"
    and "\<And>s q. (s, q) \<in> set positions \<Longrightarrow> on_grid g (dval q * dval (dict_get prices s 0))"
    and "(\<Sum>(s, q)\<leftarrow>positions. \<bar>dval q * dval (dict_get prices s 0)\<bar>) \<le> pow10 (g + int prec)"
    and "(\<Sum>(s, q)\<leftarrow>positions. \<bar>dval q * dval (dict_get prices s 0)\<bar>) \<le> pow10 24"
  shows "\<exists>n. calculate_nav H arm t cash positions prices = Inr n
    \<and> \<bar>dval (nv_nav_usd n) - exact_nav cash positions prices\<bar> \<le> 1 / 100"
  using assms by (rule calculate_nav_value)

theorem calculate_nav_within_cent_witness:
  "\<exists>n. calculate_nav tail_digest ''A1'' 7 (D 1005 (- 3)) [(''SPY'', D 15 (- 1))] [(''SPY'', D 45013 (- 2))] = Inr n
    \<and> \<bar>dval (nv_nav_usd n) - exact_nav (D 1005 (- 3)) [(''SPY'', D 15 (- 1))] [(''SPY'', D 45013 (- 2))]\<bar> \<le> 1 / 100"
proof -
  have "on_grid (- 3) (dval (D 15 (- 1)) * dval (D 45013 (- 2)))"
    by (auto simp: on_grid_def dval_simps intro: exI [of _ 675195])
  then show ?thesis
    by (intro calculate_nav_within_cent [of _ _ _ "- 3"])
      (simp_all add: dict_keys_def dict_has_def dict_get_def dval_simps prec_def)
qed

end
