(* ===== verification/Order_State.thy ===== *)
theory Order_State
  imports Domain Event_Log
begin

text \<open>
  The order state machine of \<^verbatim>\<open>src/trading/execution/order_state.py\<close>. An order is an immutable
  descriptor; its state is derived from an append-only stream of events. Modelled: the reducer
  with every check, the query for pending orders, the constructor of the next event, and the
  four operations that emit events or validate the whole book (soft-stop cancellation,
  supersession by a new target, expiry, book validation). Shown: the reducer replays the
  stream independently of storage order, accepts only lifecycles that start with CREATED and
  stop at the first terminal event, and conserves quantity; an appended event is accepted by
  the reducer and leads to the state it claims; each emitting operation touches exactly the
  orders it is meant to.
\<close>

section \<open>Records\<close>

datatype q1_order_class = NORMAL_ORDER | EMERGENCY_REDUCTION | LLM_REDUCTION | LIVE_MIRROR_TRANSITION

record order_descriptor =
  od_order_intent_id :: string
  od_arm_id :: string
  od_portfolio_decision_id :: string
  od_symbol :: string
  od_side :: order_side
  od_quantity :: decimal
  od_order_class :: q1_order_class
  od_created_at :: instant
  od_valid_until :: instant

definition validate_order_descriptor :: "order_descriptor \<Rightarrow> order_descriptor result" where
  "validate_order_descriptor d =
     (if od_order_intent_id d = [] \<or> od_arm_id d = [] \<or> od_portfolio_decision_id d = [] \<or> od_symbol d = []
      then Inl (OrderStateError ''Order descriptor identifiers are required'')
      else if od_quantity d \<le> 0 then Inl (OrderStateError ''Order quantity must be positive'')
      else if od_valid_until d \<le> od_created_at d
      then Inl (OrderStateError ''Order valid_until must follow created_at'')
      else Inr d)"

record order_event_provenance =
  pv_config_manifest_hash :: string
  pv_code_version :: string
  pv_model_version :: string
  pv_source_manifest_hash :: string
  pv_worker_fence_token :: string
  pv_cycle_attempt_count :: int

definition validate_order_event_provenance ::
  "order_event_provenance \<Rightarrow> order_event_provenance result" where
  "validate_order_event_provenance p =
     (if pv_config_manifest_hash p = [] \<or> pv_code_version p = [] \<or> pv_model_version p = []
         \<or> pv_source_manifest_hash p = [] \<or> pv_worker_fence_token p = []
      then Inl (OrderStateError ''Complete order-event provenance is required'')
      else if pv_cycle_attempt_count p \<le> 0
      then Inl (OrderStateError ''Cycle attempt count must be positive'')
      else Inr p)"

record order_aggregate =
  oa_order :: order_descriptor
  oa_status :: order_event_type
  oa_remaining_quantity :: decimal
  oa_cumulative_filled_quantity :: decimal
  oa_cumulative_commission_usd :: decimal
  oa_latest_event_sequence :: int
  oa_latest_event_id :: string

definition is_terminal :: "order_aggregate \<Rightarrow> bool" where
  "is_terminal a \<longleftrightarrow> is_terminal_order_event (oa_status a)"

definition is_pending :: "order_aggregate \<Rightarrow> bool" where
  "is_pending a \<longleftrightarrow> \<not> is_terminal a \<and> 0 < oa_remaining_quantity a"

section \<open>The reducer\<close>

definition validate_event_identity :: "order_event list \<Rightarrow> unit result" where
  "validate_event_identity events =
     (if has_duplicates (map oe_event_id events) then Inl (OrderStateError ''Duplicate order event ID'')
      else if has_duplicates (map oe_idempotency_key events)
      then Inl (OrderStateError ''Duplicate order event idempotency key'')
      else Inr ())"

text \<open>The local variables of the loop.\<close>

record order_fold =
  of_remaining :: decimal
  of_filled :: decimal
  of_commission :: decimal
  of_previous :: "order_event_type option"

definition fold_start :: "order_descriptor \<Rightarrow> order_fold" where
  "fold_start order =
     \<lparr>of_remaining = od_quantity order, of_filled = 0, of_commission = 0, of_previous = None\<rparr>"

text \<open>The effect of one event on the running quantities, by kind of event.\<close>

definition apply_event_deltas :: "order_event \<Rightarrow> order_fold \<Rightarrow> order_fold result" where
  "apply_event_deltas e s =
     (if oe_event_type e = CREATED then
        if of_previous s \<noteq> None then Inl (OrderStateError ''CREATED may occur only once'')
        else if \<not> d_eq (oe_quantity_delta e) 0 \<or> \<not> d_eq (oe_commission_delta_usd e) 0
        then Inl (OrderStateError ''CREATED cannot carry fill or commission deltas'')
        else Inr s
      else if is_fill_type (oe_event_type e) then
        if oe_quantity_delta e \<le> 0
        then Inl (OrderStateError ''Fill event quantity_delta must be positive'')
        else if of_remaining s < oe_quantity_delta e
        then Inl (OrderStateError ''Fill event exceeds remaining quantity'')
        else
          let s' = s\<lparr>of_filled := of_filled s + oe_quantity_delta e,
                     of_remaining := of_remaining s - oe_quantity_delta e,
                     of_commission := of_commission s + oe_commission_delta_usd e\<rparr> in
          if oe_event_type e = PARTIALLY_FILLED \<and> of_remaining s' \<le> 0
          then Inl (OrderStateError ''PARTIALLY_FILLED must leave positive quantity'')
          else if oe_event_type e = FILLED \<and> \<not> d_eq (of_remaining s') 0
          then Inl (OrderStateError ''FILLED must consume exact remaining quantity'')
          else Inr s'
      else if \<not> d_eq (oe_quantity_delta e) 0 \<or> \<not> d_eq (oe_commission_delta_usd e) 0
      then Inl (OrderStateError ''Non-fill order events cannot carry fill deltas'')
      else Inr s)"

definition reduce_step :: "order_descriptor \<Rightarrow> order_event \<Rightarrow> order_fold \<Rightarrow> order_fold result" where
  "reduce_step order e s =
     (if oe_occurred_at e < od_created_at order
      then Inl (OrderStateError ''Order event cannot predate its intent'')
      else if (case of_previous s of None \<Rightarrow> False | Some t \<Rightarrow> is_terminal_order_event t)
      then Inl (OrderStateError ''No order event may follow a terminal event'')
      else
        rbind (apply_event_deltas e s) (\<lambda>s'.
          if \<not> d_eq (oe_remaining_quantity e) (of_remaining s')
          then Inl (OrderStateError ''Order event remaining_quantity snapshot is inconsistent'')
          else if \<not> d_eq (oe_cumulative_filled_quantity e) (of_filled s')
          then Inl (OrderStateError ''Order cumulative fill snapshot is inconsistent'')
          else if \<not> d_eq (oe_cumulative_commission_usd e) (of_commission s')
          then Inl (OrderStateError ''Order cumulative commission snapshot is inconsistent'')
          else Inr (s'\<lparr>of_previous := Some (oe_event_type e)\<rparr>)))"

text \<open>The events of one order that are visible at \<open>as_of\<close>.\<close>

definition visible_events :: "order_descriptor \<Rightarrow> order_event list \<Rightarrow> instant option \<Rightarrow> order_event list" where
  "visible_events order events as_of =
     filter (\<lambda>e. oe_order_intent_id e = od_order_intent_id order
       \<and> (case as_of of None \<Rightarrow> True | Some t \<Rightarrow> oe_available_at e \<le> t)) events"

definition reduce_ordered :: "order_descriptor \<Rightarrow> order_event list \<Rightarrow> order_aggregate result" where
  "reduce_ordered order ordered =
     (if oe_event_type (hd ordered) \<noteq> CREATED
      then Inl (OrderStateError ''First order event must be CREATED'')
      else if oe_event_sequence (hd ordered) \<noteq> 1
      then Inl (OrderStateError ''Order event sequence must start at one'')
      else if \<not> contiguous_from 1 (map oe_event_sequence ordered)
      then Inl (OrderStateError ''Order event sequence must be contiguous'')
      else
        rbind (rfold (reduce_step order) ordered (fold_start order)) (\<lambda>s.
          Inr \<lparr>oa_order = order, oa_status = oe_event_type (last ordered),
               oa_remaining_quantity = of_remaining s,
               oa_cumulative_filled_quantity = of_filled s,
               oa_cumulative_commission_usd = of_commission s,
               oa_latest_event_sequence = oe_event_sequence (last ordered),
               oa_latest_event_id = oe_event_id (last ordered)\<rparr>))"

definition require_as_of :: "datetime option \<Rightarrow> instant option result" where
  "require_as_of as_of =
     (case as_of of
        None \<Rightarrow> Inr None
      | Some d \<Rightarrow> rbind (require_aware_utc ''datetime'' d) (\<lambda>t. Inr (Some t)))"

definition reduce_order_events ::
  "order_descriptor \<Rightarrow> order_event list \<Rightarrow> datetime option \<Rightarrow> order_aggregate result" where
  "reduce_order_events order events as_of =
     rbind (require_as_of as_of) (\<lambda>t.
       let materialized = visible_events order events t in
       if materialized = []
       then Inl (OrderStateError (''Order '' @ od_order_intent_id order @ '' has no CREATED event''))
       else
         rbind (validate_event_identity materialized) (\<lambda>_.
           reduce_ordered order (sort_key oe_event_sequence materialized)))"

definition aggregate_key :: "order_aggregate \<Rightarrow> instant \<times> string" where
  "aggregate_key a = (od_created_at (oa_order a), od_order_intent_id (oa_order a))"

definition pending_orders ::
  "order_descriptor list \<Rightarrow> order_event list \<Rightarrow> datetime option \<Rightarrow> order_aggregate list result" where
  "pending_orders orders events as_of =
     rbind (rmap (\<lambda>order. reduce_order_events order events as_of) orders)
       (\<lambda>aggregates. Inr (sort_key aggregate_key (filter is_pending aggregates)))"

section \<open>Appending events\<close>

text \<open>Sequence number and running quantities of the next event.\<close>

definition next_event_state ::
  "order_descriptor \<Rightarrow> order_event list \<Rightarrow> order_event_type \<Rightarrow> decimal \<Rightarrow> decimal
    \<Rightarrow> (int \<times> decimal \<times> decimal \<times> decimal) result" where
  "next_event_state order relevant event_type quantity_delta commission_delta =
     (if event_type = CREATED then
        if relevant \<noteq> [] then Inl (OrderStateError ''CREATED event already exists'')
        else if \<not> d_eq quantity_delta 0 \<or> \<not> d_eq commission_delta 0
        then Inl (OrderStateError ''CREATED cannot carry fill deltas'')
        else Inr (1, od_quantity order, 0, 0)
      else
        rbind (reduce_order_events order relevant None) (\<lambda>a.
          if is_terminal a then Inl (OrderStateError ''Cannot append after terminal order event'')
          else
            let sq = oa_latest_event_sequence a + 1;
                remaining = oa_remaining_quantity a;
                filled = oa_cumulative_filled_quantity a;
                commission = oa_cumulative_commission_usd a in
            if is_fill_type event_type then
              if quantity_delta \<le> 0 \<or> remaining < quantity_delta
              then Inl (OrderStateError ''Fill delta must be within remaining quantity'')
              else
                let remaining' = remaining - quantity_delta;
                    filled' = filled + quantity_delta;
                    commission' = commission + commission_delta in
                if event_type = PARTIALLY_FILLED \<and> remaining' \<le> 0
                then Inl (OrderStateError ''PARTIALLY_FILLED must leave a residual'')
                else if event_type = FILLED \<and> \<not> d_eq remaining' 0
                then Inl (OrderStateError ''FILLED must consume the exact residual'')
                else Inr (sq, remaining', filled', commission')
            else if \<not> d_eq quantity_delta 0 \<or> \<not> d_eq commission_delta 0
            then Inl (OrderStateError ''Non-fill event cannot carry fill deltas'')
            else Inr (sq, remaining, filled, commission)))"

record append_request =
  ar_event_type :: order_event_type
  ar_occurred_at :: datetime
  ar_available_at :: datetime
  ar_quantity_delta :: decimal
  ar_commission_delta_usd :: decimal
  ar_reason :: "string option"
  ar_source_id :: "string option"
  ar_quote_id :: "string option"
  ar_source_cycle_id :: "string option"

definition event_identity ::
  "order_descriptor \<Rightarrow> append_request \<Rightarrow> instant \<Rightarrow> int \<Rightarrow> decimal \<Rightarrow> (string \<times> pyval) list" where
  "event_identity order r occurred_at sq remaining =
     [(''order_intent_id'', VStr (od_order_intent_id order)),
      (''event_type'', VStr (order_event_type_value (ar_event_type r))),
      (''event_sequence'', VInt sq),
      (''quantity_delta'', VDec (ar_quantity_delta r)),
      (''commission_delta_usd'', VDec (ar_commission_delta_usd r)),
      (''remaining_quantity'', VDec remaining),
      (''occurred_at'', VTime occurred_at),
      (''source_id'', vopt VStr (ar_source_id r)),
      (''quote_id'', vopt VStr (ar_quote_id r)),
      (''source_cycle_id'', vopt VStr (ar_source_cycle_id r))]"

definition build_event ::
  "digest \<Rightarrow> order_descriptor \<Rightarrow> append_request \<Rightarrow> order_event_provenance \<Rightarrow> instant \<Rightarrow> instant
    \<Rightarrow> int \<times> decimal \<times> decimal \<times> decimal \<Rightarrow> order_event" where
  "build_event H order r p occurred_at available_at nxt =
     (case nxt of (sq, remaining, filled, commission) \<Rightarrow>
        let ident = event_identity order r occurred_at sq remaining;
            event_id = stable_id H ''q1-order-event'' [VDict ident];
            event_hash = canonical_hash H (VDict (ident @
              [(''cumulative_filled_quantity'', VDec filled),
               (''cumulative_commission_usd'', VDec commission),
               (''reason'', vopt VStr (ar_reason r)),
               (''config_manifest_hash'', VStr (pv_config_manifest_hash p)),
               (''code_version'', VStr (pv_code_version p)),
               (''model_version'', VStr (pv_model_version p)),
               (''source_manifest_hash'', VStr (pv_source_manifest_hash p))])) in
        \<lparr>vr_algorithm_version = Q1_ALGORITHM_VERSION,
         vr_config_manifest_hash = pv_config_manifest_hash p, vr_code_version = pv_code_version p,
         vr_model_version = pv_model_version p, vr_source_manifest_hash = pv_source_manifest_hash p,
         oe_event_id = event_id, oe_order_intent_id = od_order_intent_id order,
         oe_event_type = ar_event_type r, oe_event_sequence = sq,
         oe_quantity_delta = ar_quantity_delta r, oe_commission_delta_usd = ar_commission_delta_usd r,
         oe_remaining_quantity = remaining, oe_cumulative_filled_quantity = filled,
         oe_cumulative_commission_usd = commission, oe_occurred_at = occurred_at,
         oe_available_at = available_at,
         oe_idempotency_key = stable_id H ''q1-order-event-idem'' [VStr event_id],
         oe_reason = ar_reason r, oe_source_id = ar_source_id r, oe_quote_id = ar_quote_id r,
         oe_source_cycle_id = ar_source_cycle_id r,
         oe_worker_fence_token = pv_worker_fence_token p,
         oe_cycle_attempt_count = pv_cycle_attempt_count p, oe_event_hash = event_hash\<rparr>)"

definition append_order_event ::
  "digest \<Rightarrow> order_descriptor \<Rightarrow> order_event list \<Rightarrow> append_request \<Rightarrow> order_event_provenance
    \<Rightarrow> order_event result" where
  "append_order_event H order existing r p =
     rbind (require_aware_utc ''datetime'' (ar_occurred_at r)) (\<lambda>occurred_at.
     rbind (require_aware_utc ''datetime'' (ar_available_at r)) (\<lambda>available_at.
       if available_at < occurred_at
       then Inl (OrderStateError ''Order event available_at cannot precede occurred_at'')
       else
         let relevant = visible_events order existing None in
         rbind (next_event_state order relevant (ar_event_type r) (ar_quantity_delta r)
                  (ar_commission_delta_usd r)) (\<lambda>nxt.
         rbind (validate_order_event (build_event H order r p occurred_at available_at nxt)) (\<lambda>event.
         rbind (reduce_order_events order (relevant @ [event]) None) (\<lambda>_. Inr event)))))"

text \<open>A request for an event without fill: the defaults of the keyword arguments.\<close>

definition status_request ::
  "order_event_type \<Rightarrow> datetime \<Rightarrow> datetime \<Rightarrow> string \<Rightarrow> string \<Rightarrow> append_request" where
  "status_request event_type occurred_at available_at reason cycle =
     \<lparr>ar_event_type = event_type, ar_occurred_at = occurred_at, ar_available_at = available_at,
      ar_quantity_delta = 0, ar_commission_delta_usd = 0, ar_reason = Some reason,
      ar_source_id = None, ar_quote_id = None, ar_source_cycle_id = Some cycle\<rparr>"

text \<open>
  The loop shared by the three emitting operations: skip the aggregates that are not selected,
  append an event for the others, each seeing the events emitted so far.
\<close>

fun emit_for ::
  "digest \<Rightarrow> (order_aggregate \<Rightarrow> bool) \<Rightarrow> order_event list \<Rightarrow> append_request \<Rightarrow> order_event_provenance
    \<Rightarrow> order_aggregate list \<Rightarrow> order_event list \<Rightarrow> order_event list result" where
  "emit_for H selected materialized r p [] emitted = Inr emitted"
| "emit_for H selected materialized r p (a # rest) emitted =
     (if \<not> selected a then emit_for H selected materialized r p rest emitted
      else rbind (append_order_event H (oa_order a) (materialized @ emitted) r p)
             (\<lambda>event. emit_for H selected materialized r p rest (emitted @ [event])))"

definition soft_stop_buy_cancellations ::
  "digest \<Rightarrow> order_descriptor list \<Rightarrow> order_event list \<Rightarrow> datetime \<Rightarrow> datetime \<Rightarrow> order_event_provenance
    \<Rightarrow> string \<Rightarrow> order_event list result" where
  "soft_stop_buy_cancellations H orders events occurred_at available_at p cycle =
     rbind (pending_orders orders events None) (\<lambda>pending.
       emit_for H (\<lambda>a. od_side (oa_order a) = BUY) events
         (status_request CANCELED_BY_RISK occurred_at available_at ''Q1_SOFT_STOP_BLOCK_NEW_BUYS'' cycle)
         p pending [])"

definition add_replacement_sell ::
  "order_descriptor \<Rightarrow> (string \<times> string, decimal) dict \<Rightarrow> (string \<times> string, decimal) dict" where
  "add_replacement_sell order d =
     (if od_side order = SELL
      then AList.update (od_arm_id order, od_symbol order)
             (dict_get d (od_arm_id order, od_symbol order) 0 + od_quantity order) d
      else d)"

definition supersedable ::
  "order_descriptor list \<Rightarrow> order_aggregate \<Rightarrow> bool" where
  "supersedable replacements a \<longleftrightarrow>
     od_order_class (oa_order a) = NORMAL_ORDER
     \<and> od_arm_id (oa_order a) \<in> set (map od_arm_id replacements)
     \<and> \<not> (od_side (oa_order a) = SELL
          \<and> dict_get (fold add_replacement_sell replacements [])
              (od_arm_id (oa_order a), od_symbol (oa_order a)) 0
            < oa_remaining_quantity a)"

definition supersede_normal_orders ::
  "digest \<Rightarrow> order_descriptor list \<Rightarrow> order_event list \<Rightarrow> order_descriptor list \<Rightarrow> datetime \<Rightarrow> datetime
    \<Rightarrow> order_event_provenance \<Rightarrow> string \<Rightarrow> order_event list result" where
  "supersede_normal_orders H orders events replacement_orders occurred_at available_at p cycle =
     (let replacements = filter (\<lambda>order. od_order_class order = NORMAL_ORDER) replacement_orders in
      if replacements = [] then Inr []
      else
        rbind (pending_orders orders events None) (\<lambda>pending.
          emit_for H (supersedable replacements) events
            (status_request SUPERSEDED occurred_at available_at
               ''REPLACED_BY_NEW_STRATEGIC_TARGET'' cycle)
            p pending []))"

definition expire_orders ::
  "digest \<Rightarrow> order_descriptor list \<Rightarrow> order_event list \<Rightarrow> datetime \<Rightarrow> order_event_provenance
    \<Rightarrow> string \<Rightarrow> bool \<Rightarrow> order_event list result" where
  "expire_orders H orders events as_of p cycle expire_at_boundary =
     rbind (require_aware_utc ''datetime'' as_of) (\<lambda>t.
     rbind (pending_orders orders events (Some as_of)) (\<lambda>pending.
       emit_for H (\<lambda>a. \<not> (\<not> expire_at_boundary \<and> t \<le> od_valid_until (oa_order a))) events
         (status_request EXPIRED as_of as_of ''ORDER_VALIDITY_WINDOW_ENDED'' cycle) p pending []))"

definition validate_order_event_book ::
  "order_descriptor list \<Rightarrow> order_event list \<Rightarrow> order_aggregate list result" where
  "validate_order_event_book orders events =
     (if \<exists>e\<in>set events. oe_order_intent_id e \<notin> set (map od_order_intent_id orders)
      then Inl (OrderStateError ''Orphaned order events'')
      else
        rmap (\<lambda>order. reduce_order_events order
                 (filter (\<lambda>e. oe_order_intent_id e = od_order_intent_id order) events) None)
          (sort_key od_order_intent_id orders))"

section \<open>The reducer as a replay\<close>

interpretation order_log: event_replay oe_event_sequence "reduce_step order" "fold_start order"
    "\<lambda>es. distinct (map oe_event_sequence es)" for order
  by unfold_locales (assumption, metis distinct_map_mset_cong)

text \<open>Inversion of one step of the loop.\<close>

lemma apply_event_deltas_Inr:
  assumes "apply_event_deltas e s = Inr s'"
  shows "of_previous s' = of_previous s" "oe_event_type e = CREATED \<Longrightarrow> of_previous s = None"
    and "\<not> is_fill_type (oe_event_type e) \<Longrightarrow> s' = s"
    and "is_fill_type (oe_event_type e) \<Longrightarrow>
      0 < dval (oe_quantity_delta e) \<and> dval (oe_quantity_delta e) \<le> dval (of_remaining s)
      \<and> of_filled s' = of_filled s + oe_quantity_delta e
      \<and> of_remaining s' = of_remaining s - oe_quantity_delta e
      \<and> of_commission s' = of_commission s + oe_commission_delta_usd e
      \<and> (oe_event_type e = FILLED \<longrightarrow> dval (of_remaining s') = 0)
      \<and> (oe_event_type e = PARTIALLY_FILLED \<longrightarrow> 0 < dval (of_remaining s'))"
  using assms
  by (auto simp: apply_event_deltas_def Let_def dval_simps is_fill_type_def split: if_splits)

lemma reduce_step_Inr:
  assumes "reduce_step order e s = Inr s'"
  obtains s1 where "apply_event_deltas e s = Inr s1" "s' = s1\<lparr>of_previous := Some (oe_event_type e)\<rparr>"
    "od_created_at order \<le> oe_occurred_at e"
    "\<And>t. of_previous s = Some t \<Longrightarrow> \<not> is_terminal_order_event t"
    "dval (oe_remaining_quantity e) = dval (of_remaining s')"
    "dval (oe_cumulative_filled_quantity e) = dval (of_filled s')"
    "dval (oe_cumulative_commission_usd e) = dval (of_commission s')"
  using assms
  by (auto simp: reduce_step_def result_simps d_eq_dval split: if_splits option.splits)

lemma reduce_step_previous: "reduce_step order e s = Inr s' \<Longrightarrow> of_previous s' = Some (oe_event_type e)"
  by (elim reduce_step_Inr) simp

lemma rfold_previous:
  "rfold (reduce_step order) es s = Inr s' \<Longrightarrow> es \<noteq> [] \<Longrightarrow> of_previous s' = Some (oe_event_type (last es))"
proof (cases es rule: rev_cases)
  case (snoc xs e)
  assume "rfold (reduce_step order) es s = Inr s'"
  then obtain s1 where "reduce_step order e s1 = Inr s'" by (auto simp: snoc rfold_snoc rbind_eq_Inr)
  then show ?thesis using snoc by (simp add: reduce_step_previous)
qed simp

text \<open>The streams the reducer accepts, in sequence order, and the aggregate it returns.\<close>

definition accepted_stream :: "order_descriptor \<Rightarrow> order_event list \<Rightarrow> order_fold \<Rightarrow> bool" where
  "accepted_stream order es s \<longleftrightarrow>
     es \<noteq> [] \<and> distinct (map oe_event_id es) \<and> distinct (map oe_idempotency_key es)
     \<and> contiguous_from 1 (map oe_event_sequence es) \<and> oe_event_type (hd es) = CREATED
     \<and> rfold (reduce_step order) es (fold_start order) = Inr s"

definition aggregate_of :: "order_descriptor \<Rightarrow> order_event list \<Rightarrow> order_fold \<Rightarrow> order_aggregate" where
  "aggregate_of order es s =
     \<lparr>oa_order = order, oa_status = oe_event_type (last es), oa_remaining_quantity = of_remaining s,
      oa_cumulative_filled_quantity = of_filled s, oa_cumulative_commission_usd = of_commission s,
      oa_latest_event_sequence = oe_event_sequence (last es), oa_latest_event_id = oe_event_id (last es)\<rparr>"

lemma validate_event_identity_Inr:
  "validate_event_identity es = Inr u \<longleftrightarrow> distinct (map oe_event_id es) \<and> distinct (map oe_idempotency_key es)"
  by (simp add: validate_event_identity_def has_duplicates_def)

lemma reduce_ordered_Inr:
  "es \<noteq> [] \<Longrightarrow> reduce_ordered order es = Inr a \<longleftrightarrow>
     (\<exists>s. contiguous_from 1 (map oe_event_sequence es) \<and> oe_event_type (hd es) = CREATED
       \<and> rfold (reduce_step order) es (fold_start order) = Inr s \<and> a = aggregate_of order es s)"
  by (cases es) (auto simp: reduce_ordered_def result_simps aggregate_of_def simp del: rfold.simps split: if_splits)

abbreviation stream_of :: "order_descriptor \<Rightarrow> order_event list \<Rightarrow> instant option \<Rightarrow> order_event list" where
  "stream_of order events t \<equiv> sort_key oe_event_sequence (visible_events order events t)"

lemma reduce_order_events_Inr:
  "reduce_order_events order events as_of = Inr a \<longleftrightarrow>
     (\<exists>t s. require_as_of as_of = Inr t \<and> accepted_stream order (stream_of order events t) s
       \<and> a = aggregate_of order (stream_of order events t) s)"
proof -
  have perm: "distinct (map f (sort_key oe_event_sequence es)) \<longleftrightarrow> distinct (map f es)" for f :: "order_event \<Rightarrow> string" and es
    by (rule distinct_map_mset_cong) simp
  have nil: "sort_key oe_event_sequence es = [] \<longleftrightarrow> es = []" for es
    by (metis mset_sort mset_zero_iff)
  show ?thesis
    by (auto simp: reduce_order_events_def Let_def result_simps validate_event_identity_Inr
        reduce_ordered_Inr nil accepted_stream_def perm split: if_splits)
qed

lemma require_as_of_None [simp]: "require_as_of None = Inr None"
  by (simp add: require_as_of_def)

lemma reduce_None_Inr:
  "reduce_order_events order events None = Inr a \<longleftrightarrow>
     (\<exists>s. accepted_stream order (stream_of order events None) s
       \<and> a = aggregate_of order (stream_of order events None) s)"
  by (simp add: reduce_order_events_Inr)

subsection \<open>Which events matter\<close>

lemma visible_events_append: "visible_events order (xs @ ys) t = visible_events order xs t @ visible_events order ys t"
  by (simp add: visible_events_def)

lemma visible_events_visible: "visible_events order (visible_events order xs None) None = visible_events order xs None"
  by (simp add: visible_events_def)

lemma visible_events_other:
  "(\<And>e. e \<in> set ys \<Longrightarrow> oe_order_intent_id e \<noteq> od_order_intent_id order) \<Longrightarrow> visible_events order ys t = []"
  by (auto simp: visible_events_def filter_empty_conv)

lemma reduce_irrelevant:
  assumes "\<And>e. e \<in> set ys \<Longrightarrow> oe_order_intent_id e \<noteq> od_order_intent_id order"
  shows "reduce_order_events order (xs @ ys) as_of = reduce_order_events order xs as_of"
  using visible_events_other [OF assms] by (simp add: reduce_order_events_def visible_events_append)

lemma reduce_visible: "reduce_order_events order (visible_events order xs None) None = reduce_order_events order xs None"
  by (simp add: reduce_order_events_def visible_events_visible)

section \<open>Lifecycles\<close>

text \<open>The status sequences an order may go through.\<close>

inductive lifecycle :: "order_event_type list \<Rightarrow> bool" where
  lifecycle_created: "lifecycle [CREATED]"
| lifecycle_next: "lifecycle ts \<Longrightarrow> \<not> is_terminal_order_event (last ts) \<Longrightarrow> t \<noteq> CREATED \<Longrightarrow> lifecycle (ts @ [t])"

inductive_cases lifecycle_NilE: "lifecycle []"
inductive_cases lifecycle_snocE: "lifecycle (ts @ [t])"

lemma lifecycle_hd: "lifecycle ts \<Longrightarrow> hd ts = CREATED"
proof (induction rule: lifecycle.induct)
  case (lifecycle_next ts t)
  then have "ts \<noteq> []" using lifecycle_NilE by blast
  then show ?case using lifecycle_next.IH by simp
qed simp

lemma lifecycle_terminal_last:
  "lifecycle ts \<Longrightarrow> i + 1 < length ts \<Longrightarrow> \<not> is_terminal_order_event (ts ! i)"
proof (induction rule: lifecycle.induct)
  case (lifecycle_next ts t)
  show ?case
  proof (cases "i + 1 < length ts")
    case False
    then have "i = length ts - 1" "ts \<noteq> []" using lifecycle_next by auto
    then show ?thesis using lifecycle_next.hyps(2) by (simp add: nth_append last_conv_nth)
  qed (use lifecycle_next.IH in \<open>simp add: nth_append\<close>)
qed simp

lemma lifecycle_created_once:
  "lifecycle ts \<Longrightarrow> i < length ts \<Longrightarrow> ts ! i = CREATED \<Longrightarrow> i = 0"
  by (induction rule: lifecycle.induct) (auto simp: nth_append split: if_splits)

lemma accepted_lifecycle:
  assumes "rfold (reduce_step order) es (fold_start order) = Inr s" "es \<noteq> []" "oe_event_type (hd es) = CREATED"
  shows "lifecycle (map oe_event_type es)"
  using assms
proof (induction es arbitrary: s rule: rev_induct)
  case (snoc e es)
  show ?case
  proof (cases "es = []")
    case True
    then show ?thesis using snoc.prems by (simp add: lifecycle_created)
  next
    case False
    obtain s1 where s1: "rfold (reduce_step order) es (fold_start order) = Inr s1" "reduce_step order e s1 = Inr s"
      using snoc.prems(1) by (auto simp: rfold_snoc result_simps)
    have prev: "of_previous s1 = Some (oe_event_type (last es))" by (rule rfold_previous [OF s1(1) False])
    from s1(2) have "\<not> is_terminal_order_event (oe_event_type (last es))" "oe_event_type e \<noteq> CREATED"
      using prev by (auto elim!: reduce_step_Inr dest: apply_event_deltas_Inr(2))
    moreover have "lifecycle (map oe_event_type es)" using snoc.IH [OF s1(1)] False snoc.prems(3) by simp
    ultimately show ?thesis using False by (simp add: lifecycle_next last_map)
  qed
qed simp

section \<open>Quantities\<close>

text \<open>Exact bookkeeping on the grid \<open>pow10 g\<close>: what is filled and what remains add up.\<close>

definition conserves :: "int \<Rightarrow> order_descriptor \<Rightarrow> order_fold \<Rightarrow> bool" where
  "conserves g order s \<longleftrightarrow>
     on_grid g (dval (of_remaining s)) \<and> on_grid g (dval (of_filled s))
     \<and> 0 \<le> dval (of_remaining s) \<and> 0 \<le> dval (of_filled s)
     \<and> dval (of_remaining s) + dval (of_filled s) = dval (od_quantity order)"

lemma conserves_step:
  assumes "conserves g order s" "reduce_step order e s = Inr s'"
    and "on_grid g (dval (oe_quantity_delta e))" "dval (od_quantity order) \<le> pow10 (g + int prec)"
  shows "conserves g order s'"
proof -
  from assms(2) obtain s1 where s1: "apply_event_deltas e s = Inr s1" "s' = s1\<lparr>of_previous := Some (oe_event_type e)\<rparr>"
    by (rule reduce_step_Inr)
  show ?thesis
  proof (cases "is_fill_type (oe_event_type e)")
    case True
    define q r f where "q = dval (oe_quantity_delta e)" "r = dval (of_remaining s)" "f = dval (of_filled s)"
    note defs = q_r_f_def
    have d: "0 < q" "q \<le> r" "dval (of_remaining s') = ctx (r - q)" "dval (of_filled s') = ctx (f + q)"
      using apply_event_deltas_Inr(4) [OF s1(1) True] by (simp_all add: s1(2) defs dval_simps)
    have g: "on_grid g r" "on_grid g f" "on_grid g q" "0 \<le> f" "r + f = dval (od_quantity order)"
      using assms(1,3) by (simp_all add: conserves_def defs)
    then have "ctx (r - q) = r - q" "ctx (f + q) = f + q"
      using d(1,2) assms(4) by (auto intro!: ctx_grid [of g])
    then show ?thesis unfolding conserves_def using d g by auto
  next
    case False
    then show ?thesis using assms(1) apply_event_deltas_Inr(3) [OF s1(1)] s1(2) by (simp add: conserves_def)
  qed
qed

lemma conserves_rfold:
  assumes "rfold (reduce_step order) es s = Inr s'" "conserves g order s"
    and "\<And>e. e \<in> set es \<Longrightarrow> on_grid g (dval (oe_quantity_delta e))"
    and "dval (od_quantity order) \<le> pow10 (g + int prec)"
  shows "conserves g order s'"
  using assms(1-3)
  by (induction es arbitrary: s) (auto simp: result_simps intro: conserves_step [OF _ _ _ assms(4)])

text \<open>Without any grid assumption, nothing ever becomes negative.\<close>

definition nonneg_fold :: "order_fold \<Rightarrow> bool" where
  "nonneg_fold s \<longleftrightarrow> 0 \<le> dval (of_remaining s) \<and> 0 \<le> dval (of_filled s) \<and> 0 \<le> dval (of_commission s)"

lemma nonneg_step:
  assumes "nonneg_fold s" "reduce_step order e s = Inr s'" "0 \<le> dval (oe_commission_delta_usd e)"
  shows "nonneg_fold s'"
proof -
  from assms(2) obtain s1 where s1: "apply_event_deltas e s = Inr s1" "s' = s1\<lparr>of_previous := Some (oe_event_type e)\<rparr>"
    by (rule reduce_step_Inr)
  show ?thesis
  proof (cases "is_fill_type (oe_event_type e)")
    case True
    show ?thesis
      using apply_event_deltas_Inr(4) [OF s1(1) True] assms(1,3)
      by (auto simp: nonneg_fold_def s1(2) dval_simps intro!: ctx_nonneg)
  next
    case False
    then show ?thesis using assms(1) apply_event_deltas_Inr(3) [OF s1(1)] s1(2) by (simp add: nonneg_fold_def)
  qed
qed

lemma nonneg_rfold:
  assumes "rfold (reduce_step order) es s = Inr s'" "nonneg_fold s"
    and "\<And>e. e \<in> set es \<Longrightarrow> 0 \<le> dval (oe_commission_delta_usd e)"
  shows "nonneg_fold s'"
  using assms by (induction es arbitrary: s) (auto simp: result_simps intro: nonneg_step)

section \<open>Appending\<close>

lemma accepted_sequence:
  assumes "accepted_stream order es s"
  shows "oe_event_sequence (last es) = int (length es)" "1 \<le> oe_event_sequence (last es)"
    and "x \<in> set es \<Longrightarrow> oe_event_sequence x \<le> oe_event_sequence (last es)"
proof -
  have c: "contiguous_from 1 (map oe_event_sequence es)" "es \<noteq> []" using assms by (simp_all add: accepted_stream_def)
  show l: "oe_event_sequence (last es) = int (length es)"
    using contiguous_from_last [OF c(1)] c(2) by (simp add: last_map)
  show "1 \<le> oe_event_sequence (last es)" using c(2) unfolding l by (cases es) auto
  assume "x \<in> set es"
  then have "oe_event_sequence x \<in> set (map oe_event_sequence es)" by simp
  from contiguous_from_ge [OF c(1) this] show "oe_event_sequence x \<le> oe_event_sequence (last es)" by (simp add: l)
qed

lemma next_event_state_seq:
  assumes "next_event_state order relevant ty qd cd = Inr (sq, rem, fil, com)"
  shows "ty = CREATED \<Longrightarrow> relevant = [] \<and> sq = 1"
    and "ty \<noteq> CREATED \<Longrightarrow> \<exists>a. reduce_order_events order relevant None = Inr a \<and> \<not> is_terminal a
           \<and> sq = oa_latest_event_sequence a + 1"
  using assms by (auto simp: next_event_state_def Let_def result_simps split: if_splits)

lemma build_event_fields [simp]:
  "oe_order_intent_id (build_event H order r p t1 t2 nxt) = od_order_intent_id order"
  "oe_event_type (build_event H order r p t1 t2 nxt) = ar_event_type r"
  "oe_event_sequence (build_event H order r p t1 t2 nxt) = fst nxt"
  "oe_remaining_quantity (build_event H order r p t1 t2 nxt) = fst (snd nxt)"
  "oe_quantity_delta (build_event H order r p t1 t2 nxt) = ar_quantity_delta r"
  "oe_commission_delta_usd (build_event H order r p t1 t2 nxt) = ar_commission_delta_usd r"
  "oe_cumulative_filled_quantity (build_event H order r p t1 t2 nxt) = fst (snd (snd nxt))"
  "oe_cumulative_commission_usd (build_event H order r p t1 t2 nxt) = snd (snd (snd nxt))"
  "oe_occurred_at (build_event H order r p t1 t2 nxt) = t1"
  "oe_available_at (build_event H order r p t1 t2 nxt) = t2"
  by (simp_all add: build_event_def Let_def split: prod.split)

lemma append_order_event_Inr:
  assumes "append_order_event H order existing r p = Inr e"
  obtains t1 t2 nxt where "ar_occurred_at r = Aware t1" "ar_available_at r = Aware t2" "t1 \<le> t2"
    "next_event_state order (visible_events order existing None) (ar_event_type r) (ar_quantity_delta r)
       (ar_commission_delta_usd r) = Inr nxt"
    "e = build_event H order r p t1 t2 nxt" "validate_order_event e = Inr e"
    "\<exists>a. reduce_order_events order (visible_events order existing None @ [e]) None = Inr a"
proof -
  from assms obtain t1 t2 nxt a where *: "ar_occurred_at r = Aware t1" "ar_available_at r = Aware t2" "t1 \<le> t2"
    "next_event_state order (visible_events order existing None) (ar_event_type r) (ar_quantity_delta r)
       (ar_commission_delta_usd r) = Inr nxt"
    "validate_order_event (build_event H order r p t1 t2 nxt) = Inr e"
    "reduce_order_events order (visible_events order existing None @ [e]) None = Inr a"
    by (auto simp: append_order_event_def Let_def result_simps simp del: build_event_fields split: if_splits)
  then show thesis using that validate_order_event_Inr [OF *(5)] by metis
qed

text \<open>The appended event is the newest of its order, so the replay applies it last.\<close>

lemma append_is_last:
  assumes "append_order_event H order existing r p = Inr e"
  shows "stream_of order (existing @ [e]) None = stream_of order existing None @ [e]"
proof -
  from assms obtain t1 t2 nxt where nxt: "next_event_state order (visible_events order existing None)
      (ar_event_type r) (ar_quantity_delta r) (ar_commission_delta_usd r) = Inr nxt"
    and e: "e = build_event H order r p t1 t2 nxt" by (elim append_order_event_Inr)
  let ?vs = "visible_events order existing None"
  obtain sq rem fil com where t: "nxt = (sq, rem, fil, com)" by (cases nxt)
  note ns = next_event_state_seq [OF nxt [unfolded t]]
  have "oe_event_sequence x \<le> oe_event_sequence e" if x: "x \<in> set ?vs" for x
  proof (cases "ar_event_type r = CREATED")
    case True
    then show ?thesis using ns(1) x by simp
  next
    case False
    then obtain a where a: "reduce_order_events order ?vs None = Inr a" "sq = oa_latest_event_sequence a + 1"
      using ns(2) by auto
    then obtain s where s: "accepted_stream order (stream_of order existing None) s"
      "a = aggregate_of order (stream_of order existing None) s"
      by (auto simp: reduce_visible reduce_None_Inr)
    have "oe_event_sequence x \<le> oe_event_sequence (last (stream_of order existing None))"
      using accepted_sequence(3) [OF s(1)] x by simp
    then show ?thesis using a(2) s(2) by (simp add: e t aggregate_of_def)
  qed
  then have "sort_key oe_event_sequence (?vs @ [e]) = sort_key oe_event_sequence ?vs @ [e]"
    by (rule order_log.sort_key_snoc)
  moreover have "visible_events order [e] None = [e]" by (simp add: visible_events_def e)
  ultimately show ?thesis by (simp add: visible_events_append)
qed

lemma append_reduces:
  assumes "append_order_event H order existing r p = Inr e"
  shows "\<exists>a. reduce_order_events order (existing @ [e]) None = Inr a \<and> oa_status a = ar_event_type r
    \<and> oa_latest_event_id a = oe_event_id e
    \<and> dval (oa_remaining_quantity a) = dval (oe_remaining_quantity e)"
proof -
  from assms obtain a t1 t2 nxt where a: "reduce_order_events order (visible_events order existing None @ [e]) None = Inr a"
    and e: "e = build_event H order r p t1 t2 nxt" by (elim append_order_event_Inr) auto
  have "visible_events order (visible_events order existing None @ [e]) None = visible_events order (existing @ [e]) None"
    by (simp add: visible_events_append visible_events_visible)
  then have red: "reduce_order_events order (existing @ [e]) None = Inr a"
    using a by (simp add: reduce_order_events_def)
  then obtain s where s: "accepted_stream order (stream_of order existing None @ [e]) s"
    "a = aggregate_of order (stream_of order existing None @ [e]) s"
    unfolding reduce_None_Inr append_is_last [OF assms] by auto
  then obtain s1 where "reduce_step order e s1 = Inr s"
    by (auto simp: accepted_stream_def rfold_snoc rbind_eq_Inr)
  then have "dval (oe_remaining_quantity e) = dval (of_remaining s)" by (rule reduce_step_Inr)
  then show ?thesis using red s(2) by (auto simp: aggregate_of_def e)
qed

lemma append_other_orders:
  assumes "append_order_event H order existing r p = Inr e"
    and "od_order_intent_id order' \<noteq> od_order_intent_id order"
  shows "reduce_order_events order' (existing @ [e]) as_of = reduce_order_events order' existing as_of"
proof (rule reduce_irrelevant)
  fix x assume "x \<in> set [e]"
  with assms show "oe_order_intent_id x \<noteq> od_order_intent_id order'" by (auto elim!: append_order_event_Inr)
qed

lemma append_after_terminal:
  assumes "reduce_order_events order existing None = Inr a" "is_terminal a"
  shows "append_order_event H order existing r p \<noteq> Inr e"
proof
  assume *: "append_order_event H order existing r p = Inr e"
  then obtain nxt where nxt: "next_event_state order (visible_events order existing None)
      (ar_event_type r) (ar_quantity_delta r) (ar_commission_delta_usd r) = Inr nxt"
    by (elim append_order_event_Inr)
  obtain s where "accepted_stream order (stream_of order existing None) s" using assms(1) by (auto simp: reduce_None_Inr)
  then have "visible_events order existing None \<noteq> []" by (auto simp: accepted_stream_def)
  then show False
    using nxt assms by (auto simp: next_event_state_def reduce_visible split: if_splits)
qed

section \<open>Emitting operations\<close>

interpretation emitter: event_emitter
    "\<lambda>order es. append_order_event H order es r p" "\<lambda>order es. reduce_order_events order es None"
    od_order_intent_id oe_order_intent_id "\<lambda>a. oa_status a = ar_event_type r" for H r p
proof
  show "oe_order_intent_id e = od_order_intent_id order" if "append_order_event H order es r p = Inr e" for order es e
    using that by (elim append_order_event_Inr) simp
  show "\<exists>a. reduce_order_events order (es @ [e]) None = Inr a \<and> oa_status a = ar_event_type r"
    if "append_order_event H order es r p = Inr e" for order es e
    using append_reduces [OF that] by blast
qed (rule reduce_irrelevant)

lemma emit_for_emit:
  "emit_for H selected materialized r p as out = emitter.emit H r p (map oa_order (filter selected as)) materialized out"
proof (induction as arbitrary: out)
  case (Cons a as)
  then show ?case by (simp add: rbind_def split: sum.split)
qed simp

lemma emitted_type:
  "emit_for H selected materialized r p as out = Inr out' \<Longrightarrow> \<forall>e\<in>set out. oe_event_type e = ar_event_type r \<Longrightarrow>
     \<forall>e\<in>set out'. oe_event_type e = ar_event_type r"
proof (induction as arbitrary: out)
  case (Cons a as)
  show ?case
  proof (cases "selected a")
    case True
    then obtain e where e: "append_order_event H (oa_order a) (materialized @ out) r p = Inr e"
      "emit_for H selected materialized r p as (out @ [e]) = Inr out'"
      using Cons.prems(1) by (auto simp: result_simps)
    have "oe_event_type e = ar_event_type r" using e(1) by (elim append_order_event_Inr) simp
    then have "\<forall>x\<in>set (out @ [e]). oe_event_type x = ar_event_type r" using Cons.prems(2) by auto
    then show ?thesis by (rule Cons.IH [OF e(2)])
  next
    case False
    then show ?thesis using Cons.IH [of out] Cons.prems by simp
  qed
qed simp

text \<open>Pending orders, by order.\<close>

lemma reduce_order: "reduce_order_events order events as_of = Inr a \<Longrightarrow> oa_order a = order"
  by (auto simp: reduce_order_events_Inr aggregate_of_def)

lemma pending_orders_Inr:
  assumes "pending_orders orders events as_of = Inr ps"
  shows "order \<in> set orders \<Longrightarrow> \<exists>a. reduce_order_events order events as_of = Inr a"
    and "a \<in> set ps \<longleftrightarrow> is_pending a \<and> oa_order a \<in> set orders \<and> reduce_order_events (oa_order a) events as_of = Inr a"
    and "distinct (map od_order_intent_id orders) \<Longrightarrow> distinct (map (od_order_intent_id \<circ> oa_order) ps)"
proof -
  obtain as where as: "rmap (\<lambda>order. reduce_order_events order events as_of) orders = Inr as"
    and ps: "ps = sort_key aggregate_key (filter is_pending as)"
    using assms by (auto simp: pending_orders_def result_simps)
  from as have l2: "list_all2 (\<lambda>order a. reduce_order_events order events as_of = Inr a) orders as"
    by (simp add: rmap_eq_Inr)
  then have "map oa_order as = orders"
    by (induction rule: list_all2_induct) (auto dest: reduce_order)
  then have ids: "map (od_order_intent_id \<circ> oa_order) as = map od_order_intent_id orders" by auto
  show "order \<in> set orders \<Longrightarrow> \<exists>a. reduce_order_events order events as_of = Inr a"
    using l2 by (auto simp: list_all2_conv_all_nth in_set_conv_nth)
  have mem: "a \<in> set as \<longleftrightarrow> oa_order a \<in> set orders \<and> reduce_order_events (oa_order a) events as_of = Inr a" for a
  proof
    assume "a \<in> set as"
    then obtain i where i: "i < length as" "a = as ! i" by (metis in_set_conv_nth)
    then have "reduce_order_events (orders ! i) events as_of = Inr a" "i < length orders"
      using l2 by (auto simp: list_all2_conv_all_nth)
    then show "oa_order a \<in> set orders \<and> reduce_order_events (oa_order a) events as_of = Inr a"
      using reduce_order by (metis nth_mem)
  next
    assume a: "oa_order a \<in> set orders \<and> reduce_order_events (oa_order a) events as_of = Inr a"
    then obtain i where i: "i < length orders" "oa_order a = orders ! i" by (metis in_set_conv_nth)
    then have "reduce_order_events (orders ! i) events as_of = Inr (as ! i)" "i < length as"
      using l2 by (auto simp: list_all2_conv_all_nth)
    then have "as ! i = a" using a i(2) by simp
    then show "a \<in> set as" using \<open>i < length as\<close> nth_mem by blast
  qed
  show "a \<in> set ps \<longleftrightarrow> is_pending a \<and> oa_order a \<in> set orders \<and> reduce_order_events (oa_order a) events as_of = Inr a"
    using mem by (auto simp: ps)
  show "distinct (map (od_order_intent_id \<circ> oa_order) ps)" if "distinct (map od_order_intent_id orders)"
  proof -
    have "distinct (map (od_order_intent_id \<circ> oa_order) (filter is_pending as))"
      using that ids by (metis distinct_map_filter)
    then show ?thesis
      using distinct_map_mset_cong [of ps "filter is_pending as" "od_order_intent_id \<circ> oa_order"] by (simp add: ps)
  qed
qed

text \<open>
  What the three operations have in common: the selected pending orders receive one event of the
  given type and are in that state afterwards, all other orders keep theirs.
\<close>

lemma emission_effect:
  assumes "pending_orders orders events as_of = Inr ps" "emit_for H selected events r p ps [] = Inr out"
    and "distinct (map od_order_intent_id orders)" "order \<in> set orders"
    and "reduce_order_events order events as_of = Inr a"
  shows "is_pending a \<and> selected a \<Longrightarrow> \<exists>a'. reduce_order_events order (events @ out) None = Inr a' \<and> oa_status a' = ar_event_type r"
    and "\<not> (is_pending a \<and> selected a) \<Longrightarrow> reduce_order_events order (events @ out) t = reduce_order_events order events t"
    and "e \<in> set out \<Longrightarrow> oe_event_type e = ar_event_type r"
proof -
  let ?xs = "map oa_order (filter selected ps)"
  have em: "emitter.emit H r p ?xs events [] = Inr out" using assms(2) by (simp add: emit_for_emit)
  have oa: "oa_order a = order" by (rule reduce_order [OF assms(5)])
  have dist: "distinct (map od_order_intent_id ?xs)"
    using pending_orders_Inr(3) [OF assms(1,3)] by (simp add: distinct_map_filter comp_def)
  show "\<exists>a'. reduce_order_events order (events @ out) None = Inr a' \<and> oa_status a' = ar_event_type r"
    if "is_pending a \<and> selected a"
  proof -
    have "order \<in> set ?xs" using that pending_orders_Inr(2) [OF assms(1), of a] assms(4,5) oa by force
    then show ?thesis using emitter.emit_closes [OF em dist] by blast
  qed
  show "reduce_order_events order (events @ out) t = reduce_order_events order events t"
    if not: "\<not> (is_pending a \<and> selected a)"
  proof (rule reduce_irrelevant)
    fix e assume "e \<in> set out"
    then have "oe_order_intent_id e \<in> set (map od_order_intent_id ?xs)"
      using emitter.emit_owners [OF em] by (metis append_Nil image_eqI list.set_map)
    then obtain b where b: "b \<in> set ps" "selected b" "oe_order_intent_id e = od_order_intent_id (oa_order b)" by auto
    then have b': "is_pending b" "oa_order b \<in> set orders" "reduce_order_events (oa_order b) events as_of = Inr b"
      using pending_orders_Inr(2) [OF assms(1)] by auto
    show "oe_order_intent_id e \<noteq> od_order_intent_id order"
    proof
      assume "oe_order_intent_id e = od_order_intent_id order"
      then have "oa_order b = order"
        using b b'(2) assms(3,4) by (metis distinct_map_inj_on inj_onD)
      then have "b = a" using b'(3) assms(5) by simp
      then show False using not b b' by simp
    qed
  qed
  show "e \<in> set out \<Longrightarrow> oe_event_type e = ar_event_type r" using emitted_type [OF assms(2)] by simp
qed

text \<open>The quantity that replacement orders sell of a symbol for an arm.\<close>

definition replacement_sells :: "order_descriptor list \<Rightarrow> string \<Rightarrow> string \<Rightarrow> decimal list" where
  "replacement_sells rs arm symbol =
     map od_quantity (filter (\<lambda>r. od_side r = SELL \<and> od_arm_id r = arm \<and> od_symbol r = symbol) rs)"

lemma fold_add_replacement_sell:
  "dict_get (fold add_replacement_sell rs d) (arm, symbol) 0
     = foldl (+) (dict_get d (arm, symbol) 0) (replacement_sells rs arm symbol)"
  by (induction rs arbitrary: d) (auto simp: add_replacement_sell_def replacement_sells_def dict_get_update)

lemma supersedable_iff:
  "supersedable rs a \<longleftrightarrow>
     od_order_class (oa_order a) = NORMAL_ORDER \<and> od_arm_id (oa_order a) \<in> od_arm_id ` set rs
     \<and> (od_side (oa_order a) = SELL \<longrightarrow>
          dval (oa_remaining_quantity a)
            \<le> dval (dsum (replacement_sells rs (od_arm_id (oa_order a)) (od_symbol (oa_order a)))))"
  by (auto simp: supersedable_def fold_add_replacement_sell dsum_def less_decimal_dval)

section \<open>When an append succeeds\<close>

text \<open>Provenance that the event record accepts.\<close>

definition provenance_fits :: "order_event_provenance \<Rightarrow> bool" where
  "provenance_fits p \<longleftrightarrow>
     len_within 1 64 (pv_config_manifest_hash p) \<and> len_within 1 80 (pv_code_version p)
     \<and> len_within 1 120 (pv_model_version p) \<and> len_within 1 64 (pv_source_manifest_hash p)
     \<and> 1 \<le> pv_cycle_attempt_count p"

text \<open>The new event's identifiers are not used yet.\<close>

definition fresh_event :: "order_event list \<Rightarrow> order_event \<Rightarrow> bool" where
  "fresh_event es e \<longleftrightarrow> oe_event_id e \<notin> oe_event_id ` set es \<and> oe_idempotency_key e \<notin> oe_idempotency_key ` set es"

lemma build_event_versioned: "provenance_fits p \<Longrightarrow> versioned_ok (build_event H order r p t1 t2 nxt)"
  by (auto simp: versioned_ok_def build_event_def Let_def provenance_fits_def split: prod.split)

lemma build_event_attempt: "oe_cycle_attempt_count (build_event H order r p t1 t2 nxt) = pv_cycle_attempt_count p"
  by (simp add: build_event_def Let_def split: prod.split)

lemma build_status_event_valid:
  assumes "provenance_fits p" "\<not> is_fill_type (ar_event_type r)" "t1 \<le> t2"
    and "dval (ar_quantity_delta r) = 0" "dval (ar_commission_delta_usd r) = 0" "1 \<le> fst nxt"
    and "0 \<le> dval (fst (snd nxt))" "0 \<le> dval (fst (snd (snd nxt)))" "0 \<le> dval (snd (snd (snd nxt)))"
  shows "validate_order_event (build_event H order r p t1 t2 nxt) = Inr (build_event H order r p t1 t2 nxt)"
proof -
  have "ar_event_type r \<noteq> FILLED" "ar_event_type r \<noteq> PARTIALLY_FILLED" using assms(2) by auto
  then show ?thesis
    using assms build_event_versioned [OF assms(1), of H order r t1 t2 nxt]
    by (simp add: validate_order_event_def build_event_attempt dval_simps provenance_fits_def)
qed

lemma accepted_stream_snoc:
  assumes "accepted_stream order es s" "reduce_step order e s = Inr s'"
    and "oe_event_sequence e = oe_event_sequence (last es) + 1" "fresh_event es e"
  shows "accepted_stream order (es @ [e]) s'"
  using assms accepted_sequence(1) [OF assms(1)]
  by (auto simp: accepted_stream_def fresh_event_def contiguous_from_append rfold_snoc)

text \<open>A status event (no fill) can always be appended to an order that is not terminal.\<close>

lemma append_status_Inr:
  assumes red: "reduce_order_events order existing None = Inr a" and nt: "\<not> is_terminal a"
    and valid: "\<And>e. e \<in> set existing \<Longrightarrow> 0 \<le> dval (oe_commission_delta_usd e)" "0 \<le> dval (od_quantity order)"
    and ty: "ar_event_type r \<noteq> CREATED" "\<not> is_fill_type (ar_event_type r)"
    and deltas: "dval (ar_quantity_delta r) = 0" "dval (ar_commission_delta_usd r) = 0"
    and times: "ar_occurred_at r = Aware t1" "ar_available_at r = Aware t2" "t1 \<le> t2" "od_created_at order \<le> t1"
    and p: "provenance_fits p"
    and e: "e = build_event H order r p t1 t2 (oa_latest_event_sequence a + 1, oa_remaining_quantity a,
        oa_cumulative_filled_quantity a, oa_cumulative_commission_usd a)"
    and fresh: "fresh_event (visible_events order existing None) e"
  shows "append_order_event H order existing r p = Inr e"
proof -
  let ?es = "stream_of order existing None" and ?vs = "visible_events order existing None"
  obtain s where s: "accepted_stream order ?es s" "a = aggregate_of order ?es s"
    using red by (auto simp: reduce_None_Inr)
  have rf: "rfold (reduce_step order) ?es (fold_start order) = Inr s" "?es \<noteq> []"
    using s(1) by (auto simp: accepted_stream_def)
  have "nonneg_fold s"
    using nonneg_rfold [OF rf(1)] valid by (auto simp: nonneg_fold_def fold_start_def visible_events_def)
  moreover have "1 \<le> oa_latest_event_sequence a"
    using s(2) accepted_sequence(2) [OF s(1)] by (simp add: aggregate_of_def)
  ultimately have ok: "validate_order_event e = Inr e"
    unfolding e using s(2) by (intro build_status_event_valid p ty deltas times) (auto simp: nonneg_fold_def aggregate_of_def)
  have "of_previous s = Some (oa_status a)" using rfold_previous [OF rf] s(2) by (simp add: aggregate_of_def)
  then have "reduce_step order e s = Inr (s\<lparr>of_previous := Some (ar_event_type r)\<rparr>)"
    using nt ty deltas times s(2)
    by (simp add: reduce_step_def apply_event_deltas_def e is_terminal_def d_eq_dval aggregate_of_def)
  then have "accepted_stream order (?es @ [e]) (s\<lparr>of_previous := Some (ar_event_type r)\<rparr>)"
    using fresh s by (intro accepted_stream_snoc [OF s(1)]) (auto simp: e aggregate_of_def fresh_event_def)
  moreover have "stream_of order (?vs @ [e]) None = ?es @ [e]"
  proof -
    have "oe_event_sequence x \<le> oe_event_sequence e" if "x \<in> set ?vs" for x
      using accepted_sequence(3) [OF s(1), of x] that s(2) by (simp add: e aggregate_of_def)
    then have "sort_key oe_event_sequence (?vs @ [e]) = ?es @ [e]" by (rule order_log.sort_key_snoc)
    moreover have "visible_events order (?vs @ [e]) None = ?vs @ [e]" by (simp add: visible_events_def e)
    ultimately show ?thesis by simp
  qed
  ultimately have "\<exists>a'. reduce_order_events order (?vs @ [e]) None = Inr a'" by (auto simp: reduce_None_Inr)
  moreover have "next_event_state order ?vs (ar_event_type r) (ar_quantity_delta r) (ar_commission_delta_usd r)
      = Inr (oa_latest_event_sequence a + 1, oa_remaining_quantity a, oa_cumulative_filled_quantity a, oa_cumulative_commission_usd a)"
    using red nt ty deltas by (simp add: next_event_state_def reduce_visible d_eq_dval)
  ultimately show ?thesis
    using times ok by (auto simp: append_order_event_def e [symmetric])
qed

section \<open>Properties\<close>

text \<open>Two orders, a buy and a sell, with their first events, for the worked examples.\<close>

definition example_provenance :: order_event_provenance where
  "example_provenance =
     \<lparr>pv_config_manifest_hash = ''cfg'', pv_code_version = ''code'', pv_model_version = ''model'',
      pv_source_manifest_hash = ''src'', pv_worker_fence_token = ''fence'', pv_cycle_attempt_count = 1\<rparr>"

definition example_order :: "string \<Rightarrow> order_side \<Rightarrow> order_descriptor" where
  "example_order oid side =
     \<lparr>od_order_intent_id = oid, od_arm_id = ''Q1-DET'', od_portfolio_decision_id = ''dec'',
      od_symbol = ''SPY'', od_side = side, od_quantity = D 10 0, od_order_class = NORMAL_ORDER,
      od_created_at = 5, od_valid_until = 100\<rparr>"

definition example_request :: "order_event_type \<Rightarrow> int \<Rightarrow> decimal \<Rightarrow> decimal \<Rightarrow> append_request" where
  "example_request ty t q c =
     \<lparr>ar_event_type = ty, ar_occurred_at = Aware t, ar_available_at = Aware t, ar_quantity_delta = q,
      ar_commission_delta_usd = c, ar_reason = None, ar_source_id = None, ar_quote_id = None,
      ar_source_cycle_id = None\<rparr>"

definition example_event ::
  "string \<Rightarrow> int \<Rightarrow> order_event_type \<Rightarrow> decimal \<Rightarrow> decimal \<Rightarrow> decimal \<Rightarrow> instant \<Rightarrow> order_event" where
  "example_event oid sq ty q rem fil t =
     \<lparr>vr_algorithm_version = Q1_ALGORITHM_VERSION, vr_config_manifest_hash = ''cfg'',
      vr_code_version = ''code'', vr_model_version = ''model'', vr_source_manifest_hash = ''src'',
      oe_event_id = oid @ int_str sq, oe_order_intent_id = oid, oe_event_type = ty,
      oe_event_sequence = sq, oe_quantity_delta = q, oe_commission_delta_usd = 0,
      oe_remaining_quantity = rem, oe_cumulative_filled_quantity = fil,
      oe_cumulative_commission_usd = 0, oe_occurred_at = t, oe_available_at = t,
      oe_idempotency_key = oid @ int_str sq, oe_reason = None, oe_source_id = None,
      oe_quote_id = None, oe_source_cycle_id = None, oe_worker_fence_token = ''fence'',
      oe_cycle_attempt_count = 1, oe_event_hash = ''hash''\<rparr>"

definition example_events :: "order_event list" where
  "example_events =
     [example_event ''o1'' 1 CREATED 0 (D 10 0) 0 5,
      example_event ''o1'' 2 PARTIALLY_FILLED (D 4 0) (D 6 0) (D 4 0) 7,
      example_event ''o2'' 1 CREATED 0 (D 10 0) 0 5]"

definition example_filled_events :: "order_event list" where
  "example_filled_events = example_events @ [example_event ''o1'' 3 FILLED (D 6 0) 0 (D 10 0) 9]"

text \<open>
  C3. Quantity is conserved: when the order quantity and all fill deltas are multiples of one
  power of ten within 28 digits, the remaining and the filled quantity of every derived state
  are non-negative and add up to exactly the ordered quantity.
\<close>

theorem order_quantity_conserved:
  assumes "reduce_order_events order events as_of = Inr a"
    and "\<And>e. e \<in> set events \<Longrightarrow> on_grid g (dval (oe_quantity_delta e))"
    and "on_grid g (dval (od_quantity order))" "0 \<le> dval (od_quantity order)"
    and "dval (od_quantity order) \<le> pow10 (g + int prec)"
  shows "0 \<le> dval (oa_remaining_quantity a) \<and> 0 \<le> dval (oa_cumulative_filled_quantity a)
    \<and> dval (oa_remaining_quantity a) + dval (oa_cumulative_filled_quantity a) = dval (od_quantity order)"
proof -
  obtain t s where s: "accepted_stream order (stream_of order events t) s" "a = aggregate_of order (stream_of order events t) s"
    using assms(1) by (auto simp: reduce_order_events_Inr)
  have rf: "rfold (reduce_step order) (stream_of order events t) (fold_start order) = Inr s"
    using s(1) by (simp add: accepted_stream_def)
  have start: "conserves g order (fold_start order)" using assms(3,4) by (simp add: conserves_def fold_start_def)
  have "conserves g order s"
    by (rule conserves_rfold [OF rf start _ assms(5)]) (auto simp: visible_events_def intro: assms(2))
  then show ?thesis using s(2) by (simp add: conserves_def aggregate_of_def)
qed

theorem order_quantity_conserved_witness:
  "\<exists>a. reduce_order_events (example_order ''o1'' BUY) example_events None = Inr a
    \<and> dval (oa_remaining_quantity a) + dval (oa_cumulative_filled_quantity a) = 10"
proof -
  let ?r = "reduce_order_events (example_order ''o1'' BUY) example_events None"
  have "case ?r of Inr a \<Rightarrow> True | Inl _ \<Rightarrow> False" by code_simp
  then obtain a where a: "?r = Inr a" by (auto split: sum.splits)
  have deltas: "map oe_quantity_delta example_events = [0, D 4 0, 0]" by code_simp
  have g: "on_grid 0 (dval (oe_quantity_delta e))" if "e \<in> set example_events" for e
  proof -
    have "oe_quantity_delta e \<in> set [0, D 4 0, 0]" using that unfolding deltas [symmetric] by simp
    then show ?thesis by (auto simp: dval_simps on_grid_def intro: exI [of _ 4])
  qed
  show ?thesis
    using order_quantity_conserved [OF a g] a
    by (auto simp: example_order_def dval_simps on_grid_def prec_def intro: exI [of _ 10])
qed

text \<open>
  C4. An appended event is what it claims: replaying the stream with it succeeds and yields its
  type as status, its id as latest id and its remaining quantity; a non-CREATED event continues
  the sequence of a non-terminal state; every other order is unaffected at every point in time.
\<close>

theorem append_order_event_refines:
  assumes "append_order_event H order existing r p = Inr e"
  shows "(\<exists>a. reduce_order_events order (existing @ [e]) None = Inr a \<and> oa_status a = ar_event_type r
        \<and> oa_latest_event_id a = oe_event_id e
        \<and> dval (oa_remaining_quantity a) = dval (oe_remaining_quantity e)
        \<and> (ar_event_type r \<noteq> CREATED \<longrightarrow> (\<exists>a0. reduce_order_events order existing None = Inr a0
             \<and> \<not> is_terminal a0 \<and> oe_event_sequence e = oa_latest_event_sequence a0 + 1)))
    \<and> (\<forall>order' as_of. od_order_intent_id order' \<noteq> od_order_intent_id order \<longrightarrow>
          reduce_order_events order' (existing @ [e]) as_of = reduce_order_events order' existing as_of)"
proof -
  obtain t1 t2 sq rem fil com where nxt: "next_event_state order (visible_events order existing None)
      (ar_event_type r) (ar_quantity_delta r) (ar_commission_delta_usd r) = Inr (sq, rem, fil, com)"
    and e: "e = build_event H order r p t1 t2 (sq, rem, fil, com)"
    using append_order_event_Inr [OF assms] by (metis prod_cases4)
  have "ar_event_type r \<noteq> CREATED \<longrightarrow> (\<exists>a0. reduce_order_events order existing None = Inr a0
      \<and> \<not> is_terminal a0 \<and> oe_event_sequence e = oa_latest_event_sequence a0 + 1)"
    using next_event_state_seq(2) [OF nxt] by (auto simp: reduce_visible e)
  then show ?thesis using append_reduces [OF assms] append_other_orders [OF assms] by blast
qed

theorem append_order_event_refines_witness:
  "\<exists>e a. append_order_event digits_digest (example_order ''o1'' BUY) example_events
        (example_request FILLED 9 (D 6 0) (D 1 0)) example_provenance = Inr e
     \<and> reduce_order_events (example_order ''o1'' BUY) (example_events @ [e]) None = Inr a \<and> oa_status a = FILLED"
proof -
  let ?r = "append_order_event digits_digest (example_order ''o1'' BUY) example_events
        (example_request FILLED 9 (D 6 0) (D 1 0)) example_provenance"
  have "case ?r of Inr a \<Rightarrow> True | Inl _ \<Rightarrow> False" by code_simp
  then obtain e where e: "?r = Inr e" by (auto split: sum.splits)
  then show ?thesis using append_order_event_refines [OF e] by (auto simp: example_request_def)
qed

text \<open>
  Nothing can be appended to an order whose derived state is terminal (filled, canceled,
  superseded, expired or rejected): every request raises.
\<close>

theorem append_after_terminal_raises:
  assumes "reduce_order_events order existing None = Inr a" "is_terminal a"
  shows "\<exists>err. append_order_event H order existing r p = Inl err"
  using append_after_terminal [OF assms] by (cases "append_order_event H order existing r p") auto

theorem append_after_terminal_raises_witness:
  "\<exists>a err. reduce_order_events (example_order ''o1'' BUY)
        example_filled_events None = Inr a
     \<and> append_order_event digits_digest (example_order ''o1'' BUY)
        example_filled_events
        (example_request ACTIVE 11 0 0) example_provenance = Inl err"
proof -
  let ?es = example_filled_events
  have "case reduce_order_events (example_order ''o1'' BUY) ?es None of Inr a \<Rightarrow> is_terminal a | Inl _ \<Rightarrow> False"
    by code_simp
  then obtain a where "reduce_order_events (example_order ''o1'' BUY) ?es None = Inr a" "is_terminal a"
    by (auto split: sum.splits)
  then show ?thesis using append_after_terminal_raises by blast
qed

text \<open>
  The derived state does not depend on the order in which events are stored: any
  permutation of the event log reduces to the same aggregate.
\<close>

theorem reduce_order_independent:
  assumes "mset events = mset events'" "reduce_order_events order events as_of = Inr a"
  shows "reduce_order_events order events' as_of = Inr a"
proof -
  obtain t s where t: "require_as_of as_of = Inr t" and s: "accepted_stream order (stream_of order events t) s"
    "a = aggregate_of order (stream_of order events t) s" using assms(2) by (auto simp: reduce_order_events_Inr)
  have m: "mset (visible_events order events t) = mset (visible_events order events' t)"
    using assms(1) by (simp add: visible_events_def)
  have "distinct (map oe_event_sequence (stream_of order events t))"
    using s(1) contiguous_from_distinct by (auto simp: accepted_stream_def)
  then have "distinct (map oe_event_sequence (visible_events order events t))"
    by (metis distinct_map_mset_cong mset_sort)
  then have "stream_of order events t = stream_of order events' t" by (rule order_log.sort_permutation [OF _ m])
  then show ?thesis using t s by (auto simp: reduce_order_events_Inr)
qed

theorem reduce_order_independent_witness:
  "\<exists>a. reduce_order_events (example_order ''o1'' BUY) example_events None = Inr a
     \<and> reduce_order_events (example_order ''o1'' BUY) (rev example_events) None = Inr a"
proof -
  have "case reduce_order_events (example_order ''o1'' BUY) example_events None of Inr a \<Rightarrow> True | Inl _ \<Rightarrow> False"
    by code_simp
  then obtain a where a: "reduce_order_events (example_order ''o1'' BUY) example_events None = Inr a"
    by (auto split: sum.splits)
  then show ?thesis using reduce_order_independent [OF _ a, of "rev example_events"] by auto
qed

text \<open>
  Every accepted event stream is a lifecycle: it starts with CREATED, CREATED does not
  occur again, and no event follows a terminal one. The status is the last of the lifecycle.
\<close>

theorem reduce_accepts_lifecycles:
  assumes "reduce_order_events order events None = Inr a"
  shows "\<exists>ts. mset ts = mset (map oe_event_type (visible_events order events None))
    \<and> lifecycle ts \<and> last ts = oa_status a \<and> hd ts = CREATED
    \<and> (\<forall>i. i + 1 < length ts \<longrightarrow> \<not> is_terminal_order_event (ts ! i))
    \<and> (\<forall>i < length ts. ts ! i = CREATED \<longrightarrow> i = 0)"
proof -
  let ?es = "stream_of order events None"
  obtain s where s: "accepted_stream order ?es s" "a = aggregate_of order ?es s"
    using assms by (auto simp: reduce_None_Inr)
  then have l: "lifecycle (map oe_event_type ?es)" and ne: "?es \<noteq> []"
    by (auto simp: accepted_stream_def intro: accepted_lifecycle)
  moreover have "last (map oe_event_type ?es) = oa_status a" using ne s(2) by (simp add: last_map aggregate_of_def)
  moreover have "mset (map oe_event_type ?es) = mset (map oe_event_type (visible_events order events None))" by simp
  ultimately show ?thesis
    using lifecycle_hd [OF l] lifecycle_terminal_last [OF l] lifecycle_created_once [OF l] by blast
qed

theorem reduce_accepts_lifecycles_witness:
  "\<exists>ts. mset ts = mset (map oe_event_type (visible_events (example_order ''o1'' BUY) example_events None))
    \<and> lifecycle ts \<and> last ts = PARTIALLY_FILLED"
proof -
  let ?r = "reduce_order_events (example_order ''o1'' BUY) example_events None"
  have "case ?r of Inr a \<Rightarrow> oa_status a = PARTIALLY_FILLED | Inl _ \<Rightarrow> False" by code_simp
  then obtain a where "?r = Inr a" "oa_status a = PARTIALLY_FILLED" by (auto split: sum.splits)
  then show ?thesis using reduce_accepts_lifecycles by metis
qed

text \<open>
  The soft stop cancels exactly the pending buys: after its events are appended no buy
  order is pending, every sell order and every buy that was not pending is in the state it was
  in, and only CANCELED_BY_RISK events are emitted.
\<close>

theorem soft_stop_cancels_pending_buys:
  assumes "soft_stop_buy_cancellations H orders events occurred_at available_at p cycle = Inr out"
    and "distinct (map od_order_intent_id orders)" "order \<in> set orders"
  shows "(od_side order = BUY \<longrightarrow> (\<exists>a. reduce_order_events order (events @ out) None = Inr a \<and> \<not> is_pending a))
    \<and> (od_side order = SELL \<longrightarrow>
         reduce_order_events order (events @ out) None = reduce_order_events order events None)
    \<and> (\<forall>e\<in>set out. oe_event_type e = CANCELED_BY_RISK)"
proof -
  let ?r = "status_request CANCELED_BY_RISK occurred_at available_at ''Q1_SOFT_STOP_BLOCK_NEW_BUYS'' cycle"
  obtain ps where ps: "pending_orders orders events None = Inr ps"
    and em: "emit_for H (\<lambda>a. od_side (oa_order a) = BUY) events ?r p ps [] = Inr out"
    using assms(1) by (auto simp: soft_stop_buy_cancellations_def result_simps)
  obtain a where a: "reduce_order_events order events None = Inr a" using pending_orders_Inr(1) [OF ps assms(3)] by auto
  note eff = emission_effect [OF ps em assms(2,3) a]
  have oa: "oa_order a = order" by (rule reduce_order [OF a])
  have "\<exists>b. reduce_order_events order (events @ out) None = Inr b \<and> \<not> is_pending b" if buy: "od_side order = BUY"
  proof (cases "is_pending a")
    case True
    then obtain b where "reduce_order_events order (events @ out) None = Inr b" "oa_status b = CANCELED_BY_RISK"
      using eff(1) buy oa by (auto simp: status_request_def)
    then show ?thesis by (auto simp: is_pending_def is_terminal_def)
  next
    case False
    then show ?thesis using eff(2) [of None] a by auto
  qed
  then show ?thesis using eff(2) [of None] eff(3) oa by (auto simp: status_request_def)
qed

theorem soft_stop_cancels_pending_buys_witness:
  "\<exists>out a. soft_stop_buy_cancellations digits_digest [example_order ''o1'' BUY, example_order ''o2'' SELL]
        example_events (Aware 20) (Aware 20) example_provenance ''cycle'' = Inr out
     \<and> reduce_order_events (example_order ''o1'' BUY) (example_events @ out) None = Inr a \<and> \<not> is_pending a"
proof -
  let ?os = "[example_order ''o1'' BUY, example_order ''o2'' SELL]"
  let ?r = "soft_stop_buy_cancellations digits_digest ?os example_events (Aware 20) (Aware 20) example_provenance ''cycle''"
  have "case ?r of Inr out \<Rightarrow> True | Inl _ \<Rightarrow> False" by code_simp
  then obtain out where out: "?r = Inr out" by (auto split: sum.splits)
  have "distinct (map od_order_intent_id ?os)" "od_side (example_order ''o1'' BUY) = BUY"
    by (simp_all add: example_order_def)
  then show ?thesis using soft_stop_cancels_pending_buys [OF out, of "example_order ''o1'' BUY"] out by auto
qed

text \<open>
  A new strategic target supersedes only pending orders of class NORMAL of an arm for
  which it has a normal replacement, and a pending sell only when the replacements sell at
  least its remaining quantity of the same symbol; those orders end in state SUPERSEDED and all
  others keep their state. Without normal replacements nothing is emitted.
\<close>

theorem supersede_touches_only_replaced:
  assumes "supersede_normal_orders H orders events new_orders occurred_at available_at p cycle = Inr out"
    and "distinct (map od_order_intent_id orders)" "order \<in> set orders"
    and "reduce_order_events order events None = Inr a"
    and "rs = filter (\<lambda>r. od_order_class r = NORMAL_ORDER) new_orders"
  shows "if is_pending a \<and> od_order_class order = NORMAL_ORDER \<and> od_arm_id order \<in> od_arm_id ` set rs
         \<and> (od_side order = SELL \<longrightarrow>
              dval (oa_remaining_quantity a) \<le> dval (dsum (replacement_sells rs (od_arm_id order) (od_symbol order))))
       then \<exists>b. reduce_order_events order (events @ out) None = Inr b \<and> oa_status b = SUPERSEDED
       else reduce_order_events order (events @ out) None = reduce_order_events order events None"
proof (cases "rs = []")
  case True
  then have "out = []" using assms(1,5) by (simp add: supersede_normal_orders_def)
  then show ?thesis using True by simp
next
  case False
  let ?r = "status_request SUPERSEDED occurred_at available_at ''REPLACED_BY_NEW_STRATEGIC_TARGET'' cycle"
  obtain ps where ps: "pending_orders orders events None = Inr ps"
    and em: "emit_for H (supersedable rs) events ?r p ps [] = Inr out"
    using assms(1) False by (auto simp: supersede_normal_orders_def Let_def result_simps assms(5))
  show ?thesis
    using emission_effect [OF ps em assms(2,3,4)] reduce_order [OF assms(4)]
    by (auto simp: supersedable_iff status_request_def)
qed

theorem supersede_touches_only_replaced_witness:
  "\<exists>out b. supersede_normal_orders digits_digest [example_order ''o1'' BUY, example_order ''o2'' SELL]
        example_events [example_order ''o3'' SELL] (Aware 20) (Aware 20) example_provenance ''cycle'' = Inr out
     \<and> reduce_order_events (example_order ''o2'' SELL) (example_events @ out) None = Inr b \<and> oa_status b = SUPERSEDED"
proof -
  let ?os = "[example_order ''o1'' BUY, example_order ''o2'' SELL]" and ?o = "example_order ''o2'' SELL"
  let ?new = "[example_order ''o3'' SELL]"
  let ?r = "supersede_normal_orders digits_digest ?os example_events ?new (Aware 20) (Aware 20) example_provenance ''cycle''"
  have "case ?r of Inr out \<Rightarrow> True | Inl _ \<Rightarrow> False" by code_simp
  then obtain out where out: "?r = Inr out" by (auto split: sum.splits)
  have "case reduce_order_events ?o example_events None of Inr a \<Rightarrow> is_pending a \<and> oa_remaining_quantity a = D 10 0 | Inl _ \<Rightarrow> False"
    by code_simp
  then obtain a where a: "reduce_order_events ?o example_events None = Inr a" "is_pending a" "oa_remaining_quantity a = D 10 0"
    by (auto split: sum.splits)
  have "dsum [D 10 0] = D 10 0" by code_simp
  then show ?thesis
    using supersede_touches_only_replaced [OF out _ _ a(1) refl] out a(2,3)
    by (auto simp: example_order_def replacement_sells_def)
qed

text \<open>
  Expiry at time t closes exactly the orders that are pending at t and whose validity
  ended before t (all pending ones at a market-close boundary): they end EXPIRED, every other
  order keeps its state.
\<close>

theorem expire_closes_exactly_overdue:
  assumes "expire_orders H orders events (Aware t) p cycle boundary = Inr out"
    and "distinct (map od_order_intent_id orders)" "order \<in> set orders"
  shows "\<exists>a. reduce_order_events order events (Some (Aware t)) = Inr a
    \<and> (if is_pending a \<and> (boundary \<or> od_valid_until order < t)
       then \<exists>b. reduce_order_events order (events @ out) None = Inr b \<and> oa_status b = EXPIRED
       else reduce_order_events order (events @ out) None = reduce_order_events order events None)"
proof -
  let ?sel = "\<lambda>a. \<not> (\<not> boundary \<and> t \<le> od_valid_until (oa_order a))"
  obtain ps where ps: "pending_orders orders events (Some (Aware t)) = Inr ps"
    and em: "emit_for H ?sel events (status_request EXPIRED (Aware t) (Aware t) ''ORDER_VALIDITY_WINDOW_ENDED'' cycle) p ps [] = Inr out"
    using assms(1) by (auto simp: expire_orders_def result_simps)
  obtain a where a: "reduce_order_events order events (Some (Aware t)) = Inr a"
    using pending_orders_Inr(1) [OF ps assms(3)] by auto
  show ?thesis
    using emission_effect(1,2) [OF ps em assms(2,3) a] a reduce_order [OF a]
    by (intro exI [of _ a]) (auto simp: status_request_def not_le)
qed

theorem expire_closes_exactly_overdue_witness:
  "\<exists>out. expire_orders digits_digest [example_order ''o1'' BUY] example_events (Aware 200) example_provenance ''cycle'' False = Inr out
     \<and> (\<exists>a. reduce_order_events (example_order ''o1'' BUY) example_events (Some (Aware 200)) = Inr a
    \<and> (if is_pending a \<and> (False \<or> od_valid_until (example_order ''o1'' BUY) < 200)
       then \<exists>b. reduce_order_events (example_order ''o1'' BUY) (example_events @ out) None = Inr b \<and> oa_status b = EXPIRED
       else reduce_order_events (example_order ''o1'' BUY) (example_events @ out) None
         = reduce_order_events (example_order ''o1'' BUY) example_events None))"
proof -
  let ?r = "expire_orders digits_digest [example_order ''o1'' BUY] example_events (Aware 200) example_provenance ''cycle'' False"
  have "case ?r of Inr out \<Rightarrow> True | Inl _ \<Rightarrow> False" by code_simp
  then obtain out where out: "?r = Inr out" by (auto split: sum.splits)
  show ?thesis using expire_closes_exactly_overdue [OF out, of "example_order ''o1'' BUY"] out by auto
qed

text \<open>
  The event book is accepted exactly when no event is orphaned and every order's stream
  reduces; the result then lists the aggregates in the order of the order ids.
\<close>

theorem order_book_validation:
  "validate_order_event_book orders events = Inr as \<longleftrightarrow>
     (\<forall>e\<in>set events. \<exists>order\<in>set orders. oe_order_intent_id e = od_order_intent_id order)
     \<and> list_all2 (\<lambda>order a. reduce_order_events order events None = Inr a) (sort_key od_order_intent_id orders) as"
proof -
  have "reduce_order_events order (filter (\<lambda>e. oe_order_intent_id e = od_order_intent_id order) events) None
      = reduce_order_events order events None" for order
    using reduce_visible [of order events] by (simp add: visible_events_def)
  then show ?thesis by (auto simp: validate_order_event_book_def rmap_eq_Inr)
qed

theorem order_book_validation_witness:
  "list_all2 (\<lambda>order a. reduce_order_events order example_events None = Inr a)
     (sort_key od_order_intent_id [example_order ''o2'' SELL, example_order ''o1'' BUY])
     (case validate_order_event_book [example_order ''o2'' SELL, example_order ''o1'' BUY] example_events of
        Inr as \<Rightarrow> as | Inl _ \<Rightarrow> [])"
proof -
  let ?r = "validate_order_event_book [example_order ''o2'' SELL, example_order ''o1'' BUY] example_events"
  have "case ?r of Inr as \<Rightarrow> True | Inl _ \<Rightarrow> False" by code_simp
  then obtain as where r: "?r = Inr as" by (auto split: sum.splits)
  then show ?thesis using iffD1 [OF order_book_validation r] by (simp only: sum.case)
qed

text \<open>
  A status event without fill can always be appended to a non-terminal order: with valid
  provenance, times that do not precede the order and identifiers that are not yet used, the
  call returns the event it describes.
\<close>

theorem status_append_succeeds:
  assumes "reduce_order_events order existing None = Inr a" "\<not> is_terminal a"
    and "\<And>e. e \<in> set existing \<Longrightarrow> 0 \<le> dval (oe_commission_delta_usd e)" "0 \<le> dval (od_quantity order)"
    and "ar_event_type r \<noteq> CREATED" "\<not> is_fill_type (ar_event_type r)"
    and "dval (ar_quantity_delta r) = 0" "dval (ar_commission_delta_usd r) = 0"
    and "ar_occurred_at r = Aware t1" "ar_available_at r = Aware t2" "t1 \<le> t2" "od_created_at order \<le> t1"
    and "provenance_fits p"
    and "e = build_event H order r p t1 t2 (oa_latest_event_sequence a + 1, oa_remaining_quantity a,
        oa_cumulative_filled_quantity a, oa_cumulative_commission_usd a)"
    and "fresh_event (visible_events order existing None) e"
  shows "append_order_event H order existing r p = Inr e"
  using assms by (rule append_status_Inr)

theorem status_append_succeeds_witness:
  "\<exists>e. append_order_event digits_digest (example_order ''o1'' BUY) example_events
     (example_request ACTIVE 9 0 0) example_provenance = Inr e"
proof -
  let ?o = "example_order ''o1'' BUY" and ?q = "example_request ACTIVE 9 0 0"
  let ?nxt = "\<lambda>a. (oa_latest_event_sequence a + 1, oa_remaining_quantity a, oa_cumulative_filled_quantity a,
      oa_cumulative_commission_usd a)"
  have "case reduce_order_events ?o example_events None of Inl _ \<Rightarrow> False | Inr a \<Rightarrow> \<not> is_terminal a
      \<and> fresh_event (visible_events ?o example_events None) (build_event digits_digest ?o ?q example_provenance 9 9 (?nxt a))"
    by code_simp
  then obtain a where a: "reduce_order_events ?o example_events None = Inr a" "\<not> is_terminal a"
    "fresh_event (visible_events ?o example_events None) (build_event digits_digest ?o ?q example_provenance 9 9 (?nxt a))"
    by (auto split: sum.splits)
  have "list_all (\<lambda>e. oe_commission_delta_usd e = 0) example_events" by code_simp
  then have "0 \<le> dval (oe_commission_delta_usd e)" if "e \<in> set example_events" for e
    using that by (simp add: list_all_iff)
  moreover have "provenance_fits example_provenance" by code_simp
  ultimately have "append_order_event digits_digest ?o example_events ?q example_provenance
      = Inr (build_event digits_digest ?o ?q example_provenance 9 9 (?nxt a))"
    by (intro status_append_succeeds [OF a(1,2) _ _ _ _ _ _ _ _ _ _ _ refl a(3)])
      (simp_all add: example_order_def example_request_def dval_simps)
  then show ?thesis by blast
qed

end
