(* ===== verification/Settlement.thy ===== *)
theory Settlement
  imports Domain Event_Log
begin

text \<open>
  Cash settlement, \<^verbatim>\<open>src/trading/settlement/service.py\<close>: the business calendar, the
  constructors of the four kinds of cash events, the settlement of due receivables and the
  replay that derives settled and unsettled cash from the events visible at a point in time.
  Shown: the calendar arithmetic, that settled cash never goes negative and a buy cannot spend
  unsettled proceeds, that cash is conserved exactly, and that settling is idempotent and
  moves exactly the due receivables.
\<close>

section \<open>Policy and calendar\<close>

record settlement_policy =
  sp_version :: string
  sp_calendar_version :: string
  sp_lag_business_sessions :: int

definition validate_settlement_policy :: "settlement_policy \<Rightarrow> settlement_policy result" where
  "validate_settlement_policy p =
     (if sp_version p = [] then Inl (SettlementError ''Settlement policy version is required'')
      else if sp_calendar_version p = []
      then Inl (SettlementError ''Settlement calendar version is required'')
      else if sp_lag_business_sessions p < 0
      then Inl (SettlementError ''Settlement lag cannot be negative'')
      else Inr p)"

record business_calendar =
  bc_version :: string
  bc_sessions :: "date list"

text \<open>\<^verbatim>\<open>tuple(sorted(set(sessions))) != sessions\<close>.\<close>

definition validate_business_calendar :: "business_calendar \<Rightarrow> business_calendar result" where
  "validate_business_calendar c =
     (if bc_version c = [] then Inl (SettlementError ''Business-calendar version is required'')
      else if bc_sessions c = []
      then Inl (SettlementError ''Business calendar must contain sessions'')
      else if sort (remdups (bc_sessions c)) \<noteq> bc_sessions c
      then Inl (SettlementError ''Business calendar sessions must be unique and strictly increasing'')
      else Inr c)"

text \<open>\<^verbatim>\<open>bisect.bisect_right\<close>: binary search for the insertion point after \<open>x\<close>.\<close>

function bisect_loop :: "('a::linorder) list \<Rightarrow> 'a \<Rightarrow> nat \<Rightarrow> nat \<Rightarrow> nat" where
  "bisect_loop xs x lo hi =
     (if lo < hi then
        let mid = (lo + hi) div 2 in
        if x < xs ! mid then bisect_loop xs x lo mid else bisect_loop xs x (mid + 1) hi
      else lo)"
  by pat_completeness auto
termination by (relation "measure (\<lambda>(xs, x, lo, hi). hi - lo)") auto

declare bisect_loop.simps [simp del]

definition bisect_right :: "('a::linorder) list \<Rightarrow> 'a \<Rightarrow> nat" where
  "bisect_right xs x = bisect_loop xs x 0 (length xs)"

definition require_session :: "business_calendar \<Rightarrow> date \<Rightarrow> unit result" where
  "require_session c d =
     (let idx = bisect_right (bc_sessions c) d in
      if idx = 0 \<or> bc_sessions c ! (idx - 1) \<noteq> d
      then Inl (SettlementError (date_iso d @ '' is not a calendar session''))
      else Inr ())"

definition add_business_sessions :: "business_calendar \<Rightarrow> date \<Rightarrow> int \<Rightarrow> date result" where
  "add_business_sessions c d n =
     (if n < 0 then Inl (SettlementError ''Business-session offset cannot be negative'')
      else
        rbind (require_session c d) (\<lambda>_.
          let start = int (bisect_right (bc_sessions c) d) - 1;
              target = start + n in
          if int (length (bc_sessions c)) \<le> target
          then Inl (SettlementError ''Business calendar does not cover settlement date'')
          else Inr (bc_sessions c ! nat target)))"

record settlement_provenance =
  sv_run_id :: string
  sv_source_cycle_id :: string
  sv_config_manifest_hash :: string
  sv_code_version :: string
  sv_model_version :: string
  sv_source_manifest_hash :: string
  sv_worker_fence_token :: string
  sv_cycle_attempt_count :: int

definition validate_settlement_provenance :: "settlement_provenance \<Rightarrow> settlement_provenance result" where
  "validate_settlement_provenance p =
     (if sv_run_id p = [] \<or> sv_source_cycle_id p = [] \<or> sv_config_manifest_hash p = []
         \<or> sv_code_version p = [] \<or> sv_model_version p = [] \<or> sv_source_manifest_hash p = []
         \<or> sv_worker_fence_token p = []
      then Inl (SettlementError ''Complete settlement provenance is required'')
      else if sv_cycle_attempt_count p \<le> 0
      then Inl (SettlementError ''Settlement cycle attempt must be positive'')
      else Inr p)"

section \<open>Balances\<close>

record cash_balances =
  cb_settled_cash_usd :: decimal
  cb_unsettled_receivables :: "(string \<times> decimal \<times> date) list"

definition validate_cash_balances :: "cash_balances \<Rightarrow> cash_balances result" where
  "validate_cash_balances b =
     (if cb_settled_cash_usd b < 0 then Inl (SettlementError ''Settled cash cannot be negative'')
      else if \<exists>r\<in>set (cb_unsettled_receivables b). fst (snd r) \<le> 0
      then Inl (SettlementError ''Unsettled receivables must be positive'')
      else Inr b)"

definition unsettled_receivables_usd :: "cash_balances \<Rightarrow> decimal" where
  "unsettled_receivables_usd b = dsum (map (\<lambda>r. fst (snd r)) (cb_unsettled_receivables b))"

definition total_cash_usd :: "cash_balances \<Rightarrow> decimal" where
  "total_cash_usd b = cb_settled_cash_usd b + unsettled_receivables_usd b"

section \<open>Event constructors\<close>

text \<open>The arguments of \<^verbatim>\<open>_event\<close> that differ between the constructors.\<close>

record cash_event_args =
  ca_arm_id :: q1_arm_id
  ca_event_type :: cash_settlement_event_type
  ca_receivable_id :: "string option"
  ca_source_fill_id :: "string option"
  ca_settled_delta :: decimal
  ca_unsettled_delta :: decimal
  ca_gross_amount :: decimal
  ca_commission :: decimal
  ca_trade_at :: "datetime option"
  ca_settlement_date :: "date option"
  ca_effective_at :: datetime
  ca_created_at :: datetime
  ca_calendar_session_id :: string

definition cash_event_identity ::
  "cash_event_args \<Rightarrow> settlement_policy \<Rightarrow> settlement_provenance \<Rightarrow> instant \<Rightarrow> (string \<times> pyval) list" where
  "cash_event_identity a policy p effective_at =
     [(''run_id'', VStr (sv_run_id p)),
      (''arm_id'', VStr (arm_value (ca_arm_id a))),
      (''event_type'', VStr (cash_event_type_value (ca_event_type a))),
      (''receivable_id'', vopt VStr (ca_receivable_id a)),
      (''source_fill_id'', vopt VStr (ca_source_fill_id a)),
      (''settled_delta'', VDec (ca_settled_delta a)),
      (''unsettled_delta'', VDec (ca_unsettled_delta a)),
      (''effective_at'', VTime effective_at),
      (''policy_version'', VStr (sp_version policy)),
      (''source_cycle_id'', VStr (sv_source_cycle_id p))]"

definition build_cash_event ::
  "digest \<Rightarrow> cash_event_args \<Rightarrow> settlement_policy \<Rightarrow> settlement_provenance
    \<Rightarrow> instant \<Rightarrow> instant option \<Rightarrow> instant \<Rightarrow> cash_settlement_event" where
  "build_cash_event H a policy p effective_at trade_at created_at =
     (let ident = cash_event_identity a policy p effective_at;
          event_id = stable_id H ''q1-cash-event'' [VDict ident];
          content = ident @
            [(''gross_amount'', VDec (ca_gross_amount a)),
             (''commission'', VDec (ca_commission a)),
             (''trade_at'', vopt VTime trade_at),
             (''settlement_date'', vopt VDate (ca_settlement_date a)),
             (''calendar_session_id'', VStr (ca_calendar_session_id a)),
             (''config_manifest_hash'', VStr (sv_config_manifest_hash p)),
             (''code_version'', VStr (sv_code_version p)),
             (''model_version'', VStr (sv_model_version p)),
             (''source_manifest_hash'', VStr (sv_source_manifest_hash p))] in
      \<lparr>vr_algorithm_version = Q1_ALGORITHM_VERSION,
       vr_config_manifest_hash = sv_config_manifest_hash p, vr_code_version = sv_code_version p,
       vr_model_version = sv_model_version p, vr_source_manifest_hash = sv_source_manifest_hash p,
       cs_cash_settlement_event_id = event_id, cs_run_id = sv_run_id p, cs_arm_id = ca_arm_id a,
       cs_event_type = ca_event_type a, cs_receivable_id = ca_receivable_id a,
       cs_source_fill_id = ca_source_fill_id a, cs_settlement_policy_version = sp_version policy,
       cs_currency = ''USD'', cs_settled_cash_delta_usd = ca_settled_delta a,
       cs_unsettled_receivable_delta_usd = ca_unsettled_delta a,
       cs_gross_amount_usd = ca_gross_amount a, cs_commission_usd = ca_commission a,
       cs_trade_at = trade_at, cs_settlement_date = ca_settlement_date a,
       cs_effective_at = effective_at, cs_calendar_session_id = ca_calendar_session_id a,
       cs_source_cycle_id = sv_source_cycle_id p, cs_worker_fence_token = sv_worker_fence_token p,
       cs_cycle_attempt_count = sv_cycle_attempt_count p,
       cs_idempotency_key = stable_id H ''q1-cash-idem'' [VStr event_id],
       cs_event_hash = canonical_hash H (VDict content), cs_created_at = created_at\<rparr>)"

text \<open>
  The identity is hashed first, then the content; both canonicalizations reject naive
  datetimes, the record itself a naive \<open>created_at\<close>.
\<close>

definition cash_event ::
  "digest \<Rightarrow> cash_event_args \<Rightarrow> settlement_policy \<Rightarrow> settlement_provenance \<Rightarrow> cash_settlement_event result" where
  "cash_event H a policy p =
     rbind (canonical_time (ca_effective_at a)) (\<lambda>effective_at.
     rbind (opt_result canonical_time (ca_trade_at a)) (\<lambda>trade_at.
     rbind (field_time (ca_created_at a)) (\<lambda>created_at.
       validate_cash_settlement_event (build_cash_event H a policy p effective_at trade_at created_at))))"

definition record_opening_settled_cash ::
  "digest \<Rightarrow> q1_arm_id \<Rightarrow> decimal \<Rightarrow> datetime \<Rightarrow> datetime \<Rightarrow> string \<Rightarrow> settlement_policy
    \<Rightarrow> settlement_provenance \<Rightarrow> cash_settlement_event result" where
  "record_opening_settled_cash H arm_id amount effective_at created_at session_id policy p =
     (if amount < 0 then Inl (SettlementError ''Opening settled cash cannot be negative'')
      else cash_event H
        \<lparr>ca_arm_id = arm_id, ca_event_type = OPENING_SETTLED_CASH, ca_receivable_id = None,
         ca_source_fill_id = None, ca_settled_delta = amount, ca_unsettled_delta = 0,
         ca_gross_amount = amount, ca_commission = 0, ca_trade_at = None, ca_settlement_date = None,
         ca_effective_at = effective_at, ca_created_at = created_at,
         ca_calendar_session_id = session_id\<rparr> policy p)"

definition record_buy_cash_debit ::
  "digest \<Rightarrow> q1_arm_id \<Rightarrow> string \<Rightarrow> datetime \<Rightarrow> decimal \<Rightarrow> decimal \<Rightarrow> datetime \<Rightarrow> string
    \<Rightarrow> settlement_policy \<Rightarrow> settlement_provenance \<Rightarrow> cash_settlement_event result" where
  "record_buy_cash_debit H arm_id fill_id trade_at notional commission created_at session_id policy p =
     (if notional \<le> 0 \<or> commission < 0
      then Inl (SettlementError ''BUY fill notional must be positive and commission non-negative'')
      else cash_event H
        \<lparr>ca_arm_id = arm_id, ca_event_type = BUY_SETTLED_CASH_DEBIT, ca_receivable_id = None,
         ca_source_fill_id = Some fill_id, ca_settled_delta = - (notional + commission),
         ca_unsettled_delta = 0, ca_gross_amount = notional, ca_commission = commission,
         ca_trade_at = Some trade_at, ca_settlement_date = None, ca_effective_at = trade_at,
         ca_created_at = created_at, ca_calendar_session_id = session_id\<rparr> policy p)"

definition validate_policy_calendar :: "settlement_policy \<Rightarrow> business_calendar \<Rightarrow> unit result" where
  "validate_policy_calendar policy c =
     (if sp_calendar_version policy \<noteq> bc_version c
      then Inl (SettlementError ''Settlement policy and calendar versions differ'') else Inr ())"

definition record_sell_receivable ::
  "digest \<Rightarrow> q1_arm_id \<Rightarrow> string \<Rightarrow> datetime \<Rightarrow> date \<Rightarrow> decimal \<Rightarrow> decimal \<Rightarrow> datetime \<Rightarrow> string
    \<Rightarrow> settlement_policy \<Rightarrow> business_calendar \<Rightarrow> settlement_provenance \<Rightarrow> cash_settlement_event result" where
  "record_sell_receivable H arm_id fill_id trade_at trade_session notional commission created_at session_id policy c p =
     rbind (validate_policy_calendar policy c) (\<lambda>_.
     rbind (require_session c trade_session) (\<lambda>_.
       if notional \<le> 0 \<or> commission < 0
       then Inl (SettlementError ''SELL fill notional must be positive and commission non-negative'')
       else
         let net_proceeds = notional - commission in
         if net_proceeds \<le> 0 then Inl (SettlementError ''SELL net proceeds must be positive'')
         else
           rbind (add_business_sessions c trade_session (sp_lag_business_sessions policy)) (\<lambda>settlement_date.
             let receivable_id = stable_id H ''q1-receivable''
                   [VStr (sv_run_id p), VStr (arm_value arm_id), VStr fill_id, VStr (sp_version policy)] in
             cash_event H
               \<lparr>ca_arm_id = arm_id, ca_event_type = SELL_RECEIVABLE_CREATED,
                ca_receivable_id = Some receivable_id, ca_source_fill_id = Some fill_id,
                ca_settled_delta = 0, ca_unsettled_delta = net_proceeds, ca_gross_amount = notional,
                ca_commission = commission, ca_trade_at = Some trade_at,
                ca_settlement_date = Some settlement_date, ca_effective_at = trade_at,
                ca_created_at = created_at, ca_calendar_session_id = session_id\<rparr> policy p)))"

section \<open>Settling and replaying\<close>

definition validate_unique_events :: "cash_settlement_event list \<Rightarrow> unit result" where
  "validate_unique_events events =
     (if has_duplicates (map cs_cash_settlement_event_id events)
      then Inl (SettlementError ''Duplicate cash-settlement event ID'')
      else if has_duplicates (map cs_idempotency_key events)
      then Inl (SettlementError ''Duplicate cash-settlement idempotency key'')
      else Inr ())"

text \<open>The dictionary comprehension over SELL_RECEIVABLE_CREATED events.\<close>

definition add_created ::
  "cash_settlement_event \<Rightarrow> (string, cash_settlement_event) dict \<Rightarrow> (string, cash_settlement_event) dict" where
  "add_created e d =
     (if cs_event_type e = SELL_RECEIVABLE_CREATED
      then (case cs_receivable_id e of None \<Rightarrow> d | Some rid \<Rightarrow> AList.update rid e d)
      else d)"

definition created_by_receivable :: "cash_settlement_event list \<Rightarrow> (string, cash_settlement_event) dict" where
  "created_by_receivable events = fold add_created events []"

definition already_settled :: "cash_settlement_event list \<Rightarrow> string option list" where
  "already_settled events =
     map cs_receivable_id (filter (\<lambda>e. cs_event_type e = RECEIVABLE_SETTLED) events)"

definition is_due :: "cash_settlement_event list \<Rightarrow> date \<Rightarrow> string \<times> cash_settlement_event \<Rightarrow> bool" where
  "is_due events through r \<longleftrightarrow>
     \<not> (Some (fst r) \<in> set (already_settled events)
        \<or> (case cs_settlement_date (snd r) of None \<Rightarrow> True | Some d \<Rightarrow> through < d))"

definition settlement_args ::
  "datetime \<Rightarrow> datetime \<Rightarrow> string \<Rightarrow> string \<times> cash_settlement_event \<Rightarrow> cash_event_args" where
  "settlement_args effective_at created_at session_id r =
     (case r of (rid, src) \<Rightarrow>
        \<lparr>ca_arm_id = cs_arm_id src, ca_event_type = RECEIVABLE_SETTLED, ca_receivable_id = Some rid,
         ca_source_fill_id = cs_source_fill_id src,
         ca_settled_delta = cs_unsettled_receivable_delta_usd src,
         ca_unsettled_delta = - cs_unsettled_receivable_delta_usd src,
         ca_gross_amount = cs_gross_amount_usd src, ca_commission = cs_commission_usd src,
         ca_trade_at = map_option Aware (cs_trade_at src), ca_settlement_date = cs_settlement_date src,
         ca_effective_at = effective_at, ca_created_at = created_at,
         ca_calendar_session_id = session_id\<rparr>)"

definition settle_due_receivables ::
  "digest \<Rightarrow> cash_settlement_event list \<Rightarrow> date \<Rightarrow> datetime \<Rightarrow> datetime \<Rightarrow> string \<Rightarrow> settlement_policy
    \<Rightarrow> business_calendar \<Rightarrow> settlement_provenance \<Rightarrow> cash_settlement_event list result" where
  "settle_due_receivables H events through effective_at created_at session_id policy c p =
     rbind (validate_policy_calendar policy c) (\<lambda>_.
     rbind (require_session c through) (\<lambda>_.
     rbind (require_aware_utc ''datetime'' effective_at) (\<lambda>_.
     rbind (require_aware_utc ''datetime'' created_at) (\<lambda>_.
     rbind (validate_unique_events events) (\<lambda>_.
       rmap (\<lambda>r. cash_event H (settlement_args effective_at created_at session_id r) policy p)
         (filter (is_due events through) (sorted_items (created_by_receivable events))))))))"

fun event_order :: "cash_settlement_event_type \<Rightarrow> nat" where
  "event_order OPENING_SETTLED_CASH = 0"
| "event_order BUY_SETTLED_CASH_DEBIT = 1"
| "event_order SELL_RECEIVABLE_CREATED = 2"
| "event_order RECEIVABLE_SETTLED = 3"

definition cash_event_key :: "cash_settlement_event \<Rightarrow> instant \<times> nat \<times> string" where
  "cash_event_key e = (cs_effective_at e, event_order (cs_event_type e), cs_cash_settlement_event_id e)"

type_synonym cash_state = "decimal \<times> (string, decimal \<times> date) dict"

text \<open>One iteration: settled cash, then the receivable, then the check for overspending.\<close>

definition apply_receivable ::
  "cash_settlement_event \<Rightarrow> (string, decimal \<times> date) dict \<Rightarrow> (string, decimal \<times> date) dict result" where
  "apply_receivable e receivables =
     (if cs_event_type e = SELL_RECEIVABLE_CREATED then
        (case (cs_receivable_id e, cs_settlement_date e) of
           (Some rid, Some d) \<Rightarrow>
             if dict_has receivables rid
             then Inl (SettlementError ''SELL fill created more than one receivable'')
             else Inr (AList.update rid (cs_unsettled_receivable_delta_usd e, d) receivables)
         | _ \<Rightarrow> Inl (SettlementError ''SELL receivable has incomplete identity''))
      else if cs_event_type e = RECEIVABLE_SETTLED then
        (case cs_receivable_id e of
           None \<Rightarrow> Inl (SettlementError ''Settlement event has no receivable identity'')
         | Some rid \<Rightarrow>
             (case map_of receivables rid of
                None \<Rightarrow> Inl (SettlementError ''Settlement event has no open receivable'')
              | Some (amount, d) \<Rightarrow>
                  if \<not> d_eq amount (- cs_unsettled_receivable_delta_usd e)
                  then Inl (SettlementError ''Settlement amount differs from receivable'')
                  else Inr (AList.delete rid receivables)))
      else Inr receivables)"

definition apply_cash_event :: "cash_settlement_event \<Rightarrow> cash_state \<Rightarrow> cash_state result" where
  "apply_cash_event e s =
     (case s of (settled, receivables) \<Rightarrow>
        let settled' = settled + cs_settled_cash_delta_usd e in
        rbind (apply_receivable e receivables) (\<lambda>receivables'.
          if settled' < 0
          then Inl (SettlementError ''BUY fill would consume more than settled cash'')
          else Inr (settled', receivables')))"

definition visible_cash_events :: "cash_settlement_event list \<Rightarrow> instant \<Rightarrow> cash_settlement_event list" where
  "visible_cash_events events t = filter (\<lambda>e. cs_effective_at e \<le> t \<and> cs_created_at e \<le> t) events"

definition apply_settlement_events :: "cash_settlement_event list \<Rightarrow> datetime \<Rightarrow> cash_balances result" where
  "apply_settlement_events events as_of =
     rbind (require_aware_utc ''datetime'' as_of) (\<lambda>t.
     rbind (validate_unique_events events) (\<lambda>_.
     rbind (rfold apply_cash_event (sort_key cash_event_key (visible_cash_events events t)) (0, [])) (\<lambda>s.
       case s of (settled, receivables) \<Rightarrow>
         validate_cash_balances
           \<lparr>cb_settled_cash_usd = settled,
            cb_unsettled_receivables =
              map (\<lambda>(rid, a, d). (rid, a, d)) (sorted_items receivables)\<rparr>)))"

section \<open>The calendar\<close>

lemma bisect_loop_spec:
  assumes "sorted xs" "lo \<le> hi" "hi \<le> length xs"
    and "\<And>i. i < lo \<Longrightarrow> xs ! i \<le> x" "\<And>i. hi \<le> i \<Longrightarrow> i < length xs \<Longrightarrow> x < xs ! i"
  shows "bisect_loop xs x lo hi \<le> length xs
    \<and> (\<forall>i < bisect_loop xs x lo hi. xs ! i \<le> x)
    \<and> (\<forall>i. bisect_loop xs x lo hi \<le> i \<longrightarrow> i < length xs \<longrightarrow> x < xs ! i)"
  using assms
proof (induction xs x lo hi rule: bisect_loop.induct)
  case (1 xs x lo hi)
  show ?case
  proof (cases "lo < hi")
    case True
    define mid where "mid = (lo + hi) div 2"
    have mid: "lo \<le> mid" "mid < hi" using True by (auto simp: mid_def)
    show ?thesis
    proof (cases "x < xs ! mid")
      case less: True
      have up: "x < xs ! i" if "mid \<le> i" "i < length xs" for i
        using less sorted_nth_mono [OF 1(3), of mid i] that by auto
      have "bisect_loop xs x lo hi = bisect_loop xs x lo mid"
        using True less by (simp add: bisect_loop.simps [of xs x lo hi] mid_def Let_def)
      moreover note 1(1) [OF True mid_def less 1(3) mid(1) _ 1(6) up]
      ultimately show ?thesis using mid(2) 1(5) by simp
    next
      case ge: False
      have down: "xs ! i \<le> x" if "i < mid + 1" for i
        using ge sorted_nth_mono [OF 1(3), of i mid] mid(2) 1(5) that by force
      have "bisect_loop xs x lo hi = bisect_loop xs x (mid + 1) hi"
        using True ge by (simp add: bisect_loop.simps [of xs x lo hi] mid_def Let_def)
      moreover note 1(2) [OF True mid_def ge 1(3) _ 1(5) down 1(7)]
      ultimately show ?thesis using mid(2) by simp
    qed
  next
    case False
    then have "bisect_loop xs x lo hi = lo" by (simp add: bisect_loop.simps)
    then show ?thesis using False 1(4-7) by simp
  qed
qed

lemma bisect_right_spec:
  assumes "sorted xs"
  shows "bisect_right xs x \<le> length xs" "i < bisect_right xs x \<Longrightarrow> xs ! i \<le> x"
    and "bisect_right xs x \<le> i \<Longrightarrow> i < length xs \<Longrightarrow> x < xs ! i"
  using bisect_loop_spec [OF assms, of 0 "length xs" x] by (auto simp: bisect_right_def)

text \<open>What the calendar's constructor guarantees.\<close>

definition valid_calendar :: "business_calendar \<Rightarrow> bool" where
  "valid_calendar c \<longleftrightarrow> sorted (bc_sessions c) \<and> distinct (bc_sessions c)"

lemma validate_business_calendar_Inr: "validate_business_calendar c = Inr c' \<Longrightarrow> c' = c \<and> valid_calendar c"
proof -
  assume "validate_business_calendar c = Inr c'"
  then have "c' = c" "sort (remdups (bc_sessions c)) = bc_sessions c"
    by (auto simp: validate_business_calendar_def split: if_splits)
  then show ?thesis unfolding valid_calendar_def by (metis distinct_remdups distinct_sort sorted_sort)
qed

lemma bisect_session:
  assumes "valid_calendar c" "i < length (bc_sessions c)" "bc_sessions c ! i = d"
  shows "bisect_right (bc_sessions c) d = i + 1"
proof -
  let ?xs = "bc_sessions c" and ?b = "bisect_right (bc_sessions c) d"
  have s: "sorted ?xs" "distinct ?xs" using assms(1) by (simp_all add: valid_calendar_def)
  note b = bisect_right_spec [OF s(1), where x = d]
  have "i < ?b" using b(3) [of i] assms(2,3) by force
  moreover have "\<not> i + 1 < ?b"
  proof
    assume lt: "i + 1 < ?b"
    then have "i + 1 < length ?xs" using b(1) by simp
    then have "?xs ! i < ?xs ! (i + 1)"
      using s sorted_nth_mono [OF s(1), of i "i + 1"] nth_eq_iff_index_eq [OF s(2), of i "i + 1"] by force
    then show False using b(2) [OF lt] assms(3) by simp
  qed
  ultimately show ?thesis by simp
qed

lemma require_session_Inr:
  assumes "valid_calendar c"
  shows "require_session c d = Inr u \<longleftrightarrow> d \<in> set (bc_sessions c)"
proof
  let ?b = "bisect_right (bc_sessions c) d"
  have le: "?b \<le> length (bc_sessions c)"
    using bisect_right_spec(1) assms by (auto simp: valid_calendar_def)
  assume "require_session c d = Inr u"
  then have "?b \<noteq> 0" "bc_sessions c ! (?b - 1) = d" by (auto simp: require_session_def Let_def split: if_splits)
  then show "d \<in> set (bc_sessions c)" using le nth_mem [of "?b - 1" "bc_sessions c"] by simp
next
  assume "d \<in> set (bc_sessions c)"
  then obtain i where "i < length (bc_sessions c)" "bc_sessions c ! i = d" by (auto simp: in_set_conv_nth)
  then show "require_session c d = Inr u"
    using bisect_session [OF assms, of i d] by (simp add: require_session_def)
qed

lemma add_business_sessions_Inr:
  assumes "valid_calendar c"
  shows "add_business_sessions c d n = Inr d' \<longleftrightarrow>
    0 \<le> n \<and> (\<exists>i. i + nat n < length (bc_sessions c) \<and> bc_sessions c ! i = d \<and> bc_sessions c ! (i + nat n) = d')"
    (is "?L \<longleftrightarrow> ?R")
proof
  assume ?L
  then have "0 \<le> n" "require_session c d = Inr ()"
    by (auto simp: add_business_sessions_def result_simps split: if_splits)
  moreover obtain i where i: "i < length (bc_sessions c)" "bc_sessions c ! i = d"
    using \<open>require_session c d = Inr ()\<close> by (auto simp: require_session_Inr [OF assms] in_set_conv_nth)
  ultimately show ?R
    using \<open>?L\<close> bisect_session [OF assms i]
    by (intro conjI exI [of _ i]) (auto simp: add_business_sessions_def Let_def nat_add_distrib split: if_splits)
next
  assume ?R
  then obtain i where i: "0 \<le> n" "i + nat n < length (bc_sessions c)" "bc_sessions c ! i = d"
    "bc_sessions c ! (i + nat n) = d'" by auto
  then have b: "bisect_right (bc_sessions c) d = i + 1" by (intro bisect_session [OF assms]) auto
  have "require_session c d = Inr ()" using i b by (simp add: require_session_def)
  then show ?L using i b by (simp add: add_business_sessions_def Let_def nat_add_distrib)
qed

section \<open>The replay of cash events\<close>

text \<open>Non-negative settled cash and one entry per open receivable.\<close>

definition cash_inv :: "cash_state \<Rightarrow> bool" where
  "cash_inv s \<longleftrightarrow> 0 \<le> dval (fst s) \<and> distinct (map fst (snd s))"

lemma apply_cash_event_Inr:
  "apply_cash_event e (settled, r) = Inr (settled', r') \<longleftrightarrow>
     settled' = settled + cs_settled_cash_delta_usd e \<and> 0 \<le> dval settled' \<and> apply_receivable e r = Inr r'"
  by (auto simp: apply_cash_event_def Let_def result_simps less_decimal_dval not_less split: if_splits)

lemma apply_receivable_cases:
  assumes "apply_receivable e r = Inr r'"
  obtains
    (created) rid d where "cs_event_type e = SELL_RECEIVABLE_CREATED" "cs_receivable_id e = Some rid"
      "cs_settlement_date e = Some d" "map_of r rid = None"
      "r' = AList.update rid (cs_unsettled_receivable_delta_usd e, d) r"
  | (settled) rid a d where "cs_event_type e = RECEIVABLE_SETTLED" "cs_receivable_id e = Some rid"
      "map_of r rid = Some (a, d)" "dval a = dval (- cs_unsettled_receivable_delta_usd e)" "r' = AList.delete rid r"
  | (other) "cs_event_type e \<noteq> SELL_RECEIVABLE_CREATED" "cs_event_type e \<noteq> RECEIVABLE_SETTLED" "r' = r"
  using assms
  by (auto simp: apply_receivable_def dict_has_def d_eq_dval simp del: not_None_eq split_paired_All
      split: if_splits option.splits)

lemma apply_receivable_distinct:
  "apply_receivable e r = Inr r' \<Longrightarrow> distinct (map fst r) \<Longrightarrow> distinct (map fst r')"
  by (erule apply_receivable_cases) (auto simp: AList.distinct_update AList.distinct_delete)

interpretation cash_log: invariant_replay cash_event_key apply_cash_event "(0, [])"
    "\<lambda>es. distinct (map cs_cash_settlement_event_id es)" cash_inv
proof
  show "distinct (map cash_event_key es)" if "distinct (map cs_cash_settlement_event_id es)" for es
    using that by (auto simp: distinct_map inj_on_def cash_event_key_def)
  show "distinct (map cs_cash_settlement_event_id es')"
    if "mset es = mset es'" "distinct (map cs_cash_settlement_event_id es)" for es es'
    using that by (metis distinct_map_mset_cong)
  show "cash_inv (0, [])" by (simp add: cash_inv_def)
  show "cash_inv s'" if "cash_inv s" "apply_cash_event e s = Inr s'" for s e s'
    using that by (cases s; cases s') (auto simp: cash_inv_def apply_cash_event_Inr intro: apply_receivable_distinct)
qed

lemma validate_unique_events_Inr:
  "validate_unique_events es = Inr u \<longleftrightarrow>
     distinct (map cs_cash_settlement_event_id es) \<and> distinct (map cs_idempotency_key es)"
  by (simp add: validate_unique_events_def has_duplicates_def)

abbreviation cash_stream :: "cash_settlement_event list \<Rightarrow> instant \<Rightarrow> cash_settlement_event list" where
  "cash_stream events t \<equiv> sort_key cash_event_key (visible_cash_events events t)"

lemma apply_settlement_events_Inr:
  "apply_settlement_events events (Aware t) = Inr b \<longleftrightarrow>
     (\<exists>r. validate_unique_events events = Inr ()
       \<and> rfold apply_cash_event (cash_stream events t) (0, []) = Inr (cb_settled_cash_usd b, r)
       \<and> cb_unsettled_receivables b = sorted_items r \<and> 0 \<le> dval (cb_settled_cash_usd b)
       \<and> (\<forall>x\<in>set r. 0 < dval (fst (snd x))))"
proof -
  have m: "map (\<lambda>(rid, a, d). (rid, a, d)) r = r" for r :: "(string, decimal \<times> date) dict"
    by (induction r) auto
  have v: "validate_cash_balances \<lparr>cb_settled_cash_usd = s, cb_unsettled_receivables = sorted_items r\<rparr> = Inr b \<longleftrightarrow>
      b = \<lparr>cb_settled_cash_usd = s, cb_unsettled_receivables = sorted_items r\<rparr> \<and> 0 \<le> dval s \<and> (\<forall>x\<in>set r. 0 < dval (fst (snd x)))"
    for s r by (auto simp: validate_cash_balances_def dval_simps sorted_items_def not_less not_le)
  have "b = \<lparr>cb_settled_cash_usd = s, cb_unsettled_receivables = x\<rparr> \<longleftrightarrow>
      cb_settled_cash_usd b = s \<and> cb_unsettled_receivables b = x" for s x
    by (cases b) auto
  then show ?thesis
    by (auto simp: apply_settlement_events_def result_simps m v simp del: split_paired_Ex)
qed

lemma settled_sum:
  "rfold apply_cash_event es (s, r) = Inr (s', r') \<Longrightarrow> s' = foldl (+) s (map cs_settled_cash_delta_usd es)"
  by (induction es arbitrary: s r) (auto simp: result_simps apply_cash_event_Inr)

section \<open>Conservation\<close>

definition receivable_total :: "(string, decimal \<times> date) dict \<Rightarrow> rat" where
  "receivable_total r = (\<Sum>x\<leftarrow>r. dval (fst (snd x)))"

lemma receivable_total_update:
  "map_of r rid = None \<Longrightarrow> receivable_total (AList.update rid (a, d) r) = receivable_total r + dval a"
  by (induction r) (auto simp: receivable_total_def split: if_splits)

lemma receivable_total_delete:
  "distinct (map fst r) \<Longrightarrow> map_of r rid = Some (a, d) \<Longrightarrow>
     receivable_total (AList.delete rid r) = receivable_total r - dval a"
proof (induction r)
  case (Cons x r)
  show ?case
  proof (cases "fst x = rid")
    case True
    then have "rid \<notin> fst ` set r" using Cons.prems(1) by auto
    then have "AList.delete rid r = r" by (auto simp: AList.delete_eq image_iff intro!: filter_True)
    then show ?thesis using True Cons.prems(2) by (cases x) (auto simp: receivable_total_def)
  qed (use Cons in \<open>cases x; auto simp: receivable_total_def\<close>)
qed simp

text \<open>
  Events whose amounts lie on the grid; events that concern no receivable do not move
  unsettled cash.
\<close>

definition grid_event :: "int \<Rightarrow> cash_settlement_event \<Rightarrow> bool" where
  "grid_event g e \<longleftrightarrow>
     on_grid g (dval (cs_settled_cash_delta_usd e)) \<and> on_grid g (dval (cs_unsettled_receivable_delta_usd e))
     \<and> \<bar>dval (cs_unsettled_receivable_delta_usd e)\<bar> \<le> pow10 (g + int prec)
     \<and> (cs_event_type e = OPENING_SETTLED_CASH \<or> cs_event_type e = BUY_SETTLED_CASH_DEBIT
          \<longrightarrow> dval (cs_unsettled_receivable_delta_usd e) = 0)"

lemma dval_uminus_grid:
  "on_grid g (dval a) \<Longrightarrow> \<bar>dval a\<bar> \<le> pow10 (g + int prec) \<Longrightarrow> dval (- a) = - dval a"
  by (simp add: dval_uminus ctx_grid)

lemma receivable_total_step:
  assumes "apply_receivable e r = Inr r'" "distinct (map fst r)" "grid_event g e"
  shows "receivable_total r' = receivable_total r + dval (cs_unsettled_receivable_delta_usd e)"
    and "(\<forall>x\<in>set r. on_grid g (dval (fst (snd x)))) \<Longrightarrow> \<forall>x\<in>set r'. on_grid g (dval (fst (snd x)))"
proof -
  have neg: "dval (- cs_unsettled_receivable_delta_usd e) = - dval (cs_unsettled_receivable_delta_usd e)"
    using assms(3) by (intro dval_uminus_grid) (auto simp: grid_event_def)
  from assms(1) show "receivable_total r' = receivable_total r + dval (cs_unsettled_receivable_delta_usd e)"
  proof (cases rule: apply_receivable_cases)
    case (settled rid a d)
    then show ?thesis using receivable_total_delete [OF assms(2) settled(3)] neg by simp
  next
    case other
    then have "dval (cs_unsettled_receivable_delta_usd e) = 0"
      using assms(3) by (cases "cs_event_type e") (auto simp: grid_event_def)
    then show ?thesis using other by simp
  qed (simp add: receivable_total_update)
  assume "\<forall>x\<in>set r. on_grid g (dval (fst (snd x)))"
  with assms(1) show "\<forall>x\<in>set r'. on_grid g (dval (fst (snd x)))"
  proof (cases rule: apply_receivable_cases)
    case (created rid d)
    have "set (AList.update rid v r) \<subseteq> insert (rid, v) (set r)" for v :: "decimal \<times> date"
      by (induction r) auto
    then show ?thesis
      using created \<open>\<forall>x\<in>set r. _\<close> assms(3) by (fastforce simp: grid_event_def)
  next
    case (settled rid a d)
    then show ?thesis using \<open>\<forall>x\<in>set r. _\<close> by (auto simp: AList.delete_eq)
  qed simp
qed

lemma receivable_total_rfold:
  assumes "rfold apply_cash_event es (s, r) = Inr (s', r')" "distinct (map fst r)"
    and "\<And>e. e \<in> set es \<Longrightarrow> grid_event g e" "\<forall>x\<in>set r. on_grid g (dval (fst (snd x)))"
  shows "receivable_total r' = receivable_total r + (\<Sum>e\<leftarrow>es. dval (cs_unsettled_receivable_delta_usd e))
    \<and> (\<forall>x\<in>set r'. on_grid g (dval (fst (snd x))))"
  using assms
proof (induction es arbitrary: s r)
  case (Cons e es)
  then obtain s1 r1 where 1: "apply_cash_event e (s, r) = Inr (s1, r1)" "rfold apply_cash_event es (s1, r1) = Inr (s', r')"
    by (auto simp: result_simps)
  then have "apply_receivable e r = Inr r1" by (simp add: apply_cash_event_Inr)
  moreover from this have "distinct (map fst r1)" using Cons.prems(2) by (rule apply_receivable_distinct)
  moreover have "grid_event g e" using Cons.prems(3) by simp
  ultimately have "receivable_total r1 = receivable_total r + dval (cs_unsettled_receivable_delta_usd e)"
    "\<forall>x\<in>set r1. on_grid g (dval (fst (snd x)))" "distinct (map fst r1)"
    using receivable_total_step [of e r r1 g] Cons.prems(2,4) by blast+
  then show ?case using Cons.IH [OF 1(2)] Cons.prems(3) by (simp add: add.assoc)
qed simp

text \<open>All cash moved by the events visible at \<open>t\<close>.\<close>

definition net_cash :: "cash_settlement_event list \<Rightarrow> rat" where
  "net_cash es = (\<Sum>e\<leftarrow>es. dval (cs_settled_cash_delta_usd e) + dval (cs_unsettled_receivable_delta_usd e))"

definition gross_cash :: "cash_settlement_event list \<Rightarrow> rat" where
  "gross_cash es = (\<Sum>e\<leftarrow>es. \<bar>dval (cs_settled_cash_delta_usd e)\<bar> + \<bar>dval (cs_unsettled_receivable_delta_usd e)\<bar>)"

lemma sum_list_abs_le: "\<bar>\<Sum>x\<leftarrow>xs. f x\<bar> \<le> (\<Sum>x\<leftarrow>xs. \<bar>f x :: rat\<bar>)"
  using sum_list_abs [of "map f xs"] by (simp add: comp_def)

lemma replay_balances:
  assumes rf: "rfold apply_cash_event es (0, []) = Inr (s, r)"
    and g: "\<And>e. e \<in> set es \<Longrightarrow> grid_event g e" and b: "gross_cash es \<le> pow10 (g + int prec)"
    and pos: "\<forall>x\<in>set r. 0 < dval (fst (snd x))" and p: "mset r' = mset r"
  shows "dval s = (\<Sum>e\<leftarrow>es. dval (cs_settled_cash_delta_usd e))"
    and "dval (dsum (map (\<lambda>x. fst (snd x)) r')) = (\<Sum>e\<leftarrow>es. dval (cs_unsettled_receivable_delta_usd e))"
    and "dval (s + dsum (map (\<lambda>x. fst (snd x)) r')) = net_cash es"
proof -
  let ?S = "\<Sum>e\<leftarrow>es. dval (cs_settled_cash_delta_usd e)" and ?U = "\<Sum>e\<leftarrow>es. dval (cs_unsettled_receivable_delta_usd e)"
  let ?xs = "map (\<lambda>x. fst (snd x)) r'"
  have split: "(\<Sum>e\<leftarrow>es. \<bar>dval (cs_settled_cash_delta_usd e)\<bar>) + (\<Sum>e\<leftarrow>es. \<bar>dval (cs_unsettled_receivable_delta_usd e)\<bar>)
      \<le> pow10 (g + int prec)" using b by (simp add: gross_cash_def sum_list_addf)
  have nn: "0 \<le> (\<Sum>e\<leftarrow>es. \<bar>dval (cs_settled_cash_delta_usd e)\<bar>)" "0 \<le> (\<Sum>e\<leftarrow>es. \<bar>dval (cs_unsettled_receivable_delta_usd e)\<bar>)"
    by (rule sum_list_nonneg, force)+
  have "dval (dsum (map cs_settled_cash_delta_usd es)) = (\<Sum>x\<leftarrow>map cs_settled_cash_delta_usd es. dval x)"
    "on_grid g (\<Sum>x\<leftarrow>map cs_settled_cash_delta_usd es. dval x)"
    using g split nn by (intro dsum_exact [of _ g]; force simp: grid_event_def comp_def)+
  then have S: "dval s = ?S" "on_grid g ?S" using settled_sum [OF rf] by (simp_all add: dsum_def comp_def)
  then show "dval s = ?S" by simp
  have R: "receivable_total r = ?U" "\<forall>x\<in>set r. on_grid g (dval (fst (snd x)))"
    using receivable_total_rfold [OF rf _ g] by (simp_all add: receivable_total_def)
  have "(\<Sum>x\<leftarrow>?xs. dval x) = receivable_total r"
    using sum_list_mset_cong [OF p, of _ "\<lambda>_. True"] by (simp add: receivable_total_def comp_def)
  then have X: "(\<Sum>x\<leftarrow>?xs. dval x) = ?U" using R(1) by simp
  have mem: "set r' = set r" using p by (rule mset_eq_setD)
  have abs: "map (\<lambda>x. \<bar>dval x\<bar>) ?xs = map dval ?xs" using pos mem by auto
  have "(\<Sum>x\<leftarrow>?xs. \<bar>dval x\<bar>) = ?U" unfolding abs by (rule X)
  also have "\<dots> \<le> pow10 (g + int prec)" using sum_list_abs_le [of "\<lambda>e. dval (cs_unsettled_receivable_delta_usd e)" es] split nn by linarith
  finally have "dval (dsum ?xs) = (\<Sum>x\<leftarrow>?xs. dval x)" "on_grid g (\<Sum>x\<leftarrow>?xs. dval x)"
    using R(2) mem by (intro dsum_exact [of _ g]; force)+
  then have U: "dval (dsum ?xs) = ?U" "on_grid g ?U" using X by simp_all
  then show "dval (dsum ?xs) = ?U" by simp
  have "\<bar>?S + ?U\<bar> \<le> pow10 (g + int prec)"
    using sum_list_abs_le [of "\<lambda>e. dval (cs_unsettled_receivable_delta_usd e)" es]
      sum_list_abs_le [of "\<lambda>e. dval (cs_settled_cash_delta_usd e)" es] split by linarith
  then have "ctx (?S + ?U) = ?S + ?U" using S(2) U(2) by (intro ctx_grid [of g]) auto
  then show "dval (s + dsum ?xs) = net_cash es" by (simp add: dval_plus S U net_cash_def sum_list_addf)
qed

section \<open>Settling due receivables\<close>

lemma cash_event_Inr:
  assumes "cash_event H a policy p = Inr e"
  shows "cs_event_type e = ca_event_type a" "cs_receivable_id e = ca_receivable_id a"
    "cs_settled_cash_delta_usd e = ca_settled_delta a" "cs_unsettled_receivable_delta_usd e = ca_unsettled_delta a"
    "cs_settlement_date e = ca_settlement_date a" "ca_effective_at a = Aware (cs_effective_at e)"
    "ca_created_at a = Aware (cs_created_at e)" "cs_effective_at e \<le> cs_created_at e"
proof -
  obtain t1 t2 t3 where e: "ca_effective_at a = Aware t1" "ca_created_at a = Aware t3"
    "validate_cash_settlement_event (build_cash_event H a policy p t1 t2 t3) = Inr e"
    using assms by (auto simp: cash_event_def result_simps)
  from validate_cash_settlement_event_Inr [OF e(3)] have "e = build_cash_event H a policy p t1 t2 t3" .
  moreover have "t1 \<le> t3"
    using e(3) by (auto simp: validate_cash_settlement_event_def build_cash_event_def Let_def split: if_splits)
  ultimately show "cs_event_type e = ca_event_type a" "cs_receivable_id e = ca_receivable_id a"
    "cs_settled_cash_delta_usd e = ca_settled_delta a" "cs_unsettled_receivable_delta_usd e = ca_unsettled_delta a"
    "cs_settlement_date e = ca_settlement_date a" "ca_effective_at a = Aware (cs_effective_at e)"
    "ca_created_at a = Aware (cs_created_at e)" "cs_effective_at e \<le> cs_created_at e"
    using e by (simp_all add: build_cash_event_def Let_def)
qed

text \<open>The event that settles a receivable, whatever its identifiers.\<close>

definition settles :: "cash_settlement_event \<Rightarrow> string \<times> cash_settlement_event \<Rightarrow> bool" where
  "settles e r \<longleftrightarrow>
     cs_event_type e = RECEIVABLE_SETTLED \<and> cs_receivable_id e = Some (fst r)
     \<and> cs_settled_cash_delta_usd e = cs_unsettled_receivable_delta_usd (snd r)
     \<and> cs_unsettled_receivable_delta_usd e = - cs_unsettled_receivable_delta_usd (snd r)"

lemma settle_due_Inr:
  assumes "settle_due_receivables H events through eff cr sid policy c p = Inr out"
  shows "list_all2 (\<lambda>r e. settles e r) (filter (is_due events through) (sorted_items (created_by_receivable events))) out"
    and "\<And>e. e \<in> set out \<Longrightarrow> eff = Aware (cs_effective_at e) \<and> cr = Aware (cs_created_at e) \<and> cs_effective_at e \<le> cs_created_at e"
    and "validate_policy_calendar policy c = Inr ()" "validate_unique_events events = Inr ()"
proof -
  let ?rs = "filter (is_due events through) (sorted_items (created_by_receivable events))"
  have r: "rmap (\<lambda>r. cash_event H (settlement_args eff cr sid r) policy p) ?rs = Inr out"
    and "validate_policy_calendar policy c = Inr ()" "validate_unique_events events = Inr ()"
    using assms by (auto simp: settle_due_receivables_def result_simps)
  then show "validate_policy_calendar policy c = Inr ()" "validate_unique_events events = Inr ()" by simp_all
  have one: "settles e r" if "cash_event H (settlement_args eff cr sid r) policy p = Inr e" for e r
    using cash_event_Inr [OF that] by (simp add: settles_def settlement_args_def split: prod.splits)
  show "list_all2 (\<lambda>r e. settles e r) ?rs out"
    using r unfolding rmap_eq_Inr by (rule list_all2_mono) (rule one)
  show "eff = Aware (cs_effective_at e) \<and> cr = Aware (cs_created_at e) \<and> cs_effective_at e \<le> cs_created_at e" if mem: "e \<in> set out" for e
  proof -
    obtain r where "cash_event H (settlement_args eff cr sid r) policy p = Inr e" using rmap_Inr_mem [OF r mem] by auto
    from cash_event_Inr(6-8) [OF this] show ?thesis by (simp add: settlement_args_def split: prod.splits)
  qed
qed

lemma fold_add_created_other:
  "(\<And>e. e \<in> set es \<Longrightarrow> cs_event_type e \<noteq> SELL_RECEIVABLE_CREATED) \<Longrightarrow> fold add_created es d = d"
  by (induction es arbitrary: d) (auto simp: add_created_def)

text \<open>Which receivables have been created: distinct keys, each pointing to an event that created it.\<close>

lemma created_facts:
  "distinct (map fst (created_by_receivable events))"
  "(rid, e) \<in> set (created_by_receivable events) \<Longrightarrow>
     e \<in> set events \<and> cs_event_type e = SELL_RECEIVABLE_CREATED \<and> cs_receivable_id e = Some rid"
  "e \<in> set events \<Longrightarrow> cs_event_type e = SELL_RECEIVABLE_CREATED \<Longrightarrow> cs_receivable_id e = Some rid \<Longrightarrow>
     \<exists>e'. (rid, e') \<in> set (created_by_receivable events)"
proof (induction events arbitrary: rid e rule: rev_induct)
  case (snoc x xs)
  have step: "created_by_receivable (xs @ [x]) = add_created x (created_by_receivable xs)"
    by (simp add: created_by_receivable_def)
  have mem: "(k, v) \<in> set (AList.update k' v' d) \<Longrightarrow> (k, v) \<in> set d \<or> (k = k' \<and> v = v')" for k v k' v' and d :: "(string, cash_settlement_event) dict"
    by (induction d) (auto split: if_splits)
  have key: "k \<in> fst ` set (AList.update k' v' d) \<longleftrightarrow> k = k' \<or> k \<in> fst ` set d" for k k' v' and d :: "(string, cash_settlement_event) dict"
    by (simp add: AList.dom_update)
  {
    case 1
    show ?case using snoc(1) unfolding step by (auto simp: add_created_def AList.distinct_update split: option.split)
  next
    case 2
    then show ?case unfolding step using snoc(2) [of rid e]
      by (auto simp: add_created_def split: if_splits option.splits dest!: mem)
  next
    case 3
    have "rid \<in> fst ` set (created_by_receivable xs)" if "e \<in> set xs" using snoc(3) [of e rid] 3 that by force
    then have "rid \<in> fst ` set (add_created x (created_by_receivable xs))"
      using 3 by (auto simp: add_created_def key split: option.splits)
    then show ?case unfolding step by force
  }
qed (simp_all add: created_by_receivable_def)

subsection \<open>Open receivables\<close>

lemma receivable_persists:
  "rfold apply_cash_event es (s, r) = Inr (s', r') \<Longrightarrow> map_of r rid = Some v \<Longrightarrow>
     (\<And>e. e \<in> set es \<Longrightarrow> cs_event_type e = RECEIVABLE_SETTLED \<Longrightarrow> cs_receivable_id e \<noteq> Some rid) \<Longrightarrow>
     map_of r' rid = Some v"
proof (induction es arbitrary: s r)
  case (Cons e es)
  then obtain s1 r1 where 1: "apply_cash_event e (s, r) = Inr (s1, r1)" "rfold apply_cash_event es (s1, r1) = Inr (s', r')"
    by (auto simp: result_simps)
  then have "apply_receivable e r = Inr r1" by (simp add: apply_cash_event_Inr)
  then have "map_of r1 rid = Some v"
    using Cons.prems(2,3) by (cases rule: apply_receivable_cases) (auto simp: AList.update_conv' AList.delete_conv')
  then show ?case using Cons.IH [OF 1(2)] Cons.prems(3) by simp
qed simp

lemma open_receivable:
  assumes rf: "rfold apply_cash_event es (s0, r0) = Inr (s, r)" and e: "e \<in> set es"
    and c: "cs_event_type e = SELL_RECEIVABLE_CREATED" "cs_receivable_id e = Some rid"
    and ns: "\<And>e. e \<in> set es \<Longrightarrow> cs_event_type e = RECEIVABLE_SETTLED \<Longrightarrow> cs_receivable_id e \<noteq> Some rid"
  shows "\<exists>d. cs_settlement_date e = Some d \<and> map_of r rid = Some (cs_unsettled_receivable_delta_usd e, d)"
proof -
  obtain xs ys where es: "es = xs @ e # ys" using e by (auto simp: in_set_conv_decomp)
  obtain s1 r1 s2 r2 where 1: "apply_cash_event e (s1, r1) = Inr (s2, r2)" "rfold apply_cash_event ys (s2, r2) = Inr (s, r)"
    using rf by (auto simp: es rfold_append result_simps)
  then have "apply_receivable e r1 = Inr r2" by (simp add: apply_cash_event_Inr)
  then obtain d where d: "cs_settlement_date e = Some d" "map_of r2 rid = Some (cs_unsettled_receivable_delta_usd e, d)"
    using c by (cases rule: apply_receivable_cases) (auto simp: AList.update_conv')
  have "map_of r rid = Some (cs_unsettled_receivable_delta_usd e, d)"
    using receivable_persists [OF 1(2) d(2)] ns by (simp add: es)
  then show ?thesis using d(1) by blast
qed

lemma receivable_created:
  "rfold apply_cash_event es (s, r) = Inr (s', r') \<Longrightarrow> map_of r' rid = Some (a, d) \<Longrightarrow>
     map_of r rid = Some (a, d) \<or> (\<exists>e\<in>set es. cs_event_type e = SELL_RECEIVABLE_CREATED
       \<and> cs_receivable_id e = Some rid \<and> cs_settlement_date e = Some d)"
proof (induction es arbitrary: s r)
  case (Cons e es)
  then obtain s1 r1 where 1: "apply_cash_event e (s, r) = Inr (s1, r1)" "rfold apply_cash_event es (s1, r1) = Inr (s', r')"
    by (auto simp: result_simps)
  then have "apply_receivable e r = Inr r1" by (simp add: apply_cash_event_Inr)
  then have "map_of r1 rid = Some (a, d) \<Longrightarrow> map_of r rid = Some (a, d) \<or> (cs_event_type e = SELL_RECEIVABLE_CREATED
       \<and> cs_receivable_id e = Some rid \<and> cs_settlement_date e = Some d)"
    by (cases rule: apply_receivable_cases) (auto simp: AList.update_conv' AList.delete_conv' split: if_splits)
  then show ?case using Cons.IH [OF 1(2)] Cons.prems(2) by auto
qed simp

text \<open>Settling a batch of different open receivables succeeds and closes exactly those.\<close>

definition settles_open :: "(string, decimal \<times> date) dict \<Rightarrow> cash_settlement_event \<Rightarrow> bool" where
  "settles_open r x \<longleftrightarrow> cs_event_type x = RECEIVABLE_SETTLED \<and> (\<exists>rid a d. cs_receivable_id x = Some rid
     \<and> map_of r rid = Some (a, d) \<and> cs_settled_cash_delta_usd x = a \<and> cs_unsettled_receivable_delta_usd x = - a
     \<and> 0 < dval a \<and> ctx (dval a) = dval a)"

lemma settle_batch:
  "\<forall>x\<in>set xs. settles_open r x \<Longrightarrow> distinct (map cs_receivable_id xs) \<Longrightarrow> 0 \<le> dval s \<Longrightarrow>
     \<exists>s' r'. rfold apply_cash_event xs (s, r) = Inr (s', r') \<and> 0 \<le> dval s' \<and> set r' \<subseteq> set r
       \<and> (\<forall>rid. map_of r' rid = (if Some rid \<in> cs_receivable_id ` set xs then None else map_of r rid))"
proof (induction xs arbitrary: s r)
  case (Cons x xs)
  then obtain rid a d where x: "cs_event_type x = RECEIVABLE_SETTLED" "cs_receivable_id x = Some rid"
    "map_of r rid = Some (a, d)" "cs_settled_cash_delta_usd x = a" "cs_unsettled_receivable_delta_usd x = - a"
    "0 < dval a" "ctx (dval a) = dval a" by (auto simp: settles_open_def)
  have "dval a = dval (- (- a))" using x(7) by (simp add: dval_uminus)
  then have "apply_receivable x r = Inr (AList.delete rid r)" using x by (simp add: apply_receivable_def d_eq_dval)
  moreover have nn: "0 \<le> dval (s + a)" using Cons.prems(3) x(6) by (simp add: dval_plus ctx_nonneg)
  ultimately have step: "apply_cash_event x (s, r) = Inr (s + a, AList.delete rid r)"
    using x(4) by (simp add: apply_cash_event_Inr)
  have open_rest: "settles_open (AList.delete rid r) y" if "y \<in> set xs" for y
  proof -
    have "settles_open r y" "cs_receivable_id y \<noteq> Some rid" using Cons.prems(1,2) x(2) that by force+
    then show ?thesis by (auto simp: settles_open_def AList.delete_conv')
  qed
  have "distinct (map cs_receivable_id xs)" using Cons.prems(2) by simp
  from Cons.IH [OF _ this nn, of "AList.delete rid r"] obtain s' r' where "rfold apply_cash_event xs (s + a, AList.delete rid r) = Inr (s', r')" "0 \<le> dval s'"
    "set r' \<subseteq> set (AList.delete rid r)"
    "\<forall>k. map_of r' k = (if Some k \<in> cs_receivable_id ` set xs then None else map_of (AList.delete rid r) k)"
    using open_rest by blast
  moreover have "set (AList.delete rid r) \<subseteq> set r" by (auto simp: AList.delete_eq)
  ultimately show ?case using step x(2) by (auto simp: AList.delete_conv')
qed simp

lemma net_cash_cong: "mset xs = mset ys \<Longrightarrow> net_cash xs = net_cash ys"
  using sum_list_mset_cong [of xs ys _ "\<lambda>_. True"] by (simp add: net_cash_def)

lemma gross_cash_cong: "mset xs = mset ys \<Longrightarrow> gross_cash xs = gross_cash ys"
  using sum_list_mset_cong [of xs ys _ "\<lambda>_. True"] by (simp add: gross_cash_def)

lemma gross_cash_append: "gross_cash (xs @ ys) = gross_cash xs + gross_cash ys" "0 \<le> gross_cash xs"
  by (auto simp: gross_cash_def intro!: sum_list_nonneg)

text \<open>The total cash of a replay, exactly.\<close>

lemma total_cash_exact:
  assumes "apply_settlement_events events (Aware t) = Inr b"
    and "\<And>e. e \<in> set (visible_cash_events events t) \<Longrightarrow> grid_event g e"
    and "gross_cash (visible_cash_events events t) \<le> pow10 (g + int prec)"
  shows "dval (cb_settled_cash_usd b) = (\<Sum>e\<leftarrow>visible_cash_events events t. dval (cs_settled_cash_delta_usd e))"
    and "dval (unsettled_receivables_usd b) = (\<Sum>e\<leftarrow>visible_cash_events events t. dval (cs_unsettled_receivable_delta_usd e))"
    and "dval (total_cash_usd b) = net_cash (visible_cash_events events t)"
proof -
  let ?es = "cash_stream events t" and ?vs = "visible_cash_events events t"
  obtain r where r: "rfold apply_cash_event ?es (0, []) = Inr (cb_settled_cash_usd b, r)"
    "cb_unsettled_receivables b = sorted_items r" "\<forall>x\<in>set r. 0 < dval (fst (snd x))"
    using assms(1) by (auto simp: apply_settlement_events_Inr)
  have m: "mset ?es = mset ?vs" by simp
  have g: "grid_event g e" if "e \<in> set ?es" for e using that assms(2) by simp
  have "gross_cash ?es \<le> pow10 (g + int prec)" using assms(3) gross_cash_cong [OF m] by simp
  note bal = replay_balances [OF r(1) g this r(3), of "sorted_items r"]
  show "dval (cb_settled_cash_usd b) = (\<Sum>e\<leftarrow>?vs. dval (cs_settled_cash_delta_usd e))"
    using bal(1) sum_list_mset_cong [OF m, of _ "\<lambda>_. True"] by (simp add: sorted_items_def)
  show "dval (unsettled_receivables_usd b) = (\<Sum>e\<leftarrow>?vs. dval (cs_unsettled_receivable_delta_usd e))"
    using bal(2) sum_list_mset_cong [OF m, of _ "\<lambda>_. True"]
    by (simp add: sorted_items_def unsettled_receivables_usd_def r(2))
  show "dval (total_cash_usd b) = net_cash ?vs"
    using bal(3) net_cash_cong [OF m] by (simp add: sorted_items_def unsettled_receivables_usd_def total_cash_usd_def r(2))
qed

section \<open>Properties\<close>

text \<open>A calendar of four sessions and a small cash history for the worked examples.\<close>

definition example_calendar :: business_calendar where
  "example_calendar =
     \<lparr>bc_version = ''cal'', bc_sessions = [(2024, 1, 2), (2024, 1, 3), (2024, 1, 5), (2024, 1, 8)]\<rparr>"

definition example_policy :: settlement_policy where
  "example_policy = \<lparr>sp_version = ''t1'', sp_calendar_version = ''cal'', sp_lag_business_sessions = 1\<rparr>"

definition example_settlement_provenance :: settlement_provenance where
  "example_settlement_provenance =
     \<lparr>sv_run_id = ''run'', sv_source_cycle_id = ''cycle'', sv_config_manifest_hash = ''cfg'',
      sv_code_version = ''code'', sv_model_version = ''model'', sv_source_manifest_hash = ''src'',
      sv_worker_fence_token = ''fence'', sv_cycle_attempt_count = 1\<rparr>"

definition example_cash_event ::
  "string \<Rightarrow> cash_settlement_event_type \<Rightarrow> string option \<Rightarrow> date option \<Rightarrow> decimal \<Rightarrow> decimal \<Rightarrow> instant
    \<Rightarrow> cash_settlement_event" where
  "example_cash_event eid ty rid d settled unsettled t =
     \<lparr>vr_algorithm_version = Q1_ALGORITHM_VERSION, vr_config_manifest_hash = ''cfg'',
      vr_code_version = ''code'', vr_model_version = ''model'', vr_source_manifest_hash = ''src'',
      cs_cash_settlement_event_id = eid, cs_run_id = ''run'', cs_arm_id = Q1_DET, cs_event_type = ty,
      cs_receivable_id = rid, cs_source_fill_id = None, cs_settlement_policy_version = ''t1'',
      cs_currency = ''USD'', cs_settled_cash_delta_usd = settled,
      cs_unsettled_receivable_delta_usd = unsettled, cs_gross_amount_usd = 0, cs_commission_usd = 0,
      cs_trade_at = None, cs_settlement_date = d, cs_effective_at = t,
      cs_calendar_session_id = ''session'', cs_source_cycle_id = ''cycle'',
      cs_worker_fence_token = ''fence'', cs_cycle_attempt_count = 1, cs_idempotency_key = eid,
      cs_event_hash = ''hash'', cs_created_at = t\<rparr>"

definition example_cash_events :: "cash_settlement_event list" where
  "example_cash_events =
     [example_cash_event ''e1'' OPENING_SETTLED_CASH None None (D 1000 0) 0 10,
      example_cash_event ''e2'' BUY_SETTLED_CASH_DEBIT None None (D (- 40050) (- 2)) 0 20,
      example_cash_event ''e3'' SELL_RECEIVABLE_CREATED (Some ''r1'') (Some (2024, 1, 3)) 0 (D 25025 (- 2)) 30]"

lemma example_cash_grid:
  "\<And>e. e \<in> set example_cash_events \<Longrightarrow> grid_event (- 2) e" "gross_cash example_cash_events = 165075 / 100"
proof -
  have "grid_event (- 2) e" if "e \<in> set example_cash_events" for e
    using that
    by (auto simp: example_cash_events_def example_cash_event_def grid_event_def dval_simps on_grid_def prec_def
        intro: exI [of _ 100000] exI [of _ "- 40050"] exI [of _ 25025])
  then show "\<And>e. e \<in> set example_cash_events \<Longrightarrow> grid_event (- 2) e" .
  show "gross_cash example_cash_events = 165075 / 100"
    by (simp add: example_cash_events_def example_cash_event_def gross_cash_def dval_simps)
qed

lemma example_cash_facts:
  "visible_cash_events example_cash_events 40 = example_cash_events"
  "\<exists>b. apply_settlement_events example_cash_events (Aware 40) = Inr b"
  "valid_calendar example_calendar"
proof -
  have "case apply_settlement_events example_cash_events (Aware 40) of Inr b \<Rightarrow> True | Inl _ \<Rightarrow> False" by code_simp
  then show "\<exists>b. apply_settlement_events example_cash_events (Aware 40) = Inr b" by (auto split: sum.splits)
qed (simp_all add: visible_cash_events_def example_cash_events_def example_cash_event_def valid_calendar_def example_calendar_def)

text \<open>
  Business-session arithmetic: on a validated calendar, adding n sessions to a date
  succeeds exactly when n is non-negative, the date is a session and the calendar reaches n
  sessions further, and it returns the session n places later.
\<close>

theorem add_business_sessions_correct:
  assumes "validate_business_calendar c = Inr c"
  shows "add_business_sessions c d n = Inr d' \<longleftrightarrow>
    0 \<le> n \<and> (\<exists>i. i + nat n < length (bc_sessions c) \<and> bc_sessions c ! i = d \<and> bc_sessions c ! (i + nat n) = d')"
  using add_business_sessions_Inr validate_business_calendar_Inr [OF assms] by blast

theorem add_business_sessions_correct_witness:
  "add_business_sessions example_calendar (2024, 1, 3) 2 = Inr (2024, 1, 8)"
proof -
  have "validate_business_calendar example_calendar = Inr example_calendar" by code_simp
  then show ?thesis
    by (subst add_business_sessions_correct) (auto simp: example_calendar_def intro: exI [of _ 1])
qed

text \<open>
  C12. Cash is conserved: on a 28-digit grid the settled cash is the exact sum of the settled
  deltas of the visible events, the unsettled cash the exact sum of their receivable deltas,
  and the total the exact net cash.
\<close>

theorem settlement_conserves_cash:
  assumes "apply_settlement_events events (Aware t) = Inr b"
    and "\<And>e. e \<in> set (visible_cash_events events t) \<Longrightarrow> grid_event g e"
    and "gross_cash (visible_cash_events events t) \<le> pow10 (g + int prec)"
  shows "dval (cb_settled_cash_usd b) = (\<Sum>e\<leftarrow>visible_cash_events events t. dval (cs_settled_cash_delta_usd e))
    \<and> dval (unsettled_receivables_usd b) = (\<Sum>e\<leftarrow>visible_cash_events events t. dval (cs_unsettled_receivable_delta_usd e))
    \<and> dval (total_cash_usd b) = net_cash (visible_cash_events events t)"
  using total_cash_exact [OF assms] by blast

theorem settlement_conserves_cash_witness:
  "\<exists>b. apply_settlement_events example_cash_events (Aware 40) = Inr b
    \<and> dval (total_cash_usd b) = net_cash example_cash_events"
proof -
  obtain b where b: "apply_settlement_events example_cash_events (Aware 40) = Inr b" using example_cash_facts(2) by blast
  show ?thesis
    using settlement_conserves_cash [OF b, of "- 2"] b example_cash_grid by (simp add: example_cash_facts(1) prec_def)
qed

text \<open>
  C13. Unsettled proceeds cannot be spent: when the settled cash after the visible events is
  smaller than the debit of a buy that comes last, replaying the history with that buy raises,
  however large the open receivables are.
\<close>

theorem buy_needs_settled_cash:
  assumes "apply_settlement_events events (Aware t) = Inr b"
    and "\<And>x. x \<in> set events \<Longrightarrow> cash_event_key x < cash_event_key e"
    and "cs_event_type e = BUY_SETTLED_CASH_DEBIT" "cs_effective_at e \<le> t" "cs_created_at e \<le> t"
    and "dval (cb_settled_cash_usd b + cs_settled_cash_delta_usd e) < 0"
  shows "\<exists>err. apply_settlement_events (events @ [e]) (Aware t) = Inl err"
proof -
  obtain r where r: "rfold apply_cash_event (cash_stream events t) (0, []) = Inr (cb_settled_cash_usd b, r)"
    using assms(1) by (auto simp: apply_settlement_events_Inr)
  have v: "visible_cash_events (events @ [e]) t = visible_cash_events events t @ [e]"
    using assms(4,5) by (simp add: visible_cash_events_def)
  have "cash_stream (events @ [e]) t = cash_stream events t @ [e]"
    unfolding v by (rule cash_log.sort_key_snoc) (auto simp: visible_cash_events_def intro: less_imp_le assms(2))
  moreover have "apply_cash_event e (cb_settled_cash_usd b, r) \<noteq> Inr (s', r')" for s' r'
    using assms(6) by (auto simp: apply_cash_event_Inr)
  ultimately have "rfold apply_cash_event (cash_stream (events @ [e]) t) (0, []) \<noteq> Inr (s', r')" for s' r'
    by (simp add: rfold_snoc r)
  then have "apply_settlement_events (events @ [e]) (Aware t) \<noteq> Inr b'" for b'
    by (simp add: apply_settlement_events_Inr)
  then show ?thesis by (cases "apply_settlement_events (events @ [e]) (Aware t)") auto
qed

theorem buy_needs_settled_cash_witness:
  "\<exists>err. apply_settlement_events (example_cash_events
      @ [example_cash_event ''e4'' BUY_SETTLED_CASH_DEBIT None None (D (- 700) 0) 0 35]) (Aware 40) = Inl err"
proof -
  obtain b where b: "apply_settlement_events example_cash_events (Aware 40) = Inr b" using example_cash_facts(2) by blast
  have "case apply_settlement_events example_cash_events (Aware 40) of Inr b \<Rightarrow> cb_settled_cash_usd b = D 59950 (- 2) | Inl _ \<Rightarrow> False"
    by code_simp
  then have "cb_settled_cash_usd b = D 59950 (- 2)" using b by simp
  moreover have "D 59950 (- 2) + D (- 700) 0 = D (- 10050) (- 2)" by code_simp
  ultimately show ?thesis
    by (intro buy_needs_settled_cash [OF b])
      (auto simp: example_cash_events_def example_cash_event_def cash_event_key_def dval_simps)
qed

text \<open>
  Settling is idempotent: once its events are recorded, settling again through the same or
  an earlier session returns no events.
\<close>

theorem settle_due_idempotent:
  assumes "settle_due_receivables H events through eff cr sid policy c p = Inr out"
    and "validate_unique_events (events @ out) = Inr ()" "require_session c through' = Inr ()" "through' \<le> through"
  shows "settle_due_receivables H (events @ out) through' (Aware eff') (Aware cr') sid' policy c p' = Inr []"
proof -
  note s = settle_due_Inr [OF assms(1)]
  let ?rs = "filter (is_due events through) (sorted_items (created_by_receivable events))"
  have ty: "cs_event_type e = RECEIVABLE_SETTLED" if "e \<in> set out" for e
    using list_all2_mem(2) [OF s(1) that] by (auto simp: settles_def)
  then have cr: "created_by_receivable (events @ out) = created_by_receivable events"
    by (auto simp: created_by_receivable_def intro!: fold_add_created_other)
  have "\<not> is_due (events @ out) through' r" if r: "r \<in> set (created_by_receivable events)" for r
  proof
    assume due: "is_due (events @ out) through' r"
    then have "is_due events through r"
      using assms(4) by (auto simp: is_due_def already_settled_def split: option.splits)
    then have "r \<in> set ?rs" using r by (simp add: sorted_items_def)
    then obtain e where "e \<in> set out" "settles e r" using list_all2_mem(1) [OF s(1)] by blast
    then have "Some (fst r) \<in> set (already_settled (events @ out))"
      by (auto simp: already_settled_def settles_def image_iff intro!: bexI [of _ e])
    then show False using due by (simp add: is_due_def)
  qed
  then have "filter (is_due (events @ out) through') (sorted_items (created_by_receivable (events @ out))) = []"
    by (simp add: cr sorted_items_def filter_empty_conv)
  then show ?thesis using assms(2,3) s(3) by (simp add: settle_due_receivables_def)
qed

theorem settle_due_idempotent_witness:
  "\<exists>out. settle_due_receivables tail_digest example_cash_events (2024, 1, 3) (Aware 50) (Aware 50) ''session''
        example_policy example_calendar example_settlement_provenance = Inr out \<and> length out = 1
     \<and> settle_due_receivables tail_digest (example_cash_events @ out) (2024, 1, 3) (Aware 60) (Aware 60) ''session''
        example_policy example_calendar example_settlement_provenance = Inr []"
proof -
  let ?r = "settle_due_receivables tail_digest example_cash_events (2024, 1, 3) (Aware 50) (Aware 50) ''session''
        example_policy example_calendar example_settlement_provenance"
  have "case ?r of Inr out \<Rightarrow> length out = 1 \<and> validate_unique_events (example_cash_events @ out) = Inr () | Inl _ \<Rightarrow> False"
    by code_simp
  then obtain out where out: "?r = Inr out" "length out = 1" "validate_unique_events (example_cash_events @ out) = Inr ()"
    by (auto split: sum.splits)
  have "require_session example_calendar (2024, 1, 3) = Inr ()" by code_simp
  from settle_due_idempotent [OF out(1,3) this] show ?thesis using out(1,2) by blast
qed

lemma created_source:
  assumes rf: "rfold apply_cash_event (cash_stream events t) (0, []) = Inr (s, r)"
    and vis: "visible_cash_events events t = events"
    and src: "(rid, src) \<in> set (created_by_receivable events)" and ns: "Some rid \<notin> set (already_settled events)"
  shows "\<exists>d. cs_settlement_date src = Some d \<and> map_of r rid = Some (cs_unsettled_receivable_delta_usd src, d)"
proof (rule open_receivable [OF rf])
  show "src \<in> set (cash_stream events t)" "cs_event_type src = SELL_RECEIVABLE_CREATED" "cs_receivable_id src = Some rid"
    using created_facts(2) [OF src] by (simp_all add: vis)
  show "cs_receivable_id e \<noteq> Some rid" if "e \<in> set (cash_stream events t)" "cs_event_type e = RECEIVABLE_SETTLED" for e
    using that ns by (force simp: vis already_settled_def)
qed

lemma settlement_event_facts:
  assumes rf: "rfold apply_cash_event (cash_stream events t) (0, []) = Inr (s, r)"
    and vis: "visible_cash_events events t = events" and pos: "\<forall>x\<in>set r. 0 < dval (fst (snd x))"
    and grid: "\<And>e. e \<in> set events \<Longrightarrow> grid_event g e"
    and due: "(rid, src) \<in> set (sorted_items (created_by_receivable events))" "is_due events through (rid, src)"
    and e: "settles e (rid, src)"
  shows "settles_open r e" "grid_event g e"
    "dval (cs_settled_cash_delta_usd e) + dval (cs_unsettled_receivable_delta_usd e) = 0"
proof -
  let ?u = "cs_unsettled_receivable_delta_usd src"
  have c: "(rid, src) \<in> set (created_by_receivable events)" "Some rid \<notin> set (already_settled events)"
    using due by (simp_all add: sorted_items_def is_due_def)
  obtain d where d: "map_of r rid = Some (?u, d)" using created_source [OF rf vis c] by blast
  have up: "0 < dval ?u" using bspec [OF pos map_of_SomeD [OF d]] by simp
  have "grid_event g src" using created_facts(2) [OF c(1)] grid by blast
  then have u: "on_grid g (dval ?u)" "\<bar>dval ?u\<bar> \<le> pow10 (g + int prec)" by (simp_all add: grid_event_def)
  then have neg: "dval (- ?u) = - dval ?u" "ctx (dval ?u) = dval ?u" by (simp_all add: dval_uminus_grid ctx_grid)
  show "settles_open r e" using e d up neg(2) by (auto simp: settles_open_def settles_def simp del: split_paired_Ex)
  show "grid_event g e" using e u neg(1) by (auto simp: grid_event_def settles_def)
  show "dval (cs_settled_cash_delta_usd e) + dval (cs_unsettled_receivable_delta_usd e) = 0"
    using e neg(1) by (simp add: settles_def)
qed

text \<open>An open receivable with a due date is due.\<close>

lemma open_is_due:
  assumes rf: "rfold apply_cash_event (cash_stream events t) (0, []) = Inr (s, r)"
    and vis: "visible_cash_events events t = events"
    and m: "map_of r rid = Some (a, d)" and ns: "Some rid \<notin> set (already_settled events)" and le: "d \<le> through"
  shows "\<exists>src. (rid, src) \<in> set (filter (is_due events through) (sorted_items (created_by_receivable events)))"
proof -
  obtain e where "e \<in> set events" "cs_event_type e = SELL_RECEIVABLE_CREATED" "cs_receivable_id e = Some rid"
    using receivable_created [OF rf m] by (auto simp: vis)
  then obtain src where src: "(rid, src) \<in> set (created_by_receivable events)" using created_facts(3) by blast
  obtain d' where "cs_settlement_date src = Some d'" "map_of r rid = Some (cs_unsettled_receivable_delta_usd src, d')"
    using created_source [OF rf vis src ns] by blast
  then have "is_due events through (rid, src)" using m ns le by (simp add: is_due_def)
  then show ?thesis using src by (auto simp: sorted_items_def)
qed

lemma settle_due_ids:
  assumes "settle_due_receivables H events through eff cr sid policy c p = Inr out"
  shows "map cs_receivable_id out
    = map (Some \<circ> fst) (filter (is_due events through) (sorted_items (created_by_receivable events)))"
    and "distinct (map cs_receivable_id out)"
proof -
  let ?rs = "filter (is_due events through) (sorted_items (created_by_receivable events))"
  show ids: "map cs_receivable_id out = map (Some \<circ> fst) ?rs"
    using settle_due_Inr(1) [OF assms] by (induction rule: list_all2_induct) (auto simp: settles_def)
  have "distinct (map fst ?rs)"
    using sorted_items_distinct [of "created_by_receivable events"] created_facts(1) [of events]
    by (simp add: dict_keys_def distinct_map_filter)
  then show "distinct (map cs_receivable_id out)" unfolding ids by (simp add: distinct_map inj_on_def)
qed

lemma settled_stream:
  assumes settle: "settle_due_receivables H events through (Aware eff) (Aware cr) sid policy c p = Inr out"
    and times: "\<And>e. e \<in> set events \<Longrightarrow> cs_effective_at e < eff \<and> cs_created_at e \<le> t" "eff \<le> t" "cr \<le> t"
  shows "visible_cash_events events t = events" "visible_cash_events (events @ out) t = events @ out"
    "cash_stream (events @ out) t = cash_stream events t @ sort_key cash_event_key out"
proof -
  have out: "cs_effective_at e = eff \<and> cs_created_at e = cr" if "e \<in> set out" for e
    using settle_due_Inr(2) [OF settle that] by simp
  show v: "visible_cash_events events t = events"
    using times unfolding visible_cash_events_def by (intro filter_True) fastforce
  have "visible_cash_events out t = out"
    using out times(2,3) unfolding visible_cash_events_def by (intro filter_True) auto
  then show v2: "visible_cash_events (events @ out) t = events @ out"
    using v by (simp add: visible_cash_events_def)
  have "cash_event_key x \<le> cash_event_key y" if "x \<in> set events" "y \<in> set out" for x y
    using times(1) [OF that(1)] out [OF that(2)] by (simp add: cash_event_key_def)
  then show "cash_stream (events @ out) t = cash_stream events t @ sort_key cash_event_key out"
    unfolding v v2 by (rule cash_log.sort_key_append)
qed

text \<open>
  C14. Settling does what it says: when its events take effect after the whole history, the
  replay with them succeeds, total cash is unchanged, and no receivable due through the session
  is left open (unless its id had been settled once before).
\<close>

theorem settle_due_moves_cash:
  assumes settle: "settle_due_receivables H events through (Aware eff) (Aware cr) sid policy c p = Inr out"
    and replay: "apply_settlement_events events (Aware t) = Inr b"
    and times: "\<And>e. e \<in> set events \<Longrightarrow> cs_effective_at e < eff \<and> cs_created_at e \<le> t" "eff \<le> t" "cr \<le> t"
    and uniq: "validate_unique_events (events @ out) = Inr ()"
    and grid: "\<And>e. e \<in> set events \<Longrightarrow> grid_event g e" "gross_cash (events @ out) \<le> pow10 (g + int prec)"
  shows "\<exists>b'. apply_settlement_events (events @ out) (Aware t) = Inr b'
    \<and> dval (total_cash_usd b') = dval (total_cash_usd b)
    \<and> (\<forall>x\<in>set (cb_unsettled_receivables b'). through < snd (snd x) \<or> Some (fst x) \<in> set (already_settled events))"
proof -
  note st = settled_stream [OF settle times] and ids = settle_due_ids [OF settle]
  obtain r where r: "rfold apply_cash_event (cash_stream events t) (0, []) = Inr (cb_settled_cash_usd b, r)"
    "0 \<le> dval (cb_settled_cash_usd b)" "\<forall>x\<in>set r. 0 < dval (fst (snd x))"
    using replay by (auto simp: apply_settlement_events_Inr)
  have out: "settles_open r e \<and> grid_event g e
      \<and> dval (cs_settled_cash_delta_usd e) + dval (cs_unsettled_receivable_delta_usd e) = 0" if mem: "e \<in> set out" for e
  proof -
    obtain rid src where "(rid, src) \<in> set (sorted_items (created_by_receivable events))"
      "is_due events through (rid, src)" "settles e (rid, src)"
      using list_all2_mem(2) [OF settle_due_Inr(1) [OF settle] mem] by auto
    then show ?thesis using settlement_event_facts [OF r(1) st(1) r(3) grid(1)] by blast
  qed
  have "distinct (map cs_receivable_id (sort_key cash_event_key out))"
    using ids(2) distinct_map_mset_cong [of "sort_key cash_event_key out" out cs_receivable_id] by simp
  then obtain s' r' where s': "rfold apply_cash_event (sort_key cash_event_key out) (cb_settled_cash_usd b, r) = Inr (s', r')"
    "0 \<le> dval s'" "set r' \<subseteq> set r"
    "\<forall>rid. map_of r' rid = (if Some rid \<in> cs_receivable_id ` set out then None else map_of r rid)"
    using settle_batch [of "sort_key cash_event_key out" r "cb_settled_cash_usd b"] out r(2) by auto
  define b' where "b' = \<lparr>cb_settled_cash_usd = s', cb_unsettled_receivables = sorted_items r'\<rparr>"
  have rf': "rfold apply_cash_event (cash_stream (events @ out) t) (0, []) = Inr (s', r')"
    using r(1) s'(1) by (simp add: st(3) rfold_append)
  then have b': "apply_settlement_events (events @ out) (Aware t) = Inr b'"
    using uniq s' r(3) by (auto simp: apply_settlement_events_Inr b'_def)
  have "map (\<lambda>e. dval (cs_settled_cash_delta_usd e) + dval (cs_unsettled_receivable_delta_usd e)) out = map (\<lambda>_. 0) out"
    using out by simp
  then have "net_cash out = 0" unfolding net_cash_def by (metis sum_list_0)
  then have tot: "dval (total_cash_usd b') = dval (total_cash_usd b)"
    using total_cash_exact(3) [OF replay, of g] total_cash_exact(3) [OF b', of g] grid out gross_cash_append(1) [of events out]
      gross_cash_append(2) [of out] by (auto simp: st(1,2) net_cash_def)
  have "distinct (map fst r')" using cash_log.inv_rfold [OF cash_log.inv_start rf'] by (simp add: cash_inv_def)
  then have "through < d \<or> Some rid \<in> set (already_settled events)" if "(rid, a, d) \<in> set r'" for rid a d
  proof -
    have "map_of r' rid = Some (a, d)" using \<open>distinct (map fst r')\<close> that by simp
    then have m: "map_of r rid = Some (a, d)" "Some rid \<notin> set (map cs_receivable_id out)"
      using s'(4) by (auto split: if_splits)
    then show ?thesis using open_is_due [OF r(1) st(1) m(1), of through] unfolding ids(1) by force
  qed
  then show ?thesis using b' tot by (force simp: b'_def sorted_items_def)
qed

theorem settle_due_moves_cash_witness:
  "\<exists>out b'. settle_due_receivables tail_digest example_cash_events (2024, 1, 3) (Aware 50) (Aware 50) ''session''
        example_policy example_calendar example_settlement_provenance = Inr out
     \<and> apply_settlement_events (example_cash_events @ out) (Aware 60) = Inr b'
     \<and> (\<forall>x\<in>set (cb_unsettled_receivables b'). (2024, 1, 3) < snd (snd x) \<or> Some (fst x) \<in> set (already_settled example_cash_events))"
proof -
  let ?r = "settle_due_receivables tail_digest example_cash_events (2024, 1, 3) (Aware 50) (Aware 50) ''session''
        example_policy example_calendar example_settlement_provenance"
  have "case ?r of Inr out \<Rightarrow> validate_unique_events (example_cash_events @ out) = Inr ()
      \<and> map cs_settled_cash_delta_usd out = [D 25025 (- 2)] \<and> map cs_unsettled_receivable_delta_usd out = [D (- 25025) (- 2)] | Inl _ \<Rightarrow> False"
    by code_simp
  then obtain out where out: "?r = Inr out" "validate_unique_events (example_cash_events @ out) = Inr ()"
    "map cs_settled_cash_delta_usd out = [D 25025 (- 2)]" "map cs_unsettled_receivable_delta_usd out = [D (- 25025) (- 2)]"
    by (auto split: sum.splits)
  then have "gross_cash out = 50050 / 100" by (auto simp: gross_cash_def dval_simps)
  then have gross: "gross_cash (example_cash_events @ out) \<le> pow10 (- 2 + int prec)"
    by (simp add: gross_cash_append(1) example_cash_grid(2) prec_def)
  have "case apply_settlement_events example_cash_events (Aware 60) of Inr b \<Rightarrow> True | Inl _ \<Rightarrow> False" by code_simp
  then obtain b where b: "apply_settlement_events example_cash_events (Aware 60) = Inr b" by (auto split: sum.splits)
  show ?thesis
    using settle_due_moves_cash [OF out(1) b _ _ _ out(2) example_cash_grid(1) gross] out(1)
    by (force simp: example_cash_events_def example_cash_event_def)
qed

end
