(* ===== verification/Risk_Check.thy ===== *)
theory Risk_Check
  imports Domain
begin

text \<open>
  The first half of the deterministic risk engine, \<^verbatim>\<open>src/trading/risk/state_machine.py\<close>:
  configuration, the evaluation of a risk check (losses, thresholds, indicated severity) and the
  construction of reduction targets. Shown: the losses lie between zero and one and the
  thresholds between their configured bounds, a lower net asset value never lowers the indicated
  severity, and targets only reduce what is held.
\<close>

section \<open>Configuration and inputs\<close>

record risk_engine_config =
  rc_version :: string
  rc_annualization_sessions :: decimal
  rc_soft_sigma_multiple :: decimal
  rc_hard_sigma_multiple :: decimal
  rc_soft_daily_floor :: decimal
  rc_soft_daily_ceiling :: decimal
  rc_hard_daily_floor :: decimal
  rc_hard_daily_ceiling :: decimal
  rc_soft_drawdown_threshold :: decimal
  rc_hard_drawdown_threshold :: decimal
  rc_critical_drawdown_threshold :: decimal
  rc_q1_hard_gross_cap :: decimal
  rc_q1_hard_soxx_weight_cap :: decimal
  rc_live_mirror_semiconductor_weight_cap :: decimal
  rc_release_daily_loss_soft_fraction :: decimal
  rc_release_drawdown_threshold :: decimal
  rc_release_consecutive_valid_checks :: int
  rc_quantity_precision :: decimal
  rc_leveraged_symbols :: "string set"
  rc_semiconductor_symbols :: "string set"

definition config_fractions :: "risk_engine_config \<Rightarrow> decimal list" where
  "config_fractions c =
     [rc_soft_daily_floor c, rc_soft_daily_ceiling c, rc_hard_daily_floor c, rc_hard_daily_ceiling c,
      rc_soft_drawdown_threshold c, rc_hard_drawdown_threshold c, rc_critical_drawdown_threshold c,
      rc_q1_hard_gross_cap c, rc_q1_hard_soxx_weight_cap c, rc_live_mirror_semiconductor_weight_cap c,
      rc_release_daily_loss_soft_fraction c, rc_release_drawdown_threshold c]"

definition validate_risk_engine_config :: "risk_engine_config \<Rightarrow> risk_engine_config result" where
  "validate_risk_engine_config c =
     (if rc_version c = [] then Inl (Q1RiskError ''Risk config version is required'')
      else if rc_annualization_sessions c \<le> 0
      then Inl (Q1RiskError ''Annualization sessions must be positive'')
      else if rc_soft_sigma_multiple c < 0 \<or> rc_hard_sigma_multiple c < 0
      then Inl (Q1RiskError ''Sigma multiples cannot be negative'')
      else if \<exists>v\<in>set (config_fractions c). v < 0 \<or> 1 < v
      then Inl (Q1RiskError ''Risk fractions must be within [0, 1]'')
      else if rc_soft_daily_ceiling c < rc_soft_daily_floor c
      then Inl (Q1RiskError ''Soft daily threshold bounds are inverted'')
      else if rc_hard_daily_ceiling c < rc_hard_daily_floor c
      then Inl (Q1RiskError ''Hard daily threshold bounds are inverted'')
      else if rc_hard_drawdown_threshold c \<le> rc_soft_drawdown_threshold c
      then Inl (Q1RiskError ''Soft drawdown must be below hard drawdown'')
      else if rc_critical_drawdown_threshold c \<le> rc_hard_drawdown_threshold c
      then Inl (Q1RiskError ''Hard drawdown must be below critical drawdown'')
      else if rc_release_consecutive_valid_checks c \<le> 0
      then Inl (Q1RiskError ''Release check count must be positive'')
      else if rc_quantity_precision c \<le> 0
      then Inl (Q1RiskError ''Quantity precision must be positive'')
      else Inr c)"

record risk_quote =
  rq_symbol :: string
  rq_quote_id :: string
  rq_midpoint :: decimal

definition validate_risk_quote :: "risk_quote \<Rightarrow> risk_quote result" where
  "validate_risk_quote q =
     (if rq_symbol q = [] \<or> rq_quote_id q = [] then Inl (Q1RiskError ''Risk quote identity is required'')
      else if rq_midpoint q \<le> 0 then Inl (Q1RiskError ''Risk quote midpoint must be positive'')
      else Inr q)"

record risk_check_input =
  rk_arm_id :: q1_arm_id
  rk_calendar_session_id :: string
  rk_scheduled_at :: instant
  rk_decision_created_at :: instant
  rk_positions :: "(string, decimal) dict"
  rk_settled_cash_usd :: decimal
  rk_unsettled_receivables_usd :: decimal
  rk_quotes :: "(string, risk_quote) dict"
  rk_session_open_nav_usd :: decimal
  rk_running_peak_nav_usd :: decimal
  rk_portfolio_annualized_vol :: "decimal option"
  rk_reconciliation_ok :: bool
  rk_critical_reconciliation_condition :: bool
  rk_reconciliation_status :: string

definition validate_risk_check_input :: "risk_check_input \<Rightarrow> risk_check_input result" where
  "validate_risk_check_input k =
     (if rk_calendar_session_id k = [] then Inl (Q1RiskError ''Calendar-session ID is required'')
      else if rk_decision_created_at k < rk_scheduled_at k
      then Inl (Q1RiskError ''Risk decision cannot be created before scheduled_at'')
      else if rk_settled_cash_usd k < 0 \<or> rk_unsettled_receivables_usd k < 0
      then Inl (Q1RiskError ''Cash balances cannot be negative'')
      else if rk_session_open_nav_usd k \<le> 0 \<or> rk_running_peak_nav_usd k \<le> 0
      then Inl (Q1RiskError ''Session-open and running-peak NAV must be positive'')
      else if \<not> opt_all (\<lambda>v. \<not> v < 0) (rk_portfolio_annualized_vol k)
      then Inl (Q1RiskError ''Portfolio volatility cannot be negative'')
      else if \<exists>q\<in>set (dict_values (rk_positions k)). q < 0
      then Inl (Q1RiskError ''Q1 risk engine prohibits short positions'')
      else if rk_reconciliation_status k = []
      then Inl (Q1RiskError ''Reconciliation status is required'')
      else if rk_reconciliation_ok k \<noteq> (rk_reconciliation_status k = ''OK'')
      then Inl (Q1RiskError ''Reconciliation status and ok flag are inconsistent'')
      else Inr k)"

record risk_metrics =
  rm_current_nav_usd :: decimal
  rm_daily_loss :: decimal
  rm_run_drawdown :: decimal
  rm_daily_sigma :: "decimal option"
  rm_soft_daily_threshold :: decimal
  rm_hard_daily_threshold :: decimal
  rm_indicated_severity :: risk_severity

section \<open>Evaluating a check\<close>

definition clip :: "decimal \<Rightarrow> decimal \<Rightarrow> decimal \<Rightarrow> decimal" where
  "clip value lower upper = py_min upper (py_max lower value)"

definition floor_quantity :: "decimal \<Rightarrow> decimal \<Rightarrow> decimal result" where
  "floor_quantity value precision = quantize ROUND_DOWN precision value"

definition positive_positions :: "(string, decimal) dict \<Rightarrow> (string, decimal) dict" where
  "positive_positions positions = filter (\<lambda>(s, q). 0 < q) positions"

definition position_value :: "(string, risk_quote) dict \<Rightarrow> string \<times> decimal \<Rightarrow> decimal result" where
  "position_value quotes p = rbind (dict_lookup quotes (fst p)) (\<lambda>quote. Inr (snd p * rq_midpoint quote))"

definition indicate ::
  "risk_engine_config \<Rightarrow> bool \<Rightarrow> decimal \<Rightarrow> decimal \<Rightarrow> decimal \<Rightarrow> decimal \<Rightarrow> risk_severity" where
  "indicate config critical daily_loss run_drawdown soft_daily hard_daily =
     (if rc_critical_drawdown_threshold config \<le> run_drawdown \<or> critical then CRITICAL_EXIT
      else if hard_daily \<le> daily_loss \<or> rc_hard_drawdown_threshold config \<le> run_drawdown then HARD_REDUCE
      else if soft_daily \<le> daily_loss \<or> rc_soft_drawdown_threshold config \<le> run_drawdown then SOFT_STOP
      else NORMAL)"

definition evaluate_risk_check :: "risk_check_input \<Rightarrow> risk_engine_config \<Rightarrow> risk_metrics result" where
  "evaluate_risk_check check config =
     (if \<exists>(s, q)\<in>set (positive_positions (rk_positions check)). \<not> dict_has (rk_quotes check) s
      then Inl (Q1RiskError ''Fresh quotes missing for held risk assets'')
      else
        rbind (rmap (position_value (rk_quotes check)) (positive_positions (rk_positions check))) (\<lambda>values.
        let current_nav =
              rk_settled_cash_usd check + rk_unsettled_receivables_usd check + dsum values in
        if current_nav \<le> 0 then Inl (Q1RiskError ''Current NAV must be positive'')
        else
          rbind (dec_div (rk_session_open_nav_usd check - current_nav) (rk_session_open_nav_usd check))
            (\<lambda>loss.
          let daily_loss = py_max 0 loss;
              effective_peak = py_max (rk_running_peak_nav_usd check) current_nav in
          rbind (dec_div (effective_peak - current_nav) effective_peak)
            (\<lambda>dd.
          let run_drawdown = py_max 0 dd in
          rbind (opt_result (\<lambda>v. dec_div v (d_sqrt (rc_annualization_sessions config)))
                   (rk_portfolio_annualized_vol check))
            (\<lambda>daily_sigma.
          let sigma = (case daily_sigma of None \<Rightarrow> 0 | Some v \<Rightarrow> if dcoef v = 0 then 0 else v);
              soft_daily = clip (rc_soft_sigma_multiple config * sigma)
                (rc_soft_daily_floor config) (rc_soft_daily_ceiling config);
              hard_daily = clip (rc_hard_sigma_multiple config * sigma)
                (rc_hard_daily_floor config) (rc_hard_daily_ceiling config) in
          Inr \<lparr>rm_current_nav_usd = current_nav, rm_daily_loss = daily_loss,
               rm_run_drawdown = run_drawdown, rm_daily_sigma = daily_sigma,
               rm_soft_daily_threshold = soft_daily, rm_hard_daily_threshold = hard_daily,
               rm_indicated_severity = indicate config (rk_critical_reconciliation_condition check)
                 daily_loss run_drawdown soft_daily hard_daily\<rparr>)))))"

section \<open>Reduction targets\<close>

definition provenance_free_target_identity ::
  "q1_arm_id \<Rightarrow> string \<Rightarrow> decimal \<Rightarrow> string \<Rightarrow> instant \<Rightarrow> int \<Rightarrow> pyval" where
  "provenance_free_target_identity arm_id symbol target_quantity quote_id triggered_at target_generation =
     VDict [(''arm_id'', VStr (arm_value arm_id)), (''symbol'', VStr symbol),
            (''target_quantity'', VDec target_quantity), (''quote_id'', VStr quote_id),
            (''triggered_at'', VTime triggered_at), (''target_generation'', VInt target_generation)]"

definition cap_soxx :: "decimal \<Rightarrow> (string, decimal) dict \<Rightarrow> (string, decimal) dict" where
  "cap_soxx limit values =
     (case map_of values ''SOXX'' of
        None \<Rightarrow> values
      | Some v \<Rightarrow> AList.update ''SOXX'' (py_min v limit) values)"

definition scale_to_cap :: "decimal \<Rightarrow> (string, decimal) dict \<Rightarrow> (string, decimal) dict result" where
  "scale_to_cap gross_cap values =
     (let gross = dsum (dict_values values) in
      if gross_cap < gross
      then rbind (dec_div gross_cap gross) (\<lambda>scale. Inr (map (\<lambda>p. (fst p, snd p * scale)) values))
      else Inr values)"

definition value_to_quantity ::
  "(string, risk_quote) dict \<Rightarrow> decimal \<Rightarrow> string \<times> decimal \<Rightarrow> (string \<times> decimal) result" where
  "value_to_quantity quotes precision p =
     rbind (dict_lookup quotes (fst p)) (\<lambda>quote.
     rbind (dec_div (snd p) (rq_midpoint quote)) (\<lambda>units.
     rbind (floor_quantity units precision) (\<lambda>quantity. Inr (fst p, quantity))))"

definition q1_hard_targets ::
  "(string, decimal) dict \<Rightarrow> (string, risk_quote) dict \<Rightarrow> decimal \<Rightarrow> risk_engine_config
    \<Rightarrow> (string, decimal) dict result" where
  "q1_hard_targets positions quotes nav config =
     (let eligible = filter (\<lambda>p. fst p \<in> {''QQQ'', ''SOXX''}) positions in
      if eligible = [] then Inr []
      else
        rbind (rmap (\<lambda>p. rbind (position_value quotes p) (\<lambda>v. Inr (fst p, v))) eligible) (\<lambda>values.
        rbind (scale_to_cap (nav * rc_q1_hard_gross_cap config)
                 (cap_soxx (nav * rc_q1_hard_soxx_weight_cap config) values)) (\<lambda>scaled.
          rmap (value_to_quantity quotes (rc_quantity_precision config)) (sorted_items scaled))))"

definition add_scaled_target ::
  "decimal \<Rightarrow> decimal \<Rightarrow> string \<times> decimal \<Rightarrow> (string, decimal) dict \<Rightarrow> (string, decimal) dict result" where
  "add_scaled_target scale precision p targets =
     rbind (floor_quantity (snd p * scale) precision) (\<lambda>quantity.
       Inr (AList.update (fst p) quantity targets))"

definition live_mirror_hard_targets ::
  "(string, decimal) dict \<Rightarrow> (string, risk_quote) dict \<Rightarrow> decimal \<Rightarrow> risk_engine_config
    \<Rightarrow> (string, decimal) dict result" where
  "live_mirror_hard_targets positions quotes nav config =
     (let targets = map (\<lambda>p. (fst p, 0))
            (filter (\<lambda>p. 0 < snd p \<and> fst p \<in> rc_leveraged_symbols config) positions);
          semiconductors = filter (\<lambda>p. 0 < snd p \<and> fst p \<in> rc_semiconductor_symbols config
            \<and> fst p \<notin> rc_leveraged_symbols config) positions in
      rbind (rmap (position_value quotes) semiconductors) (\<lambda>values.
      let semiconductor_value = dsum values;
          cap = nav * rc_live_mirror_semiconductor_weight_cap config in
      rbind (if semiconductor_value \<le> cap then Inr 1 else dec_div cap semiconductor_value) (\<lambda>scale.
        rfold (add_scaled_target scale (rc_quantity_precision config)) semiconductors targets)))"

definition build_target ::
  "digest \<Rightarrow> risk_check_input \<Rightarrow> risk_metrics \<Rightarrow> (string, decimal) dict \<Rightarrow> int \<Rightarrow> string \<times> decimal
    \<Rightarrow> risk_target result" where
  "build_target H check metrics positive generation p =
     (case map_of (rk_quotes check) (fst p) of
        None \<Rightarrow> Inl (Q1RiskError (''Trigger quote missing for target symbol '' @ fst p))
      | Some quote \<Rightarrow>
          rbind (dict_lookup positive (fst p)) (\<lambda>held.
          rbind (dec_div (snd p * rq_midpoint quote) (rm_current_nav_usd metrics)) (\<lambda>weight.
            validate_risk_target
              \<lparr>rt_symbol = fst p, rt_target_quantity = snd p, rt_trigger_quote_id = rq_quote_id quote,
               rt_target_generation = generation,
               rt_target_id = Some (stable_id H ''q1-risk-target''
                 [provenance_free_target_identity (rk_arm_id check) (fst p) (snd p) (rq_quote_id quote)
                    (rk_scheduled_at check) generation]),
               rt_trigger_quantity = Some held, rt_trigger_price = Some (rq_midpoint quote),
               rt_target_weight = Some weight\<rparr>)))"

definition target_quantities ::
  "risk_check_input \<Rightarrow> risk_metrics \<Rightarrow> risk_severity \<Rightarrow> risk_engine_config \<Rightarrow> (string, decimal) dict
    \<Rightarrow> (string, decimal) dict result" where
  "target_quantities check metrics severity config positive =
     (if severity = CRITICAL_EXIT then Inr (map (\<lambda>p. (fst p, 0)) positive)
      else if rk_arm_id check \<in> {Q1_DET, Q1_LLM}
      then q1_hard_targets positive (rk_quotes check) (rm_current_nav_usd metrics) config
      else if rk_arm_id check = LIVE_MIRROR
      then live_mirror_hard_targets positive (rk_quotes check) (rm_current_nav_usd metrics) config
      else Inl (Q1RiskError ''Deterministic loss overlay is not permitted for this arm''))"

definition build_targets ::
  "digest \<Rightarrow> risk_check_input \<Rightarrow> risk_metrics \<Rightarrow> risk_severity \<Rightarrow> risk_engine_config \<Rightarrow> int
    \<Rightarrow> risk_target list result" where
  "build_targets H check metrics severity config generation =
     (let positive = positive_positions (rk_positions check) in
      if positive = [] then Inr []
      else
        rbind (target_quantities check metrics severity config positive) (\<lambda>quantities.
          rmap (build_target H check metrics positive generation) (sorted_items quantities)))"

definition is_residual :: "(string, decimal) dict \<Rightarrow> risk_target \<Rightarrow> bool" where
  "is_residual positions t \<longleftrightarrow> rt_target_quantity t < dict_get positions (rt_symbol t) 0"

definition residual_targets :: "risk_target list \<Rightarrow> (string, decimal) dict \<Rightarrow> risk_target list" where
  "residual_targets targets positions = filter (is_residual positions) targets"

definition required_residual_quote_symbols :: "risk_target list \<Rightarrow> (string, decimal) dict \<Rightarrow> string set" where
  "required_residual_quote_symbols targets positions =
     set (map rt_symbol (filter (is_residual positions) targets))"

section \<open>Losses and thresholds\<close>

text \<open>The rounded relative loss of a value \<open>n\<close> against a reference \<open>r\<close>.\<close>

definition rel_loss :: "rat \<Rightarrow> rat \<Rightarrow> rat" where
  "rel_loss r n = max 0 (ctx (ctx (r - n) / r))"

lemma ctx_1_eps: "ctx (1 + eps) = 1"
proof -
  have "adj (1 + eps) = 0"
    by (rule adj_unique) (simp_all add: power_int_def power_one_over)
  then have "ulp (1 + eps) = pow10 (- 27)" by (simp add: prec_def)
  moreover have "rhe ((1 + eps) / pow10 (- 27)) = 10 ^ 27"
  proof -
    have half: "(1 + eps) / pow10 (- 27) = of_int (10 ^ 27) + 1 / 2"
      by (simp add: power_int_def field_simps)
    have "\<lfloor>of_int (10 ^ 27) + 1 / 2 :: rat\<rfloor> = 10 ^ 27" by (simp add: floor_eq_iff)
    then show ?thesis unfolding half by (simp add: rhe_def Let_def)
  qed
  moreover have "1 + eps \<noteq> 0" by (simp add: power_int_def power_one_over)
  moreover have "of_int (10 ^ 27) * pow10 (- 27) = 1" by (simp add: power_int_def power_one_over)
  ultimately show ?thesis by (metis ctx_nonzero)
qed

lemma rel_loss_bounds:
  assumes "0 < r" "0 < n"
  shows "0 \<le> rel_loss r n" "rel_loss r n \<le> 1"
proof -
  have "ctx (r - n) \<le> ctx r" using assms by (intro ctx_mono) simp
  also have "\<dots> \<le> r * (1 + eps)" using ctx_size [of r] assms by simp
  finally have "ctx (r - n) / r \<le> 1 + eps" using assms by (simp add: field_simps)
  then have "ctx (ctx (r - n) / r) \<le> 1" using ctx_mono ctx_1_eps by metis
  then show "rel_loss r n \<le> 1" by (simp add: rel_loss_def)
qed (simp add: rel_loss_def)

lemma rel_loss_antimono: "0 < r \<Longrightarrow> n' \<le> n \<Longrightarrow> rel_loss r n \<le> rel_loss r n'"
  unfolding rel_loss_def by (intro max.mono ctx_mono divide_right_mono) auto

lemma rel_loss_error:
  assumes "0 < r" "0 < n"
  shows "\<bar>rel_loss r n - max 0 ((r - n) / r)\<bar> \<le> 3 * eps"
proof (cases "n \<le> r")
  case True
  define x y where "x = (r - n) / r" and "y = ctx (r - n) / r"
  have x: "0 \<le> x" "x \<le> 1" using True assms by (simp_all add: x_def)
  have y0: "0 \<le> y" using True assms by (simp add: y_def ctx_nonneg)
  have "\<bar>y - x\<bar> = \<bar>ctx (r - n) - (r - n)\<bar> / r"
    using assms by (simp add: x_def y_def abs_divide flip: diff_divide_distrib)
  also have "\<dots> \<le> \<bar>r - n\<bar> * eps / r" using assms ctx_near by (intro divide_right_mono) auto
  also have "\<dots> = x * eps" using True by (simp add: x_def)
  also have "\<dots> \<le> 1 * eps" using x by (intro mult_right_mono) auto
  finally have "\<bar>y - x\<bar> \<le> eps" by simp
  moreover have "\<bar>ctx y - y\<bar> \<le> 2 * eps"
  proof -
    have "eps \<le> 1" by (simp add: power_int_def power_one_over)
    then have "y \<le> 2" using \<open>\<bar>y - x\<bar> \<le> eps\<close> x by linarith
    then have "y * eps \<le> 2 * eps" by (intro mult_right_mono) auto
    then show ?thesis using ctx_near [of y] y0 by simp
  qed
  moreover have "rel_loss r n = ctx y" using ctx_nonneg [OF y0] by (simp add: rel_loss_def y_def)
  moreover have "max 0 x = x" using x by simp
  ultimately show ?thesis unfolding x_def [symmetric] by (simp only:)
next
  case False
  then have "ctx (n - r) / r \<ge> 0" using assms by (simp add: ctx_nonneg)
  then have "ctx (ctx (n - r) / r) \<ge> 0" by (rule ctx_nonneg)
  moreover have "ctx (ctx (r - n) / r) = - ctx (ctx (n - r) / r)"
    using ctx_uminus [of "n - r"] ctx_uminus [of "ctx (n - r) / r"] by simp
  moreover have "(r - n) / r \<le> 0" using False assms by (simp add: divide_le_0_iff)
  ultimately show ?thesis by (simp add: rel_loss_def)
qed

lemma clip_bounds: "lo \<le> hi \<Longrightarrow> lo \<le> clip v lo hi \<and> clip v lo hi \<le> (hi :: decimal)"
  by (auto simp: clip_def dval_simps)

lemma evaluate_risk_check_Inr:
  assumes "evaluate_risk_check check config = Inr m"
  shows "0 < dval (rm_current_nav_usd m)"
    and "dval (rm_daily_loss m) = rel_loss (dval (rk_session_open_nav_usd check)) (dval (rm_current_nav_usd m))"
    and "dval (rm_run_drawdown m) =
           rel_loss (max (dval (rk_running_peak_nav_usd check)) (dval (rm_current_nav_usd m)))
             (dval (rm_current_nav_usd m))"
    and "rm_indicated_severity m = indicate config (rk_critical_reconciliation_condition check)
           (rm_daily_loss m) (rm_run_drawdown m) (rm_soft_daily_threshold m) (rm_hard_daily_threshold m)"
    and "opt_result (\<lambda>v. dec_div v (d_sqrt (rc_annualization_sessions config)))
           (rk_portfolio_annualized_vol check) = Inr (rm_daily_sigma m)"
    and "rm_soft_daily_threshold m =
           clip (rc_soft_sigma_multiple config
                 * (case rm_daily_sigma m of None \<Rightarrow> 0 | Some v \<Rightarrow> if dcoef v = 0 then 0 else v))
             (rc_soft_daily_floor config) (rc_soft_daily_ceiling config)"
    and "rm_hard_daily_threshold m =
           clip (rc_hard_sigma_multiple config
                 * (case rm_daily_sigma m of None \<Rightarrow> 0 | Some v \<Rightarrow> if dcoef v = 0 then 0 else v))
             (rc_hard_daily_floor config) (rc_hard_daily_ceiling config)"
    and "\<forall>(s, q)\<in>set (positive_positions (rk_positions check)). dict_has (rk_quotes check) s"
  using assms
  by (auto simp: evaluate_risk_check_def result_simps Let_def dval_simps dval_d_div rel_loss_def not_le
      split: if_splits)


lemma validate_risk_engine_config_Inr:
  "validate_risk_engine_config c = Inr c' \<Longrightarrow>
     rc_soft_daily_floor c \<le> rc_soft_daily_ceiling c \<and> rc_hard_daily_floor c \<le> rc_hard_daily_ceiling c
     \<and> (\<forall>v\<in>set (config_fractions c). 0 \<le> v \<and> v \<le> 1) \<and> 0 < rc_quantity_precision c"
  by (auto simp: validate_risk_engine_config_def dval_simps not_less split: if_splits)

lemma validate_risk_check_input_Inr:
  "validate_risk_check_input k = Inr k' \<Longrightarrow>
     0 < dval (rk_session_open_nav_usd k) \<and> 0 < dval (rk_running_peak_nav_usd k)
     \<and> rk_scheduled_at k \<le> rk_decision_created_at k \<and> k' = k"
  by (auto simp: validate_risk_check_input_def dval_simps not_le not_less split: if_splits)

lemma indicate_mono:
  assumes "l \<le> l'" "d \<le> d'" "crit \<longrightarrow> crit'"
  shows "indicate config crit l d soft hard \<le> indicate config crit' l' d' soft hard"
  using assms by (auto simp: indicate_def severity_le_iff dval_simps)

text \<open>A configuration, and a check with two positions after a loss.\<close>

definition ex_config :: risk_engine_config where
  "ex_config =
     \<lparr>rc_version = ''v1'', rc_annualization_sessions = D 252 0,
      rc_soft_sigma_multiple = D 15 (-1), rc_hard_sigma_multiple = D 25 (-1),
      rc_soft_daily_floor = D 1 (-2), rc_soft_daily_ceiling = D 2 (-2),
      rc_hard_daily_floor = D 2 (-2), rc_hard_daily_ceiling = D 4 (-2),
      rc_soft_drawdown_threshold = D 4 (-2), rc_hard_drawdown_threshold = D 8 (-2),
      rc_critical_drawdown_threshold = D 12 (-2), rc_q1_hard_gross_cap = D 5 (-1),
      rc_q1_hard_soxx_weight_cap = D 2 (-1), rc_live_mirror_semiconductor_weight_cap = D 2 (-1),
      rc_release_daily_loss_soft_fraction = D 5 (-1), rc_release_drawdown_threshold = D 4 (-2),
      rc_release_consecutive_valid_checks = 3, rc_quantity_precision = D 1 (-6),
      rc_leveraged_symbols = {''TQQQ''}, rc_semiconductor_symbols = {''SOXX''}\<rparr>"

definition ex_check :: risk_check_input where
  "ex_check =
     \<lparr>rk_arm_id = Q1_DET, rk_calendar_session_id = ''s1'', rk_scheduled_at = 100,
      rk_decision_created_at = 101, rk_positions = [(''QQQ'', D 10 0), (''SOXX'', D 20 0)],
      rk_settled_cash_usd = D 1000 0, rk_unsettled_receivables_usd = 0,
      rk_quotes = [(''QQQ'', \<lparr>rq_symbol = ''QQQ'', rq_quote_id = ''q1'', rq_midpoint = D 400 0\<rparr>),
                   (''SOXX'', \<lparr>rq_symbol = ''SOXX'', rq_quote_id = ''q2'', rq_midpoint = D 200 0\<rparr>)],
      rk_session_open_nav_usd = D 9300 0, rk_running_peak_nav_usd = D 9500 0,
      rk_portfolio_annualized_vol = None, rk_reconciliation_ok = True,
      rk_critical_reconciliation_condition = False, rk_reconciliation_status = ''OK''\<rparr>"

lemma ex_config_valid: "validate_risk_engine_config ex_config = Inr ex_config"
  by code_simp

lemma ex_check_valid: "validate_risk_check_input ex_check = Inr ex_check"
  by code_simp

definition ex_metrics :: risk_metrics where
  "ex_metrics =
     \<lparr>rm_current_nav_usd = Dec False 9000 0,
      rm_daily_loss = Dec False 3225806451612903225806451613 (- 29),
      rm_run_drawdown = Dec False 5263157894736842105263157895 (- 29),
      rm_daily_sigma = None, rm_soft_daily_threshold = Dec False 1 (- 2),
      rm_hard_daily_threshold = Dec False 2 (- 2), rm_indicated_severity = HARD_REDUCE\<rparr>"

lemma ex_metrics_evaluated: "evaluate_risk_check ex_check ex_config = Inr ex_metrics"
  by (simp add: evaluate_risk_check_def ex_check_def ex_config_def ex_metrics_def positive_positions_def
      position_value_def dict_has_def dict_lookup_def indicate_def clip_def dec_eval cong: eval_congs split del: if_split)

text \<open>The net asset value of a check without rounding.\<close>

definition exact_check_nav :: "risk_check_input \<Rightarrow> rat" where
  "exact_check_nav check =
     dval (rk_settled_cash_usd check) + dval (rk_unsettled_receivables_usd check)
     + (\<Sum>(s, q)\<leftarrow>rk_positions check.
          dval q * (case map_of (rk_quotes check) s of None \<Rightarrow> 0 | Some quote \<Rightarrow> dval (rq_midpoint quote)))"

lemma evaluated_nav:
  assumes "evaluate_risk_check check config = Inr m"
  obtains vals where "rmap (position_value (rk_quotes check)) (positive_positions (rk_positions check)) = Inr vals"
    "rm_current_nav_usd m = rk_settled_cash_usd check + rk_unsettled_receivables_usd check + dsum vals"
  using assms by (auto simp: evaluate_risk_check_def result_simps Let_def split: if_splits)

lemma positive_positions_value:
  assumes "\<forall>q\<in>set (dict_values ps). 0 \<le> dval q"
  shows "(\<Sum>(s, q)\<leftarrow>positive_positions ps. dval q * f s) = (\<Sum>(s, q)\<leftarrow>ps. dval q * f s)"
  using assms by (induction ps) (auto simp: positive_positions_def dict_values_def less_decimal_dval)

lemma nav_near_exact:
  assumes check: "validate_risk_check_input check = Inr check"
    and quotes: "\<forall>(s, quote)\<in>set (rk_quotes check). validate_risk_quote quote = Inr quote"
    and ev: "evaluate_risk_check check config = Inr m"
  shows "near (length (rk_positions check) + 2) (dval (rm_current_nav_usd m)) (exact_check_nav check)"
    and "0 \<le> exact_check_nav check"
proof -
  let ?ps = "positive_positions (rk_positions check)"
  let ?v = "\<lambda>(s, q). dval q * (case map_of (rk_quotes check) s of None \<Rightarrow> 0 | Some quote \<Rightarrow> dval (rq_midpoint quote))"
  obtain vals where vs: "rmap (position_value (rk_quotes check)) ?ps = Inr vals"
    and nav: "rm_current_nav_usd m = rk_settled_cash_usd check + rk_unsettled_receivables_usd check + dsum vals"
    using ev by (rule evaluated_nav)
  have cash: "0 \<le> dval (rk_settled_cash_usd check)" "0 \<le> dval (rk_unsettled_receivables_usd check)"
    and long: "\<forall>q\<in>set (dict_values (rk_positions check)). 0 \<le> dval q"
    using check by (auto simp: validate_risk_check_input_def dval_simps not_less split: if_splits)
  have exact: "exact_check_nav check = dval (rk_settled_cash_usd check) + dval (rk_unsettled_receivables_usd check) + (\<Sum>p\<leftarrow>?ps. ?v p)"
    using positive_positions_value [OF long] by (simp add: exact_check_nav_def)
  have each: "near 1 (dval x) (?v p) \<and> 0 \<le> ?v p" if "position_value (rk_quotes check) p = Inr x" "p \<in> set ?ps" for p x
  proof -
    obtain s q where "p = (s, q)" by (cases p)
    with that(1) obtain quote where p: "p = (s, q)" "map_of (rk_quotes check) s = Some quote" "x = q * rq_midpoint quote"
      by (auto simp: position_value_def dict_lookup_def rbind_eq_Inr split: option.splits)
    have "0 < dval q" using that(2) by (simp add: p(1) positive_positions_def dval_simps)
    moreover have "0 < dval (rq_midpoint quote)"
      using quotes map_of_SomeD [OF p(2)] by (auto simp: validate_risk_quote_def dval_simps not_le split: if_splits)
    ultimately show ?thesis using near_ctx [OF near_refl] by (simp add: p dval_times)
  qed
  have vals: "list_all2 (\<lambda>x y. near 1 (dval x) y \<and> 0 \<le> y) vals (map ?v ?ps)"
    using vs each by (simp add: rmap_eq_Inr list_all2_map2 list_all2_conv_all_nth)
  have len: "length vals = length ?ps" using vs by (rule rmap_Inr_length)
  have sum: "0 \<le> (\<Sum>p\<leftarrow>?ps. ?v p)"
    by (rule sum_list_nonneg) (use list_all2_mem(2) [OF vals] in blast)
  show "0 \<le> exact_check_nav check" using cash sum by (simp add: exact)
  have "near 1 (ctx (dval (rk_settled_cash_usd check) + dval (rk_unsettled_receivables_usd check)))
      (dval (rk_settled_cash_usd check) + dval (rk_unsettled_receivables_usd check))"
    using near_ctx [OF near_refl] by simp
  then have "near (length vals + 1) (ctx (dval (rk_settled_cash_usd check) + dval (rk_unsettled_receivables_usd check)))
      (dval (rk_settled_cash_usd check) + dval (rk_unsettled_receivables_usd check))"
    by (rule near_mono) simp
  from near_ctx [OF near_add [OF this near_dsum [OF vals]]] cash sum
  have "near (length ?ps + 2) (dval (rm_current_nav_usd m)) (exact_check_nav check)"
    by (simp add: nav exact dval_plus len)
  then show "near (length (rk_positions check) + 2) (dval (rm_current_nav_usd m)) (exact_check_nav check)"
    by (rule near_mono) (simp add: positive_positions_def)
qed

text \<open>A relative loss follows its net asset value.\<close>

lemma loss_chain:
  fixes x y z :: rat
  assumes "\<bar>x - y\<bar> \<le> a" "\<bar>y - z\<bar> \<le> d" "d \<le> b"
  shows "\<bar>x - z\<bar> \<le> a + b"
  using assms by linarith

lemma max_loss_diff:
  fixes S N E :: rat
  assumes "0 < S"
  shows "\<bar>max 0 ((S - N) / S) - max 0 ((S - E) / S)\<bar> \<le> \<bar>N - E\<bar> / S"
proof -
  have "\<bar>max 0 ((S - N) / S) - max 0 ((S - E) / S)\<bar> \<le> \<bar>(S - N) / S - (S - E) / S\<bar>" by (auto simp: max_def)
  also have "\<dots> = \<bar>N - E\<bar> / S" using assms by (simp add: diff_divide_distrib [symmetric] abs_minus_commute)
  finally show ?thesis .
qed

text \<open>
  C15. For a valid configuration and a valid check with valid quotes, the current net asset value is
  the settled cash, the receivables and the value of the positions at the midpoints, up to the
  roundings of the sum (two more than there are positions). The losses lie between zero and
  one and are the relative losses of that exact value against the session open and the running
  peak, up to three roundings and the relative error of the value. The two daily thresholds lie
  between their configured floors and ceilings.\<close>

theorem risk_metrics_bounds:
  assumes "validate_risk_engine_config config = Inr config"
    and "validate_risk_check_input check = Inr check"
    and "\<forall>(s, quote)\<in>set (rk_quotes check). validate_risk_quote quote = Inr quote"
    and "evaluate_risk_check check config = Inr m"
    and "nav = exact_check_nav check"
    and "err = (1 + eps) ^ (length (rk_positions check) + 2) - 1"
  shows "(0 < dval (rm_current_nav_usd m) \<and> \<bar>dval (rm_current_nav_usd m) - nav\<bar> \<le> err * nav)
    \<and> (0 \<le> dval (rm_daily_loss m) \<and> dval (rm_daily_loss m) \<le> 1)
    \<and> (0 \<le> dval (rm_run_drawdown m) \<and> dval (rm_run_drawdown m) \<le> 1)
    \<and> (\<bar>dval (rm_daily_loss m)
          - max 0 ((dval (rk_session_open_nav_usd check) - nav) / dval (rk_session_open_nav_usd check))\<bar>
         \<le> 3 * eps + err * nav / dval (rk_session_open_nav_usd check))
    \<and> (\<bar>dval (rm_run_drawdown m)
          - max 0 ((dval (rk_running_peak_nav_usd check) - nav) / dval (rk_running_peak_nav_usd check))\<bar>
         \<le> 3 * eps + err * nav / dval (rk_running_peak_nav_usd check))
    \<and> (rc_soft_daily_floor config \<le> rm_soft_daily_threshold m
         \<and> rm_soft_daily_threshold m \<le> rc_soft_daily_ceiling config)
    \<and> (rc_hard_daily_floor config \<le> rm_hard_daily_threshold m
         \<and> rm_hard_daily_threshold m \<le> rc_hard_daily_ceiling config)"
proof (intro conjI)
  note ev = evaluate_risk_check_Inr [OF assms(4)]
  note cfg = validate_risk_engine_config_Inr [OF assms(1)]
  define N S P where "N = dval (rm_current_nav_usd m)" and "S = dval (rk_session_open_nav_usd check)"
    and "P = dval (rk_running_peak_nav_usd check)"
  have pos: "0 < S" "0 < P" using validate_risk_check_input_Inr [OF assms(2)] by (simp_all add: S_def P_def)
  show N: "0 < dval (rm_current_nav_usd m)" by (rule ev)
  show "\<bar>dval (rm_current_nav_usd m) - nav\<bar> \<le> err * nav"
    using nav_near_exact [OF assms(2-4)] unfolding near_def assms(5,6) by (simp only: abs_of_nonneg)
  then have near: "\<bar>N - nav\<bar> / S \<le> err * nav / S" "\<bar>N - nav\<bar> / P \<le> err * nav / P"
    using pos by (simp_all only: N_def divide_right_mono less_imp_le)
  show "0 \<le> dval (rm_daily_loss m)" "dval (rm_daily_loss m) \<le> 1"
    using rel_loss_bounds [OF pos(1) N] ev(2) by (simp_all add: S_def)
  show "0 \<le> dval (rm_run_drawdown m)" "dval (rm_run_drawdown m) \<le> 1"
    using rel_loss_bounds [of "max P N" N] N pos ev(3) by (simp_all add: P_def N_def)
  have "\<bar>dval (rm_daily_loss m) - max 0 ((S - N) / S)\<bar> \<le> 3 * eps"
    using rel_loss_error [OF pos(1) N] unfolding ev(2) S_def [symmetric] N_def [symmetric] by simp
  then show "\<bar>dval (rm_daily_loss m)
      - max 0 ((dval (rk_session_open_nav_usd check) - nav) / dval (rk_session_open_nav_usd check))\<bar>
     \<le> 3 * eps + err * nav / dval (rk_session_open_nav_usd check)"
    unfolding S_def [symmetric] by (rule loss_chain [OF _ max_loss_diff [OF pos(1)] near(1)])
  have "max 0 ((max P N - N) / max P N) = max 0 ((P - N) / P)"
    using pos by (cases "N \<le> P") (auto simp: max_def divide_le_0_iff zero_le_divide_iff)
  then have "\<bar>dval (rm_run_drawdown m) - max 0 ((P - N) / P)\<bar> \<le> 3 * eps"
    using rel_loss_error [of "max P N" N] N pos unfolding ev(3) P_def [symmetric] N_def [symmetric] by simp
  then show "\<bar>dval (rm_run_drawdown m)
      - max 0 ((dval (rk_running_peak_nav_usd check) - nav) / dval (rk_running_peak_nav_usd check))\<bar>
     \<le> 3 * eps + err * nav / dval (rk_running_peak_nav_usd check)"
    unfolding P_def [symmetric] by (rule loss_chain [OF _ max_loss_diff [OF pos(2)] near(2)])
  show "rc_soft_daily_floor config \<le> rm_soft_daily_threshold m" "rm_soft_daily_threshold m \<le> rc_soft_daily_ceiling config"
    unfolding ev(6) using cfg clip_bounds by auto
  show "rc_hard_daily_floor config \<le> rm_hard_daily_threshold m" "rm_hard_daily_threshold m \<le> rc_hard_daily_ceiling config"
    unfolding ev(7) using cfg clip_bounds by auto
qed

theorem risk_metrics_bounds_witness:
  "exact_check_nav ex_check = 9000 \<and> \<bar>dval (rm_current_nav_usd ex_metrics) - 9000\<bar> \<le> ((1 + eps) ^ 4 - 1) * 9000
   \<and> dval (rm_daily_loss ex_metrics) \<le> 1 \<and> rc_hard_daily_floor ex_config \<le> rm_hard_daily_threshold ex_metrics"
proof -
  have "\<forall>(s, quote)\<in>set (rk_quotes ex_check). validate_risk_quote quote = Inr quote"
    by (simp add: ex_check_def validate_risk_quote_def dval_simps)
  moreover have "exact_check_nav ex_check = 9000" "length (rk_positions ex_check) = 2"
    by (simp_all add: exact_check_nav_def ex_check_def dval_simps)
  ultimately show ?thesis
    using risk_metrics_bounds [OF ex_config_valid ex_check_valid _ ex_metrics_evaluated refl refl]
    by (simp only: numeral_plus_numeral simp_thms) simp
qed

text \<open>
  Losing more never lowers the alarm: with the same references and volatility, a check with a
  lower net asset value (however it came about) and at least the same critical condition
  indicates at least the same severity.\<close>

theorem severity_monotone_in_nav:
  assumes "validate_risk_check_input check = Inr check"
    and "evaluate_risk_check check config = Inr m"
    and "evaluate_risk_check check' config = Inr m'"
    and "rk_session_open_nav_usd check' = rk_session_open_nav_usd check"
    and "rk_running_peak_nav_usd check' = rk_running_peak_nav_usd check"
    and "rk_portfolio_annualized_vol check' = rk_portfolio_annualized_vol check"
    and "rk_critical_reconciliation_condition check \<longrightarrow> rk_critical_reconciliation_condition check'"
    and "rm_current_nav_usd m' \<le> rm_current_nav_usd m"
  shows "rm_indicated_severity m \<le> rm_indicated_severity m'"
proof -
  note ev = evaluate_risk_check_Inr [OF assms(2)] and ev' = evaluate_risk_check_Inr [OF assms(3)]
  define N N' S P where "N = dval (rm_current_nav_usd m)" and "N' = dval (rm_current_nav_usd m')"
    and "S = dval (rk_session_open_nav_usd check)" and "P = dval (rk_running_peak_nav_usd check)"
  note names = N_def [symmetric] N'_def [symmetric] S_def [symmetric] P_def [symmetric]
  have pos: "0 < S" "0 < P" using validate_risk_check_input_Inr [OF assms(1)] by (simp_all add: S_def P_def)
  have le: "N' \<le> N" using assms(8) by (simp add: N_def N'_def dval_simps)
  have "rel_loss S N \<le> rel_loss S N'" by (rule rel_loss_antimono [OF pos(1) le])
  moreover have "rel_loss (max P N) N \<le> rel_loss (max P N') N'"
  proof (cases "N \<le> P")
    case True
    then have "max P N = P" "max P N' = P" using le by auto
    then show ?thesis using rel_loss_antimono [OF pos(2) le] by simp
  qed (simp add: rel_loss_def max_def)
  moreover have "rm_daily_sigma m' = rm_daily_sigma m" using ev(5) ev'(5) assms(6) by simp
  moreover have "rm_soft_daily_threshold m' = rm_soft_daily_threshold m"
    "rm_hard_daily_threshold m' = rm_hard_daily_threshold m"
    unfolding ev(6,7) ev'(6,7) calculation(3) by (rule refl)+
  ultimately show ?thesis
    using ev(2,3) ev'(2,3) assms(4,5,7) unfolding ev(4) ev'(4)
    by (auto intro!: indicate_mono simp: dval_simps N_def N'_def S_def P_def)
qed



theorem severity_monotone_in_nav_witness:
  "HARD_REDUCE \<le> rm_indicated_severity (ex_metrics
     \<lparr>rm_current_nav_usd := Dec False 8100 0,
      rm_daily_loss := Dec False 1290322580645161290322580645 (- 28),
      rm_run_drawdown := Dec False 1473684210526315789473684211 (- 28),
      rm_indicated_severity := CRITICAL_EXIT\<rparr>)"
proof -
  define check' where "check' = ex_check\<lparr>rk_settled_cash_usd := D 100 0\<rparr>"
  define m' where "m' = ex_metrics
     \<lparr>rm_current_nav_usd := Dec False 8100 0,
      rm_daily_loss := Dec False 1290322580645161290322580645 (- 28),
      rm_run_drawdown := Dec False 1473684210526315789473684211 (- 28),
      rm_indicated_severity := CRITICAL_EXIT\<rparr>"
  have "evaluate_risk_check check' ex_config = Inr m'"
    by (simp add: check'_def m'_def evaluate_risk_check_def ex_check_def ex_config_def ex_metrics_def
        positive_positions_def position_value_def dict_has_def dict_lookup_def indicate_def clip_def dec_eval cong: eval_congs split del: if_split)
  then have "rm_indicated_severity ex_metrics \<le> rm_indicated_severity m'"
    by (rule severity_monotone_in_nav [OF ex_check_valid ex_metrics_evaluated])
       (simp_all add: check'_def m'_def ex_check_def ex_metrics_def dec_eval cong: eval_congs split del: if_split)
  then show ?thesis by (simp add: m'_def ex_metrics_def)
qed

section \<open>Exposure after a reduction\<close>

text \<open>A quantity derived from a value never exceeds the value at the quoted price.\<close>

lemma value_to_quantity_bounds:
  assumes "value_to_quantity quotes precision p = Inr r"
    and "map_of quotes (fst p) = Some quote" "0 < dval (rq_midpoint quote)" "0 \<le> dval (snd p)"
  shows "fst r = fst p" "0 \<le> dval (snd r)"
    and "dval (snd r) \<le> ctx (dval (snd p) / dval (rq_midpoint quote))"
    and "dval (snd r) * dval (rq_midpoint quote) \<le> dval (snd p) * (1 + eps)"
    and "on_grid (dexp precision) (dval (snd r))"
proof -
  define m where "m = dval (rq_midpoint quote)"
  define u where "u = d_div (snd p) (rq_midpoint quote)"
  have u: "dval u = ctx (dval (snd p) / m)" using assms(3) by (simp add: u_def m_def dval_d_div)
  have r: "quantize ROUND_DOWN precision u = Inr (snd r)" and fst: "fst r = fst p"
    using assms(1,2) by (auto simp: value_to_quantity_def result_simps floor_quantity_def u_def)
  have u0: "0 \<le> dval u" using assms(3,4) unfolding u m_def by (intro ctx_nonneg) simp
  note d = quantize_down [OF r u0]
  show "fst r = fst p" by (rule fst)
  show "0 \<le> dval (snd r)" by (rule d)
  show "dval (snd r) \<le> ctx (dval (snd p) / dval (rq_midpoint quote))" using d(2) u by (simp add: m_def)
  have "dval (snd r) * m \<le> dval (snd p) / m * (1 + eps) * m"
    using d(2) u assms(3,4) ctx_upper [of "dval (snd p) / m"] by (intro mult_right_mono) (auto simp: m_def)
  then show "dval (snd r) * dval (rq_midpoint quote) \<le> dval (snd p) * (1 + eps)"
    using assms(3) by (simp add: m_def)
  show "on_grid (dexp precision) (dval (snd r))"
    using quantize_value(1) [OF r] by (auto simp: on_grid_def)
qed


lemma cap_soxx_le:
  assumes "distinct (dict_keys values)"
  shows "dict_keys (cap_soxx limit values) = dict_keys values"
    and "(s, w) \<in> set (cap_soxx limit values) \<Longrightarrow>
           \<exists>v. (s, v) \<in> set values \<and> dval w \<le> dval v \<and> (s = ''SOXX'' \<longrightarrow> dval w \<le> dval limit)
             \<and> (w = v \<or> w = limit)"
proof -
  show "dict_keys (cap_soxx limit values) = dict_keys values"
  proof (cases "map_of values ''SOXX''")
    case (Some v)
    then have "''SOXX'' \<in> set (map fst values)" by (metis map_of_eq_None_iff option.distinct(1) set_map)
    then show ?thesis using Some by (simp add: cap_soxx_def dict_keys_def update_keys)
  qed (simp add: cap_soxx_def)
  assume "(s, w) \<in> set (cap_soxx limit values)"
  then show "\<exists>v. (s, v) \<in> set values \<and> dval w \<le> dval v \<and> (s = ''SOXX'' \<longrightarrow> dval w \<le> dval limit)
      \<and> (w = v \<or> w = limit)"
  proof (cases "map_of values ''SOXX''")
    case None
    then have "(s, w) \<in> set values" using \<open>(s, w) \<in> _\<close> by (simp add: cap_soxx_def)
    moreover have "s \<noteq> ''SOXX''" using None \<open>(s, w) \<in> set values\<close> by (auto simp: map_of_eq_None_iff image_iff)
    ultimately show ?thesis by auto
  next
    case (Some v)
    let ?u = "AList.update ''SOXX'' (py_min v limit) values"
    have d: "distinct (map fst ?u)" using assms by (simp add: dict_keys_def distinct_update)
    have "map_of ?u s = Some w" using \<open>(s, w) \<in> _\<close> d Some by (simp add: cap_soxx_def)
    then have "(if s = ''SOXX'' then Some (py_min v limit) else map_of values s) = Some w"
      by (simp add: update_conv' split: if_splits)
    then show ?thesis using map_of_SomeD [OF Some]
      by (auto split: if_splits simp: py_min_def less_decimal_dval dest: map_of_SomeD)
  qed
qed

lemma scale_to_cap_sum:
  assumes "scale_to_cap cap values = Inr scaled"
    and "\<forall>v\<in>set (dict_values values). 0 \<le> dval v" "0 \<le> dval cap" "length values \<le> 2"
    and "\<forall>v\<in>set (dict_values values). ctx (dval v) = dval v"
  shows "dict_keys scaled = dict_keys values"
    and "(s, w) \<in> set scaled \<Longrightarrow> \<exists>v. (s, v) \<in> set values \<and> 0 \<le> dval w \<and> dval w \<le> dval v"
    and "(\<Sum>v\<leftarrow>dict_values scaled. dval v) * (1 - eps) ^ 2 \<le> dval cap * (1 + eps) ^ 2"
proof -
  define G where "G = dsum (dict_values values)"
  define V where "V = (\<Sum>v\<leftarrow>dict_values values. dval v)"
  have e: "0 \<le> 1 - eps" "1 - eps \<le> 1" by (simp_all add: power_int_def power_one_over)
  have V0: "0 \<le> V" unfolding V_def using assms(2) by (intro sum_list_nonneg) auto
  have "V * (1 - eps) ^ 2 \<le> V * (1 - eps) ^ length values"
    using V0 e assms(4) by (intro mult_left_mono power_decreasing) auto
  then have VG: "V * (1 - eps) ^ 2 \<le> dval G"
    using dsum_lower [of "dict_values values"] assms(2) by (simp add: G_def V_def dict_values_def)
  have sq: "1 \<le> (1 + eps) ^ 2" by (simp add: power_int_def power_one_over one_le_power)
  have "dict_keys scaled = dict_keys values
    \<and> (\<forall>(s, w)\<in>set scaled. \<exists>v. (s, v) \<in> set values \<and> 0 \<le> dval w \<and> dval w \<le> dval v)
    \<and> (\<Sum>v\<leftarrow>dict_values scaled. dval v) * (1 - eps) ^ 2 \<le> dval cap * (1 + eps) ^ 2"
  proof (cases "cap < G")
    case False
    then have "scaled = values" "dval G \<le> dval cap"
      using assms(1) by (auto simp: scale_to_cap_def Let_def G_def dval_simps not_less)
    moreover have "dval cap * 1 \<le> dval cap * (1 + eps) ^ 2" using assms(3) sq by (intro mult_left_mono) auto
    moreover have "\<forall>(s, v)\<in>set values. 0 \<le> dval v \<and> ctx (dval v) = dval v"
      using assms(2,5) by (force simp: dict_values_def)
    ultimately show ?thesis using VG by (fastforce simp: V_def [symmetric])
  next
    case True
    then have lt: "dval cap < dval G" by (simp add: dval_simps)
    define sc where "sc = d_div cap G"
    have sc: "dval sc = ctx (dval cap / dval G)" using lt assms(3) by (simp add: sc_def dval_d_div)
    have sc0: "0 \<le> dval sc" using lt assms(3) unfolding sc by (intro ctx_nonneg) simp
    have "dval cap / dval G \<le> pow10 0" using lt assms(3) by simp
    then have sc1: "dval sc \<le> 1" unfolding sc using ctx_le_pow10 [of _ 0] by simp
    have "0 < dval G" using lt assms(3) by simp
    then have scG: "dval sc * dval G \<le> dval cap * (1 + eps)"
      using ctx_upper [of "dval cap / dval G"] lt assms(3) unfolding sc by (simp add: field_simps)
    have scaled: "scaled = map (\<lambda>p. (fst p, snd p * sc)) values"
      using assms(1) True by (simp add: scale_to_cap_def Let_def G_def result_simps sc_def)
    have w: "0 \<le> dval (v * sc) \<and> dval (v * sc) \<le> dval v \<and> dval (v * sc) \<le> dval v * dval sc * (1 + eps)"
      if mem: "v \<in> set (dict_values values)" for v
    proof -
      have v0: "0 \<le> dval v" using assms(2) mem by blast
      have "dval v * dval sc \<le> dval v * 1" using v0 sc1 by (intro mult_left_mono) auto
      then have "ctx (dval v * dval sc) \<le> ctx (dval v)" by (intro ctx_mono) simp
      then show ?thesis
        using v0 sc0 bspec [OF assms(5) mem] ctx_upper [of "dval v * dval sc"] by (simp add: dval_simps ctx_nonneg)
    qed
    have "(\<Sum>v\<leftarrow>dict_values scaled. dval v) = (\<Sum>v\<leftarrow>dict_values values. dval (v * sc))"
      by (simp add: scaled dict_values_def comp_def)
    also have "\<dots> \<le> (\<Sum>v\<leftarrow>dict_values values. dval v * (dval sc * (1 + eps)))"
      using w by (intro sum_list_mono) (simp add: mult.assoc)
    also have "\<dots> = V * (dval sc * (1 + eps))" unfolding V_def by (rule sum_list_mult_const)
    finally have "(\<Sum>v\<leftarrow>dict_values scaled. dval v) * (1 - eps) ^ 2 \<le> V * (dval sc * (1 + eps)) * (1 - eps) ^ 2"
      by (rule mult_right_mono) simp
    also have "\<dots> = V * (1 - eps) ^ 2 * (dval sc * (1 + eps))" by (simp add: mult_ac)
    also have "\<dots> \<le> dval G * (dval sc * (1 + eps))"
      using VG sc0 by (intro mult_right_mono) auto
    also have "\<dots> = dval sc * dval G * (1 + eps)" by (simp add: mult_ac)
    also have "\<dots> \<le> dval cap * (1 + eps) * (1 + eps)" using scG by (intro mult_right_mono) auto
    finally have "(\<Sum>v\<leftarrow>dict_values scaled. dval v) * (1 - eps) ^ 2 \<le> dval cap * (1 + eps) ^ 2"
      by (simp add: power2_eq_square mult.assoc)
    moreover have "\<exists>v. (s, v) \<in> set values \<and> 0 \<le> dval x \<and> dval x \<le> dval v" if "(s, x) \<in> set scaled" for s x
      using that w by (force simp: scaled dict_values_def)
    ultimately show ?thesis by (auto simp: scaled dict_keys_def)
  qed
  then show "dict_keys scaled = dict_keys values"
    "(s, w) \<in> set scaled \<Longrightarrow> \<exists>v. (s, v) \<in> set values \<and> 0 \<le> dval w \<and> dval w \<le> dval v"
    "(\<Sum>v\<leftarrow>dict_values scaled. dval v) * (1 - eps) ^ 2 \<le> dval cap * (1 + eps) ^ 2" by blast+
qed


lemma target_within_holding:
  assumes "0 < q" "on_grid g q" "q \<le> pow10 (g + 26)" "0 < m"
    and "w \<le> ctx (q * m)" "t \<le> ctx (w / m)" "on_grid g t"
  shows "t \<le> q"
proof (rule grid_floor [OF assms(2,7)])
  have "w / m \<le> q * m * (1 + eps) / m"
    using assms(1,4,5) ctx_upper [of "q * m"] by (intro divide_right_mono) auto
  also have "\<dots> = q * (1 + eps)" using assms(4) by simp
  finally have "ctx (w / m) \<le> ctx (q * (1 + eps))" by (rule ctx_mono)
  also have "\<dots> \<le> q * (1 + eps) * (1 + eps)" using assms(1) by (intro ctx_upper) simp
  also have "\<dots> = q + q * (2 * eps + eps * eps)" by (simp add: algebra_simps)
  also have "q * (2 * eps + eps * eps) \<le> pow10 (g + 26) * (2 * eps + eps * eps)"
    using assms(3) by (intro mult_right_mono) auto
  also have "\<dots> < pow10 g" by (simp add: pow10_add)
  finally show "t < q + pow10 g" using assms(6) by simp
qed

text \<open>The values behind the targets: exposure per symbol, before and after capping.\<close>

lemma q1_hard_targets_stages:
  assumes "q1_hard_targets positions quotes nav config = Inr targets" "distinct (dict_keys positions)"
    and "0 \<le> dval nav" "0 \<le> dval (rc_q1_hard_soxx_weight_cap config)" "0 \<le> dval (rc_q1_hard_gross_cap config)"
    and "\<And>s q. (s, q) \<in> set positions \<Longrightarrow> 0 < dval q"
    and "\<And>s quote. (s, quote) \<in> set quotes \<Longrightarrow> 0 < dval (rq_midpoint quote)"
  obtains scaled where
    "list_all2 (\<lambda>p r. value_to_quantity quotes (rc_quantity_precision config) p = Inr r) (sorted_items scaled) targets"
    "(\<Sum>(s, v)\<leftarrow>scaled. dval v) * (1 - eps) ^ 2 \<le> dval (nav * rc_q1_hard_gross_cap config) * (1 + eps) ^ 2"
    "\<And>s w. (s, w) \<in> set scaled \<Longrightarrow> \<exists>q quote. (s, q) \<in> set positions \<and> map_of quotes s = Some quote
       \<and> 0 \<le> dval w \<and> dval w \<le> ctx (dval q * dval (rq_midpoint quote))
       \<and> (s = ''SOXX'' \<longrightarrow> dval w \<le> dval (nav * rc_q1_hard_soxx_weight_cap config))"
proof (cases "filter (\<lambda>p. fst p \<in> {''QQQ'', ''SOXX''}) positions = []")
  case True
  then have "targets = []" using assms(1) by (simp add: q1_hard_targets_def)
  then show thesis
    by (intro that [of "[]"]) (simp_all add: sorted_items_def dval_simps ctx_nonneg assms)
next
  case False
  define eligible where "eligible = filter (\<lambda>p. fst p \<in> {''QQQ'', ''SOXX''}) positions"
  define limit cap where "limit = nav * rc_q1_hard_soxx_weight_cap config" and "cap = nav * rc_q1_hard_gross_cap config"
  obtain exposures scaled where
    v: "rmap (\<lambda>p. rbind (position_value quotes p) (\<lambda>v. Inr (fst p, v))) eligible = Inr exposures"
    and sc: "scale_to_cap cap (cap_soxx limit exposures) = Inr scaled"
    and t: "rmap (value_to_quantity quotes (rc_quantity_precision config)) (sorted_items scaled) = Inr targets"
    using assms(1) False by (auto simp: q1_hard_targets_def eligible_def limit_def cap_def Let_def result_simps)
  have lim0: "0 \<le> dval limit" "0 \<le> dval cap" "ctx (dval limit) = dval limit"
    using assms(3-5) by (simp_all add: limit_def cap_def dval_simps ctx_nonneg)
  have all2: "list_all2 (\<lambda>p r. \<exists>quote. map_of quotes (fst p) = Some quote
      \<and> r = (fst p, snd p * rq_midpoint quote)) eligible exposures"
    using v unfolding rmap_eq_Inr by (auto simp: position_value_def result_simps elim!: list_all2_mono)
  then have keys: "dict_keys exposures = dict_keys eligible"
    unfolding dict_keys_def by (induction rule: list_all2_induct) auto
  have dist: "distinct (dict_keys exposures)"
    using assms(2) unfolding keys eligible_def by (simp add: dict_keys_def distinct_map_filter)
  have len: "length exposures \<le> 2"
    using list_all2_lengthD [OF all2] filter_two_keys [OF assms(2), of "''QQQ''" "''SOXX''"] by (simp add: eligible_def)
  have origin: "\<exists>q quote. (s, q) \<in> set positions \<and> map_of quotes s = Some quote
      \<and> dval w = ctx (dval q * dval (rq_midpoint quote)) \<and> 0 \<le> dval w" if mem: "(s, w) \<in> set exposures" for s w
  proof -
    obtain p quote where "p \<in> set eligible" "map_of quotes (fst p) = Some quote"
      "(s, w) = (fst p, snd p * rq_midpoint quote)"
      using list_all2_mem(2) [OF all2 mem] by blast
    then have p: "(s, snd p) \<in> set positions" "map_of quotes s = Some quote" "w = snd p * rq_midpoint quote"
      by (auto simp: eligible_def)
    then have "0 < dval (snd p)" "0 < dval (rq_midpoint quote)"
      using assms(6,7) by (auto dest: map_of_SomeD)
    then show ?thesis using p by (auto simp: dval_simps intro!: exI [of _ "snd p"] ctx_nonneg)
  qed
  have capped: "\<exists>q quote. (s, q) \<in> set positions \<and> map_of quotes s = Some quote
      \<and> 0 \<le> dval w \<and> ctx (dval w) = dval w \<and> dval w \<le> ctx (dval q * dval (rq_midpoint quote))
      \<and> (s = ''SOXX'' \<longrightarrow> dval w \<le> dval limit)" if mem: "(s, w) \<in> set (cap_soxx limit exposures)" for s w
  proof -
    obtain v where v: "(s, v) \<in> set exposures" "dval w \<le> dval v" "s = ''SOXX'' \<longrightarrow> dval w \<le> dval limit" "w = v \<or> w = limit"
      using cap_soxx_le(2) [OF dist mem] by blast
    obtain q quote where q: "(s, q) \<in> set positions" "map_of quotes s = Some quote"
      "dval v = ctx (dval q * dval (rq_midpoint quote))" "0 \<le> dval v" using origin [OF v(1)] by blast
    have "0 \<le> dval w" "ctx (dval w) = dval w" using v(4) q(3,4) lim0 by auto
    then show ?thesis using v(2,3) q by auto
  qed
  have vals: "\<forall>w\<in>set (dict_values (cap_soxx limit exposures)). 0 \<le> dval w"
    "\<forall>w\<in>set (dict_values (cap_soxx limit exposures)). ctx (dval w) = dval w"
    using capped by (fastforce simp: dict_values_def)+
  have len': "length (cap_soxx limit exposures) \<le> 2"
    using cap_soxx_le(1) [OF dist] len by (metis dict_keys_def length_map)
  note st = scale_to_cap_sum [OF sc vals(1) lim0(2) len' vals(2)]
  have sum: "(\<Sum>(s, v)\<leftarrow>scaled. dval v) * (1 - eps) ^ 2 \<le> dval cap * (1 + eps) ^ 2"
    using st(3) by (simp add: dict_values_def comp_def case_prod_unfold)
  show thesis
  proof (rule that [OF _ sum [unfolded cap_def]])
    show "list_all2 (\<lambda>p r. value_to_quantity quotes (rc_quantity_precision config) p = Inr r) (sorted_items scaled) targets"
      using t by (simp add: rmap_eq_Inr)
    show "\<exists>q quote. (s, q) \<in> set positions \<and> map_of quotes s = Some quote
       \<and> 0 \<le> dval w \<and> dval w \<le> ctx (dval q * dval (rq_midpoint quote))
       \<and> (s = ''SOXX'' \<longrightarrow> dval w \<le> dval (nav * rc_q1_hard_soxx_weight_cap config))"
      if "(s, w) \<in> set scaled" for s w
      using st(2) [OF that] capped unfolding limit_def by (meson order_trans)
  qed
qed

text \<open>
  C16. A hard reduction of a Q1 arm only sells: each target lies between zero and the quantity
  held, the targets together are worth at most the configured share of the net asset value at
  the trigger quotes, and SOXX at most its own share, up to the relative rounding of the
  28-digit arithmetic. Quantities are assumed to be multiples of the quantity precision.\<close>

theorem q1_hard_targets_reduce_exposure:
  assumes "validate_risk_engine_config config = Inr config"
    and "q1_hard_targets positions quotes nav config = Inr targets"
    and "distinct (dict_keys positions)" "0 < dval nav"
    and "\<forall>(s, quote)\<in>set quotes. validate_risk_quote quote = Inr quote"
    and "\<forall>(s, q)\<in>set positions. 0 < dval q \<and> on_grid (dexp (rc_quantity_precision config)) (dval q)
           \<and> dval q \<le> pow10 (dexp (rc_quantity_precision config) + 26)"
  shows "(\<forall>(s, t)\<in>set targets. \<exists>q. (s, q) \<in> set positions \<and> 0 \<le> dval t \<and> dval t \<le> dval q)
    \<and> ((\<Sum>(s, t)\<leftarrow>targets. dval t * dval (rq_midpoint (the (map_of quotes s))))
         \<le> dval nav * dval (rc_q1_hard_gross_cap config) * (1 + pow10 (- 26)))
    \<and> (\<forall>t. (''SOXX'', t) \<in> set targets \<longrightarrow>
           dval t * dval (rq_midpoint (the (map_of quotes ''SOXX'')))
           \<le> dval nav * dval (rc_q1_hard_soxx_weight_cap config) * (1 + pow10 (- 26)))"
proof (intro conjI)
  define g where "g = dexp (rc_quantity_precision config)"
  define mid where "mid s = dval (rq_midpoint (the (map_of quotes s)))" for s
  have mids: "0 < dval (rq_midpoint quote)" if "(s, quote) \<in> set quotes" for s quote
    using assms(5) that by (fastforce simp: validate_risk_quote_def dval_simps not_le split: if_splits)
  have caps: "0 \<le> dval (rc_q1_hard_soxx_weight_cap config)" "0 \<le> dval (rc_q1_hard_gross_cap config)"
    using validate_risk_engine_config_Inr [OF assms(1)] by (auto simp: config_fractions_def dval_simps)
  obtain scaled where
    t: "list_all2 (\<lambda>p r. value_to_quantity quotes (rc_quantity_precision config) p = Inr r) (sorted_items scaled) targets"
    and sum: "(\<Sum>(s, v)\<leftarrow>scaled. dval v) * (1 - eps) ^ 2 \<le> dval (nav * rc_q1_hard_gross_cap config) * (1 + eps) ^ 2"
    and origin: "\<And>s w. (s, w) \<in> set scaled \<Longrightarrow> \<exists>q quote. (s, q) \<in> set positions \<and> map_of quotes s = Some quote
       \<and> 0 \<le> dval w \<and> dval w \<le> ctx (dval q * dval (rq_midpoint quote))
       \<and> (s = ''SOXX'' \<longrightarrow> dval w \<le> dval (nav * rc_q1_hard_soxx_weight_cap config))"
    by (rule q1_hard_targets_stages [OF assms(2,3) less_imp_le [OF assms(4)] caps _ mids]) (use assms(6) in auto)
  have target: "s' = s \<and> dval t * mid s \<le> dval w * (1 + eps) \<and> (\<exists>q. (s, q) \<in> set positions \<and> 0 \<le> dval t \<and> dval t \<le> dval q)"
    if mem: "(s, w) \<in> set scaled" and vq: "value_to_quantity quotes (rc_quantity_precision config) (s, w) = Inr (s', t)"
    for s w s' t
  proof -
    obtain q quote where q: "(s, q) \<in> set positions" "map_of quotes s = Some quote" "0 \<le> dval w"
      "dval w \<le> ctx (dval q * dval (rq_midpoint quote))" using origin [OF mem] by blast
    have m: "0 < dval (rq_midpoint quote)" using mids q(2) by (blast dest: map_of_SomeD)
    note b = value_to_quantity_bounds [OF vq, simplified, OF q(2) m q(3)]
    have "dval t \<le> dval q"
      using assms(6) q(1) by (intro target_within_holding [OF _ _ _ m q(4) b(3) b(5)]) auto
    then show ?thesis using b(1,2,4) q(1,2) by (auto simp: mid_def)
  qed
  have scaled_mem: "p \<in> set scaled" if "p \<in> set (sorted_items scaled)" for p using that by (simp add: sorted_items_def)
  have each: "\<exists>w. (s, w) \<in> set scaled \<and> value_to_quantity quotes (rc_quantity_precision config) (s, w) = Inr (s, t)"
    if mem: "(s, t) \<in> set targets" for s t
    using list_all2_mem(2) [OF t mem] target scaled_mem by (metis prod.collapse)
  show "\<forall>(s, t)\<in>set targets. \<exists>q. (s, q) \<in> set positions \<and> 0 \<le> dval t \<and> dval t \<le> dval q"
    using each target by blast
  have "(\<Sum>(s, t)\<leftarrow>targets. dval t * mid s) \<le> (\<Sum>(s, w)\<leftarrow>sorted_items scaled. dval w * (1 + eps))"
    by (rule sum_list_all2_mono [OF t]) (use target scaled_mem in fastforce)
  also have "\<dots> = (\<Sum>(s, w)\<leftarrow>scaled. dval w * (1 + eps))"
    using sum_list_mset_cong [of "sorted_items scaled" scaled _ "\<lambda>_. True"] by (simp add: sorted_items_def)
  also have "\<dots> = (\<Sum>(s, w)\<leftarrow>scaled. dval w) * (1 + eps)"
    unfolding case_prod_unfold by (rule sum_list_mult_const)
  finally have "(\<Sum>(s, t)\<leftarrow>targets. dval t * mid s) * (1 - eps) ^ 2
      \<le> (\<Sum>(s, w)\<leftarrow>scaled. dval w) * (1 + eps) * (1 - eps) ^ 2" by (rule mult_right_mono) simp
  also have "\<dots> \<le> dval (nav * rc_q1_hard_gross_cap config) * (1 + eps) ^ 2 * (1 + eps)"
    using mult_right_mono [OF sum, of "1 + eps"] by (simp only: mult_ac) simp
  finally have "(\<Sum>(s, t)\<leftarrow>targets. dval t * mid s) * (1 - eps) ^ 2
      \<le> dval (nav * rc_q1_hard_gross_cap config) * (1 + eps) ^ 3"
    by (simp only: power3_eq_cube power2_eq_square mult_ac)
  then show "(\<Sum>(s, t)\<leftarrow>targets. dval t * dval (rq_midpoint (the (map_of quotes s))))
      \<le> dval nav * dval (rc_q1_hard_gross_cap config) * (1 + pow10 (- 26))"
    using caps(2) assms(4) unfolding mid_def dval_times by (intro capped_sum) auto
  show "\<forall>t. (''SOXX'', t) \<in> set targets \<longrightarrow> dval t * dval (rq_midpoint (the (map_of quotes ''SOXX'')))
      \<le> dval nav * dval (rc_q1_hard_soxx_weight_cap config) * (1 + pow10 (- 26))"
  proof (intro allI impI)
    fix t assume "(''SOXX'', t) \<in> set targets"
    then obtain w where w: "(''SOXX'', w) \<in> set scaled" "dval t * mid ''SOXX'' \<le> dval w * (1 + eps)"
      using each target by blast
    define x where "x = dval nav * dval (rc_q1_hard_soxx_weight_cap config)"
    have x: "0 \<le> x" using caps(1) assms(4) by (simp add: x_def)
    have w0: "0 \<le> dval w" "dval w \<le> ctx x" using origin [OF w(1)] by (auto simp: x_def dval_times)
    have "dval t * mid ''SOXX'' * (1 - eps) ^ 2 \<le> dval w * (1 + eps) * 1"
      by (rule mult_mono [OF w(2)]) (use w0 in \<open>auto simp: power_int_def power_one_over power_le_one\<close>)
    also have "\<dots> \<le> ctx x * (1 + eps) ^ 3"
      unfolding mult_1_right by (rule mult_mono [OF w0(2)])
        (use w0 in \<open>auto simp: power_int_def power_one_over power_divide ctx_nonneg x\<close>)
    finally show "dval t * dval (rq_midpoint (the (map_of quotes ''SOXX''))) \<le> x * (1 + pow10 (- 26))"
      unfolding mid_def by (rule capped_sum [OF _ x])
  qed
qed


lemma ex_positions_ok:
  "\<forall>(s, q)\<in>set (rk_positions ex_check). 0 < dval q \<and> on_grid (dexp (rc_quantity_precision ex_config)) (dval q)
     \<and> dval q \<le> pow10 (dexp (rc_quantity_precision ex_config) + 26)"
proof -
  have "on_grid (- 6) 10" using on_grid_of_int [of "- 6" "10 ^ 7"] by (simp add: power_int_def power_one_over)
  moreover have "on_grid (- 6) 20" using on_grid_of_int [of "- 6" "2 * 10 ^ 7"] by (simp add: power_int_def power_one_over)
  ultimately show ?thesis
    by (simp add: ex_check_def ex_config_def dval_simps) (simp add: D_def mkdec_def power_int_def)
qed

theorem q1_hard_targets_reduce_exposure_witness:
  "dval (Dec False 7758620 (- 6)) * 400 + dval (Dec False 6982758 (- 6)) * 200 \<le> 9000 * (5 / 10) * (1 + pow10 (- 26))"
proof -
  have "q1_hard_targets (rk_positions ex_check) (rk_quotes ex_check) (D 9000 0) ex_config
      = Inr [(''QQQ'', Dec False 7758620 (- 6)), (''SOXX'', Dec False 6982758 (- 6))]"
    by (simp add: q1_hard_targets_def ex_check_def ex_config_def position_value_def dict_lookup_def cap_soxx_def
        scale_to_cap_def value_to_quantity_def floor_quantity_def dict_values_def sorted_items_def
        list_less_def dec_eval cong: eval_congs split del: if_split)
  from q1_hard_targets_reduce_exposure [OF ex_config_valid this _ _ _ ex_positions_ok]
  show ?thesis
    by (simp add: ex_check_def ex_config_def validate_risk_quote_def dict_keys_def dval_D less_eq_decimal_dval)
qed

lemma build_target_zero:
  assumes "map_of (rk_quotes check) s = Some quote" "0 < dval (rq_midpoint quote)"
    and "map_of positive s = Some held" "0 \<le> dval held" "symbol_ok s" "1 \<le> generation"
    and "0 < dval (rm_current_nav_usd m)"
  shows "\<exists>t. build_target H check m positive generation (s, 0) = Inr t
     \<and> rt_symbol t = s \<and> rt_target_quantity t = 0 \<and> rt_target_generation t = generation"
proof -
  have "dval (d_div (0 * rq_midpoint quote) (rm_current_nav_usd m)) = 0"
    using assms(7) by (simp add: dval_d_div dval_times)
  then show ?thesis
    using assms by (simp add: build_target_def dict_lookup_def dec_div_def validate_risk_target_def opt_all_def
        dval_eq_0_iff [symmetric] less_eq_decimal_dval less_decimal_dval)
qed

text \<open>
  A critical exit always yields executable targets: for a check that was evaluated on valid
  quotes and well-formed symbols, the targets exist, are the held symbols in order, all zero and
  of the requested generation, and every one of them is still to be executed.\<close>

theorem critical_exit_flattens:
  assumes "evaluate_risk_check check config = Inr m" "1 \<le> generation"
    and "distinct (dict_keys (rk_positions check))"
    and "\<forall>(s, q)\<in>set (rk_positions check). symbol_ok s"
    and "\<forall>(s, quote)\<in>set (rk_quotes check). validate_risk_quote quote = Inr quote"
  shows "\<exists>ts. build_targets H check m CRITICAL_EXIT config generation = Inr ts
     \<and> map rt_symbol ts = sort (dict_keys (positive_positions (rk_positions check)))
     \<and> (\<forall>t\<in>set ts. rt_target_quantity t = 0 \<and> rt_target_generation t = generation)
     \<and> residual_targets ts (rk_positions check) = ts"
proof -
  define positive where "positive = positive_positions (rk_positions check)"
  define items where "items = sorted_items (map (\<lambda>p. (fst p, 0 :: decimal)) positive)"
  have pos: "map_of positive s = Some q \<and> map_of (rk_positions check) s = Some q \<and> 0 < dval q \<and> symbol_ok s"
    if "(s, q) \<in> set positive" for s q
    using that assms(3,4) unfolding positive_def positive_positions_def
    by (auto simp: dict_keys_def distinct_map_filter less_decimal_dval)
  have "\<exists>ts. rmap (build_target H check m positive generation) items = Inr ts
      \<and> list_all2 (\<lambda>p t. rt_symbol t = fst p \<and> rt_target_quantity t = 0 \<and> rt_target_generation t = generation) items ts"
  proof (rule rmap_exists)
    fix p assume "p \<in> set items"
    then obtain q where p: "(fst p, q) \<in> set positive" "p = (fst p, 0)"
      by (auto simp: items_def sorted_items_def)
    have "dict_has (rk_quotes check) (fst p)"
      using evaluate_risk_check_Inr(8) [OF assms(1)] p(1) by (auto simp: positive_def)
    then obtain quote where quote: "map_of (rk_quotes check) (fst p) = Some quote" by (auto simp: dict_has_def)
    then have "0 < dval (rq_midpoint quote)" using assms(5) map_of_SomeD [OF quote]
      by (fastforce simp: validate_risk_quote_def less_eq_decimal_dval not_le split: if_splits)
    from build_target_zero [OF quote this, of positive q generation m H] pos [OF p(1)] assms(2)
      evaluate_risk_check_Inr(1) [OF assms(1)]
    show "\<exists>t. build_target H check m positive generation p = Inr t
        \<and> rt_symbol t = fst p \<and> rt_target_quantity t = 0 \<and> rt_target_generation t = generation"
      using p(2) by (metis less_imp_le)
  qed
  then obtain ts where ts: "rmap (build_target H check m positive generation) items = Inr ts"
    and all2: "list_all2 (\<lambda>p t. rt_symbol t = fst p \<and> rt_target_quantity t = 0 \<and> rt_target_generation t = generation) items ts"
    by blast
  have "map rt_symbol ts = map fst items"
    using all2 by (induction rule: list_all2_induct) auto
  also have "\<dots> = sort (dict_keys positive)"
    by (simp add: items_def sorted_items_def map_sort_key dict_keys_def comp_def)
  finally have symbols: "map rt_symbol ts = sort (dict_keys positive)" .
  have zero: "\<forall>t\<in>set ts. rt_target_quantity t = 0 \<and> rt_target_generation t = generation"
    using list_all2_mem(2) [OF all2] by blast
  have "is_residual (rk_positions check) t" if "t \<in> set ts" for t
  proof -
    have "rt_symbol t \<in> set (dict_keys positive)" using that symbols by (metis image_eqI set_map set_sort)
    then obtain q where "(rt_symbol t, q) \<in> set positive" by (auto simp: dict_keys_def)
    from pos [OF this] show ?thesis using zero that by (simp add: is_residual_def dict_get_def less_decimal_dval)
  qed
  then have "residual_targets ts (rk_positions check) = ts" by (simp add: residual_targets_def)
  moreover have "build_targets H check m CRITICAL_EXIT config generation = Inr ts"
    using ts by (auto simp: build_targets_def target_quantities_def positive_def [symmetric] items_def
        sorted_items_def Let_def)
  ultimately show ?thesis using symbols zero by (auto simp: positive_def)
qed

lemma ex_quotes_ok:
  "\<forall>(s, quote)\<in>set (rk_quotes ex_check). validate_risk_quote quote = Inr quote"
  by (simp add: ex_check_def validate_risk_quote_def dval_D less_eq_decimal_dval)

theorem critical_exit_flattens_witness:
  "\<exists>ts. build_targets digits_digest ex_check ex_metrics CRITICAL_EXIT ex_config 1 = Inr ts
     \<and> map rt_symbol ts = [''QQQ'', ''SOXX'']"
proof -
  have "distinct (dict_keys (rk_positions ex_check))" "\<forall>(s, q)\<in>set (rk_positions ex_check). symbol_ok s"
    by (simp_all add: ex_check_def dict_keys_def symbol_ok_def is_upper_def is_digit_def)
  moreover have "sort (dict_keys (positive_positions (rk_positions ex_check))) = [''QQQ'', ''SOXX'']"
    by (simp add: ex_check_def dict_keys_def positive_positions_def less_decimal_dval dval_D list_less_def)
  ultimately show ?thesis
    using critical_exit_flattens [OF ex_metrics_evaluated _ _ _ ex_quotes_ok, of 1 digits_digest] by auto
qed

end
