(* ===== verification/Risk_Engine.thy ===== *)
theory Risk_Engine
  imports Risk_Check Event_Log
begin

text \<open>
  The second half of the risk engine, \<^verbatim>\<open>src/trading/risk/state_machine.py\<close>: risk episodes with
  their append-only event streams, the planning of one transition (activate, escalate, release)
  and progress events. Shown: an active severity is never lowered except by a release whose
  conditions hold, planned streams are accepted by the validator and follow an abstract phase
  machine, and progress reporting is idempotent.
\<close>

section \<open>Provenance and the planned transition\<close>

record risk_episode_provenance =
  ep_run_id :: string
  ep_config_manifest_hash :: string
  ep_code_version :: string
  ep_model_version :: string
  ep_source_manifest_hash :: string
  ep_worker_fence_token :: string
  ep_cycle_attempt_count :: int

definition validate_risk_episode_provenance :: "risk_episode_provenance \<Rightarrow> risk_episode_provenance result" where
  "validate_risk_episode_provenance p =
     (if ep_run_id p = [] \<or> ep_config_manifest_hash p = [] \<or> ep_code_version p = []
         \<or> ep_model_version p = [] \<or> ep_source_manifest_hash p = [] \<or> ep_worker_fence_token p = []
      then Inl (Q1RiskError ''Complete risk-episode provenance is required'')
      else if ep_cycle_attempt_count p \<le> 0
      then Inl (Q1RiskError ''Cycle attempt count must be positive'')
      else Inr p)"

record risk_transition =
  tr_effective_severity :: risk_severity
  tr_block_new_buys :: bool
  tr_cancel_pending_buys :: bool
  tr_active_episode :: "risk_episode option"
  tr_new_episode :: "risk_episode option"
  tr_new_events :: "risk_episode_event list"
  tr_executable_residual_targets :: "risk_target list"
  tr_required_quote_symbols :: "string set"
  tr_release_allows_automatic_buys :: bool

section \<open>Event streams of an episode\<close>

text \<open>The local variables of the validation loop.\<close>

record risk_stream =
  rs_released :: bool
  rs_severity :: risk_severity
  rs_generation :: int

definition stream_start :: "risk_episode \<Rightarrow> risk_stream" where
  "stream_start ep = \<lparr>rs_released = False, rs_severity = re_severity ep, rs_generation = 1\<rparr>"

definition stream_step :: "risk_episode_event \<Rightarrow> risk_stream \<Rightarrow> risk_stream result" where
  "stream_step e s =
     (if rs_released s then Inl (Q1RiskError ''No risk episode event may follow RELEASE'')
      else if rv_severity e < rs_severity s
      then Inl (Q1RiskError ''Risk episode cannot silently downgrade'')
      else if rv_event_type e = ESCALATE then
        if rs_severity s \<noteq> HARD_REDUCE then Inl (Q1RiskError ''Only HARD_REDUCE may escalate'')
        else if rv_severity e \<noteq> CRITICAL_EXIT
        then Inl (Q1RiskError ''Only CRITICAL_EXIT escalation is permitted'')
        else if rv_target_generation e \<noteq> rs_generation s + 1
        then Inl (Q1RiskError ''Escalation must advance target generation by one'')
        else Inr (s\<lparr>rs_generation := rv_target_generation e, rs_severity := rv_severity e\<rparr>)
      else if rv_event_type e = ACTIVATE then
        if rv_event_sequence e \<noteq> 1 \<or> rv_target_generation e \<noteq> 1
        then Inl (Q1RiskError ''Activation must create target generation one'')
        else Inr s
      else if rv_target_generation e \<noteq> rs_generation s
      then Inl (Q1RiskError ''Only escalation may change target generation'')
      else if rv_event_type e = RELEASE then Inr (s\<lparr>rs_released := True\<rparr>)
      else Inr s)"

definition validate_episode_event_stream :: "risk_episode \<Rightarrow> risk_episode_event list \<Rightarrow> unit result" where
  "validate_episode_event_stream ep events =
     (if \<exists>e\<in>set events. rv_risk_episode_id e \<noteq> re_risk_episode_id ep
      then Inl (Q1RiskError ''Risk episode event references another episode'')
      else if has_duplicates (map rv_risk_episode_event_id events)
              \<or> has_duplicates (map rv_idempotency_key events)
      then Inl (Q1RiskError ''Duplicate risk episode event'')
      else
        let ordered = sort_key rv_event_sequence events in
        if \<not> contiguous_from 1 (map rv_event_sequence ordered)
        then Inl (Q1RiskError ''Risk episode event sequence must be contiguous'')
        else rbind (rfold stream_step ordered (stream_start ep)) (\<lambda>_. Inr ()))"

definition update_targets :: "risk_episode_event \<Rightarrow> risk_target list \<Rightarrow> risk_target list" where
  "update_targets e targets =
     (if rv_event_type e = ACTIVATE \<or> rv_event_type e = ESCALATE then rv_targets e else targets)"

definition episode_targets :: "risk_episode \<Rightarrow> risk_episode_event list \<Rightarrow> risk_target list result" where
  "episode_targets ep events =
     (let targets = fold update_targets (sort_key rv_event_sequence events) (re_targets ep) in
      if targets = [] then Inl (Q1RiskError ''Active risk episode cannot have empty targets'')
      else Inr targets)"

definition episode_target_generation :: "risk_episode_event list \<Rightarrow> int" where
  "episode_target_generation events =
     fold (\<lambda>e _. rv_target_generation e) (sort_key rv_event_sequence events) 1"

definition max_severity :: "risk_severity \<Rightarrow> risk_severity \<Rightarrow> risk_severity" where
  "max_severity a b = (if severity_rank a < severity_rank b then b else a)"

definition update_severity :: "risk_episode_event \<Rightarrow> risk_severity \<times> bool \<Rightarrow> risk_severity \<times> bool" where
  "update_severity e s =
     (if rv_event_type e = ESCALATE then (max_severity (fst s) (rv_severity e), snd s)
      else if rv_event_type e = RELEASE then (fst s, True)
      else s)"

definition episode_severity :: "risk_episode option \<Rightarrow> risk_episode_event list \<Rightarrow> risk_severity" where
  "episode_severity episode events =
     (case episode of
        None \<Rightarrow> NORMAL
      | Some ep \<Rightarrow>
          let s = fold update_severity (sort_key rv_event_sequence events) (re_severity ep, False) in
          if snd s then NORMAL else fst s)"

definition current_episode_targets :: "risk_episode \<Rightarrow> risk_episode_event list \<Rightarrow> risk_target list result" where
  "current_episode_targets ep events =
     rbind (validate_episode_event_stream ep events) (\<lambda>_. episode_targets ep events)"

section \<open>Creating episodes and events\<close>

definition target_payload :: "risk_target \<Rightarrow> pyval" where
  "target_payload t =
     VDict [(''symbol'', VStr (rt_symbol t)), (''target_quantity'', VDec (rt_target_quantity t)),
            (''trigger_quote_id'', VStr (rt_trigger_quote_id t)),
            (''target_generation'', VInt (rt_target_generation t)),
            (''target_id'', vopt VStr (rt_target_id t)),
            (''trigger_quantity'', vopt VDec (rt_trigger_quantity t)),
            (''trigger_price'', vopt VDec (rt_trigger_price t)),
            (''target_weight'', vopt VDec (rt_target_weight t))]"

definition create_episode ::
  "digest \<Rightarrow> risk_check_input \<Rightarrow> risk_metrics \<Rightarrow> risk_severity \<Rightarrow> risk_target list \<Rightarrow> risk_episode_provenance
    \<Rightarrow> risk_episode result" where
  "create_episode H check metrics severity targets p =
     (if targets = [] then Inl (Q1RiskError ''Empty targets cannot activate a typed risk episode'')
      else
        let target_manifest_hash = canonical_hash H (VList (map target_payload targets));
            ident =
              [(''run_id'', VStr (ep_run_id p)), (''arm_id'', VStr (arm_value (rk_arm_id check))),
               (''calendar_session_id'', VStr (rk_calendar_session_id check)),
               (''severity'', VStr (severity_value severity)),
               (''triggered_at'', VTime (rk_scheduled_at check)),
               (''target_manifest_hash'', VStr target_manifest_hash)];
            episode_id = stable_id H ''q1-risk-episode'' [VDict ident];
            episode_hash = canonical_hash H (VDict (ident @
              [(''trigger_nav_usd'', VDec (rm_current_nav_usd metrics)),
               (''daily_loss'', VDec (rm_daily_loss metrics)),
               (''run_drawdown'', VDec (rm_run_drawdown metrics)),
               (''config_manifest_hash'', VStr (ep_config_manifest_hash p)),
               (''code_version'', VStr (ep_code_version p)),
               (''model_version'', VStr (ep_model_version p)),
               (''source_manifest_hash'', VStr (ep_source_manifest_hash p))])) in
        validate_risk_episode
          \<lparr>vr_algorithm_version = Q1_ALGORITHM_VERSION,
           vr_config_manifest_hash = ep_config_manifest_hash p, vr_code_version = ep_code_version p,
           vr_model_version = ep_model_version p, vr_source_manifest_hash = ep_source_manifest_hash p,
           re_risk_episode_id = episode_id, re_run_id = ep_run_id p, re_arm_id = rk_arm_id check,
           re_severity = severity, re_calendar_session_id = rk_calendar_session_id check,
           re_triggered_at = rk_scheduled_at check, re_trigger_nav_usd = rm_current_nav_usd metrics,
           re_session_open_nav_usd = rk_session_open_nav_usd check,
           re_running_peak_nav_usd = rk_running_peak_nav_usd check,
           re_daily_loss = rm_daily_loss metrics, re_run_drawdown = rm_run_drawdown metrics,
           re_portfolio_annualized_vol = rk_portfolio_annualized_vol check,
           re_soft_daily_threshold = rm_soft_daily_threshold metrics,
           re_hard_daily_threshold = rm_hard_daily_threshold metrics,
           re_reconciliation_status = rk_reconciliation_status check, re_targets = targets,
           re_target_manifest_hash = target_manifest_hash, re_episode_hash = episode_hash,
           re_created_at = rk_decision_created_at check\<rparr>)"

text \<open>The keyword arguments of \<^verbatim>\<open>_episode_event\<close> that have defaults.\<close>

record event_extras =
  ee_target_symbol :: "string option"
  ee_observed_quantity :: "decimal option"
  ee_residual_quantity :: "decimal option"
  ee_consecutive_valid_checks :: int

definition no_extras :: event_extras where
  "no_extras = \<lparr>ee_target_symbol = None, ee_observed_quantity = None, ee_residual_quantity = None,
     ee_consecutive_valid_checks = 0\<rparr>"

definition build_episode_event ::
  "digest \<Rightarrow> risk_episode \<Rightarrow> int \<Rightarrow> int \<Rightarrow> risk_episode_event_type \<Rightarrow> risk_severity \<Rightarrow> risk_target list
    \<Rightarrow> risk_check_input \<Rightarrow> risk_episode_provenance \<Rightarrow> string option \<Rightarrow> event_extras \<Rightarrow> risk_episode_event" where
  "build_episode_event H ep sq generation event_type severity targets check p cycle x =
     (let ident =
            [(''risk_episode_id'', VStr (re_risk_episode_id ep)),
             (''event_type'', VStr (risk_event_type_value event_type)),
             (''event_sequence'', VInt sq), (''severity'', VStr (severity_value severity)),
             (''target_generation'', VInt generation),
             (''targets'', VList (map target_payload targets)),
             (''target_symbol'', vopt VStr (ee_target_symbol x)),
             (''observed_quantity'', vopt VDec (ee_observed_quantity x)),
             (''residual_quantity'', vopt VDec (ee_residual_quantity x)),
             (''occurred_at'', VTime (rk_scheduled_at check)),
             (''source_cycle_id'', vopt VStr cycle)];
          event_id = stable_id H ''q1-risk-episode-event'' [VDict ident] in
      \<lparr>vr_algorithm_version = Q1_ALGORITHM_VERSION,
       vr_config_manifest_hash = ep_config_manifest_hash p, vr_code_version = ep_code_version p,
       vr_model_version = ep_model_version p, vr_source_manifest_hash = ep_source_manifest_hash p,
       rv_risk_episode_event_id = event_id, rv_risk_episode_id = re_risk_episode_id ep,
       rv_event_type = event_type, rv_event_sequence = sq, rv_severity = severity,
       rv_target_generation = generation, rv_occurred_at = rk_scheduled_at check,
       rv_available_at = rk_decision_created_at check, rv_targets = targets,
       rv_target_symbol = ee_target_symbol x, rv_observed_quantity = ee_observed_quantity x,
       rv_residual_quantity = ee_residual_quantity x,
       rv_consecutive_valid_checks = ee_consecutive_valid_checks x, rv_source_cycle_id = cycle,
       rv_worker_fence_token = ep_worker_fence_token p,
       rv_cycle_attempt_count = ep_cycle_attempt_count p,
       rv_idempotency_key = stable_id H ''q1-risk-event-idem'' [VStr event_id],
       rv_event_hash = canonical_hash H (VDict (ident @
         [(''config_manifest_hash'', VStr (ep_config_manifest_hash p)),
          (''code_version'', VStr (ep_code_version p)), (''model_version'', VStr (ep_model_version p)),
          (''source_manifest_hash'', VStr (ep_source_manifest_hash p))]))\<rparr>)"

definition episode_event ::
  "digest \<Rightarrow> risk_episode \<Rightarrow> risk_episode_event list \<Rightarrow> risk_episode_event_type \<Rightarrow> risk_severity
    \<Rightarrow> risk_target list \<Rightarrow> risk_check_input \<Rightarrow> risk_episode_provenance \<Rightarrow> string option \<Rightarrow> event_extras
    \<Rightarrow> risk_episode_event result" where
  "episode_event H ep existing event_type severity targets check p cycle x =
     rbind (validate_episode_event_stream ep existing) (\<lambda>_.
       let sq = int (length existing) + 1;
           generation = (case targets of
               [] \<Rightarrow> episode_target_generation existing
             | t # _ \<Rightarrow> rt_target_generation t) in
       if \<exists>t\<in>set targets. rt_target_generation t \<noteq> generation
       then Inl (Q1RiskError ''Risk event targets must use one target generation'')
       else validate_risk_episode_event
              (build_episode_event H ep sq generation event_type severity targets check p cycle x))"

section \<open>Planning a transition\<close>

definition can_release ::
  "risk_check_input \<Rightarrow> risk_metrics \<Rightarrow> risk_engine_config \<Rightarrow> risk_episode \<Rightarrow> bool \<Rightarrow> int \<Rightarrow> bool" where
  "can_release check metrics config ep next_session n \<longleftrightarrow>
     (if rk_calendar_session_id check = re_calendar_session_id ep then False
      else next_session \<and> rk_reconciliation_ok check \<and> \<not> rk_critical_reconciliation_condition check
        \<and> rc_release_consecutive_valid_checks config \<le> n
        \<and> rm_daily_loss metrics
            < rc_release_daily_loss_soft_fraction config * rm_soft_daily_threshold metrics
        \<and> rm_run_drawdown metrics < rc_release_drawdown_threshold config)"

text \<open>
  The first half of \<^verbatim>\<open>plan_risk_transition\<close>: activation of a new episode or escalation of the
  active one. The result is the effective severity, the episode, the new episode and the new
  events.
\<close>

definition open_or_escalate ::
  "digest \<Rightarrow> risk_check_input \<Rightarrow> risk_metrics \<Rightarrow> risk_engine_config \<Rightarrow> risk_episode_provenance
    \<Rightarrow> risk_episode option \<Rightarrow> risk_episode_event list \<Rightarrow> string option
    \<Rightarrow> (risk_severity \<times> risk_episode option \<times> risk_episode option \<times> risk_episode_event list) result" where
  "open_or_escalate H check metrics config p active events cycle =
     (let active_severity = episode_severity active events;
          indicated = rm_indicated_severity metrics;
          effective = max_severity active_severity indicated in
      case active of
        None \<Rightarrow>
          if indicated = HARD_REDUCE \<or> indicated = CRITICAL_EXIT then
            rbind (build_targets H check metrics indicated config 1) (\<lambda>targets.
              if targets \<noteq> [] then
                rbind (create_episode H check metrics indicated targets p) (\<lambda>ep.
                rbind (episode_event H ep [] ACTIVATE indicated targets check p cycle no_extras) (\<lambda>e.
                  Inr (effective, Some ep, Some ep, [e])))
              else Inr (indicated, None, None, []))
          else Inr (effective, None, None, [])
      | Some ep \<Rightarrow>
          if active_severity = HARD_REDUCE \<and> indicated = CRITICAL_EXIT then
            rbind (build_targets H check metrics CRITICAL_EXIT config (episode_target_generation events + 1))
              (\<lambda>targets.
              if targets \<noteq> [] then
                rbind (episode_event H ep events ESCALATE CRITICAL_EXIT targets check p cycle no_extras)
                  (\<lambda>e. Inr (CRITICAL_EXIT, Some ep, None, [e]))
              else Inr (CRITICAL_EXIT, Some ep, None, []))
          else Inr (effective, Some ep, None, []))"

definition transition ::
  "risk_severity \<Rightarrow> risk_episode option \<Rightarrow> risk_episode option \<Rightarrow> risk_episode_event list
    \<Rightarrow> risk_target list \<Rightarrow> string set \<Rightarrow> risk_transition" where
  "transition effective ep new_episode new_events residual required =
     \<lparr>tr_effective_severity = effective, tr_block_new_buys = (effective \<noteq> NORMAL),
      tr_cancel_pending_buys = (effective \<noteq> NORMAL), tr_active_episode = ep,
      tr_new_episode = new_episode, tr_new_events = new_events,
      tr_executable_residual_targets = residual, tr_required_quote_symbols = required,
      tr_release_allows_automatic_buys = False\<rparr>"

definition plan_risk_transition ::
  "digest \<Rightarrow> risk_check_input \<Rightarrow> risk_metrics \<Rightarrow> risk_engine_config \<Rightarrow> risk_episode_provenance
    \<Rightarrow> risk_episode option \<Rightarrow> risk_episode_event list \<Rightarrow> bool \<Rightarrow> int \<Rightarrow> string option
    \<Rightarrow> risk_transition result" where
  "plan_risk_transition H check metrics config p active events next_session n cycle =
     rbind (case active of None \<Rightarrow> Inr () | Some ep \<Rightarrow> validate_episode_event_stream ep events) (\<lambda>_.
     rbind (open_or_escalate H check metrics config p active events cycle)
       (\<lambda>(effective, episode, new_episode, new_events).
       case episode of
         None \<Rightarrow> Inr (transition effective None new_episode new_events [] {})
       | Some ep \<Rightarrow>
           rbind (episode_targets ep (events @ new_events)) (\<lambda>targets.
             if can_release check metrics config ep next_session n then
               rbind (episode_event H ep (events @ new_events) RELEASE
                        (episode_severity (Some ep) (events @ new_events)) [] check p cycle
                        (no_extras\<lparr>ee_consecutive_valid_checks := n\<rparr>)) (\<lambda>e.
                 Inr (transition NORMAL None new_episode (new_events @ [e]) [] {}))
             else
               Inr (transition effective (Some ep) new_episode new_events
                      (residual_targets targets (rk_positions check))
                      (required_residual_quote_symbols targets (rk_positions check))))))"

section \<open>Progress of targets\<close>

definition update_observed :: "risk_episode_event \<Rightarrow> (string, decimal) dict \<Rightarrow> (string, decimal) dict" where
  "update_observed e d =
     (case (rv_target_symbol e, rv_observed_quantity e) of
        (Some s, Some q) \<Rightarrow> AList.update s q d
      | _ \<Rightarrow> d)"

definition latest_observed_quantities :: "risk_episode_event list \<Rightarrow> (string, decimal) dict" where
  "latest_observed_quantities events = fold update_observed (sort_key rv_event_sequence events) []"

definition already_observed :: "(string, decimal) dict \<Rightarrow> (string, decimal) dict \<Rightarrow> risk_target \<Rightarrow> bool" where
  "already_observed latest positions t \<longleftrightarrow>
     (case map_of latest (rt_symbol t) of
        None \<Rightarrow> False
      | Some q \<Rightarrow> d_eq q (dict_get positions (rt_symbol t) 0))"

fun emit_progress ::
  "digest \<Rightarrow> risk_episode \<Rightarrow> risk_episode_event list \<Rightarrow> (string, decimal) dict \<Rightarrow> risk_check_input
    \<Rightarrow> risk_episode_provenance \<Rightarrow> string option \<Rightarrow> risk_target list \<Rightarrow> risk_episode_event list
    \<Rightarrow> risk_episode_event list result" where
  "emit_progress H ep materialized positions check p cycle [] emitted = Inr emitted"
| "emit_progress H ep materialized positions check p cycle (t # ts) emitted =
     (if already_observed (latest_observed_quantities materialized) positions t
      then emit_progress H ep materialized positions check p cycle ts emitted
      else
        let observed = dict_get positions (rt_symbol t) 0;
            residual = py_max 0 (observed - rt_target_quantity t);
            event_type = (if d_eq residual 0 then TARGET_REACHED else TARGET_PROGRESS) in
        rbind (episode_event H ep (materialized @ emitted) event_type
                 (episode_severity (Some ep) materialized) [] check p cycle
                 (no_extras\<lparr>ee_target_symbol := Some (rt_symbol t), ee_observed_quantity := Some observed,
                            ee_residual_quantity := Some residual\<rparr>))
          (\<lambda>e. emit_progress H ep materialized positions check p cycle ts (emitted @ [e])))"

definition target_progress_events ::
  "digest \<Rightarrow> risk_episode \<Rightarrow> risk_episode_event list \<Rightarrow> (string, decimal) dict \<Rightarrow> risk_check_input
    \<Rightarrow> risk_episode_provenance \<Rightarrow> string option \<Rightarrow> risk_episode_event list result" where
  "target_progress_events H ep existing positions check p cycle =
     rbind (validate_episode_event_stream ep existing) (\<lambda>_.
     rbind (episode_targets ep existing) (\<lambda>targets.
       emit_progress H ep existing positions check p cycle targets []))"

section \<open>The state of a validated stream\<close>

definition stream_state :: "risk_episode \<Rightarrow> risk_episode_event list \<Rightarrow> risk_stream result" where
  "stream_state ep events = rfold stream_step (sort_key rv_event_sequence events) (stream_start ep)"

interpretation risk_log: event_replay rv_event_sequence stream_step "stream_start ep"
  "\<lambda>es. distinct (map rv_event_sequence es)" for ep
  by unfold_locales (auto dest: distinct_map_mset_cong)

text \<open>The generation is one until the single escalation, after which the severity is final.\<close>

definition generation_ok :: "risk_stream \<Rightarrow> bool" where
  "generation_ok s \<longleftrightarrow> rs_generation s = 1 \<or> (rs_generation s = 2 \<and> rs_severity s = CRITICAL_EXIT)"

interpretation risk_gen: invariant_replay rv_event_sequence stream_step "stream_start ep"
  "\<lambda>es. distinct (map rv_event_sequence es)" generation_ok for ep
  by unfold_locales (auto simp: generation_ok_def stream_start_def stream_step_def split: if_splits)

lemma stream_generation: "stream_state ep events = Inr s \<Longrightarrow> generation_ok s"
  unfolding stream_state_def risk_log.replay_def [symmetric] by (rule risk_gen.inv_replay)

lemma validate_stream_iff:
  "validate_episode_event_stream ep events = Inr () \<longleftrightarrow>
     (\<forall>e\<in>set events. rv_risk_episode_id e = re_risk_episode_id ep)
     \<and> distinct (map rv_risk_episode_event_id events) \<and> distinct (map rv_idempotency_key events)
     \<and> contiguous_from 1 (map rv_event_sequence (sort_key rv_event_sequence events))
     \<and> (\<exists>s. stream_state ep events = Inr s)"
  by (auto simp: validate_episode_event_stream_def has_duplicates_def stream_state_def Let_def result_simps
      split: if_splits)

text \<open>Sequence numbers of a valid stream are bounded by its length, so a new event comes last.\<close>

lemma stream_sequence_bound:
  assumes "contiguous_from 1 (map rv_event_sequence (sort_key rv_event_sequence events))" "e \<in> set events"
  shows "1 \<le> rv_event_sequence e \<and> rv_event_sequence e \<le> int (length events)"
  using contiguous_from_ge [OF assms(1), of "rv_event_sequence e"] assms(2) by auto

lemma stream_sort_snoc:
  fixes e :: risk_episode_event
  assumes "contiguous_from 1 (map rv_event_sequence (sort_key rv_event_sequence events))"
    and "rv_event_sequence e = int (length events) + 1"
  shows "sort_key rv_event_sequence (events @ [e]) = sort_key rv_event_sequence events @ [e]"
  by (rule risk_log.sort_key_snoc) (use stream_sequence_bound [OF assms(1)] assms(2) in fastforce)

lemma stream_state_snoc:
  assumes "contiguous_from 1 (map rv_event_sequence (sort_key rv_event_sequence events))"
    and "rv_event_sequence e = int (length events) + 1"
  shows "stream_state ep (events @ [e]) = rbind (stream_state ep events) (stream_step e)"
  unfolding stream_state_def stream_sort_snoc [OF assms] by (rule rfold_snoc)

lemma stream_append:
  assumes "validate_episode_event_stream ep events = Inr ()" "stream_state ep events = Inr s"
    and "rv_event_sequence e = int (length events) + 1" "rv_risk_episode_id e = re_risk_episode_id ep"
    and "distinct (map rv_risk_episode_event_id (events @ [e]))" "distinct (map rv_idempotency_key (events @ [e]))"
    and "stream_step e s = Inr s'"
  shows "validate_episode_event_stream ep (events @ [e]) = Inr ()" "stream_state ep (events @ [e]) = Inr s'"
proof -
  have c: "contiguous_from 1 (map rv_event_sequence (sort_key rv_event_sequence events))"
    using assms(1) by (simp add: validate_stream_iff)
  show st: "stream_state ep (events @ [e]) = Inr s'"
    using assms(2,7) by (simp add: stream_state_snoc [OF c assms(3)])
  show "validate_episode_event_stream ep (events @ [e]) = Inr ()"
    using assms(1,4-6) st c assms(3)
    by (auto simp: validate_stream_iff stream_sort_snoc [OF c assms(3)] contiguous_from_append)
qed

section \<open>The phases of an episode\<close>

text \<open>
  What an episode is allowed to do, without targets, identifiers and sequence numbers: an
  episode is active at a severity with a target generation, may report progress, may escalate
  once from HARD_REDUCE to CRITICAL_EXIT with the next generation, and ends with a release.
\<close>

datatype risk_phase = Active risk_severity int | Released

inductive phase_step :: "risk_phase \<Rightarrow> risk_episode_event_type \<Rightarrow> risk_phase \<Rightarrow> bool" where
  activate: "phase_step (Active s g) ACTIVATE (Active s g)"
| progress: "k = TARGET_PROGRESS \<or> k = TARGET_REACHED \<Longrightarrow> phase_step (Active s g) k (Active s g)"
| escalate: "phase_step (Active HARD_REDUCE g) ESCALATE (Active CRITICAL_EXIT (g + 1))"
| release: "phase_step (Active s g) RELEASE Released"

inductive phase_run :: "risk_phase \<Rightarrow> risk_episode_event_type list \<Rightarrow> risk_phase \<Rightarrow> bool" where
  run_start: "phase_run p [] p"
| run_step: "phase_run p ks q \<Longrightarrow> phase_step q k r \<Longrightarrow> phase_run p (ks @ [k]) r"

inductive_cases phase_step_Released [elim!]: "phase_step Released k p"
inductive_cases phase_step_Active [elim]: "phase_step (Active s g) k p"
inductive_simps phase_run_Nil [simp]: "phase_run p [] q"

definition phase_of :: "risk_stream \<Rightarrow> risk_phase" where
  "phase_of s = (if rs_released s then Released else Active (rs_severity s) (rs_generation s))"

lemma stream_step_phase:
  assumes "stream_step e s = Inr s'"
  shows "phase_step (phase_of s) (rv_event_type e) (phase_of s')"
  using assms
  by (cases "rv_event_type e") (auto simp: stream_step_def phase_of_def intro: phase_step.intros split: if_splits)

lemma rfold_phase:
  "rfold stream_step es s = Inr s' \<Longrightarrow> phase_run (phase_of s) (map rv_event_type es) (phase_of s')"
proof (induction es arbitrary: s' rule: rev_induct)
  case (snoc e es)
  then obtain t where "rfold stream_step es s = Inr t" "stream_step e t = Inr s'"
    by (auto simp: rfold_snoc result_simps)
  then show ?case using snoc.IH stream_step_phase by (auto intro: run_step)
qed (simp add: run_start)

text \<open>Facts about runs, by rule induction: severity and generation grow together, at most once.\<close>

lemma phase_run_shape:
  "phase_run p ks q \<Longrightarrow> p = Active s 1 \<Longrightarrow>
     (q = Active s 1 \<and> ESCALATE \<notin> set ks \<and> RELEASE \<notin> set ks)
     \<or> (q = Active CRITICAL_EXIT 2 \<and> s = HARD_REDUCE \<and> count_list ks ESCALATE = 1 \<and> RELEASE \<notin> set ks)
     \<or> (q = Released \<and> count_list ks ESCALATE \<le> 1 \<and> ks \<noteq> [] \<and> last ks = RELEASE \<and> RELEASE \<notin> set (butlast ks))"
proof (induction rule: phase_run.induct)
  case (run_step p ks q k r)
  have "count_list ks ESCALATE = 0" if "ESCALATE \<notin> set ks" using that by (simp add: count_list_0_iff)
  then show ?case using run_step by (auto elim!: phase_step.cases)
qed simp

section \<open>Queries agree with the validated stream\<close>

text \<open>
  The severity and the generation that the planner reads off a stream are those the validator
  tracked, and the invariant of the tracked state.
\<close>

definition tracks :: "risk_episode \<Rightarrow> risk_episode_event list \<Rightarrow> risk_stream \<Rightarrow> bool" where
  "tracks ep es s \<longleftrightarrow>
     fold update_severity es (re_severity ep, False) = (rs_severity s, rs_released s)
     \<and> fold (\<lambda>e _. rv_target_generation e) es 1 = rs_generation s"

lemma tracks_rfold:
  assumes "rfold stream_step es (stream_start ep) = Inr s"
    and "\<And>pre e post. es = pre @ e # post \<Longrightarrow> rv_event_sequence e = int (length pre) + 1"
  shows "tracks ep es s"
  using assms
proof (induction es arbitrary: s rule: rev_induct)
  case Nil
  then show ?case by (auto simp: tracks_def stream_start_def)
next
  case (snoc e es)
  obtain t where t: "rfold stream_step es (stream_start ep) = Inr t" "stream_step e t = Inr s"
    using snoc.prems(1) by (auto simp: rfold_snoc result_simps)
  have "tracks ep es t" using snoc.IH [OF t(1)] snoc.prems(2) by (metis append.assoc append_Cons)
  moreover have "rv_event_sequence e = int (length es) + 1" using snoc.prems(2) by blast
  moreover have "rs_generation t = 1" if "es = []" using t(1) that by (auto simp: stream_start_def)
  ultimately show ?case using t(2)
    by (auto simp: tracks_def stream_step_def update_severity_def max_severity_def severity_less_iff split: if_splits)
qed


lemma contiguous_split:
  "contiguous_from 1 (map f es) \<Longrightarrow> es = pre @ e # post \<Longrightarrow> f e = int (length pre) + 1"
  by (simp add: contiguous_from_append)

lemma stream_tracks:
  assumes "validate_episode_event_stream ep events = Inr ()" "stream_state ep events = Inr s"
  shows "tracks ep (sort_key rv_event_sequence events) s"
proof (rule tracks_rfold)
  have "contiguous_from 1 (map rv_event_sequence (sort_key rv_event_sequence events))"
    using assms(1) by (simp add: validate_stream_iff)
  then show "sort_key rv_event_sequence events = pre @ e # post \<Longrightarrow> rv_event_sequence e = int (length pre) + 1" for pre e post
    by (rule contiguous_split)
qed (use assms(2) in \<open>simp add: stream_state_def\<close>)

lemma stream_queries:
  assumes "validate_episode_event_stream ep events = Inr ()" "stream_state ep events = Inr s"
  shows "episode_severity (Some ep) events = (if rs_released s then NORMAL else rs_severity s)"
    and "episode_target_generation events = rs_generation s"
  using stream_tracks [OF assms]
  by (simp_all add: tracks_def episode_severity_def episode_target_generation_def Let_def)

text \<open>A worked example: an episode that reduces, escalates and is released.\<close>

definition ex_target :: "int \<Rightarrow> risk_target" where
  "ex_target g = \<lparr>rt_symbol = ''QQQ'', rt_target_quantity = 0, rt_trigger_quote_id = ''q'', rt_target_generation = g,
     rt_target_id = None, rt_trigger_quantity = None, rt_trigger_price = None, rt_target_weight = None\<rparr>"

definition ex_episode :: risk_episode where
  "ex_episode =
     \<lparr>vr_algorithm_version = Q1_ALGORITHM_VERSION, vr_config_manifest_hash = ''c'', vr_code_version = ''v'',
      vr_model_version = ''m'', vr_source_manifest_hash = ''s'',
      re_risk_episode_id = ''ep'', re_run_id = ''run'', re_arm_id = Q1_DET, re_severity = HARD_REDUCE,
      re_calendar_session_id = ''s1'', re_triggered_at = 100, re_trigger_nav_usd = D 9000 0,
      re_session_open_nav_usd = D 9300 0, re_running_peak_nav_usd = D 9500 0, re_daily_loss = D 3 (- 2),
      re_run_drawdown = D 5 (- 2), re_portfolio_annualized_vol = None, re_soft_daily_threshold = D 1 (- 2),
      re_hard_daily_threshold = D 2 (- 2), re_reconciliation_status = ''OK'', re_targets = [ex_target 1],
      re_target_manifest_hash = ''t'', re_episode_hash = ''h'', re_created_at = 101\<rparr>"

definition ex_event :: "string \<Rightarrow> int \<Rightarrow> risk_episode_event_type \<Rightarrow> risk_severity \<Rightarrow> int \<Rightarrow> risk_episode_event" where
  "ex_event i sq k v g =
     \<lparr>vr_algorithm_version = Q1_ALGORITHM_VERSION, vr_config_manifest_hash = ''c'', vr_code_version = ''v'',
      vr_model_version = ''m'', vr_source_manifest_hash = ''s'',
      rv_risk_episode_event_id = i, rv_risk_episode_id = ''ep'', rv_event_type = k, rv_event_sequence = sq,
      rv_severity = v, rv_target_generation = g, rv_occurred_at = 100, rv_available_at = 101,
      rv_targets = [ex_target g], rv_target_symbol = None, rv_observed_quantity = None, rv_residual_quantity = None,
      rv_consecutive_valid_checks = 0, rv_source_cycle_id = None, rv_worker_fence_token = ''f'',
      rv_cycle_attempt_count = 1, rv_idempotency_key = ''i'' @ i, rv_event_hash = ''h''\<rparr>"

definition ex_provenance :: risk_episode_provenance where
  "ex_provenance = \<lparr>ep_run_id = ''run'', ep_config_manifest_hash = ''c'', ep_code_version = ''v'',
     ep_model_version = ''m'', ep_source_manifest_hash = ''s'', ep_worker_fence_token = ''f'', ep_cycle_attempt_count = 1\<rparr>"

definition ex_next_check :: risk_check_input where
  "ex_next_check = ex_check\<lparr>rk_calendar_session_id := ''s2'', rk_scheduled_at := 200, rk_decision_created_at := 201,
     rk_positions := [(''QQQ'', D 4 0)]\<rparr>"

definition ex_calm :: risk_metrics where
  "ex_calm = ex_metrics\<lparr>rm_daily_loss := 0, rm_run_drawdown := 0, rm_indicated_severity := NORMAL\<rparr>"

text \<open>
  C17. An accepted stream of an episode is a run of the abstract phase machine from the episode's
  severity and generation one, and the severity and target generation the planner derives from
  the stored events are those of the phase reached; after a release the severity is NORMAL.
  Consequently the generation never exceeds two, an episode escalates at most once, and a
  release is the last event.\<close>

theorem risk_stream_refines_phases:
  assumes "validate_episode_event_stream ep events = Inr ()"
  shows "(\<exists>p. phase_run (Active (re_severity ep) 1)
             (map rv_event_type (sort_key rv_event_sequence events)) p
         \<and> (p = Released \<longrightarrow> episode_severity (Some ep) events = NORMAL)
         \<and> (p \<noteq> Released \<longrightarrow>
              p = Active (episode_severity (Some ep) events) (episode_target_generation events)))
    \<and> (episode_target_generation events \<le> 2)
    \<and> (count_list (map rv_event_type events) ESCALATE \<le> 1)
    \<and> (\<forall>e\<in>set events. rv_event_type e = RELEASE \<longrightarrow> rv_event_sequence e = int (length events))"
proof (intro conjI)
  obtain s where s: "stream_state ep events = Inr s" using assms by (auto simp: validate_stream_iff)
  note q = stream_queries [OF assms s]
  let ?sorted = "sort_key rv_event_sequence events"
  let ?ks = "map rv_event_type ?sorted"
  have c: "contiguous_from 1 (map rv_event_sequence ?sorted)" using assms by (simp add: validate_stream_iff)
  have run: "phase_run (Active (re_severity ep) 1) ?ks (phase_of s)"
    using rfold_phase [of ?sorted "stream_start ep" s] s
    by (simp add: stream_state_def phase_of_def stream_start_def)
  note shape = phase_run_shape [OF run refl]
  show "\<exists>p. phase_run (Active (re_severity ep) 1) ?ks p
      \<and> (p = Released \<longrightarrow> episode_severity (Some ep) events = NORMAL)
      \<and> (p \<noteq> Released \<longrightarrow> p = Active (episode_severity (Some ep) events) (episode_target_generation events))"
    using run q by (intro exI [of _ "phase_of s"]) (auto simp: phase_of_def split: if_splits)
  show "episode_target_generation events \<le> 2"
    using stream_generation [OF s] q(2) by (auto simp: generation_ok_def)
  have "count_list (map rv_event_type events) ESCALATE = count_list ?ks ESCALATE"
    by (metis count_mset mset_map mset_sort)
  also have "\<dots> \<le> 1" using shape by (auto simp: count_list_0_iff)
  finally show "count_list (map rv_event_type events) ESCALATE \<le> 1" .
  show "\<forall>e\<in>set events. rv_event_type e = RELEASE \<longrightarrow> rv_event_sequence e = int (length events)"
  proof (intro ballI impI)
    fix e assume e: "e \<in> set events" "rv_event_type e = RELEASE"
    then obtain pre post where sp: "?sorted = pre @ e # post" by (metis set_sort split_list)
    then have "RELEASE \<in> set ?ks" "post \<noteq> [] \<Longrightarrow> RELEASE \<in> set (butlast ?ks)"
      using e by (auto simp: butlast_append)
    then have "post = []" using shape by auto
    then show "rv_event_sequence e = int (length events)"
      using contiguous_split [OF c sp] sp by (metis length_append_singleton length_sort of_nat_Suc add.commute)
  qed
qed

theorem risk_stream_refines_phases_witness:
  "episode_target_generation
     [ex_event ''c'' 3 RELEASE CRITICAL_EXIT 2, ex_event ''a'' 1 ACTIVATE HARD_REDUCE 1, ex_event ''b'' 2 ESCALATE CRITICAL_EXIT 2] \<le> 2"
proof -
  have "validate_episode_event_stream ex_episode
     [ex_event ''c'' 3 RELEASE CRITICAL_EXIT 2, ex_event ''a'' 1 ACTIVATE HARD_REDUCE 1, ex_event ''b'' 2 ESCALATE CRITICAL_EXIT 2] = Inr ()"
    by code_simp
  from risk_stream_refines_phases [OF this] show ?thesis by blast
qed


section \<open>Planned events extend the stream\<close>

lemma build_episode_event_fields:
  "rv_event_sequence (build_episode_event H ep sq g k v ts check p cycle x) = sq"
  "rv_risk_episode_id (build_episode_event H ep sq g k v ts check p cycle x) = re_risk_episode_id ep"
  "rv_event_type (build_episode_event H ep sq g k v ts check p cycle x) = k"
  "rv_severity (build_episode_event H ep sq g k v ts check p cycle x) = v"
  "rv_targets (build_episode_event H ep sq g k v ts check p cycle x) = ts"
  "rv_target_generation (build_episode_event H ep sq g k v ts check p cycle x) = g"
  "rv_target_symbol (build_episode_event H ep sq g k v ts check p cycle x) = ee_target_symbol x"
  "rv_observed_quantity (build_episode_event H ep sq g k v ts check p cycle x) = ee_observed_quantity x"
  unfolding build_episode_event_def Let_def by simp_all

lemma episode_event_Inr:
  assumes "episode_event H ep existing k severity targets check p cycle x = Inr e"
  shows "validate_episode_event_stream ep existing = Inr ()"
    and "rv_event_sequence e = int (length existing) + 1" "rv_risk_episode_id e = re_risk_episode_id ep"
    and "rv_event_type e = k" "rv_severity e = severity" "rv_targets e = targets"
    and "rv_target_symbol e = ee_target_symbol x" "rv_observed_quantity e = ee_observed_quantity x"
    and "targets = [] \<Longrightarrow> rv_target_generation e = episode_target_generation existing"
    and "targets \<noteq> [] \<Longrightarrow> rv_target_generation e = rt_target_generation (hd targets)"
proof -
  define g where "g = (case targets of [] \<Rightarrow> episode_target_generation existing | t # _ \<Rightarrow> rt_target_generation t)"
  have "validate_episode_event_stream ep existing = Inr ()
      \<and> e = build_episode_event H ep (int (length existing) + 1) g k severity targets check p cycle x"
    using assms unfolding episode_event_def Let_def g_def
    by (auto simp: result_simps dest!: validate_risk_episode_event_Inr split: if_splits)
  then show "validate_episode_event_stream ep existing = Inr ()"
    "rv_event_sequence e = int (length existing) + 1" "rv_risk_episode_id e = re_risk_episode_id ep"
    "rv_event_type e = k" "rv_severity e = severity" "rv_targets e = targets"
    "rv_target_symbol e = ee_target_symbol x" "rv_observed_quantity e = ee_observed_quantity x"
    "targets = [] \<Longrightarrow> rv_target_generation e = episode_target_generation existing"
    "targets \<noteq> [] \<Longrightarrow> rv_target_generation e = rt_target_generation (hd targets)"
    by (auto simp: build_episode_event_fields g_def split: list.splits)
qed

lemma build_targets_generation:
  assumes "build_targets H check m severity config g = Inr ts" "t \<in> set ts"
  shows "rt_target_generation t = g"
proof -
  obtain p positive where "build_target H check m positive g p = Inr t"
    using assms by (auto simp: build_targets_def Let_def result_simps split: if_splits dest!: rmap_Inr_mem)
  then show ?thesis
    by (auto simp: build_target_def result_simps validate_risk_target_def split: option.splits if_splits)
qed

text \<open>The three kinds of events the engine appends are accepted next.\<close>

lemma step_escalate:
  assumes "\<not> rs_released s" "rs_severity s = HARD_REDUCE"
    and "rv_event_type e = ESCALATE" "rv_severity e = CRITICAL_EXIT" "rv_target_generation e = rs_generation s + 1"
  shows "stream_step e s = Inr (s\<lparr>rs_generation := rv_target_generation e, rs_severity := CRITICAL_EXIT\<rparr>)"
  using assms by (simp add: stream_step_def severity_less_iff)

lemma step_plain:
  assumes "\<not> rs_released s" "rv_event_type e \<in> {TARGET_PROGRESS, TARGET_REACHED, RELEASE}"
    and "rv_severity e = rs_severity s" "rv_target_generation e = rs_generation s"
  shows "stream_step e s = Inr (if rv_event_type e = RELEASE then s\<lparr>rs_released := True\<rparr> else s)"
  using assms by (auto simp: stream_step_def)

lemma append_plain_event:
  assumes "episode_event H ep events k (episode_severity (Some ep) events) [] check p cycle x = Inr e"
    and "k \<in> {TARGET_PROGRESS, TARGET_REACHED, RELEASE}"
    and "stream_state ep events = Inr s" "\<not> rs_released s"
    and "distinct (map rv_risk_episode_event_id (events @ [e]))" "distinct (map rv_idempotency_key (events @ [e]))"
  shows "validate_episode_event_stream ep (events @ [e]) = Inr ()"
    and "stream_state ep (events @ [e]) = Inr (if k = RELEASE then s\<lparr>rs_released := True\<rparr> else s)"
proof -
  note e = episode_event_Inr [OF assms(1)]
  note q = stream_queries [OF e(1) assms(3)]
  have "stream_step e s = Inr (if k = RELEASE then s\<lparr>rs_released := True\<rparr> else s)"
    using step_plain [of s e] assms(2,4) e(4,5,9) q by simp
  from stream_append [OF e(1) assms(3) e(2,3) assms(5,6) this]
  show "validate_episode_event_stream ep (events @ [e]) = Inr ()"
    "stream_state ep (events @ [e]) = Inr (if k = RELEASE then s\<lparr>rs_released := True\<rparr> else s)" by blast+
qed

lemma open_or_escalate_active:
  assumes "open_or_escalate H check m config p (Some ep) events cycle = Inr (eff, episode, new, es)"
    and "validate_episode_event_stream ep events = Inr ()"
    and "stream_state ep events = Inr s" "\<not> rs_released s"
    and "distinct (map rv_risk_episode_event_id (events @ es))" "distinct (map rv_idempotency_key (events @ es))"
  shows "episode = Some ep" "new = None"
    and "validate_episode_event_stream ep (events @ es) = Inr ()"
    and "\<exists>s'. stream_state ep (events @ es) = Inr s' \<and> \<not> rs_released s'"
proof -
  have "episode = Some ep \<and> new = None \<and> validate_episode_event_stream ep (events @ es) = Inr ()
      \<and> (\<exists>s'. stream_state ep (events @ es) = Inr s' \<and> \<not> rs_released s')"
  proof (cases "es = []")
    case True
    then show ?thesis using assms by (auto simp: open_or_escalate_def Let_def result_simps split: if_splits)
  next
    case False
    then obtain ts e where es: "es = [e]" "episode = Some ep" "new = None"
      and sev: "episode_severity (Some ep) events = HARD_REDUCE"
      and ts: "build_targets H check m CRITICAL_EXIT config (episode_target_generation events + 1) = Inr ts" "ts \<noteq> []"
      and e: "episode_event H ep events ESCALATE CRITICAL_EXIT ts check p cycle no_extras = Inr e"
      using assms(1) by (auto simp: open_or_escalate_def Let_def result_simps split: if_splits)
    note f = episode_event_Inr [OF e]
    note q = stream_queries [OF assms(2,3)]
    have "rv_target_generation e = rs_generation s + 1"
      using f(10) ts build_targets_generation [OF ts(1) hd_in_set] q(2) by simp
    then have "stream_step e s = Inr (s\<lparr>rs_generation := rv_target_generation e, rs_severity := CRITICAL_EXIT\<rparr>)"
      using step_escalate assms(4) sev q(1) f(4,5) by simp
    from stream_append [OF assms(2,3) f(2,3) _ _ this] show ?thesis using es assms(4-6) by auto
  qed
  then show "episode = Some ep" "new = None" "validate_episode_event_stream ep (events @ es) = Inr ()"
    "\<exists>s'. stream_state ep (events @ es) = Inr s' \<and> \<not> rs_released s'" by blast+
qed


section \<open>Properties of planning\<close>

lemma max_severity_max: "max_severity a b = max a b"
  by (cases a; cases b) (simp_all add: max_severity_def max_def severity_le_iff)

lemma transition_fields [simp]:
  "tr_effective_severity (transition v ep new es residual required) = v"
  "tr_block_new_buys (transition v ep new es residual required) \<longleftrightarrow> v \<noteq> NORMAL"
  "tr_cancel_pending_buys (transition v ep new es residual required) \<longleftrightarrow> v \<noteq> NORMAL"
  "tr_active_episode (transition v ep new es residual required) = ep"
  "tr_new_episode (transition v ep new es residual required) = new"
  "tr_new_events (transition v ep new es residual required) = es"
  "tr_executable_residual_targets (transition v ep new es residual required) = residual"
  "tr_required_quote_symbols (transition v ep new es residual required) = required"
  "\<not> tr_release_allows_automatic_buys (transition v ep new es residual required)"
  by (simp_all add: transition_def)

lemma create_episode_Inr:
  assumes "create_episode H check m severity ts p = Inr ep"
  shows "re_calendar_session_id ep = rk_calendar_session_id check" "re_severity ep = severity" "re_targets ep = ts"
  using assms unfolding create_episode_def Let_def
  by (auto dest!: validate_risk_episode_Inr split: if_splits)

lemma open_or_escalate_severity:
  assumes "open_or_escalate H check m config p active events cycle = Inr (eff, episode, new, es)"
  shows "eff = max (episode_severity active events) (rm_indicated_severity m)"
    and "episode = active \<or> (active = None \<and> new = episode
           \<and> (\<exists>ep. episode = Some ep \<and> re_calendar_session_id ep = rk_calendar_session_id check))"
proof -
  have "eff = max_severity (episode_severity active events) (rm_indicated_severity m)
    \<and> (episode = active \<or> (active = None \<and> new = episode
        \<and> (\<exists>ep. episode = Some ep \<and> re_calendar_session_id ep = rk_calendar_session_id check)))"
    using assms
    by (auto simp: open_or_escalate_def Let_def result_simps max_severity_def episode_severity_def
        dest: create_episode_Inr(1) split: if_splits option.splits)
  then show "eff = max (episode_severity active events) (rm_indicated_severity m)"
    "episode = active \<or> (active = None \<and> new = episode
      \<and> (\<exists>ep. episode = Some ep \<and> re_calendar_session_id ep = rk_calendar_session_id check))"
    by (simp_all add: max_severity_max)
qed

text \<open>What the second half of the planner makes of the first: no episode, an active one, a release.\<close>

definition plan_outcome ::
  "digest \<Rightarrow> risk_check_input \<Rightarrow> risk_metrics \<Rightarrow> risk_engine_config \<Rightarrow> risk_episode_provenance
    \<Rightarrow> risk_episode_event list \<Rightarrow> bool \<Rightarrow> int \<Rightarrow> string option \<Rightarrow> risk_severity \<Rightarrow> risk_episode option
    \<Rightarrow> risk_episode option \<Rightarrow> risk_episode_event list \<Rightarrow> risk_transition \<Rightarrow> bool" where
  "plan_outcome H check m config p events next_session n cycle eff episode new es t \<longleftrightarrow>
     (episode = None \<and> t = transition eff None new es [] {})
     \<or> (\<exists>ep targets. episode = Some ep \<and> \<not> can_release check m config ep next_session n
          \<and> t = transition eff (Some ep) new es (residual_targets targets (rk_positions check))
                  (required_residual_quote_symbols targets (rk_positions check)))
     \<or> (\<exists>ep e. episode = Some ep \<and> can_release check m config ep next_session n
          \<and> episode_event H ep (events @ es) RELEASE (episode_severity (Some ep) (events @ es)) [] check p cycle
              (no_extras\<lparr>ee_consecutive_valid_checks := n\<rparr>) = Inr e
          \<and> t = transition NORMAL None new (es @ [e]) [] {})"

lemma plan_Inr:
  assumes "plan_risk_transition H check m config p active events next_session n cycle = Inr t"
  obtains eff episode new es where
    "open_or_escalate H check m config p active events cycle = Inr (eff, episode, new, es)"
    "\<And>ep. active = Some ep \<Longrightarrow> validate_episode_event_stream ep events = Inr ()"
    "plan_outcome H check m config p events next_session n cycle eff episode new es t"
proof -
  obtain u x where u: "(case active of None \<Rightarrow> Inr () | Some ep \<Rightarrow> validate_episode_event_stream ep events) = Inr u"
    and x: "open_or_escalate H check m config p active events cycle = Inr x"
    using assms unfolding plan_risk_transition_def rbind_eq_Inr by blast
  obtain eff episode new es where x': "x = (eff, episode, new, es)" by (cases x)
  have rest: "(case episode of
         None \<Rightarrow> Inr (transition eff None new es [] {})
       | Some ep \<Rightarrow>
           rbind (episode_targets ep (events @ es)) (\<lambda>targets.
             if can_release check m config ep next_session n then
               rbind (episode_event H ep (events @ es) RELEASE
                        (episode_severity (Some ep) (events @ es)) [] check p cycle
                        (no_extras\<lparr>ee_consecutive_valid_checks := n\<rparr>)) (\<lambda>e.
                 Inr (transition NORMAL None new (es @ [e]) [] {}))
             else
               Inr (transition eff (Some ep) new es
                      (residual_targets targets (rk_positions check))
                      (required_residual_quote_symbols targets (rk_positions check))))) = Inr t"
    using assms unfolding plan_risk_transition_def u x x' by simp
  show thesis
  proof (rule that [OF x [unfolded x']])
    show "active = Some ep \<Longrightarrow> validate_episode_event_stream ep events = Inr ()" for ep
      using u by simp
    show "plan_outcome H check m config p events next_session n cycle eff episode new es t"
    proof (cases episode)
      case (Some ep)
      show ?thesis
      proof (cases "can_release check m config ep next_session n")
        case True
        then show ?thesis using rest unfolding Some option.case rbind_eq_Inr by (simp add: rbind_eq_Inr plan_outcome_def) blast
      next
        case False
        then show ?thesis using rest unfolding Some option.case rbind_eq_Inr by (simp add: rbind_eq_Inr plan_outcome_def) blast
      qed
    qed (use rest in \<open>simp add: plan_outcome_def\<close>)
  qed
qed

text \<open>
  C18. A planned transition blocks new buys and cancels pending buys exactly when its effective
  severity is not NORMAL, never re-enables automatic buys, and its severity is the larger of the
  active and the indicated severity, except when a previously active episode is released: then
  every release condition holds: the check belongs to a strategic cycle of a session other than
  the episode's, the reconciliation is clean, enough valid checks came in a row, and the daily loss
  and the drawdown are below their release thresholds; and the last new event is the release.\<close>

theorem plan_never_relaxes:
  assumes "plan_risk_transition H check m config p active events next_session n cycle = Inr t"
  shows "(tr_block_new_buys t \<longleftrightarrow> tr_effective_severity t \<noteq> NORMAL)
    \<and> (tr_cancel_pending_buys t \<longleftrightarrow> tr_effective_severity t \<noteq> NORMAL)
    \<and> (\<not> tr_release_allows_automatic_buys t)
    \<and> (tr_effective_severity t = max (episode_severity active events) (rm_indicated_severity m)
         \<or> (tr_effective_severity t = NORMAL \<and> tr_active_episode t = None
            \<and> (\<exists>ep. active = Some ep \<and> next_session \<and> rk_reconciliation_ok check
                 \<and> \<not> rk_critical_reconciliation_condition check
                 \<and> rk_calendar_session_id check \<noteq> re_calendar_session_id ep
                 \<and> rc_release_consecutive_valid_checks config \<le> n
                 \<and> rm_daily_loss m < rc_release_daily_loss_soft_fraction config * rm_soft_daily_threshold m
                 \<and> rm_run_drawdown m < rc_release_drawdown_threshold config)
            \<and> tr_new_events t \<noteq> [] \<and> rv_event_type (last (tr_new_events t)) = RELEASE))
    \<and> (\<forall>r\<in>set (tr_executable_residual_targets t).
           rt_target_quantity r < dict_get (rk_positions check) (rt_symbol r) 0)
    \<and> (tr_required_quote_symbols t = rt_symbol ` set (tr_executable_residual_targets t))"
proof (intro conjI)
  obtain eff episode new es where
    x: "open_or_escalate H check m config p active events cycle = Inr (eff, episode, new, es)"
    and cases: "plan_outcome H check m config p events next_session n cycle eff episode new es t"
    using plan_Inr [OF assms] by metis
  note cases = cases [unfolded plan_outcome_def]
  note sev = open_or_escalate_severity [OF x]
  from cases show "tr_block_new_buys t \<longleftrightarrow> tr_effective_severity t \<noteq> NORMAL"
    "tr_cancel_pending_buys t \<longleftrightarrow> tr_effective_severity t \<noteq> NORMAL" "\<not> tr_release_allows_automatic_buys t"
    by auto
  from cases show "\<forall>r\<in>set (tr_executable_residual_targets t).
      rt_target_quantity r < dict_get (rk_positions check) (rt_symbol r) 0"
    "tr_required_quote_symbols t = rt_symbol ` set (tr_executable_residual_targets t)"
    by (auto simp: residual_targets_def required_residual_quote_symbols_def is_residual_def)
  from cases show "tr_effective_severity t = max (episode_severity active events) (rm_indicated_severity m)
         \<or> (tr_effective_severity t = NORMAL \<and> tr_active_episode t = None
            \<and> (\<exists>ep. active = Some ep \<and> next_session \<and> rk_reconciliation_ok check
                 \<and> \<not> rk_critical_reconciliation_condition check
                 \<and> rk_calendar_session_id check \<noteq> re_calendar_session_id ep
                 \<and> rc_release_consecutive_valid_checks config \<le> n
                 \<and> rm_daily_loss m < rc_release_daily_loss_soft_fraction config * rm_soft_daily_threshold m
                 \<and> rm_run_drawdown m < rc_release_drawdown_threshold config)
            \<and> tr_new_events t \<noteq> [] \<and> rv_event_type (last (tr_new_events t)) = RELEASE)"
    using sev by (auto simp: can_release_def dest: episode_event_Inr(4) split: if_splits)
qed

lemma ex_plan:
  "\<exists>t. plan_risk_transition (\<lambda>_. ''h'') ex_next_check ex_calm ex_config ex_provenance (Some ex_episode)
         [ex_event ''a'' 1 ACTIVATE HARD_REDUCE 1] True 3 None = Inr t
       \<and> map rv_risk_episode_event_id (tr_new_events t) = [''q1-risk-episode-event_h'']
       \<and> map rv_idempotency_key (tr_new_events t) = [''q1-risk-event-idem_h'']"
proof -
  have "(case plan_risk_transition (\<lambda>_. ''h'') ex_next_check ex_calm ex_config ex_provenance (Some ex_episode)
         [ex_event ''a'' 1 ACTIVATE HARD_REDUCE 1] True 3 None of
       Inl _ \<Rightarrow> False
     | Inr t \<Rightarrow> map rv_risk_episode_event_id (tr_new_events t) = [''q1-risk-episode-event_h'']
       \<and> map rv_idempotency_key (tr_new_events t) = [''q1-risk-event-idem_h''])"
    by code_simp
  then show ?thesis by (simp split: sum.splits)
qed

theorem plan_never_relaxes_witness:
  "\<exists>t. plan_risk_transition (\<lambda>_. ''h'') ex_next_check ex_calm ex_config ex_provenance (Some ex_episode)
         [ex_event ''a'' 1 ACTIVATE HARD_REDUCE 1] True 3 None = Inr t
       \<and> (tr_block_new_buys t \<longleftrightarrow> tr_effective_severity t \<noteq> NORMAL)"
  using ex_plan plan_never_relaxes by blast


lemma open_episode:
  assumes "open_or_escalate H check m config p None [] cycle = Inr (eff, episode, Some ep, es)"
  shows "episode = Some ep" "re_calendar_session_id ep = rk_calendar_session_id check"
    and "validate_episode_event_stream ep es = Inr ()" "episode_severity (Some ep) es = eff"
proof -
  obtain ts e where es: "es = [e]" "episode = Some ep"
    and ts: "build_targets H check m eff config 1 = Inr ts" "ts \<noteq> []"
    and ep: "create_episode H check m eff ts p = Inr ep"
    and e: "episode_event H ep [] ACTIVATE eff ts check p cycle no_extras = Inr e"
    using assms
    by (auto simp: open_or_escalate_def Let_def result_simps max_severity_def episode_severity_def split: if_splits)
  note f = episode_event_Inr [OF e] and c = create_episode_Inr [OF ep]
  have st: "stream_state ep [] = Inr (stream_start ep)" by (simp add: stream_state_def)
  have "rv_target_generation e = 1"
    using f(10) ts build_targets_generation [OF ts(1) hd_in_set] by simp
  then have "stream_step e (stream_start ep) = Inr (stream_start ep)"
    using f(2,4,5) c(2) by (simp add: stream_step_def stream_start_def)
  note v = stream_append [OF f(1) st f(2,3) _ _ this, simplified]
  show "episode = Some ep" "re_calendar_session_id ep = rk_calendar_session_id check" by (rule es c)+
  show valid: "validate_episode_event_stream ep es = Inr ()" using v(1) es by simp
  show "episode_severity (Some ep) es = eff"
    using stream_queries(1) [OF valid, unfolded es, OF v(2)] c(2) es by (simp add: stream_start_def)
qed

text \<open>
  C19. The events a transition plans keep the stream valid: an unreleased active episode with the
  planned events appended (their identifiers being fresh) is accepted again, and a newly opened
  episode comes with an accepted activation, is the active one and has the effective severity.\<close>

theorem planned_stream_valid:
  assumes "plan_risk_transition H check m config p active events next_session n cycle = Inr t"
  shows "(\<forall>ep. active = Some ep \<and> episode_severity active events \<noteq> NORMAL
             \<and> distinct (map rv_risk_episode_event_id (events @ tr_new_events t))
             \<and> distinct (map rv_idempotency_key (events @ tr_new_events t))
           \<longrightarrow> validate_episode_event_stream ep (events @ tr_new_events t) = Inr ())
    \<and> (\<forall>ep. active = None \<and> events = [] \<and> tr_new_episode t = Some ep
           \<longrightarrow> validate_episode_event_stream ep (tr_new_events t) = Inr ()
             \<and> tr_active_episode t = Some ep
             \<and> episode_severity (Some ep) (tr_new_events t) = tr_effective_severity t)"
proof -
  obtain eff episode new es where
    x: "open_or_escalate H check m config p active events cycle = Inr (eff, episode, new, es)"
    and valid: "\<And>ep. active = Some ep \<Longrightarrow> validate_episode_event_stream ep events = Inr ()"
    and out: "plan_outcome H check m config p events next_session n cycle eff episode new es t"
    using plan_Inr [OF assms] by metis
  note out = out [unfolded plan_outcome_def]
  have "validate_episode_event_stream ep (events @ tr_new_events t) = Inr ()"
    if a: "active = Some ep" and sev: "episode_severity active events \<noteq> NORMAL"
      and ids: "distinct (map rv_risk_episode_event_id (events @ tr_new_events t))"
        "distinct (map rv_idempotency_key (events @ tr_new_events t))" for ep
  proof -
    have v: "validate_episode_event_stream ep events = Inr ()" using valid a by blast
    then obtain s where s: "stream_state ep events = Inr s" by (auto simp: validate_stream_iff)
    have nr: "\<not> rs_released s" using sev stream_queries(1) [OF v s] a by auto
    have es: "\<exists>ys. tr_new_events t = es @ ys" using out by auto
    then have ids': "distinct (map rv_risk_episode_event_id (events @ es))" "distinct (map rv_idempotency_key (events @ es))"
      using ids by auto
    note o = open_or_escalate_active [OF x [unfolded a] v s nr ids']
    obtain s' where s': "stream_state ep (events @ es) = Inr s'" "\<not> rs_released s'" using o(4) by blast
    from out show ?thesis
    proof (elim disjE exE conjE)
      fix ep' e assume ep': "episode = Some ep'"
        and e: "episode_event H ep' (events @ es) RELEASE (episode_severity (Some ep') (events @ es)) [] check p cycle
              (no_extras\<lparr>ee_consecutive_valid_checks := n\<rparr>) = Inr e"
        and t: "t = transition NORMAL None new (es @ [e]) [] {}"
      have "ep' = ep" using o(1) ep' by simp
      then show ?thesis using append_plain_event(1) [of H ep "events @ es", OF _ _ s'] e ids t by simp
    qed (use o in auto)
  qed
  moreover have "validate_episode_event_stream ep (tr_new_events t) = Inr () \<and> tr_active_episode t = Some ep
      \<and> episode_severity (Some ep) (tr_new_events t) = tr_effective_severity t"
    if a: "active = None" "events = []" "tr_new_episode t = Some ep" for ep
  proof -
    have "new = Some ep" using out a(3) by auto
    from open_episode [OF x [unfolded a this]] show ?thesis using out by (auto simp: can_release_def)
  qed
  ultimately show ?thesis by blast
qed

theorem planned_stream_valid_witness:
  "\<exists>t. plan_risk_transition (\<lambda>_. ''h'') ex_next_check ex_calm ex_config ex_provenance (Some ex_episode)
         [ex_event ''a'' 1 ACTIVATE HARD_REDUCE 1] True 3 None = Inr t
       \<and> validate_episode_event_stream ex_episode
           ([ex_event ''a'' 1 ACTIVATE HARD_REDUCE 1] @ tr_new_events t) = Inr ()"
proof -
  have sev: "episode_severity (Some ex_episode) [ex_event ''a'' 1 ACTIVATE HARD_REDUCE 1] \<noteq> NORMAL" by code_simp
  obtain t where t: "plan_risk_transition (\<lambda>_. ''h'') ex_next_check ex_calm ex_config ex_provenance (Some ex_episode)
         [ex_event ''a'' 1 ACTIVATE HARD_REDUCE 1] True 3 None = Inr t"
    and ids: "map rv_risk_episode_event_id (tr_new_events t) = [''q1-risk-episode-event_h'']"
      "map rv_idempotency_key (tr_new_events t) = [''q1-risk-event-idem_h'']"
    using ex_plan by (elim exE conjE)
  show ?thesis
    using planned_stream_valid [OF t] sev t ids by (simp add: ex_event_def)
qed


section \<open>Progress reports\<close>

definition reports :: "(string, decimal) dict \<Rightarrow> risk_target list \<Rightarrow> risk_episode_event \<Rightarrow> bool" where
  "reports positions ts e \<longleftrightarrow> rv_event_type e \<in> {TARGET_PROGRESS, TARGET_REACHED}
     \<and> (\<exists>t\<in>set ts. rv_target_symbol e = Some (rt_symbol t)
          \<and> rv_observed_quantity e = Some (dict_get positions (rt_symbol t) 0))"

lemma emit_progress_Cons:
  assumes "emit_progress H ep materialized positions check p cycle (t # ts) emitted = Inr out"
    and "\<not> already_observed (latest_observed_quantities materialized) positions t"
  obtains k x e where
    "episode_event H ep (materialized @ emitted) k (episode_severity (Some ep) materialized) [] check p cycle x = Inr e"
    "k \<in> {TARGET_PROGRESS, TARGET_REACHED}" "ee_target_symbol x = Some (rt_symbol t)"
    "ee_observed_quantity x = Some (dict_get positions (rt_symbol t) 0)"
    "emit_progress H ep materialized positions check p cycle ts (emitted @ [e]) = Inr out"
proof -
  let ?residual = "py_max 0 (dict_get positions (rt_symbol t) 0 - rt_target_quantity t)"
  let ?x = "no_extras\<lparr>ee_target_symbol := Some (rt_symbol t),
    ee_observed_quantity := Some (dict_get positions (rt_symbol t) 0), ee_residual_quantity := Some ?residual\<rparr>"
  obtain e where "episode_event H ep (materialized @ emitted)
      (if d_eq ?residual 0 then TARGET_REACHED else TARGET_PROGRESS)
      (episode_severity (Some ep) materialized) [] check p cycle ?x = Inr e"
    "emit_progress H ep materialized positions check p cycle ts (emitted @ [e]) = Inr out"
    using assms(1) unfolding emit_progress.simps(2) if_not_P [OF assms(2)] Let_def rbind_eq_Inr by blast
  then show thesis by (intro that [of _ ?x e]) auto
qed

lemma emit_progress_reports:
  assumes "emit_progress H ep materialized positions check p cycle ts emitted = Inr out"
  shows "\<exists>es. out = emitted @ es \<and> (\<forall>e\<in>set es. reports positions ts e)
     \<and> (\<forall>t\<in>set ts. already_observed (latest_observed_quantities materialized) positions t
          \<or> (\<exists>e\<in>set es. rv_target_symbol e = Some (rt_symbol t)))"
  using assms
proof (induction H ep materialized positions check p cycle ts emitted rule: emit_progress.induct)
  case (2 H ep materialized positions check p cycle t ts emitted)
  show ?case
  proof (cases "already_observed (latest_observed_quantities materialized) positions t")
    case True
    then show ?thesis using 2 by (auto simp: reports_def)
  next
    case False
    obtain k x e where e: "episode_event H ep (materialized @ emitted) k
          (episode_severity (Some ep) materialized) [] check p cycle x = Inr e"
      and k: "k \<in> {TARGET_PROGRESS, TARGET_REACHED}" "ee_target_symbol x = Some (rt_symbol t)"
        "ee_observed_quantity x = Some (dict_get positions (rt_symbol t) 0)"
      and rest: "emit_progress H ep materialized positions check p cycle ts (emitted @ [e]) = Inr out"
      by (rule emit_progress_Cons [OF 2(3) False])
    obtain es where es: "out = (emitted @ [e]) @ es" "\<forall>e\<in>set es. reports positions ts e"
      "\<forall>t\<in>set ts. already_observed (latest_observed_quantities materialized) positions t
          \<or> (\<exists>e\<in>set es. rv_target_symbol e = Some (rt_symbol t))"
      using 2(2) [OF False refl refl refl rest] by blast
    then show ?thesis using episode_event_Inr(4,7,8) [OF e] k
      by (intro exI [of _ "e # es"]) (auto simp: reports_def)
  qed
qed simp

lemma emit_progress_valid:
  assumes "emit_progress H ep materialized positions check p cycle ts emitted = Inr out"
    and "validate_episode_event_stream ep materialized = Inr ()"
    and "stream_state ep materialized = Inr s" "\<not> rs_released s"
    and "validate_episode_event_stream ep (materialized @ emitted) = Inr ()"
    and "stream_state ep (materialized @ emitted) = Inr s"
    and "distinct (map rv_risk_episode_event_id (materialized @ out))"
    and "distinct (map rv_idempotency_key (materialized @ out))"
  shows "validate_episode_event_stream ep (materialized @ out) = Inr ()
    \<and> stream_state ep (materialized @ out) = Inr s
    \<and> (\<forall>es. out = emitted @ es \<longrightarrow>
         sort_key rv_event_sequence (materialized @ out) = sort_key rv_event_sequence (materialized @ emitted) @ es)"
  using assms
proof (induction H ep materialized positions check p cycle ts emitted rule: emit_progress.induct)
  case (2 H ep materialized positions check p cycle t ts emitted)
  show ?case
  proof (cases "already_observed (latest_observed_quantities materialized) positions t")
    case True
    then show ?thesis using 2 by auto
  next
    case False
    obtain k x e where e: "episode_event H ep (materialized @ emitted) k
          (episode_severity (Some ep) materialized) [] check p cycle x = Inr e"
      and k: "k \<in> {TARGET_PROGRESS, TARGET_REACHED}" "ee_target_symbol x = Some (rt_symbol t)"
        "ee_observed_quantity x = Some (dict_get positions (rt_symbol t) 0)"
      and rest: "emit_progress H ep materialized positions check p cycle ts (emitted @ [e]) = Inr out"
      by (rule emit_progress_Cons [OF 2(3) False])
    have same: "episode_severity (Some ep) materialized = episode_severity (Some ep) (materialized @ emitted)"
      using stream_queries(1) 2(4-8) by simp
    obtain es where es: "out = emitted @ [e] @ es" using emit_progress_reports [OF rest] by auto
    have ids: "distinct (map rv_risk_episode_event_id ((materialized @ emitted) @ [e]))"
      "distinct (map rv_idempotency_key ((materialized @ emitted) @ [e]))"
      using 2(9,10) es by auto
    note a = append_plain_event [OF e [unfolded same] _ 2(8,6) ids]
    have v: "validate_episode_event_stream ep (materialized @ emitted @ [e]) = Inr ()"
      "stream_state ep (materialized @ emitted @ [e]) = Inr s"
      using a k(1) by auto
    have c: "contiguous_from 1 (map rv_event_sequence (sort_key rv_event_sequence (materialized @ emitted)))"
      using 2(7) by (simp add: validate_stream_iff)
    note sort = stream_sort_snoc [OF c episode_event_Inr(2) [OF e]]
    from 2(2) [OF False refl refl refl rest 2(4-6) _ _ 2(9,10)] v show ?thesis
      using sort es by simp
  qed
qed simp


lemma fold_update_observed:
  assumes "\<forall>e\<in>set es. reports positions ts e"
  shows "map_of (fold update_observed es d) s =
     (if \<exists>e\<in>set es. rv_target_symbol e = Some s then Some (dict_get positions s 0) else map_of d s)"
  using assms
proof (induction es arbitrary: d)
  case (Cons e es)
  obtain t :: risk_target where "rv_target_symbol e = Some (rt_symbol t)"
    "rv_observed_quantity e = Some (dict_get positions (rt_symbol t) 0)"
    using Cons.prems by (auto simp: reports_def)
  then show ?case using Cons by (auto simp: update_observed_def update_conv')
qed simp

lemma emit_progress_silent:
  "(\<And>t. t \<in> set ts \<Longrightarrow> already_observed (latest_observed_quantities events) positions t) \<Longrightarrow>
     emit_progress H ep events positions check p cycle ts emitted = Inr emitted"
  by (induction ts) auto

lemma fold_update_targets_reports:
  "\<forall>e\<in>set es. reports positions ts e \<Longrightarrow> fold update_targets es xs = xs"
  by (induction es) (auto simp: update_targets_def reports_def)

text \<open>
  Progress reports of an unreleased episode keep its stream valid and change neither its
  severity nor its targets, and reporting is idempotent: once the events are recorded, another
  report on the same positions, by any worker, in any cycle, is empty.\<close>

theorem progress_idempotent:
  assumes "target_progress_events H ep existing positions check p cycle = Inr es"
    and "episode_severity (Some ep) existing \<noteq> NORMAL"
    and "distinct (map rv_risk_episode_event_id (existing @ es))"
    and "distinct (map rv_idempotency_key (existing @ es))"
  shows "(validate_episode_event_stream ep (existing @ es) = Inr ())
    \<and> (episode_severity (Some ep) (existing @ es) = episode_severity (Some ep) existing)
    \<and> (current_episode_targets ep (existing @ es) = current_episode_targets ep existing)
    \<and> (target_progress_events H' ep (existing @ es) positions check' p' cycle' = Inr [])"
proof (intro conjI)
  obtain ts where v: "validate_episode_event_stream ep existing = Inr ()" and ts: "episode_targets ep existing = Inr ts"
    and emit: "emit_progress H ep existing positions check p cycle ts [] = Inr es"
    using assms(1) by (auto simp: target_progress_events_def result_simps)
  obtain s where s: "stream_state ep existing = Inr s" using v by (auto simp: validate_stream_iff)
  have nr: "\<not> rs_released s" using assms(2) stream_queries(1) [OF v s] by auto
  have ok: "validate_episode_event_stream ep (existing @ es) = Inr ()" "stream_state ep (existing @ es) = Inr s"
    and sort: "sort_key rv_event_sequence (existing @ es) = sort_key rv_event_sequence existing @ es"
    using emit_progress_valid [OF emit v s nr _ _ assms(3,4)] v s by auto
  have rep: "\<forall>e\<in>set es. reports positions ts e"
    and all: "\<forall>t\<in>set ts. already_observed (latest_observed_quantities existing) positions t
      \<or> (\<exists>e\<in>set es. rv_target_symbol e = Some (rt_symbol t))"
    using emit_progress_reports [OF emit] by auto
  have targets: "episode_targets ep (existing @ es) = episode_targets ep existing"
    using fold_update_targets_reports [OF rep] by (simp add: episode_targets_def sort)
  have "already_observed (latest_observed_quantities (existing @ es)) positions t" if "t \<in> set ts" for t
    using all that fold_update_observed [OF rep]
    by (auto simp: already_observed_def latest_observed_quantities_def sort d_eq_dval)
  then have "emit_progress H' ep (existing @ es) positions check' p' cycle' ts [] = Inr []"
    by (rule emit_progress_silent)
  then show "target_progress_events H' ep (existing @ es) positions check' p' cycle' = Inr []"
    using ok(1) targets ts by (simp add: target_progress_events_def)
  show "validate_episode_event_stream ep (existing @ es) = Inr ()" by (rule ok)
  show "episode_severity (Some ep) (existing @ es) = episode_severity (Some ep) existing"
    using stream_queries(1) [OF ok] stream_queries(1) [OF v s] by simp
  show "current_episode_targets ep (existing @ es) = current_episode_targets ep existing"
    using ok(1) v targets by (simp add: current_episode_targets_def)
qed

theorem progress_idempotent_witness:
  "\<exists>es. target_progress_events (\<lambda>_. ''h'') ex_episode [ex_event ''a'' 1 ACTIVATE HARD_REDUCE 1]
          [(''QQQ'', D 4 0)] ex_next_check ex_provenance None = Inr es \<and> length es = 1
     \<and> target_progress_events (\<lambda>_. ''h'') ex_episode ([ex_event ''a'' 1 ACTIVATE HARD_REDUCE 1] @ es)
          [(''QQQ'', D 4 0)] ex_next_check ex_provenance None = Inr []"
proof -
  let ?es = "[ex_event ''a'' 1 ACTIVATE HARD_REDUCE 1]"
  have "(case target_progress_events (\<lambda>_. ''h'') ex_episode ?es [(''QQQ'', D 4 0)] ex_next_check ex_provenance None of
      Inl _ \<Rightarrow> False
    | Inr es \<Rightarrow> map rv_risk_episode_event_id es = [''q1-risk-episode-event_h'']
        \<and> map rv_idempotency_key es = [''q1-risk-event-idem_h''])"
    by code_simp
  then obtain es where es: "target_progress_events (\<lambda>_. ''h'') ex_episode ?es [(''QQQ'', D 4 0)] ex_next_check ex_provenance None = Inr es"
    and ids: "map rv_risk_episode_event_id es = [''q1-risk-episode-event_h'']" "map rv_idempotency_key es = [''q1-risk-event-idem_h'']"
    by (auto split: sum.splits)
  have sev: "episode_severity (Some ex_episode) ?es \<noteq> NORMAL" by code_simp
  have "length es = 1" using ids(1) by (metis length_map length_Cons list.size(3) One_nat_def)
  then show ?thesis
    using progress_idempotent [OF es sev] es ids by (simp add: ex_event_def)
qed

end
