(* ===== verification/Fill_Economics.thy ===== *)
theory Fill_Economics
  imports Domain
begin

text \<open>
  The economics of one simulated fill, \<^verbatim>\<open>src/trading/execution/q1_paper.py\<close>: participation caps,
  the price guard against adverse moves, the delay penalty, and a commission charged on the
  cumulative notional of the order. Shown: a fill respects every cap and the guard, its price is
  the delayed quote up to the price precision, and filling an order in parts charges the same
  total commission as filling it at once.
\<close>

section \<open>Configuration and result\<close>

record q1_execution_config =
  xc_displayed_participation :: decimal
  xc_adv_participation :: decimal
  xc_delay_penalty_bps :: decimal
  xc_guard_min_bps :: decimal
  xc_guard_max_bps :: decimal
  xc_guard_spread_multiplier :: decimal
  xc_quantity_precision :: decimal
  xc_price_precision :: decimal
  xc_commission_rate :: decimal
  xc_commission_waiver_threshold_usd :: decimal
  xc_commission_precision :: decimal
  xc_sensitivity_bps :: "decimal list"

definition validate_q1_execution_config :: "q1_execution_config \<Rightarrow> q1_execution_config result" where
  "validate_q1_execution_config c =
     (if \<not> (0 < xc_displayed_participation c \<and> xc_displayed_participation c \<le> 1)
      then Inl (ValueError ''Displayed participation must be within (0, 1]'')
      else if \<not> (0 < xc_adv_participation c \<and> xc_adv_participation c \<le> 1)
      then Inl (ValueError ''ADV participation must be within (0, 1]'')
      else if xc_delay_penalty_bps c < 0 \<or> xc_guard_min_bps c \<le> 0
              \<or> xc_guard_max_bps c < xc_guard_min_bps c \<or> xc_guard_spread_multiplier c \<le> 0
      then Inl (ValueError ''Invalid Q1 execution penalty or guard parameters'')
      else if xc_quantity_precision c \<le> 0 \<or> xc_price_precision c \<le> 0
      then Inl (ValueError ''Q1 execution precision must be positive'')
      else if xc_commission_rate c < 0 \<or> xc_commission_waiver_threshold_usd c < 0
              \<or> xc_commission_precision c \<le> 0
      then Inl (ValueError ''Q1 commission parameters cannot be negative'')
      else if \<exists>v\<in>set (xc_sensitivity_bps c). v < 0
      then Inl (ValueError ''Q1 sensitivity values cannot be negative'')
      else Inr c)"

record q1_fill_economics =
  fe_quantity :: decimal
  fe_price :: decimal
  fe_commission_usd :: decimal
  fe_cumulative_notional_usd :: decimal
  fe_cumulative_commission_usd :: decimal
  fe_base_execution_cost_usd :: decimal
  fe_sensitivity_costs_usd :: "(string, decimal) dict"
  fe_guard_bps :: decimal
  fe_adverse_move_bps :: decimal

text \<open>The arguments of \<^verbatim>\<open>build_q1_fill_economics\<close> besides the configuration.\<close>

record fill_request =
  fr_side :: order_side
  fr_remaining_quantity :: decimal
  fr_bid_price :: decimal
  fr_ask_price :: decimal
  fr_executable_side_quantity :: decimal
  fr_remaining_adv_capacity :: decimal
  fr_decision_reference_price :: decimal
  fr_decision_spread_bps :: decimal
  fr_cumulative_notional_before :: decimal
  fr_cumulative_commission_before :: decimal

section \<open>Building a fill\<close>

definition BPS :: decimal where
  "BPS = D 10000 0"

definition dynamic_guard_bps :: "decimal \<Rightarrow> q1_execution_config \<Rightarrow> decimal result" where
  "dynamic_guard_bps decision_spread_bps config =
     (if decision_spread_bps < 0 then Inl (ValueError ''Decision spread cannot be negative'')
      else Inr (py_min (xc_guard_max_bps config)
                  (py_max (xc_guard_min_bps config)
                     (xc_guard_spread_multiplier config * decision_spread_bps))))"

definition adverse_move :: "order_side \<Rightarrow> decimal \<Rightarrow> decimal \<Rightarrow> decimal result" where
  "adverse_move side reference decision_reference =
     (if side = BUY then dec_div (reference - decision_reference) decision_reference
      else dec_div (decision_reference - reference) decision_reference)"

definition order_commission :: "q1_execution_config \<Rightarrow> decimal \<Rightarrow> decimal result" where
  "order_commission config cumulative_notional =
     (if cumulative_notional \<le> xc_commission_waiver_threshold_usd config then Inr 0
      else quantize ROUND_HALF_EVEN (xc_commission_precision config)
             (cumulative_notional * xc_commission_rate config))"

definition sensitivity_cost ::
  "decimal \<Rightarrow> decimal \<Rightarrow> decimal \<Rightarrow> (string, decimal) dict \<Rightarrow> (string, decimal) dict" where
  "sensitivity_cost base_cost fill_notional v costs =
     AList.update (''plus_'' @ format_f v @ ''_bps'')
       (base_cost + d_div (fill_notional * v) BPS) costs"

definition build_q1_fill_economics :: "fill_request \<Rightarrow> q1_execution_config \<Rightarrow> q1_fill_economics result" where
  "build_q1_fill_economics r config =
     (if fr_remaining_quantity r \<le> 0
      then Inl (ValueError ''Remaining order quantity must be positive'')
      else if fr_bid_price r \<le> 0 \<or> fr_ask_price r \<le> 0 \<or> fr_ask_price r < fr_bid_price r
              \<or> fr_executable_side_quantity r \<le> 0 \<or> fr_remaining_adv_capacity r \<le> 0
              \<or> fr_decision_reference_price r \<le> 0
      then Inl (ValueError ''Q1 fill inputs must describe an executable quote'')
      else if fr_cumulative_notional_before r < 0 \<or> fr_cumulative_commission_before r < 0
      then Inl (ValueError ''Q1 cumulative order economics cannot be negative'')
      else
        let reference = (if fr_side r = BUY then fr_ask_price r else fr_bid_price r) in
        rbind (adverse_move (fr_side r) reference (fr_decision_reference_price r)) (\<lambda>move.
        let adverse_move_bps = py_max 0 (move * BPS) in
        rbind (dynamic_guard_bps (fr_decision_spread_bps r) config) (\<lambda>guard_bps.
        if guard_bps < adverse_move_bps then Inl Q1PriceGuardViolation
        else
          let displayed_cap = fr_executable_side_quantity r * xc_displayed_participation config in
          rbind (quantize ROUND_DOWN (xc_quantity_precision config)
                   (py_min (py_min (fr_remaining_quantity r) displayed_cap) (fr_remaining_adv_capacity r)))
            (\<lambda>quantity.
          if quantity \<le> 0 then Inl (ValueError ''Q1 execution caps produced a zero-quantity fill'')
          else
            let delay = d_div (xc_delay_penalty_bps config) BPS;
                raw_price = (if fr_side r = BUY then reference * (1 + delay) else reference * (1 - delay)) in
            rbind (quantize ROUND_HALF_EVEN (xc_price_precision config) raw_price) (\<lambda>price.
            let fill_notional = quantity * price;
                cumulative_notional = fr_cumulative_notional_before r + fill_notional in
            rbind (order_commission config cumulative_notional) (\<lambda>total_commission.
            let commission = total_commission - fr_cumulative_commission_before r in
            if commission < 0
            then Inl (ValueError ''Cumulative commission exceeds configured order commission'')
            else
              let midpoint = d_div (fr_bid_price r + fr_ask_price r) (D 2 0);
                  price_cost = (if fr_side r = BUY then (price - midpoint) * quantity
                                else (midpoint - price) * quantity);
                  base_cost = py_max 0 price_cost + commission in
              Inr \<lparr>fe_quantity = quantity, fe_price = price, fe_commission_usd = commission,
                   fe_cumulative_notional_usd = cumulative_notional,
                   fe_cumulative_commission_usd = total_commission,
                   fe_base_execution_cost_usd = base_cost,
                   fe_sensitivity_costs_usd =
                     fold (sensitivity_cost base_cost fill_notional) (xc_sensitivity_bps config) [],
                   fe_guard_bps = guard_bps, fe_adverse_move_bps = adverse_move_bps\<rparr>))))))"

section \<open>Filling an order in parts\<close>

text \<open>
  Successive fills of one order. As in the execution cycle, the notional before a fill is the sum
  over the order's stored fills (\<^verbatim>\<open>_order_cumulative_notional\<close>) and the commission before it is the
  sum over the order's events.
\<close>

fun fill_parts ::
  "q1_execution_config \<Rightarrow> fill_request list \<Rightarrow> q1_fill_economics list \<Rightarrow> q1_fill_economics list result" where
  "fill_parts config [] parts = Inr parts"
| "fill_parts config (r # rs) parts =
     rbind (build_q1_fill_economics
              (r\<lparr>fr_cumulative_notional_before := dsum (map (\<lambda>e. fe_quantity e * fe_price e) parts),
                 fr_cumulative_commission_before := dsum (map fe_commission_usd parts)\<rparr>) config)
       (\<lambda>e. fill_parts config rs (parts @ [e]))"

section \<open>Lemmas\<close>

lemma validate_q1_execution_config_Inr:
  "validate_q1_execution_config c = Inr c' \<Longrightarrow>
     0 < xc_displayed_participation c \<and> xc_guard_min_bps c \<le> xc_guard_max_bps c \<and> 0 < xc_guard_min_bps c"
  by (auto simp: validate_q1_execution_config_def less_decimal_dval less_eq_decimal_dval not_less split: if_splits)

text \<open>What a successful construction went through.\<close>

lemma build_q1_fill_economics_Inr:
  assumes "build_q1_fill_economics r config = Inr e"
  shows "0 < dval (fr_remaining_quantity r)" "0 < dval (fr_executable_side_quantity r)" "0 < dval (fr_remaining_adv_capacity r)"
    and "dynamic_guard_bps (fr_decision_spread_bps r) config = Inr (fe_guard_bps e)"
    and "0 \<le> dval (fe_adverse_move_bps e)" "dval (fe_adverse_move_bps e) \<le> dval (fe_guard_bps e)"
    and "quantize ROUND_DOWN (xc_quantity_precision config)
       (py_min (py_min (fr_remaining_quantity r) (fr_executable_side_quantity r * xc_displayed_participation config))
          (fr_remaining_adv_capacity r)) = Inr (fe_quantity e)"
    and "0 < dval (fe_quantity e)"
    and "quantize ROUND_HALF_EVEN (xc_price_precision config)
       (if fr_side r = BUY then fr_ask_price r * (1 + d_div (xc_delay_penalty_bps config) BPS)
        else fr_bid_price r * (1 - d_div (xc_delay_penalty_bps config) BPS)) = Inr (fe_price e)"
    and "fe_cumulative_notional_usd e = fr_cumulative_notional_before r + fe_quantity e * fe_price e"
    and "order_commission config (fe_cumulative_notional_usd e) = Inr (fe_cumulative_commission_usd e)"
    and "fe_commission_usd e = fe_cumulative_commission_usd e - fr_cumulative_commission_before r"
    and "0 \<le> dval (fe_commission_usd e)"
  using assms unfolding build_q1_fill_economics_def Let_def
  by (auto simp: rbind_eq_Inr dval_py_max less_decimal_dval less_eq_decimal_dval not_le not_less split: if_splits)

lemma order_commission_grid:
  assumes "order_commission config n = Inr t"
  shows "on_grid (dexp (xc_commission_precision config)) (dval t)"
    and "\<bar>dval t\<bar> \<le> pow10 (dexp (xc_commission_precision config) + int prec)"
proof -
  have "on_grid (dexp (xc_commission_precision config)) (dval t)
    \<and> \<bar>dval t\<bar> \<le> pow10 (dexp (xc_commission_precision config) + int prec)"
  proof (cases "n \<le> xc_commission_waiver_threshold_usd config")
    case False
    then have q: "quantize ROUND_HALF_EVEN (xc_commission_precision config) (n * xc_commission_rate config) = Inr t"
      using assms by (simp add: order_commission_def)
    have "of_nat (dcoef t) \<le> (10 ^ prec :: rat)"
      using quantize_value(3) [OF q] by (metis less_imp_le of_nat_le_iff of_nat_numeral of_nat_power)
    then have "of_nat (dcoef t) * pow10 (dexp t) \<le> 10 ^ prec * pow10 (dexp t)" by (intro mult_right_mono) auto
    then have "\<bar>dval t\<bar> \<le> pow10 (dexp (xc_commission_precision config) + int prec)"
      using quantize_value(2) [OF q] by (simp add: abs_dval pow10_add pow10_nat mult.commute)
    then show ?thesis using quantize_value(1) [OF q] by (auto simp: on_grid_def)
  qed (use assms in \<open>simp add: order_commission_def\<close>)
  then show "on_grid (dexp (xc_commission_precision config)) (dval t)"
    "\<bar>dval t\<bar> \<le> pow10 (dexp (xc_commission_precision config) + int prec)" by blast+
qed


text \<open>An example: a buy of 15 shares in two parts, limited by displayed size.\<close>

definition ex_execution :: q1_execution_config where
  "ex_execution = \<lparr>xc_displayed_participation = D 5 (- 1), xc_adv_participation = D 1 (- 2),
     xc_delay_penalty_bps = D 2 0, xc_guard_min_bps = D 10 0, xc_guard_max_bps = D 50 0,
     xc_guard_spread_multiplier = D 3 0, xc_quantity_precision = D 1 (- 2), xc_price_precision = D 1 (- 4),
     xc_commission_rate = D 1 (- 3), xc_commission_waiver_threshold_usd = D 500 0,
     xc_commission_precision = D 1 (- 2), xc_sensitivity_bps = []\<rparr>"

definition ex_fill_request :: "decimal \<Rightarrow> decimal \<Rightarrow> decimal \<Rightarrow> fill_request" where
  "ex_fill_request q n c = \<lparr>fr_side = BUY, fr_remaining_quantity = q, fr_bid_price = D 999 (- 1), fr_ask_price = D 1001 (- 1),
     fr_executable_side_quantity = D 20 0, fr_remaining_adv_capacity = D 100 0,
     fr_decision_reference_price = D 100 0, fr_decision_spread_bps = D 20 0,
     fr_cumulative_notional_before = n, fr_cumulative_commission_before = c\<rparr>"

definition ex_economics :: "decimal \<Rightarrow> decimal \<Rightarrow> decimal \<Rightarrow> decimal \<Rightarrow> decimal \<Rightarrow> q1_fill_economics" where
  "ex_economics q c n t b = \<lparr>fe_quantity = q, fe_price = Dec False 1001200 (- 4), fe_commission_usd = c,
     fe_cumulative_notional_usd = n, fe_cumulative_commission_usd = t, fe_base_execution_cost_usd = b,
     fe_sensitivity_costs_usd = [], fe_guard_bps = Dec False 50 0, fe_adverse_move_bps = Dec False 10000 (- 3)\<rparr>"

lemmas fill_eval =
  build_q1_fill_economics_def adverse_move_def dynamic_guard_bps_def order_commission_def BPS_def dec_eval

lemma ex_first_part:
  "build_q1_fill_economics (ex_fill_request (D 15 0) 0 0) ex_execution =
     Inr (ex_economics (Dec False 1000 (- 2)) (Dec False 100 (- 2)) (Dec False 1001200000 (- 6))
       (Dec False 100 (- 2)) (Dec False 2200000 (- 6)))"
  by (simp add: ex_execution_def ex_fill_request_def ex_economics_def fill_eval cong: eval_congs split del: if_split)

lemma ex_second_part:
  "build_q1_fill_economics (ex_fill_request (D 5 0) (Dec False 1001200000 (- 6)) (Dec False 100 (- 2))) ex_execution =
     Inr (ex_economics (Dec False 500 (- 2)) (Dec False 50 (- 2)) (Dec False 1501800000 (- 6))
       (Dec False 150 (- 2)) (Dec False 1100000 (- 6)))"
  by (simp add: ex_execution_def ex_fill_request_def ex_economics_def fill_eval cong: eval_congs split del: if_split)

lemma ex_execution_valid: "validate_q1_execution_config ex_execution = Inr ex_execution"
  by code_simp

text \<open>The relative move of the executable price against the decision price, without rounding.\<close>

definition exact_move_bps :: "fill_request \<Rightarrow> rat" where
  "exact_move_bps r =
     (let d = dval (fr_decision_reference_price r) in
      (if fr_side r = BUY then dval (fr_ask_price r) - d else d - dval (fr_bid_price r)) / d * 10000)"

lemma fill_adverse_move:
  assumes "build_q1_fill_economics r config = Inr e"
  shows "\<bar>dval (fe_adverse_move_bps e) - max 0 (exact_move_bps r)\<bar> \<le> ((1 + eps) ^ 3 - 1) * \<bar>exact_move_bps r\<bar>"
proof -
  define d where "d = dval (fr_decision_reference_price r)"
  define x where "x = (if fr_side r = BUY then dval (fr_ask_price r) - d else d - dval (fr_bid_price r))"
  obtain move where move: "adverse_move (fr_side r) (if fr_side r = BUY then fr_ask_price r else fr_bid_price r)
      (fr_decision_reference_price r) = Inr move" "fe_adverse_move_bps e = py_max 0 (move * BPS)"
    using assms unfolding build_q1_fill_economics_def Let_def by (auto simp: rbind_eq_Inr split: if_splits)
  have "dval move = ctx (ctx x / d)"
    using move(1) by (cases "fr_side r") (auto simp: adverse_move_def dec_div_Inr dval_d_div dval_minus x_def d_def)
  then have "dval (fe_adverse_move_bps e) = max 0 (ctx (ctx (ctx x / d) * 10000))"
    by (simp add: move(2) dval_py_max dval_times BPS_def dval_D)
  moreover have "near 3 (ctx (ctx (ctx x / d) * 10000)) (x / d * 10000)"
    using near_ctx [OF near_times [OF near_ctx [OF near_times [OF near_ctx [OF near_refl]]]], of x "1 / d" 10000]
    by (simp add: numeral_3_eq_3)
  moreover have "exact_move_bps r = x / d * 10000" by (simp only: exact_move_bps_def Let_def x_def d_def)
  ultimately show ?thesis using near_max by metis
qed

lemma three_roundings: "(1 + eps) ^ 3 - 1 \<le> pow10 (- 26)"
  by (simp add: power_int_def power_one_over power_divide)

lemma guard_bounds_move:
  assumes "build_q1_fill_economics r config = Inr e"
  shows "exact_move_bps r * (1 - pow10 (- 26)) \<le> dval (fe_guard_bps e)"
proof (cases "0 \<le> exact_move_bps r")
  case True
  let ?m = "exact_move_bps r"
  have "((1 + eps) ^ 3 - 1) * \<bar>?m\<bar> \<le> pow10 (- 26) * \<bar>?m\<bar>" using three_roundings by (rule mult_right_mono) simp
  then have "?m - pow10 (- 26) * ?m \<le> dval (fe_adverse_move_bps e)"
    using fill_adverse_move [OF assms] True by linarith
  then show ?thesis using build_q1_fill_economics_Inr(6) [OF assms] by (simp only: right_diff_distrib mult_1_right mult.commute)
next
  case False
  have "0 \<le> 1 - pow10 (- 26)" by (simp add: power_int_def power_one_over)
  then have "exact_move_bps r * (1 - pow10 (- 26)) \<le> 0" using False by (intro mult_nonpos_nonneg) auto
  then show ?thesis using build_q1_fill_economics_Inr(5,6) [OF assms] by linarith
qed

text \<open>
  C20. A fill that is produced is positive, exceeds neither the remaining order quantity nor the
  participation caps and is the largest multiple of the quantity precision below them. The price
  guard holds for the quotes themselves: the relative move from the decision price to the ask
  (buying) or the bid (selling) is at most the guard, up to one part in 10^26, and the reported
  adverse move is that move up to three roundings. The guard is the spread at the decision times
  the multiplier, clipped to its configured bounds. The price is the delayed quote rounded to the
  price precision, and the commission is not negative.\<close>

theorem fill_within_caps:
  assumes "validate_q1_execution_config config = Inr config" "build_q1_fill_economics r config = Inr e"
  shows "0 < dval (fe_quantity e)
    \<and> dval (fe_quantity e) \<le> dval (fr_remaining_quantity r)
    \<and> dval (fe_quantity e) \<le> dval (fr_executable_side_quantity r * xc_displayed_participation config)
    \<and> dval (fe_quantity e) \<le> dval (fr_remaining_adv_capacity r)
    \<and> min (min (dval (fr_remaining_quantity r)) (dval (fr_executable_side_quantity r * xc_displayed_participation config)))
        (dval (fr_remaining_adv_capacity r)) < dval (fe_quantity e) + pow10 (dexp (xc_quantity_precision config))
    \<and> 0 \<le> dval (fe_adverse_move_bps e) \<and> dval (fe_adverse_move_bps e) \<le> dval (fe_guard_bps e)
    \<and> \<bar>dval (fe_adverse_move_bps e) - max 0 (exact_move_bps r)\<bar> \<le> ((1 + eps) ^ 3 - 1) * \<bar>exact_move_bps r\<bar>
    \<and> exact_move_bps r * (1 - pow10 (- 26)) \<le> dval (fe_guard_bps e)
    \<and> dval (fe_guard_bps e) = min (dval (xc_guard_max_bps config))
        (max (dval (xc_guard_min_bps config)) (dval (xc_guard_spread_multiplier config * fr_decision_spread_bps r)))
    \<and> xc_guard_min_bps config \<le> fe_guard_bps e \<and> fe_guard_bps e \<le> xc_guard_max_bps config
    \<and> \<bar>dval (fe_price e)
        - dval (if fr_side r = BUY then fr_ask_price r * (1 + d_div (xc_delay_penalty_bps config) BPS)
                else fr_bid_price r * (1 - d_div (xc_delay_penalty_bps config) BPS))\<bar>
      \<le> pow10 (dexp (xc_price_precision config)) / 2
    \<and> 0 \<le> dval (fe_commission_usd e)"
proof -
  note b = build_q1_fill_economics_Inr [OF assms(2)] and c = validate_q1_execution_config_Inr [OF assms(1)]
  define cap where "cap = py_min (py_min (fr_remaining_quantity r)
      (fr_executable_side_quantity r * xc_displayed_participation config)) (fr_remaining_adv_capacity r)"
  have cap: "dval cap = min (min (dval (fr_remaining_quantity r))
      (dval (fr_executable_side_quantity r * xc_displayed_participation config))) (dval (fr_remaining_adv_capacity r))"
    by (simp add: cap_def dval_py_min)
  have "0 < dval (fr_executable_side_quantity r * xc_displayed_participation config)"
    using b(2) c by (auto simp: dval_times less_decimal_dval intro!: ctx_pos)
  then have "0 \<le> dval cap" using b(1,3) by (simp add: cap)
  note q = quantize_down [OF b(7) [folded cap_def] this]
  have "fe_guard_bps e = py_min (xc_guard_max_bps config)
      (py_max (xc_guard_min_bps config) (xc_guard_spread_multiplier config * fr_decision_spread_bps r))"
    using b(4) by (simp add: dynamic_guard_bps_def split: if_splits)
  then have guard: "dval (fe_guard_bps e) = min (dval (xc_guard_max_bps config))
      (max (dval (xc_guard_min_bps config)) (dval (xc_guard_spread_multiplier config * fr_decision_spread_bps r)))"
    by (simp add: dval_py_min dval_py_max)
  then have "xc_guard_min_bps config \<le> fe_guard_bps e \<and> fe_guard_bps e \<le> xc_guard_max_bps config"
    using c by (simp add: less_eq_decimal_dval)
  with guard show ?thesis
    using b(5,6,8,13) q quantize_half_even_error [OF b(9)] fill_adverse_move [OF assms(2)] guard_bounds_move [OF assms(2)]
    unfolding cap by (simp only: min.bounded_iff simp_thms)
qed

theorem fill_within_caps_witness:
  "0 < dval (Dec False 1000 (- 2)) \<and> dval (Dec False 1000 (- 2)) \<le> dval (D 15 0)"
  using fill_within_caps [OF ex_execution_valid ex_first_part] by (simp add: ex_economics_def ex_fill_request_def)

definition charged :: "q1_execution_config \<Rightarrow> q1_fill_economics list \<Rightarrow> decimal \<Rightarrow> bool" where
  "charged config parts t \<longleftrightarrow>
     order_commission config (dsum (map (\<lambda>e. fe_quantity e * fe_price e) parts)) = Inr t
     \<and> dval (dsum (map fe_commission_usd parts)) = dval t
     \<and> (\<Sum>e\<leftarrow>parts. dval (fe_commission_usd e)) = dval t \<and> 0 \<le> dval t"

lemma charged_step:
  assumes e: "build_q1_fill_economics
      (r\<lparr>fr_cumulative_notional_before := dsum (map (\<lambda>e. fe_quantity e * fe_price e) parts),
         fr_cumulative_commission_before := dsum (map fe_commission_usd parts)\<rparr>) config = Inr e"
    and parts: "parts = [] \<or> (\<exists>total. charged config parts total)"
  shows "\<exists>total. charged config (parts @ [e]) total"
proof -
  let ?n = "map (\<lambda>e. fe_quantity e * fe_price e)" and ?t = "fe_cumulative_commission_usd e"
  note b = build_q1_fill_economics_Inr [OF e, simplified]
  note g = order_commission_grid [OF b(11)]
  define c where "c = dval (dsum (map fe_commission_usd parts))"
  have c: "on_grid (dexp (xc_commission_precision config)) c" "0 \<le> c" "(\<Sum>e\<leftarrow>parts. dval (fe_commission_usd e)) = c"
    using parts order_commission_grid(1) by (auto simp: charged_def c_def)
  have le: "c \<le> dval ?t"
  proof (rule ccontr)
    assume "\<not> c \<le> dval ?t"
    then have "0 < ctx (c - dval ?t)" by (intro ctx_pos) simp
    then show False using b(12,13) ctx_uminus [of "c - dval ?t"] by (simp add: dval_minus c_def)
  qed
  have d: "dval (fe_commission_usd e) = dval ?t - c"
    unfolding b(12) dval_minus c_def [symmetric] using le g c by (intro ctx_grid on_grid_diff) auto
  have t: "ctx (dval ?t) = dval ?t" using g by (rule ctx_grid)
  have "dsum (?n (parts @ [e])) = fe_cumulative_notional_usd e" unfolding b(10) by (simp add: dsum_def)
  then have "charged config (parts @ [e]) ?t"
    using b(11) d t c le by (simp add: charged_def dval_dsum_snoc c_def)
  then show ?thesis by blast
qed

lemma charged_parts:
  assumes "fill_parts config rs parts = Inr es" "parts = [] \<or> (\<exists>total. charged config parts total)"
  shows "es = [] \<or> (\<exists>total. charged config es total)"
  using assms
proof (induction rs arbitrary: parts)
  case (Cons r rs)
  then obtain e where e: "build_q1_fill_economics
      (r\<lparr>fr_cumulative_notional_before := dsum (map (\<lambda>e. fe_quantity e * fe_price e) parts),
         fr_cumulative_commission_before := dsum (map fe_commission_usd parts)\<rparr>) config = Inr e"
    and rest: "fill_parts config rs (parts @ [e]) = Inr es" by (auto simp: rbind_eq_Inr)
  show ?case by (rule Cons.IH [OF rest disjI2 [OF charged_step [OF e Cons.prems(2)]]])
qed simp

text \<open>The fills of all parts carry quantities and prices of the configured precisions.\<close>

lemma parts_on_grid:
  assumes "fill_parts config rs parts = Inr es"
    and "\<And>e. e \<in> set parts \<Longrightarrow> on_grid (dexp (xc_quantity_precision config)) (dval (fe_quantity e))
      \<and> on_grid (dexp (xc_price_precision config)) (dval (fe_price e))"
    and "e \<in> set es"
  shows "on_grid (dexp (xc_quantity_precision config)) (dval (fe_quantity e))
    \<and> on_grid (dexp (xc_price_precision config)) (dval (fe_price e))"
  using assms
proof (induction rs arbitrary: parts)
  case (Cons r rs)
  obtain e' where e': "build_q1_fill_economics
      (r\<lparr>fr_cumulative_notional_before := dsum (map (\<lambda>e. fe_quantity e * fe_price e) parts),
         fr_cumulative_commission_before := dsum (map fe_commission_usd parts)\<rparr>) config = Inr e'"
    and rest: "fill_parts config rs (parts @ [e']) = Inr es" using Cons.prems(1) by (auto simp: rbind_eq_Inr)
  note b = build_q1_fill_economics_Inr [OF e']
  show ?case
    by (rule Cons.IH [OF rest _ Cons.prems(3)]) (use Cons.prems(2) quantize_on_grid [OF b(7)] quantize_on_grid [OF b(9)] in auto)
qed simp

text \<open>Without rounding: the notional of all parts, when it fits in 28 digits.\<close>

lemma parts_notional_exact:
  assumes "\<And>e. e \<in> set es \<Longrightarrow> on_grid h (dval (fe_quantity e)) \<and> on_grid k (dval (fe_price e))"
    and "(\<Sum>e\<leftarrow>es. \<bar>dval (fe_quantity e) * dval (fe_price e)\<bar>) \<le> pow10 (h + k + int prec)"
  shows "dval (dsum (map (\<lambda>e. fe_quantity e * fe_price e) es)) = (\<Sum>e\<leftarrow>es. dval (fe_quantity e) * dval (fe_price e))"
proof -
  have g: "on_grid (h + k) (dval (fe_quantity e) * dval (fe_price e))" if "e \<in> set es" for e
    using assms(1) [OF that] by (auto intro: on_grid_mult)
  have le: "\<bar>dval (fe_quantity e) * dval (fe_price e)\<bar> \<le> pow10 (h + k + int prec)" if "e \<in> set es" for e
    using member_le_sum_list [of "\<bar>dval (fe_quantity e) * dval (fe_price e)\<bar>"
        "map (\<lambda>e. \<bar>dval (fe_quantity e) * dval (fe_price e)\<bar>) es"] that assms(2) by fastforce
  have v: "dval (fe_quantity e * fe_price e) = dval (fe_quantity e) * dval (fe_price e)" if "e \<in> set es" for e
    unfolding dval_times using g [OF that] le [OF that] by (rule ctx_grid)
  have "on_grid (h + k) (dval x)" if "x \<in> set (map (\<lambda>e. fe_quantity e * fe_price e) es)" for x
    using that g v by auto
  note sum = dsum_exact(1) [of "map (\<lambda>e. fe_quantity e * fe_price e) es", OF this]
  have "dval (dsum (map (\<lambda>e. fe_quantity e * fe_price e) es)) = (\<Sum>e\<leftarrow>es. dval (fe_quantity e * fe_price e))"
    using sum assms(2) v by (simp add: comp_def cong: map_cong)
  also have "\<dots> = (\<Sum>e\<leftarrow>es. dval (fe_quantity e) * dval (fe_price e))" using v by (simp cong: map_cong)
  finally show ?thesis .
qed

text \<open>
  C21. Filling an order in parts charges the commission schedule once: whatever the sequence of
  partial fills, the commissions charged add up exactly to the commission the schedule gives for
  the sum of the notionals of all parts. That sum is the exact one when it fits in 28 digits.\<close>

theorem partial_fills_charge_once:
  assumes "fill_parts config rs [] = Inr es" "es \<noteq> []"
  shows "\<exists>notional total. order_commission config notional = Inr total
    \<and> (\<Sum>e\<leftarrow>es. dval (fe_commission_usd e)) = dval total
    \<and> notional = dsum (map (\<lambda>e. fe_quantity e * fe_price e) es)
    \<and> ((\<Sum>e\<leftarrow>es. \<bar>dval (fe_quantity e) * dval (fe_price e)\<bar>)
          \<le> pow10 (dexp (xc_quantity_precision config) + dexp (xc_price_precision config) + int prec)
        \<longrightarrow> dval notional = (\<Sum>e\<leftarrow>es. dval (fe_quantity e) * dval (fe_price e)))"
proof -
  obtain total where "charged config es total" using charged_parts [OF assms(1)] assms(2) by auto
  moreover have "\<And>e. e \<in> set es \<Longrightarrow> on_grid (dexp (xc_quantity_precision config)) (dval (fe_quantity e))
      \<and> on_grid (dexp (xc_price_precision config)) (dval (fe_price e))"
    by (rule parts_on_grid [OF assms(1)]) auto
  note parts_notional_exact [OF this]
  ultimately show ?thesis unfolding charged_def by blast
qed

theorem partial_fills_charge_once_witness:
  "\<exists>total. order_commission ex_execution (Dec False 1501800000 (- 6)) = Inr total
    \<and> dval (Dec False 100 (- 2)) + dval (Dec False 50 (- 2)) = dval total"
proof -
  have sums: "dsum [Dec False 1000 (- 2) * Dec False 1001200 (- 4)] = Dec False 1001200000 (- 6)"
    "dsum [Dec False 100 (- 2)] = Dec False 100 (- 2)"
    "dsum [Dec False 1000 (- 2) * Dec False 1001200 (- 4), Dec False 500 (- 2) * Dec False 1001200 (- 4)] = Dec False 1501800000 (- 6)"
    by code_simp+
  have "fill_parts ex_execution [ex_fill_request (D 15 0) 0 0, ex_fill_request (D 5 0) 0 0] [] =
      Inr [ex_economics (Dec False 1000 (- 2)) (Dec False 100 (- 2)) (Dec False 1001200000 (- 6))
             (Dec False 100 (- 2)) (Dec False 2200000 (- 6)),
           ex_economics (Dec False 500 (- 2)) (Dec False 50 (- 2)) (Dec False 1501800000 (- 6))
             (Dec False 150 (- 2)) (Dec False 1100000 (- 6))]"
    using ex_first_part ex_second_part by (simp add: ex_fill_request_def) (simp add: ex_economics_def sums)
  from partial_fills_charge_once [OF this] show ?thesis by (auto simp: ex_economics_def sums)
qed

end
