(* ===== verification/Turnover.thy ===== *)
theory Turnover
  imports Domain
begin

text \<open>
  Turnover and minimum-notional control of the Q1 allocator,
  \<^verbatim>\<open>src/trading/quant/allocator.py\<close> (everything that runs in the default decimal context), with the
  parameter records of \<^verbatim>\<open>src/trading/quant/config.py\<close> it reads. Shown: a normal rebalance
  never executes more than the remaining one-way capacity of the day, up to the tolerance on the
  sum of weights, and an emergency reduction only sells. The allocation itself, which computes in
  a local context of configurable precision, is not modelled.
\<close>

section \<open>Parameters and results\<close>

record turnover_parameters =
  tp_normal_daily_one_way_cap :: decimal
  tp_no_trade_one_way_threshold :: decimal
  tp_minimum_order_notional_usd :: decimal
  tp_minimum_order_nav_fraction :: decimal
  tp_emergency_bypasses_turnover_cap :: bool
  tp_emergency_bypasses_minimum_order :: bool

record allocation_parameters =
  ap_b0_vol_target :: decimal
  ap_q1_target_vol :: decimal
  ap_max_gross_risky_weight :: decimal
  ap_qqq_max_weight :: decimal
  ap_soxx_max_weight :: decimal
  ap_soxx_max_variance_contribution :: decimal
  ap_allow_volatility_scale_up :: bool
  ap_risk_contribution_bisection_iterations :: int
  ap_risk_contribution_tolerance :: decimal
  ap_weight_sum_tolerance :: decimal

text \<open>The fields of \<^verbatim>\<open>Q1MathConfig\<close> this component reads.\<close>

record q1_math_config =
  mc_algorithm_version :: string
  mc_risky_symbols :: "string list"
  mc_cash_symbol :: string
  mc_allocation :: allocation_parameters
  mc_turnover :: turnover_parameters

record current_portfolio_weights =
  cw_nav_usd :: decimal
  cw_settled_cash_usd :: decimal
  cw_unsettled_receivables_usd :: decimal
  cw_weights :: "(string, decimal) dict"

record proposed_trade =
  pt_symbol :: string
  pt_side :: string
  pt_weight_delta :: decimal
  pt_notional_usd :: decimal

record omitted_order_diagnostic =
  oo_symbol :: string
  oo_side :: string
  oo_proposed_notional_usd :: decimal
  oo_minimum_notional_usd :: decimal
  oo_reason :: string

record turnover_result =
  tv_decision_kind :: string
  tv_proposed_one_way_turnover :: decimal
  tv_remaining_daily_capacity :: decimal
  tv_interpolation_alpha :: decimal
  tv_adjusted_target_weights :: "(string, decimal) dict"
  tv_executable_target_weights :: "(string, decimal) dict"
  tv_executable_one_way_turnover :: decimal
  tv_proposed_trades :: "proposed_trade list"
  tv_omitted_orders :: "omitted_order_diagnostic list"
  tv_turnover_hash :: string

section \<open>Guards\<close>

definition require_positive :: "decimal \<Rightarrow> string \<Rightarrow> decimal result" where
  "require_positive v name =
     (if v \<le> 0 then Inl (Q1MathError (name @ '' must be a positive finite Decimal'')) else Inr v)"

definition require_non_negative :: "decimal \<Rightarrow> string \<Rightarrow> decimal result" where
  "require_non_negative v name =
     (if v < 0 then Inl (Q1MathError (name @ '' must be a non-negative finite Decimal'')) else Inr v)"

definition lookup_weight :: "(string, decimal) dict \<Rightarrow> string \<Rightarrow> decimal result" where
  "lookup_weight items symbol =
     (case map_of items symbol of
        None \<Rightarrow> Inl (Q1MathError (''missing weight for '' @ symbol))
      | Some v \<Rightarrow> Inr v)"

definition validate_basic_weights :: "(string, decimal) dict \<Rightarrow> q1_math_config \<Rightarrow> unit result" where
  "validate_basic_weights weights config =
     (if \<exists>v\<in>set (dict_values weights). v < 0
      then Inl (Q1MathError ''portfolio weights must be non-negative and finite'')
      else if ap_weight_sum_tolerance (mc_allocation config) < d_abs (dsum (dict_values weights) - 1)
      then Inl (Q1MathError ''portfolio weights must sum to one'')
      else Inr ())"

definition normalized_weight_mapping ::
  "(string, decimal) dict \<Rightarrow> string list \<Rightarrow> q1_math_config \<Rightarrow> (string, decimal) dict result" where
  "normalized_weight_mapping values symbols config =
     (if \<exists>(s, v)\<in>set values. s \<notin> set symbols \<and> \<not> d_eq v 0
      then Inl (Q1MathError ''weights contain symbols outside Q1 universe'')
      else
        rbind (rmap (\<lambda>s. rbind (require_non_negative (dict_get values s 0) (''weight['' @ s @ '']''))
                       (\<lambda>v. Inr (s, v))) symbols) (\<lambda>normalized.
        rbind (validate_basic_weights normalized config) (\<lambda>_. Inr normalized)))"

definition one_way_turnover :: "(string, decimal) dict \<Rightarrow> (string, decimal) dict \<Rightarrow> decimal result" where
  "one_way_turnover left right =
     rbind (rmap (\<lambda>p. rbind (dict_lookup right (fst p)) (\<lambda>r. rbind (dict_lookup left (fst p)) (\<lambda>l. Inr (d_abs (r - l)))))
              left)
       (\<lambda>moves. Inr (D 5 (- 1) * dsum moves))"

section \<open>Valuing the current portfolio\<close>

definition risky_value ::
  "(string, decimal) dict \<Rightarrow> (string, decimal) dict \<Rightarrow> string \<Rightarrow> (string \<times> decimal) result" where
  "risky_value positions midpoint_quotes symbol =
     rbind (require_non_negative (dict_get positions symbol 0) (''position['' @ symbol @ '']'')) (\<lambda>quantity.
       if d_eq quantity 0 then Inr (symbol, 0)
       else
         case map_of midpoint_quotes symbol of
           None \<Rightarrow> Inl (Q1MathError (''missing midpoint quote for held symbol '' @ symbol))
         | Some q \<Rightarrow>
             rbind (require_positive q (''midpoint_quote['' @ symbol @ '']'')) (\<lambda>midpoint.
               Inr (symbol, quantity * midpoint)))"

definition compute_current_weights ::
  "(string, decimal) dict \<Rightarrow> decimal \<Rightarrow> (string, decimal) dict \<Rightarrow> (string, decimal) dict \<Rightarrow> q1_math_config
    \<Rightarrow> current_portfolio_weights result" where
  "compute_current_weights positions settled_cash_usd unsettled_receivables midpoint_quotes config =
     rbind (require_non_negative settled_cash_usd ''settled_cash_usd'') (\<lambda>settled.
     rbind (rmap (\<lambda>(k, v). require_non_negative v (''unsettled_receivable['' @ k @ '']'')) unsettled_receivables)
       (\<lambda>receivables.
     let unsettled = dsum receivables in
     rbind (rmap (risky_value positions midpoint_quotes) (mc_risky_symbols config)) (\<lambda>values.
     if \<exists>(s, q)\<in>set positions. \<not> d_eq q 0 \<and> s \<notin> set (mc_risky_symbols config)
     then Inl (Q1MathError ''strategy arm contains symbols outside Q1 universe'')
     else
       let nav = settled + unsettled + dsum (dict_values values) in
       if nav \<le> 0 then Inl (Q1MathError ''current NAV must be positive'')
       else
         Inr \<lparr>cw_nav_usd = nav, cw_settled_cash_usd = settled, cw_unsettled_receivables_usd = unsettled,
              cw_weights = map (\<lambda>(s, v). (s, d_div v nav)) values
                @ [(mc_cash_symbol config, d_div (settled + unsettled) nav)]\<rparr>)))"

section \<open>Turnover control\<close>

definition trade_payload :: "proposed_trade \<Rightarrow> pyval" where
  "trade_payload t =
     VDict [(''symbol'', VStr (pt_symbol t)), (''side'', VStr (pt_side t)),
            (''weight_delta'', VDec (pt_weight_delta t)), (''notional_usd'', VDec (pt_notional_usd t))]"

definition omitted_payload :: "omitted_order_diagnostic \<Rightarrow> pyval" where
  "omitted_payload x =
     VDict [(''symbol'', VStr (oo_symbol x)), (''side'', VStr (oo_side x)),
            (''proposed_notional_usd'', VDec (oo_proposed_notional_usd x)),
            (''minimum_notional_usd'', VDec (oo_minimum_notional_usd x)), (''reason'', VStr (oo_reason x))]"

definition weights_payload :: "(string, decimal) dict \<Rightarrow> pyval" where
  "weights_payload ws = VList (map (\<lambda>(s, v). VList [VStr s, VDec v]) ws)"

definition make_turnover_result ::
  "digest \<Rightarrow> string \<Rightarrow> decimal \<Rightarrow> decimal \<Rightarrow> decimal \<Rightarrow> (string, decimal) dict \<Rightarrow> (string, decimal) dict
    \<Rightarrow> (string, decimal) dict \<Rightarrow> proposed_trade list \<Rightarrow> omitted_order_diagnostic list \<Rightarrow> q1_math_config
    \<Rightarrow> turnover_result result" where
  "make_turnover_result H decision_kind proposed_turnover remaining alpha current adjusted executable trades omitted config =
     (let symbols = mc_risky_symbols config @ [mc_cash_symbol config] in
      rbind (rmap (\<lambda>s. rbind (dict_lookup adjusted s) (\<lambda>v. Inr (s, d_pos v))) symbols) (\<lambda>adjusted_tuple.
      rbind (rmap (\<lambda>s. rbind (dict_lookup executable s) (\<lambda>v. Inr (s, d_pos v))) symbols) (\<lambda>executable_tuple.
      rbind (one_way_turnover current executable) (\<lambda>executable_turnover.
        Inr \<lparr>tv_decision_kind = decision_kind, tv_proposed_one_way_turnover = d_pos proposed_turnover,
             tv_remaining_daily_capacity = d_pos remaining, tv_interpolation_alpha = d_pos alpha,
             tv_adjusted_target_weights = adjusted_tuple, tv_executable_target_weights = executable_tuple,
             tv_executable_one_way_turnover = d_pos executable_turnover, tv_proposed_trades = trades,
             tv_omitted_orders = omitted,
             tv_turnover_hash = canonical_hash H (VDict
               [(''algorithm_version'', VStr (mc_algorithm_version config)),
                (''decision_kind'', VStr decision_kind),
                (''proposed_one_way_turnover'', VDec proposed_turnover),
                (''remaining_daily_capacity'', VDec remaining), (''interpolation_alpha'', VDec alpha),
                (''adjusted_target_weights'', weights_payload adjusted_tuple),
                (''executable_target_weights'', weights_payload executable_tuple),
                (''proposed_trades'', VList (map trade_payload trades)),
                (''omitted_orders'', VList (map omitted_payload omitted))])\<rparr>))))"

definition interpolation_alpha ::
  "q1_math_config \<Rightarrow> bool \<Rightarrow> bool \<Rightarrow> decimal \<Rightarrow> decimal \<Rightarrow> decimal result" where
  "interpolation_alpha config emergency bypass proposed_turnover remaining =
     (if emergency then
        if \<not> tp_emergency_bypasses_turnover_cap (mc_turnover config)
        then Inl (Q1MathError ''emergency turnover bypass is disabled'') else Inr 1
      else if bypass then Inr (if 0 < proposed_turnover then 1 else 0)
      else if d_eq proposed_turnover 0 then Inr 0
      else if remaining < proposed_turnover then dec_div remaining proposed_turnover
      else Inr 1)"

text \<open>The loop over the risky symbols: executable weights, trades and omitted orders.\<close>

type_synonym turnover_state =
  "(string, decimal) dict \<times> proposed_trade list \<times> omitted_order_diagnostic list"

definition turnover_step ::
  "q1_math_config \<Rightarrow> bool \<Rightarrow> decimal \<Rightarrow> decimal \<Rightarrow> (string, decimal) dict \<Rightarrow> (string, decimal) dict
    \<Rightarrow> string \<Rightarrow> turnover_state \<Rightarrow> turnover_state result" where
  "turnover_step config emergency nav threshold current adjusted symbol st =
     (case st of (executable, trades, omitted) \<Rightarrow>
        rbind (dict_lookup adjusted symbol) (\<lambda>new.
        rbind (dict_lookup current symbol) (\<lambda>old.
        let delta = new - old in
        if d_eq delta 0 then Inr (executable, trades, omitted)
        else
          let side = (if 0 < delta then ''BUY'' else ''SELL'');
              notional = d_abs delta * nav;
              bypass_minimum = (emergency \<and> tp_emergency_bypasses_minimum_order (mc_turnover config)) in
          if \<not> bypass_minimum \<and> notional < threshold
          then Inr (executable, trades,
                 omitted @ [\<lparr>oo_symbol = symbol, oo_side = side, oo_proposed_notional_usd = d_pos notional,
                             oo_minimum_notional_usd = d_pos threshold,
                             oo_reason = ''BELOW_MINIMUM_ORDER_NOTIONAL''\<rparr>])
          else Inr (AList.update symbol new executable,
                 trades @ [\<lparr>pt_symbol = symbol, pt_side = side, pt_weight_delta = d_pos delta,
                            pt_notional_usd = d_pos notional\<rparr>],
                 omitted))))"

definition adjust_weight ::
  "decimal \<Rightarrow> (string, decimal) dict \<Rightarrow> (string, decimal) dict \<Rightarrow> string \<Rightarrow> (string \<times> decimal) result" where
  "adjust_weight alpha current proposed s =
     rbind (dict_lookup current s) (\<lambda>c. rbind (dict_lookup proposed s) (\<lambda>p. Inr (s, c + alpha * (p - c))))"

definition increases :: "(string, decimal) dict \<Rightarrow> (string, decimal) dict \<Rightarrow> string \<Rightarrow> bool result" where
  "increases current proposed s =
     rbind (dict_lookup proposed s) (\<lambda>p. rbind (dict_lookup current s) (\<lambda>c. Inr (c < p)))"

definition remaining_capacity :: "q1_math_config \<Rightarrow> decimal \<Rightarrow> decimal" where
  "remaining_capacity config used = py_max 0 (tp_normal_daily_one_way_cap (mc_turnover config) - used)"

definition apply_turnover_control ::
  "digest \<Rightarrow> (string, decimal) dict \<Rightarrow> (string, decimal) dict \<Rightarrow> decimal \<Rightarrow> decimal \<Rightarrow> bool \<Rightarrow> q1_math_config \<Rightarrow> bool
    \<Rightarrow> turnover_result result" where
  "apply_turnover_control H current_weights proposed_target_weights current_nav_usd used_normal_turnover
     emergency config bypass =
     rbind (require_positive current_nav_usd ''current_nav_usd'') (\<lambda>nav.
     rbind (require_non_negative used_normal_turnover ''used_normal_turnover'') (\<lambda>used.
     let symbols = mc_risky_symbols config @ [mc_cash_symbol config] in
     rbind (normalized_weight_mapping current_weights symbols config) (\<lambda>current.
     rbind (normalized_weight_mapping proposed_target_weights symbols config) (\<lambda>proposed.
     rbind (rmap (increases current proposed) (mc_risky_symbols config)) (\<lambda>ups.
     if emergency \<and> True \<in> set ups
     then Inl (Q1MathError ''emergency turnover control accepts sell-only risky targets'')
     else
       rbind (one_way_turnover current proposed) (\<lambda>proposed_turnover.
       let remaining = remaining_capacity config used in
       if \<not> emergency \<and> \<not> bypass
          \<and> proposed_turnover < tp_no_trade_one_way_threshold (mc_turnover config)
       then make_turnover_result H ''NO_TRADE_BELOW_BAND'' proposed_turnover remaining 0 current current current
              [] [] config
       else
         rbind (interpolation_alpha config emergency bypass proposed_turnover remaining) (\<lambda>alpha.
         rbind (rmap (adjust_weight alpha current proposed) symbols) (\<lambda>adjusted.
         let threshold = py_max (tp_minimum_order_notional_usd (mc_turnover config))
               (tp_minimum_order_nav_fraction (mc_turnover config) * nav) in
         rbind (rfold (turnover_step config emergency nav threshold current adjusted)
                  (mc_risky_symbols config) (current, [], []))
           (\<lambda>(executable, trades, omitted).
         rbind (rmap (dict_lookup executable) (mc_risky_symbols config)) (\<lambda>risky.
         let executable = AList.update (mc_cash_symbol config) (1 - dsum risky) executable in
         rbind (validate_basic_weights executable config) (\<lambda>_.
           make_turnover_result H
             (if emergency then ''EMERGENCY_REDUCTION''
              else if trades \<noteq> [] then ''NORMAL_REBALANCE'' else ''NO_EXECUTABLE_ORDERS'')
             proposed_turnover remaining alpha current adjusted executable trades omitted config)))))))))))"

section \<open>Rounding of weights\<close>

lemma eps_small: "0 < eps" "300 * eps \<le> pow10 (- 24)" "eps \<le> 1 / 1000"
  by (simp_all add: power_int_def power_one_over)

text \<open>Sums and absolute differences of weights of moderate size, with absolute errors.\<close>

lemma dsum3: "dval (dsum [x, y, z]) = ctx (ctx (ctx (dval x) + dval y) + dval z)"
  and dsum2: "dval (dsum [x, y]) = ctx (ctx (dval x) + dval y)"
  using dval_dsum_snoc [of "[x, y]" z] dval_dsum_snoc [of "[x]" y] dval_dsum_snoc [of "[]" x] by simp_all

lemma ctx_sum3_err:
  assumes "0 \<le> x" "0 \<le> y" "0 \<le> z" "x + y + z \<le> b"
  shows "\<bar>ctx (ctx (ctx x + y) + z) - (x + y + z)\<bar> \<le> 6 * b * eps"
proof -
  have b0: "0 \<le> b" using assms by linarith
  have bb: "b * eps \<le> b / 1000" using mult_left_mono [OF eps_small(3) b0] by simp
  have 1: "\<bar>ctx x - x\<bar> \<le> b * eps" using assms by (intro ctx_err) simp
  have 2: "\<bar>ctx (ctx x + y) - (ctx x + y)\<bar> \<le> (2 * b) * eps"
    by (rule ctx_err) (use 1 bb assms in linarith)
  have 3: "\<bar>ctx (ctx (ctx x + y) + z) - (ctx (ctx x + y) + z)\<bar> \<le> (2 * b) * eps"
    by (rule ctx_err) (use 1 2 bb assms in linarith)
  have "\<bar>ctx (ctx (ctx x + y) + z) - (x + y + z)\<bar> \<le> b * eps + (2 * b) * eps + (2 * b) * eps"
    using 1 2 3 by linarith
  also have "\<dots> \<le> 6 * b * eps" using b0 eps_small(1) by (simp add: algebra_simps)
  finally show ?thesis .
qed

lemma weights_near_one:
  assumes "0 \<le> dval x" "0 \<le> dval y" "0 \<le> dval z" "dval tol \<le> 1"
    and "d_abs (dsum [x, y, z] - 1) \<le> tol"
  shows "dval x + dval y + dval z \<le> 3" "\<bar>dval x + dval y + dval z - 1\<bar> \<le> dval tol + 20 * eps"
proof -
  define S T where "S = dval (dsum [x, y, z])" and "T = dval x + dval y + dval z"
  have T0: "0 \<le> T" using assms by (simp add: T_def)
  have "\<bar>ctx (S - 1)\<bar> \<le> dval tol"
    using assms(5) by (simp add: less_eq_decimal_dval dval_abs dval_minus S_def flip: ctx_abs)
  moreover have "\<bar>S - 1\<bar> * (1 - eps) \<le> \<bar>ctx (S - 1)\<bar>" using ctx_lower [of "\<bar>S - 1\<bar>"] by (simp add: ctx_abs)
  ultimately have "\<bar>S - 1\<bar> * (1 - eps) \<le> dval tol" by linarith
  moreover have "(dval tol + 2 * eps) * (1 - eps) \<ge> dval tol"
  proof -
    have "dval tol * eps \<le> 1 * eps" using assms(4) eps_small(1) by (intro mult_right_mono) auto
    moreover have "eps * eps \<le> 1 / 2 * eps" by (intro mult_right_mono) (simp_all add: power_int_def power_one_over)
    ultimately show ?thesis by (simp only: algebra_simps)
  qed
  ultimately have "\<bar>S - 1\<bar> * (1 - eps) \<le> (dval tol + 2 * eps) * (1 - eps)" by linarith
  then have S: "\<bar>S - 1\<bar> \<le> dval tol + 2 * eps"
    using eps_small(3) by (simp only: mult_le_cancel_right)
  have "\<And>w. w \<in> set [x, y, z] \<Longrightarrow> 0 \<le> dval w" using assms(1-3) by auto
  from dsum_lower [of "[x, y, z]", OF this] have "T * (1 - eps) ^ 3 \<le> S" by (simp add: S_def T_def add.assoc numeral_3_eq_3)
  moreover have "5 / 6 \<le> (1 - eps) ^ 3" by (simp add: power_int_def power_one_over power_divide)
  ultimately have "T * (5 / 6) \<le> S" using mult_left_mono [OF _ T0, of "5 / 6" "(1 - eps) ^ 3"] by linarith
  moreover have "S \<le> 2 + 1 / 2"
  proof -
    have "2 * eps \<le> 1 / 2" by (simp add: power_int_def power_one_over)
    then show ?thesis using S assms(4) by linarith
  qed
  ultimately have "T * 5 \<le> S * 6" "S * 2 \<le> 5" by (simp_all add: field_simps)
  then show T3: "dval x + dval y + dval z \<le> 3" unfolding T_def [symmetric] by linarith
  have "\<bar>S - T\<bar> \<le> 6 * 3 * eps"
    unfolding S_def T_def dsum3 by (rule ctx_sum3_err [OF assms(1-3) T3])
  then show "\<bar>dval x + dval y + dval z - 1\<bar> \<le> dval tol + 20 * eps"
    using S unfolding T_def [symmetric] by linarith
qed


lemma abs_diff_err:
  assumes "\<bar>r - l\<bar> \<le> 3"
  shows "\<bar>\<bar>ctx (r - l)\<bar> - \<bar>r - l\<bar>\<bar> \<le> 3 * eps" "\<bar>ctx (r - l)\<bar> \<le> 4"
  using ctx_err [OF assms] assms eps_small(3) by linarith+

text \<open>The computed one-way turnover of three weights against the exact one.\<close>

lemma turnover_err:
  assumes "one_way_turnover [(a, xa), (b, xb), (c, xc)] [(a, ya), (b, yb), (c, yc)] = Inr t" "distinct [a, b, c]"
    and "\<bar>dval ya - dval xa\<bar> \<le> 3" "\<bar>dval yb - dval xb\<bar> \<le> 3" "\<bar>dval yc - dval xc\<bar> \<le> 3"
  shows "\<bar>dval t * 2 - (\<bar>dval ya - dval xa\<bar> + \<bar>dval yb - dval xb\<bar> + \<bar>dval yc - dval xc\<bar>)\<bar> \<le> 120 * eps"
proof -
  define da db dc where "da = \<bar>ctx (dval ya - dval xa)\<bar>" and "db = \<bar>ctx (dval yb - dval xb)\<bar>"
    and "dc = \<bar>ctx (dval yc - dval xc)\<bar>"
  define S where "S = ctx (ctx (ctx da + db) + dc)"
  have t: "dval t = ctx (S / 2)"
  proof -
    have "t = D 5 (- 1) * dsum [d_abs (ya - xa), d_abs (yb - xb), d_abs (yc - xc)]"
      using assms(1,2) by (auto simp: one_way_turnover_def dict_lookup_def)
    moreover have "dval (d_abs (y - x)) = \<bar>ctx (dval y - dval x)\<bar>" for x y
      by (simp add: dval_abs dval_minus ctx_abs)
    ultimately show ?thesis by (simp add: dval_times dval_D dsum3 S_def da_def db_def dc_def)
  qed
  define e where "e = eps"
  define A B C where "A = \<bar>dval ya - dval xa\<bar>" and "B = \<bar>dval yb - dval xb\<bar>" and "C = \<bar>dval yc - dval xc\<bar>"
  note d = abs_diff_err [OF assms(3), folded da_def e_def A_def] abs_diff_err [OF assms(4), folded db_def e_def B_def]
    abs_diff_err [OF assms(5), folded dc_def e_def C_def]
  have d0: "0 \<le> da" "0 \<le> db" "0 \<le> dc" by (simp_all add: da_def db_def dc_def)
  have e: "0 < e" "e \<le> 1 / 1000" using eps_small(1,3) by (simp_all add: e_def)
  have "da + db + dc \<le> 12" using d by linarith
  then have S: "\<bar>S - (da + db + dc)\<bar> \<le> 6 * 12 * e" unfolding S_def e_def by (rule ctx_sum3_err [OF d0])
  then have "\<bar>S / 2\<bar> \<le> 7" using d d0 e by linarith
  then have "\<bar>dval t - S / 2\<bar> \<le> 7 * e" unfolding t e_def by (rule ctx_err)
  moreover have "\<bar>S - (A + B + C)\<bar> \<le> 81 * e" using d S by linarith
  moreover have "\<bar>dval t * 2 - S\<bar> \<le> 14 * e" using calculation(1) by (simp add: abs_if field_simps split: if_splits)
  ultimately have "\<bar>dval t * 2 - (A + B + C)\<bar> \<le> 120 * e" using e(1) by linarith
  then show ?thesis unfolding A_def B_def C_def e_def .
qed


section \<open>The stages of turnover control\<close>

lemma normalized_weights3:
  assumes "normalized_weight_mapping values [a, b, c] config = Inr n"
  obtains xa xb xc where "n = [(a, xa), (b, xb), (c, xc)]" "0 \<le> dval xa" "0 \<le> dval xb" "0 \<le> dval xc"
    "d_abs (dsum [xa, xb, xc] - 1) \<le> ap_weight_sum_tolerance (mc_allocation config)"
  using assms
  by (auto simp: normalized_weight_mapping_def rbind_eq_Inr require_non_negative_def validate_basic_weights_def
      dict_values_def less_decimal_dval less_eq_decimal_dval not_less split: if_splits)

lemma basic_weights_bounds:
  assumes "validate_basic_weights [(a, xa), (b, xb), (c, xc)] config = Inr ()"
    and "dval (ap_weight_sum_tolerance (mc_allocation config)) \<le> 1"
  shows "0 \<le> dval xa \<and> dval xa \<le> 3" "0 \<le> dval xb \<and> dval xb \<le> 3" "0 \<le> dval xc \<and> dval xc \<le> 3"
    and "\<bar>dval xa + dval xb + dval xc - 1\<bar> \<le> dval (ap_weight_sum_tolerance (mc_allocation config)) + 20 * eps"
proof -
  have w: "0 \<le> dval xa" "0 \<le> dval xb" "0 \<le> dval xc"
    "d_abs (dsum [xa, xb, xc] - 1) \<le> ap_weight_sum_tolerance (mc_allocation config)"
    using assms(1) by (auto simp: validate_basic_weights_def dict_values_def less_decimal_dval less_eq_decimal_dval not_less split: if_splits)
  note n = weights_near_one [OF w(1-3) assms(2) w(4)]
  show "0 \<le> dval xa \<and> dval xa \<le> 3" "0 \<le> dval xb \<and> dval xb \<le> 3" "0 \<le> dval xc \<and> dval xc \<le> 3"
    using w n(1) by linarith+
  show "\<bar>dval xa + dval xb + dval xc - 1\<bar> \<le> dval (ap_weight_sum_tolerance (mc_allocation config)) + 20 * eps" by (rule n)
qed

lemma normalized_valid:
  "normalized_weight_mapping values symbols config = Inr n \<Longrightarrow> validate_basic_weights n config = Inr ()"
  by (auto simp: normalized_weight_mapping_def rbind_eq_Inr split: if_splits)

lemma turnover_step_Inr:
  assumes "turnover_step config emergency nav threshold current adjusted s (ex, ts, om) = Inr (ex', ts', om')"
    and "map_of current s = Some old" "map_of adjusted s = Some new"
  shows "(ex' = ex \<and> ts' = ts)
    \<or> (ex' = AList.update s new ex \<and> (\<exists>t. ts' = ts @ [t] \<and> pt_symbol t = s
         \<and> (pt_side t = ''BUY'' \<longleftrightarrow> 0 < dval (new - old)) \<and> pt_side t \<in> {''BUY'', ''SELL''}))"
  using assms
  by (auto simp: turnover_step_def dict_lookup_def Let_def less_decimal_dval split: if_splits)

lemma turnover_loop2:
  assumes "rfold (turnover_step config emergency nav threshold [(a, ca), (b, cb), (c, cc)] [(a, na), (b, nb), (c, nc)])
      [a, b] ([(a, ca), (b, cb), (c, cc)], [], []) = Inr (ex, ts, om)" "distinct [a, b, c]"
  shows "\<exists>ea eb. ex = [(a, ea), (b, eb), (c, cc)] \<and> (ea = ca \<or> ea = na) \<and> (eb = cb \<or> eb = nb)"
    and "\<forall>t\<in>set ts. pt_side t \<in> {''BUY'', ''SELL''}
           \<and> (pt_side t = ''BUY'' \<longrightarrow> 0 < dval (na - ca) \<or> 0 < dval (nb - cb))"
proof -
  let ?cur = "[(a, ca), (b, cb), (c, cc)]" and ?adj = "[(a, na), (b, nb), (c, nc)]"
  obtain ex1 ts1 om1 where
    1: "turnover_step config emergency nav threshold ?cur ?adj a (?cur, [], []) = Inr (ex1, ts1, om1)"
    and 2: "turnover_step config emergency nav threshold ?cur ?adj b (ex1, ts1, om1) = Inr (ex, ts, om)"
    using assms(1) by (auto simp: rbind_eq_Inr)
  have m: "map_of ?cur a = Some ca" "map_of ?adj a = Some na" "map_of ?cur b = Some cb" "map_of ?adj b = Some nb"
    using assms(2) by auto
  note s = turnover_step_Inr [OF 1 m(1,2)] turnover_step_Inr [OF 2 m(3,4)]
  show "\<exists>ea eb. ex = [(a, ea), (b, eb), (c, cc)] \<and> (ea = ca \<or> ea = na) \<and> (eb = cb \<or> eb = nb)"
    using s assms(2) by (elim disjE) auto
  show "\<forall>t\<in>set ts. pt_side t \<in> {''BUY'', ''SELL''}
      \<and> (pt_side t = ''BUY'' \<longrightarrow> 0 < dval (na - ca) \<or> 0 < dval (nb - cb))"
    using s by (elim disjE) auto
qed

text \<open>Everything a result of turnover control went through, for the universe of two risky symbols.\<close>

lemma apply_turnover_cases:
  assumes "apply_turnover_control H cw pw nav used emergency config bypass = Inr r"
    and "mc_risky_symbols config = [a, b]" "mc_cash_symbol config = c" "distinct [a, b, c]"
  obtains (band) ca cb cc P where
    "normalized_weight_mapping cw [a, b, c] config = Inr [(a, ca), (b, cb), (c, cc)]"
    "make_turnover_result H ''NO_TRADE_BELOW_BAND'' P (remaining_capacity config used) 0
        [(a, ca), (b, cb), (c, cc)] [(a, ca), (b, cb), (c, cc)] [(a, ca), (b, cb), (c, cc)] [] [] config = Inr r"
  | (trade) ca cb cc pa pb pc P alpha na nb nc threshold ts om kind ea eb where
    "normalized_weight_mapping cw [a, b, c] config = Inr [(a, ca), (b, cb), (c, cc)]"
    "normalized_weight_mapping pw [a, b, c] config = Inr [(a, pa), (b, pb), (c, pc)]"
    "one_way_turnover [(a, ca), (b, cb), (c, cc)] [(a, pa), (b, pb), (c, pc)] = Inr P"
    "emergency \<Longrightarrow> dval pa \<le> dval ca \<and> dval pb \<le> dval cb"
    "interpolation_alpha config emergency bypass P (remaining_capacity config used) = Inr alpha"
    "na = ca + alpha * (pa - ca)" "nb = cb + alpha * (pb - cb)"
    "rfold (turnover_step config emergency nav threshold [(a, ca), (b, cb), (c, cc)] [(a, na), (b, nb), (c, nc)])
       [a, b] ([(a, ca), (b, cb), (c, cc)], [], []) = Inr ([(a, ea), (b, eb), (c, cc)], ts, om)"
    "validate_basic_weights [(a, ea), (b, eb), (c, 1 - dsum [ea, eb])] config = Inr ()"
    "make_turnover_result H kind P (remaining_capacity config used) alpha [(a, ca), (b, cb), (c, cc)]
       [(a, na), (b, nb), (c, nc)] [(a, ea), (b, eb), (c, 1 - dsum [ea, eb])] ts om config = Inr r"
proof -
  let ?syms = "[a, b, c]" and ?R = "remaining_capacity config used"
  note ctl = assms(1) [unfolded apply_turnover_control_def assms(2,3) Let_def append.simps]
  obtain cur where cur: "normalized_weight_mapping cw ?syms config = Inr cur"
    using ctl by (auto simp: rbind_eq_Inr)
  obtain pro where pro: "normalized_weight_mapping pw ?syms config = Inr pro"
    using ctl by (auto simp: rbind_eq_Inr)
  obtain ca cb cc where c: "cur = [(a, ca), (b, cb), (c, cc)]" using normalized_weights3 [OF cur] by metis
  obtain pa pb pc where p: "pro = [(a, pa), (b, pb), (c, pc)]" using normalized_weights3 [OF pro] by metis
  have look: "dict_lookup [(a, x), (b, y), (c, z)] a = Inr x" "dict_lookup [(a, x), (b, y), (c, z)] b = Inr y"
    "dict_lookup [(a, x), (b, y), (c, z)] c = Inr z" for x y z :: decimal
    using assms(4) by (auto simp: dict_lookup_def)
  have upd: "AList.update c w [(a, x), (b, y), (c, z)] = [(a, x), (b, y), (c, w)]" for w x y z :: decimal
    using assms(4) by auto
  have ups: "rmap (increases cur pro) [a, b] = Inr [ca < pa, cb < pb]" by (simp add: increases_def c p look)
  obtain P where P: "one_way_turnover cur pro = Inr P" using assms(4) by (auto simp: one_way_turnover_def c p look)
  have nav_used: "require_positive nav ''current_nav_usd'' = Inr nav" "require_non_negative used ''used_normal_turnover'' = Inr used"
    using ctl by (auto simp: rbind_eq_Inr require_positive_def require_non_negative_def split: if_splits)
  note ctl = ctl [unfolded nav_used rbind_simps cur pro ups P]
  have guard: "\<not> (emergency \<and> True \<in> set [ca < pa, cb < pb])" using ctl by (auto split: if_splits)
  then have sell: "emergency \<Longrightarrow> dval pa \<le> dval ca \<and> dval pb \<le> dval cb" by (auto simp: less_decimal_dval)
  note ctl = ctl [unfolded if_not_P [OF guard]]
  show thesis
  proof (cases "\<not> emergency \<and> \<not> bypass \<and> P < tp_no_trade_one_way_threshold (mc_turnover config)")
    case True
    then have "make_turnover_result H ''NO_TRADE_BELOW_BAND'' P ?R 0 cur cur cur [] [] config = Inr r"
      using ctl by simp
    then show thesis by (rule band [OF cur [unfolded c], unfolded c [symmetric]])
  next
    case False
    obtain alpha adj x risky u kind threshold where
      alpha: "interpolation_alpha config emergency bypass P ?R = Inr alpha"
      and adj: "rmap (adjust_weight alpha cur pro) ?syms = Inr adj"
      and loop: "rfold (turnover_step config emergency nav threshold cur adj) [a, b] (cur, [], []) = Inr x"
      and risky: "rmap (dict_lookup (fst x)) [a, b] = Inr risky"
      and valid: "validate_basic_weights (AList.update c (1 - dsum risky) (fst x)) config = Inr u"
      and result: "make_turnover_result H kind P ?R alpha cur adj (AList.update c (1 - dsum risky) (fst x))
        (fst (snd x)) (snd (snd x)) config = Inr r"
      using ctl [unfolded if_not_P [OF False] rbind_eq_Inr case_prod_beta] by blast
    obtain ex ts om where x: "x = (ex, ts, om)" by (cases x)
    have adj': "adj = [(a, ca + alpha * (pa - ca)), (b, cb + alpha * (pb - cb)), (c, cc + alpha * (pc - cc))]"
      using adj by (simp add: adjust_weight_def c p look)
    obtain ea eb where ex: "ex = [(a, ea), (b, eb), (c, cc)]"
      using turnover_loop2(1) [OF loop [unfolded c adj' x] assms(4)] by blast
    have risk: "risky = [ea, eb]" using risky by (simp add: x ex look)
    have valid': "validate_basic_weights [(a, ea), (b, eb), (c, 1 - dsum [ea, eb])] config = Inr ()"
      and result': "make_turnover_result H kind P ?R alpha cur adj [(a, ea), (b, eb), (c, 1 - dsum [ea, eb])] ts om config = Inr r"
      using valid result unfolding x ex risk fst_conv snd_conv upd by simp_all
    show thesis
      by (rule trade [OF cur [unfolded c] pro [unfolded p] P [unfolded c p] sell alpha refl refl
            loop [unfolded c adj' x ex] valid' result' [unfolded c adj']])
  qed
qed

lemma make_turnover_result_fields:
  assumes "make_turnover_result H kind P R alpha current adjusted executable ts om config = Inr r"
  shows "tv_remaining_daily_capacity r = d_pos R" "tv_proposed_trades r = ts"
    and "\<exists>t. one_way_turnover current executable = Inr t \<and> tv_executable_one_way_turnover r = d_pos t"
  using assms by (auto simp: make_turnover_result_def Let_def rbind_eq_Inr)

text \<open>The interpolated turnover never exceeds the remaining capacity.\<close>

lemma interpolation_bound:
  assumes "interpolation_alpha config False False P R = Inr alpha" "0 \<le> dval P" "dval P \<le> 8" "0 \<le> dval R"
  shows "0 \<le> dval alpha" "dval alpha \<le> 1" "dval alpha * dval P \<le> dval R + 8 * eps"
proof -
  have "0 \<le> dval alpha \<and> dval alpha \<le> 1 \<and> dval alpha * dval P \<le> dval R + 8 * eps"
  proof (cases "\<not> d_eq P 0 \<and> R < P")
    case True
    define q where "q = dval R / dval P"
    have P: "0 < dval P" and lt: "dval R < dval P"
      using True assms(2) by (auto simp: d_eq_dval less_decimal_dval)
    have a: "dval alpha = ctx q" using assms(1) True P
      by (auto simp: interpolation_alpha_def dec_div_Inr dval_d_div q_def)
    have q: "0 \<le> q" "q \<le> 1" using P lt assms(4) by (simp_all add: q_def)
    have "ctx q \<le> 1" using ctx_le_pow10 [of q 0] q by simp
    moreover have "\<bar>ctx q - q\<bar> \<le> 1 * eps" using q by (intro ctx_err) simp
    then have "ctx q \<le> q + 1 * eps" by linarith
    then have "ctx q * dval P \<le> (q + 1 * eps) * dval P" using P by (intro mult_right_mono) simp_all
    moreover have "(q + 1 * eps) * dval P = dval R + eps * dval P" using P by (simp add: q_def distrib_right)
    moreover have "eps * dval P \<le> eps * 8" using assms(3) by (intro mult_left_mono) auto
    ultimately have "ctx q * dval P \<le> dval R + 8 * eps" by (simp only: mult.commute)
    then show ?thesis using ctx_nonneg [OF q(1)] \<open>ctx q \<le> 1\<close> unfolding a by blast
  next
    case False
    then have "(alpha = 0 \<and> dval P = 0) \<or> (alpha = 1 \<and> dval P \<le> dval R)"
      using assms(1) by (auto simp: interpolation_alpha_def d_eq_dval less_decimal_dval split: if_splits)
    then show ?thesis using assms(4) eps_small(1) by auto
  qed
  then show "0 \<le> dval alpha" "dval alpha \<le> 1" "dval alpha * dval P \<le> dval R + 8 * eps" by blast+
qed

lemma adjusted_err:
  assumes "0 \<le> al" "al \<le> 1" "0 \<le> x" "x \<le> 3" "0 \<le> y" "y \<le> 3"
  shows "\<bar>ctx (x + ctx (al * ctx (y - x))) - (x + al * (y - x))\<bar> \<le> 16 * eps"
proof -
  define e where "e = eps"
  have e: "0 < e" "e \<le> 1 / 1000" using eps_small(1,3) by (simp_all add: e_def)
  define d where "d = y - x"
  have d3: "\<bar>d\<bar> \<le> 3" using assms by (simp add: d_def abs_le_iff)
  then have 1: "\<bar>ctx d - d\<bar> \<le> 3 * e" unfolding e_def by (rule ctx_err)
  then have "\<bar>ctx d\<bar> \<le> 4" using d3 e by linarith
  then have "\<bar>al * ctx d\<bar> \<le> 1 * 4" unfolding abs_mult using assms(1,2) by (intro mult_mono) auto
  then have 2: "\<bar>ctx (al * ctx d) - al * ctx d\<bar> \<le> 4 * e" unfolding e_def by (intro ctx_err) simp
  have 3: "\<bar>al * ctx d - al * d\<bar> \<le> 1 * (3 * e)"
    unfolding right_diff_distrib [symmetric] abs_mult using assms(1,2) 1 by (intro mult_mono) auto
  have "\<bar>al * d\<bar> \<le> 1 * 3" unfolding abs_mult using assms(1,2) d3 by (intro mult_mono) auto
  then have "\<bar>x + ctx (al * ctx d)\<bar> \<le> 8" using 2 3 assms(3,4) e by linarith
  then have "\<bar>ctx (x + ctx (al * ctx d)) - (x + ctx (al * ctx d))\<bar> \<le> 8 * e" unfolding e_def by (rule ctx_err)
  then show ?thesis using 2 3 e(1) unfolding d_def [symmetric] e_def [symmetric] by linarith
qed

lemma cash_leg_err:
  assumes "0 \<le> dval x" "dval x \<le> 3" "0 \<le> dval y" "dval y \<le> 3"
  shows "\<bar>dval (1 - dsum [x, y]) - (1 - dval x - dval y)\<bar> \<le> 30 * eps"
proof -
  define e where "e = eps"
  have e: "0 < e" "e \<le> 1 / 1000" using eps_small(1,3) by (simp_all add: e_def)
  have 1: "\<bar>ctx (dval x) - dval x\<bar> \<le> 3 * e" using assms unfolding e_def by (intro ctx_err) simp
  then have "\<bar>ctx (dval x) + dval y\<bar> \<le> 7" using assms e by linarith
  then have 2: "\<bar>ctx (ctx (dval x) + dval y) - (ctx (dval x) + dval y)\<bar> \<le> 7 * e" unfolding e_def by (rule ctx_err)
  then have "\<bar>1 - dval (dsum [x, y])\<bar> \<le> 8" unfolding dsum2 using 1 assms e by linarith
  then have "\<bar>ctx (1 - dval (dsum [x, y])) - (1 - dval (dsum [x, y]))\<bar> \<le> 8 * e" unfolding e_def by (rule ctx_err)
  then have "\<bar>dval (1 - dsum [x, y]) - (1 - dval x - dval y)\<bar> \<le> 30 * e"
    using 1 2 e unfolding dval_minus dsum2 dval_1 by linarith
  then show ?thesis unfolding e_def .
qed

lemma one_way_turnover_nonneg:
  assumes "one_way_turnover l r = Inr t"
  shows "0 \<le> dval t"
proof -
  obtain moves where m: "rmap (\<lambda>p. rbind (dict_lookup r (fst p)) (\<lambda>y. rbind (dict_lookup l (fst p))
      (\<lambda>x. Inr (d_abs (y - x))))) l = Inr moves" and t: "t = D 5 (- 1) * dsum moves"
    using assms by (auto simp: one_way_turnover_def rbind_eq_Inr)
  have "0 \<le> dval v" if mem: "v \<in> set moves" for v
    using rmap_Inr_mem [OF m mem] by (auto simp: rbind_eq_Inr dval_abs ctx_nonneg)
  then have "0 \<le> dval (dsum moves)" by (rule dsum_nonneg)
  then show ?thesis unfolding t by (simp add: dval_times dval_D ctx_nonneg)
qed

text \<open>The combinatorial core: executing a subset of the moves costs no more than all of them.\<close>

lemma subset_turnover:
  fixes da db xa xb al :: rat
  assumes "0 \<le> al" "xa = 0 \<or> xa = al * da" "xb = 0 \<or> xb = al * db"
  shows "\<bar>xa\<bar> + \<bar>xb\<bar> + \<bar>xa + xb\<bar> \<le> al * (\<bar>da\<bar> + \<bar>db\<bar> + \<bar>da + db\<bar>)"
proof -
  have "al * (\<bar>da\<bar> + \<bar>db\<bar> + \<bar>da + db\<bar>) = \<bar>al * da\<bar> + \<bar>al * db\<bar> + \<bar>al * da + al * db\<bar>"
    using assms(1) by (simp add: abs_mult distrib_left flip: distrib_left)
  then show ?thesis using assms(2,3) by auto
qed

text \<open>The error analysis of one rebalance, on the values of the weights.\<close>

lemma executable_turnover_bound:
  fixes ca cb cc pa pb pc ea eb ec al P T R tol e :: rat
  assumes tols: "0 \<le> tol" "\<bar>ca + cb + cc - 1\<bar> \<le> tol + 20 * e" "\<bar>pa + pb + pc - 1\<bar> \<le> tol + 20 * e"
    and al: "0 \<le> al" "al \<le> 1" "al * P \<le> R + 8 * e"
    and P: "\<bar>P * 2 - (\<bar>pa - ca\<bar> + \<bar>pb - cb\<bar> + \<bar>pc - cc\<bar>)\<bar> \<le> 120 * e"
    and ea: "ea = ca \<or> \<bar>ea - (ca + al * (pa - ca))\<bar> \<le> 16 * e"
    and eb: "eb = cb \<or> \<bar>eb - (cb + al * (pb - cb))\<bar> \<le> 16 * e"
    and ec: "\<bar>ec - (1 - ea - eb)\<bar> \<le> 30 * e"
    and T: "\<bar>T * 2 - (\<bar>ea - ca\<bar> + \<bar>eb - cb\<bar> + \<bar>ec - cc\<bar>)\<bar> \<le> 120 * e" and e: "0 < e"
  shows "T * 2 \<le> R * 2 + 3 * tol + 480 * e"
proof -
  define da db dc where "da = pa - ca" and "db = pb - cb" and "dc = pc - cc"
  obtain xa where xa: "xa = 0 \<or> xa = al * da" "\<bar>ea - ca - xa\<bar> \<le> 16 * e"
    using ea e unfolding da_def by (metis abs_zero diff_add_cancel diff_diff_eq diff_self less_eq_rat_def mult_pos_pos zero_less_numeral)
  obtain xb where xb: "xb = 0 \<or> xb = al * db" "\<bar>eb - cb - xb\<bar> \<le> 16 * e"
    using eb e unfolding db_def by (metis abs_zero diff_add_cancel diff_diff_eq diff_self less_eq_rat_def mult_pos_pos zero_less_numeral)
  have moves: "\<bar>xa\<bar> + \<bar>xb\<bar> + \<bar>xa + xb\<bar> \<le> al * (\<bar>da\<bar> + \<bar>db\<bar> + \<bar>da + db\<bar>)"
    by (rule subset_turnover [OF al(1) xa(1) xb(1)])
  have P2: "\<bar>P * 2 - (\<bar>da\<bar> + \<bar>db\<bar> + \<bar>dc\<bar>)\<bar> \<le> 120 * e"
    using P unfolding da_def db_def dc_def .
  have "\<bar>da + db\<bar> \<le> \<bar>dc\<bar> + 2 * tol + 40 * e" using tols unfolding da_def db_def dc_def by linarith
  then have "\<bar>da\<bar> + \<bar>db\<bar> + \<bar>da + db\<bar> \<le> P * 2 + 2 * tol + 160 * e" using P2 by linarith
  then have "al * (\<bar>da\<bar> + \<bar>db\<bar> + \<bar>da + db\<bar>) \<le> al * (P * 2 + 2 * tol + 160 * e)" using al(1) by (intro mult_left_mono)
  also have "\<dots> = 2 * (al * P) + al * (2 * tol + 160 * e)" by (simp add: algebra_simps)
  finally have "al * (\<bar>da\<bar> + \<bar>db\<bar> + \<bar>da + db\<bar>) \<le> 2 * (al * P) + al * (2 * tol + 160 * e)" .
  moreover have "al * (2 * tol + 160 * e) \<le> 1 * (2 * tol + 160 * e)" using al(2) tols(1) e by (intro mult_right_mono) auto
  ultimately have "al * (\<bar>da\<bar> + \<bar>db\<bar> + \<bar>da + db\<bar>) \<le> 2 * (al * P) + (2 * tol + 160 * e)" by simp
  also have "\<dots> \<le> 2 * (R + 8 * e) + (2 * tol + 160 * e)" using al(3) by simp
  finally have all: "\<bar>xa\<bar> + \<bar>xb\<bar> + \<bar>xa + xb\<bar> \<le> 2 * R + 2 * tol + 176 * e" using moves by simp
  have T2: "T * 2 \<le> \<bar>ea - ca\<bar> + \<bar>eb - cb\<bar> + \<bar>ec - cc\<bar> + 120 * e"
    using T by linarith
  have "\<bar>ec - cc\<bar> \<le> \<bar>xa + xb\<bar> + tol + 82 * e" using ec xa(2) xb(2) tols(2) by linarith
  moreover have "\<bar>ea - ca\<bar> \<le> \<bar>xa\<bar> + 16 * e" "\<bar>eb - cb\<bar> \<le> \<bar>xb\<bar> + 16 * e" using xa(2) xb(2) by linarith+
  ultimately show ?thesis using T2 all e by linarith
qed

lemma executable_weights3:
  assumes "make_turnover_result H kind P R alpha current adjusted [(a, x), (b, y), (c, z)] ts om config = Inr r"
    and "mc_risky_symbols config = [a, b]" "mc_cash_symbol config = c" "distinct [a, b, c]"
  shows "tv_executable_target_weights r = [(a, d_pos x), (b, d_pos y), (c, d_pos z)]"
  using assms by (auto simp: make_turnover_result_def Let_def rbind_eq_Inr dict_lookup_def)

text \<open>Half the sum of the absolute differences of two books of weights, without rounding.\<close>

definition exact_turnover :: "string list \<Rightarrow> (string, decimal) dict \<Rightarrow> (string, decimal) dict \<Rightarrow> rat" where
  "exact_turnover symbols x y = (\<Sum>s\<leftarrow>symbols. \<bar>dval (dict_get y s 0) - dval (dict_get x s 0)\<bar>) / 2"

lemma exact_turnover3:
  "distinct [a, b, c] \<Longrightarrow> exact_turnover [a, b, c] [(a, xa), (b, xb), (c, xc)] [(a, ya), (b, yb), (c, yc)]
    = (\<bar>dval ya - dval xa\<bar> + \<bar>dval yb - dval xb\<bar> + \<bar>dval yc - dval xc\<bar>) / 2"
  by (auto simp: exact_turnover_def dict_get_def)

lemma exact_turnover_normalized:
  assumes "normalized_weight_mapping cw [a, b, c] config = Inr n" "distinct [a, b, c]"
  shows "exact_turnover [a, b, c] n y = exact_turnover [a, b, c] cw y"
proof -
  have "n = [(a, dict_get cw a 0), (b, dict_get cw b 0), (c, dict_get cw c 0)]"
    using assms(1) by (auto simp: normalized_weight_mapping_def rbind_eq_Inr require_non_negative_def split: if_splits)
  then show ?thesis using assms(2) by (auto simp: exact_turnover_def dict_get_def)
qed

lemma ctx_max_0: "ctx (max 0 x) = max 0 (ctx x)"
  using ctx_nonneg [of x] ctx_mono [of x 0] by (cases "0 \<le> x") (simp_all add: max_def)

lemma rounded_moves:
  fixes x y z u v w :: rat
  assumes "x \<le> u + 3 * e" "y \<le> v + 3 * e" "z \<le> w + 3 * e" "\<bar>t * 2 - (u + v + w)\<bar> \<le> 120 * e"
    and "t * 2 \<le> R * 2 + 3 * tol + 480 * e" "0 < e"
  shows "(x + y + z) / 2 \<le> R + 3 / 2 * tol + 400 * e"
proof -
  have "x + y + z \<le> R * 2 + 3 * tol + 800 * e" using assms by (simp add: abs_le_iff)
  then show ?thesis by (simp add: field_simps)
qed

lemma turnover_within_remaining:
  assumes "apply_turnover_control H cw pw nav used False config False = Inr r"
    and "mc_risky_symbols config = [a, b]" "distinct [a, b, mc_cash_symbol config]"
    and "0 \<le> dval (ap_weight_sum_tolerance (mc_allocation config))"
    and "dval (ap_weight_sum_tolerance (mc_allocation config)) \<le> 1"
  shows "dval (tv_executable_one_way_turnover r)
        \<le> dval (remaining_capacity config used) + 3 / 2 * dval (ap_weight_sum_tolerance (mc_allocation config)) + 400 * eps
    \<and> exact_turnover [a, b, mc_cash_symbol config] cw (tv_executable_target_weights r)
        \<le> dval (remaining_capacity config used) + 3 / 2 * dval (ap_weight_sum_tolerance (mc_allocation config)) + 400 * eps"
proof -
  define tol e where "tol = dval (ap_weight_sum_tolerance (mc_allocation config))" and "e = eps"
  have e: "0 < e" "e \<le> 1 / 1000" using eps_small by (simp_all only: e_def)
  let ?c = "mc_cash_symbol config"
  define R where "R = remaining_capacity config used"
  have R: "0 \<le> dval R" by (simp add: R_def remaining_capacity_def dval_py_max)
  have rounded: "\<bar>dval (d_pos y) - dval x\<bar> \<le> \<bar>dval y - dval x\<bar> + 3 * e" if "0 \<le> dval y \<and> dval y \<le> 3" for x y
  proof -
    have "\<bar>ctx (dval y) - dval y\<bar> \<le> 3 * e" unfolding e_def by (rule ctx_err) (use that in linarith)
    then show ?thesis by (simp add: dval_pos)
  qed
  from assms(1,2) refl assms(3) show ?thesis
  proof (cases rule: apply_turnover_cases)
    case (band ca cb cc P)
    note c = basic_weights_bounds [OF normalized_valid [OF band(1)] assms(5), folded tol_def e_def]
    obtain t where t: "one_way_turnover [(a, ca), (b, cb), (?c, cc)] [(a, ca), (b, cb), (?c, cc)] = Inr t"
      "tv_executable_one_way_turnover r = d_pos t" using make_turnover_result_fields(3) [OF band(2)] by blast
    have "\<bar>dval t * 2\<bar> \<le> 120 * e" using turnover_err [OF t(1) assms(3)] by (simp add: e_def)
    then have "\<bar>dval t\<bar> \<le> 60 * e" by linarith
    moreover from this have "\<bar>ctx (dval t) - dval t\<bar> \<le> 1 * e" unfolding e_def by (intro ctx_err) (use e in \<open>simp add: e_def\<close>)
    ultimately have "ctx (dval t) \<le> 61 * e" by linarith
    moreover have "exact_turnover [a, b, ?c] [(a, ca), (b, cb), (?c, cc)] (tv_executable_target_weights r) \<le> 5 * e"
      using rounded [OF c(1), of ca] rounded [OF c(2), of cb] rounded [OF c(3), of cc] e
      unfolding executable_weights3 [OF band(2) assms(2) refl assms(3)] exact_turnover3 [OF assms(3)] by simp
    moreover have "0 \<le> tol" using assms(4) by (simp only: tol_def)
    ultimately show ?thesis
      using e R unfolding t(2) dval_pos R_def [symmetric] tol_def [symmetric] e_def [symmetric]
        exact_turnover_normalized [OF band(1) assms(3)] by linarith
  next
    case (trade ca cb cc pa pb pc P alpha na nb nc threshold ts om kind ea eb)
    define ec where "ec = 1 - dsum [ea, eb]"
    note c = basic_weights_bounds [OF normalized_valid [OF trade(1)] assms(5), folded tol_def e_def]
      and p = basic_weights_bounds [OF normalized_valid [OF trade(2)] assms(5), folded tol_def e_def]
      and x = basic_weights_bounds [OF trade(9) assms(5), folded tol_def e_def ec_def]
    obtain t where t: "one_way_turnover [(a, ca), (b, cb), (?c, cc)] [(a, ea), (b, eb), (?c, ec)] = Inr t"
      "tv_executable_one_way_turnover r = d_pos t" using make_turnover_result_fields(3) [OF trade(10)] unfolding ec_def by blast
    have P: "\<bar>dval P * 2 - (\<bar>dval pa - dval ca\<bar> + \<bar>dval pb - dval cb\<bar> + \<bar>dval pc - dval cc\<bar>)\<bar> \<le> 120 * e"
      unfolding e_def by (rule turnover_err [OF trade(3) assms(3)]) (use c p in linarith)+
    have T: "\<bar>dval t * 2 - (\<bar>dval ea - dval ca\<bar> + \<bar>dval eb - dval cb\<bar> + \<bar>dval ec - dval cc\<bar>)\<bar> \<le> 120 * e"
      unfolding e_def by (rule turnover_err [OF t(1) assms(3)]) (use c x in linarith)+
    have d3: "\<bar>u - v\<bar> \<le> 3" if "0 \<le> u \<and> u \<le> 3" "0 \<le> v \<and> v \<le> 3" for u v :: rat using that by linarith
    have P8: "dval P \<le> 8"
      using P d3 [OF p(1) c(1)] d3 [OF p(2) c(2)] d3 [OF p(3) c(3)] e by linarith
    have T8: "\<bar>dval t\<bar> \<le> 8"
      using T d3 [OF x(1) c(1)] d3 [OF x(2) c(2)] d3 [OF x(3) c(3)] one_way_turnover_nonneg [OF t(1)] e by linarith
    note al = interpolation_bound [OF trade(5) one_way_turnover_nonneg [OF trade(3)] P8 R [unfolded R_def], folded R_def e_def]
    have adj: "\<bar>dval (y + alpha * (z - y)) - (dval y + dval alpha * (dval z - dval y))\<bar> \<le> 16 * e"
      if "0 \<le> dval y \<and> dval y \<le> 3" "0 \<le> dval z \<and> dval z \<le> 3" for y z
      unfolding dval_plus dval_times dval_minus e_def using al(1,2) that by (intro adjusted_err) auto
    have ex: "ea = ca \<or> ea = na" "eb = cb \<or> eb = nb" using turnover_loop2(1) [OF trade(8) assms(3)] by auto
    have ec: "\<bar>dval ec - (1 - dval ea - dval eb)\<bar> \<le> 30 * e"
      unfolding ec_def e_def using x(1,2) by (intro cash_leg_err) auto
    have bound: "dval t * 2 \<le> dval R * 2 + 3 * tol + 480 * e"
      by (rule executable_turnover_bound [OF _ c(4) p(4) al P _ _ ec T e(1)])
        (use ex adj c p assms(4) trade(6,7) in \<open>auto simp: tol_def\<close>)
    moreover have "\<bar>ctx (dval t) - dval t\<bar> \<le> 8 * e" unfolding e_def by (rule ctx_err [OF T8])
    ultimately have field: "ctx (dval t) \<le> dval R + 3 / 2 * tol + 400 * e" using e by simp
    have "exact_turnover [a, b, ?c] [(a, ca), (b, cb), (?c, cc)] (tv_executable_target_weights r) \<le> dval R + 3 / 2 * tol + 400 * e"
      unfolding executable_weights3 [OF trade(10) assms(2) refl assms(3)] exact_turnover3 [OF assms(3)] ec_def [symmetric]
      by (rule rounded_moves [OF rounded [OF x(1)] rounded [OF x(2)] rounded [OF x(3)] T bound e(1)])
    then show ?thesis
      using field unfolding t(2) dval_pos R_def [symmetric] tol_def [symmetric] e_def [symmetric]
        exact_turnover_normalized [OF trade(1) assms(3)] by blast
  qed
qed

text \<open>
  C22. A normal rebalance stays within the turnover budget of the day: whichever orders are omitted
  for being too small, half the sum of the absolute differences between the executable and the
  current weights, and the reported turnover, are at most the daily cap less the turnover already
  used (nothing if that is more), plus one and a half times the tolerance on the sum of weights
  and the rounding of the decimal arithmetic.\<close>

theorem turnover_within_capacity:
  assumes "apply_turnover_control H cw pw nav used False config False = Inr r"
    and "mc_risky_symbols config = [a, b]" "distinct [a, b, mc_cash_symbol config]"
    and "0 \<le> dval (ap_weight_sum_tolerance (mc_allocation config))"
    and "dval (ap_weight_sum_tolerance (mc_allocation config)) \<le> 1"
    and "dval (tp_normal_daily_one_way_cap (mc_turnover config)) \<le> 1"
    and "budget = max 0 (dval (tp_normal_daily_one_way_cap (mc_turnover config)) - dval used)
      + 3 / 2 * dval (ap_weight_sum_tolerance (mc_allocation config)) + pow10 (- 24)"
  shows "exact_turnover [a, b, mc_cash_symbol config] cw (tv_executable_target_weights r) \<le> budget
    \<and> dval (tv_executable_one_way_turnover r) \<le> budget"
proof -
  let ?left = "dval (tp_normal_daily_one_way_cap (mc_turnover config)) - dval used"
  have "0 \<le> dval used"
    using assms(1) by (auto simp: apply_turnover_control_def require_non_negative_def rbind_eq_Inr dval_simps split: if_splits)
  then have "\<bar>max 0 ?left\<bar> \<le> 1" using assms(6) by simp
  from ctx_err [OF this] have "ctx (max 0 ?left) \<le> max 0 ?left + 1 * eps" by linarith
  moreover have "dval (remaining_capacity config used) = ctx (max 0 ?left)"
    by (simp add: remaining_capacity_def dval_py_max dval_minus ctx_max_0)
  moreover have "401 * eps \<le> pow10 (- 24)" by (simp add: power_int_def power_one_over)
  ultimately have "dval (remaining_capacity config used) + 400 * eps \<le> max 0 ?left + pow10 (- 24)" by linarith
  then have le: "dval (remaining_capacity config used) + 3 / 2 * dval (ap_weight_sum_tolerance (mc_allocation config)) + 400 * eps \<le> budget"
    unfolding assms(7) by (simp only: add.assoc add.left_commute add_le_cancel_left)
  note bound = turnover_within_remaining [OF assms(1-5)]
  show ?thesis by (rule conjI [OF order_trans [OF conjunct2 [OF bound] le] order_trans [OF conjunct1 [OF bound] le]])
qed

text \<open>
  An emergency reduction only sells: whatever the capacity left, every proposed trade is a
  SELL, provided the current weights have at most 28 digits, as weights computed from quotes
  do.\<close>

theorem emergency_only_sells:
  assumes "apply_turnover_control H cw pw nav used True config bypass = Inr r"
    and "mc_risky_symbols config = [a, b]" "distinct [a, b, mc_cash_symbol config]"
    and "\<forall>(s, v)\<in>set cw. ctx (dval v) = dval v"
  shows "\<forall>t\<in>set (tv_proposed_trades r). pt_side t = ''SELL''"
proof -
  let ?c = "mc_cash_symbol config"
  from assms(1,2) refl assms(3) show ?thesis
  proof (cases rule: apply_turnover_cases)
    case (band ca cb cc P)
    then show ?thesis using make_turnover_result_fields(2) [OF band(2)] by simp
  next
    case (trade ca cb cc pa pb pc P alpha na nb nc threshold ts om kind ea eb)
    have alpha: "alpha = 1" using trade(5) by (simp add: interpolation_alpha_def split: if_splits)
    have digits: "ctx (dval (dict_get cw s 0)) = dval (dict_get cw s 0)" for s
      using assms(4) by (auto simp: dict_get_def dest: map_of_SomeD split: option.split)
    have "ca = dict_get cw a 0" "cb = dict_get cw b 0"
      using trade(1) by (auto simp: normalized_weight_mapping_def rbind_eq_Inr require_non_negative_def split: if_splits)
    then have cd: "ctx (dval ca) = dval ca" "ctx (dval cb) = dval cb" using digits by auto
    have down: "\<not> 0 < dval (x + 1 * (y - x) - x)" if "dval y \<le> dval x" "ctx (dval x) = dval x" for x y :: decimal
    proof -
      have "ctx (dval y - dval x) \<le> 0" using ctx_mono [of "dval y - dval x" 0] that(1) by simp
      then have "ctx (dval x + ctx (dval y - dval x)) \<le> dval x"
        using ctx_mono [of "dval x + ctx (dval y - dval x)" "dval x"] that(2) by simp
      then have "ctx (ctx (dval x + ctx (dval y - dval x)) - dval x) \<le> 0"
        using ctx_mono [of "ctx (dval x + ctx (dval y - dval x)) - dval x" 0] by simp
      then show ?thesis by (simp add: dval_plus dval_minus dval_times)
    qed
    have "\<not> 0 < dval (na - ca)" "\<not> 0 < dval (nb - cb)"
      using down cd trade(4,6,7) unfolding alpha by simp_all
    then show ?thesis
      using turnover_loop2(2) [OF trade(8) assms(3)] make_turnover_result_fields(2) [OF trade(10)] by blast
  qed
qed

text \<open>An example: a proposed move of twenty per cent against a budget of ten.\<close>

definition ex_math :: q1_math_config where
  "ex_math = \<lparr>mc_algorithm_version = ''q1_math_core_v1'', mc_risky_symbols = [''QQQ'', ''SOXX''],
     mc_cash_symbol = ''USD_CASH'',
     mc_allocation = \<lparr>ap_b0_vol_target = D 1 (- 1), ap_q1_target_vol = D 1 (- 1), ap_max_gross_risky_weight = 1,
       ap_qqq_max_weight = 1, ap_soxx_max_weight = 1, ap_soxx_max_variance_contribution = 1,
       ap_allow_volatility_scale_up = False, ap_risk_contribution_bisection_iterations = 64,
       ap_risk_contribution_tolerance = D 1 (- 12), ap_weight_sum_tolerance = D 1 (- 12)\<rparr>,
     mc_turnover = \<lparr>tp_normal_daily_one_way_cap = D 1 (- 1), tp_no_trade_one_way_threshold = D 2 (- 2),
       tp_minimum_order_notional_usd = D 10 0, tp_minimum_order_nav_fraction = D 1 (- 3),
       tp_emergency_bypasses_turnover_cap = True, tp_emergency_bypasses_minimum_order = True\<rparr>\<rparr>"

definition ex_weights :: "decimal \<Rightarrow> decimal \<Rightarrow> decimal \<Rightarrow> (string, decimal) dict" where
  "ex_weights x y z = [(''QQQ'', x), (''SOXX'', y), (''USD_CASH'', z)]"

lemma Let_Cons_eval: "Let (x # xs) f = f (x # xs)"
  by (simp add: Let_def)

lemmas turnover_eval = apply_turnover_control_def ex_weights_def ex_math_def require_positive_def
  require_non_negative_def normalized_weight_mapping_def validate_basic_weights_def one_way_turnover_def
  increases_def remaining_capacity_def interpolation_alpha_def adjust_weight_def turnover_step_def
  make_turnover_result_def dict_lookup_def dict_get_def dict_values_def Let_Cons_eval dec_eval

theorem turnover_within_capacity_witness:
  "case apply_turnover_control (\<lambda>_. ''h'') (ex_weights (D 5 (- 1)) (D 2 (- 1)) (D 3 (- 1)))
       (ex_weights (D 3 (- 1)) (D 4 (- 1)) (D 3 (- 1))) (D 10000 0) (D 4 (- 2)) False ex_math False of
     Inl _ \<Rightarrow> False
   | Inr r \<Rightarrow> length (tv_proposed_trades r) = 2 \<and>
       exact_turnover [''QQQ'', ''SOXX'', ''USD_CASH''] (ex_weights (D 5 (- 1)) (D 2 (- 1)) (D 3 (- 1)))
         (tv_executable_target_weights r) \<le> 6 / 100 + 3 / 2 * pow10 (- 12) + pow10 (- 24)"
proof -
  let ?call = "apply_turnover_control (\<lambda>_. ''h'') (ex_weights (D 5 (- 1)) (D 2 (- 1)) (D 3 (- 1)))
    (ex_weights (D 3 (- 1)) (D 4 (- 1)) (D 3 (- 1))) (D 10000 0) (D 4 (- 2)) False ex_math False"
  have "case ?call of Inl _ \<Rightarrow> False | Inr r \<Rightarrow> length (tv_proposed_trades r) = 2"
    by (simp add: turnover_eval cong: eval_congs split del: if_split)
  then obtain r where r: "?call = Inr r" "length (tv_proposed_trades r) = 2" by (auto split: sum.splits)
  have "mc_risky_symbols ex_math = [''QQQ'', ''SOXX'']" "mc_cash_symbol ex_math = ''USD_CASH''"
    "dval (ap_weight_sum_tolerance (mc_allocation ex_math)) = pow10 (- 12)"
    "dval (tp_normal_daily_one_way_cap (mc_turnover ex_math)) = 1 / 10" by (simp_all add: ex_math_def dval_D)
  then show ?thesis
    using turnover_within_capacity [OF r(1), of "''QQQ''" "''SOXX''"] r by (simp add: dval_D power_int_def power_one_over)
qed

theorem emergency_only_sells_witness:
  "case apply_turnover_control (\<lambda>_. ''h'') (ex_weights (D 5 (- 1)) (D 2 (- 1)) (D 3 (- 1)))
       (ex_weights (D 3 (- 1)) (D 1 (- 1)) (D 6 (- 1))) (D 10000 0) 0 True ex_math False of
     Inl _ \<Rightarrow> False
   | Inr r \<Rightarrow> length (tv_proposed_trades r) = 2 \<and> (\<forall>t\<in>set (tv_proposed_trades r). pt_side t = ''SELL'')"
proof -
  let ?call = "apply_turnover_control (\<lambda>_. ''h'') (ex_weights (D 5 (- 1)) (D 2 (- 1)) (D 3 (- 1)))
    (ex_weights (D 3 (- 1)) (D 1 (- 1)) (D 6 (- 1))) (D 10000 0) 0 True ex_math False"
  have run: "case ?call of Inl _ \<Rightarrow> False | Inr r \<Rightarrow> length (tv_proposed_trades r) = 2"
    by (simp add: turnover_eval cong: eval_congs split del: if_split)
  have digits: "\<forall>(s, v)\<in>set (ex_weights (D 5 (- 1)) (D 2 (- 1)) (D 3 (- 1))). ctx (dval v) = dval v"
    by (simp add: ex_weights_def ctx_D)
  show ?thesis
    using run emergency_only_sells [where config = ex_math and a = "''QQQ''" and b = "''SOXX''", OF _ _ _ digits]
    by (auto split: sum.splits simp: ex_math_def)
qed

end
