(* ===== verification/Arm_State.thy ===== *)
theory Arm_State
  imports Ledger
begin

text \<open>
  The state of one strategy arm, \<^verbatim>\<open>src/trading/runtime/q1_state.py\<close>: settled cash, unsettled
  receivables and positions, changed by applying fills and settling receivables. Shown: every run
  of fills and settlements leads to a well-formed state whose cash, positions and sequence number
  are what the actions add up to, a fill is accepted exactly when its guards hold, and neither a fill nor a settlement changes the net asset value at the traded price
  except by the commission.
\<close>

section \<open>Receivables and states\<close>

record unsettled_receivable =
  ur_receivable_id :: string
  ur_source_fill_id :: string
  ur_amount_usd :: decimal
  ur_settlement_date :: date
  ur_created_at :: datetime

fun is_aware :: "datetime \<Rightarrow> bool" where
  "is_aware (Naive t) = False"
| "is_aware (Aware t) = True"

definition validate_unsettled_receivable :: "unsettled_receivable \<Rightarrow> unsettled_receivable result" where
  "validate_unsettled_receivable r =
     (if ur_amount_usd r \<le> 0 then Inl (ValueError ''Unsettled receivable amount must be positive'')
      else if \<not> is_aware (ur_created_at r)
      then Inl (ValueError ''Unsettled receivable created_at must be timezone-aware'')
      else Inr r)"

record q1_arm_state =
  as_arm_id :: string
  as_initial_nav_usd :: decimal
  as_settled_cash_usd :: decimal
  as_unsettled_receivables :: "unsettled_receivable list"
  as_positions :: "(string, decimal) dict"
  as_sequence :: int
  as_evaluation_anchor_id :: "string option"
  as_algorithm_version :: string

definition validate_q1_arm_state :: "q1_arm_state \<Rightarrow> q1_arm_state result" where
  "validate_q1_arm_state s =
     (if as_algorithm_version s \<noteq> Q1_ALGORITHM_VERSION
      then Inl (ValueError ''Q1 arm state algorithm version mismatch'')
      else if as_initial_nav_usd s < 0 \<or> as_settled_cash_usd s < 0
      then Inl (ValueError ''Q1 arm cash balances cannot be negative'')
      else if as_sequence s < 0 then Inl (ValueError ''Q1 arm state sequence cannot be negative'')
      else if \<exists>q\<in>set (dict_values (as_positions s)). q < 0
      then Inl (ValueError ''Q1 arm state cannot contain short positions'')
      else if has_duplicates (map ur_receivable_id (as_unsettled_receivables s))
      then Inl (ValueError ''Q1 arm state has duplicate receivable IDs'')
      else Inr s)"

section \<open>Balances, net asset value and weights\<close>

definition unsettled_cash_usd :: "q1_arm_state \<Rightarrow> decimal" where
  "unsettled_cash_usd s = dsum (map ur_amount_usd (as_unsettled_receivables s))"

definition arm_total_cash_usd :: "q1_arm_state \<Rightarrow> decimal" where
  "arm_total_cash_usd s = as_settled_cash_usd s + unsettled_cash_usd s"

definition held :: "(string, decimal) dict \<Rightarrow> (string, decimal) dict" where
  "held positions = filter (\<lambda>(symbol, quantity). 0 < quantity) positions"

definition arm_nav :: "q1_arm_state \<Rightarrow> (string, decimal) dict \<Rightarrow> decimal result" where
  "arm_nav s prices =
     (if \<exists>(symbol, quantity)\<in>set (held (as_positions s)). \<not> dict_has prices symbol
      then Inl (ValueError ''Missing NAV prices'')
      else
        rbind (rmap (\<lambda>(symbol, quantity). rbind (dict_lookup prices symbol) (\<lambda>price. Inr (quantity * price)))
                 (held (as_positions s)))
          (\<lambda>market_values. Inr (arm_total_cash_usd s + dsum market_values)))"

definition arm_weights :: "q1_arm_state \<Rightarrow> (string, decimal) dict \<Rightarrow> (string, decimal) dict result" where
  "arm_weights s prices =
     rbind (arm_nav s prices) (\<lambda>nav.
     if nav \<le> 0 then Inl (ValueError ''Q1 arm NAV must be positive to compute weights'')
     else
       rbind (rmap (\<lambda>(symbol, quantity).
                rbind (dict_lookup prices symbol) (\<lambda>price. rbind (dec_div (quantity * price) nav) (\<lambda>w. Inr (symbol, w))))
                (held (sorted_items (as_positions s))))
         (\<lambda>weights.
       rbind (dec_div (arm_total_cash_usd s) nav) (\<lambda>cash.
         Inr (AList.update ''USD_CASH'' cash weights))))"

section \<open>Fills and settlement\<close>

definition next_state ::
  "q1_arm_state \<Rightarrow> decimal \<Rightarrow> unsettled_receivable list \<Rightarrow> (string, decimal) dict \<Rightarrow> q1_arm_state result" where
  "next_state s settled_cash receivables positions =
     validate_q1_arm_state
       \<lparr>as_arm_id = as_arm_id s, as_initial_nav_usd = as_initial_nav_usd s,
        as_settled_cash_usd = settled_cash, as_unsettled_receivables = receivables,
        as_positions = positions, as_sequence = as_sequence s + 1,
        as_evaluation_anchor_id = as_evaluation_anchor_id s, as_algorithm_version = Q1_ALGORITHM_VERSION\<rparr>"

definition drop_zero :: "string \<Rightarrow> (string, decimal) dict \<Rightarrow> (string, decimal) dict" where
  "drop_zero symbol positions =
     (case map_of positions symbol of
        None \<Rightarrow> positions
      | Some q \<Rightarrow> if d_eq q 0 then AList.delete symbol positions else positions)"

definition apply_fill ::
  "q1_arm_state \<Rightarrow> fill \<Rightarrow> unsettled_receivable option \<Rightarrow> q1_arm_state result" where
  "apply_fill s f sell_receivable =
     (if fl_arm_id f \<noteq> as_arm_id s then Inl (ValueError ''Fill cannot mutate arm'')
      else
        let current = dict_get (as_positions s) (fl_symbol f) 0;
            notional = fl_quantity f * fl_price f in
        if fl_side f = BUY then
          if sell_receivable \<noteq> None
          then Inl (ValueError ''BUY fill cannot create a settlement receivable'')
          else
            let required_cash = notional + fl_commission_usd f in
            if as_settled_cash_usd s < required_cash
            then Inl (ValueError ''BUY fill exceeds settled cash'')
            else next_state s (as_settled_cash_usd s - required_cash) (as_unsettled_receivables s)
                   (drop_zero (fl_symbol f)
                      (AList.update (fl_symbol f) (current + fl_quantity f) (as_positions s)))
        else if current < fl_quantity f
        then Inl (ValueError ''SELL fill would create a short position'')
        else
          let expected_receivable = notional - fl_commission_usd f in
          if expected_receivable \<le> 0
          then Inl (ValueError ''SELL fill must create a positive net receivable'')
          else
            case sell_receivable of
              None \<Rightarrow> Inl (ValueError ''SELL fill requires a typed settlement receivable'')
            | Some r \<Rightarrow>
                if ur_source_fill_id r \<noteq> fl_fill_id f \<or> \<not> d_eq (ur_amount_usd r) expected_receivable
                then Inl (ValueError ''SELL receivable does not match fill economics'')
                else next_state s (as_settled_cash_usd s) (as_unsettled_receivables s @ [r])
                       (drop_zero (fl_symbol f)
                          (AList.update (fl_symbol f) (current - fl_quantity f) (as_positions s))))"

definition settle :: "q1_arm_state \<Rightarrow> string \<Rightarrow> q1_arm_state result" where
  "settle s receivable_id =
     (case filter (\<lambda>r. ur_receivable_id r = receivable_id) (as_unsettled_receivables s) of
        [] \<Rightarrow> Inr s
      | receivable # _ \<Rightarrow>
          next_state s (as_settled_cash_usd s + ur_amount_usd receivable)
            (filter (\<lambda>r. ur_receivable_id r \<noteq> receivable_id) (as_unsettled_receivables s))
            (as_positions s))"

section \<open>Well-formed states\<close>

text \<open>
  What the constructor checks, together with what the types of the fields imply: the keys of a
  dictionary are distinct and a receivable has passed its own checks.
\<close>

definition receivable_ok :: "unsettled_receivable \<Rightarrow> bool" where
  "receivable_ok r \<longleftrightarrow> 0 < dval (ur_amount_usd r) \<and> is_aware (ur_created_at r)"

definition arm_wf :: "q1_arm_state \<Rightarrow> bool" where
  "arm_wf s \<longleftrightarrow>
     as_algorithm_version s = Q1_ALGORITHM_VERSION
     \<and> 0 \<le> dval (as_initial_nav_usd s) \<and> 0 \<le> dval (as_settled_cash_usd s) \<and> 0 \<le> as_sequence s
     \<and> (\<forall>q\<in>set (dict_values (as_positions s)). 0 \<le> dval q)
     \<and> distinct (map ur_receivable_id (as_unsettled_receivables s))
     \<and> distinct (dict_keys (as_positions s))
     \<and> list_all receivable_ok (as_unsettled_receivables s)"

lemma validate_unsettled_receivable_Inr:
  "validate_unsettled_receivable r = Inr r' \<longleftrightarrow> r' = r \<and> receivable_ok r"
  by (auto simp: validate_unsettled_receivable_def receivable_ok_def dval_simps split: if_splits)

lemma validate_q1_arm_state_Inr:
  "validate_q1_arm_state s = Inr s' \<longleftrightarrow>
     s' = s \<and> as_algorithm_version s = Q1_ALGORITHM_VERSION
     \<and> 0 \<le> dval (as_initial_nav_usd s) \<and> 0 \<le> dval (as_settled_cash_usd s) \<and> 0 \<le> as_sequence s
     \<and> (\<forall>q\<in>set (dict_values (as_positions s)). 0 \<le> dval q)
     \<and> distinct (map ur_receivable_id (as_unsettled_receivables s))"
  by (auto simp: validate_q1_arm_state_def has_duplicates_def dval_simps split: if_splits) (meson not_less)+

lemma arm_wf_validated: "arm_wf s \<Longrightarrow> validate_q1_arm_state s = Inr s"
  by (simp add: arm_wf_def validate_q1_arm_state_Inr)


lemma drop_zero_keys:
  assumes "distinct (dict_keys d)"
  shows "distinct (dict_keys (drop_zero k d))" "set (drop_zero k d) \<subseteq> set d"
  using assms
  by (auto simp: drop_zero_def dict_keys_def AList.delete_eq distinct_map_filter split: option.splits)

lemma dval_get_drop_zero: "dval (dict_get (drop_zero k d) k' 0) = dval (dict_get d k' 0)"
  by (auto simp: drop_zero_def dict_get_def delete_conv' d_eq_dval split: option.splits)

lemma drop_zero_update_wf:
  assumes "distinct (dict_keys d)" "\<forall>q\<in>set (dict_values d). 0 \<le> dval q" "0 \<le> dval v"
  shows "distinct (dict_keys (drop_zero k (AList.update k v d)))"
    "\<forall>q\<in>set (dict_values (drop_zero k (AList.update k v d))). 0 \<le> dval q"
proof -
  have "distinct (dict_keys (AList.update k v d))" using assms(1) by (simp add: dict_keys_def distinct_update)
  note d = drop_zero_keys [OF this, of k]
  show "distinct (dict_keys (drop_zero k (AList.update k v d)))" by (rule d(1))
  have "set (dict_values (drop_zero k (AList.update k v d))) \<subseteq> insert v (set (dict_values d))"
    using d(2) update_values [of k v d] by (auto simp: dict_values_def)
  then show "\<forall>q\<in>set (dict_values (drop_zero k (AList.update k v d))). 0 \<le> dval q" using assms(2,3) by blast
qed

lemma next_state_wf:
  assumes "arm_wf s" "0 \<le> dval c" "\<forall>q\<in>set (dict_values ps). 0 \<le> dval q" "distinct (dict_keys ps)"
    and "list_all receivable_ok rs" "distinct (map ur_receivable_id rs)"
  shows "\<exists>s'. next_state s c rs ps = Inr s' \<and> arm_wf s'"
  using assms by (auto simp: next_state_def validate_q1_arm_state_Inr arm_wf_def)

lemma next_state_Inr:
  assumes "next_state s c rs ps = Inr s'"
  shows "s' = \<lparr>as_arm_id = as_arm_id s, as_initial_nav_usd = as_initial_nav_usd s, as_settled_cash_usd = c,
    as_unsettled_receivables = rs, as_positions = ps, as_sequence = as_sequence s + 1,
    as_evaluation_anchor_id = as_evaluation_anchor_id s, as_algorithm_version = Q1_ALGORITHM_VERSION\<rparr>"
    and "distinct (map ur_receivable_id rs)"
  using assms by (auto simp: next_state_def validate_q1_arm_state_Inr)

text \<open>The guards of a fill, collected.\<close>

definition fill_accepted :: "q1_arm_state \<Rightarrow> fill \<Rightarrow> unsettled_receivable option \<Rightarrow> bool" where
  "fill_accepted s f r \<longleftrightarrow>
     fl_arm_id f = as_arm_id s
     \<and> (case fl_side f of
          BUY \<Rightarrow> r = None \<and> fl_quantity f * fl_price f + fl_commission_usd f \<le> as_settled_cash_usd s
        | SELL \<Rightarrow>
            fl_quantity f \<le> dict_get (as_positions s) (fl_symbol f) 0
            \<and> 0 < fl_quantity f * fl_price f - fl_commission_usd f
            \<and> (case r of
                 None \<Rightarrow> False
               | Some u \<Rightarrow>
                   ur_source_fill_id u = fl_fill_id f
                   \<and> d_eq (ur_amount_usd u) (fl_quantity f * fl_price f - fl_commission_usd f)
                   \<and> ur_receivable_id u \<notin> set (map ur_receivable_id (as_unsettled_receivables s))))"

definition new_quantity :: "q1_arm_state \<Rightarrow> fill \<Rightarrow> decimal" where
  "new_quantity s f =
     (let current = dict_get (as_positions s) (fl_symbol f) 0 in
      if fl_side f = BUY then current + fl_quantity f else current - fl_quantity f)"

definition new_positions :: "q1_arm_state \<Rightarrow> fill \<Rightarrow> (string, decimal) dict" where
  "new_positions s f = drop_zero (fl_symbol f) (AList.update (fl_symbol f) (new_quantity s f) (as_positions s))"

lemma apply_fill_unfold:
  "apply_fill s f r = Inr s' \<longleftrightarrow>
     fl_arm_id f = as_arm_id s \<and>
     (case fl_side f of
        BUY \<Rightarrow> r = None \<and> fl_quantity f * fl_price f + fl_commission_usd f \<le> as_settled_cash_usd s
          \<and> next_state s (as_settled_cash_usd s - (fl_quantity f * fl_price f + fl_commission_usd f))
              (as_unsettled_receivables s) (new_positions s f) = Inr s'
      | SELL \<Rightarrow> fl_quantity f \<le> dict_get (as_positions s) (fl_symbol f) 0
          \<and> 0 < fl_quantity f * fl_price f - fl_commission_usd f
          \<and> (\<exists>u. r = Some u \<and> ur_source_fill_id u = fl_fill_id f
              \<and> d_eq (ur_amount_usd u) (fl_quantity f * fl_price f - fl_commission_usd f)
              \<and> next_state s (as_settled_cash_usd s) (as_unsettled_receivables s @ [u]) (new_positions s f) = Inr s'))"
  by (auto simp: apply_fill_def Let_def new_positions_def new_quantity_def dval_simps not_less not_le
      split: order_side.splits option.splits if_splits)


lemma new_quantity_nonneg:
  assumes "arm_wf s" "validate_fill f = Inr f" "fill_accepted s f r"
  shows "0 \<le> dval (new_quantity s f)"
proof -
  have "0 \<le> dval (dict_get (as_positions s) (fl_symbol f) 0)"
    using assms(1) by (force simp: arm_wf_def dict_get_def dict_values_def dest: map_of_SomeD split: option.split)
  then show ?thesis
    using assms(2,3)
    by (auto simp: new_quantity_def Let_def fill_accepted_def validate_fill_def dval_simps
        split: order_side.splits if_splits intro!: ctx_nonneg)
qed

lemma apply_fill_exists:
  assumes "arm_wf s" "validate_fill f = Inr f" "fill_accepted s f r" "pred_option receivable_ok r"
  shows "\<exists>s'. apply_fill s f r = Inr s' \<and> arm_wf s'"
proof -
  note q = drop_zero_update_wf [OF _ _ new_quantity_nonneg [OF assms(1-3)], of "as_positions s" "fl_symbol f",
      folded new_positions_def]
  have wf: "distinct (dict_keys (as_positions s))" "\<forall>q\<in>set (dict_values (as_positions s)). 0 \<le> dval q"
    "list_all receivable_ok (as_unsettled_receivables s)"
    "distinct (map ur_receivable_id (as_unsettled_receivables s))" "0 \<le> dval (as_settled_cash_usd s)"
    using assms(1) by (auto simp: arm_wf_def)
  note ns = next_state_wf [OF assms(1) _ q(2) q(1), OF _ wf(1,2) wf(1,2)]
  show ?thesis
  proof (cases "fl_side f")
    case BUY
    then have "0 \<le> dval (as_settled_cash_usd s - (fl_quantity f * fl_price f + fl_commission_usd f))"
      using assms(3) by (auto simp: fill_accepted_def dval_simps intro!: ctx_nonneg)
    from ns [OF this wf(3,4)] show ?thesis
      using assms(3) BUY unfolding apply_fill_unfold by (auto simp: fill_accepted_def)
  next
    case SELL
    then obtain u where u: "r = Some u" "ur_receivable_id u \<notin> set (map ur_receivable_id (as_unsettled_receivables s))"
      using assms(3) by (auto simp: fill_accepted_def split: option.splits)
    have "list_all receivable_ok (as_unsettled_receivables s @ [u])"
      "distinct (map ur_receivable_id (as_unsettled_receivables s @ [u]))"
      using wf(3,4) u assms(4) by auto
    from ns [OF wf(5) this] show ?thesis
      using assms(3) SELL u unfolding apply_fill_unfold by (auto simp: fill_accepted_def)
  qed
qed

lemma apply_fill_accepted:
  assumes "apply_fill s f r = Inr s'"
  shows "fill_accepted s f r"
  using assms unfolding apply_fill_unfold
  by (auto simp: fill_accepted_def dest!: next_state_Inr(2) split: order_side.splits)

lemma settle_wf:
  assumes "arm_wf s"
  shows "\<exists>s'. settle s rid = Inr s' \<and> arm_wf s'"
proof (cases "filter (\<lambda>r. ur_receivable_id r = rid) (as_unsettled_receivables s)")
  case Nil
  then show ?thesis using assms by (simp add: settle_def)
next
  case (Cons u us)
  then have "u \<in> set (as_unsettled_receivables s)" by (metis filter_is_subset in_mono list.set_intros(1))
  then have "0 < dval (ur_amount_usd u)" using assms by (auto simp: arm_wf_def list_all_iff receivable_ok_def)
  then have "0 \<le> dval (as_settled_cash_usd s + ur_amount_usd u)"
    using assms by (auto simp: arm_wf_def dval_plus intro!: ctx_nonneg)
  from next_state_wf [OF assms this, of "as_positions s"
      "filter (\<lambda>r. ur_receivable_id r \<noteq> rid) (as_unsettled_receivables s)"] show ?thesis
    using assms Cons by (auto simp: settle_def arm_wf_def list_all_iff distinct_map_filter)
qed

section \<open>Runs of an arm\<close>

text \<open>
  One step of an arm: a validated fill with a validated receivable, or a settlement; and a run with
  the list of its actions.
\<close>

datatype arm_action = Fill_Action fill "unsettled_receivable option" | Settle_Action string

inductive arm_step :: "q1_arm_state \<Rightarrow> arm_action \<Rightarrow> q1_arm_state \<Rightarrow> bool" where
  fill_step: "arm_step s (Fill_Action f r) s'"
    if "validate_fill f = Inr f" "pred_option receivable_ok r" "apply_fill s f r = Inr s'"
| settle_step: "arm_step s (Settle_Action rid) s'" if "settle s rid = Inr s'"

inductive arm_run :: "q1_arm_state \<Rightarrow> arm_action list \<Rightarrow> q1_arm_state \<Rightarrow> bool" where
  run_nil: "arm_run s [] s"
| run_cons: "arm_run s (a # acts) s''" if "arm_step s a s'" "arm_run s' acts s''"

inductive_cases arm_stepE: "arm_step s a s'"

lemma step_keeps:
  assumes "arm_step s a s'" "arm_wf s"
  shows "arm_wf s' \<and> as_arm_id s' = as_arm_id s \<and> as_initial_nav_usd s' = as_initial_nav_usd s"
  using assms(1)
proof cases
  case (fill_step f r)
  then have "arm_wf s'"
    using apply_fill_exists [OF assms(2) fill_step(2) apply_fill_accepted [OF fill_step(4)] fill_step(3)] by auto
  then show ?thesis
    using fill_step(4) unfolding apply_fill_unfold by (auto dest!: next_state_Inr(1) split: order_side.splits)
next
  case (settle_step rid)
  then have "arm_wf s'" using settle_wf [OF assms(2), of rid] by auto
  then show ?thesis
    using settle_step by (auto simp: settle_def dest!: next_state_Inr(1) split: list.splits)
qed

section \<open>Net asset value without rounding\<close>

lemma exact_nav_update:
  assumes "distinct (dict_keys d)"
  shows "exact_nav c (AList.update a x d) prices =
    exact_nav c d prices + (dval x - dval (dict_get d a 0)) * dval (dict_get prices a 0)"
  using sum_dict_update [OF assms, of "\<lambda>k v. dval v * dval (dict_get prices k 0)" a x]
  by (simp add: exact_nav_def dict_get_def [of d] algebra_simps split: option.splits)

lemma exact_nav_drop_zero:
  assumes "distinct (dict_keys d)"
  shows "exact_nav c (drop_zero a d) prices = exact_nav c d prices"
  using sum_dict_delete [OF assms, of "\<lambda>k v. dval v * dval (dict_get prices k 0)" a]
  by (auto simp: exact_nav_def drop_zero_def d_eq_dval split: option.splits)

definition exact_arm_nav :: "q1_arm_state \<Rightarrow> (string, decimal) dict \<Rightarrow> rat" where
  "exact_arm_nav s prices =
     (\<Sum>r\<leftarrow>as_unsettled_receivables s. dval (ur_amount_usd r))
     + exact_nav (as_settled_cash_usd s) (as_positions s) prices"

text \<open>
  Quantities on the grid \<open>10^h\<close>, prices on \<open>10^k\<close> and amounts on \<open>10^(h+k)\<close>,
  the whole book below \<open>10^(h+k+28)\<close>: every operation of the arm is then exact.
\<close>

definition on_book :: "int \<Rightarrow> int \<Rightarrow> q1_arm_state \<Rightarrow> (string, decimal) dict \<Rightarrow> bool" where
  "on_book h k s prices \<longleftrightarrow>
     on_grid (h + k) (dval (as_settled_cash_usd s))
     \<and> (\<forall>r\<in>set (as_unsettled_receivables s). on_grid (h + k) (dval (ur_amount_usd r)))
     \<and> (\<forall>q\<in>set (dict_values (as_positions s)). on_grid h (dval q))
     \<and> (\<forall>p\<in>set (dict_values prices). on_grid k (dval p) \<and> 0 \<le> dval p)
     \<and> exact_arm_nav s prices \<le> pow10 (h + k + int prec)"

lemma rmap_prices:
  assumes "\<forall>(s, q)\<in>set xs. dict_has prices s"
  shows "rmap (\<lambda>(s, q). rbind (dict_lookup prices s) (\<lambda>p. Inr (q * p))) xs =
    Inr (map (\<lambda>(s, q). q * dict_get prices s 0) xs)"
  using assms by (induction xs) (auto simp: dict_has_def dict_lookup_def dict_get_def)

lemma held_value:
  assumes "\<forall>q\<in>set (dict_values ps). 0 \<le> dval q"
  shows "(\<Sum>(s, q)\<leftarrow>held ps. dval q * f s) = (\<Sum>(s, q)\<leftarrow>ps. dval q * f s)"
  using assms by (induction ps) (auto simp: held_def dict_values_def less_decimal_dval)

lemma arm_nav_exact:
  assumes wf: "arm_wf s" and b: "on_book h k s prices" and n: "arm_nav s prices = Inr n"
  shows "dval n = exact_arm_nav s prices"
proof -
  let ?g = "h + k" and ?v = "\<lambda>(s, q). dval q * dval (dict_get prices s 0)"
  let ?rs = "as_unsettled_receivables s" and ?hs = "held (as_positions s)"
  define B where "B = pow10 (?g + int prec)"
  have pos: "\<forall>q\<in>set (dict_values (as_positions s)). 0 \<le> dval q" "\<forall>r\<in>set ?rs. 0 \<le> dval (ur_amount_usd r)"
    "0 \<le> dval (as_settled_cash_usd s)"
    using wf by (auto simp: arm_wf_def receivable_ok_def list_all_iff less_imp_le)
  have price: "on_grid k (dval (dict_get prices x 0)) \<and> 0 \<le> dval (dict_get prices x 0)" for x
    using b dict_get_values [of prices "\<lambda>p. on_grid k (dval p) \<and> 0 \<le> dval p" 0 x] by (simp add: on_book_def)
  have H: "on_grid h (dval q) \<and> 0 \<le> dval q" if "(x, q) \<in> set ?hs" for x q
  proof -
    have "q \<in> set (dict_values (as_positions s))" using that by (auto simp: held_def intro: mem_dict_values)
    then show ?thesis using b pos(1) by (simp add: on_book_def)
  qed
  have sums: "0 \<le> (\<Sum>r\<leftarrow>?rs. dval (ur_amount_usd r))" "0 \<le> (\<Sum>x\<leftarrow>?hs. ?v x)"
    using pos(2) H price by (auto intro!: sum_list_nonneg mult_nonneg_nonneg)
  have total: "(\<Sum>r\<leftarrow>?rs. dval (ur_amount_usd r)) + dval (as_settled_cash_usd s) + (\<Sum>x\<leftarrow>?hs. ?v x) \<le> B"
    "exact_arm_nav s prices = (\<Sum>r\<leftarrow>?rs. dval (ur_amount_usd r)) + dval (as_settled_cash_usd s) + (\<Sum>x\<leftarrow>?hs. ?v x)"
    using b held_value [OF pos(1), of "\<lambda>x. dval (dict_get prices x 0)"]
    by (simp_all add: on_book_def exact_arm_nav_def exact_nav_def B_def)
  have abs: "(\<Sum>x\<leftarrow>?hs. \<bar>?v x\<bar>) = (\<Sum>x\<leftarrow>?hs. ?v x)"
    by (intro arg_cong [of _ _ sum_list] map_cong refl) (use H price in \<open>auto intro!: abs_of_nonneg mult_nonneg_nonneg\<close>)
  have absr: "(\<Sum>r\<leftarrow>?rs. \<bar>dval (ur_amount_usd r)\<bar>) = (\<Sum>r\<leftarrow>?rs. dval (ur_amount_usd r))"
    using pos(2) by (intro arg_cong [of _ _ sum_list] map_cong refl) auto
  have mv: "dval (dsum (map (\<lambda>(s, q). q * dict_get prices s 0) ?hs)) = (\<Sum>x\<leftarrow>?hs. ?v x)"
  proof (rule market_value_exact [where g = ?g])
    show "on_grid ?g (dval q * dval (dict_get prices x 0))" if "(x, q) \<in> set ?hs" for x q
      using H [OF that] price by (intro on_grid_mult) auto
    show "(\<Sum>(x, q)\<leftarrow>?hs. \<bar>dval q * dval (dict_get prices x 0)\<bar>) \<le> pow10 (?g + int prec)"
      using abs total(1) sums(1) pos(3) unfolding B_def by (simp add: split_def)
  qed
  have mvg: "on_grid ?g (\<Sum>x\<leftarrow>?hs. ?v x)"
    using H price by (intro on_grid_sum_list) (auto intro!: on_grid_mult)
  have u: "dval (unsettled_cash_usd s) = (\<Sum>r\<leftarrow>?rs. dval (ur_amount_usd r))" "on_grid ?g (\<Sum>r\<leftarrow>?rs. dval (ur_amount_usd r))"
    using dsum_exact [of "map ur_amount_usd ?rs" ?g] b absr total(1) sums pos(3)
    by (auto simp: unsettled_cash_usd_def on_book_def comp_def B_def)
  have g: "on_grid ?g (dval (as_settled_cash_usd s))" using b by (simp add: on_book_def)
  have t: "dval (arm_total_cash_usd s) = dval (as_settled_cash_usd s) + (\<Sum>r\<leftarrow>?rs. dval (ur_amount_usd r))"
    unfolding arm_total_cash_usd_def dval_plus u(1)
    using g u(2) pos(3) sums total(1) unfolding B_def by (intro ctx_grid [where g = ?g]) auto
  have "n = arm_total_cash_usd s + dsum (map (\<lambda>(s, q). q * dict_get prices s 0) ?hs)"
    using n rmap_prices [of ?hs prices] by (auto simp: arm_nav_def case_prod_unfold split: if_splits)
  then show ?thesis
    unfolding dval_plus total(2) t mv using g u(2) mvg pos(3) sums total(1) unfolding B_def
    by (simp add: dval_plus t mv) (intro ctx_grid [where g = ?g, THEN trans], auto)
qed


lemma settled_le_nav:
  assumes "arm_wf s" "on_book h k s prices"
  shows "dval (as_settled_cash_usd s) + (\<Sum>r\<leftarrow>as_unsettled_receivables s. dval (ur_amount_usd r)) \<le> pow10 (h + k + int prec)"
    and "dval (as_settled_cash_usd s) \<le> pow10 (h + k + int prec)"
proof -
  have "0 \<le> dval q * dval (dict_get prices x 0)" if "(x, q) \<in> set (as_positions s)" for x q
    using assms mem_dict_values [OF that] dict_get_values [of prices "\<lambda>p. 0 \<le> dval p" 0 x]
    by (auto simp: arm_wf_def on_book_def)
  then have "0 \<le> (\<Sum>(x, q)\<leftarrow>as_positions s. dval q * dval (dict_get prices x 0))"
    by (auto intro!: sum_list_nonneg)
  then show a: "dval (as_settled_cash_usd s) + (\<Sum>r\<leftarrow>as_unsettled_receivables s. dval (ur_amount_usd r)) \<le> pow10 (h + k + int prec)"
    using assms(2) by (simp add: on_book_def exact_arm_nav_def exact_nav_def)
  have "0 \<le> (\<Sum>r\<leftarrow>as_unsettled_receivables s. dval (ur_amount_usd r))"
    using assms(1) by (auto simp: arm_wf_def list_all_iff receivable_ok_def intro!: sum_list_nonneg) (meson less_imp_le)
  then show "dval (as_settled_cash_usd s) \<le> pow10 (h + k + int prec)" using a by linarith
qed

lemma fill_notional_exact:
  assumes "on_grid h (dval q)" "on_grid k (dval p)" "on_grid (h + k) (dval c)" "0 \<le> dval q" "0 \<le> dval p" "0 \<le> dval c"
    and "dval q * dval p + dval c \<le> pow10 (h + k + int prec)"
  shows "dval (q * p + c) = dval q * dval p + dval c" "dval (q * p - c) = dval q * dval p - dval c"
proof -
  have g: "on_grid (h + k) (dval q * dval p)" by (rule on_grid_mult [OF assms(1,2)])
  have nn: "0 \<le> dval q * dval p" using assms by simp
  have "ctx (dval q * dval p) = dval q * dval p"
    using g nn assms(6,7) by (intro ctx_grid [where g = "h + k"]) auto
  moreover have "ctx (dval q * dval p + dval c) = dval q * dval p + dval c"
    using g nn assms(3,6,7) by (intro ctx_grid [where g = "h + k"]) auto
  moreover have "ctx (dval q * dval p - dval c) = dval q * dval p - dval c"
    using g nn assms(3,6,7) by (intro ctx_grid [where g = "h + k"]) auto
  ultimately show "dval (q * p + c) = dval q * dval p + dval c" "dval (q * p - c) = dval q * dval p - dval c"
    by (simp_all add: dval_plus dval_minus dval_times)
qed

lemma new_positions_value:
  assumes "distinct (dict_keys (as_positions s))" "dval (new_quantity s f) = dval (dict_get (as_positions s) (fl_symbol f) 0) + d"
  shows "exact_nav c (new_positions s f) prices =
    exact_nav c (as_positions s) prices + d * dval (dict_get prices (fl_symbol f) 0)"
proof -
  have "distinct (dict_keys (AList.update (fl_symbol f) (new_quantity s f) (as_positions s)))"
    using assms(1) by (simp add: dict_keys_def distinct_update)
  from exact_nav_drop_zero [OF this] exact_nav_update [OF assms(1)] show ?thesis
    by (simp add: new_positions_def assms(2))
qed

lemma exact_nav_cash: "exact_nav c ps prices = dval c + exact_nav 0 ps prices"
  by (simp add: exact_nav_def)

text \<open>A fill on the same grids, at the price at which the book is valued.\<close>

definition fill_on_book :: "int \<Rightarrow> int \<Rightarrow> q1_arm_state \<Rightarrow> (string, decimal) dict \<Rightarrow> fill \<Rightarrow> bool" where
  "fill_on_book h k s prices f \<longleftrightarrow>
     on_grid h (dval (fl_quantity f)) \<and> on_grid k (dval (fl_price f)) \<and> on_grid (h + k) (dval (fl_commission_usd f))
     \<and> map_of prices (fl_symbol f) = Some (fl_price f)
     \<and> dval (fl_quantity f) * dval (fl_price f) + dval (fl_commission_usd f) \<le> pow10 (h + k + int prec)
     \<and> dval (dict_get (as_positions s) (fl_symbol f) 0) + dval (fl_quantity f) \<le> pow10 (h + int prec)"

text \<open>
  The cash of an arm, settled or not, and what a fill adds to it and to the position, without
  rounding.
\<close>

definition arm_cash :: "q1_arm_state \<Rightarrow> rat" where
  "arm_cash s = dval (as_settled_cash_usd s) + (\<Sum>r\<leftarrow>as_unsettled_receivables s. dval (ur_amount_usd r))"

definition fill_cash_effect :: "fill \<Rightarrow> rat" where
  "fill_cash_effect f =
     (let notional = dval (fl_quantity f) * dval (fl_price f) in
      case fl_side f of BUY \<Rightarrow> - (notional + dval (fl_commission_usd f)) | SELL \<Rightarrow> notional - dval (fl_commission_usd f))"

definition fill_position_effect :: "fill \<Rightarrow> rat" where
  "fill_position_effect f = (case fl_side f of BUY \<Rightarrow> dval (fl_quantity f) | SELL \<Rightarrow> - dval (fl_quantity f))"

definition fill_on_grid :: "int \<Rightarrow> int \<Rightarrow> fill \<Rightarrow> bool" where
  "fill_on_grid h k f \<longleftrightarrow>
     on_grid h (dval (fl_quantity f)) \<and> on_grid k (dval (fl_price f)) \<and> on_grid (h + k) (dval (fl_commission_usd f))"

lemma exact_arm_nav_cash: "exact_arm_nav s prices = arm_cash s + exact_nav 0 (as_positions s) prices"
  by (simp add: exact_arm_nav_def arm_cash_def exact_nav_def)

lemma fill_effect:
  assumes wf: "arm_wf s" and b: "on_book h k s prices" and f: "validate_fill f = Inr f" and grid: "fill_on_grid h k f"
    and small: "dval (fl_quantity f) * dval (fl_price f) + dval (fl_commission_usd f) \<le> pow10 (h + k + int prec)"
      "dval (dict_get (as_positions s) (fl_symbol f) 0) + dval (fl_quantity f) \<le> pow10 (h + int prec)"
    and s': "apply_fill s f r = Inr s'"
  shows "as_positions s' = new_positions s f" "as_sequence s' = as_sequence s + 1"
    and "dval (new_quantity s f) = dval (dict_get (as_positions s) (fl_symbol f) 0) + fill_position_effect f"
    and "arm_cash s' = arm_cash s + fill_cash_effect f"
    and "length (as_unsettled_receivables s') = length (as_unsettled_receivables s) + (if fl_side f = BUY then 0 else 1)"
    and "on_grid (h + k) (dval (as_settled_cash_usd s'))"
    and "\<forall>u\<in>set (as_unsettled_receivables s'). on_grid (h + k) (dval (ur_amount_usd u))"
    and "\<forall>q\<in>set (dict_values (as_positions s')). on_grid h (dval q)"
proof -
  note grid = grid [unfolded fill_on_grid_def, THEN conjunct1] grid [unfolded fill_on_grid_def, THEN conjunct2, THEN conjunct1]
    grid [unfolded fill_on_grid_def, THEN conjunct2, THEN conjunct2]
  have pos: "0 \<le> dval (fl_quantity f)" "0 \<le> dval (fl_price f)" "0 \<le> dval (fl_commission_usd f)"
    using f by (auto simp: validate_fill_def dval_simps split: if_splits)
  note ex = fill_notional_exact [OF grid pos small(1)]
  have keys: "distinct (dict_keys (as_positions s))" using wf by (simp add: arm_wf_def)
  have cur: "on_grid h (dval (dict_get (as_positions s) (fl_symbol f) 0))" "0 \<le> dval (dict_get (as_positions s) (fl_symbol f) 0)"
    using b wf dict_get_values [of "as_positions s" "\<lambda>q. on_grid h (dval q) \<and> 0 \<le> dval q" 0 "fl_symbol f"]
    by (auto simp: on_book_def arm_wf_def)
  have acc: "fill_accepted s f r" by (rule apply_fill_accepted [OF s'])
  have G: "on_grid (h + k) (dval (fl_quantity f) * dval (fl_price f))" by (rule on_grid_mult [OF grid(1,2)])
  have bg: "on_grid (h + k) (dval (as_settled_cash_usd s))" using b by (simp add: on_book_def)
  show new: "as_positions s' = new_positions s f" and "as_sequence s' = as_sequence s + 1"
    using s' unfolding apply_fill_unfold by (auto dest!: next_state_Inr(1) split: order_side.splits)
  show nq: "dval (new_quantity s f) = dval (dict_get (as_positions s) (fl_symbol f) 0) + fill_position_effect f"
  proof (cases "fl_side f")
    case BUY
    then show ?thesis
      using cur grid(1) pos small(2) by (auto simp: new_quantity_def fill_position_effect_def dval_plus intro!: ctx_grid [where g = h])
  next
    case SELL
    then show ?thesis
      using acc cur grid(1) pos small(2)
      by (auto simp: new_quantity_def fill_position_effect_def dval_minus fill_accepted_def less_eq_decimal_dval intro!: ctx_grid [where g = h])
  qed
  have "arm_cash s' = arm_cash s + fill_cash_effect f
    \<and> length (as_unsettled_receivables s') = length (as_unsettled_receivables s) + (if fl_side f = BUY then 0 else 1)
    \<and> on_grid (h + k) (dval (as_settled_cash_usd s'))
    \<and> (\<forall>u\<in>set (as_unsettled_receivables s'). on_grid (h + k) (dval (ur_amount_usd u)))"
  proof (cases "fl_side f")
    case BUY
    let ?req = "fl_quantity f * fl_price f + fl_commission_usd f"
    have le: "dval ?req \<le> dval (as_settled_cash_usd s)" using acc BUY by (simp add: fill_accepted_def dval_simps)
    have g: "on_grid (h + k) (dval (as_settled_cash_usd s) - dval ?req)" unfolding ex(1) by (intro on_grid_diff on_grid_add G grid bg)
    have "0 \<le> dval ?req" using pos ex(1) by simp
    then have c: "dval (as_settled_cash_usd s - ?req) = dval (as_settled_cash_usd s) - dval ?req"
      unfolding dval_minus using settled_le_nav(2) [OF wf b] le by (intro ctx_grid [OF g]) linarith
    have "as_settled_cash_usd s' = as_settled_cash_usd s - ?req" "as_unsettled_receivables s' = as_unsettled_receivables s"
      using s' BUY unfolding apply_fill_unfold by (auto dest!: next_state_Inr(1))
    then show ?thesis using c g b BUY ex(1) by (simp add: arm_cash_def fill_cash_effect_def on_book_def)
  next
    case SELL
    let ?net = "fl_quantity f * fl_price f - fl_commission_usd f"
    obtain u where "as_settled_cash_usd s' = as_settled_cash_usd s" "as_unsettled_receivables s' = as_unsettled_receivables s @ [u]"
      "dval (ur_amount_usd u) = dval ?net"
      using s' SELL unfolding apply_fill_unfold by (auto simp: d_eq_dval dest!: next_state_Inr(1))
    then show ?thesis using ex(2) SELL b bg on_grid_diff [OF G grid(3)] by (simp add: arm_cash_def fill_cash_effect_def on_book_def)
  qed
  then show "arm_cash s' = arm_cash s + fill_cash_effect f"
    "length (as_unsettled_receivables s') = length (as_unsettled_receivables s) + (if fl_side f = BUY then 0 else 1)"
    "on_grid (h + k) (dval (as_settled_cash_usd s'))"
    "\<forall>u\<in>set (as_unsettled_receivables s'). on_grid (h + k) (dval (ur_amount_usd u))" by blast+
  have "on_grid h (dval (new_quantity s f))" unfolding nq fill_position_effect_def using cur(1) grid(1) by (auto split: order_side.split)
  moreover have "set (dict_values (new_positions s f)) \<subseteq> insert (new_quantity s f) (set (dict_values (as_positions s)))"
    using drop_zero_keys(2) [of "AList.update (fl_symbol f) (new_quantity s f) (as_positions s)" "fl_symbol f"]
      update_values [of "fl_symbol f" "new_quantity s f" "as_positions s"] keys
    by (auto simp: new_positions_def dict_values_def dict_keys_def distinct_update)
  ultimately show "\<forall>q\<in>set (dict_values (as_positions s')). on_grid h (dval q)" using b by (auto simp: on_book_def new)
qed

lemma apply_fill_value:
  assumes wf: "arm_wf s" and b: "on_book h k s prices" and f: "validate_fill f = Inr f"
    and fb: "fill_on_book h k s prices f" and s': "apply_fill s f r = Inr s'"
  shows "exact_arm_nav s' prices = exact_arm_nav s prices - dval (fl_commission_usd f)" and "on_book h k s' prices"
proof -
  have "fill_on_grid h k f" and price: "map_of prices (fl_symbol f) = Some (fl_price f)"
    and "dval (fl_quantity f) * dval (fl_price f) + dval (fl_commission_usd f) \<le> pow10 (h + k + int prec)"
    and "dval (dict_get (as_positions s) (fl_symbol f) 0) + dval (fl_quantity f) \<le> pow10 (h + int prec)"
    using fb by (auto simp: fill_on_book_def fill_on_grid_def)
  note e = fill_effect [OF wf b f this(1,3,4) s']
  have "distinct (dict_keys (as_positions s))" and "0 \<le> dval (fl_commission_usd f)"
    using wf f by (auto simp: arm_wf_def validate_fill_def dval_simps split: if_splits)
  note np = new_positions_value [OF this(1) e(3), of 0 prices]
  have "dval (dict_get prices (fl_symbol f) 0) = dval (fl_price f)" using price by (simp add: dict_get_def)
  then show nav: "exact_arm_nav s' prices = exact_arm_nav s prices - dval (fl_commission_usd f)"
    unfolding exact_arm_nav_cash e(4) e(1) np by (cases "fl_side f") (simp_all add: fill_cash_effect_def fill_position_effect_def)
  show "on_book h k s' prices" using e b nav \<open>0 \<le> dval (fl_commission_usd f)\<close> by (simp add: on_book_def)
qed

lemma settle_value:
  assumes wf: "arm_wf s" and b: "on_book h k s prices" and s': "settle s rid = Inr s'"
  shows "exact_arm_nav s' prices = exact_arm_nav s prices" and "on_book h k s' prices"
proof -
  have "exact_arm_nav s' prices = exact_arm_nav s prices \<and> on_book h k s' prices"
  proof (cases "filter (\<lambda>r. ur_receivable_id r = rid) (as_unsettled_receivables s)")
    case Nil
    then show ?thesis using s' b by (simp add: settle_def)
  next
    case (Cons u us)
    let ?rs = "as_unsettled_receivables s" and ?a = "\<lambda>r. dval (ur_amount_usd r)"
    have u: "u \<in> set ?rs" by (metis Cons filter_is_subset in_mono list.set_intros(1))
    have "distinct (map ur_receivable_id (u # us))"
      using wf unfolding arm_wf_def Cons [symmetric] by (auto simp: distinct_map_filter)
    moreover have "set us \<subseteq> {r. ur_receivable_id r = rid}" "ur_receivable_id u = rid"
      using Cons by (auto simp: filter_eq_Cons_iff)
    ultimately have "us = []" by (cases us) auto
    have part: "(\<Sum>r\<leftarrow>rs. ?a r) = (\<Sum>r\<leftarrow>filter (\<lambda>r. ur_receivable_id r = rid) rs. ?a r)
        + (\<Sum>r\<leftarrow>filter (\<lambda>r. ur_receivable_id r \<noteq> rid) rs. ?a r)" for rs
      by (induction rs) auto
    have "0 \<le> ?a r" if "r \<in> set ?rs" for r
      using wf that by (auto simp: arm_wf_def list_all_iff receivable_ok_def less_imp_le)
    then have "?a u \<le> (\<Sum>r\<leftarrow>?rs. ?a r)" using u by (intro member_le_sum_list) auto
    moreover have "0 \<le> dval (as_settled_cash_usd s)" "0 \<le> ?a u"
      using wf u \<open>\<And>r. r \<in> set ?rs \<Longrightarrow> 0 \<le> ?a r\<close> by (auto simp: arm_wf_def)
    ultimately have "dval (as_settled_cash_usd s + ur_amount_usd u) = dval (as_settled_cash_usd s) + ?a u"
      unfolding dval_plus using settled_le_nav(1) [OF wf b] b u
      by (intro ctx_grid [where g = "h + k"]) (auto simp: on_book_def)
    moreover have "as_settled_cash_usd s' = as_settled_cash_usd s + ur_amount_usd u" "as_positions s' = as_positions s"
      "as_unsettled_receivables s' = filter (\<lambda>r. ur_receivable_id r \<noteq> rid) ?rs"
      using s' Cons by (auto simp: settle_def dest!: next_state_Inr(1))
    ultimately show ?thesis
      using part [of ?rs] Cons \<open>us = []\<close> b u by (auto simp: on_book_def exact_arm_nav_def exact_nav_def)
  qed
  then show "exact_arm_nav s' prices = exact_arm_nav s prices" "on_book h k s' prices" by blast+
qed

text \<open>A valuation needs prices for the held symbols only.\<close>

lemma arm_nav_defined:
  assumes "arm_nav s prices = Inr n" "\<forall>k\<in>set (dict_keys (held (as_positions s'))). k \<in> set (dict_keys (held (as_positions s))) \<or> dict_has prices k"
  shows "\<exists>n'. arm_nav s' prices = Inr n'"
proof -
  have "\<forall>(k, q)\<in>set (held (as_positions s)). dict_has prices k"
    using assms(1) by (auto simp: arm_nav_def split: if_splits)
  then have "\<forall>(k, q)\<in>set (held (as_positions s')). dict_has prices k"
    using assms(2) by (fastforce simp: dict_keys_def)
  with rmap_prices [OF this] show ?thesis by (auto simp: arm_nav_def case_prod_unfold)
qed

lemma settle_positions:
  assumes "settle s rid = Inr s'"
  shows "as_positions s' = as_positions s"
  using assms by (auto simp: settle_def dest!: next_state_Inr(1) split: list.splits)

lemma apply_fill_positions:
  assumes "apply_fill s f r = Inr s'"
  shows "\<forall>k\<in>set (dict_keys (held (as_positions s'))). k \<in> set (dict_keys (held (as_positions s))) \<or> k = fl_symbol f"
proof -
  have "as_positions s' = new_positions s f"
    using assms unfolding apply_fill_unfold by (auto dest!: next_state_Inr(1) split: order_side.splits)
  moreover have "set (new_positions s f) \<subseteq> set (AList.update (fl_symbol f) (new_quantity s f) (as_positions s))"
    by (auto simp: new_positions_def drop_zero_def AList.delete_eq split: option.splits if_splits)
  ultimately show ?thesis by (force simp: held_def dict_keys_def dest!: update_mem)
qed

section \<open>What a run adds up to\<close>

fun cash_effect :: "arm_action \<Rightarrow> rat" where
  "cash_effect (Fill_Action f r) = fill_cash_effect f"
| "cash_effect (Settle_Action rid) = 0"

fun position_effect :: "string \<Rightarrow> arm_action \<Rightarrow> rat" where
  "position_effect x (Fill_Action f r) = (if fl_symbol f = x then fill_position_effect f else 0)"
| "position_effect x (Settle_Action rid) = 0"

text \<open>What an action adds to the sequence number and the number of open receivables together.\<close>

fun sequence_effect :: "arm_action \<Rightarrow> int" where
  "sequence_effect (Fill_Action f r) = (if fl_side f = BUY then 1 else 2)"
| "sequence_effect (Settle_Action rid) = 0"

fun gross_cash_effect :: "arm_action \<Rightarrow> rat" where
  "gross_cash_effect (Fill_Action f r) = dval (fl_quantity f) * dval (fl_price f) + dval (fl_commission_usd f)"
| "gross_cash_effect (Settle_Action rid) = 0"

fun gross_quantity_effect :: "arm_action \<Rightarrow> rat" where
  "gross_quantity_effect (Fill_Action f r) = dval (fl_quantity f)"
| "gross_quantity_effect (Settle_Action rid) = 0"

fun action_on_grid :: "int \<Rightarrow> int \<Rightarrow> arm_action \<Rightarrow> bool" where
  "action_on_grid h k (Fill_Action f r) = fill_on_grid h k f"
| "action_on_grid h k (Settle_Action rid) = True"

abbreviation arm_position :: "q1_arm_state \<Rightarrow> string \<Rightarrow> rat" where
  "arm_position s x \<equiv> dval (dict_get (as_positions s) x 0)"

text \<open>
  A run whose amounts are on the grids of \<open>on_book\<close> and which turns over no more than fits in 28
  digits.
\<close>

definition run_on_grid :: "int \<Rightarrow> int \<Rightarrow> q1_arm_state \<Rightarrow> arm_action list \<Rightarrow> bool" where
  "run_on_grid h k s acts \<longleftrightarrow>
     on_grid (h + k) (dval (as_settled_cash_usd s))
     \<and> (\<forall>r\<in>set (as_unsettled_receivables s). on_grid (h + k) (dval (ur_amount_usd r)))
     \<and> (\<forall>q\<in>set (dict_values (as_positions s)). on_grid h (dval q))
     \<and> list_all (action_on_grid h k) acts
     \<and> arm_cash s + (\<Sum>a\<leftarrow>acts. gross_cash_effect a) \<le> pow10 (h + k + int prec)
     \<and> (\<forall>x. arm_position s x + (\<Sum>a\<leftarrow>acts. gross_quantity_effect a) \<le> pow10 (h + int prec))"

lemma exact_nav_no_prices: "exact_nav c ps [] = dval c"
  by (induction ps) (auto simp: exact_nav_def dict_get_def)

lemma on_book_no_prices:
  "on_book h k s [] \<longleftrightarrow>
     on_grid (h + k) (dval (as_settled_cash_usd s))
     \<and> (\<forall>r\<in>set (as_unsettled_receivables s). on_grid (h + k) (dval (ur_amount_usd r)))
     \<and> (\<forall>q\<in>set (dict_values (as_positions s)). on_grid h (dval q)) \<and> arm_cash s \<le> pow10 (h + k + int prec)"
  by (simp add: on_book_def exact_arm_nav_cash exact_nav_no_prices dict_values_def)

lemma new_positions_get:
  assumes "dval (new_quantity s f) = arm_position s (fl_symbol f) + d"
  shows "dval (dict_get (new_positions s f) x 0) = arm_position s x + (if fl_symbol f = x then d else 0)"
  using assms unfolding new_positions_def dval_get_drop_zero by (simp add: dict_get_def update_conv')

lemma settle_effect:
  assumes "arm_wf s" "settle s rid = Inr s'"
  shows "as_sequence s' + int (length (as_unsettled_receivables s')) = as_sequence s + int (length (as_unsettled_receivables s))"
proof (cases "filter (\<lambda>r. ur_receivable_id r = rid) (as_unsettled_receivables s)")
  case Nil
  then show ?thesis using assms(2) by (simp add: settle_def)
next
  case (Cons u us)
  let ?rs = "as_unsettled_receivables s"
  have "distinct (map ur_receivable_id (u # us))"
    using assms(1) unfolding arm_wf_def Cons [symmetric] by (auto simp: distinct_map_filter)
  moreover have "set us \<subseteq> {r. ur_receivable_id r = rid}" "ur_receivable_id u = rid"
    using Cons by (auto simp: filter_eq_Cons_iff)
  ultimately have "us = []" by (cases us) auto
  then have "length ?rs = 1 + length (filter (\<lambda>r. ur_receivable_id r \<noteq> rid) ?rs)"
    using sum_length_filter_compl [of "\<lambda>r. ur_receivable_id r = rid" ?rs] Cons by simp
  then show ?thesis using assms(2) Cons by (auto simp: settle_def dest!: next_state_Inr(1))
qed

lemma gross_nonneg:
  assumes "arm_step s a s'"
  shows "0 \<le> gross_cash_effect a" "0 \<le> gross_quantity_effect a" "cash_effect a \<le> gross_cash_effect a"
    "position_effect x a \<le> gross_quantity_effect a"
  using assms
  by (auto simp: fill_cash_effect_def fill_position_effect_def Let_def validate_fill_def dval_simps split: order_side.splits if_splits elim!: arm_stepE)

lemma step_effect:
  assumes step: "arm_step s a s'" and wf: "arm_wf s" and run: "run_on_grid h k s (a # acts)"
    and rest: "0 \<le> (\<Sum>a\<leftarrow>acts. gross_cash_effect a)" "0 \<le> (\<Sum>a\<leftarrow>acts. gross_quantity_effect a)"
  shows "arm_cash s' = arm_cash s + cash_effect a"
    and "\<And>x. arm_position s' x = arm_position s x + position_effect x a"
    and "as_sequence s' + int (length (as_unsettled_receivables s'))
      = as_sequence s + int (length (as_unsettled_receivables s)) + sequence_effect a"
    and "on_book h k s' []"
proof -
  note g = gross_nonneg [OF step]
  have cash: "arm_cash s + gross_cash_effect a + (\<Sum>a\<leftarrow>acts. gross_cash_effect a) \<le> pow10 (h + k + int prec)"
    and position: "arm_position s x + gross_quantity_effect a + (\<Sum>a\<leftarrow>acts. gross_quantity_effect a) \<le> pow10 (h + int prec)" for x
    using run by (simp_all add: run_on_grid_def add.assoc)
  have b: "on_book h k s []" using run cash g(1) rest(1) by (simp add: on_book_no_prices run_on_grid_def)
  have "arm_cash s' = arm_cash s + cash_effect a \<and> (\<forall>x. arm_position s' x = arm_position s x + position_effect x a)
    \<and> as_sequence s' + int (length (as_unsettled_receivables s'))
      = as_sequence s + int (length (as_unsettled_receivables s)) + sequence_effect a
    \<and> on_book h k s' []"
    using step
  proof cases
    case (fill_step f r)
    have nn: "0 \<le> arm_cash s" using wf
      by (auto simp: arm_wf_def arm_cash_def list_all_iff receivable_ok_def less_imp_le intro!: add_nonneg_nonneg sum_list_nonneg)
    have "0 \<le> arm_position s (fl_symbol f)"
      using wf dict_get_values [of "as_positions s" "\<lambda>q. 0 \<le> dval q" 0 "fl_symbol f"] by (auto simp: arm_wf_def)
    have small: "dval (fl_quantity f) * dval (fl_price f) + dval (fl_commission_usd f) \<le> pow10 (h + k + int prec)"
      "arm_position s (fl_symbol f) + dval (fl_quantity f) \<le> pow10 (h + int prec)"
      using cash position [of "fl_symbol f"] nn rest fill_step(1) by simp_all
    have "fill_on_grid h k f" using run fill_step(1) by (simp add: run_on_grid_def)
    note e = fill_effect [OF wf b fill_step(2) this small fill_step(4)]
    have "arm_cash s' \<le> pow10 (h + k + int prec)" using e(4) cash g(3) rest(1) fill_step(1) by simp
    then show ?thesis
      using e new_positions_get [OF e(3)] by (simp add: fill_step(1) on_book_no_prices)
  next
    case (settle_step rid)
    then show ?thesis
      using settle_value [OF wf b settle_step(2)] settle_positions [OF settle_step(2)] settle_effect [OF wf settle_step(2)]
      by (simp add: exact_arm_nav_cash exact_nav_no_prices)
  qed
  then show "arm_cash s' = arm_cash s + cash_effect a" "\<And>x. arm_position s' x = arm_position s x + position_effect x a"
    "as_sequence s' + int (length (as_unsettled_receivables s'))
      = as_sequence s + int (length (as_unsettled_receivables s)) + sequence_effect a" "on_book h k s' []" by blast+
qed

lemma run_gross_nonneg:
  "arm_run s acts s' \<Longrightarrow> 0 \<le> (\<Sum>a\<leftarrow>acts. gross_cash_effect a) \<and> 0 \<le> (\<Sum>a\<leftarrow>acts. gross_quantity_effect a)"
  by (induction rule: arm_run.induct) (auto dest: gross_nonneg(1,2))

lemma step_on_grid:
  assumes "arm_step s a s'" "arm_run s' acts s''" "arm_wf s" "run_on_grid h k s (a # acts)"
  shows "run_on_grid h k s' acts"
proof -
  note rest = run_gross_nonneg [OF assms(2), THEN conjunct1] run_gross_nonneg [OF assms(2), THEN conjunct2]
  note e = step_effect [OF assms(1,3,4) rest] and g = gross_nonneg [OF assms(1)]
  have "arm_cash s' + (\<Sum>a\<leftarrow>acts. gross_cash_effect a) \<le> pow10 (h + k + int prec)"
    using e(1) g(3) assms(4) by (simp add: run_on_grid_def)
  moreover have "arm_position s' x + (\<Sum>a\<leftarrow>acts. gross_quantity_effect a) \<le> pow10 (h + int prec)" for x
  proof -
    have "arm_position s x + (gross_quantity_effect a + (\<Sum>a\<leftarrow>acts. gross_quantity_effect a)) \<le> pow10 (h + int prec)"
      using assms(4) by (simp add: run_on_grid_def)
    then show ?thesis unfolding e(2) using g(4) [of x] by linarith
  qed
  ultimately show ?thesis using e(4) assms(4) by (simp add: run_on_grid_def on_book_no_prices)
qed

lemma run_effect:
  assumes "arm_run s acts s'" "arm_wf s" "run_on_grid h k s acts"
  shows "arm_wf s' \<and> as_arm_id s' = as_arm_id s \<and> as_initial_nav_usd s' = as_initial_nav_usd s
    \<and> arm_cash s' = arm_cash s + (\<Sum>a\<leftarrow>acts. cash_effect a)
    \<and> (\<forall>x. arm_position s' x = arm_position s x + (\<Sum>a\<leftarrow>acts. position_effect x a))
    \<and> as_sequence s' + int (length (as_unsettled_receivables s'))
      = as_sequence s + int (length (as_unsettled_receivables s)) + (\<Sum>a\<leftarrow>acts. sequence_effect a)"
  using assms
proof (induction rule: arm_run.induct)
  case (run_cons s a s' acts s'')
  note g = run_gross_nonneg [OF run_cons.hyps(2)]
  note e = step_effect [OF run_cons.hyps(1) run_cons.prems g [THEN conjunct1] g [THEN conjunct2]]
  note w = step_keeps [OF run_cons.hyps(1) run_cons.prems(1)]
  note IH = run_cons.IH [OF conjunct1 [OF w] step_on_grid [OF run_cons.hyps run_cons.prems]]
  show ?case using IH w e(1-3) by simp
qed simp

lemma fill_answer:
  assumes "arm_wf s" "validate_fill f = Inr f" "pred_option receivable_ok r" "fl_arm_id f = as_arm_id s"
  shows "(\<exists>s''. apply_fill s f r = Inr s'') \<longleftrightarrow> fill_accepted s f r"
    and "fl_side f = BUY \<and> r = None \<and> as_settled_cash_usd s < fl_quantity f * fl_price f + fl_commission_usd f
      \<longrightarrow> apply_fill s f r = Inl (ValueError ''BUY fill exceeds settled cash'')"
    and "fl_side f = SELL \<and> dict_get (as_positions s) (fl_symbol f) 0 < fl_quantity f
      \<longrightarrow> apply_fill s f r = Inl (ValueError ''SELL fill would create a short position'')"
  using apply_fill_exists [OF assms(1,2) _ assms(3)] apply_fill_accepted [of s f r] assms(4)
  by (blast, simp_all add: apply_fill_def Let_def)

section \<open>Properties\<close>

text \<open>An arm with a thousand dollars and two shares, a buy and a sell.\<close>

definition ex_arm :: q1_arm_state where
  "ex_arm =
     \<lparr>as_arm_id = ''Q1-DET'', as_initial_nav_usd = D 1000 0, as_settled_cash_usd = D 1000 0,
      as_unsettled_receivables = [], as_positions = [(''QQQ'', D 2 0)], as_sequence = 0,
      as_evaluation_anchor_id = None, as_algorithm_version = Q1_ALGORITHM_VERSION\<rparr>"

definition ex_arm_fill :: "order_side \<Rightarrow> fill" where
  "ex_arm_fill side =
     \<lparr>fl_fill_id = ''fill_1'', fl_order_intent_id = ''order_1'', fl_arm_id = ''Q1-DET'', fl_symbol = ''QQQ'',
      fl_side = side, fl_quantity = D 1 0, fl_price = D 4005 (- 1), fl_commission_usd = D 40 (- 2),
      fl_execution_scenario_id = ''Q1_BASE_V1'', fl_effective_at = 0, fl_created_at = 0\<rparr>"

definition ex_receivable :: unsettled_receivable where
  "ex_receivable =
     \<lparr>ur_receivable_id = ''rcv_1'', ur_source_fill_id = ''fill_1'', ur_amount_usd = D 40010 (- 2),
      ur_settlement_date = (2026, 1, 6), ur_created_at = Aware 0\<rparr>"

lemma ex_arm_facts:
  "arm_wf ex_arm" "validate_fill (ex_arm_fill side) = Inr (ex_arm_fill side)" "receivable_ok ex_receivable"
  by (simp_all add: ex_arm_def ex_arm_fill_def ex_receivable_def arm_wf_def receivable_ok_def validate_fill_def
      dict_values_def dict_keys_def dval_simps)

lemma ex_arm_book: "on_book 0 (- 2) ex_arm [(''QQQ'', D 4005 (- 1))]" "fill_on_book 0 (- 2) ex_arm [(''QQQ'', D 4005 (- 1))] (ex_arm_fill side)"
proof -
  have g: "on_grid (- 2) (of_int 1000)" "on_grid (- 2) (4005 / 10)" "on_grid (- 2) (4 / 10)" "on_grid 0 2" "on_grid 0 1"
    unfolding on_grid_def
    by (rule exI [of _ 100000], simp) (rule exI [of _ 40050], simp, rule exI [of _ 40], simp, rule exI [of _ 2], simp, rule exI [of _ 1], simp)
  show "on_book 0 (- 2) ex_arm [(''QQQ'', D 4005 (- 1))]" "fill_on_book 0 (- 2) ex_arm [(''QQQ'', D 4005 (- 1))] (ex_arm_fill side)"
    using g by (simp_all add: on_book_def fill_on_book_def ex_arm_def ex_arm_fill_def exact_arm_nav_def exact_nav_def dict_values_def
        dict_get_def dval_simps prec_def)
qed

text \<open>
  C23. A run of fills and settlements is accounted for exactly. From a well-formed state it leads to
  a well-formed state of the same arm, whose cash (settled and receivable) is the cash before plus
  what the sells earned less what the buys cost, commissions included; whose positions are the
  positions before plus what was bought less what was sold; and whose sequence number counts the
  fills and the settlements of open receivables: together with the number of open receivables it
  grows by one for a buy and two for a sell. The state reached accepts exactly the fills it can pay
  for or deliver; a buy beyond settled cash and a sell beyond the position are refused by their own
  errors. Amounts are on a common grid within 28 digits.\<close>

theorem arm_run_accounts:
  assumes "arm_run s acts s'" "arm_wf s" "run_on_grid h k s acts"
  shows "arm_wf s' \<and> as_arm_id s' = as_arm_id s \<and> as_initial_nav_usd s' = as_initial_nav_usd s
    \<and> arm_cash s' = arm_cash s + (\<Sum>a\<leftarrow>acts. cash_effect a)
    \<and> (\<forall>x. arm_position s' x = arm_position s x + (\<Sum>a\<leftarrow>acts. position_effect x a))
    \<and> as_sequence s' + int (length (as_unsettled_receivables s'))
      = as_sequence s + int (length (as_unsettled_receivables s)) + (\<Sum>a\<leftarrow>acts. sequence_effect a)
    \<and> (\<forall>f r. validate_fill f = Inr f \<and> pred_option receivable_ok r \<and> fl_arm_id f = as_arm_id s \<longrightarrow>
         ((\<exists>s''. apply_fill s' f r = Inr s'') \<longleftrightarrow> fill_accepted s' f r)
         \<and> (fl_side f = BUY \<and> r = None \<and> as_settled_cash_usd s' < fl_quantity f * fl_price f + fl_commission_usd f
              \<longrightarrow> apply_fill s' f r = Inl (ValueError ''BUY fill exceeds settled cash''))
         \<and> (fl_side f = SELL \<and> dict_get (as_positions s') (fl_symbol f) 0 < fl_quantity f
              \<longrightarrow> apply_fill s' f r = Inl (ValueError ''SELL fill would create a short position'')))"
proof -
  note e = run_effect [OF assms]
  note answer = fill_answer [OF conjunct1 [OF e], unfolded e [THEN conjunct2, THEN conjunct1]]
  show ?thesis
    unfolding conj_assoc [symmetric]
    by (rule conjI, unfold conj_assoc, rule e) (use answer in blast)
qed

lemma ex_arm_run:
  "\<exists>s s'. apply_fill ex_arm (ex_arm_fill SELL) (Some ex_receivable) = Inr s \<and> settle s ''rcv_1'' = Inr s'
     \<and> as_sequence s' = 2 \<and> as_unsettled_receivables s' = []"
proof -
  have "case apply_fill ex_arm (ex_arm_fill SELL) (Some ex_receivable) of Inl _ \<Rightarrow> False
     | Inr s \<Rightarrow> (case settle s ''rcv_1'' of Inl _ \<Rightarrow> False
        | Inr s' \<Rightarrow> as_sequence s' = 2 \<and> as_unsettled_receivables s' = [])"
    by code_simp
  then show ?thesis by (auto split: sum.splits)
qed

theorem arm_run_accounts_witness:
  "\<exists>s'. arm_run ex_arm [Fill_Action (ex_arm_fill SELL) (Some ex_receivable), Settle_Action ''rcv_1''] s'
     \<and> arm_cash s' = 140010 / 100 \<and> arm_position s' ''QQQ'' = 1 \<and> as_sequence s' = 2"
proof -
  let ?acts = "[Fill_Action (ex_arm_fill SELL) (Some ex_receivable), Settle_Action ''rcv_1'']"
  obtain s s' where run: "apply_fill ex_arm (ex_arm_fill SELL) (Some ex_receivable) = Inr s" "settle s ''rcv_1'' = Inr s'"
    "as_sequence s' = 2" "as_unsettled_receivables s' = []" using ex_arm_run by blast
  have "arm_run ex_arm ?acts s'"
    using run ex_arm_facts by (intro run_cons [OF fill_step run_cons [OF settle_step run_nil]]) auto
  moreover have "run_on_grid 0 (- 2) ex_arm ?acts"
    using ex_arm_book(1) ex_arm_book(2) [of SELL]
    by (auto simp: run_on_grid_def on_book_def fill_on_book_def fill_on_grid_def arm_cash_def ex_arm_def ex_arm_fill_def dict_get_def dval_simps prec_def)
  ultimately show ?thesis
    using arm_run_accounts [OF _ ex_arm_facts(1)] run(3)
    by (intro exI [of _ s']) (fastforce simp: arm_cash_def fill_cash_effect_def fill_position_effect_def ex_arm_def ex_arm_fill_def dict_get_def dval_simps)
qed

text \<open>
  On a well-formed state a validated fill is applied exactly when its guards hold: a buy
  when settled cash covers notional and commission, a sell when the position covers the quantity
  and the receivable names the fill, carries its positive net proceeds and has a fresh
  identifier. In every other case an error is raised, and the checks of the new state never fail
  on their own.\<close>

theorem apply_fill_accepts_iff:
  assumes "arm_wf s" "validate_fill f = Inr f" "pred_option receivable_ok r"
  shows "(\<exists>s'. apply_fill s f r = Inr s') \<longleftrightarrow> fill_accepted s f r"
  using apply_fill_exists [OF assms(1,2) _ assms(3)] apply_fill_accepted by blast

theorem apply_fill_accepts_iff_witness:
  "(\<exists>s'. apply_fill ex_arm (ex_arm_fill SELL) (Some ex_receivable) = Inr s')
    \<and> \<not> (\<exists>s'. apply_fill ex_arm (ex_arm_fill SELL) None = Inr s')"
proof -
  have "fill_accepted ex_arm (ex_arm_fill SELL) (Some ex_receivable)" "\<not> fill_accepted ex_arm (ex_arm_fill SELL) None"
    by code_simp+
  then show ?thesis
    using apply_fill_accepts_iff [OF ex_arm_facts(1) ex_arm_facts(2) [of SELL]] ex_arm_facts(3) by simp
qed

text \<open>
  C24. Net asset value is conserved: valued at the traded price, a fill lowers the net asset value
  by exactly its commission, whether it buys or sells, and settling a receivable changes nothing.
  Exactness is over the decimals the code computes, for books on a common grid within 28
  digits.\<close>

theorem arm_nav_conserved:
  assumes "arm_wf s" "on_book h k s prices" "arm_nav s prices = Inr n"
  shows "(settle s rid = Inr s' \<longrightarrow> (\<exists>n'. arm_nav s' prices = Inr n' \<and> dval n' = dval n))
    \<and> (validate_fill f = Inr f \<and> pred_option receivable_ok r \<and> fill_on_book h k s prices f \<and> apply_fill s f r = Inr s'
       \<longrightarrow> (\<exists>n'. arm_nav s' prices = Inr n' \<and> dval n' = dval n - dval (fl_commission_usd f)))"
proof (intro conjI impI)
  assume s': "settle s rid = Inr s'"
  then have "arm_wf s'" using settle_wf [OF assms(1), of rid] by auto
  moreover obtain n' where "arm_nav s' prices = Inr n'"
    using arm_nav_defined [OF assms(3), of s'] settle_positions [OF s'] by auto
  ultimately show "\<exists>n'. arm_nav s' prices = Inr n' \<and> dval n' = dval n"
    using arm_nav_exact [OF assms] arm_nav_exact [OF _ settle_value(2) [OF assms(1,2) s']] settle_value(1) [OF assms(1,2) s']
    by auto
next
  assume f: "validate_fill f = Inr f \<and> pred_option receivable_ok r \<and> fill_on_book h k s prices f \<and> apply_fill s f r = Inr s'"
  then have "arm_wf s'" using step_keeps [OF arm_step.fill_step assms(1)] by blast
  moreover obtain n' where "arm_nav s' prices = Inr n'"
    using arm_nav_defined [OF assms(3), of s'] apply_fill_positions [of s f r s'] f
    by (auto simp: fill_on_book_def dict_has_def)
  ultimately show "\<exists>n'. arm_nav s' prices = Inr n' \<and> dval n' = dval n - dval (fl_commission_usd f)"
    using f arm_nav_exact [OF assms] arm_nav_exact [OF _ apply_fill_value(2) [OF assms(1,2)]]
      apply_fill_value(1) [OF assms(1,2)] by auto
qed


theorem arm_nav_conserved_witness:
  "case apply_fill ex_arm (ex_arm_fill BUY) None of
     Inl _ \<Rightarrow> False
   | Inr s' \<Rightarrow> \<exists>n'. arm_nav s' [(''QQQ'', D 4005 (- 1))] = Inr n' \<and> dval n' = 1801 - 4 / 10"
proof -
  let ?p = "[(''QQQ'', D 4005 (- 1))]"
  have "case apply_fill ex_arm (ex_arm_fill BUY) None of Inl _ \<Rightarrow> False | Inr _ \<Rightarrow> True" by code_simp
  then obtain s' where s': "apply_fill ex_arm (ex_arm_fill BUY) None = Inr s'" by (auto split: sum.splits)
  have n: "arm_nav ex_arm ?p = Inr (Dec False 18010 (- 1))" by code_simp
  from arm_nav_conserved [OF ex_arm_facts(1) ex_arm_book(1) n, of "[]" s' "ex_arm_fill BUY" None]
  have "\<exists>n'. arm_nav s' ?p = Inr n' \<and> dval n' = 1801 - dval (fl_commission_usd (ex_arm_fill BUY))"
    using s' ex_arm_facts(2) [of BUY] ex_arm_book(2) [of BUY] by (simp add: dval_Dec)
  moreover have "dval (fl_commission_usd (ex_arm_fill BUY)) = 4 / 10" by (simp add: ex_arm_fill_def dval_simps)
  ultimately show ?thesis by (simp add: s')
qed

end
