(* ===== verification/Decision.thy ===== *)
theory Decision
  imports Order_State
begin

text \<open>
  Strategy decisions and order intents: the decision records of
  \<^verbatim>\<open>src/trading/domain/q1.py\<close>, the intents and fills of \<^verbatim>\<open>src/trading/domain/q1_runtime.py\<close>
  with their validators, and the first half of \<^verbatim>\<open>src/trading/runtime/q1_planning.py\<close>, which
  builds a decision and its approval identifier. Shown: a decision that is built respects the
  point-in-time contract, and its identity does not depend on which worker builds it.
\<close>

section \<open>Decision records\<close>

record point_in_time_source_reference =
  pr_record_id :: string
  pr_available_at :: instant

record q1_decision_input_manifest = versioned_q1_record +
  dm_calendar_session_id :: string
  dm_source_bars :: "point_in_time_source_reference list"
  dm_quotes :: "point_in_time_source_reference list"
  dm_manifest_hash :: string

definition validate_q1_decision_input_manifest ::
  "q1_decision_input_manifest \<Rightarrow> q1_decision_input_manifest result" where
  "validate_q1_decision_input_manifest m =
     (if \<not> versioned_ok m then Inl (ValidationError ''decision input manifest field constraint'')
      else if has_duplicates (map pr_record_id (dm_source_bars m))
      then Inl (ValidationError ''Decision source bar IDs must be unique'')
      else if has_duplicates (map pr_record_id (dm_quotes m))
      then Inl (ValidationError ''Decision quote IDs must be unique'')
      else Inr m)"

record q1_strategy_decision = versioned_q1_record +
  sd_portfolio_decision_id :: string
  sd_run_id :: string
  sd_arm_id :: q1_arm_id
  sd_source_cycle_id :: string
  sd_input_state_sequence :: int
  sd_decision_kind :: string
  sd_scheduled_at :: instant
  sd_signal_data_cutoff :: instant
  sd_portfolio_state_as_of :: instant
  sd_quote_as_of :: instant
  sd_decision_created_at :: instant
  sd_valid_until :: instant
  sd_input_manifest :: q1_decision_input_manifest
  sd_target_weights :: "(string, decimal) dict"
  sd_diagnostics :: cval
  sd_worker_fence_token :: string
  sd_cycle_attempt_count :: int
  sd_decision_hash :: string

definition same_versions :: "'a versioned_q1_record_scheme \<Rightarrow> 'b versioned_q1_record_scheme \<Rightarrow> bool" where
  "same_versions a b \<longleftrightarrow>
     vr_config_manifest_hash a = vr_config_manifest_hash b \<and> vr_code_version a = vr_code_version b
     \<and> vr_model_version a = vr_model_version b \<and> vr_source_manifest_hash a = vr_source_manifest_hash b"

definition validate_q1_strategy_decision :: "q1_strategy_decision \<Rightarrow> q1_strategy_decision result" where
  "validate_q1_strategy_decision d =
     (if \<not> versioned_ok d \<or> sd_input_state_sequence d < 0 \<or> sd_cycle_attempt_count d < 1
      then Inl (ValidationError ''strategy decision field constraint'')
      else if sd_scheduled_at d < sd_signal_data_cutoff d
      then Inl (ValidationError ''signal_data_cutoff cannot exceed scheduled_at'')
      else if sd_decision_created_at d < sd_portfolio_state_as_of d
      then Inl (ValidationError ''portfolio_state_as_of cannot exceed decision_created_at'')
      else if sd_decision_created_at d < sd_quote_as_of d
      then Inl (ValidationError ''quote_as_of cannot exceed decision_created_at'')
      else if sd_valid_until d \<le> sd_decision_created_at d
      then Inl (ValidationError ''valid_until must be after decision_created_at'')
      else if dm_calendar_session_id (sd_input_manifest d) = []
      then Inl (ValidationError ''Decision input manifest requires a calendar session'')
      else if \<not> same_versions d (sd_input_manifest d)
      then Inl (ValidationError ''Decision and input-manifest versions must match'')
      else if \<exists>b\<in>set (dm_source_bars (sd_input_manifest d)). sd_signal_data_cutoff d < pr_available_at b
      then Inl (ValidationError ''Decision contains a bar unavailable at signal cutoff'')
      else if \<exists>q\<in>set (dm_quotes (sd_input_manifest d)). sd_quote_as_of d < pr_available_at q
      then Inl (ValidationError ''Decision contains a quote unavailable at quote_as_of'')
      else if \<exists>w\<in>set (dict_values (sd_target_weights d)). w < 0
      then Inl (ValidationError ''Q1 target weights must be long-only'')
      else if D 1 (- 10) < d_abs (dsum (dict_values (sd_target_weights d)) - 1)
      then Inl (ValidationError ''Q1 target weights must sum to one including USD_CASH'')
      else Inr d)"

section \<open>Intents and fills\<close>

record q1_order_intent = versioned_q1_record +
  oi_order_intent_id :: string
  oi_run_id :: string
  oi_arm_id :: q1_arm_id
  oi_portfolio_decision_id :: string
  oi_risk_decision_id :: string
  oi_source_cycle_id :: string
  oi_input_state_sequence :: int
  oi_symbol :: string
  oi_side :: order_side
  oi_order_class :: string
  oi_quantity :: decimal
  oi_decision_quote_id :: string
  oi_decision_reference_price :: decimal
  oi_decision_spread_bps :: decimal
  oi_created_at :: instant
  oi_valid_until :: instant
  oi_idempotency_key :: string
  oi_intent_hash :: string

text \<open>The pattern \<^verbatim>\<open>^[A-Z][A-Z0-9.-]{0,29}$\<close>.\<close>

definition intent_symbol_ok :: "string \<Rightarrow> bool" where
  "intent_symbol_ok s \<longleftrightarrow>
     (case s of
        [] \<Rightarrow> False
      | c # cs \<Rightarrow> is_upper c \<and> length cs \<le> 29
          \<and> list_all (\<lambda>c. is_upper c \<or> is_digit c \<or> c \<in> set ''.-'') cs)"

definition SELL_ONLY_CLASSES :: "string list" where
  "SELL_ONLY_CLASSES = [''EMERGENCY_REDUCTION'', ''LLM_REDUCTION'', ''LIVE_MIRROR_TRANSITION'']"

definition validate_q1_order_intent :: "q1_order_intent \<Rightarrow> q1_order_intent result" where
  "validate_q1_order_intent i =
     (if oi_input_state_sequence i < 0 \<or> \<not> intent_symbol_ok (oi_symbol i) \<or> oi_quantity i \<le> 0
         \<or> oi_decision_reference_price i \<le> 0 \<or> oi_decision_spread_bps i < 0
      then Inl (ValidationError ''order intent field constraint'')
      else if oi_valid_until i \<le> oi_created_at i
      then Inl (ValidationError ''Q1 order must have a positive validity window'')
      else if oi_order_class i \<in> set SELL_ONLY_CLASSES \<and> oi_side i \<noteq> SELL
      then Inl (ValidationError ''orders must be sell-only'')
      else Inr i)"

record q1_fill = versioned_q1_record +
  qf_fill_id :: string
  qf_order_intent_id :: string
  qf_run_id :: string
  qf_arm_id :: q1_arm_id
  qf_source_cycle_id :: string
  qf_quote_id :: string
  qf_quote_event_time :: instant
  qf_quote_available_at :: instant
  qf_symbol :: string
  qf_side :: order_side
  qf_quantity :: decimal
  qf_price :: decimal
  qf_commission_usd :: decimal
  qf_cumulative_order_commission_usd :: decimal
  qf_execution_scenario_id :: string
  qf_base_fill_cost_usd :: decimal
  qf_sensitivity_5bp_cost_usd :: decimal
  qf_sensitivity_10bp_cost_usd :: decimal
  qf_effective_at :: instant
  qf_created_at :: instant
  qf_fill_hash :: string

definition validate_q1_fill :: "q1_fill \<Rightarrow> q1_fill result" where
  "validate_q1_fill f =
     (if qf_quantity f \<le> 0 \<or> qf_price f \<le> 0 \<or> qf_commission_usd f < 0
         \<or> qf_cumulative_order_commission_usd f < 0 \<or> qf_base_fill_cost_usd f < 0
         \<or> qf_sensitivity_5bp_cost_usd f < 0 \<or> qf_sensitivity_10bp_cost_usd f < 0
      then Inl (ValidationError ''fill field constraint'')
      else if qf_effective_at f < qf_quote_available_at f
      then Inl (ValidationError ''Fill cannot precede quote availability'')
      else if qf_created_at f < qf_effective_at f
      then Inl (ValidationError ''Fill creation cannot predate effective time'')
      else Inr f)"

section \<open>Order classes as text\<close>

fun side_value :: "order_side \<Rightarrow> string" where
  "side_value BUY = ''BUY''"
| "side_value SELL = ''SELL''"

fun order_class_value :: "q1_order_class \<Rightarrow> string" where
  "order_class_value NORMAL_ORDER = ''NORMAL''"
| "order_class_value EMERGENCY_REDUCTION = ''EMERGENCY_REDUCTION''"
| "order_class_value LLM_REDUCTION = ''LLM_REDUCTION''"
| "order_class_value LIVE_MIRROR_TRANSITION = ''LIVE_MIRROR_TRANSITION''"

text \<open>Calling an enumeration with a text that names no member raises.\<close>

definition parse_side :: "string \<Rightarrow> order_side result" where
  "parse_side s =
     (if s = ''BUY'' then Inr BUY else if s = ''SELL'' then Inr SELL
      else Inl (ValueError (s @ '' is not a valid OrderSide'')))"

definition parse_order_class :: "string \<Rightarrow> q1_order_class result" where
  "parse_order_class s =
     (case find (\<lambda>c. order_class_value c = s)
         [NORMAL_ORDER, EMERGENCY_REDUCTION, LLM_REDUCTION, LIVE_MIRROR_TRANSITION] of
        None \<Rightarrow> Inl (ValueError (s @ '' is not a valid Q1OrderClass''))
      | Some c \<Rightarrow> Inr c)"

section \<open>Building a decision\<close>

text \<open>The keyword arguments of \<^verbatim>\<open>build_portfolio_decision\<close>.\<close>

record decision_request =
  dr_run_id :: string
  dr_arm_id :: q1_arm_id
  dr_source_cycle_id :: string
  dr_input_state_sequence :: int
  dr_decision_kind :: string
  dr_scheduled_at :: datetime
  dr_signal_data_cutoff :: datetime
  dr_portfolio_state_as_of :: datetime
  dr_quote_as_of :: datetime
  dr_decision_created_at :: datetime
  dr_valid_until :: datetime
  dr_current_weights :: "(string, decimal) dict"
  dr_deterministic_target_weights :: "(string, decimal) dict"
  dr_final_target_weights :: "(string, decimal) dict"
  dr_expected_annualized_volatility :: decimal
  dr_expected_one_way_turnover :: decimal
  dr_used_daily_turnover_before :: decimal
  dr_signal_hash :: "string option"
  dr_allocation_hash :: "string option"
  dr_llm_overlay_state :: string
  dr_llm_policy_id :: "string option"
  dr_diagnostics :: "(string, pyval) dict"
  dr_input_manifest :: q1_decision_input_manifest
  dr_worker_fence_token :: string
  dr_cycle_attempt_count :: int

definition weights_value :: "(string, decimal) dict \<Rightarrow> pyval" where
  "weights_value ws = VDict (map (\<lambda>(s, w). (s, VDec w)) ws)"

definition complete_diagnostics :: "decision_request \<Rightarrow> (string, pyval) dict" where
  "complete_diagnostics r =
     fold (\<lambda>(k, v). AList.update k v)
       [(''current_weights'', weights_value (dr_current_weights r)),
        (''deterministic_target_weights'', weights_value (dr_deterministic_target_weights r)),
        (''final_target_weights'', weights_value (dr_final_target_weights r)),
        (''expected_annualized_volatility'', VDec (dr_expected_annualized_volatility r)),
        (''expected_one_way_turnover'', VDec (dr_expected_one_way_turnover r)),
        (''used_daily_turnover_before'', VDec (dr_used_daily_turnover_before r)),
        (''signal_hash'', vopt VStr (dr_signal_hash r)),
        (''allocation_hash'', vopt VStr (dr_allocation_hash r)),
        (''llm_overlay_state'', VStr (dr_llm_overlay_state r)),
        (''llm_policy_id'', vopt VStr (dr_llm_policy_id r))] (dr_diagnostics r)"

definition reference_value :: "point_in_time_source_reference \<Rightarrow> pyval" where
  "reference_value r = VDict [(''record_id'', VStr (pr_record_id r)), (''available_at'', VTime (pr_available_at r))]"

definition manifest_value :: "q1_decision_input_manifest \<Rightarrow> pyval" where
  "manifest_value m =
     VDict [(''algorithm_version'', VStr (vr_algorithm_version m)),
            (''config_manifest_hash'', VStr (vr_config_manifest_hash m)),
            (''code_version'', VStr (vr_code_version m)), (''model_version'', VStr (vr_model_version m)),
            (''source_manifest_hash'', VStr (vr_source_manifest_hash m)),
            (''calendar_session_id'', VStr (dm_calendar_session_id m)),
            (''source_bars'', VList (map reference_value (dm_source_bars m))),
            (''quotes'', VList (map reference_value (dm_quotes m))),
            (''manifest_hash'', VStr (dm_manifest_hash m))]"

text \<open>The six timestamps; hashing a naive one raises.\<close>

record decision_times =
  dt_scheduled_at :: instant
  dt_signal_data_cutoff :: instant
  dt_portfolio_state_as_of :: instant
  dt_quote_as_of :: instant
  dt_decision_created_at :: instant
  dt_valid_until :: instant

definition decision_times_of :: "decision_request \<Rightarrow> decision_times result" where
  "decision_times_of r =
     rbind (canonical_time (dr_scheduled_at r)) (\<lambda>a.
     rbind (canonical_time (dr_signal_data_cutoff r)) (\<lambda>b.
     rbind (canonical_time (dr_portfolio_state_as_of r)) (\<lambda>c.
     rbind (canonical_time (dr_quote_as_of r)) (\<lambda>d.
     rbind (canonical_time (dr_decision_created_at r)) (\<lambda>e.
     rbind (canonical_time (dr_valid_until r)) (\<lambda>f.
       Inr \<lparr>dt_scheduled_at = a, dt_signal_data_cutoff = b, dt_portfolio_state_as_of = c,
            dt_quote_as_of = d, dt_decision_created_at = e, dt_valid_until = f\<rparr>))))))"

definition decision_content :: "decision_request \<Rightarrow> decision_times \<Rightarrow> pyval" where
  "decision_content r t =
     VDict [(''run_id'', VStr (dr_run_id r)), (''arm_id'', VStr (arm_value (dr_arm_id r))),
            (''algorithm_version'', VStr Q1_ALGORITHM_VERSION),
            (''source_cycle_id'', VStr (dr_source_cycle_id r)),
            (''input_state_sequence'', VInt (dr_input_state_sequence r)),
            (''decision_kind'', VStr (dr_decision_kind r)), (''scheduled_at'', VTime (dt_scheduled_at t)),
            (''signal_data_cutoff'', VTime (dt_signal_data_cutoff t)),
            (''portfolio_state_as_of'', VTime (dt_portfolio_state_as_of t)),
            (''quote_as_of'', VTime (dt_quote_as_of t)),
            (''decision_created_at'', VTime (dt_decision_created_at t)),
            (''valid_until'', VTime (dt_valid_until t)),
            (''target_weights'', weights_value (dr_final_target_weights r)),
            (''diagnostics'', VDict (complete_diagnostics r)),
            (''input_manifest'', manifest_value (dr_input_manifest r))]"

definition build_portfolio_decision :: "digest \<Rightarrow> decision_request \<Rightarrow> q1_strategy_decision result" where
  "build_portfolio_decision H r =
     rbind (decision_times_of r) (\<lambda>t.
       let decision_hash = canonical_hash H (decision_content r t); m = dr_input_manifest r in
       validate_q1_strategy_decision
         \<lparr>vr_algorithm_version = Q1_ALGORITHM_VERSION, vr_config_manifest_hash = vr_config_manifest_hash m,
          vr_code_version = vr_code_version m, vr_model_version = vr_model_version m,
          vr_source_manifest_hash = vr_source_manifest_hash m,
          sd_portfolio_decision_id = stable_id H ''q1-portfolio-decision''
            [VStr (dr_run_id r), VStr (arm_value (dr_arm_id r)), VTime (dt_scheduled_at t), VStr decision_hash],
          sd_run_id = dr_run_id r, sd_arm_id = dr_arm_id r, sd_source_cycle_id = dr_source_cycle_id r,
          sd_input_state_sequence = dr_input_state_sequence r, sd_decision_kind = dr_decision_kind r,
          sd_scheduled_at = dt_scheduled_at t, sd_signal_data_cutoff = dt_signal_data_cutoff t,
          sd_portfolio_state_as_of = dt_portfolio_state_as_of t, sd_quote_as_of = dt_quote_as_of t,
          sd_decision_created_at = dt_decision_created_at t, sd_valid_until = dt_valid_until t,
          sd_input_manifest = m, sd_target_weights = dr_final_target_weights r,
          sd_diagnostics = canonical_data (VDict (complete_diagnostics r)),
          sd_worker_fence_token = dr_worker_fence_token r, sd_cycle_attempt_count = dr_cycle_attempt_count r,
          sd_decision_hash = decision_hash\<rparr>)"

definition risk_approval_id :: "digest \<Rightarrow> q1_strategy_decision \<Rightarrow> string" where
  "risk_approval_id H d =
     stable_id H ''q1-risk-approval'' [VStr (sd_portfolio_decision_id d), weights_value (sd_target_weights d)]"

section \<open>Facts\<close>

lemma validate_q1_order_intent_Inr:
  "validate_q1_order_intent i = Inr i' \<Longrightarrow>
     i' = i \<and> 0 < dval (oi_quantity i) \<and> oi_created_at i < oi_valid_until i
     \<and> (oi_order_class i \<in> set SELL_ONLY_CLASSES \<longrightarrow> oi_side i = SELL)"
  by (auto simp: validate_q1_order_intent_def dval_simps split: if_splits)

lemma validate_q1_strategy_decision_Inr: "validate_q1_strategy_decision d = Inr d' \<Longrightarrow> d' = d"
  by (simp add: validate_q1_strategy_decision_def split: if_splits)

lemma parse_order_class_value [simp]: "parse_order_class (order_class_value c) = Inr c"
  by (cases c) (simp_all add: parse_order_class_def)

lemma parse_side_Inr [result_simps]: "parse_side s = Inr v \<longleftrightarrow> s = side_value v"
  by (cases v) (auto simp: parse_side_def)

text \<open>
  A reclaimed cycle builds the same decision: fence token and attempt count enter neither the
  hash nor any identifier, nor do they decide whether the decision is valid.
\<close>

lemma build_portfolio_decision_retry:
  assumes "build_portfolio_decision H r = Inr d" "1 \<le> n"
  shows "build_portfolio_decision H (r\<lparr>dr_worker_fence_token := w, dr_cycle_attempt_count := n\<rparr>)
    = Inr (d\<lparr>sd_worker_fence_token := w, sd_cycle_attempt_count := n\<rparr>)"
proof -
  let ?r = "r\<lparr>dr_worker_fence_token := w, dr_cycle_attempt_count := n\<rparr>"
  have eq: "decision_times_of ?r = decision_times_of r" "decision_content ?r t = decision_content r t"
    "complete_diagnostics ?r = complete_diagnostics r" for t
    by (simp_all add: decision_times_of_def decision_content_def complete_diagnostics_def)
  have v: "validate_q1_strategy_decision (x\<lparr>sd_worker_fence_token := w, sd_cycle_attempt_count := n\<rparr>)
      = Inr (x\<lparr>sd_worker_fence_token := w, sd_cycle_attempt_count := n\<rparr>)"
    if "validate_q1_strategy_decision x = Inr x'" for x x' :: q1_strategy_decision
    using that assms(2)
    by (auto simp: validate_q1_strategy_decision_def versioned_ok_def same_versions_def split: if_splits)
  obtain t where t: "decision_times_of r = Inr t" using assms(1) by (auto simp: build_portfolio_decision_def rbind_eq_Inr)
  note b = assms(1) [unfolded build_portfolio_decision_def t rbind_simps Let_def]
  show ?thesis
    using v [OF b] validate_q1_strategy_decision_Inr [OF b]
    by (simp add: build_portfolio_decision_def eq t Let_def)
qed

end
