(* ===== verification/Planning.thy ===== *)
theory Planning
  imports Decision Turnover
begin

text \<open>
  Order planning, the second half of \<^verbatim>\<open>src/trading/runtime/q1_planning.py\<close>: turning the
  trades of a turnover result, or a set of target quantities, into order intents. Shown: the
  buys of a plan together cost no more than the settled cash, sells never exceed the position,
  the target planner only sells and stops within one increment of its target; and a plan whose
  trades were all dropped below the minimum notional cannot be built, because the hash of its
  diagnostics is not defined.
\<close>

section \<open>Quotes and configuration\<close>

record decision_quote =
  dq_symbol :: string
  dq_quote_id :: string
  dq_bid :: decimal
  dq_ask :: decimal
  dq_available_at :: datetime

definition validate_decision_quote :: "decision_quote \<Rightarrow> decision_quote result" where
  "validate_decision_quote q =
     rbind (require_aware_utc ''datetime'' (dq_available_at q)) (\<lambda>_.
       if dq_symbol q = [] \<or> dq_quote_id q = []
       then Inl (Q1PlanningError ''Decision quote identity is required'')
       else if dq_bid q \<le> 0 \<or> dq_ask q \<le> 0 \<or> dq_ask q < dq_bid q
       then Inl (Q1PlanningError ''Decision quote is not executable'')
       else Inr q)"

definition midpoint :: "decision_quote \<Rightarrow> decimal" where
  "midpoint q = d_div (dq_bid q + dq_ask q) (D 2 0)"

definition spread_bps :: "decision_quote \<Rightarrow> decimal result" where
  "spread_bps q = rbind (dec_div (dq_ask q - dq_bid q) (midpoint q)) (\<lambda>x. Inr (x * D 10000 0))"

record order_planning_config =
  oc_quantity_increment :: decimal
  oc_commission_rate :: decimal
  oc_commission_waiver_notional_usd :: decimal
  oc_delay_penalty_bps :: decimal
  oc_commission_precision :: decimal

definition validate_order_planning_config :: "order_planning_config \<Rightarrow> order_planning_config result" where
  "validate_order_planning_config c =
     (if oc_quantity_increment c \<le> 0 then Inl (Q1PlanningError ''Quantity increment must be positive'')
      else if oc_commission_rate c < 0 \<or> oc_commission_waiver_notional_usd c < 0
              \<or> oc_delay_penalty_bps c < 0 \<or> oc_commission_precision c \<le> 0
      then Inl (Q1PlanningError ''Planning cost parameters must be non-negative with positive precision'')
      else Inr c)"

record planned_orders =
  po_intents :: "q1_order_intent list"
  po_omitted :: "(string, string) dict list"
  po_intent_manifest_hash :: string

section \<open>Intents\<close>

text \<open>What the two planners share: the identity fields, the hash over them and the intent.\<close>

record intent_context =
  ic_source_cycle_id :: string
  ic_input_state_sequence :: int
  ic_risk_decision_id :: string
  ic_created_at :: instant
  ic_valid_until :: instant

definition intent_identity ::
  "q1_strategy_decision \<Rightarrow> intent_context \<Rightarrow> string \<Rightarrow> order_side \<Rightarrow> decimal \<Rightarrow> decision_quote \<Rightarrow> (string, pyval) dict" where
  "intent_identity d c symbol side quantity quote =
     [(''run_id'', VStr (sd_run_id d)), (''arm_id'', VStr (arm_value (sd_arm_id d))),
      (''portfolio_decision_id'', VStr (sd_portfolio_decision_id d)),
      (''source_cycle_id'', VStr (ic_source_cycle_id c)), (''symbol'', VStr symbol),
      (''side'', VStr (side_value side)), (''quantity'', VDec quantity),
      (''decision_quote_id'', VStr (dq_quote_id quote)), (''created_at'', VTime (ic_created_at c)),
      (''valid_until'', VTime (ic_valid_until c))]"

definition intent_hash_of ::
  "digest \<Rightarrow> (string, pyval) dict \<Rightarrow> intent_context \<Rightarrow> decimal \<Rightarrow> decimal \<Rightarrow> 'a versioned_q1_record_scheme \<Rightarrow> string" where
  "intent_hash_of H ident c reference_price spread v =
     canonical_hash H (VDict (ident @
       [(''risk_decision_id'', VStr (ic_risk_decision_id c)), (''decision_reference_price'', VDec reference_price),
        (''decision_spread_bps'', VDec spread), (''input_state_sequence'', VInt (ic_input_state_sequence c)),
        (''config_manifest_hash'', VStr (vr_config_manifest_hash v)), (''code_version'', VStr (vr_code_version v)),
        (''model_version'', VStr (vr_model_version v)), (''source_manifest_hash'', VStr (vr_source_manifest_hash v))]))"

definition make_intent ::
  "digest \<Rightarrow> q1_strategy_decision \<Rightarrow> intent_context \<Rightarrow> string \<Rightarrow> 'a versioned_q1_record_scheme \<Rightarrow> (string, pyval) dict
    \<Rightarrow> string \<Rightarrow> order_side \<Rightarrow> string \<Rightarrow> decimal \<Rightarrow> decision_quote \<Rightarrow> q1_order_intent result" where
  "make_intent H d c algorithm v ident symbol side cls quantity quote =
     rbind (spread_bps quote) (\<lambda>spread.
       let h = intent_hash_of H ident c (midpoint quote) spread v in
       validate_q1_order_intent
         \<lparr>vr_algorithm_version = algorithm, vr_config_manifest_hash = vr_config_manifest_hash v,
          vr_code_version = vr_code_version v, vr_model_version = vr_model_version v,
          vr_source_manifest_hash = vr_source_manifest_hash v,
          oi_order_intent_id = stable_id H ''q1-order-intent'' [VStr h], oi_run_id = sd_run_id d,
          oi_arm_id = sd_arm_id d, oi_portfolio_decision_id = sd_portfolio_decision_id d,
          oi_risk_decision_id = ic_risk_decision_id c, oi_source_cycle_id = ic_source_cycle_id c,
          oi_input_state_sequence = ic_input_state_sequence c, oi_symbol = symbol, oi_side = side,
          oi_order_class = cls, oi_quantity = quantity, oi_decision_quote_id = dq_quote_id quote,
          oi_decision_reference_price = midpoint quote, oi_decision_spread_bps = spread,
          oi_created_at = ic_created_at c, oi_valid_until = ic_valid_until c,
          oi_idempotency_key = stable_id H ''q1-order-intent-idem'' [VStr h], oi_intent_hash = h\<rparr>)"

definition intent_value :: "q1_order_intent \<Rightarrow> pyval" where
  "intent_value i =
     VDict [(''order_intent_id'', VStr (oi_order_intent_id i)), (''run_id'', VStr (oi_run_id i)),
            (''arm_id'', VStr (arm_value (oi_arm_id i))),
            (''portfolio_decision_id'', VStr (oi_portfolio_decision_id i)),
            (''risk_decision_id'', VStr (oi_risk_decision_id i)), (''source_cycle_id'', VStr (oi_source_cycle_id i)),
            (''input_state_sequence'', VInt (oi_input_state_sequence i)), (''symbol'', VStr (oi_symbol i)),
            (''side'', VStr (side_value (oi_side i))), (''order_class'', VStr (oi_order_class i)),
            (''quantity'', VDec (oi_quantity i)), (''decision_quote_id'', VStr (oi_decision_quote_id i)),
            (''decision_reference_price'', VDec (oi_decision_reference_price i)),
            (''decision_spread_bps'', VDec (oi_decision_spread_bps i)), (''created_at'', VTime (oi_created_at i)),
            (''valid_until'', VTime (oi_valid_until i)), (''idempotency_key'', VStr (oi_idempotency_key i)),
            (''algorithm_version'', VStr (vr_algorithm_version i)),
            (''config_manifest_hash'', VStr (vr_config_manifest_hash i)), (''code_version'', VStr (vr_code_version i)),
            (''model_version'', VStr (vr_model_version i)), (''source_manifest_hash'', VStr (vr_source_manifest_hash i)),
            (''intent_hash'', VStr (oi_intent_hash i))]"

definition plan_manifest_hash ::
  "digest \<Rightarrow> q1_strategy_decision \<Rightarrow> q1_order_intent list \<Rightarrow> (string, string) dict list \<Rightarrow> string" where
  "plan_manifest_hash H d intents omitted =
     canonical_hash H (VDict
       [(''decision_id'', VStr (sd_portfolio_decision_id d)), (''intents'', VList (map intent_value intents)),
        (''omitted'', VList (map (\<lambda>x. VDict (map (\<lambda>(k, v). (k, VStr v)) x)) omitted))])"

section \<open>Normal orders\<close>

definition omitted_entry :: "string \<Rightarrow> string \<Rightarrow> string \<Rightarrow> decimal \<Rightarrow> (string, string) dict" where
  "omitted_entry symbol side reason notional =
     [(''symbol'', symbol), (''side'', side), (''reason'', reason), (''proposed_notional_usd'', str_decimal notional)]"

definition omitted_diagnostic :: "omitted_order_diagnostic \<Rightarrow> (string, string) dict" where
  "omitted_diagnostic o' = omitted_entry (oo_symbol o') (oo_side o') (oo_reason o') (oo_proposed_notional_usd o')"

text \<open>
  On the path without orders the code hashes the diagnostics themselves, which are instances of a
  dataclass.
\<close>

definition diagnostic_object :: "omitted_order_diagnostic \<Rightarrow> pyobj" where
  "diagnostic_object o' = OInstance ''OmittedOrderDiagnostic''
     [(''symbol'', OStr (oo_symbol o')), (''side'', OStr (oo_side o')),
      (''proposed_notional_usd'', ODec (oo_proposed_notional_usd o')),
      (''minimum_notional_usd'', ODec (oo_minimum_notional_usd o')), (''reason'', OStr (oo_reason o'))]"

definition hash_diagnostics :: "digest \<Rightarrow> q1_strategy_decision \<Rightarrow> omitted_order_diagnostic list \<Rightarrow> string result" where
  "hash_diagnostics H d diagnostics =
     canonical_object_hash H (OMap
       [(''decision_id'', OStr (sd_portfolio_decision_id d)), (''intents'', OSeq []),
        (''omitted'', OSeq (map diagnostic_object diagnostics))])"

definition affordable_quantity :: "order_planning_config \<Rightarrow> decision_quote \<Rightarrow> decimal \<Rightarrow> decimal result" where
  "affordable_quantity config quote remaining_settled =
     (let delayed_ask = dq_ask quote * (1 + d_div (oc_delay_penalty_bps config) (D 10000 0));
          conservative_unit_cost = delayed_ask * (1 + oc_commission_rate config);
          available_cash = py_max 0 (remaining_settled - oc_commission_precision config) in
      rbind (dec_div available_cash conservative_unit_cost)
        (quantize ROUND_DOWN (oc_quantity_increment config)))"

definition trade_quantity ::
  "order_planning_config \<Rightarrow> (string, decimal) dict \<Rightarrow> decision_quote \<Rightarrow> decimal \<Rightarrow> proposed_trade \<Rightarrow> decimal result" where
  "trade_quantity config positions quote remaining_settled trade =
     rbind (dec_div (pt_notional_usd trade) (midpoint quote)) (\<lambda>x.
     rbind (quantize ROUND_DOWN (oc_quantity_increment config) x) (\<lambda>quantity.
       if pt_side trade = ''SELL''
       then quantize ROUND_DOWN (oc_quantity_increment config)
              (py_min quantity (dict_get positions (pt_symbol trade) 0))
       else rbind (affordable_quantity config quote remaining_settled) (\<lambda>affordable.
              Inr (py_min quantity affordable))))"

definition estimated_cost :: "order_planning_config \<Rightarrow> decision_quote \<Rightarrow> decimal \<Rightarrow> decimal" where
  "estimated_cost config quote quantity =
     (let estimated_notional = quantity * dq_ask quote;
          estimated_commission =
            (if estimated_notional \<le> oc_commission_waiver_notional_usd config then 0
             else estimated_notional * oc_commission_rate config) in
      estimated_notional + estimated_commission)"

type_synonym plan_state = "decimal \<times> q1_order_intent list \<times> (string, string) dict list"

definition plan_step ::
  "digest \<Rightarrow> q1_strategy_decision \<Rightarrow> intent_context \<Rightarrow> (string, decimal) dict \<Rightarrow> (string, decision_quote) dict
    \<Rightarrow> order_planning_config \<Rightarrow> proposed_trade \<Rightarrow> plan_state \<Rightarrow> plan_state result" where
  "plan_step H d c positions quotes config trade st =
     (case st of (remaining_settled, intents, omitted) \<Rightarrow>
       (case map_of quotes (pt_symbol trade) of
          None \<Rightarrow> Inl (Q1PlanningError (''Missing decision quote for '' @ pt_symbol trade))
        | Some quote \<Rightarrow>
            rbind (trade_quantity config positions quote remaining_settled trade) (\<lambda>quantity.
              if quantity \<le> 0
              then Inr (remaining_settled, intents, omitted @
                     [omitted_entry (pt_symbol trade) (pt_side trade)
                        (if pt_side trade = ''BUY'' then ''INSUFFICIENT_SETTLED_CASH'' else ''NO_SELLABLE_QUANTITY'')
                        (pt_notional_usd trade)])
              else
                rbind (parse_side (pt_side trade)) (\<lambda>side.
                rbind (make_intent H d c Q1_ALGORITHM_VERSION (sd_input_manifest d)
                         (intent_identity d c (pt_symbol trade) side quantity quote)
                         (pt_symbol trade) side (order_class_value NORMAL_ORDER) quantity quote) (\<lambda>intent.
                  Inr (if side = BUY then remaining_settled - estimated_cost config quote quantity else remaining_settled,
                       intents @ [intent], omitted))))))"

definition trade_key :: "proposed_trade \<Rightarrow> bool \<times> string" where
  "trade_key t = (pt_side t \<noteq> ''SELL'', pt_symbol t)"

definition starts_with :: "string \<Rightarrow> string \<Rightarrow> bool" where
  "starts_with p s \<longleftrightarrow> take (length p) s = p"

definition plan_normal_orders ::
  "digest \<Rightarrow> q1_strategy_decision \<Rightarrow> turnover_result \<Rightarrow> (string, decimal) dict \<Rightarrow> decimal
    \<Rightarrow> (string, decision_quote) dict \<Rightarrow> string \<Rightarrow> int \<Rightarrow> datetime \<Rightarrow> order_planning_config \<Rightarrow> planned_orders result" where
  "plan_normal_orders H d turnover positions settled_cash_usd quotes source_cycle_id input_state_sequence
     valid_until config =
     rbind (require_aware_utc ''datetime'' valid_until) (\<lambda>expiry.
       if expiry \<noteq> sd_valid_until d then Inl (Q1PlanningError ''Order expiry must match decision valid_until'')
       else if settled_cash_usd < 0 then Inl (Q1PlanningError ''Settled cash cannot be negative'')
       else if starts_with ''NO_'' (tv_decision_kind turnover)
       then rbind (hash_diagnostics H d (tv_omitted_orders turnover)) (\<lambda>h.
              Inr \<lparr>po_intents = [], po_omitted = map omitted_diagnostic (tv_omitted_orders turnover),
                   po_intent_manifest_hash = h\<rparr>)
       else
         let c = \<lparr>ic_source_cycle_id = source_cycle_id, ic_input_state_sequence = input_state_sequence,
                  ic_risk_decision_id = risk_approval_id H d, ic_created_at = sd_decision_created_at d,
                  ic_valid_until = expiry\<rparr> in
         rbind (rfold (plan_step H d c positions quotes config) (sort_key trade_key (tv_proposed_trades turnover))
                  (settled_cash_usd, [], map omitted_diagnostic (tv_omitted_orders turnover)))
           (\<lambda>(remaining, intents, omitted).
              Inr \<lparr>po_intents = intents, po_omitted = omitted,
                   po_intent_manifest_hash = plan_manifest_hash H d intents omitted\<rparr>))"

section \<open>Sells to a target quantity\<close>

definition target_step ::
  "digest \<Rightarrow> q1_strategy_decision \<Rightarrow> intent_context \<Rightarrow> (string, decimal) dict \<Rightarrow> (string, decision_quote) dict
    \<Rightarrow> q1_order_class \<Rightarrow> order_planning_config \<Rightarrow> string \<times> decimal \<Rightarrow> q1_order_intent list
    \<Rightarrow> q1_order_intent list result" where
  "target_step H d c current_positions quotes cls config p intents =
     (case p of (symbol, target) \<Rightarrow>
        let current = dict_get current_positions symbol 0 in
        if target < 0 \<or> current < target
        then Inl (Q1PlanningError ''Sell target must be within current position'')
        else
          rbind (quantize ROUND_DOWN (oc_quantity_increment config) (current - target)) (\<lambda>quantity.
            if quantity \<le> 0 then Inr intents
            else
              case map_of quotes symbol of
                None \<Rightarrow> Inl (Q1PlanningError (''Missing residual-target quote for '' @ symbol))
              | Some quote \<Rightarrow>
                  rbind (make_intent H d c (vr_algorithm_version d) d
                           (intent_identity d c symbol SELL quantity quote
                              @ [(''target_quantity'', VDec target), (''order_class'', VStr (order_class_value cls))])
                           symbol SELL (order_class_value cls) quantity quote)
                    (\<lambda>intent. Inr (intents @ [intent]))))"

definition plan_target_quantity_sell_orders ::
  "digest \<Rightarrow> q1_strategy_decision \<Rightarrow> (string, decimal) dict \<Rightarrow> (string, decimal) dict
    \<Rightarrow> (string, decision_quote) dict \<Rightarrow> string \<Rightarrow> int \<Rightarrow> q1_order_class \<Rightarrow> order_planning_config \<Rightarrow> planned_orders result" where
  "plan_target_quantity_sell_orders H d current_positions target_quantities quotes source_cycle_id
     input_state_sequence cls config =
     (if cls \<notin> {EMERGENCY_REDUCTION, LLM_REDUCTION, LIVE_MIRROR_TRANSITION}
      then Inl (Q1PlanningError ''Target-quantity planner is sell-only'')
      else
        let c = \<lparr>ic_source_cycle_id = source_cycle_id, ic_input_state_sequence = input_state_sequence,
                 ic_risk_decision_id = risk_approval_id H d, ic_created_at = sd_decision_created_at d,
                 ic_valid_until = sd_valid_until d\<rparr> in
        rbind (rfold (target_step H d c current_positions quotes cls config)
                 (sorted_items target_quantities) [])
          (\<lambda>intents.
             Inr \<lparr>po_intents = intents, po_omitted = [],
                  po_intent_manifest_hash = plan_manifest_hash H d intents []\<rparr>))"

section \<open>Quantities and costs\<close>

lemma validate_decision_quote_Inr:
  "validate_decision_quote q = Inr q' \<Longrightarrow> 0 < dval (dq_bid q) \<and> 0 < dval (dq_ask q) \<and> dval (dq_bid q) \<le> dval (dq_ask q)"
  by (auto simp: validate_decision_quote_def rbind_eq_Inr dval_simps split: if_splits)

lemma validate_order_planning_config_Inr:
  "validate_order_planning_config c = Inr c' \<Longrightarrow>
     0 < dval (oc_quantity_increment c) \<and> 0 \<le> dval (oc_commission_rate c)
     \<and> 0 \<le> dval (oc_delay_penalty_bps c) \<and> 0 < dval (oc_commission_precision c)"
  by (auto simp: validate_order_planning_config_def dval_simps split: if_splits)

lemma make_intent_Inr:
  assumes "make_intent H d c algorithm v ident symbol side cls quantity quote = Inr i"
  shows "oi_symbol i = symbol" "oi_side i = side" "oi_quantity i = quantity" "oi_order_class i = cls"
    "0 < dval (oi_quantity i)"
  using assms by (auto simp: make_intent_def rbind_eq_Inr Let_def dest!: validate_q1_order_intent_Inr)

lemma midpoint_pos:
  assumes "validate_decision_quote q = Inr q"
  shows "0 < dval (midpoint q)"
  using validate_decision_quote_Inr [OF assms]
  by (auto simp: midpoint_def dval_d_div dval_D dval_plus intro!: ctx_pos)

lemma make_intent_exists:
  assumes "validate_decision_quote quote = Inr quote" "intent_symbol_ok symbol" "0 < quantity" "0 \<le> ic_input_state_sequence c"
    and "ic_created_at c < ic_valid_until c" "cls \<in> set SELL_ONLY_CLASSES \<Longrightarrow> side = SELL"
  shows "\<exists>i. make_intent H d c algorithm v ident symbol side cls quantity quote = Inr i"
proof -
  have "0 \<le> dval (d_div (dq_ask quote - dq_bid quote) (midpoint quote) * D 10000 0)"
    using validate_decision_quote_Inr [OF assms(1)] midpoint_pos [OF assms(1)]
    by (auto simp: dval_times dval_D dval_d_div dval_minus intro!: ctx_nonneg mult_nonneg_nonneg divide_nonneg_pos)
  then show ?thesis
    using midpoint_pos [OF assms(1)] assms(2-)
    by (auto simp: make_intent_def spread_bps_def rbind_eq_Inr dec_div_Inr Let_def validate_q1_order_intent_def dval_simps)
qed

lemma one_plus_bounds:
  assumes "0 \<le> x"
  shows "1 \<le> ctx (1 + x)" "(1 + x) * (1 - eps) \<le> ctx (1 + x)"
  using ctx_mono [of 1 "1 + x"] ctx_lower [of "1 + x"] ctx_pow10 [of 0] assms by auto

text \<open>The conservative unit cost is, up to three roundings, at least ask plus commission.\<close>

lemma unit_cost_lower:
  assumes "0 < dval a" "0 \<le> dval dl" "0 \<le> dval r"
  shows "dval a * (1 + dval r) * (1 - eps) ^ 3 \<le> dval (a * (1 + dl) * (1 + r))"
proof -
  have e: "0 \<le> 1 - eps" using eps_small by simp
  have 1: "dval a * (1 - eps) \<le> ctx (dval a * ctx (1 + dval dl))"
  proof -
    have "dval a * 1 \<le> dval a * ctx (1 + dval dl)" using one_plus_bounds(1) [OF assms(2)] assms(1) by (intro mult_left_mono) auto
    then have "ctx (dval a) \<le> ctx (dval a * ctx (1 + dval dl))" by (intro ctx_mono) simp
    then show ?thesis using ctx_lower [of "dval a"] assms(1) by simp
  qed
  have "(dval a * (1 - eps)) * ((1 + dval r) * (1 - eps)) \<le> ctx (dval a * ctx (1 + dval dl)) * ctx (1 + dval r)"
    using 1 one_plus_bounds(2) [OF assms(3)] assms e
    by (intro mult_mono) (auto intro!: mult_nonneg_nonneg order_trans [OF _ 1])
  from ctx_mono [OF this] have "ctx ((dval a * (1 - eps)) * ((1 + dval r) * (1 - eps))) \<le> dval (a * (1 + dl) * (1 + r))"
    by (simp add: dval_times dval_plus)
  moreover have "(dval a * (1 - eps)) * ((1 + dval r) * (1 - eps)) * (1 - eps) \<le> ctx ((dval a * (1 - eps)) * ((1 + dval r) * (1 - eps)))"
    using assms e by (intro ctx_lower mult_nonneg_nonneg) auto
  ultimately show ?thesis by (simp add: power3_eq_cube mult_ac)
qed

text \<open>The estimated cost is, up to three roundings, at most ask plus commission.\<close>

lemma estimated_cost_upper:
  assumes "0 \<le> dval q" "0 \<le> dval (dq_ask quote)" "0 \<le> dval (oc_commission_rate config)"
  shows "0 \<le> dval (estimated_cost config quote q)"
    "dval (estimated_cost config quote q) \<le> dval q * dval (dq_ask quote) * (1 + dval (oc_commission_rate config)) * (1 + eps) ^ 3"
proof -
  define n r where "n = dval q * dval (dq_ask quote)" and "r = dval (oc_commission_rate config)"
  have n: "0 \<le> n" and r: "0 \<le> r" using assms by (simp_all add: n_def r_def)
  have e: "0 \<le> eps" using eps_small by simp
  define N where "N = ctx n"
  have N: "0 \<le> N" "N \<le> n * (1 + eps)" using ctx_nonneg [OF n] ctx_upper [OF n] by (auto simp: N_def)
  define C where "C = (if q * dq_ask quote \<le> oc_commission_waiver_notional_usd config then 0 else ctx (N * r))"
  have cost: "dval (estimated_cost config quote q) = ctx (N + C)"
    by (simp add: estimated_cost_def Let_def dval_plus dval_times C_def N_def n_def r_def)
  have "ctx (N * r) \<le> N * r * (1 + eps)" "0 \<le> ctx (N * r)" using ctx_upper [of "N * r"] ctx_nonneg [of "N * r"] N r by simp_all
  then have C: "0 \<le> C" "C \<le> N * r * (1 + eps)" using N r e by (auto simp: C_def)
  show "0 \<le> dval (estimated_cost config quote q)" unfolding cost using N C by (intro ctx_nonneg) simp
  have "N + C \<le> N * (1 + eps) + N * r * (1 + eps)" using C(2) N(1) e by (simp add: algebra_simps)
  also have "\<dots> = N * ((1 + r) * (1 + eps))" by (simp add: algebra_simps)
  also have "\<dots> \<le> n * (1 + eps) * ((1 + r) * (1 + eps))" using N r e by (intro mult_right_mono) auto
  finally have "N + C \<le> n * (1 + r) * (1 + eps) ^ 2" by (simp add: power2_eq_square mult_ac)
  moreover have "ctx (N + C) \<le> (N + C) * (1 + eps)" using N C by (intro ctx_upper) simp
  ultimately have "ctx (N + C) \<le> n * (1 + r) * (1 + eps) ^ 2 * (1 + eps)"
    using mult_right_mono [of "N + C" "n * (1 + r) * (1 + eps) ^ 2" "1 + eps"] e by linarith
  then show "dval (estimated_cost config quote q) \<le> dval q * dval (dq_ask quote) * (1 + dval (oc_commission_rate config)) * (1 + eps) ^ 3"
    unfolding cost n_def r_def by (simp add: power3_eq_cube power2_eq_square mult_ac)
qed


lemma cost_slack: "(1 + eps) ^ 5 \<le> (1 + 10 * eps) * (1 - eps) ^ 3"
  by (simp add: power_int_def power_one_over power_divide)

lemma affordable_cost:
  assumes config: "validate_order_planning_config config = Inr config" and quote: "validate_decision_quote quote = Inr quote"
    and a: "affordable_quantity config quote R = Inr a" and q: "0 < dval q" "dval q \<le> dval a" and R: "0 \<le> dval R"
  shows "dval (estimated_cost config quote q) \<le> dval R - dval (oc_commission_precision config) + 10 * eps * dval R"
proof -
  note c = validate_order_planning_config_Inr [OF config] and k = validate_decision_quote_Inr [OF quote]
  define dl where "dl = d_div (oc_delay_penalty_bps config) (D 10000 0)"
  have dl: "0 \<le> dval dl" using c by (auto simp: dl_def dval_d_div dval_D intro!: ctx_nonneg)
  define U where "U = dq_ask quote * (1 + dl) * (1 + oc_commission_rate config)"
  define av where "av = py_max 0 (R - oc_commission_precision config)"
  define e where "e = eps"
  have e: "0 \<le> e" "0 < 1 - e" using eps_small by (auto simp: e_def)
  let ?C = "dval q * (dval (dq_ask quote) * (1 + dval (oc_commission_rate config)))"
  have U: "dval (dq_ask quote) * (1 + dval (oc_commission_rate config)) * (1 - e) ^ 3 \<le> dval U"
    unfolding U_def e_def using k c dl by (intro unit_cost_lower) auto
  have Upos: "0 < dval U" by (rule less_le_trans [OF _ U]) (use k c e in auto)
  have aq: "quantize ROUND_DOWN (oc_quantity_increment config) (d_div av U) = Inr a"
    using a by (simp add: affordable_quantity_def Let_def rbind_eq_Inr dec_div_Inr U_def av_def dl_def)
  have dv: "dval (d_div av U) = ctx (dval av / dval U)" using Upos by (intro dval_d_div) simp
  have av: "0 \<le> dval av" by (simp add: av_def dval_py_max)
  then have dv0: "0 \<le> dval av / dval U" using Upos by simp
  have "dval a \<le> ctx (dval av / dval U)" using quantize_down(2) [OF aq] dv dv0 by (simp add: ctx_nonneg)
  then have qle: "dval q \<le> dval av / dval U * (1 + e)" using q(2) ctx_upper [OF dv0] unfolding e_def by linarith
  have "0 < dval av" using q(1) qle av e by (cases "dval av = 0") auto
  then have avR: "dval av = ctx (dval R - dval (oc_commission_precision config))" "0 < dval R - dval (oc_commission_precision config)"
    using ctx_mono [of "dval R - dval (oc_commission_precision config)" 0]
    by (fastforce simp: av_def dval_py_max dval_minus max_def not_le [symmetric] split: if_splits)+
  have avle: "dval av \<le> (dval R - dval (oc_commission_precision config)) * (1 + e)"
    unfolding avR(1) e_def using avR(2) by (intro ctx_upper) simp
  have "?C * (1 - e) ^ 3 \<le> dval q * dval U" using U q(1) mult_left_mono [OF U, of "dval q"] by (simp add: mult_ac)
  also have "\<dots> \<le> dval av * (1 + e)" using mult_right_mono [OF qle, of "dval U"] Upos by simp
  also have "\<dots> \<le> (dval R - dval (oc_commission_precision config)) * (1 + e) * (1 + e)" using avle e by (intro mult_right_mono) auto
  finally have C: "?C * (1 - e) ^ 3 \<le> (dval R - dval (oc_commission_precision config)) * (1 + e) ^ 2" by (simp add: power2_eq_square mult_ac)
  have E: "dval (estimated_cost config quote q) \<le> ?C * (1 + e) ^ 3"
    using estimated_cost_upper(2) [of q quote config] q k c unfolding e_def by (simp add: mult_ac)
  have "dval (estimated_cost config quote q) * (1 - e) ^ 3 \<le> ?C * (1 + e) ^ 3 * (1 - e) ^ 3"
    using E e by (intro mult_right_mono) auto
  also have "\<dots> = ?C * (1 - e) ^ 3 * (1 + e) ^ 3" by (simp add: mult_ac)
  also have "\<dots> \<le> (dval R - dval (oc_commission_precision config)) * (1 + e) ^ 2 * (1 + e) ^ 3" using C e by (intro mult_right_mono) auto
  also have "\<dots> = (dval R - dval (oc_commission_precision config)) * (1 + e) ^ 5" by (simp add: power_add [symmetric] mult.assoc)
  also have "\<dots> \<le> (dval R - dval (oc_commission_precision config)) * ((1 + 10 * e) * (1 - e) ^ 3)"
    using cost_slack avR(2) unfolding e_def by (intro mult_left_mono) simp_all
  finally have "dval (estimated_cost config quote q) * (1 - e) ^ 3 \<le> (dval R - dval (oc_commission_precision config)) * (1 + 10 * e) * (1 - e) ^ 3"
    by (simp add: mult_ac)
  then have "dval (estimated_cost config quote q) \<le> (dval R - dval (oc_commission_precision config)) * (1 + 10 * e)"
    using e(2) by (simp only: mult_le_cancel_right zero_less_power)
  also have "\<dots> \<le> dval R - dval (oc_commission_precision config) + 10 * e * dval R"
    using c e by (simp add: algebra_simps)
  finally show ?thesis unfolding e_def .
qed


section \<open>The loop over the trades\<close>

definition buy_cost :: "order_planning_config \<Rightarrow> (string, decision_quote) dict \<Rightarrow> q1_order_intent list \<Rightarrow> rat" where
  "buy_cost config quotes intents =
     (\<Sum>i\<leftarrow>filter (\<lambda>i. oi_side i = BUY) intents.
        dval (estimated_cost config (the (map_of quotes (oi_symbol i))) (oi_quantity i)))"

definition quotes_ok :: "(string, decision_quote) dict \<Rightarrow> bool" where
  "quotes_ok quotes \<longleftrightarrow> (\<forall>q\<in>set (dict_values quotes). validate_decision_quote q = Inr q)"

definition intent_ok :: "order_planning_config \<Rightarrow> (string, decimal) dict \<Rightarrow> q1_order_intent \<Rightarrow> bool" where
  "intent_ok config positions i \<longleftrightarrow>
     0 < dval (oi_quantity i) \<and> on_grid (dexp (oc_quantity_increment config)) (dval (oi_quantity i))
     \<and> (oi_side i = SELL \<longrightarrow> oi_quantity i \<le> dict_get positions (oi_symbol i) 0)"

lemma trade_quantity_facts:
  assumes "trade_quantity config positions quote R trade = Inr q" "0 < dval q"
  shows "on_grid (dexp (oc_quantity_increment config)) (dval q)"
    and "pt_side trade = ''SELL'' \<Longrightarrow> q \<le> dict_get positions (pt_symbol trade) 0"
    and "pt_side trade \<noteq> ''SELL'' \<Longrightarrow> \<exists>a. affordable_quantity config quote R = Inr a \<and> dval q \<le> dval a"
proof -
  obtain n where n: "quantize ROUND_DOWN (oc_quantity_increment config) (d_div (pt_notional_usd trade) (midpoint quote)) = Inr n"
    "if pt_side trade = ''SELL''
     then quantize ROUND_DOWN (oc_quantity_increment config) (py_min n (dict_get positions (pt_symbol trade) 0)) = Inr q
     else \<exists>a. affordable_quantity config quote R = Inr a \<and> q = py_min n a"
    using assms(1) by (auto simp: trade_quantity_def rbind_eq_Inr dec_div_Inr split: if_split_asm)
  have sell: "dval q \<le> dval (py_min n (dict_get positions (pt_symbol trade) 0))"
    if "quantize ROUND_DOWN (oc_quantity_increment config) (py_min n (dict_get positions (pt_symbol trade) 0)) = Inr q"
  proof (rule quantize_down(2) [OF that], rule ccontr)
    let ?m = "py_min n (dict_get positions (pt_symbol trade) 0)" and ?u = "pow10 (dexp (oc_quantity_increment config))"
    assume "\<not> 0 \<le> dval ?m"
    then have "dval ?m / ?u \<le> of_int 0" by (simp add: divide_nonpos_pos)
    from dround_mono [OF this, of ROUND_DOWN] have "dround ROUND_DOWN (dval ?m / ?u) \<le> 0" by (simp add: rtrunc_def [of 0])
    then have "dval q \<le> 0" unfolding quantize_value(1) [OF that] by (simp add: mult_nonpos_nonneg)
    then show False using assms(2) by simp
  qed
  show "on_grid (dexp (oc_quantity_increment config)) (dval q)"
    using n by (auto simp: dval_py_min min_def affordable_quantity_def Let_def rbind_eq_Inr split: if_splits intro: quantize_on_grid)
  show "q \<le> dict_get positions (pt_symbol trade) 0" if "pt_side trade = ''SELL''"
    using that n(2) sell by (simp add: less_eq_decimal_dval dval_py_min)
  show "\<exists>a. affordable_quantity config quote R = Inr a \<and> dval q \<le> dval a" if "pt_side trade \<noteq> ''SELL''"
    using that n(2) by (auto simp: dval_py_min)
qed

text \<open>
  Settled cash that remains, and the cost planned so far: they add up to the cash at the start,
  up to one rounding per trade.
\<close>

definition plan_inv ::
  "order_planning_config \<Rightarrow> (string, decision_quote) dict \<Rightarrow> (string, decimal) dict \<Rightarrow> rat \<Rightarrow> rat \<Rightarrow> rat \<Rightarrow> plan_state \<Rightarrow> bool" where
  "plan_inv config quotes positions R0 M slack st \<longleftrightarrow>
     (case st of (R, intents, omitted) \<Rightarrow>
        0 \<le> dval R \<and> dval R \<le> M \<and> ctx (dval R) \<le> M
        \<and> buy_cost config quotes intents + dval R \<le> R0 + slack
        \<and> buy_cost config quotes intents \<le> R0 \<and> list_all (intent_ok config positions) intents)"

lemma plan_step_inv:
  assumes config: "validate_order_planning_config config = Inr config" and quotes: "quotes_ok quotes"
    and M: "(of_nat n + 10) * (eps * M) \<le> dval (oc_commission_precision config)" "0 \<le> M"
    and inv: "plan_inv config quotes positions R0 M (of_nat n * (eps * M)) st" and step: "plan_step H d c positions quotes config trade st = Inr st'"
  shows "plan_inv config quotes positions R0 M (of_nat (Suc n) * (eps * M)) st'"
proof -
  define e where "e = eps"
  have e: "0 \<le> e" by (simp add: e_def)
  obtain R intents om where st: "st = (R, intents, om)" by (cases st) auto
  obtain quote q where quote: "map_of quotes (pt_symbol trade) = Some quote"
    and q: "trade_quantity config positions quote R trade = Inr q"
    using step by (auto simp: plan_step_def st rbind_eq_Inr split: option.splits)
  have I: "0 \<le> dval R" "dval R \<le> M" "ctx (dval R) \<le> M"
    "buy_cost config quotes intents + dval R \<le> R0 + of_nat n * (e * M)"
    "buy_cost config quotes intents \<le> R0" "list_all (intent_ok config positions) intents"
    using inv by (auto simp: plan_inv_def st e_def)
  have Suc: "of_nat (Suc n) * (e * M) = of_nat n * (e * M) + e * M" by (simp add: algebra_simps)
  have eM: "0 \<le> e * M" using e M(2) by simp
  have qv: "validate_decision_quote quote = Inr quote"
    using quotes map_of_SomeD [OF quote] by (auto simp: quotes_ok_def dict_values_def)
  show ?thesis
    unfolding e_def [symmetric] Suc
  proof (cases "q \<le> 0")
    case True
    then have "fst st' = R" "fst (snd st') = intents" using step quote q by (auto simp: plan_step_def st)
    then show "plan_inv config quotes positions R0 M (of_nat n * (e * M) + e * M) st'"
      using I eM by (auto simp: plan_inv_def split: prod.splits)
  next
    case False
    then have qpos: "0 < dval q" by (simp add: less_eq_decimal_dval)
    note tq = trade_quantity_facts [OF q qpos]
    obtain side i where side: "pt_side trade = side_value side"
      and i: "make_intent H d c Q1_ALGORITHM_VERSION (sd_input_manifest d) (intent_identity d c (pt_symbol trade) side q quote)
        (pt_symbol trade) side (order_class_value NORMAL_ORDER) q quote = Inr i"
      and st': "st' = (if side = BUY then R - estimated_cost config quote q else R, intents @ [i], om)"
      using step quote q False by (auto simp: plan_step_def st rbind_eq_Inr parse_side_Inr)
    note mi = make_intent_Inr [OF i]
    have ok: "intent_ok config positions i"
      using mi qpos tq(1,2) side by (cases side) (auto simp: intent_ok_def)
    show "plan_inv config quotes positions R0 M (of_nat n * (e * M) + e * M) st'"
    proof (cases side)
      case SELL
      then have "buy_cost config quotes (intents @ [i]) = buy_cost config quotes intents" using mi by (simp add: buy_cost_def)
      then show ?thesis using I ok SELL eM by (simp add: plan_inv_def st')
    next
      case BUY
      define E where "E = dval (estimated_cost config quote q)"
      have E0: "0 \<le> E"
        using estimated_cost_upper(1) [of q quote config] qpos validate_decision_quote_Inr [OF qv]
          validate_order_planning_config_Inr [OF config] by (simp add: E_def)
      obtain a where "affordable_quantity config quote R = Inr a" "dval q \<le> dval a" using tq(3) side BUY by auto
      from affordable_cost [OF config qv this(1) qpos this(2) I(1)]
      have EC: "E \<le> dval R - dval (oc_commission_precision config) + 10 * e * dval R" by (simp add: E_def e_def)
      have "10 * e * dval R \<le> 10 * (e * M)" using I(2) e mult_left_mono [of "dval R" M "10 * e"] by simp
      moreover have "of_nat n * (e * M) + 10 * (e * M) \<le> dval (oc_commission_precision config)"
        using M(1) unfolding e_def [symmetric] by (simp add: algebra_simps)
      moreover have "0 \<le> of_nat n * (e * M)" using eM by simp
      ultimately have ER: "E \<le> dval R" "E + of_nat n * (e * M) \<le> dval R" using EC by linarith+
      have bc: "buy_cost config quotes (intents @ [i]) = buy_cost config quotes intents + E"
        using mi BUY quote by (simp add: buy_cost_def E_def)
      have R': "dval (R - estimated_cost config quote q) = ctx (dval R - E)" by (simp add: dval_minus E_def)
      have "ctx (dval R - E) \<le> (dval R - E) * (1 + e)" unfolding e_def using ER(1) by (intro ctx_upper) simp
      also have "\<dots> \<le> dval R - E + e * M"
      proof -
        have "(dval R - E) * e \<le> M * e" using I(2) E0 e by (intro mult_right_mono) auto
        then show ?thesis by (simp add: algebra_simps)
      qed
      finally have up: "ctx (dval R - E) \<le> dval R - E + e * M" .
      have "ctx (dval R - E) \<le> ctx (dval R)" using E0 by (intro ctx_mono) simp
      then have le: "ctx (dval R - E) \<le> M" using I(3) by linarith
      have "0 \<le> ctx (dval R - E)" using ER(1) by (intro ctx_nonneg) simp
      then show ?thesis
        using le up I ok BUY ER bc by (simp add: plan_inv_def st' R')
    qed
  qed
qed


lemma plan_rfold_inv:
  assumes "validate_order_planning_config config = Inr config" "quotes_ok quotes" "0 \<le> M"
    and "(of_nat (n + length ts) + 10) * (eps * M) \<le> dval (oc_commission_precision config)"
    and "plan_inv config quotes positions R0 M (of_nat n * (eps * M)) st"
    and "rfold (plan_step H d c positions quotes config) ts st = Inr st'"
  shows "plan_inv config quotes positions R0 M (of_nat (n + length ts) * (eps * M)) st'"
  using assms(4-6)
proof (induction ts arbitrary: n st)
  case (Cons t ts)
  obtain s1 where s1: "plan_step H d c positions quotes config t st = Inr s1" "rfold (plan_step H d c positions quotes config) ts s1 = Inr st'"
    using Cons.prems(3) by (auto simp: rbind_eq_Inr)
  have "(of_nat n + 10) * (eps * M) \<le> (of_nat (n + length (t # ts)) + 10) * (eps * M)"
    using assms(3) by (intro mult_right_mono) auto
  then have "(of_nat n + 10) * (eps * M) \<le> dval (oc_commission_precision config)" using Cons.prems(1) by linarith
  from plan_step_inv [OF assms(1,2) this assms(3) Cons.prems(2) s1(1)]
  have "plan_inv config quotes positions R0 M (of_nat (Suc n) * (eps * M)) s1" .
  from Cons.IH [OF _ this s1(2)] Cons.prems(1) show ?case by simp
qed simp

section \<open>Target quantities\<close>

definition target_ok :: "order_planning_config \<Rightarrow> (string, decimal) dict \<Rightarrow> (string, decimal) dict \<Rightarrow> q1_order_class \<Rightarrow> q1_order_intent \<Rightarrow> bool" where
  "target_ok config positions targets cls i \<longleftrightarrow>
     oi_side i = SELL \<and> oi_order_class i = order_class_value cls \<and> 0 < dval (oi_quantity i)
     \<and> (case map_of targets (oi_symbol i) of
          None \<Rightarrow> False
        | Some t \<Rightarrow>
            let left = dval (dict_get positions (oi_symbol i) 0) - dval (oi_quantity i) in
            dval t \<le> left \<and> left < dval t + pow10 (dexp (oc_quantity_increment config)))"

text \<open>Positions and targets on a common grid within 28 digits: the difference is exact.\<close>

definition exact_targets :: "int \<Rightarrow> (string, decimal) dict \<Rightarrow> (string, decimal) dict \<Rightarrow> bool" where
  "exact_targets g positions targets \<longleftrightarrow>
     (\<forall>(s, t)\<in>set targets. on_grid g (dval t) \<and> on_grid g (dval (dict_get positions s 0))
        \<and> dval (dict_get positions s 0) \<le> pow10 (g + int prec))"

lemma target_step_cases:
  assumes "target_step H d c positions quotes cls config (s, t) intents = Inr intents'"
    and "on_grid g (dval t)" "on_grid g (dval (dict_get positions s 0))" "dval (dict_get positions s 0) \<le> pow10 (g + int prec)"
  shows "(intents' = intents \<and> dval (dict_get positions s 0) - dval t < pow10 (dexp (oc_quantity_increment config)))
    \<or> (\<exists>i. intents' = intents @ [i] \<and> oi_symbol i = s \<and> oi_side i = SELL \<and> oi_order_class i = order_class_value cls
        \<and> 0 < dval (oi_quantity i) \<and> dval t \<le> dval (dict_get positions s 0) - dval (oi_quantity i)
        \<and> dval (dict_get positions s 0) - dval (oi_quantity i) < dval t + pow10 (dexp (oc_quantity_increment config)))"
proof -
  let ?c = "dict_get positions s 0"
  have b: "0 \<le> dval t" "dval t \<le> dval ?c" using assms(1) by (auto simp: target_step_def Let_def dval_simps split: if_splits)
  obtain q where q: "quantize ROUND_DOWN (oc_quantity_increment config) (?c - t) = Inr q"
    using assms(1) by (auto simp: target_step_def Let_def rbind_eq_Inr split: if_splits)
  have ex: "dval (?c - t) = dval ?c - dval t"
    unfolding dval_minus using assms(2-4) b by (intro ctx_grid [where g = g]) auto
  note qd = quantize_down [OF q, unfolded ex]
  show ?thesis
  proof (cases "q \<le> 0")
    case True
    then have "intents' = intents" using assms(1) q by (auto simp: target_step_def Let_def split: if_splits)
    then show ?thesis using qd True b by (auto simp: less_eq_decimal_dval)
  next
    case False
    then obtain i quote where "make_intent H d c (vr_algorithm_version d) d
        (intent_identity d c s SELL q quote @ [(''target_quantity'', VDec t), (''order_class'', VStr (order_class_value cls))])
        s SELL (order_class_value cls) q quote = Inr i" "intents' = intents @ [i]"
      using assms(1) q by (auto simp: target_step_def Let_def rbind_eq_Inr split: if_splits option.splits)
    from this(2) make_intent_Inr [OF this(1)] show ?thesis using qd b by auto
  qed
qed

lemma target_rfold:
  assumes "rfold (target_step H d c positions quotes cls config) ts intents = Inr intents'"
    and "exact_targets g positions ts" "distinct (map fst ts)"
    and "set (map oi_symbol intents) \<inter> fst ` set ts = {}" "distinct (map oi_symbol intents)"
  shows "distinct (map oi_symbol intents')
    \<and> (\<exists>new. intents' = intents @ new \<and> list_all (target_ok config positions ts cls) new)
    \<and> (\<forall>(s, t)\<in>set ts. s \<in> set (map oi_symbol intents')
        \<or> dval (dict_get positions s 0) - dval t < pow10 (dexp (oc_quantity_increment config)))"
  using assms
proof (induction ts arbitrary: intents)
  case (Cons p ts)
  obtain s t where p: "p = (s, t)" by (cases p)
  obtain mid where mid: "target_step H d c positions quotes cls config (s, t) intents = Inr mid"
    "rfold (target_step H d c positions quotes cls config) ts mid = Inr intents'"
    using Cons.prems(1) by (auto simp: p rbind_eq_Inr)
  have ex: "exact_targets g positions ts" and g: "on_grid g (dval t)" "on_grid g (dval (dict_get positions s 0))"
    "dval (dict_get positions s 0) \<le> pow10 (g + int prec)"
    using Cons.prems(2) by (auto simp: exact_targets_def p)
  have s: "s \<notin> fst ` set ts" "s \<notin> set (map oi_symbol intents)" using Cons.prems(3,4) by (auto simp: p)
  have weaken: "target_ok config positions (p # ts) cls i" if "target_ok config positions ts cls i" for i
    using that s(1) by (auto simp: target_ok_def p Let_def rev_image_eqI dest!: map_of_SomeD split: option.splits)
  from target_step_cases [OF mid(1) g] show ?case
  proof (elim disjE exE conjE)
    assume m: "mid = intents" and small: "dval (dict_get positions s 0) - dval t < pow10 (dexp (oc_quantity_increment config))"
    from Cons.IH [OF mid(2) ex] Cons.prems(3-5) m have IH: "distinct (map oi_symbol intents')"
      "\<exists>new. intents' = intents @ new \<and> list_all (target_ok config positions ts cls) new"
      "\<forall>(s, t)\<in>set ts. s \<in> set (map oi_symbol intents')
        \<or> dval (dict_get positions s 0) - dval t < pow10 (dexp (oc_quantity_increment config))" by auto
    then show ?thesis using small weaken by (auto simp: p list_all_iff)
  next
    fix i
    assume m: "mid = intents @ [i]" and i: "oi_symbol i = s" "oi_side i = SELL" "oi_order_class i = order_class_value cls"
      "0 < dval (oi_quantity i)" "dval t \<le> dval (dict_get positions s 0) - dval (oi_quantity i)"
      "dval (dict_get positions s 0) - dval (oi_quantity i) < dval t + pow10 (dexp (oc_quantity_increment config))"
    have "target_ok config positions (p # ts) cls i" using i by (simp add: target_ok_def p Let_def)
    moreover have "distinct (map oi_symbol intents')"
      "\<exists>new. intents' = mid @ new \<and> list_all (target_ok config positions ts cls) new"
      "\<forall>(s, t)\<in>set ts. s \<in> set (map oi_symbol intents')
        \<or> dval (dict_get positions s 0) - dval t < pow10 (dexp (oc_quantity_increment config))"
      using Cons.IH [OF mid(2) ex] Cons.prems(3-5) m i(1) s by (auto simp: p)
    ultimately show ?thesis using m i(1) weaken by (auto simp: p list_all_iff)
  qed
qed simp


lemma no_executable_kind:
  assumes "apply_turnover_control H current proposed nav used False math bypass = Inr r"
    and "tv_proposed_trades r = []" "tv_omitted_orders r \<noteq> []"
  shows "tv_decision_kind r = ''NO_EXECUTABLE_ORDERS''"
  using assms
  by (auto simp: apply_turnover_control_def rbind_eq_Inr Let_def make_turnover_result_def split: if_splits prod.splits)

section \<open>Properties\<close>

text \<open>A decision, a quote and a turnover result for the worked examples.\<close>

definition ex_manifest :: q1_decision_input_manifest where
  "ex_manifest =
     \<lparr>vr_algorithm_version = Q1_ALGORITHM_VERSION, vr_config_manifest_hash = ''cfg'', vr_code_version = ''code'',
      vr_model_version = ''model'', vr_source_manifest_hash = ''src'', dm_calendar_session_id = ''2026-01-05'',
      dm_source_bars = [], dm_quotes = [], dm_manifest_hash = ''m''\<rparr>"

definition ex_decision :: q1_strategy_decision where
  "ex_decision =
     \<lparr>vr_algorithm_version = Q1_ALGORITHM_VERSION, vr_config_manifest_hash = ''cfg'', vr_code_version = ''code'',
      vr_model_version = ''model'', vr_source_manifest_hash = ''src'', sd_portfolio_decision_id = ''dec_1'',
      sd_run_id = ''run'', sd_arm_id = Q1_DET, sd_source_cycle_id = ''cyc'', sd_input_state_sequence = 0,
      sd_decision_kind = ''NORMAL_REBALANCE'', sd_scheduled_at = 0, sd_signal_data_cutoff = 0,
      sd_portfolio_state_as_of = 0, sd_quote_as_of = 0, sd_decision_created_at = 0, sd_valid_until = 60,
      sd_input_manifest = ex_manifest, sd_target_weights = [(''QQQ'', 1)], sd_diagnostics = CDict [],
      sd_worker_fence_token = ''w'', sd_cycle_attempt_count = 1, sd_decision_hash = ''h''\<rparr>"

definition ex_quote :: decision_quote where
  "ex_quote = \<lparr>dq_symbol = ''QQQ'', dq_quote_id = ''q_1'', dq_bid = D 80 0, dq_ask = D 80 0, dq_available_at = Aware 0\<rparr>"

definition ex_planning :: order_planning_config where
  "ex_planning =
     \<lparr>oc_quantity_increment = D 1 (- 6), oc_commission_rate = D 25 (- 2), oc_commission_waiver_notional_usd = D 10 0,
      oc_delay_penalty_bps = 0, oc_commission_precision = D 1 (- 2)\<rparr>"

definition ex_trade :: proposed_trade where
  "ex_trade = \<lparr>pt_symbol = ''QQQ'', pt_side = ''BUY'', pt_weight_delta = D 1 (- 1), pt_notional_usd = D 800 0\<rparr>"

definition ex_turnover :: turnover_result where
  "ex_turnover =
     \<lparr>tv_decision_kind = ''NORMAL_REBALANCE'', tv_proposed_one_way_turnover = D 1 (- 1),
      tv_remaining_daily_capacity = D 2 (- 1), tv_interpolation_alpha = 1, tv_adjusted_target_weights = [],
      tv_executable_target_weights = [], tv_executable_one_way_turnover = D 1 (- 1),
      tv_proposed_trades = [ex_trade], tv_omitted_orders = [], tv_turnover_hash = ''t''\<rparr>"

lemma ex_planning_ok:
  "validate_order_planning_config ex_planning = Inr ex_planning" "quotes_ok [(''QQQ'', ex_quote)]"
  "validate_decision_quote ex_quote = Inr ex_quote" "intent_symbol_ok ''QQQ''"
  by code_simp+

lemma ex_trade_quantity:
  "trade_quantity ex_planning [] ex_quote (D 500 0) ex_trade = Inr (Dec False 4999900 (- 6))"
  by (simp add: ex_quote_def ex_trade_def ex_planning_def trade_quantity_def affordable_quantity_def midpoint_def
     dict_get_def dec_eval cong: eval_congs split del: if_split)

lemma ex_planned:
  "\<exists>p. plan_normal_orders (\<lambda>_. ''h'') ex_decision ex_turnover [] (D 500 0) [(''QQQ'', ex_quote)] ''cyc'' 0 (Aware 60) ex_planning = Inr p
     \<and> map oi_quantity (po_intents p) = [Dec False 4999900 (- 6)]"
proof -
  let ?c = "\<lparr>ic_source_cycle_id = ''cyc'', ic_input_state_sequence = 0,
    ic_risk_decision_id = risk_approval_id (\<lambda>_. ''h'') ex_decision, ic_created_at = 0, ic_valid_until = 60\<rparr>"
  let ?q = "Dec False 4999900 (- 6)"
  obtain i where i: "make_intent (\<lambda>_. ''h'') ex_decision ?c Q1_ALGORITHM_VERSION (sd_input_manifest ex_decision)
      (intent_identity ex_decision ?c ''QQQ'' BUY ?q ex_quote) ''QQQ'' BUY ''NORMAL'' ?q ex_quote = Inr i"
    using make_intent_exists [OF ex_planning_ok(3,4), of ?q ?c "''NORMAL''" BUY]
    by (fastforce simp: SELL_ONLY_CLASSES_def dval_simps dval_Dec)
  have "sd_valid_until ex_decision = 60" "sd_decision_created_at ex_decision = 0" by (simp_all add: ex_decision_def)
  with i make_intent_Inr(3) [OF i] ex_trade_quantity show ?thesis
    by (simp add: plan_normal_orders_def ex_turnover_def starts_with_def plan_step_def parse_side_def ex_trade_def
        dval_simps dval_Dec)
qed

text \<open>
  C25. A plan is funded: whatever the trades, the estimated cost of all its buys together (ask,
  plus commission above the waiver) is at most the settled cash it was given, every intent has a
  positive quantity in whole increments, and a sell never exceeds the position. The margin of
  one commission unit that the code keeps absorbs the rounding as long as the cash is not
  \<open>10^26\<close> times that unit, per trade.\<close>

theorem planned_orders_funded:
  assumes "plan_normal_orders H d turnover positions settled quotes cycle sq valid_until config = Inr p"
    and "validate_order_planning_config config = Inr config" "quotes_ok quotes"
    and "(of_nat (length (tv_proposed_trades turnover)) + 20) * dval settled \<le> dval (oc_commission_precision config) * pow10 26"
  shows "buy_cost config quotes (po_intents p) \<le> dval settled \<and> list_all (intent_ok config positions) (po_intents p)"
proof -
  have settled: "0 \<le> dval settled"
    using assms(1) by (auto simp: plan_normal_orders_def rbind_eq_Inr dval_simps split: if_splits)
  let ?ts = "sort_key trade_key (tv_proposed_trades turnover)"
  define M where "M = dval settled * (1 + eps)"
  have M: "0 \<le> M" "dval settled \<le> M" "ctx (dval settled) \<le> M"
    using settled ctx_upper [OF settled] by (auto simp: M_def)
  have "(of_nat (0 + length ?ts) + 10) * (eps * M) \<le> (of_nat (length ?ts) + 20) * dval settled * pow10 (- 26)"
  proof -
    have "eps * M \<le> dval settled * pow10 (- 26)" using settled by (simp add: M_def)
    moreover have "0 \<le> eps * M" using M(1) by simp
    moreover define x y where "x = eps * M" and "y = dval settled * pow10 (- 26)"
    ultimately have "(of_nat (length ?ts) + 10) * x \<le> (of_nat (length ?ts) + 20) * y" by (intro mult_mono) auto
    then show ?thesis unfolding x_def y_def by (simp add: mult_ac)
  qed
  also have "\<dots> \<le> dval (oc_commission_precision config)"
    using assms(4) by simp
  finally have slack: "(of_nat (0 + length ?ts) + 10) * (eps * M) \<le> dval (oc_commission_precision config)" .
  consider "po_intents p = []"
    | R om c where "rfold (plan_step H d c positions quotes config) ?ts
        (settled, [], map omitted_diagnostic (tv_omitted_orders turnover)) = Inr (R, po_intents p, om)"
    using assms(1) by (auto simp: plan_normal_orders_def rbind_eq_Inr Let_def split: if_splits)
  then show ?thesis
  proof cases
    case 1
    then show ?thesis using settled by (simp add: buy_cost_def)
  next
    case 2
    have "plan_inv config quotes positions (dval settled) M (of_nat 0 * (eps * M))
        (settled, [], map omitted_diagnostic (tv_omitted_orders turnover))"
      using settled M by (simp add: plan_inv_def buy_cost_def)
    from plan_rfold_inv [OF assms(2,3) M(1) slack this 2] show ?thesis by (simp add: plan_inv_def)
  qed
qed

theorem planned_orders_funded_witness:
  "\<exists>p. plan_normal_orders (\<lambda>_. ''h'') ex_decision ex_turnover [] (D 500 0) [(''QQQ'', ex_quote)] ''cyc'' 0 (Aware 60) ex_planning = Inr p
    \<and> map oi_quantity (po_intents p) = [Dec False 4999900 (- 6)]
    \<and> buy_cost ex_planning [(''QQQ'', ex_quote)] (po_intents p) \<le> dval (D 500 0)"
proof -
  obtain p where p: "plan_normal_orders (\<lambda>_. ''h'') ex_decision ex_turnover [] (D 500 0) [(''QQQ'', ex_quote)] ''cyc'' 0 (Aware 60) ex_planning = Inr p"
    "map oi_quantity (po_intents p) = [Dec False 4999900 (- 6)]" using ex_planned by (elim exE conjE)
  have "(of_nat (length (tv_proposed_trades ex_turnover)) + 20) * dval (D 500 0) \<le> dval (oc_commission_precision ex_planning) * pow10 26"
    by (simp add: ex_turnover_def ex_planning_def dval_D)
  note funded = planned_orders_funded [OF p(1) ex_planning_ok(1,2) this]
  show ?thesis by (intro exI conjI) (rule p(1), rule p(2), rule funded [THEN conjunct1])
qed

text \<open>
  C26. The target planner sells down to its targets: every intent is a sell of the requested
  class, no symbol is sold twice, executing the intent leaves the position at or above the
  target and less than one increment above it, and a symbol without intent is already there.\<close>

theorem target_sells_reach_target:
  assumes "plan_target_quantity_sell_orders H d positions targets quotes cycle sq cls config = Inr p"
    and "distinct (dict_keys targets)" "exact_targets g positions targets"
  shows "list_all (target_ok config positions targets cls) (po_intents p)
    \<and> distinct (map oi_symbol (po_intents p))
    \<and> (\<forall>(s, t)\<in>set targets. s \<in> set (map oi_symbol (po_intents p))
        \<or> dval (dict_get positions s 0) - dval t < pow10 (dexp (oc_quantity_increment config)))"
proof -
  let ?ts = "sorted_items targets"
  obtain c where "rfold (target_step H d c positions quotes cls config) ?ts [] = Inr (po_intents p)"
    using assms(1) by (auto simp: plan_target_quantity_sell_orders_def rbind_eq_Inr Let_def split: if_splits)
  from target_rfold [OF this, of g] assms(2,3)
  have r: "distinct (map oi_symbol (po_intents p))" "list_all (target_ok config positions ?ts cls) (po_intents p)"
    "\<forall>(s, t)\<in>set ?ts. s \<in> set (map oi_symbol (po_intents p))
        \<or> dval (dict_get positions s 0) - dval t < pow10 (dexp (oc_quantity_increment config))"
    using sorted_items_distinct [OF assms(2)]
    by (auto simp: exact_targets_def sorted_items_def dict_keys_def)
  have "map_of ?ts = map_of targets"
    using assms(2) sorted_items_distinct [OF assms(2)] by (intro map_of_inject_set [THEN iffD2]) (auto simp: dict_keys_def sorted_items_def)
  then show ?thesis using r by (simp add: list_all_iff target_ok_def sorted_items_def)
qed

theorem target_sells_reach_target_witness:
  "\<exists>p. plan_target_quantity_sell_orders (\<lambda>_. ''h'') ex_decision [(''QQQ'', D 5 0)] [(''QQQ'', D 2 0)] [(''QQQ'', ex_quote)]
      ''cyc'' 0 EMERGENCY_REDUCTION ex_planning = Inr p
    \<and> length (po_intents p) = 1
    \<and> list_all (target_ok ex_planning [(''QQQ'', D 5 0)] [(''QQQ'', D 2 0)] EMERGENCY_REDUCTION) (po_intents p)"
proof -
  let ?c = "\<lparr>ic_source_cycle_id = ''cyc'', ic_input_state_sequence = 0,
    ic_risk_decision_id = risk_approval_id (\<lambda>_. ''h'') ex_decision, ic_created_at = 0, ic_valid_until = 60\<rparr>"
  let ?q = "Dec False 3000000 (- 6)"
  have q: "quantize ROUND_DOWN (oc_quantity_increment ex_planning) (D 5 0 - D 2 0) = Inr ?q" by code_simp
  obtain i where i: "make_intent (\<lambda>_. ''h'') ex_decision ?c (vr_algorithm_version ex_decision) ex_decision
      (intent_identity ex_decision ?c ''QQQ'' SELL ?q ex_quote
        @ [(''target_quantity'', VDec (D 2 0)), (''order_class'', VStr ''EMERGENCY_REDUCTION'')])
      ''QQQ'' SELL ''EMERGENCY_REDUCTION'' ?q ex_quote = Inr i"
    using make_intent_exists [OF ex_planning_ok(3,4), of ?q ?c "''EMERGENCY_REDUCTION''" SELL]
    by (fastforce simp: dval_simps dval_Dec)
  have "sd_valid_until ex_decision = 60" "sd_decision_created_at ex_decision = 0" by (simp_all add: ex_decision_def)
  with i q obtain p where p: "plan_target_quantity_sell_orders (\<lambda>_. ''h'') ex_decision [(''QQQ'', D 5 0)] [(''QQQ'', D 2 0)] [(''QQQ'', ex_quote)]
      ''cyc'' 0 EMERGENCY_REDUCTION ex_planning = Inr p" "length (po_intents p) = 1"
    by (auto simp: plan_target_quantity_sell_orders_def sorted_items_def target_step_def dict_get_def dval_simps dval_Dec)
  have "on_grid 0 (5 :: rat)" "on_grid 0 (2 :: rat)"
    using on_grid_of_int [of 0 5] on_grid_of_int [of 0 2] by simp_all
  then have "exact_targets 0 [(''QQQ'', D 5 0)] [(''QQQ'', D 2 0)]"
    by (simp add: exact_targets_def dict_get_def dval_D prec_def)
  from target_sells_reach_target [OF p(1) _ this] p show ?thesis by (auto simp: dict_keys_def)
qed

lemma hash_diagnostics_raises:
  assumes "diagnostics \<noteq> []"
  shows "hash_diagnostics H d diagnostics
    = Inl (CanonicalizationError ''Unsupported canonical type: OmittedOrderDiagnostic'')"
proof -
  have keys: "sort_key fst [(''decision_id'', x), (''intents'', y), (''omitted'', z)]
      = [(''decision_id'', x), (''intents'', y), (''omitted'', z)]" for x y z :: pyobj
    by simp
  show ?thesis
    using assms by (cases diagnostics) (simp_all add: hash_diagnostics_def canonical_object_hash_def keys diagnostic_object_def)
qed

text \<open>Without diagnostics the hash is that of the plain manifest.\<close>

lemma hash_no_diagnostics:
  "hash_diagnostics H d [] = Inr (canonical_hash H (VDict
     [(''decision_id'', VStr (sd_portfolio_decision_id d)), (''intents'', VList []), (''omitted'', VList [])]))"
  using canonical_object_hash_plain [of H "VDict [(''decision_id'', VStr (sd_portfolio_decision_id d)),
      (''intents'', VList []), (''omitted'', VList [])]"] by (simp add: hash_diagnostics_def)

text \<open>
  C27. A rebalance all of whose trades fall below the minimum notional cannot be planned: turnover
  control returns its diagnostics with the kind \<^verbatim>\<open>NO_EXECUTABLE_ORDERS\<close>, and planning it raises,
  since it hashes the diagnostics, instances of a dataclass, which canonicalization does not
  know.\<close>

theorem omitted_only_plan_raises:
  assumes "apply_turnover_control H current proposed nav used False math bypass = Inr turnover"
    and "tv_proposed_trades turnover = []" "tv_omitted_orders turnover \<noteq> []" "0 \<le> settled"
  shows "plan_normal_orders H d turnover positions settled quotes cycle sq (Aware (sd_valid_until d)) config
    = Inl (CanonicalizationError ''Unsupported canonical type: OmittedOrderDiagnostic'')"
proof -
  have "tv_decision_kind turnover = ''NO_EXECUTABLE_ORDERS''"
    by (rule no_executable_kind [OF assms(1-3)])
  moreover have "\<not> settled < 0" using assms(4) by (simp add: dval_simps)
  ultimately show ?thesis
    by (simp add: plan_normal_orders_def starts_with_def hash_diagnostics_raises [OF assms(3)])
qed

theorem omitted_only_plan_raises_witness:
  "case apply_turnover_control (\<lambda>_. ''h'') (ex_weights (D 5 (- 1)) (D 2 (- 1)) (D 3 (- 1)))
       (ex_weights (D 47 (- 2)) (D 23 (- 2)) (D 3 (- 1))) (D 200 0) 0 False ex_math False of
     Inl _ \<Rightarrow> False
   | Inr turnover \<Rightarrow>
       plan_normal_orders (\<lambda>_. ''h'') ex_decision turnover [] (D 500 0) [(''QQQ'', ex_quote)] ''cyc'' 0
         (Aware (sd_valid_until ex_decision)) ex_planning
       = Inl (CanonicalizationError ''Unsupported canonical type: OmittedOrderDiagnostic'')"
proof -
  have "case apply_turnover_control (\<lambda>_. ''h'') (ex_weights (D 5 (- 1)) (D 2 (- 1)) (D 3 (- 1)))
       (ex_weights (D 47 (- 2)) (D 23 (- 2)) (D 3 (- 1))) (D 200 0) 0 False ex_math False of
     Inl _ \<Rightarrow> False | Inr r \<Rightarrow> tv_proposed_trades r = [] \<and> length (tv_omitted_orders r) = 2"
    by (simp add: turnover_eval cong: eval_congs split del: if_split)
  then obtain r where r: "apply_turnover_control (\<lambda>_. ''h'') (ex_weights (D 5 (- 1)) (D 2 (- 1)) (D 3 (- 1)))
       (ex_weights (D 47 (- 2)) (D 23 (- 2)) (D 3 (- 1))) (D 200 0) 0 False ex_math False = Inr r"
    "tv_proposed_trades r = []" "length (tv_omitted_orders r) = 2"
    by (auto split: sum.splits)
  then have om: "tv_omitted_orders r \<noteq> []" by auto
  have "0 \<le> D 500 0" by (simp add: less_eq_decimal_dval dval_D)
  from omitted_only_plan_raises [OF r(1,2) om this] r(1) show ?thesis by simp
qed

end
