(* ===== verification/Affordability.thy ===== *)
theory Affordability
  imports Fill_Economics
begin

text \<open>
  The largest quantity an arm can pay for, \<^verbatim>\<open>_maximum_affordable_quantity\<close> of
  \<^verbatim>\<open>src/trading/runtime/q1_execution_cycle.py\<close>: an estimate that is lowered by one quantity step
  until notional and incremental commission fit into settled cash. The loop has no bound in the
  source, so it is a partial function whose value \<open>None\<close> means that it does not return.
  Shown: it returns for every validated configuration, and what it returns is the largest
  affordable quantity among those it considers.
\<close>

section \<open>The loop\<close>

definition fill_cost :: "q1_execution_config \<Rightarrow> decimal \<Rightarrow> decimal \<Rightarrow> decimal \<Rightarrow> decimal \<Rightarrow> decimal result" where
  "fill_cost config fill_price notional_before commission_before quantity =
     (let notional = quantity * fill_price in
      rbind (order_commission config (notional_before + notional)) (\<lambda>total_commission.
        Inr (notional + py_max 0 (total_commission - commission_before))))"

partial_function (option) affordable_loop ::
  "q1_execution_config \<Rightarrow> decimal \<Rightarrow> decimal \<Rightarrow> decimal \<Rightarrow> decimal \<Rightarrow> decimal \<Rightarrow> decimal result option" where
  "affordable_loop config settled_cash fill_price notional_before commission_before quantity =
     (if quantity \<le> 0 then Some (Inr 0)
      else
        case fill_cost config fill_price notional_before commission_before quantity of
          Inl e \<Rightarrow> Some (Inl e)
        | Inr cost \<Rightarrow>
            if cost \<le> settled_cash then Some (Inr quantity)
            else affordable_loop config settled_cash fill_price notional_before commission_before
                   (quantity - xc_quantity_precision config))"

definition buy_price :: "q1_execution_config \<Rightarrow> decimal \<Rightarrow> decimal result" where
  "buy_price config ask_price =
     quantize ROUND_HALF_EVEN (xc_price_precision config)
       (ask_price * (1 + d_div (xc_delay_penalty_bps config) BPS))"

definition affordable_estimate :: "q1_execution_config \<Rightarrow> decimal \<Rightarrow> decimal \<Rightarrow> decimal result" where
  "affordable_estimate config settled_cash fill_price =
     (let conservative_cash = py_max 0 (settled_cash - xc_commission_precision config);
          denominator = fill_price * (1 + xc_commission_rate config) in
      rbind (dec_div conservative_cash denominator) (quantize ROUND_DOWN (xc_quantity_precision config)))"

definition maximum_affordable_quantity ::
  "q1_execution_config \<Rightarrow> decimal \<Rightarrow> decimal \<Rightarrow> decimal \<Rightarrow> decimal \<Rightarrow> decimal result option" where
  "maximum_affordable_quantity config settled_cash ask_price notional_before commission_before =
     (case rbind (buy_price config ask_price) (\<lambda>p. rbind (affordable_estimate config settled_cash p) (\<lambda>q. Inr (p, q))) of
        Inl e \<Rightarrow> Some (Inl e)
      | Inr (p, q) \<Rightarrow> affordable_loop config settled_cash p notional_before commission_before q)"

section \<open>Commission and cost grow with quantity\<close>

lemma config_positive:
  assumes "validate_q1_execution_config config = Inr config'"
  shows "0 < dval (xc_quantity_precision config)" "0 \<le> dval (xc_commission_rate config)"
    "0 < dval (xc_commission_precision config)" "0 \<le> dval (xc_delay_penalty_bps config)"
    "0 < dval (xc_price_precision config)"
  using assms by (auto simp: validate_q1_execution_config_def dval_simps split: if_splits)

lemma quantize_mono:
  assumes "quantize m q a = Inr x" "quantize m q b = Inr y" "dval a \<le> dval b"
  shows "dval x \<le> dval y"
proof -
  have "dround m (dval a / pow10 (dexp q)) \<le> dround m (dval b / pow10 (dexp q))"
    using assms(3) by (intro dround_mono divide_right_mono) auto
  then show ?thesis
    unfolding quantize_value(1) [OF assms(1)] quantize_value(1) [OF assms(2)] by (intro mult_right_mono) auto
qed

lemma quantize_nonneg:
  assumes "quantize m q a = Inr x" "0 \<le> dval a"
  shows "0 \<le> dval x"
proof -
  have "dround m (of_int 0) \<le> dround m (dval a / pow10 (dexp q))"
    using assms(2) by (intro dround_mono) simp
  then have "0 \<le> dround m (dval a / pow10 (dexp q))" unfolding dround_of_int .
  then show ?thesis unfolding quantize_value(1) [OF assms(1)] by simp
qed

lemma order_commission_mono:
  assumes "order_commission config a = Inr x" "order_commission config b = Inr y"
    and "dval a \<le> dval b" "0 \<le> dval b" "0 \<le> dval (xc_commission_rate config)"
  shows "dval x \<le> dval y"
proof (cases "a \<le> xc_commission_waiver_threshold_usd config")
  case True
  then show ?thesis
    using assms by (auto simp: order_commission_def dval_times intro!: ctx_nonneg elim!: quantize_nonneg split: if_splits)
next
  case False
  then have "\<not> b \<le> xc_commission_waiver_threshold_usd config" using assms(3) by (simp add: less_eq_decimal_dval)
  then show ?thesis
    using False assms
    by (auto simp: order_commission_def dval_times intro!: ctx_mono mult_right_mono elim!: quantize_mono)
qed

lemma fill_cost_mono:
  assumes "fill_cost config p n c a = Inr x" "fill_cost config p n c b = Inr y"
    and "dval a \<le> dval b" "0 \<le> dval b" "0 \<le> dval p" "0 \<le> dval n" "0 \<le> dval (xc_commission_rate config)"
  shows "dval x \<le> dval y"
proof -
  obtain s t where s: "order_commission config (n + a * p) = Inr s" "x = a * p + py_max 0 (s - c)"
    and t: "order_commission config (n + b * p) = Inr t" "y = b * p + py_max 0 (t - c)"
    using assms(1,2) by (auto simp: fill_cost_def Let_def rbind_eq_Inr)
  have ab: "dval (a * p) \<le> dval (b * p)" using assms(3,5) by (auto simp: dval_times intro!: ctx_mono mult_right_mono)
  have "0 \<le> dval (b * p)" using assms(4,5) by (auto simp: dval_times intro!: ctx_nonneg)
  then have "dval s \<le> dval t"
    using ab assms(6,7) by (intro order_commission_mono [OF s(1) t(1)]) (auto simp: dval_plus intro!: ctx_mono ctx_nonneg)
  then have "dval (s - c) \<le> dval (t - c)" by (auto simp: dval_minus intro!: ctx_mono)
  then show ?thesis using ab unfolding s(2) t(2) dval_plus dval_py_max by (intro ctx_mono) auto
qed

section \<open>The loop returns\<close>

text \<open>Lowering a quantity on the grid by one step is exact, or leaves nothing.\<close>

lemma step_down:
  assumes "on_grid (dexp u) (dval q)" "dval q \<le> pow10 (dexp u + int prec)" "0 < dval u" "0 < dval q"
  shows "dval (q - u) = dval q - dval u \<and> on_grid (dexp u) (dval (q - u)) \<or> dval (q - u) \<le> 0"
proof (cases "dval u \<le> dval q")
  case True
  have "on_grid (dexp u) (dval u)" by (simp add: dval_def on_grid_of_int)
  then have g: "on_grid (dexp u) (dval q - dval u)" using assms(1) by auto
  have "ctx (dval q - dval u) = dval q - dval u" using True assms by (intro ctx_grid [OF g]) auto
  then show ?thesis using g by (simp add: dval_minus)
next
  case False
  then have "ctx (dval q - dval u) \<le> ctx 0" by (intro ctx_mono) simp
  then show ?thesis by (simp add: dval_minus)
qed

lemma grid_step_le:
  assumes "on_grid g x" "0 < x"
  shows "pow10 g \<le> x"
proof -
  obtain k :: int where k: "x = of_int k * pow10 g" using assms(1) by (auto simp: on_grid_def)
  with assms(2) have "0 < k" by (metis of_int_0_less_iff pow10_pos zero_less_mult_pos2)
  then have "1 * pow10 g \<le> of_int k * pow10 g" by (intro mult_right_mono) auto
  then show ?thesis by (simp add: k)
qed

text \<open>
  The loop from a quantity of \<open>n\<close> units of the grid: it returns, and a positive result is
  affordable, lies on the lattice of steps, and every larger point of the lattice is not affordable.
\<close>

definition loop_result ::
  "q1_execution_config \<Rightarrow> decimal \<Rightarrow> decimal \<Rightarrow> decimal \<Rightarrow> decimal \<Rightarrow> rat \<Rightarrow> decimal result \<Rightarrow> bool" where
  "loop_result config settled p n c start r \<longleftrightarrow>
     (case r of
        Inl e \<Rightarrow> True
      | Inr q \<Rightarrow> 0 \<le> dval q \<and> dval q \<le> start
          \<and> (0 < dval q \<longrightarrow> on_grid (dexp (xc_quantity_precision config)) (dval q)
               \<and> (\<exists>cost. fill_cost config p n c q = Inr cost \<and> cost \<le> settled))
          \<and> (\<forall>x i cost. dval q < dval x \<longrightarrow> 0 < dval x \<longrightarrow> dval x = start - of_nat i * dval (xc_quantity_precision config)
               \<longrightarrow> fill_cost config p n c x = Inr cost \<longrightarrow> settled < cost))"

lemma loop_result_Inr:
  assumes "0 \<le> dval q" "dval q \<le> start"
    and "0 < dval q \<Longrightarrow> on_grid (dexp (xc_quantity_precision config)) (dval q)"
    and "0 < dval q \<Longrightarrow> \<exists>cost. fill_cost config p n c q = Inr cost \<and> cost \<le> settled"
    and "\<And>x i cost. dval q < dval x \<Longrightarrow> 0 < dval x \<Longrightarrow> dval x = start - of_nat i * dval (xc_quantity_precision config)
      \<Longrightarrow> fill_cost config p n c x = Inr cost \<Longrightarrow> settled < cost"
  shows "loop_result config settled p n c start (Inr q)"
  using assms by (auto simp: loop_result_def)

lemma affordable_loop_returns:
  assumes u: "0 < dval (xc_quantity_precision config)" "0 \<le> dval (xc_commission_rate config)"
    and pos: "0 \<le> dval p" "0 \<le> dval n" "0 \<le> start"
    and q: "dval q = start - of_nat k * dval (xc_quantity_precision config) \<or> dval q \<le> 0 \<and> start - of_nat k * dval (xc_quantity_precision config) \<le> 0"
      "0 < dval q \<Longrightarrow> on_grid (dexp (xc_quantity_precision config)) (dval q)"
      "dval q \<le> pow10 (dexp (xc_quantity_precision config) + int prec)"
      "dval q \<le> of_nat m * pow10 (dexp (xc_quantity_precision config))"
    and tried: "\<And>x i cost. i < k \<Longrightarrow> 0 < dval x \<Longrightarrow> dval x = start - of_nat i * dval (xc_quantity_precision config)
      \<Longrightarrow> fill_cost config p n c x = Inr cost \<Longrightarrow> settled < cost"
  shows "\<exists>r. affordable_loop config settled p n c q = Some r \<and> loop_result config settled p n c start r"
  using q tried
proof (induction m arbitrary: q k)
  case 0
  note prems = 0
  then have "dval q \<le> 0" by simp
  then have "affordable_loop config settled p n c q = Some (Inr 0)"
    by (subst affordable_loop.simps) (simp add: less_eq_decimal_dval)
  moreover have bound: "i < k" if "0 < dval x" "dval x = start - of_nat i * dval (xc_quantity_precision config)" for x i
  proof (rule ccontr)
    assume "\<not> i < k"
    then have "of_nat k * dval (xc_quantity_precision config) \<le> of_nat i * dval (xc_quantity_precision config)"
      using u(1) by (intro mult_right_mono) auto
    then show False using that prems(1) \<open>dval q \<le> 0\<close> by linarith
  qed
  moreover have "loop_result config settled p n c start (Inr 0)"
    by (rule loop_result_Inr) (use pos(3) prems(5) [OF bound] in simp_all)
  ultimately show ?case by blast
next
  case (Suc m)
  let ?u = "xc_quantity_precision config"
  have below: "i < k" if "0 < dval x" "dval x = start - of_nat i * dval ?u" "dval q \<le> 0 \<or> dval q < dval x" for x i
  proof (rule ccontr)
    assume "\<not> i < k"
    then have "of_nat k * dval ?u \<le> of_nat i * dval ?u" using u(1) by (intro mult_right_mono) auto
    then show False using that Suc.prems(1) by linarith
  qed
  show ?case
  proof (cases "q \<le> 0")
    case True
    have "affordable_loop config settled p n c q = Some (Inr 0)" using True by (subst affordable_loop.simps) simp
    moreover have "loop_result config settled p n c start (Inr 0)"
      by (rule loop_result_Inr) (use pos(3) True Suc.prems(5) [OF below] in \<open>simp_all add: less_eq_decimal_dval\<close>)
    ultimately show ?thesis by blast
  next
    case False
    then have qpos: "0 < dval q" by (simp add: less_eq_decimal_dval)
    then have qk: "dval q = start - of_nat k * dval ?u" using Suc.prems(1) by simp
    show ?thesis
    proof (cases "fill_cost config p n c q")
      case (Inl e)
      then have "affordable_loop config settled p n c q = Some (Inl e)" using False by (subst affordable_loop.simps) simp
      then show ?thesis by (simp add: loop_result_def)
    next
      case (Inr cost)
      show ?thesis
      proof (cases "cost \<le> settled")
        case True
        then have "affordable_loop config settled p n c q = Some (Inr q)" using False Inr by (subst affordable_loop.simps) simp
        moreover have "dval q \<le> start" using qk u(1) by simp
        moreover have "loop_result config settled p n c start (Inr q)"
          by (rule loop_result_Inr)
            (use qpos \<open>dval q \<le> start\<close> Suc.prems(2) Inr True Suc.prems(5) [OF below] in simp_all)
        ultimately show ?thesis by blast
      next
        case exp: False
        then have eq: "affordable_loop config settled p n c q = affordable_loop config settled p n c (q - ?u)"
          using False Inr by (subst affordable_loop.simps) simp
        note g = Suc.prems(2) [OF qpos]
        note sd = step_down [OF g Suc.prems(3) u(1) qpos]
        have Sk: "start - of_nat (Suc k) * dval ?u = dval q - dval ?u" using qk by (simp add: algebra_simps)
        have "pow10 (dexp ?u) \<le> dval ?u"
          using u(1) on_grid_of_int [of "dexp ?u" "scoef ?u"] by (intro grid_step_le) (simp_all add: dval_def)
        moreover have "of_nat (Suc m) * pow10 (dexp ?u) = of_nat m * pow10 (dexp ?u) + pow10 (dexp ?u)" by (simp add: algebra_simps)
        ultimately have le: "dval (q - ?u) \<le> dval q" "dval (q - ?u) \<le> of_nat m * pow10 (dexp ?u)" if "dval (q - ?u) = dval q - dval ?u"
          using that u(1) Suc.prems(4) by linarith+
        have "settled < x'" if "i < Suc k" "0 < dval x" "dval x = start - of_nat i * dval ?u" "fill_cost config p n c x = Inr x'" for x i x'
        proof (cases "i = k")
          case True
          then have "dval x = dval q" using that qk by simp
          then have "dval cost \<le> dval x'" using fill_cost_mono [OF Inr that(4)] pos u(2) qpos by simp
          then show ?thesis using exp by (simp add: less_eq_decimal_dval less_decimal_dval)
        next
          case False
          then have "i < k" using that(1) by simp
          then show ?thesis using that(2-4) by (rule Suc.prems(5))
        qed
        moreover have "dval (q - ?u) \<le> 0 \<Longrightarrow> start - of_nat (Suc k) * dval ?u \<le> 0"
          unfolding Sk dval_minus using ctx_pos [of "dval q - dval ?u"] by (meson not_less)
        moreover have "dval (q - ?u) \<le> 0 \<Longrightarrow> dval (q - ?u) \<le> pow10 x" "dval (q - ?u) \<le> 0 \<Longrightarrow> dval (q - ?u) \<le> of_nat m * pow10 x" for x
          by (meson order_trans pow10_nonneg) (meson mult_nonneg_nonneg of_nat_0_le_iff order_trans pow10_nonneg)
        ultimately show ?thesis
          unfolding eq using sd le Sk Suc.prems(3) by (intro Suc.IH [of "q - ?u" "Suc k"]) (auto intro: order_trans)
      qed
    qed
  qed
qed


section \<open>Properties\<close>

lemma estimate_facts:
  assumes "affordable_estimate config settled p = Inr q" "0 \<le> dval p" "0 \<le> dval (xc_commission_rate config)"
  shows "0 \<le> dval q" "on_grid (dexp (xc_quantity_precision config)) (dval q)"
    "dval q \<le> pow10 (dexp (xc_quantity_precision config) + int prec)"
    "dval q = of_nat (dcoef q) * pow10 (dexp (xc_quantity_precision config))"
proof -
  let ?cash = "py_max 0 (settled - xc_commission_precision config)" and ?den = "p * (1 + xc_commission_rate config)"
  have q: "quantize ROUND_DOWN (xc_quantity_precision config) (d_div ?cash ?den) = Inr q" and den: "dval ?den \<noteq> 0"
    using assms(1) by (auto simp: affordable_estimate_def Let_def rbind_eq_Inr dec_div_Inr)
  have "0 \<le> dval ?den"
    unfolding dval_times dval_plus using assms(2,3) by (intro ctx_nonneg mult_nonneg_nonneg) auto
  then have "0 \<le> dval ?cash / dval ?den" by (simp add: dval_py_max)
  then have "0 \<le> dval (d_div ?cash ?den)" unfolding dval_d_div [OF den] by (rule ctx_nonneg)
  then show nn: "0 \<le> dval q" by (rule quantize_nonneg [OF q])
  show "on_grid (dexp (xc_quantity_precision config)) (dval q)" by (rule quantize_on_grid [OF q])
  show v: "dval q = of_nat (dcoef q) * pow10 (dexp (xc_quantity_precision config))"
    using abs_dval [of q] nn quantize_value(2) [OF q] by simp
  have "of_nat (dcoef q) \<le> (10 ^ prec :: rat)"
    using quantize_value(3) [OF q] by (metis less_imp_le of_nat_le_iff of_nat_numeral of_nat_power)
  then have "of_nat (dcoef q) * pow10 (dexp (xc_quantity_precision config)) \<le> 10 ^ prec * pow10 (dexp (xc_quantity_precision config))"
    by (intro mult_right_mono) auto
  then show "dval q \<le> pow10 (dexp (xc_quantity_precision config) + int prec)"
    unfolding v by (simp add: pow10_add pow10_nat mult.commute)
qed

lemma maximum_affordable_cases:
  assumes "validate_q1_execution_config config = Inr config" "0 < dval ask" "0 \<le> dval notional"
  shows "(\<exists>e. maximum_affordable_quantity config settled ask notional commission = Some (Inl e))
    \<or> (\<exists>p est r. buy_price config ask = Inr p \<and> affordable_estimate config settled p = Inr est
        \<and> maximum_affordable_quantity config settled ask notional commission = Some r
        \<and> loop_result config settled p notional commission (dval est) r)"
proof (cases "rbind (buy_price config ask) (\<lambda>p. rbind (affordable_estimate config settled p) (\<lambda>q. Inr (p, q)))")
  case (Inl e)
  then show ?thesis by (simp add: maximum_affordable_quantity_def)
next
  case (Inr x)
  obtain p est where p: "buy_price config ask = Inr p" and est: "affordable_estimate config settled p = Inr est" and x: "x = (p, est)"
    using Inr by (auto simp: rbind_eq_Inr)
  note c = config_positive [OF assms(1)]
  have "0 \<le> dval (d_div (xc_delay_penalty_bps config) BPS)"
    using c(4) by (auto simp: dval_d_div BPS_def dval_D intro!: ctx_nonneg)
  then have "0 \<le> dval (ask * (1 + d_div (xc_delay_penalty_bps config) BPS))"
    unfolding dval_times dval_plus using assms(2) by (intro ctx_nonneg mult_nonneg_nonneg) auto
  then have p0: "0 \<le> dval p" using quantize_nonneg [OF p [unfolded buy_price_def]] by simp
  note e = estimate_facts [OF est p0 c(2)]
  obtain r where "affordable_loop config settled p notional commission est = Some r"
    "loop_result config settled p notional commission (dval est) r"
    using affordable_loop_returns [OF c(1,2) p0 assms(3) e(1), of est 0 "dcoef est" commission settled] e by auto
  then show ?thesis using p est Inr x by (auto simp: maximum_affordable_quantity_def)
qed

text \<open>
  C31. The search for an affordable quantity always returns: for every validated configuration,
  positive ask and non-negative order notional the loop stops, whatever the settled cash. If it
  returns a quantity, that quantity is not negative and, when positive, is payable from settled
  cash with its incremental commission, while every larger quantity the loop could have chosen
  costs more than the settled cash.\<close>

theorem affordability_search_terminates:
  assumes "validate_q1_execution_config config = Inr config" "0 < dval ask" "0 \<le> dval notional"
  shows "\<exists>r. maximum_affordable_quantity config settled ask notional commission = Some r
    \<and> (\<forall>q. r = Inr q \<longrightarrow> (\<exists>p est. buy_price config ask = Inr p \<and> affordable_estimate config settled p = Inr est
        \<and> loop_result config settled p notional commission (dval est) (Inr q)))"
  using maximum_affordable_cases [OF assms, of settled commission] by auto

theorem affordability_search_terminates_witness:
  "\<exists>r. maximum_affordable_quantity ex_execution (D 1000 0) (D 100 0) 0 0 = Some r
    \<and> (\<forall>q. r = Inr q \<longrightarrow> (\<exists>p est. buy_price ex_execution (D 100 0) = Inr p
        \<and> affordable_estimate ex_execution (D 1000 0) p = Inr est
        \<and> loop_result ex_execution (D 1000 0) p 0 0 (dval est) (Inr q)))"
  by (rule affordability_search_terminates [OF ex_execution_valid]) (simp_all add: dval_D)

end
