(* ===== verification/Scheduler.thy ===== *)
theory Scheduler
  imports Hashing
begin

text \<open>
  The schedule of one market session, \<^verbatim>\<open>src/trading/runtime/q1_scheduler.py\<close>: the cycle slots
  between the open and the close of a versioned session, the window of normal orders and the
  cut-off for increasing risk. The conversion of a New York wall clock to UTC reads the IANA
  time-zone database, so \<^verbatim>\<open>_session_clock\<close> is a parameter \<open>clock_at\<close> of the definitions.
  The two loops over the session have no bound in the source: they are partial functions. Shown:
  for a validated schedule they return, and the slots are exactly the intended grid points, in
  the order in which the cycles have to run.
\<close>

section \<open>Schedule and session\<close>

type_synonym clock = "nat \<times> nat"
type_synonym session_clock = "date \<Rightarrow> clock \<Rightarrow> instant"

record q1_session_schedule =
  ss_first_nav_time_et :: clock
  ss_nav_interval_minutes :: int
  ss_strategic_time_et :: clock
  ss_llm_review_times_et :: "clock list"
  ss_normal_execution_start_et :: clock
  ss_normal_execution_end_et :: clock
  ss_execution_interval_minutes :: int
  ss_no_risk_increase_after_et :: clock

definition validate_q1_session_schedule :: "q1_session_schedule \<Rightarrow> q1_session_schedule result" where
  "validate_q1_session_schedule s =
     (if ss_nav_interval_minutes s \<le> 0 \<or> ss_execution_interval_minutes s \<le> 0
      then Inl (ValueError ''Q1 schedule intervals must be positive'')
      else if ss_normal_execution_end_et s < ss_normal_execution_start_et s
      then Inl (ValueError ''Q1 normal execution window is inverted'')
      else Inr s)"

record market_session =
  ms_session_date :: date
  ms_open_at :: datetime
  ms_close_at :: datetime
  ms_payload_hash :: string
  ms_available_at :: datetime

record versioned_market_session =
  vm_calendar_session_id :: string
  vm_calendar_version :: string
  vm_session_date :: date
  vm_open_at :: instant
  vm_close_at :: instant
  vm_source_payload_hash :: string
  vm_source_available_at :: instant

text \<open>\<^verbatim>\<open>_aware\<close>: a naive timestamp is taken to be UTC.\<close>

fun aware :: "datetime \<Rightarrow> instant" where
  "aware (Naive t) = t"
| "aware (Aware t) = t"

definition from_reference :: "digest \<Rightarrow> market_session \<Rightarrow> string \<Rightarrow> versioned_market_session result" where
  "from_reference H session calendar_version =
     rbind (canonical_time (ms_open_at session)) (\<lambda>open_at.
     rbind (canonical_time (ms_close_at session)) (\<lambda>close_at.
       Inr \<lparr>vm_calendar_session_id =
              stable_id H ''market-calendar-session''
                [VStr calendar_version, VDate (ms_session_date session), VTime open_at, VTime close_at,
                 VStr (ms_payload_hash session)],
            vm_calendar_version = calendar_version, vm_session_date = ms_session_date session,
            vm_open_at = aware (ms_open_at session), vm_close_at = aware (ms_close_at session),
            vm_source_payload_hash = ms_payload_hash session,
            vm_source_available_at = aware (ms_available_at session)\<rparr>))"

section \<open>Slots\<close>

record paper_cycle_slot =
  sl_cycle_kind :: string
  sl_scheduled_at :: instant

definition Q1_CYCLE_PRIORITY :: "string list" where
  "Q1_CYCLE_PRIORITY =
     [''Q1_SETTLEMENT'', ''Q1_BOOTSTRAP'', ''Q1_NAV_RISK'', ''Q1_STRATEGIC'', ''Q1_LLM_REVIEW'',
      ''Q1_EXECUTION'', ''Q1_DAILY_RESULT'']"

text \<open>\<^verbatim>\<open>tuple.index\<close>, or the length of the tuple if the kind is unknown.\<close>

definition cycle_priority :: "string \<Rightarrow> nat" where
  "cycle_priority kind = length (takeWhile (\<lambda>k. k \<noteq> kind) Q1_CYCLE_PRIORITY)"

definition slot_key :: "paper_cycle_slot \<Rightarrow> instant \<times> nat \<times> string" where
  "slot_key s = (sl_scheduled_at s, cycle_priority (sl_cycle_kind s), sl_cycle_kind s)"

definition minutes :: "int \<Rightarrow> instant" where
  "minutes n = n * 60000000"

text \<open>\<^verbatim>\<open>while at < close_at: slots.add(...); at += timedelta(...)\<close>.\<close>

partial_function (option) add_slots ::
  "string \<Rightarrow> instant \<Rightarrow> instant \<Rightarrow> instant \<Rightarrow> paper_cycle_slot list \<Rightarrow> paper_cycle_slot list option" where
  "add_slots kind interval close_at t slots =
     (if t < close_at
      then add_slots kind interval close_at (t + interval)
             (slots @ [\<lparr>sl_cycle_kind = kind, sl_scheduled_at = t\<rparr>])
      else Some slots)"

definition add_review ::
  "session_clock \<Rightarrow> versioned_market_session \<Rightarrow> q1_session_schedule \<Rightarrow> clock
    \<Rightarrow> paper_cycle_slot list \<Rightarrow> paper_cycle_slot list" where
  "add_review clock_at session schedule review_clock slots =
     (let review_at = clock_at (vm_session_date session) review_clock in
      if review_clock \<noteq> ss_strategic_time_et schedule
         \<and> vm_open_at session \<le> review_at \<and> review_at < vm_close_at session
      then slots @ [\<lparr>sl_cycle_kind = ''Q1_LLM_REVIEW'', sl_scheduled_at = review_at\<rparr>]
      else slots)"

definition add_strategic ::
  "session_clock \<Rightarrow> versioned_market_session \<Rightarrow> q1_session_schedule
    \<Rightarrow> paper_cycle_slot list \<Rightarrow> paper_cycle_slot list" where
  "add_strategic clock_at session schedule slots =
     (let strategic_at = clock_at (vm_session_date session) (ss_strategic_time_et schedule) in
      if vm_open_at session \<le> strategic_at \<and> strategic_at < vm_close_at session
      then slots @ [\<lparr>sl_cycle_kind = ''Q1_STRATEGIC'', sl_scheduled_at = strategic_at\<rparr>]
      else slots)"

text \<open>The slots form a set: duplicates are dropped, and the sort key tells any two slots apart.\<close>

definition build_q1_session_slots ::
  "session_clock \<Rightarrow> versioned_market_session \<Rightarrow> q1_session_schedule \<Rightarrow> paper_cycle_slot list result option" where
  "build_q1_session_slots clock_at session schedule =
     (if vm_close_at session \<le> vm_open_at session
      then Some (Inl (ValueError ''Market session close must follow open''))
      else
        let slots = [\<lparr>sl_cycle_kind = ''Q1_SETTLEMENT'', sl_scheduled_at = vm_open_at session\<rparr>,
                     \<lparr>sl_cycle_kind = ''Q1_BOOTSTRAP'', sl_scheduled_at = vm_open_at session\<rparr>,
                     \<lparr>sl_cycle_kind = ''Q1_DAILY_RESULT'', sl_scheduled_at = vm_close_at session\<rparr>];
            first_nav = clock_at (vm_session_date session) (ss_first_nav_time_et schedule) in
        Option.bind
          (add_slots ''Q1_NAV_RISK'' (minutes (ss_nav_interval_minutes schedule)) (vm_close_at session)
             (max (vm_open_at session) first_nav) slots) (\<lambda>slots.
        let slots = add_strategic clock_at session schedule slots;
            slots = fold (add_review clock_at session schedule) (ss_llm_review_times_et schedule) slots in
        Option.bind
          (add_slots ''Q1_EXECUTION'' (minutes (ss_execution_interval_minutes schedule)) (vm_close_at session)
             (vm_open_at session + minutes (ss_execution_interval_minutes schedule)) slots) (\<lambda>slots.
          Some (Inr (sort_key slot_key (remdups slots))))))"

section \<open>Windows\<close>

definition normal_order_window ::
  "session_clock \<Rightarrow> versioned_market_session \<Rightarrow> q1_session_schedule \<Rightarrow> instant \<times> instant" where
  "normal_order_window clock_at session schedule =
     (max (vm_open_at session) (clock_at (vm_session_date session) (ss_normal_execution_start_et schedule)),
      min (clock_at (vm_session_date session) (ss_normal_execution_end_et schedule)) (vm_close_at session))"

definition normal_order_valid_until ::
  "session_clock \<Rightarrow> versioned_market_session \<Rightarrow> q1_session_schedule \<Rightarrow> instant" where
  "normal_order_valid_until clock_at session schedule = snd (normal_order_window clock_at session schedule)"

definition risk_increase_allowed ::
  "session_clock \<Rightarrow> datetime \<Rightarrow> versioned_market_session \<Rightarrow> q1_session_schedule \<Rightarrow> bool" where
  "risk_increase_allowed clock_at instant session schedule =
     (let cutoff = clock_at (vm_session_date session) (ss_no_risk_increase_after_et schedule);
          t = aware instant in
      vm_open_at session \<le> t \<and> t < min cutoff (vm_close_at session))"

definition is_regular_session_time :: "datetime \<Rightarrow> versioned_market_session \<Rightarrow> bool" where
  "is_regular_session_time instant session \<longleftrightarrow>
     vm_open_at session \<le> aware instant \<and> aware instant < vm_close_at session"

section \<open>The loop returns the grid\<close>

lemma add_slots_grid:
  assumes "0 < interval"
  shows "\<exists>added. add_slots kind interval close_at t slots = Some (slots @ added)
    \<and> set added = {\<lparr>sl_cycle_kind = kind, sl_scheduled_at = t + int k * interval\<rparr> |k. t + int k * interval < close_at}"
    (is "\<exists>added. _ \<and> set added = ?grid t")
proof (induction "nat (close_at - t)" arbitrary: t slots rule: less_induct)
  case less
  show ?case
  proof (cases "t < close_at")
    case True
    then have "nat (close_at - (t + interval)) < nat (close_at - t)" using assms by simp
    from less [OF this, of "slots @ [\<lparr>sl_cycle_kind = kind, sl_scheduled_at = t\<rparr>]"] obtain added where
      "add_slots kind interval close_at (t + interval) (slots @ [\<lparr>sl_cycle_kind = kind, sl_scheduled_at = t\<rparr>]) =
        Some ((slots @ [\<lparr>sl_cycle_kind = kind, sl_scheduled_at = t\<rparr>]) @ added)"
      and added: "set added = ?grid (t + interval)" by blast
    then have "add_slots kind interval close_at t slots = Some (slots @ \<lparr>sl_cycle_kind = kind, sl_scheduled_at = t\<rparr> # added)"
      using True by (subst add_slots.simps) simp
    moreover have "?grid t = insert \<lparr>sl_cycle_kind = kind, sl_scheduled_at = t\<rparr> (?grid (t + interval))"
    proof -
      have "(\<exists>k. P (t + int k * interval)) \<longleftrightarrow> P t \<or> (\<exists>k. P (t + interval + int k * interval))" for P
      proof -
        have "(\<exists>k. P (t + int k * interval)) \<longleftrightarrow> P (t + int 0 * interval) \<or> (\<exists>k. P (t + int (Suc k) * interval))"
          by (metis not0_implies_Suc)
        then show ?thesis by (simp add: algebra_simps)
      qed
      then have "s \<in> ?grid t \<longleftrightarrow> s = \<lparr>sl_cycle_kind = kind, sl_scheduled_at = t\<rparr> \<and> t < close_at \<or> s \<in> ?grid (t + interval)" for s
        by (simp only: mem_Collect_eq)
      then show ?thesis using True by blast
    qed
    ultimately show ?thesis using added by (intro exI [of _ "\<lparr>sl_cycle_kind = kind, sl_scheduled_at = t\<rparr> # added"]) simp
  next
    case False
    then have "?grid t = {}" using assms by (auto simp: not_less) (smt (verit) of_nat_0_le_iff zero_le_mult_iff)
    with False show ?thesis by (intro exI [of _ "[]"]) (subst add_slots.simps, simp)
  qed
qed

definition in_session :: "versioned_market_session \<Rightarrow> instant \<Rightarrow> bool" where
  "in_session session t \<longleftrightarrow> vm_open_at session \<le> t \<and> t < vm_close_at session"

lemma mem_add_strategic:
  "s \<in> set (add_strategic clock_at session schedule slots) \<longleftrightarrow> s \<in> set slots
     \<or> (sl_cycle_kind s = ''Q1_STRATEGIC'' \<and> in_session session (sl_scheduled_at s)
        \<and> sl_scheduled_at s = clock_at (vm_session_date session) (ss_strategic_time_et schedule))"
  by (cases s) (auto simp: add_strategic_def Let_def in_session_def)

lemma mem_add_review:
  "s \<in> set (add_review clock_at session schedule c slots) \<longleftrightarrow> s \<in> set slots
     \<or> (sl_cycle_kind s = ''Q1_LLM_REVIEW'' \<and> in_session session (sl_scheduled_at s)
        \<and> c \<noteq> ss_strategic_time_et schedule \<and> sl_scheduled_at s = clock_at (vm_session_date session) c)"
  by (cases s) (auto simp: add_review_def Let_def in_session_def)

lemma mem_add_reviews:
  "s \<in> set (fold (add_review clock_at session schedule) reviews slots) \<longleftrightarrow> s \<in> set slots
     \<or> (sl_cycle_kind s = ''Q1_LLM_REVIEW'' \<and> in_session session (sl_scheduled_at s)
        \<and> (\<exists>c\<in>set reviews. c \<noteq> ss_strategic_time_et schedule \<and> sl_scheduled_at s = clock_at (vm_session_date session) c))"
proof (induction reviews arbitrary: slots)
  case (Cons c reviews)
  show ?case unfolding fold_simps(2) comp_apply Cons mem_add_review by auto
qed simp

lemma slot_key_inj: "inj slot_key"
  by (auto simp: inj_def slot_key_def)

section \<open>Exactly the due slots\<close>

text \<open>What the schedule asks for, without loops.\<close>

definition slot_due ::
  "session_clock \<Rightarrow> versioned_market_session \<Rightarrow> q1_session_schedule \<Rightarrow> string \<Rightarrow> instant \<Rightarrow> bool" where
  "slot_due clock_at session schedule kind t \<longleftrightarrow>
     (let opens = vm_open_at session; closes = vm_close_at session; clk = clock_at (vm_session_date session) in
      kind \<in> {''Q1_SETTLEMENT'', ''Q1_BOOTSTRAP''} \<and> t = opens
      \<or> kind = ''Q1_DAILY_RESULT'' \<and> t = closes
      \<or> opens \<le> t \<and> t < closes
        \<and> (kind = ''Q1_NAV_RISK''
             \<and> (\<exists>k. t = max opens (clk (ss_first_nav_time_et schedule)) + int k * minutes (ss_nav_interval_minutes schedule))
           \<or> kind = ''Q1_STRATEGIC'' \<and> t = clk (ss_strategic_time_et schedule)
           \<or> kind = ''Q1_LLM_REVIEW''
             \<and> (\<exists>c\<in>set (ss_llm_review_times_et schedule). c \<noteq> ss_strategic_time_et schedule \<and> t = clk c)
           \<or> kind = ''Q1_EXECUTION''
             \<and> (\<exists>k. t = opens + int (Suc k) * minutes (ss_execution_interval_minutes schedule))))"

lemma build_slots_set:
  assumes "validate_q1_session_schedule schedule = Inr schedule" "vm_open_at session < vm_close_at session"
  shows "\<exists>slots. build_q1_session_slots clock_at session schedule = Some (Inr (sort_key slot_key (remdups slots)))
    \<and> (\<forall>s. s \<in> set slots \<longleftrightarrow> slot_due clock_at session schedule (sl_cycle_kind s) (sl_scheduled_at s))"
proof -
  let ?nav = "minutes (ss_nav_interval_minutes schedule)" and ?ex = "minutes (ss_execution_interval_minutes schedule)"
  let ?first = "max (vm_open_at session) (clock_at (vm_session_date session) (ss_first_nav_time_et schedule))"
  have pos: "0 < ?nav" "0 < ?ex"
    using assms(1) by (auto simp: validate_q1_session_schedule_def minutes_def split: if_splits)
  let ?base = "[\<lparr>sl_cycle_kind = ''Q1_SETTLEMENT'', sl_scheduled_at = vm_open_at session\<rparr>,
                \<lparr>sl_cycle_kind = ''Q1_BOOTSTRAP'', sl_scheduled_at = vm_open_at session\<rparr>,
                \<lparr>sl_cycle_kind = ''Q1_DAILY_RESULT'', sl_scheduled_at = vm_close_at session\<rparr>]"
  obtain nav where nav: "add_slots ''Q1_NAV_RISK'' ?nav (vm_close_at session) ?first ?base = Some (?base @ nav)"
    "set nav = {\<lparr>sl_cycle_kind = ''Q1_NAV_RISK'', sl_scheduled_at = ?first + int k * ?nav\<rparr> |k. ?first + int k * ?nav < vm_close_at session}"
    using add_slots_grid [OF pos(1)] by blast
  let ?mid = "fold (add_review clock_at session schedule) (ss_llm_review_times_et schedule)
                (add_strategic clock_at session schedule (?base @ nav))"
  obtain ex where ex: "add_slots ''Q1_EXECUTION'' ?ex (vm_close_at session) (vm_open_at session + ?ex) ?mid = Some (?mid @ ex)"
    "set ex = {\<lparr>sl_cycle_kind = ''Q1_EXECUTION'', sl_scheduled_at = vm_open_at session + ?ex + int k * ?ex\<rparr> |k.
       vm_open_at session + ?ex + int k * ?ex < vm_close_at session}"
    using add_slots_grid [OF pos(2)] by blast
  have bounds: "vm_open_at session \<le> ?first + int k * ?nav" "vm_open_at session \<le> vm_open_at session + ?ex + int k * ?ex" for k
    using pos by (auto intro: add_increasing2 order_trans [OF max.cobounded1])
  have "s \<in> set (?mid @ ex) \<longleftrightarrow> slot_due clock_at session schedule (sl_cycle_kind s) (sl_scheduled_at s)" for s
  proof -
    let ?in = "in_session session (sl_scheduled_at s)"
    have n: "s \<in> set nav \<longleftrightarrow> sl_cycle_kind s = ''Q1_NAV_RISK'' \<and> ?in \<and> (\<exists>k. sl_scheduled_at s = ?first + int k * ?nav)"
      unfolding nav(2) in_session_def using bounds(1) by (cases s) auto
    have e: "s \<in> set ex \<longleftrightarrow> sl_cycle_kind s = ''Q1_EXECUTION'' \<and> ?in
        \<and> (\<exists>k. sl_scheduled_at s = vm_open_at session + int (Suc k) * ?ex)"
      unfolding ex(2) in_session_def using bounds(2) by (cases s) (auto simp: distrib_right add.assoc)
    have b: "s \<in> set ?base \<longleftrightarrow> sl_cycle_kind s \<in> {''Q1_SETTLEMENT'', ''Q1_BOOTSTRAP''} \<and> sl_scheduled_at s = vm_open_at session
        \<or> sl_cycle_kind s = ''Q1_DAILY_RESULT'' \<and> sl_scheduled_at s = vm_close_at session"
      by (cases s) auto
    show ?thesis
      unfolding set_append Un_iff mem_add_reviews mem_add_strategic n e b slot_due_def Let_def in_session_def by blast
  qed
  moreover have "build_q1_session_slots clock_at session schedule = Some (Inr (sort_key slot_key (remdups (?mid @ ex))))"
    using assms(2) nav(1) ex(1) by (simp add: build_q1_session_slots_def Let_def)
  ultimately show ?thesis by blast
qed

text \<open>
  C32. For every validated schedule and every session that closes after it opens, whatever the time
  zone rules are, both loops stop and the slots of the session are built: they are exactly the due
  ones, without duplicates, ordered by time and, at equal times, by the priority of the cycles,
  none before the open, and only the daily result at the close.\<close>

theorem session_slots_exact:
  assumes "validate_q1_session_schedule schedule = Inr schedule" "vm_open_at session < vm_close_at session"
  shows "\<exists>slots. build_q1_session_slots clock_at session schedule = Some (Inr slots)
    \<and> distinct slots \<and> sorted (map slot_key slots)
    \<and> (\<forall>s. s \<in> set slots \<longleftrightarrow> slot_due clock_at session schedule (sl_cycle_kind s) (sl_scheduled_at s))
    \<and> (\<forall>s\<in>set slots. vm_open_at session \<le> sl_scheduled_at s
         \<and> (sl_scheduled_at s < vm_close_at session
            \<or> s = \<lparr>sl_cycle_kind = ''Q1_DAILY_RESULT'', sl_scheduled_at = vm_close_at session\<rparr>))"
proof -
  obtain slots where "build_q1_session_slots clock_at session schedule = Some (Inr (sort_key slot_key (remdups slots)))"
    and due: "\<And>s. s \<in> set slots \<longleftrightarrow> slot_due clock_at session schedule (sl_cycle_kind s) (sl_scheduled_at s)"
    using build_slots_set [OF assms, of clock_at] by blast
  moreover have "vm_open_at session \<le> sl_scheduled_at s
       \<and> (sl_scheduled_at s < vm_close_at session
          \<or> s = \<lparr>sl_cycle_kind = ''Q1_DAILY_RESULT'', sl_scheduled_at = vm_close_at session\<rparr>)" if "s \<in> set slots" for s
    using that assms(2) unfolding due slot_due_def Let_def by (cases s) auto
  ultimately show ?thesis by (intro exI [of _ "sort_key slot_key (remdups slots)"]) auto
qed

definition ex_schedule :: q1_session_schedule where
  "ex_schedule =
     \<lparr>ss_first_nav_time_et = (9, 35), ss_nav_interval_minutes = 5, ss_strategic_time_et = (10, 0),
      ss_llm_review_times_et = [(10, 0), (12, 0)], ss_normal_execution_start_et = (10, 0),
      ss_normal_execution_end_et = (15, 30), ss_execution_interval_minutes = 1,
      ss_no_risk_increase_after_et = (15, 30)\<rparr>"

text \<open>Wall clock at a fixed offset of five hours from UTC.\<close>

definition ex_clock :: session_clock where
  "ex_clock d c = minutes (int (fst c) * 60 + int (snd c) + 300)"

definition ex_session :: versioned_market_session where
  "ex_session =
     \<lparr>vm_calendar_session_id = ''cal_1'', vm_calendar_version = ''v1'', vm_session_date = (2026, 1, 5),
      vm_open_at = minutes 870, vm_close_at = minutes 1260, vm_source_payload_hash = ''h'',
      vm_source_available_at = 0\<rparr>"

theorem session_slots_exact_witness:
  "\<exists>slots. build_q1_session_slots ex_clock ex_session ex_schedule = Some (Inr slots)
    \<and> distinct slots \<and> sorted (map slot_key slots)
    \<and> (\<forall>s. s \<in> set slots \<longleftrightarrow> slot_due ex_clock ex_session ex_schedule (sl_cycle_kind s) (sl_scheduled_at s))
    \<and> (\<forall>s\<in>set slots. vm_open_at ex_session \<le> sl_scheduled_at s
         \<and> (sl_scheduled_at s < vm_close_at ex_session
            \<or> s = \<lparr>sl_cycle_kind = ''Q1_DAILY_RESULT'', sl_scheduled_at = vm_close_at ex_session\<rparr>))"
  by (rule session_slots_exact) (simp_all add: ex_schedule_def ex_session_def validate_q1_session_schedule_def minutes_def)

end
