(* ===== verification/Execution.thy ===== *)
theory Execution
  imports Affordability Arm_State Settlement Decision Scheduler
begin

text \<open>
  Preparing the mutations of an execution cycle, \<^verbatim>\<open>src/trading/runtime/q1_execution_cycle.py\<close>:
  the candidates of one cycle are processed sells first, each against the working state of its
  arm and the remaining volume capacity of its symbol; the outcome is a blocked order event or a
  fill together with its cash-settlement event, the next arm state and the order event.
\<close>

section \<open>Records\<close>

record market_quote =
  mq_quote_id :: string
  mq_provider :: string
  mq_feed :: string
  mq_symbol :: string
  mq_event_time :: datetime
  mq_available_at :: datetime
  mq_bid_price :: decimal
  mq_ask_price :: decimal
  mq_bid_size_round_lots :: int
  mq_ask_size_round_lots :: int

record quote_candidate =
  qc_aggregate :: order_aggregate
  qc_intent :: q1_order_intent
  qc_quote :: market_quote
  qc_adv_shares :: decimal
  qc_adv_bar_ids :: "string list"
  qc_remaining_adv_capacity :: decimal
  qc_cumulative_notional_before :: decimal

record prepared_mutation =
  pm_aggregate :: order_aggregate
  pm_intent :: q1_order_intent
  pm_event :: order_event
  pm_fill :: "q1_fill option"
  pm_state_before_sequence :: "int option"
  pm_state_after :: "q1_arm_state option"
  pm_settlement_event :: "cash_settlement_event option"

record paper_cycle =
  pc_cycle_id :: string
  pc_run_id :: string
  pc_status :: string
  pc_lease_owner :: "string option"
  pc_lease_expires_at :: "datetime option"
  pc_attempt_count :: int

text \<open>What the cycle reads from its configuration bundle and from the workspace.\<close>

record execution_runtime =
  er_execution_config :: q1_execution_config
  er_settlement_policy :: settlement_policy
  er_displayed_size_unit_shares :: decimal
  er_maximum_quote_age_seconds :: int
  er_maximum_quote_skew_seconds :: int
  er_schedule :: q1_session_schedule
  er_manifest_hash :: string
  er_code_version :: string

definition Q1_MODEL_VERSION :: string where
  "Q1_MODEL_VERSION = ''q1_runtime_v1''"

definition Q1_BASE_EXECUTION_SCENARIO :: string where
  "Q1_BASE_EXECUTION_SCENARIO = ''Q1_BASE_V1''"

definition lease_owner :: "paper_cycle \<Rightarrow> string result" where
  "lease_owner cycle =
     (case pc_lease_owner cycle of
        None \<Rightarrow> Inl (Q1ExecutionCycleError ''Q1 execution cycle has no lease owner'')
      | Some owner \<Rightarrow> Inr owner)"

definition cycle_provenance :: "execution_runtime \<Rightarrow> paper_cycle \<Rightarrow> string \<Rightarrow> order_event_provenance result" where
  "cycle_provenance rt cycle source_manifest_hash =
     rbind (lease_owner cycle) (\<lambda>owner.
       validate_order_event_provenance
         \<lparr>pv_config_manifest_hash = er_manifest_hash rt, pv_code_version = er_code_version rt,
          pv_model_version = Q1_MODEL_VERSION, pv_source_manifest_hash = source_manifest_hash,
          pv_worker_fence_token = owner, pv_cycle_attempt_count = pc_attempt_count cycle\<rparr>)"

definition cycle_settlement_provenance ::
  "execution_runtime \<Rightarrow> paper_cycle \<Rightarrow> string \<Rightarrow> settlement_provenance result" where
  "cycle_settlement_provenance rt cycle source_manifest_hash =
     rbind (lease_owner cycle) (\<lambda>owner.
       validate_settlement_provenance
         \<lparr>sv_run_id = pc_run_id cycle, sv_source_cycle_id = pc_cycle_id cycle,
          sv_config_manifest_hash = er_manifest_hash rt, sv_code_version = er_code_version rt,
          sv_model_version = Q1_MODEL_VERSION, sv_source_manifest_hash = source_manifest_hash,
          sv_worker_fence_token = owner, sv_cycle_attempt_count = pc_attempt_count cycle\<rparr>)"

text \<open>The arguments of \<^verbatim>\<open>_prepare_fill_mutations\<close> that are the same for every candidate.\<close>

record fill_context =
  fc_runtime :: execution_runtime
  fc_cycle :: paper_cycle
  fc_calendar :: versioned_market_session
  fc_business_calendar :: business_calendar
  fc_settlement_provenance :: settlement_provenance
  fc_provenance :: order_event_provenance
  fc_book_events :: "order_event list"
  fc_now :: instant
  fc_source_manifest_hash :: string

section \<open>Descriptors and blocked orders\<close>

definition intent_descriptor :: "q1_order_intent \<Rightarrow> order_descriptor result" where
  "intent_descriptor intent =
     rbind (parse_order_class (oi_order_class intent)) (\<lambda>cls.
       validate_order_descriptor
         \<lparr>od_order_intent_id = oi_order_intent_id intent, od_arm_id = arm_value (oi_arm_id intent),
          od_portfolio_decision_id = oi_portfolio_decision_id intent, od_symbol = oi_symbol intent,
          od_side = oi_side intent, od_quantity = oi_quantity intent, od_order_class = cls,
          od_created_at = oi_created_at intent, od_valid_until = oi_valid_until intent\<rparr>)"

definition aggregate_for :: "q1_order_intent \<Rightarrow> order_event list \<Rightarrow> order_aggregate result" where
  "aggregate_for intent events = rbind (intent_descriptor intent) (\<lambda>d. reduce_order_events d events None)"

definition blocked_request ::
  "order_event_type \<Rightarrow> instant \<Rightarrow> string \<Rightarrow> string option \<Rightarrow> paper_cycle \<Rightarrow> append_request" where
  "blocked_request event_type now reason quote_id cycle =
     \<lparr>ar_event_type = event_type, ar_occurred_at = Aware now, ar_available_at = Aware now,
      ar_quantity_delta = 0, ar_commission_delta_usd = 0, ar_reason = Some reason, ar_source_id = None,
      ar_quote_id = quote_id, ar_source_cycle_id = Some (pc_cycle_id cycle)\<rparr>"

definition status_mutation :: "order_aggregate \<Rightarrow> q1_order_intent \<Rightarrow> order_event \<Rightarrow> prepared_mutation" where
  "status_mutation aggregate intent event =
     \<lparr>pm_aggregate = aggregate, pm_intent = intent, pm_event = event, pm_fill = None,
      pm_state_before_sequence = None, pm_state_after = None, pm_settlement_event = None\<rparr>"

definition blocked_candidate ::
  "digest \<Rightarrow> fill_context \<Rightarrow> quote_candidate \<Rightarrow> order_event_type \<Rightarrow> string \<Rightarrow> prepared_mutation result" where
  "blocked_candidate H cx candidate event_type reason =
     rbind (append_order_event H (oa_order (qc_aggregate candidate)) (fc_book_events cx)
              (blocked_request event_type (fc_now cx) reason (Some (mq_quote_id (qc_quote candidate))) (fc_cycle cx))
              (fc_provenance cx))
       (\<lambda>event. Inr (status_mutation (qc_aggregate candidate) (qc_intent candidate) event))"

section \<open>The fill of a candidate\<close>

definition sensitivity :: "q1_fill_economics \<Rightarrow> string \<Rightarrow> decimal result" where
  "sensitivity economics bps =
     (case map_of (fe_sensitivity_costs_usd economics) (''plus_'' @ bps @ ''_bps'') of
        None \<Rightarrow> Inl (Q1ExecutionCycleError ''Q1 execution sensitivity is not configured'')
      | Some cost \<Rightarrow> Inr cost)"

definition fill_content ::
  "digest \<Rightarrow> fill_context \<Rightarrow> quote_candidate \<Rightarrow> q1_fill_economics \<Rightarrow> string \<Rightarrow> decimal \<Rightarrow> decimal \<Rightarrow> pyval" where
  "fill_content H cx candidate economics fill_id cost5 cost10 =
     (let intent = qc_intent candidate; quote = qc_quote candidate in
      VDict [(''fill_id'', VStr fill_id), (''order_intent_id'', VStr (oi_order_intent_id intent)),
             (''run_id'', VStr (oi_run_id intent)), (''arm_id'', VStr (arm_value (oi_arm_id intent))),
             (''source_cycle_id'', VStr (pc_cycle_id (fc_cycle cx))), (''quote_id'', VStr (mq_quote_id quote)),
             (''quote_event_time'', VTime (aware (mq_event_time quote))),
             (''quote_available_at'', VTime (aware (mq_available_at quote))),
             (''symbol'', VStr (oi_symbol intent)), (''side'', VStr (side_value (oi_side intent))),
             (''quantity'', VDec (fe_quantity economics)), (''price'', VDec (fe_price economics)),
             (''commission_usd'', VDec (fe_commission_usd economics)),
             (''cumulative_order_commission_usd'', VDec (fe_cumulative_commission_usd economics)),
             (''execution_scenario_id'', VStr Q1_BASE_EXECUTION_SCENARIO),
             (''base_fill_cost_usd'', VDec (fe_base_execution_cost_usd economics)),
             (''sensitivity_5bp_cost_usd'', VDec cost5), (''sensitivity_10bp_cost_usd'', VDec cost10),
             (''effective_at'', VTime (fc_now cx)), (''created_at'', VTime (fc_now cx)),
             (''algorithm_version'', VStr ''q1_math_core_v1''),
             (''config_manifest_hash'', VStr (er_manifest_hash (fc_runtime cx))),
             (''code_version'', VStr (er_code_version (fc_runtime cx))),
             (''model_version'', VStr Q1_MODEL_VERSION),
             (''source_manifest_hash'', VStr (fc_source_manifest_hash cx))])"

definition make_q1_fill :: "digest \<Rightarrow> fill_context \<Rightarrow> quote_candidate \<Rightarrow> q1_fill_economics \<Rightarrow> q1_fill result" where
  "make_q1_fill H cx candidate economics =
     (let intent = qc_intent candidate; quote = qc_quote candidate;
          fill_id = stable_id H ''q1-fill''
            [VStr (oi_order_intent_id intent), VStr (mq_quote_id quote), VStr Q1_BASE_EXECUTION_SCENARIO] in
      rbind (sensitivity economics ''5.0'') (\<lambda>cost5.
      rbind (sensitivity economics ''10.0'') (\<lambda>cost10.
        validate_q1_fill
          \<lparr>vr_algorithm_version = ''q1_math_core_v1'',
           vr_config_manifest_hash = er_manifest_hash (fc_runtime cx),
           vr_code_version = er_code_version (fc_runtime cx), vr_model_version = Q1_MODEL_VERSION,
           vr_source_manifest_hash = fc_source_manifest_hash cx,
           qf_fill_id = fill_id, qf_order_intent_id = oi_order_intent_id intent, qf_run_id = oi_run_id intent,
           qf_arm_id = oi_arm_id intent, qf_source_cycle_id = pc_cycle_id (fc_cycle cx),
           qf_quote_id = mq_quote_id quote, qf_quote_event_time = aware (mq_event_time quote),
           qf_quote_available_at = aware (mq_available_at quote), qf_symbol = oi_symbol intent,
           qf_side = oi_side intent, qf_quantity = fe_quantity economics, qf_price = fe_price economics,
           qf_commission_usd = fe_commission_usd economics,
           qf_cumulative_order_commission_usd = fe_cumulative_commission_usd economics,
           qf_execution_scenario_id = Q1_BASE_EXECUTION_SCENARIO,
           qf_base_fill_cost_usd = fe_base_execution_cost_usd economics,
           qf_sensitivity_5bp_cost_usd = cost5, qf_sensitivity_10bp_cost_usd = cost10,
           qf_effective_at = fc_now cx, qf_created_at = fc_now cx,
           qf_fill_hash = canonical_hash H (fill_content H cx candidate economics fill_id cost5 cost10)\<rparr>)))"

definition contract_fill :: "q1_fill \<Rightarrow> fill result" where
  "contract_fill f =
     validate_fill
       \<lparr>fl_fill_id = qf_fill_id f, fl_order_intent_id = qf_order_intent_id f,
        fl_arm_id = arm_value (qf_arm_id f), fl_symbol = qf_symbol f, fl_side = qf_side f,
        fl_quantity = qf_quantity f, fl_price = qf_price f, fl_commission_usd = qf_commission_usd f,
        fl_execution_scenario_id = qf_execution_scenario_id f, fl_effective_at = qf_effective_at f,
        fl_created_at = qf_created_at f\<rparr>"

definition fill_settlement_event ::
  "digest \<Rightarrow> fill_context \<Rightarrow> q1_order_intent \<Rightarrow> q1_fill \<Rightarrow> cash_settlement_event result" where
  "fill_settlement_event H cx intent f =
     (let now = Aware (fc_now cx); calendar = fc_calendar cx;
          policy = er_settlement_policy (fc_runtime cx) in
      if oi_side intent = BUY
      then record_buy_cash_debit H (oi_arm_id intent) (qf_fill_id f) now (qf_quantity f * qf_price f)
             (qf_commission_usd f) now (vm_calendar_session_id calendar) policy (fc_settlement_provenance cx)
      else record_sell_receivable H (oi_arm_id intent) (qf_fill_id f) now (vm_session_date calendar)
             (qf_quantity f * qf_price f) (qf_commission_usd f) now (vm_calendar_session_id calendar)
             policy (fc_business_calendar cx) (fc_settlement_provenance cx))"

definition required_receivable_id :: "string option \<Rightarrow> string result" where
  "required_receivable_id v =
     (case v of None \<Rightarrow> Inl (Q1ExecutionCycleError ''SELL settlement has no receivable ID'') | Some x \<Rightarrow> Inr x)"

definition required_settlement_date :: "date option \<Rightarrow> date result" where
  "required_settlement_date v =
     (case v of None \<Rightarrow> Inl (Q1ExecutionCycleError ''SELL settlement has no settlement date'') | Some x \<Rightarrow> Inr x)"

definition fill_receivable ::
  "fill_context \<Rightarrow> q1_order_intent \<Rightarrow> q1_fill \<Rightarrow> cash_settlement_event \<Rightarrow> unsettled_receivable option result" where
  "fill_receivable cx intent f event =
     (if oi_side intent = BUY then Inr None
      else
        rbind (required_receivable_id (cs_receivable_id event)) (\<lambda>rid.
        rbind (required_settlement_date (cs_settlement_date event)) (\<lambda>d.
        rbind (validate_unsettled_receivable
                 \<lparr>ur_receivable_id = rid, ur_source_fill_id = qf_fill_id f,
                  ur_amount_usd = cs_unsettled_receivable_delta_usd event, ur_settlement_date = d,
                  ur_created_at = Aware (fc_now cx)\<rparr>) (\<lambda>r.
          Inr (Some r)))))"

definition fill_event_request :: "fill_context \<Rightarrow> quote_candidate \<Rightarrow> q1_fill_economics \<Rightarrow> q1_fill \<Rightarrow> append_request" where
  "fill_event_request cx candidate economics f =
     \<lparr>ar_event_type =
        (if d_eq (fe_quantity economics) (oa_remaining_quantity (qc_aggregate candidate))
         then FILLED else PARTIALLY_FILLED),
      ar_occurred_at = Aware (fc_now cx), ar_available_at = Aware (fc_now cx),
      ar_quantity_delta = fe_quantity economics, ar_commission_delta_usd = fe_commission_usd economics,
      ar_reason = None, ar_source_id = Some (qf_fill_id f),
      ar_quote_id = Some (mq_quote_id (qc_quote candidate)),
      ar_source_cycle_id = Some (pc_cycle_id (fc_cycle cx))\<rparr>"

text \<open>From the economics of a fill to its mutation: guard, fill, cash event, arm state, order event.\<close>

definition fill_mutation ::
  "digest \<Rightarrow> fill_context \<Rightarrow> quote_candidate \<Rightarrow> q1_arm_state \<Rightarrow> q1_fill_economics \<Rightarrow> prepared_mutation result" where
  "fill_mutation H cx candidate state economics =
     (let intent = qc_intent candidate in
      if oi_side intent = BUY
         \<and> as_settled_cash_usd state < fe_quantity economics * fe_price economics + fe_commission_usd economics
      then Inl (Q1ExecutionCycleError ''Settled-cash affordability guard failed'')
      else
        rbind (make_q1_fill H cx candidate economics) (\<lambda>f.
        rbind (fill_settlement_event H cx intent f) (\<lambda>settlement_event.
        rbind (fill_receivable cx intent f settlement_event) (\<lambda>receivable.
        rbind (contract_fill f) (\<lambda>fl.
        rbind (apply_fill state fl receivable) (\<lambda>state_after.
        rbind (append_order_event H (oa_order (qc_aggregate candidate)) (fc_book_events cx)
                 (fill_event_request cx candidate economics f) (fc_provenance cx)) (\<lambda>event.
          Inr \<lparr>pm_aggregate = qc_aggregate candidate, pm_intent = intent, pm_event = event, pm_fill = Some f,
               pm_state_before_sequence = Some (as_sequence state), pm_state_after = Some state_after,
               pm_settlement_event = Some settlement_event\<rparr>)))))))"

section \<open>The loop over the candidates\<close>

record fill_loop =
  lo_states :: "(string, q1_arm_state) dict"
  lo_caps :: "(string \<times> string, decimal) dict"
  lo_mutations :: "prepared_mutation list"

definition candidate_key :: "quote_candidate \<Rightarrow> nat \<times> string \<times> string \<times> string" where
  "candidate_key c =
     (let intent = qc_intent c in
      (if oi_side intent = SELL then 0 else 1, arm_value (oi_arm_id intent), oi_symbol intent,
       oi_order_intent_id intent))"

definition cap_key :: "quote_candidate \<Rightarrow> string \<times> string" where
  "cap_key c = (arm_value (oi_arm_id (qc_intent c)), oi_symbol (qc_intent c))"

text \<open>\<^verbatim>\<open>dict.setdefault\<close>.\<close>

definition set_default :: "('k, 'v) dict \<Rightarrow> 'k \<Rightarrow> 'v \<Rightarrow> 'v \<times> ('k, 'v) dict" where
  "set_default d k v = (case map_of d k of Some w \<Rightarrow> (w, d) | None \<Rightarrow> (v, AList.update k v d))"

definition executable_quantity :: "q1_execution_config \<Rightarrow> quote_candidate \<Rightarrow> q1_arm_state \<Rightarrow> decimal result" where
  "executable_quantity config candidate state =
     (let intent = qc_intent candidate; aggregate = qc_aggregate candidate in
      if oi_side intent = SELL
      then Inr (py_min (oa_remaining_quantity aggregate) (dict_get (as_positions state) (oi_symbol intent) 0))
      else
        rbind (returned (maximum_affordable_quantity config (as_settled_cash_usd state)
                 (mq_ask_price (qc_quote candidate)) (qc_cumulative_notional_before candidate)
                 (oa_cumulative_commission_usd aggregate))) (\<lambda>q.
          Inr (py_min (oa_remaining_quantity aggregate) q)))"

definition candidate_request :: "execution_runtime \<Rightarrow> quote_candidate \<Rightarrow> decimal \<Rightarrow> decimal \<Rightarrow> fill_request" where
  "candidate_request rt candidate executable_remaining remaining_adv =
     (let intent = qc_intent candidate; quote = qc_quote candidate in
      \<lparr>fr_side = oi_side intent, fr_remaining_quantity = executable_remaining,
       fr_bid_price = mq_bid_price quote, fr_ask_price = mq_ask_price quote,
       fr_executable_side_quantity =
         D (if oi_side intent = BUY then mq_ask_size_round_lots quote else mq_bid_size_round_lots quote) 0
         * er_displayed_size_unit_shares rt,
       fr_remaining_adv_capacity = remaining_adv,
       fr_decision_reference_price = oi_decision_reference_price intent,
       fr_decision_spread_bps = oi_decision_spread_bps intent,
       fr_cumulative_notional_before = qc_cumulative_notional_before candidate,
       fr_cumulative_commission_before = oa_cumulative_commission_usd (qc_aggregate candidate)\<rparr>)"

definition add_mutation :: "fill_loop \<Rightarrow> prepared_mutation result \<Rightarrow> fill_loop result" where
  "add_mutation st r = rbind r (\<lambda>m. Inr (st\<lparr>lo_mutations := lo_mutations st @ [m]\<rparr>))"

definition prepare_fill_step :: "digest \<Rightarrow> fill_context \<Rightarrow> quote_candidate \<Rightarrow> fill_loop \<Rightarrow> fill_loop result" where
  "prepare_fill_step H cx candidate st =
     (let intent = qc_intent candidate; arm = arm_value (oi_arm_id intent);
          config = er_execution_config (fc_runtime cx) in
      case map_of (lo_states st) arm of
        None \<Rightarrow> add_mutation st (blocked_candidate H cx candidate BLOCKED_BY_DATA ''ARM_STATE_UNAVAILABLE'')
      | Some state \<Rightarrow>
          let capped = set_default (lo_caps st) (cap_key candidate) (qc_remaining_adv_capacity candidate);
              remaining_adv = fst capped; st = st\<lparr>lo_caps := snd capped\<rparr> in
          rbind (executable_quantity config candidate state) (\<lambda>executable_remaining.
          if executable_remaining \<le> 0 \<or> remaining_adv \<le> 0
          then add_mutation st (blocked_candidate H cx candidate BLOCKED_BY_DATA ''EXECUTION_CAPACITY_UNAVAILABLE'')
          else
            case build_q1_fill_economics (candidate_request (fc_runtime cx) candidate executable_remaining remaining_adv) config of
              Inl e \<Rightarrow>
                if e = Q1PriceGuardViolation
                then add_mutation st (blocked_candidate H cx candidate BLOCKED_BY_PRICE_GUARD ''DYNAMIC_DECISION_PRICE_GUARD'')
                else if is_value_error e
                then add_mutation st (blocked_candidate H cx candidate BLOCKED_BY_DATA ''INVALID_EXECUTION_CAPACITY_OR_QUOTE'')
                else Inl e
            | Inr economics \<Rightarrow>
                rbind (fill_mutation H cx candidate state economics) (\<lambda>m.
                  Inr \<lparr>lo_states = (case pm_state_after m of None \<Rightarrow> lo_states st | Some s \<Rightarrow> AList.update arm s (lo_states st)),
                       lo_caps = AList.update (cap_key candidate) (remaining_adv - fe_quantity economics) (lo_caps st),
                       lo_mutations = lo_mutations st @ [m]\<rparr>)))"

definition prepare_candidates ::
  "digest \<Rightarrow> fill_context \<Rightarrow> quote_candidate list \<Rightarrow> (string, q1_arm_state) dict \<Rightarrow> prepared_mutation list result" where
  "prepare_candidates H cx candidates states =
     rbind (rfold (prepare_fill_step H cx) (sort_key candidate_key candidates)
              \<lparr>lo_states = states, lo_caps = [], lo_mutations = []\<rparr>)
       (\<lambda>st. Inr (lo_mutations st))"

definition prepare_fill_mutations ::
  "digest \<Rightarrow> execution_runtime \<Rightarrow> paper_cycle \<Rightarrow> versioned_market_session \<Rightarrow> date list \<Rightarrow> order_event_provenance
    \<Rightarrow> order_event list \<Rightarrow> instant \<Rightarrow> string \<Rightarrow> quote_candidate list \<Rightarrow> (string, q1_arm_state) dict
    \<Rightarrow> prepared_mutation list result" where
  "prepare_fill_mutations H rt cycle calendar calendar_dates provenance book_events now source_manifest_hash
     candidates states =
     rbind (validate_business_calendar
              \<lparr>bc_version = vm_calendar_version calendar, bc_sessions = calendar_dates\<rparr>) (\<lambda>business_calendar.
     rbind (cycle_settlement_provenance rt cycle source_manifest_hash) (\<lambda>settlement_provenance.
       prepare_candidates H
         \<lparr>fc_runtime = rt, fc_cycle = cycle, fc_calendar = calendar, fc_business_calendar = business_calendar,
          fc_settlement_provenance = settlement_provenance, fc_provenance = provenance,
          fc_book_events = book_events, fc_now = now, fc_source_manifest_hash = source_manifest_hash\<rparr>
         candidates states))"

section \<open>Which exceptions escape\<close>

lemma reduce_raises [raise_intros]: "only_raises is_value_error (reduce_order_events order events as_of)"
  unfolding reduce_order_events_def reduce_ordered_def validate_event_identity_def require_as_of_def
    reduce_step_def apply_event_deltas_def
  by (intro raise_intros; simp)

lemma append_raises [raise_intros]: "only_raises is_value_error (append_order_event H order events r p)"
  unfolding append_order_event_def next_event_state_def validate_order_event_def
  by (intro raise_intros; simp)

lemma cash_event_raises [raise_intros]: "only_raises is_value_error (cash_event H a policy p)"
  unfolding cash_event_def validate_cash_settlement_event_def by (intro raise_intros; simp)

lemma add_business_sessions_raises [raise_intros]: "only_raises is_value_error (add_business_sessions c d n)"
  unfolding add_business_sessions_def require_session_def by (intro raise_intros; simp)

lemma fill_settlement_event_raises [raise_intros]: "only_raises is_value_error (fill_settlement_event H cx intent f)"
  unfolding fill_settlement_event_def record_buy_cash_debit_def record_sell_receivable_def
    validate_policy_calendar_def require_session_def
  by (intro raise_intros; simp)

lemma apply_fill_raises [raise_intros]: "only_raises is_value_error (apply_fill s f r)"
  unfolding apply_fill_def next_state_def validate_q1_arm_state_def by (intro raise_intros; simp)

lemma blocked_candidate_raises [raise_intros]: "only_raises is_value_error (blocked_candidate H cx c ty reason)"
  unfolding blocked_candidate_def by (intro raise_intros)

definition arithmetic_error :: "py_error \<Rightarrow> bool" where
  "arithmetic_error e \<longleftrightarrow> e = InvalidOperation \<or> e = DivisionByZero"

lemma economics_raises:
  "only_raises (\<lambda>e. e = Q1PriceGuardViolation \<or> is_value_error e \<or> arithmetic_error e) (build_q1_fill_economics r config)"
  unfolding build_q1_fill_economics_def adverse_move_def dynamic_guard_bps_def order_commission_def
  by (intro raise_intros; simp add: arithmetic_error_def)

end
