(* ===== verification/Execution_Safety.thy ===== *)
theory Execution_Safety
  imports Execution
begin

text \<open>
  Correctness of the preparation of fills in \<open>Execution\<close>. Shown: only expected exceptions
  escape, in particular the affordability guard never fires; per arm the fills form a chain of
  well-formed states that the cash-settlement events reproduce; the fills of one arm and symbol
  stay within the volume capacity; the order book accepts all events of the cycle together; and
  a small sell whose commission exceeds its notional aborts the preparation.
\<close>

section \<open>Affordability\<close>

lemma build_economics_inputs:
  assumes "build_q1_fill_economics r config = Inr e"
  shows "0 < dval (fr_ask_price r)" "0 < dval (fr_bid_price r)" "0 \<le> dval (fr_cumulative_notional_before r)"
    "0 \<le> dval (fr_cumulative_commission_before r)"
  using assms by (auto simp: build_q1_fill_economics_def Let_def dval_simps not_le not_less split: if_splits)

lemma economics_quantity:
  assumes "validate_q1_execution_config config = Inr config" "build_q1_fill_economics r config = Inr e"
  shows "dval (fe_quantity e) \<le> dval (fr_remaining_quantity r)"
    and "dval (fe_quantity e) \<le> dval (fr_remaining_adv_capacity r)"
    and "on_grid (dexp (xc_quantity_precision config)) (dval (fe_quantity e))"
proof -
  note b = build_q1_fill_economics_Inr [OF assms(2)]
  let ?cap = "py_min (py_min (fr_remaining_quantity r)
      (fr_executable_side_quantity r * xc_displayed_participation config)) (fr_remaining_adv_capacity r)"
  have "0 < xc_displayed_participation config" using validate_q1_execution_config_Inr [OF assms(1)] by blast
  then have "0 < dval (fr_executable_side_quantity r * xc_displayed_participation config)"
    using b(2) by (auto simp: dval_times less_decimal_dval intro!: ctx_pos)
  then have "0 \<le> dval ?cap" using b(1,3) by (simp add: dval_py_min)
  from quantize_down [OF b(7) this] show "dval (fe_quantity e) \<le> dval (fr_remaining_quantity r)"
    "dval (fe_quantity e) \<le> dval (fr_remaining_adv_capacity r)" by (auto simp: dval_py_min)
  show "on_grid (dexp (xc_quantity_precision config)) (dval (fe_quantity e))" by (rule quantize_on_grid [OF b(7)])
qed

lemma executable_quantity_affordable:
  assumes valid: "validate_q1_execution_config config = Inr config" and side: "oi_side (qc_intent c) = BUY"
    and q: "executable_quantity config c s = Inr q"
    and e: "build_q1_fill_economics (candidate_request rt c q adv) config = Inr e"
  shows "dval (fe_quantity e * fe_price e + fe_commission_usd e) \<le> dval (as_settled_cash_usd s)"
proof -
  let ?r = "candidate_request rt c q adv"
  let ?n = "qc_cumulative_notional_before c" and ?c = "oa_cumulative_commission_usd (qc_aggregate c)"
  let ?ask = "mq_ask_price (qc_quote c)" and ?cash = "as_settled_cash_usd s"
  note b = build_q1_fill_economics_Inr [OF e] and inp = build_economics_inputs [OF e]
  have fields: "fr_side ?r = BUY" "fr_remaining_quantity ?r = q" "fr_ask_price ?r = ?ask"
    "fr_cumulative_notional_before ?r = ?n" "fr_cumulative_commission_before ?r = ?c"
    by (simp_all add: candidate_request_def Let_def side)
  obtain q0 where q0: "returned (maximum_affordable_quantity config ?cash ?ask ?n ?c) = Inr q0"
    "q = py_min (oa_remaining_quantity (qc_aggregate c)) q0"
    using q side by (auto simp: executable_quantity_def Let_def rbind_eq_Inr)
  have pos: "0 < dval ?ask" "0 \<le> dval ?n" using inp fields by simp_all
  from maximum_affordable_cases [OF valid pos, of ?cash ?c] q0(1)
  obtain p est where p: "buy_price config ?ask = Inr p" and est: "affordable_estimate config ?cash p = Inr est"
    and lr: "loop_result config ?cash p ?n ?c (dval est) (Inr q0)" by auto
  have price: "fe_price e = p" using b(9) p fields by (simp add: buy_price_def)
  have le: "dval (fe_quantity e) \<le> dval q0" "0 < dval q0"
    using economics_quantity(1) [OF valid e] b(8) fields q0(2) by (auto simp: dval_py_min)
  obtain cost where cost: "fill_cost config p ?n ?c q0 = Inr cost" "cost \<le> ?cash"
    using lr le(2) by (auto simp: loop_result_def)
  have mine: "fill_cost config p ?n ?c (fe_quantity e) = Inr (fe_quantity e * p + py_max 0 (fe_commission_usd e))"
    using b(10,11,12) price fields by (simp add: fill_cost_def Let_def)
  have p0: "0 \<le> dval p"
  proof -
    have "0 \<le> dval (d_div (xc_delay_penalty_bps config) BPS)"
      using config_positive(4) [OF valid] by (auto simp: dval_d_div BPS_def dval_D intro!: ctx_nonneg)
    then have "0 \<le> dval (?ask * (1 + d_div (xc_delay_penalty_bps config) BPS))"
      unfolding dval_times dval_plus using pos(1) by (intro ctx_nonneg mult_nonneg_nonneg) auto
    then show ?thesis using quantize_nonneg [OF p [unfolded buy_price_def]] by simp
  qed
  have "dval (fe_quantity e * p + py_max 0 (fe_commission_usd e)) \<le> dval cost"
    using le pos(2) p0 config_positive(2) [OF valid] by (intro fill_cost_mono [OF mine cost(1)]) auto
  moreover have "dval (py_max 0 (fe_commission_usd e)) = dval (fe_commission_usd e)"
    using b(13) by (simp add: dval_py_max)
  ultimately show ?thesis using cost(2) price by (simp add: dval_plus less_eq_decimal_dval)
qed

lemma fill_cost_raises: "only_raises arithmetic_error (fill_cost config p n c q)"
  unfolding fill_cost_def order_commission_def by (intro raise_intros; simp add: arithmetic_error_def)

lemma affordable_loop_raises: "affordable_loop config cash p n c q = Some r \<Longrightarrow> only_raises arithmetic_error r"
proof (erule affordable_loop.raw_induct [of "\<lambda>config cash p n c q r. only_raises arithmetic_error r", rotated])
  fix loop config cash p n c q r
  assume "\<And>config cash p n c q r. loop config cash p n c q = Some r \<Longrightarrow> only_raises arithmetic_error r"
    "(if q \<le> 0 then Some (Inr 0)
      else case fill_cost config p n c q of
             Inl e \<Rightarrow> Some (Inl e)
           | Inr cost \<Rightarrow> if cost \<le> cash then Some (Inr q) else loop config cash p n c (q - xc_quantity_precision config)) = Some r"
  then show "only_raises arithmetic_error r"
    using fill_cost_raises [of config p n c q] by (auto simp: only_raises_def split: if_splits sum.splits)
qed

lemma maximum_affordable_raises:
  "maximum_affordable_quantity config cash ask n c = Some r \<Longrightarrow> only_raises arithmetic_error r"
proof -
  assume r: "maximum_affordable_quantity config cash ask n c = Some r"
  let ?m = "rbind (buy_price config ask) (\<lambda>p. rbind (affordable_estimate config cash p) (\<lambda>q. Inr (p, q)))"
  have "only_raises arithmetic_error ?m"
    unfolding buy_price_def affordable_estimate_def by (intro raise_intros; simp add: arithmetic_error_def)
  then show ?thesis
    using r by (cases ?m) (auto simp: maximum_affordable_quantity_def only_raises_def
        dest: affordable_loop_raises [unfolded only_raises_def])
qed

lemma executable_quantity_raises:
  assumes "validate_q1_execution_config config = Inr config" "0 < dval (mq_ask_price (qc_quote c))"
    "0 \<le> dval (qc_cumulative_notional_before c)"
  shows "only_raises arithmetic_error (executable_quantity config c s)"
proof -
  let ?m = "maximum_affordable_quantity config (as_settled_cash_usd s) (mq_ask_price (qc_quote c))
      (qc_cumulative_notional_before c) (oa_cumulative_commission_usd (qc_aggregate c))"
  obtain r where r: "?m = Some r" using maximum_affordable_cases [OF assms] by blast
  then have "only_raises arithmetic_error (returned ?m)" using maximum_affordable_raises [OF r] by simp
  then show ?thesis unfolding executable_quantity_def by (intro raise_intros)
qed

text \<open>The one remaining exception of the cycle itself: a sensitivity that is not configured.\<close>

definition expected_error :: "py_error \<Rightarrow> bool" where
  "expected_error e \<longleftrightarrow> is_value_error e \<or> arithmetic_error e
     \<or> e = Q1ExecutionCycleError ''Q1 execution sensitivity is not configured''"

lemma expected_value_error: "only_raises is_value_error m \<Longrightarrow> only_raises expected_error m"
  by (auto simp: expected_error_def elim: only_raises_mono)

text \<open>A sell's receivable takes identity and date from its own cash event, which always has them.\<close>

lemma cash_event_origin:
  assumes "cash_event H a policy p = Inr e"
  shows "cs_source_fill_id e = ca_source_fill_id a" "cs_arm_id e = ca_arm_id a" "cs_gross_amount_usd e = ca_gross_amount a"
    "cs_commission_usd e = ca_commission a" "cs_run_id e = sv_run_id p" "cs_source_cycle_id e = sv_source_cycle_id p"
    "cs_worker_fence_token e = sv_worker_fence_token p" "cs_cycle_attempt_count e = sv_cycle_attempt_count p"
  using assms
  by (auto simp: cash_event_def rbind_eq_Inr build_cash_event_def Let_def dest!: validate_cash_settlement_event_Inr)

lemma fill_settlement_event_Inr:
  assumes "fill_settlement_event H cx intent f = Inr ev"
  shows "cs_source_fill_id ev = Some (qf_fill_id f)" "cs_arm_id ev = oi_arm_id intent" "cs_created_at ev = fc_now cx"
    "cs_gross_amount_usd ev = qf_quantity f * qf_price f" "cs_commission_usd ev = qf_commission_usd f"
    and "oi_side intent = BUY \<Longrightarrow> cs_event_type ev = BUY_SETTLED_CASH_DEBIT
      \<and> cs_settled_cash_delta_usd ev = - (qf_quantity f * qf_price f + qf_commission_usd f)
      \<and> cs_unsettled_receivable_delta_usd ev = 0"
    and "oi_side intent = SELL \<Longrightarrow> cs_event_type ev = SELL_RECEIVABLE_CREATED \<and> cs_settled_cash_delta_usd ev = 0
      \<and> cs_unsettled_receivable_delta_usd ev = qf_quantity f * qf_price f - qf_commission_usd f
      \<and> (\<exists>rid d. cs_receivable_id ev = Some rid \<and> cs_settlement_date ev = Some d)
      \<and> 0 < dval (cs_unsettled_receivable_delta_usd ev)"
proof -
  obtain a where a: "cash_event H a (er_settlement_policy (fc_runtime cx)) (fc_settlement_provenance cx) = Inr ev"
    "ca_source_fill_id a = Some (qf_fill_id f)" "ca_arm_id a = oi_arm_id intent" "ca_created_at a = Aware (fc_now cx)"
    "ca_gross_amount a = qf_quantity f * qf_price f" "ca_commission a = qf_commission_usd f"
    "oi_side intent = BUY \<Longrightarrow> ca_event_type a = BUY_SETTLED_CASH_DEBIT
      \<and> ca_settled_delta a = - (qf_quantity f * qf_price f + qf_commission_usd f) \<and> ca_unsettled_delta a = 0"
    "oi_side intent = SELL \<Longrightarrow> ca_event_type a = SELL_RECEIVABLE_CREATED \<and> ca_settled_delta a = 0
      \<and> ca_unsettled_delta a = qf_quantity f * qf_price f - qf_commission_usd f \<and> 0 < dval (ca_unsettled_delta a)
      \<and> (\<exists>rid d. ca_receivable_id a = Some rid \<and> ca_settlement_date a = Some d)"
  proof (cases "oi_side intent = BUY")
    case True
    then show thesis using assms that
      by (auto simp: fill_settlement_event_def record_buy_cash_debit_def Let_def split: if_splits)
  next
    case False
    then show thesis using assms that
      by (auto simp: fill_settlement_event_def record_sell_receivable_def Let_def rbind_eq_Inr dval_simps not_le
          split: if_splits)
  qed
  then show "cs_source_fill_id ev = Some (qf_fill_id f)" "cs_arm_id ev = oi_arm_id intent" "cs_created_at ev = fc_now cx"
    "cs_gross_amount_usd ev = qf_quantity f * qf_price f" "cs_commission_usd ev = qf_commission_usd f"
    "oi_side intent = BUY \<Longrightarrow> cs_event_type ev = BUY_SETTLED_CASH_DEBIT
      \<and> cs_settled_cash_delta_usd ev = - (qf_quantity f * qf_price f + qf_commission_usd f)
      \<and> cs_unsettled_receivable_delta_usd ev = 0"
    "oi_side intent = SELL \<Longrightarrow> cs_event_type ev = SELL_RECEIVABLE_CREATED \<and> cs_settled_cash_delta_usd ev = 0
      \<and> cs_unsettled_receivable_delta_usd ev = qf_quantity f * qf_price f - qf_commission_usd f
      \<and> (\<exists>rid d. cs_receivable_id ev = Some rid \<and> cs_settlement_date ev = Some d)
      \<and> 0 < dval (cs_unsettled_receivable_delta_usd ev)"
    using cash_event_origin [OF a(1)] cash_event_Inr [OF a(1)] by auto
qed

section \<open>One candidate\<close>

lemma fill_receivable_raises:
  assumes "fill_settlement_event H cx intent f = Inr ev"
  shows "only_raises is_value_error (fill_receivable cx intent f ev)"
proof (cases "oi_side intent")
  case BUY
  then show ?thesis by (simp add: fill_receivable_def raise_intros)
next
  case SELL
  then obtain rid d where "cs_receivable_id ev = Some rid" "cs_settlement_date ev = Some d"
    using fill_settlement_event_Inr(7) [OF assms] by blast
  then show ?thesis
    unfolding fill_receivable_def required_receivable_id_def required_settlement_date_def validate_unsettled_receivable_def
    by (intro raise_intros; simp)
qed

lemma make_q1_fill_raises: "only_raises expected_error (make_q1_fill H cx c e)"
  unfolding make_q1_fill_def sensitivity_def validate_q1_fill_def by (intro raise_intros; simp add: expected_error_def)

lemma fill_mutation_raises:
  assumes "oi_side (qc_intent c) = BUY \<Longrightarrow> dval (fe_quantity e * fe_price e + fe_commission_usd e) \<le> dval (as_settled_cash_usd s)"
  shows "only_raises expected_error (fill_mutation H cx c s e)"
  unfolding fill_mutation_def contract_fill_def validate_fill_def
  using assms
  by (intro raise_intros make_q1_fill_raises expected_value_error [OF fill_settlement_event_raises]
      expected_value_error [OF fill_receivable_raises] expected_value_error [OF apply_fill_raises]
      expected_value_error [OF append_raises]) (auto simp: dval_simps expected_error_def)

lemma add_mutation_raises: "only_raises P r \<Longrightarrow> only_raises P (add_mutation st r)"
  unfolding add_mutation_def by (intro raise_intros)

lemma prepare_fill_step_raises:
  assumes valid: "validate_q1_execution_config (er_execution_config (fc_runtime cx)) = Inr (er_execution_config (fc_runtime cx))"
    and quote: "0 < dval (mq_ask_price (qc_quote c))" "0 \<le> dval (qc_cumulative_notional_before c)"
  shows "only_raises expected_error (prepare_fill_step H cx c st)"
proof -
  let ?cfg = "er_execution_config (fc_runtime cx)"
  note blocked = add_mutation_raises [OF expected_value_error [OF blocked_candidate_raises]]
  have exe: "only_raises expected_error (executable_quantity ?cfg c s)" for s
    by (rule only_raises_mono [OF executable_quantity_raises [OF valid quote]]) (simp add: expected_error_def)
  have econ: "only_raises expected_error
      (case build_q1_fill_economics (candidate_request (fc_runtime cx) c q adv) ?cfg of
         Inl e \<Rightarrow> if e = Q1PriceGuardViolation then add_mutation st1 (blocked_candidate H cx c BLOCKED_BY_PRICE_GUARD ''DYNAMIC_DECISION_PRICE_GUARD'')
            else if is_value_error e then add_mutation st1 (blocked_candidate H cx c BLOCKED_BY_DATA ''INVALID_EXECUTION_CAPACITY_OR_QUOTE'')
            else Inl e
       | Inr economics \<Rightarrow> rbind (fill_mutation H cx c s economics) (\<lambda>m. Inr (F economics m)))"
    if "executable_quantity ?cfg c s = Inr q" for s q adv st1 and F :: "q1_fill_economics \<Rightarrow> prepared_mutation \<Rightarrow> fill_loop"
  proof (cases "build_q1_fill_economics (candidate_request (fc_runtime cx) c q adv) ?cfg")
    case (Inl e)
    then have "e = Q1PriceGuardViolation \<or> is_value_error e \<or> arithmetic_error e"
      using economics_raises by (auto simp: only_raises_def)
    then show ?thesis unfolding Inl sum.case by (intro raise_intros blocked) (auto simp: expected_error_def)
  next
    case (Inr e)
    show ?thesis unfolding Inr sum.case
      by (intro raise_intros fill_mutation_raises executable_quantity_affordable [OF valid _ that Inr])
  qed
  show ?thesis unfolding prepare_fill_step_def by (intro raise_intros blocked exe econ)
qed

lemma prepare_candidates_raises:
  assumes "validate_q1_execution_config (er_execution_config (fc_runtime cx)) = Inr (er_execution_config (fc_runtime cx))"
    and "\<And>c. c \<in> set candidates \<Longrightarrow> 0 < dval (mq_ask_price (qc_quote c)) \<and> 0 \<le> dval (qc_cumulative_notional_before c)"
  shows "only_raises expected_error (prepare_candidates H cx candidates states)"
  unfolding prepare_candidates_def using assms by (intro raise_intros prepare_fill_step_raises) auto

text \<open>What a fill mutation consists of.\<close>

lemma fill_mutation_Inr:
  assumes "fill_mutation H cx c s e = Inr m"
  obtains f ev r fl s' oe where "make_q1_fill H cx c e = Inr f" "fill_settlement_event H cx (qc_intent c) f = Inr ev"
    "fill_receivable cx (qc_intent c) f ev = Inr r" "contract_fill f = Inr fl" "apply_fill s fl r = Inr s'"
    "append_order_event H (oa_order (qc_aggregate c)) (fc_book_events cx) (fill_event_request cx c e f) (fc_provenance cx) = Inr oe"
    "m = \<lparr>pm_aggregate = qc_aggregate c, pm_intent = qc_intent c, pm_event = oe, pm_fill = Some f,
          pm_state_before_sequence = Some (as_sequence s), pm_state_after = Some s', pm_settlement_event = Some ev\<rparr>"
  using assms that by (auto simp: fill_mutation_def Let_def rbind_eq_Inr split: if_splits)

lemma make_q1_fill_Inr:
  assumes "make_q1_fill H cx c e = Inr f"
  shows "qf_arm_id f = oi_arm_id (qc_intent c)" "qf_symbol f = oi_symbol (qc_intent c)" "qf_side f = oi_side (qc_intent c)"
    "qf_quantity f = fe_quantity e" "qf_price f = fe_price e" "qf_commission_usd f = fe_commission_usd e"
    "qf_order_intent_id f = oi_order_intent_id (qc_intent c)" "qf_created_at f = fc_now cx" "qf_effective_at f = fc_now cx"
  using assms by (auto simp: make_q1_fill_def Let_def rbind_eq_Inr validate_q1_fill_def split: if_splits)

lemma contract_fill_Inr:
  assumes "contract_fill f = Inr fl"
  shows "validate_fill fl = Inr fl" "fl_arm_id fl = arm_value (qf_arm_id f)" "fl_symbol fl = qf_symbol f" "fl_side fl = qf_side f"
    "fl_quantity fl = qf_quantity f" "fl_price fl = qf_price f" "fl_commission_usd fl = qf_commission_usd f"
    "fl_fill_id fl = qf_fill_id f"
  using assms by (auto simp: contract_fill_def validate_fill_def split: if_splits)

lemma prepare_fill_step_cases:
  assumes "prepare_fill_step H cx c st = Inr st'"
  obtains
    (blocked) ty reason m where "blocked_candidate H cx c ty reason = Inr m" "ty \<in> {BLOCKED_BY_DATA, BLOCKED_BY_PRICE_GUARD}"
      "lo_states st' = lo_states st" "lo_mutations st' = lo_mutations st @ [m]"
      "lo_caps st' \<in> {lo_caps st, snd (set_default (lo_caps st) (cap_key c) (qc_remaining_adv_capacity c))}"
  | (filled) s q e m s' where "map_of (lo_states st) (arm_value (oi_arm_id (qc_intent c))) = Some s"
      "executable_quantity (er_execution_config (fc_runtime cx)) c s = Inr q"
      "build_q1_fill_economics (candidate_request (fc_runtime cx) c q
         (fst (set_default (lo_caps st) (cap_key c) (qc_remaining_adv_capacity c)))) (er_execution_config (fc_runtime cx)) = Inr e"
      "fill_mutation H cx c s e = Inr m" "pm_state_after m = Some s'"
      "st' = \<lparr>lo_states = AList.update (arm_value (oi_arm_id (qc_intent c))) s' (lo_states st),
         lo_caps = AList.update (cap_key c)
           (fst (set_default (lo_caps st) (cap_key c) (qc_remaining_adv_capacity c)) - fe_quantity e)
           (snd (set_default (lo_caps st) (cap_key c) (qc_remaining_adv_capacity c))),
         lo_mutations = lo_mutations st @ [m]\<rparr>"
proof (cases "map_of (lo_states st) (arm_value (oi_arm_id (qc_intent c)))")
  case None
  then show thesis using assms blocked
    by (auto simp: prepare_fill_step_def Let_def add_mutation_def rbind_eq_Inr)
next
  case (Some s)
  let ?cfg = "er_execution_config (fc_runtime cx)"
  let ?cap = "set_default (lo_caps st) (cap_key c) (qc_remaining_adv_capacity c)"
  obtain q where q: "executable_quantity ?cfg c s = Inr q"
    using assms Some by (auto simp: prepare_fill_step_def Let_def rbind_eq_Inr)
  let ?econ = "build_q1_fill_economics (candidate_request (fc_runtime cx) c q (fst ?cap)) ?cfg"
  show thesis
  proof (cases "q \<le> 0 \<or> fst ?cap \<le> 0")
    case True
    then show thesis using assms Some q blocked
      by (auto simp: prepare_fill_step_def Let_def add_mutation_def rbind_eq_Inr)
  next
    case False
    show thesis
    proof (cases ?econ)
      case (Inl e)
      then show thesis using assms Some q False blocked
        by (auto simp: prepare_fill_step_def Let_def add_mutation_def rbind_eq_Inr split: if_splits)
    next
      case (Inr e)
      then obtain m where m: "fill_mutation H cx c s e = Inr m"
        "st' = \<lparr>lo_states = (case pm_state_after m of None \<Rightarrow> lo_states st
                   | Some s1 \<Rightarrow> AList.update (arm_value (oi_arm_id (qc_intent c))) s1 (lo_states st)),
            lo_caps = AList.update (cap_key c) (fst ?cap - fe_quantity e) (snd ?cap), lo_mutations = lo_mutations st @ [m]\<rparr>"
        using assms Some q False by (auto simp: prepare_fill_step_def Let_def rbind_eq_Inr split: option.splits)
      obtain s' where "pm_state_after m = Some s'" using m(1) by (auto elim!: fill_mutation_Inr)
      then show thesis using filled [OF Some q Inr m(1)] m(2) by simp
    qed
  qed
qed

section \<open>Arm states and cash events agree\<close>

definition arm_receivables :: "q1_arm_state \<Rightarrow> (string, decimal \<times> date) dict" where
  "arm_receivables s = map (\<lambda>r. (ur_receivable_id r, ur_amount_usd r, ur_settlement_date r)) (as_unsettled_receivables s)"

text \<open>The balances that the cash events describe are the ones of the arm, within 28 digits.\<close>

definition cash_agrees :: "cash_state \<Rightarrow> q1_arm_state \<Rightarrow> bool" where
  "cash_agrees b s \<longleftrightarrow>
     dval (fst b) = dval (as_settled_cash_usd s) \<and> ctx (dval (fst b)) = dval (fst b) \<and> snd b = arm_receivables s"

lemma fill_cash_step:
  assumes m: "fill_mutation H cx c s e = Inr m" "pm_state_after m = Some s'" "pm_settlement_event m = Some ev"
    and b: "cash_agrees b s" and wf: "arm_wf s"
  shows "arm_wf s' \<and> as_arm_id s' = as_arm_id s \<and> as_sequence s' = as_sequence s + 1
    \<and> (\<exists>b'. apply_cash_event ev b = Inr b' \<and> cash_agrees b' s')"
proof -
  from m obtain f r fl where f: "make_q1_fill H cx c e = Inr f" and ev: "fill_settlement_event H cx (qc_intent c) f = Inr ev"
    and r: "fill_receivable cx (qc_intent c) f ev = Inr r" and fl: "contract_fill f = Inr fl"
    and s': "apply_fill s fl r = Inr s'" by (elim fill_mutation_Inr) auto
  note ev' = fill_settlement_event_Inr [OF ev] and fl' = contract_fill_Inr [OF fl] and f' = make_q1_fill_Inr [OF f]
  obtain settled recs where bs: "b = (settled, recs)" "dval settled = dval (as_settled_cash_usd s)" "recs = arm_receivables s"
    "ctx (dval settled) = dval settled"
    using b by (cases b) (auto simp: cash_agrees_def)
  have rok: "pred_option receivable_ok r"
    using r ev'(7) by (cases "oi_side (qc_intent c)")
      (auto simp: fill_receivable_def rbind_eq_Inr validate_unsettled_receivable_def receivable_ok_def dval_simps split: if_splits)
  have wf': "arm_wf s'" using apply_fill_exists [OF wf fl'(1) apply_fill_accepted [OF s'] rok] s' by simp
  show ?thesis
  proof (cases "oi_side (qc_intent c)")
    case BUY
    let ?cost = "fl_quantity fl * fl_price fl + fl_commission_usd fl"
    have ns: "next_state s (as_settled_cash_usd s - ?cost) (as_unsettled_receivables s) (new_positions s fl) = Inr s'"
      using s' BUY f' fl' by (simp add: apply_fill_unfold)
    note n = next_state_Inr [OF ns]
    have d: "cs_settled_cash_delta_usd ev = - ?cost" "cs_event_type ev = BUY_SETTLED_CASH_DEBIT"
      using ev'(6) BUY fl' f' by simp_all
    have "dval (settled + - ?cost) = dval (as_settled_cash_usd s - ?cost)"
      using bs(2) by (simp add: dval_simps)
    then have "apply_cash_event ev b = Inr (settled + - ?cost, recs)"
      using d n wf' by (simp add: apply_cash_event_def bs(1) apply_receivable_def less_decimal_dval arm_wf_def)
    moreover have "ctx (dval (settled + - ?cost)) = dval (settled + - ?cost)" by (simp add: dval_plus)
    ultimately show ?thesis using wf' n bs(3) \<open>dval (settled + - ?cost) = _\<close>
      by (auto simp: cash_agrees_def arm_receivables_def)
  next
    case SELL
    obtain rid d where rd: "cs_receivable_id ev = Some rid" "cs_settlement_date ev = Some d" using ev'(7) SELL by blast
    define u where "u = \<lparr>ur_receivable_id = rid, ur_source_fill_id = qf_fill_id f,
      ur_amount_usd = cs_unsettled_receivable_delta_usd ev, ur_settlement_date = d, ur_created_at = Aware (fc_now cx)\<rparr>"
    have u: "r = Some u"
      using r SELL rd by (auto simp: fill_receivable_def rbind_eq_Inr required_receivable_id_def required_settlement_date_def
          u_def validate_unsettled_receivable_Inr)
    have ns: "next_state s (as_settled_cash_usd s) (as_unsettled_receivables s @ [u]) (new_positions s fl) = Inr s'"
      using s' SELL f' fl' u by (simp add: apply_fill_unfold)
    note n = next_state_Inr [OF ns]
    have "rid \<notin> fst ` set recs" using n wf' bs(3) by (auto simp: arm_wf_def arm_receivables_def u_def)
    then have recs: "apply_receivable ev recs = Inr (recs @ [(rid, cs_unsettled_receivable_delta_usd ev, d)])"
      using ev'(7) SELL rd by (auto simp: apply_receivable_def dict_has_iff dict_keys_def update_fresh)
    have zero: "dval (settled + 0) = dval settled" using bs(4) by (simp add: dval_plus)
    have "apply_cash_event ev b = Inr (settled + 0, recs @ [(rid, cs_unsettled_receivable_delta_usd ev, d)])"
      using ev'(7) SELL recs zero bs(2) wf by (simp add: apply_cash_event_def bs(1) less_decimal_dval arm_wf_def)
    then show ?thesis using wf' n bs zero by (auto simp: cash_agrees_def arm_receivables_def u_def)
  qed
qed

section \<open>The states of one arm\<close>

definition arm_fills :: "string \<Rightarrow> prepared_mutation list \<Rightarrow> prepared_mutation list" where
  "arm_fills arm ms = filter (\<lambda>m. pm_fill m \<noteq> None \<and> arm_value (oi_arm_id (pm_intent m)) = arm) ms"

definition settlement_events :: "prepared_mutation list \<Rightarrow> cash_settlement_event list" where
  "settlement_events ms = List.map_filter pm_settlement_event ms"

text \<open>Each fill continues from the state that the previous one left, one sequence number later.\<close>

fun state_chain :: "q1_arm_state \<Rightarrow> prepared_mutation list \<Rightarrow> q1_arm_state \<Rightarrow> bool" where
  "state_chain s [] s' \<longleftrightarrow> s' = s"
| "state_chain s (m # ms) s' \<longleftrightarrow>
     (case pm_state_after m of
        None \<Rightarrow> False
      | Some s1 \<Rightarrow> pm_state_before_sequence m = Some (as_sequence s) \<and> as_sequence s1 = as_sequence s + 1
          \<and> state_chain s1 ms s')"

lemma state_chain_snoc:
  assumes "state_chain s ms s'" "pm_state_after m = Some s''" "pm_state_before_sequence m = Some (as_sequence s')"
    "as_sequence s'' = as_sequence s' + 1"
  shows "state_chain s (ms @ [m]) s''"
  using assms by (induction ms arbitrary: s) (auto split: option.splits)

lemma settlement_events_append: "settlement_events (ms @ ms') = settlement_events ms @ settlement_events ms'"
  by (simp add: settlement_events_def List.map_filter_def)

lemma arm_fills_blocked: "blocked_candidate H cx c ty reason = Inr m \<Longrightarrow> arm_fills arm [m] = []"
  by (auto simp: blocked_candidate_def rbind_eq_Inr status_mutation_def arm_fills_def)

definition arm_follows :: "string \<Rightarrow> q1_arm_state \<Rightarrow> fill_loop \<Rightarrow> bool" where
  "arm_follows arm s0 st \<longleftrightarrow>
     (\<exists>s b. map_of (lo_states st) arm = Some s \<and> state_chain s0 (arm_fills arm (lo_mutations st)) s
       \<and> arm_wf s \<and> as_arm_id s = arm
       \<and> rfold apply_cash_event (settlement_events (arm_fills arm (lo_mutations st)))
           (as_settled_cash_usd s0, arm_receivables s0) = Inr b
       \<and> cash_agrees b s)"

lemma arm_follows_step:
  assumes "arm_follows arm s0 st" "prepare_fill_step H cx c st = Inr st'"
  shows "arm_follows arm s0 st'"
proof -
  obtain s b where s: "map_of (lo_states st) arm = Some s" "state_chain s0 (arm_fills arm (lo_mutations st)) s"
    "arm_wf s" "as_arm_id s = arm" "cash_agrees b s"
    and b: "rfold apply_cash_event (settlement_events (arm_fills arm (lo_mutations st)))
      (as_settled_cash_usd s0, arm_receivables s0) = Inr b"
    using assms(1) by (auto simp: arm_follows_def)
  from assms(2) show ?thesis
  proof (cases rule: prepare_fill_step_cases)
    case (blocked ty reason m)
    then have "arm_fills arm (lo_mutations st') = arm_fills arm (lo_mutations st)"
      using arm_fills_blocked [OF blocked(1)] by (simp add: arm_fills_def)
    then show ?thesis using s b blocked(3) by (auto simp: arm_follows_def)
  next
    case (filled s1 q e m s')
    from filled(4,5) obtain f ev where m: "pm_fill m = Some f" "pm_settlement_event m = Some ev"
      "pm_intent m = qc_intent c" "pm_state_before_sequence m = Some (as_sequence s1)"
      by (elim fill_mutation_Inr) auto
    show ?thesis
    proof (cases "arm_value (oi_arm_id (qc_intent c)) = arm")
      case True
      then have "s1 = s" using filled(1) s(1) by simp
      note step = fill_cash_step [OF filled(4,5) m(2), unfolded \<open>s1 = s\<close>, OF s(5,3)]
      have fills: "arm_fills arm (lo_mutations st') = arm_fills arm (lo_mutations st) @ [m]"
        using m True filled(6) by (simp add: arm_fills_def)
      obtain b' where b': "apply_cash_event ev b = Inr b'" "cash_agrees b' s'" using step by blast
      have "rfold apply_cash_event (settlement_events (arm_fills arm (lo_mutations st')))
          (as_settled_cash_usd s0, arm_receivables s0) = Inr b'"
        using b b'(1) m(2) unfolding fills settlement_events_append
        by (simp add: rfold_snoc settlement_events_def map_filter_simps)
      moreover have "state_chain s0 (arm_fills arm (lo_mutations st')) s'"
        unfolding fills using s(2) filled(5) m(4) \<open>s1 = s\<close> step by (intro state_chain_snoc) auto
      moreover have "map_of (lo_states st') arm = Some s'" using filled(6) True by (simp add: AList.update_conv')
      ultimately show ?thesis using step b'(2) s(4) by (auto simp: arm_follows_def)
    next
      case False
      then have "arm_fills arm (lo_mutations st') = arm_fills arm (lo_mutations st)" "map_of (lo_states st') arm = Some s"
        using m filled(6) s(1) by (simp_all add: arm_fills_def AList.update_conv')
      then show ?thesis using s b by (auto simp: arm_follows_def)
    qed
  qed
qed

lemma prepare_candidates_follow:
  assumes "prepare_candidates H cx candidates states = Inr ms"
    and "map_of states arm = Some s0" "arm_wf s0" "as_arm_id s0 = arm"
    and "ctx (dval (as_settled_cash_usd s0)) = dval (as_settled_cash_usd s0)"
  shows "\<exists>s b. state_chain s0 (arm_fills arm ms) s \<and> arm_wf s \<and> as_arm_id s = arm
    \<and> rfold apply_cash_event (settlement_events (arm_fills arm ms)) (as_settled_cash_usd s0, arm_receivables s0) = Inr b
    \<and> cash_agrees b s"
proof -
  obtain st where st: "rfold (prepare_fill_step H cx) (sort_key candidate_key candidates)
      \<lparr>lo_states = states, lo_caps = [], lo_mutations = []\<rparr> = Inr st" "ms = lo_mutations st"
    using assms(1) by (auto simp: prepare_candidates_def rbind_eq_Inr)
  have "arm_follows arm s0 \<lparr>lo_states = states, lo_caps = [], lo_mutations = []\<rparr>"
    using assms by (simp add: arm_follows_def arm_fills_def settlement_events_def map_filter_simps cash_agrees_def)
  then have "arm_follows arm s0 st"
    by (rule rfold_invariant [where P = "arm_follows arm s0", OF st(1)]) (rule arm_follows_step)
  then show ?thesis using st(2) by (auto simp: arm_follows_def)
qed

section \<open>Traded volume\<close>

definition fill_quantity :: "string \<times> string \<Rightarrow> prepared_mutation \<Rightarrow> rat" where
  "fill_quantity k m =
     (case pm_fill m of
        None \<Rightarrow> 0
      | Some f \<Rightarrow> if (arm_value (qf_arm_id f), qf_symbol f) = k then dval (qf_quantity f) else 0)"

definition filled_quantity :: "string \<times> string \<Rightarrow> prepared_mutation list \<Rightarrow> rat" where
  "filled_quantity k ms = (\<Sum>m\<leftarrow>ms. fill_quantity k m)"

text \<open>The remaining capacity and the volume filled so far add up to the capacity.\<close>

definition volume_split :: "int \<Rightarrow> rat \<Rightarrow> decimal option \<Rightarrow> rat \<Rightarrow> bool" where
  "volume_split g cap left filled \<longleftrightarrow>
     (case left of
        None \<Rightarrow> filled = 0
      | Some r \<Rightarrow> filled + dval r = cap \<and> on_grid g (dval r) \<and> 0 \<le> filled \<and> (filled = 0 \<or> 0 \<le> dval r))"

abbreviation loop_volume :: "int \<Rightarrow> rat \<Rightarrow> string \<times> string \<Rightarrow> fill_loop \<Rightarrow> bool" where
  "loop_volume g cap k st \<equiv> volume_split g cap (map_of (lo_caps st) k) (filled_quantity k (lo_mutations st))"

lemma filled_quantity_snoc: "filled_quantity k (ms @ [m]) = filled_quantity k ms + fill_quantity k m"
  by (simp add: filled_quantity_def)

lemma fill_quantity_blocked: "blocked_candidate H cx c ty reason = Inr m \<Longrightarrow> fill_quantity k m = 0"
  by (auto simp: blocked_candidate_def rbind_eq_Inr status_mutation_def fill_quantity_def)

lemma fill_quantity_filled:
  assumes "fill_mutation H cx c s e = Inr m"
  shows "fill_quantity k m = (if cap_key c = k then dval (fe_quantity e) else 0)"
  using assms by (elim fill_mutation_Inr) (auto simp: fill_quantity_def cap_key_def make_q1_fill_Inr)

lemma volume_split_step:
  assumes valid: "validate_q1_execution_config (er_execution_config (fc_runtime cx)) = Inr (er_execution_config (fc_runtime cx))"
    and g: "g \<le> dexp (xc_quantity_precision (er_execution_config (fc_runtime cx)))" "on_grid g (dval cap)" "dval cap \<le> pow10 (g + int prec)"
    and c: "cap_key c = k \<Longrightarrow> qc_remaining_adv_capacity c = cap"
    and st: "loop_volume g (dval cap) k st" "prepare_fill_step H cx c st = Inr st'"
  shows "loop_volume g (dval cap) k st'"
proof -
  let ?sd = "set_default (lo_caps st) (cap_key c) (qc_remaining_adv_capacity c)"
  have sd: "volume_split g (dval cap) (map_of (snd ?sd) k) (filled_quantity k (lo_mutations st))"
    "map_of (snd ?sd) (cap_key c) = Some (fst ?sd)"
    "cap_key c \<noteq> k \<Longrightarrow> map_of (snd ?sd) k = map_of (lo_caps st) k"
    using st(1) c g by (auto simp: volume_split_def set_default_def AList.update_conv' split: option.splits)
  from st(2) show ?thesis
  proof (cases rule: prepare_fill_step_cases)
    case (blocked ty reason m)
    then have "filled_quantity k (lo_mutations st') = filled_quantity k (lo_mutations st)"
      using fill_quantity_blocked [OF blocked(1)] by (simp add: filled_quantity_snoc)
    then show ?thesis using blocked(5) st(1) sd(1) by auto
  next
    case (filled s q e m s')
    show ?thesis
    proof (cases "cap_key c = k")
      case False
      then show ?thesis using filled(6) st(1) sd(3) fill_quantity_filled [OF filled(4), of k]
        by (simp add: filled_quantity_snoc AList.update_conv')
    next
      case True
      let ?q = "dval (fe_quantity e)" and ?r = "dval (fst ?sd)"
      have old: "filled_quantity k (lo_mutations st) + ?r = dval cap" "on_grid g ?r" "0 \<le> filled_quantity k (lo_mutations st)"
        using sd(1,2) True by (auto simp: volume_split_def)
      have q: "?q \<le> ?r" "0 < ?q" "on_grid (dexp (xc_quantity_precision (er_execution_config (fc_runtime cx)))) ?q"
        using economics_quantity [OF valid filled(3)] build_q1_fill_economics_Inr(8) [OF filled(3)]
        by (simp_all add: candidate_request_def Let_def)
      have "on_grid g (?r - ?q)" using old(2) on_grid_refine [OF q(3) g(1)] by auto
      moreover from this have "ctx (?r - ?q) = ?r - ?q" using q old g(3) by (intro ctx_grid) auto
      ultimately show ?thesis
        using filled(6) True old q(1,2) fill_quantity_filled [OF filled(4), of k]
        by (simp add: volume_split_def filled_quantity_snoc AList.update_conv' dval_minus)
    qed
  qed
qed

lemma prepare_candidates_volume:
  assumes ms: "prepare_candidates H cx candidates states = Inr ms"
    and valid: "validate_q1_execution_config (er_execution_config (fc_runtime cx)) = Inr (er_execution_config (fc_runtime cx))"
    and g: "g \<le> dexp (xc_quantity_precision (er_execution_config (fc_runtime cx)))" "on_grid g (dval cap)" "dval cap \<le> pow10 (g + int prec)"
    and c: "\<And>c. c \<in> set candidates \<Longrightarrow> cap_key c = k \<Longrightarrow> qc_remaining_adv_capacity c = cap"
  shows "0 \<le> filled_quantity k ms \<and> filled_quantity k ms \<le> max 0 (dval cap)"
proof -
  obtain st where st: "rfold (prepare_fill_step H cx) (sort_key candidate_key candidates)
      \<lparr>lo_states = states, lo_caps = [], lo_mutations = []\<rparr> = Inr st" "ms = lo_mutations st"
    using ms by (auto simp: prepare_candidates_def rbind_eq_Inr)
  have "loop_volume g (dval cap) k st"
  proof (rule rfold_invariant [where P = "loop_volume g (dval cap) k", OF st(1)])
    show "loop_volume g (dval cap) k \<lparr>lo_states = states, lo_caps = [], lo_mutations = []\<rparr>"
      by (simp add: volume_split_def filled_quantity_def)
    show "loop_volume g (dval cap) k s'" if "x \<in> set (sort_key candidate_key candidates)" "loop_volume g (dval cap) k s"
      "prepare_fill_step H cx x s = Inr s'" for x s s'
      using volume_split_step [OF valid g _ that(2,3)] c that(1) by simp
  qed
  then show ?thesis using st(2) by (auto simp: volume_split_def split: option.splits)
qed

section \<open>The order book after the cycle\<close>

text \<open>The order event of a mutation was appended to the book for the order of its candidate.\<close>

definition mutation_for :: "digest \<Rightarrow> fill_context \<Rightarrow> quote_candidate \<Rightarrow> prepared_mutation \<Rightarrow> bool" where
  "mutation_for H cx c m \<longleftrightarrow>
     pm_aggregate m = qc_aggregate c \<and> pm_intent m = qc_intent c
     \<and> (\<exists>r. append_order_event H (oa_order (qc_aggregate c)) (fc_book_events cx) r (fc_provenance cx) = Inr (pm_event m)
         \<and> (case pm_fill m of
              None \<Rightarrow> ar_event_type r \<in> {BLOCKED_BY_DATA, BLOCKED_BY_PRICE_GUARD}
            | Some f \<Rightarrow> ar_event_type r \<in> {FILLED, PARTIALLY_FILLED} \<and> ar_quantity_delta r = qf_quantity f
                \<and> ar_commission_delta_usd r = qf_commission_usd f))"

lemma mutation_for_step:
  assumes "prepare_fill_step H cx c st = Inr st'"
  shows "\<exists>m. lo_mutations st' = lo_mutations st @ [m] \<and> mutation_for H cx c m"
  using assms
proof (cases rule: prepare_fill_step_cases)
  case (blocked ty reason m)
  then show ?thesis
    by (auto simp: mutation_for_def blocked_candidate_def rbind_eq_Inr status_mutation_def blocked_request_def)
next
  case (filled s q e m s')
  from filled(4) obtain f oe where f: "make_q1_fill H cx c e = Inr f"
    and oe: "append_order_event H (oa_order (qc_aggregate c)) (fc_book_events cx) (fill_event_request cx c e f) (fc_provenance cx) = Inr oe"
    and m: "pm_aggregate m = qc_aggregate c" "pm_intent m = qc_intent c" "pm_event m = oe" "pm_fill m = Some f"
    by (elim fill_mutation_Inr) simp
  have "mutation_for H cx c m"
    unfolding mutation_for_def m option.case using oe make_q1_fill_Inr [OF f]
    by (intro conjI exI [of _ "fill_event_request cx c e f"] refl) (simp_all add: fill_event_request_def)
  then show ?thesis using filled(6) by simp
qed

lemma mutations_by_candidate:
  assumes "\<And>c st st'. prepare_fill_step H cx c st = Inr st' \<Longrightarrow> \<exists>m. lo_mutations st' = lo_mutations st @ [m] \<and> P c m"
  shows "rfold (prepare_fill_step H cx) cs st = Inr st' \<Longrightarrow>
     \<exists>ms. lo_mutations st' = lo_mutations st @ ms \<and> list_all2 P cs ms"
proof (induction cs arbitrary: st)
  case (Cons c cs)
  then obtain st1 where st1: "prepare_fill_step H cx c st = Inr st1" "rfold (prepare_fill_step H cx) cs st1 = Inr st'"
    by (auto simp: rbind_eq_Inr)
  obtain m where "lo_mutations st1 = lo_mutations st @ [m]" "P c m" using assms [OF st1(1)] by blast
  moreover obtain ms where "lo_mutations st' = lo_mutations st1 @ ms" "list_all2 P cs ms"
    using Cons.IH [OF st1(2)] by blast
  ultimately show ?case by (intro exI [of _ "m # ms"]) simp
qed simp

lemma prepare_candidates_all2:
  assumes "\<And>c st st'. prepare_fill_step H cx c st = Inr st' \<Longrightarrow> \<exists>m. lo_mutations st' = lo_mutations st @ [m] \<and> P c m"
    and "prepare_candidates H cx candidates states = Inr ms"
  shows "list_all2 P (sort_key candidate_key candidates) ms"
  using assms(2) mutations_by_candidate [of H cx P, OF assms(1)] by (fastforce simp: prepare_candidates_def rbind_eq_Inr)

lemma mutation_event:
  assumes "mutation_for H cx c m"
  shows "oe_order_intent_id (pm_event m) = od_order_intent_id (oa_order (pm_aggregate m))"
  using assms by (auto simp: mutation_for_def elim!: append_order_event_Inr)

lemma prepare_candidates_book:
  assumes ms: "prepare_candidates H cx candidates states = Inr ms"
    and distinct: "distinct (map (\<lambda>c. od_order_intent_id (oa_order (qc_aggregate c))) candidates)"
    and m: "m \<in> set ms"
  shows "\<exists>c\<in>set candidates. mutation_for H cx c m
    \<and> reduce_order_events (oa_order (pm_aggregate m)) (fc_book_events cx @ map pm_event ms) None
        = reduce_order_events (oa_order (pm_aggregate m)) (fc_book_events cx @ [pm_event m]) None"
proof -
  have all2: "list_all2 (mutation_for H cx) (sort_key candidate_key candidates) ms"
    by (rule prepare_candidates_all2 [OF mutation_for_step ms])
  let ?id = "\<lambda>c. od_order_intent_id (oa_order (qc_aggregate c))"
  have ids: "map (\<lambda>m. oe_order_intent_id (pm_event m)) ms = map ?id (sort_key candidate_key candidates)"
    using all2 by (induction rule: list_all2_induct) (auto simp: mutation_event mutation_for_def elim!: append_order_event_Inr)
  have "distinct (map ?id (sort_key candidate_key candidates))"
    using distinct distinct_map_mset_cong [of "sort_key candidate_key candidates" candidates ?id] by simp
  then have dist: "distinct (map (\<lambda>m. oe_order_intent_id (pm_event m)) ms)" using ids by simp
  obtain c where c: "c \<in> set candidates" "mutation_for H cx c m" using list_all2_mem(2) [OF all2 m] by auto
  let ?o = "oa_order (pm_aggregate m)"
  have "filter (\<lambda>e. oe_order_intent_id e = od_order_intent_id ?o) (map pm_event ms) = [pm_event m]"
    using filter_unique [OF dist m] mutation_event [OF c(2)] by (simp add: filter_map comp_def)
  then have "visible_events ?o (fc_book_events cx @ map pm_event ms) None = visible_events ?o (fc_book_events cx @ [pm_event m]) None"
    using mutation_event [OF c(2)] by (simp add: visible_events_def)
  then have "reduce_order_events ?o (fc_book_events cx @ map pm_event ms) None = reduce_order_events ?o (fc_book_events cx @ [pm_event m]) None"
    by (simp add: reduce_order_events_def)
  then show ?thesis using c by blast
qed

section \<open>A worked cycle\<close>

text \<open>
  One arm with two shares and 800.97016 dollars; a sell and a buy order of ten shares each, a
  quote at 100 dollars, and volume capacity for nine shares.
\<close>

definition ex_runtime :: execution_runtime where
  "ex_runtime =
     \<lparr>er_execution_config = ex_execution\<lparr>xc_sensitivity_bps := [D 50 (- 1), D 100 (- 1)]\<rparr>,
      er_settlement_policy = \<lparr>sp_version = ''pol'', sp_calendar_version = ''v1'', sp_lag_business_sessions = 1\<rparr>,
      er_displayed_size_unit_shares = D 100 0, er_maximum_quote_age_seconds = 60,
      er_maximum_quote_skew_seconds = 5, er_schedule = ex_schedule, er_manifest_hash = ''cfg'', er_code_version = ''code''\<rparr>"

definition ex_cycle :: paper_cycle where
  "ex_cycle =
     \<lparr>pc_cycle_id = ''cycle'', pc_run_id = ''run'', pc_status = ''RUNNING'', pc_lease_owner = Some ''fence'',
      pc_lease_expires_at = Some (Aware 1000), pc_attempt_count = 1\<rparr>"

definition ex_context :: fill_context where
  "ex_context =
     \<lparr>fc_runtime = ex_runtime, fc_cycle = ex_cycle, fc_calendar = ex_session,
      fc_business_calendar = \<lparr>bc_version = ''v1'', bc_sessions = [(2026, 1, 5), (2026, 1, 6)]\<rparr>,
      fc_settlement_provenance =
        \<lparr>sv_run_id = ''run'', sv_source_cycle_id = ''cycle'', sv_config_manifest_hash = ''cfg'', sv_code_version = ''code'',
         sv_model_version = Q1_MODEL_VERSION, sv_source_manifest_hash = ''src'', sv_worker_fence_token = ''fence'',
         sv_cycle_attempt_count = 1\<rparr>,
      fc_provenance = example_provenance,
      fc_book_events = [example_event ''o1'' 1 CREATED 0 (D 10 0) 0 5, example_event ''o2'' 1 CREATED 0 (D 10 0) 0 5],
      fc_now = 50, fc_source_manifest_hash = ''src''\<rparr>"

definition ex_intent :: "string \<Rightarrow> order_side \<Rightarrow> q1_order_intent" where
  "ex_intent oid side =
     \<lparr>vr_algorithm_version = Q1_ALGORITHM_VERSION, vr_config_manifest_hash = ''cfg'', vr_code_version = ''code'',
      vr_model_version = Q1_MODEL_VERSION, vr_source_manifest_hash = ''src'',
      oi_order_intent_id = oid, oi_run_id = ''run'', oi_arm_id = Q1_DET, oi_portfolio_decision_id = ''dec'',
      oi_risk_decision_id = ''risk'', oi_source_cycle_id = ''strategic'', oi_input_state_sequence = 0,
      oi_symbol = ''SPY'', oi_side = side, oi_order_class = ''NORMAL'', oi_quantity = D 10 0,
      oi_decision_quote_id = ''dq'', oi_decision_reference_price = D 100 0, oi_decision_spread_bps = D 2 0,
      oi_created_at = 5, oi_valid_until = 100, oi_idempotency_key = ''idem'', oi_intent_hash = ''hash''\<rparr>"

definition ex_quote :: market_quote where
  "ex_quote =
     \<lparr>mq_quote_id = ''quote'', mq_provider = ''alpaca'', mq_feed = ''iex'', mq_symbol = ''SPY'', mq_event_time = Aware 40,
      mq_available_at = Aware 45, mq_bid_price = D 100 0, mq_ask_price = D 100 0,
      mq_bid_size_round_lots = 3, mq_ask_size_round_lots = 3\<rparr>"

definition ex_candidate :: "string \<Rightarrow> order_side \<Rightarrow> quote_candidate" where
  "ex_candidate oid side =
     \<lparr>qc_aggregate =
        \<lparr>oa_order = example_order oid side, oa_status = CREATED, oa_remaining_quantity = D 10 0,
         oa_cumulative_filled_quantity = 0, oa_cumulative_commission_usd = 0, oa_latest_event_sequence = 1,
         oa_latest_event_id = oid @ ''1''\<rparr>,
      qc_intent = ex_intent oid side, qc_quote = ex_quote, qc_adv_shares = D 900 0, qc_adv_bar_ids = [],
      qc_remaining_adv_capacity = D 9 0, qc_cumulative_notional_before = 0\<rparr>"

definition ex_cycle_arm :: q1_arm_state where
  "ex_cycle_arm =
     \<lparr>as_arm_id = ''Q1-DET'', as_initial_nav_usd = D 1000 0, as_settled_cash_usd = D 80097016 (- 5),
      as_unsettled_receivables = [], as_positions = [(''SPY'', D 2 0)], as_sequence = 0,
      as_evaluation_anchor_id = None, as_algorithm_version = Q1_ALGORITHM_VERSION\<rparr>"

abbreviation constant_digest :: digest where
  "constant_digest \<equiv> \<lambda>_. ''h''"

lemmas ex_cycle_defs = ex_runtime_def ex_cycle_def ex_context_def ex_intent_def ex_quote_def ex_candidate_def
  ex_cycle_arm_def ex_execution_def

lemma ex_runtime_valid: "validate_q1_execution_config (er_execution_config ex_runtime) = Inr (er_execution_config ex_runtime)"
  by code_simp

lemma ex_sell_quantity: "executable_quantity (er_execution_config ex_runtime) (ex_candidate ''o2'' SELL) ex_cycle_arm = Inr (D 2 0)"
  by code_simp

lemma ex_format: "format_f (Dec False 50 (- 1)) = ''5.0''" "format_f (Dec False 100 (- 1)) = ''10.0''"
  by code_simp+

definition ex_sell_economics :: q1_fill_economics where
  "ex_sell_economics =
     \<lparr>fe_quantity = Dec False 200 (- 2), fe_price = Dec False 999800 (- 4), fe_commission_usd = Dec False 0 0,
      fe_cumulative_notional_usd = Dec False 199960000 (- 6), fe_cumulative_commission_usd = Dec False 0 0,
      fe_base_execution_cost_usd = Dec False 40000 (- 6),
      fe_sensitivity_costs_usd = [(''plus_5.0_bps'', Dec False 1399800 (- 7)), (''plus_10.0_bps'', Dec False 2399600 (- 7))],
      fe_guard_bps = Dec False 10 0, fe_adverse_move_bps = Dec False 0 0\<rparr>"

lemma ex_sell_economics:
  "build_q1_fill_economics (candidate_request ex_runtime (ex_candidate ''o2'' SELL) (D 2 0) (D 9 0)) (er_execution_config ex_runtime)
     = Inr ex_sell_economics"
  apply (simp add: ex_cycle_defs candidate_request_def fill_eval sensitivity_cost_def ex_format ex_sell_economics_def cong: eval_congs split del: if_split)
  done

definition ex_arm_after_sell :: q1_arm_state where
  "ex_arm_after_sell = ex_cycle_arm
     \<lparr>as_unsettled_receivables :=
        [\<lparr>ur_receivable_id = ''q1-receivable_h'', ur_source_fill_id = ''q1-fill_h'', ur_amount_usd = Dec False 199960000 (- 6),
          ur_settlement_date = (2026, 1, 6), ur_created_at = Aware 50\<rparr>],
      as_positions := [], as_sequence := 1\<rparr>"

definition ex_arm_after_buy :: q1_arm_state where
  "ex_arm_after_buy = ex_arm_after_sell
     \<lparr>as_settled_cash_usd := Dec False 100130160 (- 6), as_positions := [(''SPY'', Dec False 700 (- 2))], as_sequence := 2\<rparr>"

lemma ex_sell_mutation:
  "case fill_mutation constant_digest ex_context (ex_candidate ''o2'' SELL) ex_cycle_arm ex_sell_economics of
     Inl e \<Rightarrow> False | Inr m \<Rightarrow> pm_state_after m = Some ex_arm_after_sell"
  by code_simp

lemma ex_buy_quantity: "executable_quantity (er_execution_config ex_runtime) (ex_candidate ''o1'' BUY) ex_arm_after_sell = Inr (Dec False 800 (- 2))"
  by (simp add: ex_cycle_defs ex_arm_after_sell_def executable_quantity_def maximum_affordable_quantity_def buy_price_def affordable_estimate_def
     affordable_loop.simps fill_cost_def order_commission_def BPS_def dec_eval cong: eval_congs split del: if_split)

definition ex_buy_economics :: q1_fill_economics where
  "ex_buy_economics =
     \<lparr>fe_quantity = Dec False 700 (- 2), fe_price = Dec False 1000200 (- 4), fe_commission_usd = Dec False 70 (- 2),
      fe_cumulative_notional_usd = Dec False 700140000 (- 6), fe_cumulative_commission_usd = Dec False 70 (- 2),
      fe_base_execution_cost_usd = Dec False 840000 (- 6),
      fe_sensitivity_costs_usd = [(''plus_5.0_bps'', Dec False 11900700 (- 7)), (''plus_10.0_bps'', Dec False 15401400 (- 7))],
      fe_guard_bps = Dec False 10 0, fe_adverse_move_bps = Dec False 0 0\<rparr>"

lemma ex_buy_economics:
  "build_q1_fill_economics (candidate_request ex_runtime (ex_candidate ''o1'' BUY) (Dec False 800 (- 2)) (Dec False 700 (- 2)))
     (er_execution_config ex_runtime) = Inr ex_buy_economics"
  by (simp add: ex_cycle_defs candidate_request_def fill_eval sensitivity_cost_def ex_format ex_buy_economics_def
      cong: eval_congs split del: if_split)

lemma ex_buy_mutation:
  "case fill_mutation constant_digest ex_context (ex_candidate ''o1'' BUY) ex_arm_after_sell ex_buy_economics of
     Inl e \<Rightarrow> False | Inr m \<Rightarrow> pm_state_after m = Some ex_arm_after_buy"
  by code_simp


abbreviation ex_candidates :: "quote_candidate list" where
  "ex_candidates \<equiv> [ex_candidate ''o1'' BUY, ex_candidate ''o2'' SELL]"

lemma ex_sorted: "sort_key candidate_key ex_candidates = [ex_candidate ''o2'' SELL, ex_candidate ''o1'' BUY]"
  by code_simp

lemma case_Inr_exists: "(case r of Inl e \<Rightarrow> False | Inr m \<Rightarrow> P m) \<Longrightarrow> \<exists>m. r = Inr m \<and> P m"
  by (cases r) auto

lemma ex_candidate_facts [simp]:
  "arm_value (oi_arm_id (qc_intent (ex_candidate x side))) = ''Q1-DET''" "cap_key (ex_candidate x side) = (''Q1-DET'', ''SPY'')"
  "qc_remaining_adv_capacity (ex_candidate x side) = D 9 0" "fc_runtime ex_context = ex_runtime"
  by (simp_all add: ex_candidate_def ex_intent_def ex_context_def cap_key_def)

lemma ex_decimals: "D 9 0 - Dec False 200 (- 2) = Dec False 700 (- 2)" "(D 2 0 \<le> 0) = False" "(D 9 0 \<le> 0) = False"
  "(Dec False 800 (- 2) \<le> 0) = False" "(Dec False 700 (- 2) \<le> 0) = False"
  by code_simp+

lemma ex_prepared:
  "\<exists>ms. prepare_candidates constant_digest ex_context ex_candidates [(''Q1-DET'', ex_cycle_arm)] = Inr ms
    \<and> map pm_state_after ms = [Some ex_arm_after_sell, Some ex_arm_after_buy]"
proof -
  obtain m1 m2 where m: "fill_mutation constant_digest ex_context (ex_candidate ''o2'' SELL) ex_cycle_arm ex_sell_economics = Inr m1"
    "pm_state_after m1 = Some ex_arm_after_sell"
    "fill_mutation constant_digest ex_context (ex_candidate ''o1'' BUY) ex_arm_after_sell ex_buy_economics = Inr m2"
    "pm_state_after m2 = Some ex_arm_after_buy"
    using case_Inr_exists [OF ex_sell_mutation] case_Inr_exists [OF ex_buy_mutation] by blast
  have q: "fe_quantity ex_sell_economics = Dec False 200 (- 2)" by (simp add: ex_sell_economics_def)
  have "prepare_candidates constant_digest ex_context ex_candidates [(''Q1-DET'', ex_cycle_arm)] = Inr [m1, m2]"
    unfolding prepare_candidates_def ex_sorted
    by (simp add: prepare_fill_step_def Let_def set_default_def ex_sell_quantity ex_sell_economics ex_buy_quantity ex_buy_economics
        ex_decimals q m)
  then show ?thesis using m by simp
qed


section \<open>A sell that costs more than it brings\<close>

lemma small_sell_event:
  assumes "oi_side intent = SELL" "validate_policy_calendar (er_settlement_policy (fc_runtime cx)) (fc_business_calendar cx) = Inr ()"
    and "require_session (fc_business_calendar cx) (vm_session_date (fc_calendar cx)) = Inr ()"
    and "0 < dval (qf_quantity f * qf_price f)" "0 \<le> dval (qf_commission_usd f)"
    and "dval (qf_quantity f * qf_price f - qf_commission_usd f) \<le> 0"
  shows "fill_settlement_event H cx intent f = Inl (SettlementError ''SELL net proceeds must be positive'')"
  using assms by (simp add: fill_settlement_event_def record_sell_receivable_def dval_simps)

lemma prepare_candidates_at:
  assumes "sort_key candidate_key candidates = before @ c # after"
    and "rfold (prepare_fill_step H cx) before \<lparr>lo_states = states, lo_caps = [], lo_mutations = []\<rparr> = Inr st"
    and "prepare_fill_step H cx c st = Inl e"
  shows "prepare_candidates H cx candidates states = Inl e"
  using assms by (simp add: prepare_candidates_def rfold_append)

section \<open>Properties\<close>

text \<open>
  C28. For a validated execution configuration, positive asks and non-negative order notionals the
  preparation of fills always returns, and only data errors escape from it: the search for an
  affordable quantity stops, and the guard "settled-cash affordability" never fires, because the
  quantity handed to the fill economics is payable from the settled cash of the working state.\<close>

theorem execution_guard_unreachable:
  assumes "validate_q1_execution_config (er_execution_config rt) = Inr (er_execution_config rt)"
    and "\<forall>c\<in>set candidates. 0 < dval (mq_ask_price (qc_quote c)) \<and> 0 \<le> dval (qc_cumulative_notional_before c)"
  shows "prepare_fill_mutations H rt cycle calendar dates prov book now src candidates states \<noteq> Inl NonTermination
    \<and> prepare_fill_mutations H rt cycle calendar dates prov book now src candidates states
        \<noteq> Inl (Q1ExecutionCycleError ''Settled-cash affordability guard failed'')
    \<and> (\<forall>e. prepare_fill_mutations H rt cycle calendar dates prov book now src candidates states = Inl e \<longrightarrow>
        is_value_error e \<or> e \<in> {InvalidOperation, DivisionByZero}
        \<or> e \<in> {Q1ExecutionCycleError ''Q1 execution sensitivity is not configured'',
                Q1ExecutionCycleError ''Q1 execution cycle has no lease owner''})"
proof -
  let ?P = "\<lambda>e. is_value_error e \<or> e \<in> {InvalidOperation, DivisionByZero}
      \<or> e \<in> {Q1ExecutionCycleError ''Q1 execution sensitivity is not configured'',
              Q1ExecutionCycleError ''Q1 execution cycle has no lease owner''}"
  have loop: "only_raises ?P (prepare_candidates H cx candidates states)" if "fc_runtime cx = rt" for cx
  proof (rule only_raises_mono [OF prepare_candidates_raises])
    show "?P e" if "expected_error e" for e using that by (auto simp: expected_error_def arithmetic_error_def)
  qed (use assms that in simp_all)
  have "only_raises ?P (prepare_fill_mutations H rt cycle calendar dates prov book now src candidates states)"
    unfolding prepare_fill_mutations_def validate_business_calendar_def cycle_settlement_provenance_def
      lease_owner_def validate_settlement_provenance_def
    by (intro raise_intros loop) simp_all
  then show ?thesis by (auto simp: only_raises_def)
qed

theorem execution_guard_unreachable_witness:
  "prepare_fill_mutations constant_digest ex_runtime ex_cycle ex_session [(2026, 1, 5)] example_provenance [] 50 ''src''
     ex_candidates [(''Q1-DET'', ex_cycle_arm)] \<noteq> Inl NonTermination"
proof -
  have "\<forall>c\<in>set ex_candidates. 0 < dval (mq_ask_price (qc_quote c)) \<and> 0 \<le> dval (qc_cumulative_notional_before c)"
    by (simp add: ex_candidate_def ex_quote_def dval_D)
  from execution_guard_unreachable [OF ex_runtime_valid this] show ?thesis by blast
qed

text \<open>
  C29. The fills of one arm are a chain: each starts at the sequence number where the previous one
  ended and every state is well-formed; and the cash-settlement events emitted with them, replayed
  from the arm's opening balances, are all accepted and end in exactly the settled cash and the
  receivables of the last arm state.\<close>

theorem execution_cash_refines_arm:
  assumes "prepare_candidates H cx candidates states = Inr ms" "map_of states arm = Some s0"
    and "arm_wf s0" "as_arm_id s0 = arm" "ctx (dval (as_settled_cash_usd s0)) = dval (as_settled_cash_usd s0)"
  shows "\<exists>s settled receivables. state_chain s0 (arm_fills arm ms) s \<and> arm_wf s \<and> as_arm_id s = arm
    \<and> rfold apply_cash_event (settlement_events (arm_fills arm ms)) (as_settled_cash_usd s0, arm_receivables s0)
        = Inr (settled, receivables)
    \<and> dval settled = dval (as_settled_cash_usd s) \<and> receivables = arm_receivables s"
  using prepare_candidates_follow [OF assms] by (fastforce simp: cash_agrees_def)

lemma ex_cycle_arm_wf: "arm_wf ex_cycle_arm" "ctx (dval (as_settled_cash_usd ex_cycle_arm)) = dval (as_settled_cash_usd ex_cycle_arm)"
proof -
  show "arm_wf ex_cycle_arm"
    by (simp add: ex_cycle_arm_def arm_wf_def dval_D dict_values_def dict_keys_def Q1_ALGORITHM_VERSION_def)
  have "as_settled_cash_usd ex_cycle_arm = D 80097016 (- 5)" by (simp add: ex_cycle_arm_def)
  then show "ctx (dval (as_settled_cash_usd ex_cycle_arm)) = dval (as_settled_cash_usd ex_cycle_arm)"
    using ctx_D [of 80097016 "- 5"] by simp
qed

theorem execution_cash_refines_arm_witness:
  "\<exists>ms s settled receivables.
     prepare_candidates constant_digest ex_context ex_candidates [(''Q1-DET'', ex_cycle_arm)] = Inr ms
     \<and> map pm_state_after ms = [Some ex_arm_after_sell, Some ex_arm_after_buy]
     \<and> state_chain ex_cycle_arm (arm_fills ''Q1-DET'' ms) s
     \<and> rfold apply_cash_event (settlement_events (arm_fills ''Q1-DET'' ms))
         (as_settled_cash_usd ex_cycle_arm, arm_receivables ex_cycle_arm) = Inr (settled, receivables)
     \<and> dval settled = dval (as_settled_cash_usd s)"
proof -
  obtain ms where ms: "prepare_candidates constant_digest ex_context ex_candidates [(''Q1-DET'', ex_cycle_arm)] = Inr ms"
    "map pm_state_after ms = [Some ex_arm_after_sell, Some ex_arm_after_buy]"
    using ex_prepared by (elim exE conjE) (rule that)
  have "map_of [(''Q1-DET'', ex_cycle_arm)] ''Q1-DET'' = Some ex_cycle_arm" "as_arm_id ex_cycle_arm = ''Q1-DET''"
    by (simp_all add: ex_cycle_arm_def)
  then obtain s settled receivables where "state_chain ex_cycle_arm (arm_fills ''Q1-DET'' ms) s"
    "rfold apply_cash_event (settlement_events (arm_fills ''Q1-DET'' ms))
       (as_settled_cash_usd ex_cycle_arm, arm_receivables ex_cycle_arm) = Inr (settled, receivables)"
    "dval settled = dval (as_settled_cash_usd s)"
    using execution_cash_refines_arm [OF ms(1) _ ex_cycle_arm_wf(1) _ ex_cycle_arm_wf(2), of "''Q1-DET''"]
    by (auto simp del: rfold.simps state_chain.simps)
  with ms show ?thesis by (intro exI [of _ ms] exI [of _ s] exI [of _ settled] exI [of _ receivables] conjI)
qed

text \<open>
  However many orders of one arm and symbol are executable in a cycle, together they fill at
  most the remaining volume capacity of that arm and symbol, and nothing if there is none.\<close>

theorem execution_within_volume:
  assumes "prepare_candidates H cx candidates states = Inr ms"
    and "validate_q1_execution_config (er_execution_config (fc_runtime cx)) = Inr (er_execution_config (fc_runtime cx))"
    and "g \<le> dexp (xc_quantity_precision (er_execution_config (fc_runtime cx)))"
    and "on_grid g (dval cap)" "dval cap \<le> pow10 (g + int prec)"
    and "\<forall>c\<in>set candidates. cap_key c = k \<longrightarrow> qc_remaining_adv_capacity c = cap"
  shows "0 \<le> filled_quantity k ms \<and> filled_quantity k ms \<le> max 0 (dval cap)"
  using prepare_candidates_volume [OF assms(1-5)] assms(6) by blast

theorem execution_within_volume_witness:
  "\<exists>ms. prepare_candidates constant_digest ex_context ex_candidates [(''Q1-DET'', ex_cycle_arm)] = Inr ms
    \<and> 0 \<le> filled_quantity (''Q1-DET'', ''SPY'') ms \<and> filled_quantity (''Q1-DET'', ''SPY'') ms \<le> 9"
proof -
  obtain ms where ms: "prepare_candidates constant_digest ex_context ex_candidates [(''Q1-DET'', ex_cycle_arm)] = Inr ms"
    using ex_prepared by blast
  have valid: "validate_q1_execution_config (er_execution_config (fc_runtime ex_context)) = Inr (er_execution_config (fc_runtime ex_context))"
    using ex_runtime_valid by simp
  have g: "- 2 \<le> dexp (xc_quantity_precision (er_execution_config (fc_runtime ex_context)))"
    by (simp add: ex_runtime_def ex_execution_def D_def mkdec_def)
  have nine: "dval (D 9 0) = of_int 900 * pow10 (- 2)" "dval (D 9 0) = 9" "dval (D 9 0) \<le> pow10 (- 2 + int prec)"
    by (simp_all add: dval_D prec_def power_int_def power_divide)
  have "on_grid (- 2) (dval (D 9 0))" unfolding nine(1) by (rule on_grid_of_int)
  from execution_within_volume [OF ms valid g this nine(3), of "(''Q1-DET'', ''SPY'')"] nine(2) ms show ?thesis by auto
qed

text \<open>
  The order events of one cycle fit together: every mutation belongs to a candidate, and after
  all events of the cycle are added to the book every order it touched is accepted by the reducer
  in the status its mutation claims, a fill event carrying exactly the quantity and commission of
  its fill.\<close>

theorem execution_book_consistent:
  assumes "prepare_candidates H cx candidates states = Inr ms" "m \<in> set ms"
    and "distinct (map (\<lambda>c. od_order_intent_id (oa_order (qc_aggregate c))) candidates)"
  shows "\<exists>c a. c \<in> set candidates \<and> pm_aggregate m = qc_aggregate c \<and> pm_intent m = qc_intent c
    \<and> reduce_order_events (oa_order (pm_aggregate m)) (fc_book_events cx @ map pm_event ms) None = Inr a
    \<and> oa_status a = oe_event_type (pm_event m) \<and> oa_latest_event_id a = oe_event_id (pm_event m)
    \<and> (case pm_fill m of
         None \<Rightarrow> oa_status a \<in> {BLOCKED_BY_DATA, BLOCKED_BY_PRICE_GUARD}
       | Some f \<Rightarrow> oa_status a \<in> {FILLED, PARTIALLY_FILLED} \<and> oe_quantity_delta (pm_event m) = qf_quantity f
           \<and> oe_commission_delta_usd (pm_event m) = qf_commission_usd f)"
proof -
  obtain c where c: "c \<in> set candidates" "mutation_for H cx c m"
    and red: "reduce_order_events (oa_order (pm_aggregate m)) (fc_book_events cx @ map pm_event ms) None
        = reduce_order_events (oa_order (pm_aggregate m)) (fc_book_events cx @ [pm_event m]) None"
    using prepare_candidates_book [OF assms(1,3,2)] by blast
  obtain r where r: "append_order_event H (oa_order (pm_aggregate m)) (fc_book_events cx) r (fc_provenance cx) = Inr (pm_event m)"
    and kind: "case pm_fill m of
              None \<Rightarrow> ar_event_type r \<in> {BLOCKED_BY_DATA, BLOCKED_BY_PRICE_GUARD}
            | Some f \<Rightarrow> ar_event_type r \<in> {FILLED, PARTIALLY_FILLED} \<and> ar_quantity_delta r = qf_quantity f
                \<and> ar_commission_delta_usd r = qf_commission_usd f"
    using c(2) by (auto simp: mutation_for_def)
  have e: "oe_event_type (pm_event m) = ar_event_type r" "oe_quantity_delta (pm_event m) = ar_quantity_delta r"
    "oe_commission_delta_usd (pm_event m) = ar_commission_delta_usd r"
    using r by (auto elim!: append_order_event_Inr)
  obtain a where "reduce_order_events (oa_order (pm_aggregate m)) (fc_book_events cx @ [pm_event m]) None = Inr a"
    "oa_status a = ar_event_type r" "oa_latest_event_id a = oe_event_id (pm_event m)"
    using append_reduces [OF r] by blast
  then show ?thesis using c kind e red by (intro exI [of _ c] exI [of _ a]) (auto simp: mutation_for_def split: option.splits)
qed

theorem execution_book_consistent_witness:
  "\<exists>ms. prepare_candidates constant_digest ex_context ex_candidates [(''Q1-DET'', ex_cycle_arm)] = Inr ms
    \<and> (\<forall>m\<in>set ms. \<exists>a. reduce_order_events (oa_order (pm_aggregate m)) (fc_book_events ex_context @ map pm_event ms) None = Inr a
        \<and> oa_status a = oe_event_type (pm_event m))"
proof -
  obtain ms where ms: "prepare_candidates constant_digest ex_context ex_candidates [(''Q1-DET'', ex_cycle_arm)] = Inr ms"
    using ex_prepared by blast
  have "distinct (map (\<lambda>c. od_order_intent_id (oa_order (qc_aggregate c))) ex_candidates)"
    by (simp add: ex_candidate_def example_order_def)
  from execution_book_consistent [OF ms _ this] ms show ?thesis by blast
qed

text \<open>
  C30. A sell whose incremental commission reaches its notional aborts the whole preparation: the
  fill economics accept it, but building its receivable raises, and the exception is not one of
  those that turn a candidate into a blocked order. Neither this order nor any later candidate of
  any arm is processed.\<close>

theorem small_sell_aborts_cycle:
  assumes "sort_key candidate_key candidates = before @ c # after"
    and "rfold (prepare_fill_step H cx) before \<lparr>lo_states = states, lo_caps = [], lo_mutations = []\<rparr> = Inr st"
    and "map_of (lo_states st) (arm_value (oi_arm_id (qc_intent c))) = Some s" "oi_side (qc_intent c) = SELL"
    and "executable_quantity (er_execution_config (fc_runtime cx)) c s = Inr q"
    and "build_q1_fill_economics (candidate_request (fc_runtime cx) c q
           (fst (set_default (lo_caps st) (cap_key c) (qc_remaining_adv_capacity c)))) (er_execution_config (fc_runtime cx)) = Inr e"
    and "make_q1_fill H cx c e = Inr f"
    and "validate_policy_calendar (er_settlement_policy (fc_runtime cx)) (fc_business_calendar cx) = Inr ()"
    and "require_session (fc_business_calendar cx) (vm_session_date (fc_calendar cx)) = Inr ()"
    and "dval (fe_quantity e * fe_price e - fe_commission_usd e) \<le> 0"
  shows "prepare_candidates H cx candidates states = Inl (SettlementError ''SELL net proceeds must be positive'')"
proof (rule prepare_candidates_at [OF assms(1,2)])
  let ?cap = "set_default (lo_caps st) (cap_key c) (qc_remaining_adv_capacity c)"
  note f = make_q1_fill_Inr [OF assms(7)] and b = build_q1_fill_economics_Inr [OF assms(6)]
  have "0 < dval (fe_price e)"
    using assms(7) by (auto simp: make_q1_fill_def Let_def rbind_eq_Inr validate_q1_fill_def dval_simps split: if_splits)
  then have "0 < dval (qf_quantity f * qf_price f)" using b(8) f by (auto simp: dval_times intro!: ctx_pos)
  then have "fill_settlement_event H cx (qc_intent c) f = Inl (SettlementError ''SELL net proceeds must be positive'')"
    using assms(4,8-10) f b(13) by (intro small_sell_event) auto
  then have "fill_mutation H cx c s e = Inl (SettlementError ''SELL net proceeds must be positive'')"
    using assms(4,7) by (simp add: fill_mutation_def)
  moreover have "\<not> q \<le> 0" "\<not> fst ?cap \<le> 0"
    using b(1,3) by (auto simp: candidate_request_def Let_def less_eq_decimal_dval)
  ultimately show "prepare_fill_step H cx c st = Inl (SettlementError ''SELL net proceeds must be positive'')"
    using assms(3,5,6) by (simp add: prepare_fill_step_def Let_def)
qed

text \<open>
  The configured increments: a millionth of a share, a cent of commission at ten basis points. The
  order has sold 14.9998 dollars for one cent; the last three millionths bring 0.0003 dollars.
\<close>

definition ex_small_runtime :: execution_runtime where
  "ex_small_runtime = ex_runtime\<lparr>er_execution_config :=
     \<lparr>xc_displayed_participation = D 10 (- 2), xc_adv_participation = D 25 (- 3), xc_delay_penalty_bps = D 10 (- 1),
      xc_guard_min_bps = D 20 0, xc_guard_max_bps = D 75 0, xc_guard_spread_multiplier = D 30 (- 1),
      xc_quantity_precision = D 1 (- 6), xc_price_precision = D 1 (- 4), xc_commission_rate = D 1 (- 3),
      xc_commission_waiver_threshold_usd = D 100 (- 1), xc_commission_precision = D 1 (- 2),
      xc_sensitivity_bps = [D 50 (- 1), D 100 (- 1)]\<rparr>\<rparr>"

definition ex_small_context :: fill_context where
  "ex_small_context = ex_context\<lparr>fc_runtime := ex_small_runtime\<rparr>"

definition ex_small_candidate :: quote_candidate where
  "ex_small_candidate = (ex_candidate ''o2'' SELL)
     \<lparr>qc_aggregate := (qc_aggregate (ex_candidate ''o2'' SELL))
        \<lparr>oa_remaining_quantity := D 3 (- 6), oa_cumulative_commission_usd := D 1 (- 2)\<rparr>,
      qc_cumulative_notional_before := D 149998 (- 4)\<rparr>"

definition ex_small_economics :: q1_fill_economics where
  "ex_small_economics =
     \<lparr>fe_quantity = Dec False 3 (- 6), fe_price = Dec False 999900 (- 4), fe_commission_usd = Dec False 1 (- 2),
      fe_cumulative_notional_usd = Dec False 150000999700 (- 10), fe_cumulative_commission_usd = Dec False 2 (- 2),
      fe_base_execution_cost_usd = Dec False 100000300 (- 10),
      fe_sensitivity_costs_usd = [(''plus_5.0_bps'', Dec False 10000179985 (- 12)), (''plus_10.0_bps'', Dec False 1000032997 (- 11))],
      fe_guard_bps = Dec False 20 0, fe_adverse_move_bps = Dec False 0 0\<rparr>"

lemma ex_small_economics:
  "build_q1_fill_economics (candidate_request ex_small_runtime ex_small_candidate (D 3 (- 6)) (D 9 0)) (er_execution_config ex_small_runtime)
     = Inr ex_small_economics"
  by (simp add: ex_small_runtime_def ex_small_candidate_def ex_cycle_defs candidate_request_def fill_eval sensitivity_cost_def
      ex_format ex_small_economics_def cong: eval_congs split del: if_split)

lemma ex_small_facts:
  "executable_quantity (er_execution_config ex_small_runtime) ex_small_candidate ex_cycle_arm = Inr (D 3 (- 6))"
  "case make_q1_fill constant_digest ex_small_context ex_small_candidate ex_small_economics of Inl e \<Rightarrow> False | Inr f \<Rightarrow> True"
  "validate_policy_calendar (er_settlement_policy (fc_runtime ex_small_context)) (fc_business_calendar ex_small_context) = Inr ()"
  "require_session (fc_business_calendar ex_small_context) (vm_session_date (fc_calendar ex_small_context)) = Inr ()"
  "fe_quantity ex_small_economics * fe_price ex_small_economics - fe_commission_usd ex_small_economics \<le> 0"
  "sort_key candidate_key [ex_candidate ''o1'' BUY, ex_small_candidate] = [] @ ex_small_candidate # [ex_candidate ''o1'' BUY]"
  by code_simp+

theorem small_sell_aborts_cycle_witness:
  "prepare_candidates constant_digest ex_small_context [ex_candidate ''o1'' BUY, ex_small_candidate] [(''Q1-DET'', ex_cycle_arm)]
     = Inl (SettlementError ''SELL net proceeds must be positive'')"
proof -
  obtain f where f: "make_q1_fill constant_digest ex_small_context ex_small_candidate ex_small_economics = Inr f"
    using ex_small_facts(2) by (auto split: sum.splits)
  have c: "arm_value (oi_arm_id (qc_intent ex_small_candidate)) = ''Q1-DET''" "oi_side (qc_intent ex_small_candidate) = SELL"
    "qc_remaining_adv_capacity ex_small_candidate = D 9 0" "fc_runtime ex_small_context = ex_small_runtime"
    by (simp_all add: ex_small_candidate_def ex_small_context_def ex_candidate_def ex_intent_def)
  show ?thesis
    by (rule small_sell_aborts_cycle [OF ex_small_facts(6) _ _ c(2) _ _ f ex_small_facts(3,4)
          ex_small_facts(5) [unfolded less_eq_decimal_dval dval_0], where s = ex_cycle_arm and q = "D 3 (- 6)"
          and st = "\<lparr>lo_states = [(''Q1-DET'', ex_cycle_arm)], lo_caps = [], lo_mutations = []\<rparr>"])
      (simp_all add: c ex_small_facts(1) ex_small_economics set_default_def)
qed

end
