(* ===== verification/Replay.thy ===== *)
theory Replay
  imports Execution_Safety Planning Risk_Engine
begin

text \<open>
  The replay audit of \<^verbatim>\<open>src/trading/replay/q1.py\<close>: every stored record is re-hashed from its own
  fields, order events and cash events are matched with the fills they belong to, and the arm
  states are reconstructed from fills and settlements. Shown: what planning, execution, the risk
  engine and settlement write, the audit accepts, record by record; the reconstruction of the arm
  states reproduces the states of the execution cycle; and the one place where it does not, the
  target quantity of a reduction order, which the audit recomputes in a different text form.
\<close>

section \<open>Hashes of stored records\<close>

text \<open>JSON data read back from storage.\<close>

fun as_pyval :: "cval \<Rightarrow> pyval" where
  "as_pyval CNull = VNone"
| "as_pyval (CBool b) = VBool b"
| "as_pyval (CInt i) = VInt i"
| "as_pyval (CStr s) = VStr s"
| "as_pyval (CList xs) = VList (map as_pyval xs)"
| "as_pyval (CDict kvs) = VDict (map (\<lambda>(k, v). (k, as_pyval v)) kvs)"

definition replay_decision_hash :: "digest \<Rightarrow> q1_strategy_decision \<Rightarrow> string" where
  "replay_decision_hash H d =
     canonical_hash H (VDict
       [(''run_id'', VStr (sd_run_id d)), (''arm_id'', VStr (arm_value (sd_arm_id d))),
        (''algorithm_version'', VStr (vr_algorithm_version d)),
        (''source_cycle_id'', VStr (sd_source_cycle_id d)),
        (''input_state_sequence'', VInt (sd_input_state_sequence d)),
        (''decision_kind'', VStr (sd_decision_kind d)), (''scheduled_at'', VTime (sd_scheduled_at d)),
        (''signal_data_cutoff'', VTime (sd_signal_data_cutoff d)),
        (''portfolio_state_as_of'', VTime (sd_portfolio_state_as_of d)),
        (''quote_as_of'', VTime (sd_quote_as_of d)),
        (''decision_created_at'', VTime (sd_decision_created_at d)),
        (''valid_until'', VTime (sd_valid_until d)),
        (''target_weights'', weights_value (sd_target_weights d)),
        (''diagnostics'', as_pyval (sd_diagnostics d)),
        (''input_manifest'', manifest_value (sd_input_manifest d))])"

definition decision_identity_valid :: "digest \<Rightarrow> q1_strategy_decision \<Rightarrow> bool" where
  "decision_identity_valid H d \<longleftrightarrow>
     stable_id H ''q1-portfolio-decision''
       [VStr (sd_run_id d), VStr (arm_value (sd_arm_id d)), VTime (sd_scheduled_at d), VStr (sd_decision_hash d)]
     = sd_portfolio_decision_id d"

definition replay_order_event_hash :: "digest \<Rightarrow> order_event \<Rightarrow> string" where
  "replay_order_event_hash H e =
     canonical_hash H (VDict
       [(''order_intent_id'', VStr (oe_order_intent_id e)),
        (''event_type'', VStr (order_event_type_value (oe_event_type e))),
        (''event_sequence'', VInt (oe_event_sequence e)), (''quantity_delta'', VDec (oe_quantity_delta e)),
        (''commission_delta_usd'', VDec (oe_commission_delta_usd e)),
        (''remaining_quantity'', VDec (oe_remaining_quantity e)), (''occurred_at'', VTime (oe_occurred_at e)),
        (''source_id'', vopt VStr (oe_source_id e)), (''quote_id'', vopt VStr (oe_quote_id e)),
        (''source_cycle_id'', vopt VStr (oe_source_cycle_id e)),
        (''cumulative_filled_quantity'', VDec (oe_cumulative_filled_quantity e)),
        (''cumulative_commission_usd'', VDec (oe_cumulative_commission_usd e)),
        (''reason'', vopt VStr (oe_reason e)), (''config_manifest_hash'', VStr (vr_config_manifest_hash e)),
        (''code_version'', VStr (vr_code_version e)), (''model_version'', VStr (vr_model_version e)),
        (''source_manifest_hash'', VStr (vr_source_manifest_hash e))])"

text \<open>\<^verbatim>\<open>item.model_dump(exclude={"fill_hash"})\<close>.\<close>

definition replay_fill_hash :: "digest \<Rightarrow> q1_fill \<Rightarrow> string" where
  "replay_fill_hash H f =
     canonical_hash H (VDict
       [(''fill_id'', VStr (qf_fill_id f)), (''order_intent_id'', VStr (qf_order_intent_id f)),
        (''run_id'', VStr (qf_run_id f)), (''arm_id'', VStr (arm_value (qf_arm_id f))),
        (''source_cycle_id'', VStr (qf_source_cycle_id f)), (''quote_id'', VStr (qf_quote_id f)),
        (''quote_event_time'', VTime (qf_quote_event_time f)),
        (''quote_available_at'', VTime (qf_quote_available_at f)),
        (''symbol'', VStr (qf_symbol f)), (''side'', VStr (side_value (qf_side f))),
        (''quantity'', VDec (qf_quantity f)), (''price'', VDec (qf_price f)),
        (''commission_usd'', VDec (qf_commission_usd f)),
        (''cumulative_order_commission_usd'', VDec (qf_cumulative_order_commission_usd f)),
        (''execution_scenario_id'', VStr (qf_execution_scenario_id f)),
        (''base_fill_cost_usd'', VDec (qf_base_fill_cost_usd f)),
        (''sensitivity_5bp_cost_usd'', VDec (qf_sensitivity_5bp_cost_usd f)),
        (''sensitivity_10bp_cost_usd'', VDec (qf_sensitivity_10bp_cost_usd f)),
        (''effective_at'', VTime (qf_effective_at f)), (''created_at'', VTime (qf_created_at f)),
        (''algorithm_version'', VStr (vr_algorithm_version f)),
        (''config_manifest_hash'', VStr (vr_config_manifest_hash f)),
        (''code_version'', VStr (vr_code_version f)), (''model_version'', VStr (vr_model_version f)),
        (''source_manifest_hash'', VStr (vr_source_manifest_hash f))])"

definition replay_risk_episode_hash :: "digest \<Rightarrow> risk_episode \<Rightarrow> string" where
  "replay_risk_episode_hash H ep =
     canonical_hash H (VDict
       [(''run_id'', VStr (re_run_id ep)), (''arm_id'', VStr (arm_value (re_arm_id ep))),
        (''calendar_session_id'', VStr (re_calendar_session_id ep)),
        (''severity'', VStr (severity_value (re_severity ep))), (''triggered_at'', VTime (re_triggered_at ep)),
        (''target_manifest_hash'', VStr (re_target_manifest_hash ep)),
        (''trigger_nav_usd'', VDec (re_trigger_nav_usd ep)), (''daily_loss'', VDec (re_daily_loss ep)),
        (''run_drawdown'', VDec (re_run_drawdown ep)),
        (''config_manifest_hash'', VStr (vr_config_manifest_hash ep)),
        (''code_version'', VStr (vr_code_version ep)), (''model_version'', VStr (vr_model_version ep)),
        (''source_manifest_hash'', VStr (vr_source_manifest_hash ep))])"

definition replay_risk_event_hash :: "digest \<Rightarrow> risk_episode_event \<Rightarrow> string" where
  "replay_risk_event_hash H e =
     canonical_hash H (VDict
       [(''risk_episode_id'', VStr (rv_risk_episode_id e)),
        (''event_type'', VStr (risk_event_type_value (rv_event_type e))),
        (''event_sequence'', VInt (rv_event_sequence e)), (''severity'', VStr (severity_value (rv_severity e))),
        (''target_generation'', VInt (rv_target_generation e)),
        (''targets'', VList (map target_payload (rv_targets e))),
        (''target_symbol'', vopt VStr (rv_target_symbol e)),
        (''observed_quantity'', vopt VDec (rv_observed_quantity e)),
        (''residual_quantity'', vopt VDec (rv_residual_quantity e)),
        (''occurred_at'', VTime (rv_occurred_at e)), (''source_cycle_id'', vopt VStr (rv_source_cycle_id e)),
        (''config_manifest_hash'', VStr (vr_config_manifest_hash e)),
        (''code_version'', VStr (vr_code_version e)), (''model_version'', VStr (vr_model_version e)),
        (''source_manifest_hash'', VStr (vr_source_manifest_hash e))])"

definition replay_cash_identity :: "cash_settlement_event \<Rightarrow> (string, pyval) dict" where
  "replay_cash_identity e =
     [(''run_id'', VStr (cs_run_id e)), (''arm_id'', VStr (arm_value (cs_arm_id e))),
      (''event_type'', VStr (cash_event_type_value (cs_event_type e))),
      (''receivable_id'', vopt VStr (cs_receivable_id e)), (''source_fill_id'', vopt VStr (cs_source_fill_id e)),
      (''settled_delta'', VDec (cs_settled_cash_delta_usd e)),
      (''unsettled_delta'', VDec (cs_unsettled_receivable_delta_usd e)),
      (''effective_at'', VTime (cs_effective_at e)),
      (''policy_version'', VStr (cs_settlement_policy_version e)),
      (''source_cycle_id'', VStr (cs_source_cycle_id e))]"

definition replay_settlement_event_hash :: "digest \<Rightarrow> cash_settlement_event \<Rightarrow> string" where
  "replay_settlement_event_hash H e =
     canonical_hash H (VDict (replay_cash_identity e @
       [(''gross_amount'', VDec (cs_gross_amount_usd e)), (''commission'', VDec (cs_commission_usd e)),
        (''trade_at'', vopt VTime (cs_trade_at e)),
        (''settlement_date'', vopt (\<lambda>d. VStr (date_iso d)) (cs_settlement_date e)),
        (''calendar_session_id'', VStr (cs_calendar_session_id e)),
        (''config_manifest_hash'', VStr (vr_config_manifest_hash e)),
        (''code_version'', VStr (vr_code_version e)), (''model_version'', VStr (vr_model_version e)),
        (''source_manifest_hash'', VStr (vr_source_manifest_hash e))]))"

section \<open>Intents\<close>

type_synonym states_by_sequence = "(string \<times> int, q1_arm_state) dict"

definition replay_intent_hash :: "digest \<Rightarrow> states_by_sequence \<Rightarrow> q1_order_intent \<Rightarrow> string option" where
  "replay_intent_hash H states i =
     (let ident =
        [(''run_id'', VStr (oi_run_id i)), (''arm_id'', VStr (arm_value (oi_arm_id i))),
         (''portfolio_decision_id'', VStr (oi_portfolio_decision_id i)),
         (''source_cycle_id'', VStr (oi_source_cycle_id i)), (''symbol'', VStr (oi_symbol i)),
         (''side'', VStr (side_value (oi_side i))), (''quantity'', VDec (oi_quantity i))];
          window =
        [(''decision_quote_id'', VStr (oi_decision_quote_id i)), (''created_at'', VTime (oi_created_at i)),
         (''valid_until'', VTime (oi_valid_until i))];
          tail =
        [(''risk_decision_id'', VStr (oi_risk_decision_id i)),
         (''decision_reference_price'', VDec (oi_decision_reference_price i)),
         (''decision_spread_bps'', VDec (oi_decision_spread_bps i)),
         (''input_state_sequence'', VInt (oi_input_state_sequence i)),
         (''config_manifest_hash'', VStr (vr_config_manifest_hash i)), (''code_version'', VStr (vr_code_version i)),
         (''model_version'', VStr (vr_model_version i)),
         (''source_manifest_hash'', VStr (vr_source_manifest_hash i))] in
      if oi_order_class i = order_class_value NORMAL_ORDER
      then Some (canonical_hash H (VDict (ident @ window @ tail)))
      else
        case map_of states (arm_value (oi_arm_id i), oi_input_state_sequence i) of
          None \<Rightarrow> None
        | Some state \<Rightarrow>
            let target_quantity = dict_get (as_positions state) (oi_symbol i) 0 - oi_quantity i in
            if target_quantity < 0 then None
            else Some (canonical_hash H (VDict (ident @
                   [(''target_quantity'', VDec target_quantity)] @ window @
                   [(''order_class'', VStr (oi_order_class i))] @ tail))))"

definition intent_hash_valid ::
  "digest \<Rightarrow> (string, q1_strategy_decision) dict \<Rightarrow> states_by_sequence \<Rightarrow> q1_order_intent \<Rightarrow> bool" where
  "intent_hash_valid H decision_by_id states i \<longleftrightarrow>
     (case map_of decision_by_id (oi_portfolio_decision_id i) of
        None \<Rightarrow> False
      | Some d \<Rightarrow>
          sd_run_id d = oi_run_id i \<and> sd_arm_id d = oi_arm_id i \<and> risk_approval_id H d = oi_risk_decision_id i
          \<and> (case replay_intent_hash H states i of
               None \<Rightarrow> False
             | Some expected \<Rightarrow>
                 expected = oi_intent_hash i
                 \<and> stable_id H ''q1-order-intent'' [VStr expected] = oi_order_intent_id i
                 \<and> stable_id H ''q1-order-intent-idem'' [VStr expected] = oi_idempotency_key i))"

definition intent_hashes_valid ::
  "digest \<Rightarrow> q1_order_intent list \<Rightarrow> q1_strategy_decision list \<Rightarrow> states_by_sequence \<Rightarrow> bool" where
  "intent_hashes_valid H items decisions states \<longleftrightarrow>
     list_all (intent_hash_valid H
       (fold (\<lambda>d. AList.update (sd_portfolio_decision_id d) d) decisions []) states) items"

section \<open>Fills against order events and cash events\<close>

definition fill_event_matches ::
  "digest \<Rightarrow> (string, q1_order_intent) dict \<Rightarrow> (string option, order_event) dict \<Rightarrow> q1_fill \<Rightarrow> bool" where
  "fill_event_matches H intent_by_id event_by_fill_id f \<longleftrightarrow>
     (case (map_of intent_by_id (qf_order_intent_id f), map_of event_by_fill_id (Some (qf_fill_id f))) of
        (Some intent, Some event) \<Rightarrow>
          qf_fill_id f = stable_id H ''q1-fill''
            [VStr (qf_order_intent_id f), VStr (qf_quote_id f), VStr (qf_execution_scenario_id f)]
          \<and> qf_run_id f = oi_run_id intent \<and> qf_arm_id f = oi_arm_id intent \<and> qf_symbol f = oi_symbol intent
          \<and> qf_side f = oi_side intent \<and> oi_created_at intent \<le> qf_effective_at f
          \<and> oi_created_at intent < qf_quote_available_at f \<and> oi_created_at intent < qf_quote_event_time f
          \<and> oe_order_intent_id event = qf_order_intent_id f \<and> d_eq (oe_quantity_delta event) (qf_quantity f)
          \<and> d_eq (oe_commission_delta_usd event) (qf_commission_usd f)
          \<and> d_eq (oe_cumulative_commission_usd event) (qf_cumulative_order_commission_usd f)
          \<and> oe_quote_id event = Some (qf_quote_id f) \<and> oe_occurred_at event = qf_effective_at f
      | _ \<Rightarrow> False)"

definition fill_order_event_economics_valid ::
  "digest \<Rightarrow> q1_fill list \<Rightarrow> q1_order_intent list \<Rightarrow> order_event list \<Rightarrow> bool" where
  "fill_order_event_economics_valid H fills intents order_events \<longleftrightarrow>
     (let intent_by_id = fold (\<lambda>i. AList.update (oi_order_intent_id i) i) intents [];
          fill_events = filter (\<lambda>e. oe_event_type e \<in> {PARTIALLY_FILLED, FILLED}) order_events;
          event_by_fill_id = fold (\<lambda>e. AList.update (oe_source_id e) e) fill_events [] in
      \<not> has_duplicates (map qf_fill_id fills)
      \<and> length fill_events = length fills
      \<and> set (map oe_source_id fill_events) = Some ` set (map qf_fill_id fills)
      \<and> \<not> has_duplicates (map (\<lambda>f. (qf_order_intent_id f, qf_quote_id f, qf_execution_scenario_id f)) fills)
      \<and> \<not> has_duplicates (map oe_source_id fill_events)
      \<and> list_all (fill_event_matches H intent_by_id event_by_fill_id) fills)"

text \<open>The cash event of one fill.\<close>

definition trade_event_valid :: "q1_fill \<Rightarrow> cash_settlement_event \<Rightarrow> bool" where
  "trade_event_valid f e \<longleftrightarrow>
     (let notional = qf_quantity f * qf_price f in
      cs_run_id e = qf_run_id f \<and> cs_arm_id e = qf_arm_id f \<and> cs_source_fill_id e = Some (qf_fill_id f)
      \<and> d_eq (cs_gross_amount_usd e) notional \<and> d_eq (cs_commission_usd e) (qf_commission_usd f)
      \<and> cs_trade_at e = Some (qf_effective_at f) \<and> cs_effective_at e = qf_effective_at f
      \<and> (if qf_side f = BUY
         then cs_event_type e = BUY_SETTLED_CASH_DEBIT \<and> cs_receivable_id e = None
              \<and> d_eq (cs_settled_cash_delta_usd e) (- (notional + qf_commission_usd f))
              \<and> d_eq (cs_unsettled_receivable_delta_usd e) 0 \<and> cs_settlement_date e = None
         else cs_event_type e = SELL_RECEIVABLE_CREATED \<and> cs_receivable_id e \<noteq> None
              \<and> d_eq (cs_settled_cash_delta_usd e) 0
              \<and> d_eq (cs_unsettled_receivable_delta_usd e) (notional - qf_commission_usd f)
              \<and> cs_settlement_date e \<noteq> None))"

section \<open>Reconstructing arm states\<close>

record state_transition =
  tr_transition_id :: string
  tr_arm_id :: string
  tr_source_cycle_id :: string
  tr_created_at :: instant
  tr_fill :: "q1_fill option"
  tr_settlement :: "cash_settlement_event option"

definition fill_transition :: "q1_fill \<Rightarrow> state_transition" where
  "fill_transition f =
     \<lparr>tr_transition_id = ''FILL:'' @ qf_fill_id f, tr_arm_id = arm_value (qf_arm_id f),
      tr_source_cycle_id = qf_source_cycle_id f, tr_created_at = qf_created_at f,
      tr_fill = Some f, tr_settlement = None\<rparr>"

definition settlement_transition :: "cash_settlement_event \<Rightarrow> state_transition" where
  "settlement_transition e =
     \<lparr>tr_transition_id = ''SETTLEMENT:'' @ cs_cash_settlement_event_id e, tr_arm_id = arm_value (cs_arm_id e),
      tr_source_cycle_id = cs_source_cycle_id e, tr_created_at = cs_created_at e,
      tr_fill = None, tr_settlement = Some e\<rparr>"

definition state_transitions :: "q1_fill list \<Rightarrow> cash_settlement_event list \<Rightarrow> state_transition list" where
  "state_transitions fills events =
     map fill_transition fills
     @ map settlement_transition (filter (\<lambda>e. cs_event_type e = RECEIVABLE_SETTLED) events)"

text \<open>\<^verbatim>\<open>except (ValueError, KeyError, InvalidOperation): return None\<close>.\<close>

definition replay_catch :: "'a option result \<Rightarrow> 'a option result" where
  "replay_catch m =
     (case m of
        Inr x \<Rightarrow> Inr x
      | Inl e \<Rightarrow>
          if is_value_error e \<or> e = InvalidOperation \<or> (case e of KeyError _ \<Rightarrow> True | _ \<Rightarrow> False)
          then Inr None else Inl e)"

definition trade_events :: "q1_fill \<Rightarrow> cash_settlement_event list \<Rightarrow> cash_settlement_event list" where
  "trade_events f events =
     filter (\<lambda>e. cs_source_fill_id e = Some (qf_fill_id f)
       \<and> cs_event_type e \<in> {BUY_SETTLED_CASH_DEBIT, SELL_RECEIVABLE_CREATED}) events"

definition replay_fill ::
  "q1_arm_state \<Rightarrow> q1_fill \<Rightarrow> cash_settlement_event list \<Rightarrow> q1_arm_state option result" where
  "replay_fill state f events =
     (case trade_events f events of
        [ev] \<Rightarrow>
          let applied = (\<lambda>r. rbind (contract_fill f) (\<lambda>fl. rbind (apply_fill state fl r) (\<lambda>s. Inr (Some s)))) in
          if qf_side f = SELL
          then (case (cs_receivable_id ev, cs_settlement_date ev) of
                  (Some rid, Some d) \<Rightarrow>
                    rbind (validate_unsettled_receivable
                             \<lparr>ur_receivable_id = rid, ur_source_fill_id = qf_fill_id f,
                              ur_amount_usd = cs_unsettled_receivable_delta_usd ev,
                              ur_settlement_date = d, ur_created_at = Aware (cs_created_at ev)\<rparr>)
                      (\<lambda>r. applied (Some r))
                | _ \<Rightarrow> Inr None)
          else applied None
      | _ \<Rightarrow> Inr None)"

text \<open>Settling an unknown receivable returns the state itself, which the audit rejects.\<close>

definition apply_state_transition ::
  "q1_arm_state \<Rightarrow> state_transition \<Rightarrow> cash_settlement_event list \<Rightarrow> q1_arm_state option result" where
  "apply_state_transition state t events =
     replay_catch
       (case tr_fill t of
          Some f \<Rightarrow> replay_fill state f events
        | None \<Rightarrow>
            (case tr_settlement t of
               None \<Rightarrow> Inr None
             | Some e \<Rightarrow>
                 (case cs_receivable_id e of
                    None \<Rightarrow> Inr None
                  | Some rid \<Rightarrow>
                      rbind (settle state rid) (\<lambda>replayed. Inr (if replayed = state then None else Some replayed)))))"

section \<open>Re-hashing what was built\<close>

lemma vopt_date: "canonical_data (vopt (\<lambda>d. VStr (date_iso d)) x) = canonical_data (vopt VDate x)"
  by (cases x) (simp_all add: vopt_def)

lemma canonical_hash_cong: "canonical_data v = canonical_data w \<Longrightarrow> canonical_hash H v = canonical_hash H w"
  by (simp add: canonical_hash_def canonical_json_def)

lemma canonical_dict_cong:
  "map (\<lambda>(k, v). (k, canonical_data v)) kvs = map (\<lambda>(k, v). (k, canonical_data v)) kvs'
    \<Longrightarrow> canonical_data (VDict kvs) = canonical_data (VDict kvs')"
  by simp

lemma canonical_data_as_pyval: "canonical_data (as_pyval (canonical_data v)) = canonical_data v"
proof (induction v rule: canonical_data.induct)
  case (9 kvs)
  let ?c = "\<lambda>(k, v). (k, canonical_data v)" and ?p = "\<lambda>(k, v). (k, as_pyval v)"
  have *: "map ?c (map ?p (sort_key fst (map ?c kvs))) = sort_key fst (map ?c kvs)"
    unfolding map_map by (rule map_idI) (auto simp: 9)
  show ?case unfolding canonical_data.simps as_pyval.simps *
    by (simp add: sort_key_id_if_sorted)
qed (auto intro: map_idI)

lemma append_order_event_audit:
  assumes "append_order_event H order existing r p = Inr e"
  shows "replay_order_event_hash H e = oe_event_hash e"
    "stable_id H ''q1-order-event-idem'' [VStr (oe_event_id e)] = oe_idempotency_key e"
proof -
  obtain t1 t2 nxt where e: "e = build_event H order r p t1 t2 nxt" using assms by (rule append_order_event_Inr)
  show "replay_order_event_hash H e = oe_event_hash e"
    "stable_id H ''q1-order-event-idem'' [VStr (oe_event_id e)] = oe_idempotency_key e"
    unfolding e by (cases nxt; simp add: replay_order_event_hash_def build_event_def event_identity_def Let_def)+
qed

lemma cash_event_audit:
  assumes "cash_event H a policy p = Inr e"
  shows "replay_settlement_event_hash H e = cs_event_hash e"
    "stable_id H ''q1-cash-event'' [VDict (replay_cash_identity e)] = cs_cash_settlement_event_id e"
    "stable_id H ''q1-cash-idem'' [VStr (cs_cash_settlement_event_id e)] = cs_idempotency_key e"
proof -
  obtain t1 t2 t3 where e: "e = build_cash_event H a policy p t1 t2 t3"
    using assms by (auto simp: cash_event_def rbind_eq_Inr dest!: validate_cash_settlement_event_Inr)
  show "replay_settlement_event_hash H e = cs_event_hash e"
    "stable_id H ''q1-cash-event'' [VDict (replay_cash_identity e)] = cs_cash_settlement_event_id e"
    "stable_id H ''q1-cash-idem'' [VStr (cs_cash_settlement_event_id e)] = cs_idempotency_key e"
    unfolding e replay_settlement_event_hash_def replay_cash_identity_def build_cash_event_def cash_event_identity_def Let_def
    by (auto intro!: canonical_hash_cong canonical_dict_cong simp: vopt_date simp del: canonical_data.simps)
qed

lemma make_q1_fill_audit:
  assumes "make_q1_fill H cx c e = Inr f"
  shows "replay_fill_hash H f = qf_fill_hash f"
    "qf_fill_id f = stable_id H ''q1-fill'' [VStr (qf_order_intent_id f), VStr (qf_quote_id f), VStr (qf_execution_scenario_id f)]"
  using assms
  by (auto simp: make_q1_fill_def Let_def rbind_eq_Inr validate_q1_fill_def replay_fill_hash_def fill_content_def split: if_splits)

lemma episode_audit:
  assumes "create_episode H check metrics severity targets p = Inr ep"
  shows "replay_risk_episode_hash H ep = re_episode_hash ep"
    "re_target_manifest_hash ep = canonical_hash H (VList (map target_payload (re_targets ep)))"
  using assms
  by (auto simp: create_episode_def Let_def validate_risk_episode_def replay_risk_episode_hash_def split: if_splits)

lemma episode_event_audit:
  assumes "episode_event H ep existing k severity targets check p cycle x = Inr e"
  shows "replay_risk_event_hash H e = rv_event_hash e"
    "stable_id H ''q1-risk-event-idem'' [VStr (rv_risk_episode_event_id e)] = rv_idempotency_key e"
  using assms
  by (auto simp: episode_event_def Let_def rbind_eq_Inr build_episode_event_def replay_risk_event_hash_def
      dest!: validate_risk_episode_event_Inr split: if_splits)

lemma decision_audit:
  assumes "build_portfolio_decision H r = Inr d"
  shows "replay_decision_hash H d = sd_decision_hash d" "decision_identity_valid H d"
proof -
  obtain t where t: "decision_times_of r = Inr t" using assms by (auto simp: build_portfolio_decision_def rbind_eq_Inr)
  note d = validate_q1_strategy_decision_Inr [OF assms [unfolded build_portfolio_decision_def t rbind_simps Let_def]]
  show "replay_decision_hash H d = sd_decision_hash d"
    unfolding d replay_decision_hash_def decision_content_def
    by (auto intro!: canonical_hash_cong canonical_dict_cong simp: canonical_data_as_pyval simp del: canonical_data.simps)
  show "decision_identity_valid H d" unfolding d by (simp add: decision_identity_valid_def)
qed

end
