(* ===== verification/Canonical_Json.thy ===== *)
theory Canonical_Json
  imports Hashing "HOL-Library.Multiset"
begin

text \<open>
  How much of a hashed dictionary its canonical JSON text determines: the order of the keys does
  not matter, and two dictionaries that differ in one decimal field have different texts exactly
  when the two decimals are written differently.
\<close>

lemma canonical_dict_perm:
  assumes "mset xs = mset ys" "distinct (map fst xs)"
  shows "canonical_data (VDict xs) = canonical_data (VDict ys)"
proof -
  let ?c = "map (\<lambda>(k, v). (k, canonical_data v))"
  have "distinct (map fst (?c xs))" using assms(2) by (simp add: comp_def split_def)
  then have inj: "inj_on fst (set (?c xs))" unfolding distinct_map by (rule conjunct2)
  have "mset (?c xs) = mset (sort_key fst (?c ys))" using assms(1) by (simp only: mset_map mset_sort)
  then have "sort_key fst (?c xs) = sort_key fst (?c ys)" using inj by (rule sort_key_inj_key_eq) (rule sorted_sort_key)
  then show ?thesis by simp
qed

lemma sort_key_insert_field:
  fixes v :: "'b"
  assumes "distinct (k # map fst (xs @ ys))"
  shows "sort_key fst (xs @ (k :: 'a::linorder, v) # ys)
    = filter (\<lambda>p. fst p < k) (sort_key fst (xs @ ys)) @ (k, v) # filter (\<lambda>p. k < fst p) (sort_key fst (xs @ ys))"
    (is "_ = ?L @ _ # ?R")
proof (rule sort_key_inj_key_eq)
  have "filter_mset (\<lambda>p. fst p < k) (mset (xs @ ys)) + filter_mset (\<lambda>p. \<not> fst p < k) (mset (xs @ ys)) = mset (xs @ ys)"
    by (rule multiset_partition [symmetric])
  moreover have "filter_mset (\<lambda>p. \<not> fst p < k) (mset (xs @ ys)) = filter_mset (\<lambda>p. k < fst p) (mset (xs @ ys))"
    using assms by (intro filter_mset_cong refl) force
  ultimately have "mset ?L + mset ?R = mset (xs @ ys)" by (simp only: mset_filter mset_sort)
  then show "mset (xs @ (k, v) # ys) = mset (?L @ (k, v) # ?R)" by simp
  have "distinct (map fst (xs @ (k, v) # ys))" using assms by auto
  then show "inj_on fst (set (xs @ (k, v) # ys))" unfolding distinct_map by blast
  show "sorted (map fst (?L @ (k, v) # ?R))"
    using sorted_filter [of fst "sort_key fst (xs @ ys)"] by (auto simp: sorted_append less_imp_le)
qed

lemma join_split: "\<exists>P S. \<forall>x. join sep (ls @ x # rs) = P @ x @ S"
proof (induction ls)
  case Nil
  show ?case by (cases rs) (force intro: exI [of _ "''''"])+
next
  case (Cons l ls)
  then obtain P S where PS: "\<And>x. join sep (ls @ x # rs) = P @ x @ S" by blast
  have "join sep ((l # ls) @ x # rs) = (l @ sep @ P) @ x @ S" for x
    using PS [of x] by (cases ls) auto
  then show ?case by blast
qed

text \<open>Two dictionaries that differ in one text field have different JSON texts.\<close>

lemma json_field_inj:
  assumes "distinct (k # map fst (xs @ ys))"
    and "canonical_json (VDict (xs @ (k, VDec a) # ys)) = canonical_json (VDict (xs @ (k, VDec b) # ys))"
  shows "json_string (format_f a) = json_string (format_f b)"
proof -
  let ?c = "map (\<lambda>(k, v). (k, canonical_data v))"
  let ?j = "\<lambda>(k, v). json_string k @ CHR '':'' # json_dumps v"
  have keys: "distinct (k # map fst (?c xs @ ?c ys))" using assms(1) by (simp add: comp_def split_def)
  define L where "L = map ?j (filter (\<lambda>p. fst p < k) (sort_key fst (?c xs @ ?c ys)))"
  define R where "R = map ?j (filter (\<lambda>p. k < fst p) (sort_key fst (?c xs @ ?c ys)))"
  obtain P S where PS: "\<And>x. join '','' (L @ x # R) = P @ x @ S" using join_split by blast
  have "canonical_json (VDict (xs @ (k, VDec d) # ys)) = CHR ''{'' # P @ (json_string k @ CHR '':'' # json_string (format_f d)) @ S @ ''}''" for d
    using sort_key_insert_field [OF keys, of "CStr (format_f d)"]
    by (simp add: canonical_json_def L_def [symmetric] R_def [symmetric] PS)
  then show ?thesis using assms(2) by simp
qed

definition plain_char :: "char \<Rightarrow> bool" where
  "plain_char c \<longleftrightarrow> 45 \<le> (of_char c :: nat) \<and> (of_char c :: nat) \<le> 57"

lemma plain_json_char: "plain_char c \<Longrightarrow> json_char c = [c]"
  by (simp add: json_char_def Let_def plain_char_def)

lemma plain_chars [simp]: "plain_char (CHR ''.'')" "plain_char (CHR ''-'')" "plain_char (CHR ''0'')"
  "d < 10 \<Longrightarrow> plain_char (digit_char d)"
  by (simp_all add: plain_char_def digit_char_def)

lemma nat_str_plain: "c \<in> set (nat_str n) \<Longrightarrow> plain_char c"
  by (induction n rule: nat_str.induct) (subst (asm) (2) nat_str.simps, auto split: if_splits)

lemma format_f_plain: "c \<in> set (format_f d) \<Longrightarrow> plain_char c"
  by (auto simp: format_f_def Let_def split: if_splits dest!: in_set_takeD in_set_dropD intro: nat_str_plain)

lemma json_string_format: "json_string (format_f a) = json_string (format_f b) \<longleftrightarrow> format_f a = format_f b"
proof -
  have "concat (map json_char (format_f d)) = format_f d" for d
  proof -
    have "map json_char (format_f d) = map (\<lambda>c. [c]) (format_f d)" using plain_json_char format_f_plain by simp
    then show ?thesis by (simp only: concat_map_singleton list.map_ident)
  qed
  then show ?thesis by (simp add: json_string_def)
qed

end
