(* ===== verification/Replay_Safety.thy ===== *)
theory Replay_Safety
  imports Replay Canonical_Json
begin

text \<open>
  What the audit of \<open>Replay\<close> says about the records of planning and execution. Shown: the fills
  of a cycle, their order events and their cash events pass the audit, and replaying a fill gives
  the state the cycle stored; planned normal orders pass; the one kind of order that does not,
  a reduction to a target whose text form the audit cannot recompute; and what an accepted cash
  stream guarantees.
\<close>

section \<open>One fill\<close>

lemma fill_settlement_event_more:
  assumes "fill_settlement_event H cx intent f = Inr ev"
  shows "cs_run_id ev = sv_run_id (fc_settlement_provenance cx)" "cs_trade_at ev = Some (fc_now cx)"
    "cs_effective_at ev = fc_now cx" "\<exists>a. cash_event H a (er_settlement_policy (fc_runtime cx)) (fc_settlement_provenance cx) = Inr ev"
    "oi_side intent = BUY \<Longrightarrow> cs_receivable_id ev = None \<and> cs_settlement_date ev = None"
proof -
  obtain a where a: "cash_event H a (er_settlement_policy (fc_runtime cx)) (fc_settlement_provenance cx) = Inr ev"
    "ca_trade_at a = Some (Aware (fc_now cx))" "ca_effective_at a = Aware (fc_now cx)"
    "oi_side intent = BUY \<Longrightarrow> ca_receivable_id a = None \<and> ca_settlement_date a = None"
  proof (cases "oi_side intent = BUY")
    case True
    then show thesis using assms that
      by (auto simp: fill_settlement_event_def record_buy_cash_debit_def Let_def split: if_splits)
  next
    case False
    then show thesis using assms that
      by (auto simp: fill_settlement_event_def record_sell_receivable_def Let_def rbind_eq_Inr split: if_splits)
  qed
  have "cs_trade_at ev = Some (fc_now cx)"
    using a(1,2) by (auto simp: cash_event_def rbind_eq_Inr build_cash_event_def Let_def dest!: validate_cash_settlement_event_Inr)
  then show "cs_run_id ev = sv_run_id (fc_settlement_provenance cx)" "cs_trade_at ev = Some (fc_now cx)"
    "cs_effective_at ev = fc_now cx" "\<exists>a. cash_event H a (er_settlement_policy (fc_runtime cx)) (fc_settlement_provenance cx) = Inr ev"
    "oi_side intent = BUY \<Longrightarrow> cs_receivable_id ev = None \<and> cs_settlement_date ev = None"
    using a cash_event_origin [OF a(1)] cash_event_Inr [OF a(1)] by auto
qed

lemma make_q1_fill_context:
  assumes "make_q1_fill H cx c e = Inr f"
  shows "qf_run_id f = oi_run_id (qc_intent c)" "qf_source_cycle_id f = pc_cycle_id (fc_cycle cx)"
    "qf_quote_id f = mq_quote_id (qc_quote c)" "qf_quote_event_time f = aware (mq_event_time (qc_quote c))"
    "qf_quote_available_at f = aware (mq_available_at (qc_quote c))"
    "qf_cumulative_order_commission_usd f = fe_cumulative_commission_usd e"
    "qf_quote_available_at f \<le> fc_now cx"
  using assms by (auto simp: make_q1_fill_def Let_def rbind_eq_Inr validate_q1_fill_def split: if_splits)

lemma trade_events_own:
  assumes "ev \<in> set events" "cs_source_fill_id ev = Some (qf_fill_id f)"
    "cs_event_type ev \<in> {BUY_SETTLED_CASH_DEBIT, SELL_RECEIVABLE_CREATED}"
    "distinct (map cs_source_fill_id events)"
  shows "trade_events f events = [ev]"
proof -
  have "filter (\<lambda>e. cs_source_fill_id e = cs_source_fill_id ev) events = [ev]"
    using filter_unique [OF assms(4,1)] .
  moreover have "trade_events f events = filter (\<lambda>e. cs_event_type e \<in> {BUY_SETTLED_CASH_DEBIT, SELL_RECEIVABLE_CREATED})
      (filter (\<lambda>e. cs_source_fill_id e = cs_source_fill_id ev) events)"
    using assms(2) by (simp add: trade_events_def conj_commute)
  ultimately show ?thesis using assms(3) by simp
qed

lemma fill_mutation_replays:
  assumes m: "fill_mutation H cx c s e = Inr m"
    and f: "pm_fill m = Some f" and ev: "pm_settlement_event m = Some ev" and s': "pm_state_after m = Some s'"
    and own: "trade_events f events = [ev]"
  shows "apply_state_transition s (fill_transition f) events = Inr (Some s')"
proof -
  obtain r fl where f': "make_q1_fill H cx c e = Inr f" and ev': "fill_settlement_event H cx (qc_intent c) f = Inr ev"
    and r: "fill_receivable cx (qc_intent c) f ev = Inr r" and fl: "contract_fill f = Inr fl" and app: "apply_fill s fl r = Inr s'"
    using m f ev s' by (elim fill_mutation_Inr) simp
  note side = make_q1_fill_Inr(3) [OF f'] and created = fill_settlement_event_Inr(3) [OF ev']
  have "replay_fill s f events = Inr (Some s')"
    using r fl app own side created
    by (cases "oi_side (qc_intent c)")
      (auto simp: replay_fill_def fill_receivable_def required_receivable_id_def required_settlement_date_def
         rbind_eq_Inr split: option.splits)
  then show ?thesis by (simp add: apply_state_transition_def fill_transition_def replay_catch_def)
qed

lemma trade_event_valid_fill:
  assumes "make_q1_fill H cx c e = Inr f" "fill_settlement_event H cx (qc_intent c) f = Inr ev"
    "sv_run_id (fc_settlement_provenance cx) = oi_run_id (qc_intent c)"
  shows "trade_event_valid f ev"
  using make_q1_fill_Inr [OF assms(1)] make_q1_fill_context [OF assms(1)] fill_settlement_event_Inr [OF assms(2)]
    fill_settlement_event_more [OF assms(2)] assms(3)
  by (cases "oi_side (qc_intent c)") (auto simp: trade_event_valid_def Let_def dval_simps)

section \<open>The fills of a cycle\<close>

text \<open>A mutation is a blocked order, or the fill of its candidate.\<close>

definition mutation_of :: "digest \<Rightarrow> fill_context \<Rightarrow> quote_candidate \<Rightarrow> prepared_mutation \<Rightarrow> bool" where
  "mutation_of H cx c m \<longleftrightarrow>
     (if pm_fill m = None
      then pm_settlement_event m = None \<and> \<not> is_fill_type (oe_event_type (pm_event m))
        \<and> (\<exists>r. append_order_event H (oa_order (qc_aggregate c)) (fc_book_events cx) r (fc_provenance cx) = Inr (pm_event m))
      else \<exists>s q adv e. fill_mutation H cx c s e = Inr m
        \<and> build_q1_fill_economics (candidate_request (fc_runtime cx) c q adv) (er_execution_config (fc_runtime cx)) = Inr e)"

lemma mutation_of_step:
  assumes "prepare_fill_step H cx c st = Inr st'"
  shows "\<exists>m. lo_mutations st' = lo_mutations st @ [m] \<and> mutation_of H cx c m"
  using assms
proof (cases rule: prepare_fill_step_cases)
  case (blocked ty reason m)
  then obtain oe where oe: "append_order_event H (oa_order (qc_aggregate c)) (fc_book_events cx)
        (blocked_request ty (fc_now cx) reason (Some (mq_quote_id (qc_quote c))) (fc_cycle cx)) (fc_provenance cx) = Inr oe"
      "m = status_mutation (qc_aggregate c) (qc_intent c) oe"
    by (auto simp: blocked_candidate_def rbind_eq_Inr)
  then have "oe_event_type oe = ty" by (auto simp: blocked_request_def elim!: append_order_event_Inr)
  then have "mutation_of H cx c m"
    using oe blocked(2) by (auto simp: mutation_of_def status_mutation_def is_fill_type_def)
  then show ?thesis using blocked(4) by blast
next
  case (filled s q e m s')
  from filled(4) obtain f where "pm_fill m = Some f" by (elim fill_mutation_Inr) simp
  then have "mutation_of H cx c m" using filled(3,4) by (auto simp: mutation_of_def)
  then show ?thesis using filled(6) by simp
qed

lemma cycle_mutations:
  assumes "prepare_candidates H cx candidates states = Inr ms"
  shows "list_all2 (mutation_of H cx) (sort_key candidate_key candidates) ms"
  by (rule prepare_candidates_all2 [OF mutation_of_step assms])

text \<open>
  A candidate as the cycle selects it: its aggregate is the order's state in the book, its
  commission so far a multiple of the commission precision, and the quote is younger than the order.
\<close>

definition candidate_fits :: "fill_context \<Rightarrow> quote_candidate \<Rightarrow> bool" where
  "candidate_fits cx c \<longleftrightarrow>
     aggregate_for (qc_intent c) (fc_book_events cx) = Inr (qc_aggregate c)
     \<and> 0 \<le> dval (oa_cumulative_commission_usd (qc_aggregate c))
     \<and> on_grid (dexp (xc_commission_precision (er_execution_config (fc_runtime cx))))
         (dval (oa_cumulative_commission_usd (qc_aggregate c)))
     \<and> sv_run_id (fc_settlement_provenance cx) = oi_run_id (qc_intent c)
     \<and> oi_created_at (qc_intent c) < aware (mq_event_time (qc_quote c))
     \<and> oi_created_at (qc_intent c) < aware (mq_available_at (qc_quote c))"

lemma candidate_order:
  assumes "candidate_fits cx c"
  shows "od_order_intent_id (oa_order (qc_aggregate c)) = oi_order_intent_id (qc_intent c)"
    "reduce_order_events (oa_order (qc_aggregate c)) (fc_book_events cx) None = Inr (qc_aggregate c)"
proof -
  obtain d where d: "intent_descriptor (qc_intent c) = Inr d" "reduce_order_events d (fc_book_events cx) None = Inr (qc_aggregate c)"
    using assms by (auto simp: candidate_fits_def aggregate_for_def rbind_eq_Inr)
  moreover have "oa_order (qc_aggregate c) = d" using reduce_order [OF d(2)] .
  moreover have "od_order_intent_id d = oi_order_intent_id (qc_intent c)"
    using d(1) by (auto simp: intent_descriptor_def rbind_eq_Inr validate_order_descriptor_def split: if_splits)
  ultimately show "od_order_intent_id (oa_order (qc_aggregate c)) = oi_order_intent_id (qc_intent c)"
    "reduce_order_events (oa_order (qc_aggregate c)) (fc_book_events cx) None = Inr (qc_aggregate c)" by auto
qed

text \<open>Adding the charge back to what was paid gives the commission of the whole order.\<close>

lemma cumulative_commission_exact:
  assumes e: "build_q1_fill_economics (candidate_request rt c q adv) config = Inr e"
    and "0 \<le> dval (oa_cumulative_commission_usd (qc_aggregate c))"
    and "on_grid (dexp (xc_commission_precision config)) (dval (oa_cumulative_commission_usd (qc_aggregate c)))"
  shows "dval (oa_cumulative_commission_usd (qc_aggregate c) + fe_commission_usd e) = dval (fe_cumulative_commission_usd e)"
proof -
  let ?b = "oa_cumulative_commission_usd (qc_aggregate c)" and ?t = "fe_cumulative_commission_usd e"
  let ?g = "dexp (xc_commission_precision config)"
  note b = build_q1_fill_economics_Inr [OF e]
  note t = order_commission_grid [OF b(11)]
  have c: "fe_commission_usd e = ?t - ?b" using b(12) by (simp add: candidate_request_def Let_def)
  have grid: "on_grid ?g (dval ?t - dval ?b)" using t(1) assms(3) by (rule on_grid_diff)
  have le: "dval ?b \<le> dval ?t"
  proof (rule ccontr)
    assume "\<not> dval ?b \<le> dval ?t"
    then have "0 < ctx (- (dval ?t - dval ?b))" by (intro ctx_pos) simp
    then have "dval (fe_commission_usd e) < 0" unfolding c dval_minus ctx_uminus by simp
    then show False using b(13) by simp
  qed
  have "dval (fe_commission_usd e) = dval ?t - dval ?b"
    unfolding c dval_minus using grid le assms(2) t(2) by (intro ctx_grid [where g = ?g]) auto
  then show ?thesis unfolding dval_plus using t by (simp add: ctx_grid [where g = ?g])
qed


definition cycle_fills :: "prepared_mutation list \<Rightarrow> q1_fill list" where
  "cycle_fills ms = List.map_filter pm_fill ms"

lemma fill_event_economics:
  assumes fits: "candidate_fits cx c" and m: "fill_mutation H cx c s e = Inr m" and f: "pm_fill m = Some f"
    and e: "build_q1_fill_economics (candidate_request (fc_runtime cx) c q adv) (er_execution_config (fc_runtime cx)) = Inr e"
    and lookup: "map_of intents (qf_order_intent_id f) = Some (qc_intent c)" "map_of events (Some (qf_fill_id f)) = Some (pm_event m)"
  shows "fill_event_matches H intents events f"
proof -
  have f': "make_q1_fill H cx c e = Inr f" and oe: "append_order_event H (oa_order (qc_aggregate c)) (fc_book_events cx)
      (fill_event_request cx c e f) (fc_provenance cx) = Inr (pm_event m)"
    using m f by (elim fill_mutation_Inr; simp)+
  obtain nxt where ev: "pm_event m = build_event H (oa_order (qc_aggregate c)) (fill_event_request cx c e f) (fc_provenance cx)
        (fc_now cx) (fc_now cx) nxt"
    and nxt: "next_event_state (oa_order (qc_aggregate c)) (visible_events (oa_order (qc_aggregate c)) (fc_book_events cx) None)
        (ar_event_type (fill_event_request cx c e f)) (fe_quantity e) (fe_commission_usd e) = Inr nxt"
    using oe by (elim append_order_event_Inr) (simp add: fill_event_request_def)
  have red: "reduce_order_events (oa_order (qc_aggregate c)) (visible_events (oa_order (qc_aggregate c)) (fc_book_events cx) None) None
      = Inr (qc_aggregate c)" using candidate_order(2) [OF fits] by (simp add: reduce_visible)
  have "snd (snd (snd nxt)) = oa_cumulative_commission_usd (qc_aggregate c) + fe_commission_usd e"
    using nxt red by (auto simp: next_event_state_def fill_event_request_def Let_def is_fill_type_def split: if_splits)
  then have comm: "dval (snd (snd (snd nxt))) = dval (fe_cumulative_commission_usd e)"
    using cumulative_commission_exact [OF e] fits by (simp add: candidate_fits_def)
  have src: "oe_quote_id (pm_event m) = Some (mq_quote_id (qc_quote c))"
    unfolding ev by (cases nxt) (simp add: build_event_def fill_event_request_def Let_def)
  show ?thesis
    unfolding fill_event_matches_def lookup
    using make_q1_fill_audit(2) [OF f'] make_q1_fill_Inr [OF f'] make_q1_fill_context [OF f'] fits comm src
      candidate_order(1) [OF fits]
    unfolding ev by (simp add: candidate_fits_def fill_event_request_def dval_simps)
qed

lemma fold_update_lookup:
  assumes "distinct (map k xs)" "x \<in> set xs"
  shows "map_of (fold (\<lambda>x. AList.update (k x) (v x)) xs d) (k x) = Some (v x)"
proof -
  have keep: "map_of (fold (\<lambda>x. AList.update (k x) (v x)) ys d) q = map_of d q" if "q \<notin> k ` set ys" for ys d q
    using that by (induction ys arbitrary: d) (auto simp: AList.update_conv')
  show ?thesis using assms
  proof (induction xs arbitrary: d)
    case (Cons y ys)
    then show ?case using keep [of "k y" ys] by (auto simp: AList.update_conv')
  qed simp
qed

text \<open>The identifier a fill of the candidate gets.\<close>

definition candidate_fill_id :: "digest \<Rightarrow> quote_candidate \<Rightarrow> string" where
  "candidate_fill_id H c = stable_id H ''q1-fill''
     [VStr (oi_order_intent_id (qc_intent c)), VStr (mq_quote_id (qc_quote c)), VStr Q1_BASE_EXECUTION_SCENARIO]"

definition filled_pairs :: "quote_candidate list \<Rightarrow> prepared_mutation list \<Rightarrow> (quote_candidate \<times> prepared_mutation) list" where
  "filled_pairs cs ms = filter (\<lambda>(c, m). pm_fill m \<noteq> None) (zip cs ms)"

lemma mutation_of_filled:
  assumes "mutation_of H cx c m" "pm_fill m = Some f"
  shows "qf_fill_id f = candidate_fill_id H c" "qf_order_intent_id f = oi_order_intent_id (qc_intent c)"
    "is_fill_type (oe_event_type (pm_event m))" "oe_source_id (pm_event m) = Some (qf_fill_id f)"
    "qf_quote_id f = mq_quote_id (qc_quote c)" "qf_execution_scenario_id f = Q1_BASE_EXECUTION_SCENARIO"
proof -
  obtain s e where m: "fill_mutation H cx c s e = Inr m" using assms by (auto simp: mutation_of_def)
  have f: "make_q1_fill H cx c e = Inr f" and oe: "append_order_event H (oa_order (qc_aggregate c)) (fc_book_events cx)
      (fill_event_request cx c e f) (fc_provenance cx) = Inr (pm_event m)"
    using m assms(2) by (elim fill_mutation_Inr; simp)+
  have "qf_execution_scenario_id f = Q1_BASE_EXECUTION_SCENARIO"
    using f by (auto simp: make_q1_fill_def Let_def rbind_eq_Inr validate_q1_fill_def split: if_splits)
  then show "qf_fill_id f = candidate_fill_id H c" "qf_order_intent_id f = oi_order_intent_id (qc_intent c)"
    "qf_quote_id f = mq_quote_id (qc_quote c)" "qf_execution_scenario_id f = Q1_BASE_EXECUTION_SCENARIO"
    using make_q1_fill_audit(2) [OF f] make_q1_fill_Inr [OF f] make_q1_fill_context [OF f]
    by (simp_all add: candidate_fill_id_def)
  obtain t1 t2 nxt where "pm_event m = build_event H (oa_order (qc_aggregate c)) (fill_event_request cx c e f) (fc_provenance cx) t1 t2 nxt"
    using oe by (rule append_order_event_Inr)
  then show "is_fill_type (oe_event_type (pm_event m))" "oe_source_id (pm_event m) = Some (qf_fill_id f)"
    by (cases nxt; auto simp: build_event_def fill_event_request_def is_fill_type_def Let_def)+
qed

lemma filled_pairs_lists:
  assumes "list_all2 (mutation_of H cx) cs ms"
  defines "qs \<equiv> filled_pairs cs ms"
  shows "cycle_fills ms = map (\<lambda>(c, m). the (pm_fill m)) qs"
    and "filter (\<lambda>e. oe_event_type e \<in> {PARTIALLY_FILLED, FILLED}) (map pm_event ms) = map (\<lambda>(c, m). pm_event m) qs"
    and "map qf_fill_id (cycle_fills ms) = map (\<lambda>(c, m). candidate_fill_id H c) qs"
    and "map (\<lambda>(c, m). oe_source_id (pm_event m)) qs = map (\<lambda>(c, m). Some (candidate_fill_id H c)) qs"
  using assms(1) unfolding qs_def
proof (induction rule: list_all2_induct)
  case (Cons c cs m ms)
  case 1 show ?case using Cons by (cases "pm_fill m") (auto simp: cycle_fills_def filled_pairs_def map_filter_simps)
  case 2 show ?case using Cons mutation_of_filled [OF Cons(1)]
    by (cases "pm_fill m") (auto simp: filled_pairs_def mutation_of_def is_fill_type_def)
  case 3 show ?case using Cons mutation_of_filled [OF Cons(1)]
    by (cases "pm_fill m") (auto simp: cycle_fills_def filled_pairs_def map_filter_simps)
  case 4 show ?case using Cons mutation_of_filled [OF Cons(1)]
    by (cases "pm_fill m") (auto simp: filled_pairs_def)
qed (simp_all add: cycle_fills_def filled_pairs_def map_filter_simps)

lemma filled_pairs_mem:
  assumes "list_all2 (mutation_of H cx) cs ms" "(c, m) \<in> set (filled_pairs cs ms)"
  shows "c \<in> set cs" "m \<in> set ms" "mutation_of H cx c m" "pm_fill m \<noteq> None"
  using assms by (auto simp: filled_pairs_def list_all2_iff dest: set_zip_leftD set_zip_rightD)

lemma cycle_fills_mem:
  assumes all2: "list_all2 (mutation_of H cx) cs ms" and f: "f \<in> set (cycle_fills ms)"
  obtains c m where "(c, m) \<in> set (filled_pairs cs ms)" "c \<in> set cs" "mutation_of H cx c m" "pm_fill m = Some f"
proof -
  have "f \<in> (\<lambda>(c, m). the (pm_fill m)) ` set (filled_pairs cs ms)"
    using f unfolding filled_pairs_lists(1) [OF all2] by simp
  then obtain c m where q: "(c, m) \<in> set (filled_pairs cs ms)" "f = the (pm_fill m)" by (elim imageE) auto
  from that [OF q(1)] filled_pairs_mem [OF all2 q(1)] q(2) show thesis by auto
qed

lemma distinct_filled_pairs:
  assumes "length cs = length ms" "distinct (map k cs)"
  shows "distinct (map (\<lambda>(c, m). k c) (filled_pairs cs ms))"
proof -
  have "map (\<lambda>(c, m). k c) (zip cs ms) = map k cs"
    using assms(1) by (induction rule: list_induct2) auto
  then have "distinct (map (\<lambda>(c, m). k c) (zip cs ms))" using assms(2) by simp
  then show ?thesis unfolding filled_pairs_def by (rule distinct_map_filter)
qed

lemma cycle_passes_fill_audit:
  assumes ms: "prepare_candidates H cx candidates states = Inr ms"
    and fits: "\<And>c. c \<in> set candidates \<Longrightarrow> candidate_fits cx c"
    and orders: "distinct (map (\<lambda>c. oi_order_intent_id (qc_intent c)) candidates)"
    and ids: "distinct (map (candidate_fill_id H) candidates)"
  shows "fill_order_event_economics_valid H (cycle_fills ms) (map qc_intent candidates) (map pm_event ms)"
proof -
  let ?cs = "sort_key candidate_key candidates"
  note all2 = cycle_mutations [OF ms]
  let ?qs = "filled_pairs ?cs ms"
  note lists = filled_pairs_lists [OF all2]
  have "distinct (map (candidate_fill_id H) ?cs)"
    using ids distinct_map_mset_cong [of ?cs candidates "candidate_fill_id H"] by simp
  then have dist: "distinct (map (\<lambda>(c, m). candidate_fill_id H c) ?qs)"
    by (rule distinct_filled_pairs [OF list_all2_lengthD [OF all2]])
  define fes where "fes = map (\<lambda>(c, m). pm_event m) ?qs"
  have src: "map oe_source_id fes = map Some (map qf_fill_id (cycle_fills ms))"
    using lists(3,4) by (simp add: fes_def comp_def split_def)
  have d1: "distinct (map qf_fill_id (cycle_fills ms))" unfolding lists(3) by (rule dist)
  have d2: "distinct (map oe_source_id fes)" unfolding src distinct_map using d1 by (auto simp: distinct_map)
  have keys: "map (\<lambda>(i, q, x). stable_id H ''q1-fill'' [VStr i, VStr q, VStr x])
      (map (\<lambda>f. (qf_order_intent_id f, qf_quote_id f, qf_execution_scenario_id f)) (cycle_fills ms)) = map qf_fill_id (cycle_fills ms)"
  proof -
    have "stable_id H ''q1-fill'' [VStr (qf_order_intent_id f), VStr (qf_quote_id f), VStr (qf_execution_scenario_id f)] = qf_fill_id f"
      if fm: "f \<in> set (cycle_fills ms)" for f
    proof -
      obtain c m where "mutation_of H cx c m" "pm_fill m = Some f" by (rule cycle_fills_mem [OF all2 fm])
      then show ?thesis using mutation_of_filled by (simp add: candidate_fill_id_def)
    qed
    then show ?thesis by simp
  qed
  have d3: "distinct (map (\<lambda>f. (qf_order_intent_id f, qf_quote_id f, qf_execution_scenario_id f)) (cycle_fills ms))"
    using d1 unfolding keys [symmetric] distinct_map by blast
  have matches: "fill_event_matches H (fold (\<lambda>i. AList.update (oi_order_intent_id i) i) (map qc_intent candidates) [])
      (fold (\<lambda>e. AList.update (oe_source_id e) e) fes []) f" if fm: "f \<in> set (cycle_fills ms)" for f
  proof -
    obtain c m where q: "(c, m) \<in> set ?qs" and mem: "c \<in> set ?cs" "mutation_of H cx c m" and f: "pm_fill m = Some f"
      by (rule cycle_fills_mem [OF all2 fm])
    obtain s q' adv e where m: "fill_mutation H cx c s e = Inr m"
      "build_q1_fill_economics (candidate_request (fc_runtime cx) c q' adv) (er_execution_config (fc_runtime cx)) = Inr e"
      using mem(2) f by (auto simp: mutation_of_def)
    have "qc_intent c \<in> set (map qc_intent candidates)" "pm_event m \<in> set fes" using mem(1) q by (force simp: fes_def)+
    then have "map_of (fold (\<lambda>i. AList.update (oi_order_intent_id i) i) (map qc_intent candidates) []) (qf_order_intent_id f) = Some (qc_intent c)"
      "map_of (fold (\<lambda>e. AList.update (oe_source_id e) e) fes []) (Some (qf_fill_id f)) = Some (pm_event m)"
      using fold_update_lookup [where k = oi_order_intent_id and v = "\<lambda>i. i" and xs = "map qc_intent candidates" and x = "qc_intent c"]
        fold_update_lookup [OF d2, where v = "\<lambda>e. e" and x = "pm_event m"] orders mutation_of_filled [OF mem(2) f]
      by (auto simp: comp_def)
    then show ?thesis using mem(1) by (intro fill_event_economics [OF fits m(1) f m(2)]) auto
  qed
  have "length fes = length (cycle_fills ms)" by (simp add: fes_def lists(1))
  moreover have "set (map oe_source_id fes) = Some ` set (map qf_fill_id (cycle_fills ms))" unfolding src by (simp add: image_image)
  ultimately show ?thesis
    unfolding fill_order_event_economics_valid_def Let_def lists(2) fes_def [symmetric]
    using d1 d2 d3 matches by (simp add: has_duplicates_def list_all_iff del: set_map)
qed

lemma mutation_records:
  assumes m: "mutation_of H cx c m" and run: "sv_run_id (fc_settlement_provenance cx) = oi_run_id (qc_intent c)"
  shows "replay_order_event_hash H (pm_event m) = oe_event_hash (pm_event m)"
    and "pm_fill m = Some f \<Longrightarrow> replay_fill_hash H f = qf_fill_hash f
      \<and> (\<exists>ev. pm_settlement_event m = Some ev \<and> replay_settlement_event_hash H ev = cs_event_hash ev
           \<and> stable_id H ''q1-cash-event'' [VDict (replay_cash_identity ev)] = cs_cash_settlement_event_id ev
           \<and> trade_event_valid f ev)"
proof -
  show "replay_order_event_hash H (pm_event m) = oe_event_hash (pm_event m)"
  proof (cases "pm_fill m")
    case None
    then show ?thesis using m append_order_event_audit(1) by (auto simp: mutation_of_def)
  next
    case (Some f)
    then obtain s e where "fill_mutation H cx c s e = Inr m" using m by (auto simp: mutation_of_def)
    then show ?thesis by (elim fill_mutation_Inr) (simp add: append_order_event_audit(1))
  qed
  assume f: "pm_fill m = Some f"
  then obtain s e where "fill_mutation H cx c s e = Inr m" using m by (auto simp: mutation_of_def)
  then obtain ev where f': "make_q1_fill H cx c e = Inr f" and ev: "fill_settlement_event H cx (qc_intent c) f = Inr ev"
    "pm_settlement_event m = Some ev"
    using f by (elim fill_mutation_Inr) simp
  obtain a where "cash_event H a (er_settlement_policy (fc_runtime cx)) (fc_settlement_provenance cx) = Inr ev"
    using fill_settlement_event_more(4) [OF ev(1)] by blast
  from cash_event_audit [OF this] make_q1_fill_audit(1) [OF f'] trade_event_valid_fill [OF f' ev(1) run] ev(2)
  show "replay_fill_hash H f = qf_fill_hash f
      \<and> (\<exists>ev. pm_settlement_event m = Some ev \<and> replay_settlement_event_hash H ev = cs_event_hash ev
           \<and> stable_id H ''q1-cash-event'' [VDict (replay_cash_identity ev)] = cs_cash_settlement_event_id ev
           \<and> trade_event_valid f ev)" by blast
qed

section \<open>Planned orders\<close>

lemma make_intent_fields:
  assumes "make_intent H d c alg v ident symbol side cls quantity quote = Inr i"
  shows "oi_run_id i = sd_run_id d" "oi_arm_id i = sd_arm_id d" "oi_portfolio_decision_id i = sd_portfolio_decision_id d"
    "oi_risk_decision_id i = ic_risk_decision_id c" "oi_source_cycle_id i = ic_source_cycle_id c"
    "oi_input_state_sequence i = ic_input_state_sequence c" "oi_symbol i = symbol" "oi_side i = side" "oi_order_class i = cls"
    "oi_quantity i = quantity" "oi_decision_quote_id i = dq_quote_id quote" "oi_created_at i = ic_created_at c"
    "oi_valid_until i = ic_valid_until c" "vr_config_manifest_hash i = vr_config_manifest_hash v"
    "vr_code_version i = vr_code_version v" "vr_model_version i = vr_model_version v" "vr_source_manifest_hash i = vr_source_manifest_hash v"
    "oi_intent_hash i = intent_hash_of H ident c (oi_decision_reference_price i) (oi_decision_spread_bps i) v"
    "oi_order_intent_id i = stable_id H ''q1-order-intent'' [VStr (oi_intent_hash i)]"
    "oi_idempotency_key i = stable_id H ''q1-order-intent-idem'' [VStr (oi_intent_hash i)]"
  using assms by (auto simp: make_intent_def rbind_eq_Inr Let_def validate_q1_order_intent_def split: if_splits)

lemma normal_intent_hash:
  assumes "make_intent H d c alg v (intent_identity d c symbol side quantity quote) symbol side (order_class_value NORMAL_ORDER) quantity quote = Inr i"
  shows "replay_intent_hash H states i = Some (oi_intent_hash i)"
  using make_intent_fields [OF assms]
  by (simp add: replay_intent_hash_def Let_def intent_hash_of_def intent_identity_def)

lemma plan_step_intent:
  assumes "plan_step H d c positions quotes config trade (r, is, om) = Inr (r', is', om')"
  shows "is' = is \<or> (\<exists>i symbol side quantity quote. is' = is @ [i] \<and>
    make_intent H d c Q1_ALGORITHM_VERSION (sd_input_manifest d) (intent_identity d c symbol side quantity quote)
      symbol side (order_class_value NORMAL_ORDER) quantity quote = Inr i)"
  using assms by (fastforce simp: plan_step_def rbind_eq_Inr split: option.splits if_splits)

lemma normal_intents_made:
  assumes "plan_normal_orders H d turnover positions cash quotes cycle sq valid_until config = Inr p" "i \<in> set (po_intents p)"
  obtains c symbol side quantity quote where "ic_risk_decision_id c = risk_approval_id H d"
    "make_intent H d c Q1_ALGORITHM_VERSION (sd_input_manifest d) (intent_identity d c symbol side quantity quote)
      symbol side (order_class_value NORMAL_ORDER) quantity quote = Inr i"
proof -
  define c where "c = \<lparr>ic_source_cycle_id = cycle, ic_input_state_sequence = sq, ic_risk_decision_id = risk_approval_id H d,
    ic_created_at = sd_decision_created_at d, ic_valid_until = sd_valid_until d\<rparr>"
  let ?st0 = "(cash, [], map omitted_diagnostic (tv_omitted_orders turnover))"
  obtain st where st: "rfold (plan_step H d c positions quotes config) (sort_key trade_key (tv_proposed_trades turnover)) ?st0 = Inr st"
      "po_intents p = fst (snd st)"
    using assms by (auto simp: plan_normal_orders_def rbind_eq_Inr Let_def hash_diagnostics_def c_def split: if_splits)
  have c: "ic_risk_decision_id c = risk_approval_id H d" by (simp add: c_def)
  let ?P = "\<lambda>st :: plan_state. \<forall>i\<in>set (fst (snd st)). \<exists>symbol side quantity quote.
    make_intent H d c Q1_ALGORITHM_VERSION (sd_input_manifest d) (intent_identity d c symbol side quantity quote)
      symbol side (order_class_value NORMAL_ORDER) quantity quote = Inr i"
  have "?P st"
  proof (rule rfold_invariant [where P = ?P, OF st(1)])
    show "?P ?st0" by simp
    fix t s s' assume P: "?P s" and step: "plan_step H d c positions quotes config t s = Inr s'"
    have "fst (snd s') = fst (snd s) \<or> (\<exists>i symbol side quantity quote. fst (snd s') = fst (snd s) @ [i] \<and>
      make_intent H d c Q1_ALGORITHM_VERSION (sd_input_manifest d) (intent_identity d c symbol side quantity quote)
        symbol side (order_class_value NORMAL_ORDER) quantity quote = Inr i)"
      using plan_step_intent [of H d c positions quotes config t "fst s" "fst (snd s)" "snd (snd s)" "fst s'" "fst (snd s')" "snd (snd s')"]
        step by simp
    then show "?P s'"
    proof (elim disjE exE conjE)
      fix i symbol side quantity quote
      assume s': "fst (snd s') = fst (snd s) @ [i]" and i: "make_intent H d c Q1_ALGORITHM_VERSION (sd_input_manifest d)
        (intent_identity d c symbol side quantity quote) symbol side (order_class_value NORMAL_ORDER) quantity quote = Inr i"
      show ?thesis unfolding s' set_append ball_Un list.set using P i by blast
    qed (use P in simp)
  qed
  then show thesis using that [OF c] assms(2) unfolding st(2) by blast
qed

lemma target_step_intent:
  assumes "target_step H d c positions quotes cls config (s, t) is = Inr is'"
  shows "is' = is \<or> (\<exists>i quantity quote. is' = is @ [i] \<and>
    make_intent H d c (vr_algorithm_version d) d (intent_identity d c s SELL quantity quote
        @ [(''target_quantity'', VDec t), (''order_class'', VStr (order_class_value cls))])
      s SELL (order_class_value cls) quantity quote = Inr i)"
  using assms by (fastforce simp: target_step_def rbind_eq_Inr Let_def split: option.splits if_splits)

lemma target_intents_made:
  assumes "plan_target_quantity_sell_orders H d positions targets quotes cycle sq cls config = Inr p" "i \<in> set (po_intents p)"
  obtains c t quantity quote where "ic_risk_decision_id c = risk_approval_id H d" "ic_input_state_sequence c = sq"
    "(oi_symbol i, t) \<in> set targets" "cls \<noteq> NORMAL_ORDER"
    "make_intent H d c (vr_algorithm_version d) d (intent_identity d c (oi_symbol i) SELL quantity quote
        @ [(''target_quantity'', VDec t), (''order_class'', VStr (order_class_value cls))])
      (oi_symbol i) SELL (order_class_value cls) quantity quote = Inr i"
proof -
  define c where "c = \<lparr>ic_source_cycle_id = cycle, ic_input_state_sequence = sq, ic_risk_decision_id = risk_approval_id H d,
    ic_created_at = sd_decision_created_at d, ic_valid_until = sd_valid_until d\<rparr>"
  have c: "ic_risk_decision_id c = risk_approval_id H d" "ic_input_state_sequence c = sq" by (simp_all add: c_def)
  have cls: "cls \<noteq> NORMAL_ORDER"
    and st: "rfold (target_step H d c positions quotes cls config) (sorted_items targets) [] = Inr (po_intents p)"
    using assms(1) by (auto simp: plan_target_quantity_sell_orders_def rbind_eq_Inr Let_def c_def split: if_splits)
  let ?P = "\<lambda>is. \<forall>i\<in>set is. \<exists>t quantity quote. (oi_symbol i, t) \<in> set targets \<and>
    make_intent H d c (vr_algorithm_version d) d (intent_identity d c (oi_symbol i) SELL quantity quote
        @ [(''target_quantity'', VDec t), (''order_class'', VStr (order_class_value cls))])
      (oi_symbol i) SELL (order_class_value cls) quantity quote = Inr i"
  have "?P (po_intents p)"
  proof (rule rfold_invariant [where P = ?P, OF st])
    fix x s s' assume x: "x \<in> set (sorted_items targets)" and P: "?P s"
      and step: "target_step H d c positions quotes cls config x s = Inr s'"
    obtain y t where y: "x = (y, t)" by (cases x)
    have mem: "(y, t) \<in> set targets" using x by (simp add: y sorted_items_def)
    from target_step_intent [OF step [unfolded y]] show "?P s'"
    proof (elim disjE exE conjE)
      fix i quantity quote
      assume s': "s' = s @ [i]" and i: "make_intent H d c (vr_algorithm_version d) d (intent_identity d c y SELL quantity quote
        @ [(''target_quantity'', VDec t), (''order_class'', VStr (order_class_value cls))])
        y SELL (order_class_value cls) quantity quote = Inr i"
      have "oi_symbol i = y" using make_intent_fields(7) [OF i] .
      then show ?thesis using P s' i mem by auto
    qed (use P in simp)
  qed simp
  then show thesis using that [OF c] cls assms(2) by blast
qed

text \<open>The document the audit hashes for a reduction order, given the target quantity.\<close>

definition target_document :: "q1_order_intent \<Rightarrow> decimal \<Rightarrow> string" where
  "target_document i t = canonical_json (VDict
     [(''run_id'', VStr (oi_run_id i)), (''arm_id'', VStr (arm_value (oi_arm_id i))),
      (''portfolio_decision_id'', VStr (oi_portfolio_decision_id i)),
      (''source_cycle_id'', VStr (oi_source_cycle_id i)), (''symbol'', VStr (oi_symbol i)),
      (''side'', VStr (side_value (oi_side i))), (''quantity'', VDec (oi_quantity i)), (''target_quantity'', VDec t),
      (''decision_quote_id'', VStr (oi_decision_quote_id i)), (''created_at'', VTime (oi_created_at i)),
      (''valid_until'', VTime (oi_valid_until i)), (''order_class'', VStr (oi_order_class i)),
      (''risk_decision_id'', VStr (oi_risk_decision_id i)),
      (''decision_reference_price'', VDec (oi_decision_reference_price i)),
      (''decision_spread_bps'', VDec (oi_decision_spread_bps i)),
      (''input_state_sequence'', VInt (oi_input_state_sequence i)),
      (''config_manifest_hash'', VStr (vr_config_manifest_hash i)), (''code_version'', VStr (vr_code_version i)),
      (''model_version'', VStr (vr_model_version i)),
      (''source_manifest_hash'', VStr (vr_source_manifest_hash i))])"

definition no_collision :: "digest \<Rightarrow> string \<Rightarrow> string \<Rightarrow> bool" where
  "no_collision H x y \<longleftrightarrow> H x = H y \<longrightarrow> x = y"

text \<open>The audit hashes the fields of a target order in another order, with a target of its own.\<close>

lemma target_intent_hash:
  assumes i: "make_intent H d c alg v (intent_identity d c symbol SELL quantity quote
        @ [(''target_quantity'', VDec t), (''order_class'', VStr (order_class_value cls))])
      symbol SELL (order_class_value cls) quantity quote = Inr i"
    and cls: "cls \<noteq> NORMAL_ORDER"
    and state: "map_of states (arm_value (oi_arm_id i), oi_input_state_sequence i) = Some state"
  defines "left \<equiv> dict_get (as_positions state) (oi_symbol i) 0 - oi_quantity i"
  assumes H: "no_collision H (target_document i left) (target_document i t)"
  shows "replay_intent_hash H states i = Some (oi_intent_hash i) \<longleftrightarrow> 0 \<le> left \<and> format_f left = format_f t"
proof -
  let ?tail = "[(''order_class'', VStr (oi_order_class i)), (''risk_decision_id'', VStr (oi_risk_decision_id i)),
         (''decision_reference_price'', VDec (oi_decision_reference_price i)),
         (''decision_spread_bps'', VDec (oi_decision_spread_bps i)),
         (''input_state_sequence'', VInt (oi_input_state_sequence i)),
         (''config_manifest_hash'', VStr (vr_config_manifest_hash i)), (''code_version'', VStr (vr_code_version i)),
         (''model_version'', VStr (vr_model_version i)),
         (''source_manifest_hash'', VStr (vr_source_manifest_hash i))]"
  let ?ident = "intent_identity d c symbol SELL quantity quote"
  let ?dict = "\<lambda>x. ?ident @ (''target_quantity'', VDec x) # ?tail"
  let ?moved = "\<lambda>x. take 7 ?ident @ [(''target_quantity'', VDec x)] @ drop 7 ?ident @ ?tail"
  note f = make_intent_fields [OF i]
  have normal: "oi_order_class i \<noteq> order_class_value NORMAL_ORDER" using f(9) cls by (cases cls) simp_all
  have keys: "distinct (''target_quantity'' # map fst (?ident @ ?tail))" by (simp add: intent_identity_def)
  have doc: "target_document i x = canonical_json (VDict (?dict x))" for x
  proof -
    have "mset (?moved x) = mset (?dict x)" "distinct (map fst (?moved x))" by (simp_all add: intent_identity_def)
    then have "canonical_json (VDict (?moved x)) = canonical_json (VDict (?dict x))"
      unfolding canonical_json_def by (simp only: canonical_dict_perm)
    moreover have "target_document i x = canonical_json (VDict (?moved x))"
      using f unfolding target_document_def by (simp add: intent_identity_def)
    ultimately show ?thesis by simp
  qed
  have stored: "oi_intent_hash i = H (target_document i t)"
    using f unfolding doc by (simp add: intent_hash_of_def canonical_hash_def)
  have replayed: "replay_intent_hash H states i = (if left < 0 then None else Some (H (target_document i left)))"
    using normal state by (simp add: replay_intent_hash_def Let_def canonical_hash_def target_document_def left_def)
  have "target_document i left = target_document i t \<longleftrightarrow> format_f left = format_f t"
  proof
    assume "target_document i left = target_document i t"
    from json_field_inj [OF keys this [unfolded doc]] show "format_f left = format_f t" unfolding json_string_format .
  next
    assume "format_f left = format_f t"
    then show "target_document i left = target_document i t" by (simp add: doc canonical_json_def)
  qed
  then have "H (target_document i left) = H (target_document i t) \<longleftrightarrow> format_f left = format_f t"
    using H unfolding no_collision_def by metis
  then show ?thesis unfolding replayed stored by (simp add: dval_simps not_less)
qed

section \<open>Properties\<close>

text \<open>
  C33. Whatever an execution cycle writes passes the replay audit: its fills match their intents and
  order events one to one, every order event, fill and cash event re-hashes to its stored hash, and
  each fill has a cash event of exactly its notional and commission. The candidates are as the
  cycle selects them, and the digest gives their fills different identifiers.\<close>

theorem executed_fills_pass_audit:
  assumes "prepare_candidates H cx candidates states = Inr ms" "\<forall>c\<in>set candidates. candidate_fits cx c"
    and "distinct (map (\<lambda>c. oi_order_intent_id (qc_intent c)) candidates)" "distinct (map (candidate_fill_id H) candidates)"
  shows "fill_order_event_economics_valid H (cycle_fills ms) (map qc_intent candidates) (map pm_event ms)
    \<and> (\<forall>m\<in>set ms. replay_order_event_hash H (pm_event m) = oe_event_hash (pm_event m)
        \<and> (\<forall>f. pm_fill m = Some f \<longrightarrow> replay_fill_hash H f = qf_fill_hash f
            \<and> (\<exists>ev. pm_settlement_event m = Some ev \<and> replay_settlement_event_hash H ev = cs_event_hash ev
                 \<and> stable_id H ''q1-cash-event'' [VDict (replay_cash_identity ev)] = cs_cash_settlement_event_id ev
                 \<and> trade_event_valid f ev)))"
proof (intro conjI ballI)
  show "fill_order_event_economics_valid H (cycle_fills ms) (map qc_intent candidates) (map pm_event ms)"
    using assms(2) by (intro cycle_passes_fill_audit [OF assms(1) _ assms(3,4)]) blast
  fix m assume m: "m \<in> set ms"
  obtain c where "c \<in> set candidates" "mutation_of H cx c m"
    using list_all2_mem(2) [OF cycle_mutations [OF assms(1)] m] by auto
  with assms(2) have "mutation_of H cx c m" "sv_run_id (fc_settlement_provenance cx) = oi_run_id (qc_intent c)"
    by (auto simp: candidate_fits_def)
  note this = mutation_records [OF this]
  then show "replay_order_event_hash H (pm_event m) = oe_event_hash (pm_event m)"
    "\<forall>f. pm_fill m = Some f \<longrightarrow> replay_fill_hash H f = qf_fill_hash f
      \<and> (\<exists>ev. pm_settlement_event m = Some ev \<and> replay_settlement_event_hash H ev = cs_event_hash ev
           \<and> stable_id H ''q1-cash-event'' [VDict (replay_cash_identity ev)] = cs_cash_settlement_event_id ev
           \<and> trade_event_valid f ev)" by simp_all
qed

lemma ex_sell_prepared:
  "\<exists>m. prepare_candidates constant_digest ex_context [ex_candidate ''o2'' SELL] [(''Q1-DET'', ex_cycle_arm)] = Inr [m]
    \<and> fill_mutation constant_digest ex_context (ex_candidate ''o2'' SELL) ex_cycle_arm ex_sell_economics = Inr m
    \<and> pm_state_after m = Some ex_arm_after_sell"
proof -
  obtain m where m: "fill_mutation constant_digest ex_context (ex_candidate ''o2'' SELL) ex_cycle_arm ex_sell_economics = Inr m"
    "pm_state_after m = Some ex_arm_after_sell"
    using case_Inr_exists [OF ex_sell_mutation] by blast
  then have "prepare_candidates constant_digest ex_context [ex_candidate ''o2'' SELL] [(''Q1-DET'', ex_cycle_arm)] = Inr [m]"
    by (simp add: prepare_candidates_def prepare_fill_step_def Let_def set_default_def ex_sell_quantity ex_sell_economics ex_decimals)
  then show ?thesis using m by blast
qed

lemma ex_candidate_fits: "candidate_fits ex_context (ex_candidate ''o2'' SELL)"
proof -
  have "aggregate_for (qc_intent (ex_candidate ''o2'' SELL)) (fc_book_events ex_context) = Inr (qc_aggregate (ex_candidate ''o2'' SELL))"
    by code_simp
  moreover have "oa_cumulative_commission_usd (qc_aggregate (ex_candidate ''o2'' SELL)) = 0" by (simp add: ex_candidate_def)
  ultimately show ?thesis
    by (simp add: candidate_fits_def ex_candidate_def ex_intent_def Execution_Safety.ex_quote_def ex_context_def)
qed

theorem executed_fills_pass_audit_witness:
  "\<exists>m. prepare_candidates constant_digest ex_context [ex_candidate ''o2'' SELL] [(''Q1-DET'', ex_cycle_arm)] = Inr [m]
    \<and> cycle_fills [m] \<noteq> []
    \<and> fill_order_event_economics_valid constant_digest (cycle_fills [m]) [ex_intent ''o2'' SELL] [pm_event m]"
proof -
  obtain m where m: "prepare_candidates constant_digest ex_context [ex_candidate ''o2'' SELL] [(''Q1-DET'', ex_cycle_arm)] = Inr [m]"
    "fill_mutation constant_digest ex_context (ex_candidate ''o2'' SELL) ex_cycle_arm ex_sell_economics = Inr m"
    using ex_sell_prepared by blast
  from m(2) have "cycle_fills [m] \<noteq> []" by (elim fill_mutation_Inr) (simp add: cycle_fills_def map_filter_simps)
  moreover have "map qc_intent [ex_candidate ''o2'' SELL] = [ex_intent ''o2'' SELL]" by (simp add: ex_candidate_def)
  ultimately show ?thesis
    using executed_fills_pass_audit [OF m(1)] ex_candidate_fits m(1) by (intro exI [of _ m]) simp
qed

text \<open>
  C35. Every intent of the normal-order planner passes the audit of its decision: the hash
  recomputed from the stored intent is the stored one, and so are the three identifiers derived
  from it and from the decision, whatever arm states are on record.\<close>

theorem planned_orders_pass_audit:
  assumes "plan_normal_orders H d turnover positions cash quotes cycle sq valid_until config = Inr p"
  shows "intent_hashes_valid H (po_intents p) [d] states"
proof -
  have "intent_hash_valid H [(sd_portfolio_decision_id d, d)] states i" if i: "i \<in> set (po_intents p)" for i
  proof -
    obtain c symbol side quantity quote where c: "ic_risk_decision_id c = risk_approval_id H d"
      and m: "make_intent H d c Q1_ALGORITHM_VERSION (sd_input_manifest d) (intent_identity d c symbol side quantity quote)
        symbol side (order_class_value NORMAL_ORDER) quantity quote = Inr i"
      by (rule normal_intents_made [OF assms i])
    show ?thesis
      using make_intent_fields [OF m] normal_intent_hash [OF m, of states] c by (simp add: intent_hash_valid_def)
  qed
  then show ?thesis by (simp add: intent_hashes_valid_def list_all_iff)
qed

theorem planned_orders_pass_audit_witness:
  "\<exists>p. plan_normal_orders (\<lambda>_. ''h'') ex_decision ex_turnover [] (D 500 0) [(''QQQ'', Planning.ex_quote)] ''cyc'' 0 (Aware 60) ex_planning = Inr p
    \<and> po_intents p \<noteq> [] \<and> intent_hashes_valid (\<lambda>_. ''h'') (po_intents p) [ex_decision] []"
proof -
  obtain p where p: "plan_normal_orders (\<lambda>_. ''h'') ex_decision ex_turnover [] (D 500 0) [(''QQQ'', Planning.ex_quote)] ''cyc'' 0 (Aware 60) ex_planning = Inr p"
    "map oi_quantity (po_intents p) = [Dec False 4999900 (- 6)]"
    using ex_planned by (elim exE conjE) (rule that)
  moreover have "po_intents p \<noteq> []" using p(2) by (cases "po_intents p") simp_all
  ultimately show ?thesis using planned_orders_pass_audit [OF p(1), of "[]"] by (intro exI [of _ p] conjI)
qed

text \<open>
  C37. A planned reduction to a target quantity passes the audit if and only if the target is
  written the way the audit recomputes it: the position less the ordered quantity must format to
  the same text as the planned target. The audit uses the arm state the order was planned on, and
  the digest does not map the two hashed documents of an intent to one value.\<close>

theorem target_order_audit_iff:
  assumes "plan_target_quantity_sell_orders H d positions targets quotes cycle sq cls config = Inr p"
    and "distinct (dict_keys targets)" "map_of states (arm_value (sd_arm_id d), sq) = Some state" "as_positions state = positions"
    and "\<And>i t. i \<in> set (po_intents p) \<Longrightarrow> map_of targets (oi_symbol i) = Some t \<Longrightarrow>
      no_collision H (target_document i (dict_get positions (oi_symbol i) 0 - oi_quantity i)) (target_document i t)"
  shows "intent_hashes_valid H (po_intents p) [d] states \<longleftrightarrow>
    (\<forall>i\<in>set (po_intents p). \<exists>t. map_of targets (oi_symbol i) = Some t
       \<and> 0 \<le> dict_get positions (oi_symbol i) 0 - oi_quantity i
       \<and> format_f (dict_get positions (oi_symbol i) 0 - oi_quantity i) = format_f t)"
proof -
  have "intent_hash_valid H [(sd_portfolio_decision_id d, d)] states i \<longleftrightarrow>
      (\<exists>t. map_of targets (oi_symbol i) = Some t \<and> 0 \<le> dict_get positions (oi_symbol i) 0 - oi_quantity i
       \<and> format_f (dict_get positions (oi_symbol i) 0 - oi_quantity i) = format_f t)" if i: "i \<in> set (po_intents p)" for i
  proof -
    obtain c t quantity quote where c: "ic_risk_decision_id c = risk_approval_id H d" "ic_input_state_sequence c = sq"
      and t: "(oi_symbol i, t) \<in> set targets" and cls: "cls \<noteq> NORMAL_ORDER"
      and m: "make_intent H d c (vr_algorithm_version d) d (intent_identity d c (oi_symbol i) SELL quantity quote
          @ [(''target_quantity'', VDec t), (''order_class'', VStr (order_class_value cls))])
        (oi_symbol i) SELL (order_class_value cls) quantity quote = Inr i"
      by (rule target_intents_made [OF assms(1) i])
    note f = make_intent_fields [OF m]
    have lookup: "map_of targets (oi_symbol i) = Some t" using t assms(2) by (simp add: dict_keys_def)
    have "map_of states (arm_value (oi_arm_id i), oi_input_state_sequence i) = Some state" using f(2,6) c assms(3) by simp
    from target_intent_hash [OF m cls this, unfolded assms(4), OF assms(5) [OF i lookup]]
    have "replay_intent_hash H states i = Some (oi_intent_hash i)
        \<longleftrightarrow> 0 \<le> dict_get positions (oi_symbol i) 0 - oi_quantity i
          \<and> format_f (dict_get positions (oi_symbol i) 0 - oi_quantity i) = format_f t"
      .
    moreover have "intent_hash_valid H [(sd_portfolio_decision_id d, d)] states i
        \<longleftrightarrow> replay_intent_hash H states i = Some (oi_intent_hash i)"
      using f(1-4,19,20) c(1) by (auto simp: intent_hash_valid_def split: option.splits)
    ultimately show ?thesis using lookup by simp
  qed
  then show ?thesis by (simp add: intent_hashes_valid_def list_all_iff)
qed

definition ex_target_arm :: q1_arm_state where
  "ex_target_arm = ex_cycle_arm\<lparr>as_positions := [(''QQQ'', D 5 0)]\<rparr>"

theorem target_order_audit_iff_witness:
  "\<exists>p. plan_target_quantity_sell_orders (\<lambda>x. x) ex_decision [(''QQQ'', D 5 0)] [(''QQQ'', D 2 0)] [(''QQQ'', Planning.ex_quote)]
      ''cyc'' 0 EMERGENCY_REDUCTION ex_planning = Inr p
    \<and> length (po_intents p) = 1
    \<and> \<not> intent_hashes_valid (\<lambda>x. x) (po_intents p) [ex_decision] [((arm_value (sd_arm_id ex_decision), 0), ex_target_arm)]"
proof -
  let ?H = "\<lambda>x. x :: string" and ?pos = "[(''QQQ'', D 5 0)]"
  let ?c = "\<lparr>ic_source_cycle_id = ''cyc'', ic_input_state_sequence = 0,
    ic_risk_decision_id = risk_approval_id ?H ex_decision, ic_created_at = 0, ic_valid_until = 60\<rparr>"
  let ?q = "Dec False 3000000 (- 6)"
  have q: "quantize ROUND_DOWN (oc_quantity_increment ex_planning) (D 5 0 - D 2 0) = Inr ?q" by code_simp
  obtain i where i: "make_intent ?H ex_decision ?c (vr_algorithm_version ex_decision) ex_decision
      (intent_identity ex_decision ?c ''QQQ'' SELL ?q Planning.ex_quote
        @ [(''target_quantity'', VDec (D 2 0)), (''order_class'', VStr ''EMERGENCY_REDUCTION'')])
      ''QQQ'' SELL ''EMERGENCY_REDUCTION'' ?q Planning.ex_quote = Inr i"
    using make_intent_exists [OF ex_planning_ok(3,4), of ?q ?c "''EMERGENCY_REDUCTION''" SELL]
    by (fastforce simp: dval_simps dval_Dec)
  have "sd_valid_until ex_decision = 60" "sd_decision_created_at ex_decision = 0" by (simp_all add: ex_decision_def)
  with i q obtain p where p: "plan_target_quantity_sell_orders ?H ex_decision ?pos [(''QQQ'', D 2 0)] [(''QQQ'', Planning.ex_quote)]
      ''cyc'' 0 EMERGENCY_REDUCTION ex_planning = Inr p" "po_intents p = [i]"
    by (auto simp: plan_target_quantity_sell_orders_def sorted_items_def target_step_def dict_get_def dval_simps dval_Dec)
  have differ: "format_f (D 5 0 - ?q) \<noteq> format_f (D 2 0)" by code_simp
  have "oi_symbol i = ''QQQ''" "oi_quantity i = ?q" using make_intent_fields(7,10) [OF i] by simp_all
  with target_order_audit_iff [OF p(1), of "[((arm_value (sd_arm_id ex_decision), 0), ex_target_arm)]" ex_target_arm]
  have "\<not> intent_hashes_valid ?H (po_intents p) [ex_decision] [((arm_value (sd_arm_id ex_decision), 0), ex_target_arm)]"
    using differ p(2) by (simp add: dict_keys_def ex_target_arm_def dict_get_def no_collision_def)
  then show ?thesis using p by auto
qed

end
