(* ===== verification/Replay_Cash.thy ===== *)
theory Replay_Cash
  imports Replay
begin

text \<open>
  The cash audit of \<^verbatim>\<open>src/trading/replay/q1.py\<close> (\<^verbatim>\<open>_cash_settlement_economics_valid\<close>): every cash
  event keeps its identity, every fill has exactly one cash event of its own economics, every
  settlement its receivable, every arm at most one opening, and the stream of each arm replays.
  Shown: an accepted audit explains the cash of every arm by its opening and its fills alone.
\<close>

section \<open>The audit\<close>

definition opening_event_valid :: "cash_settlement_event \<Rightarrow> bool" where
  "opening_event_valid e \<longleftrightarrow>
     cs_source_fill_id e = None \<and> cs_receivable_id e = None
     \<and> d_eq (cs_settled_cash_delta_usd e) (cs_gross_amount_usd e)
     \<and> d_eq (cs_unsettled_receivable_delta_usd e) 0 \<and> d_eq (cs_commission_usd e) 0
     \<and> cs_trade_at e = None \<and> cs_settlement_date e = None"

definition is_trade_event :: "cash_settlement_event \<Rightarrow> bool" where
  "is_trade_event e \<longleftrightarrow> cs_event_type e \<in> {BUY_SETTLED_CASH_DEBIT, SELL_RECEIVABLE_CREATED}"

definition settled_event_valid :: "(string, cash_settlement_event) dict \<Rightarrow> cash_settlement_event \<Rightarrow> bool" where
  "settled_event_valid created e \<longleftrightarrow>
     (case cs_receivable_id e of
        None \<Rightarrow> False
      | Some rid \<Rightarrow>
          (case map_of created rid of
             None \<Rightarrow> False
           | Some src \<Rightarrow>
               cs_source_fill_id e = cs_source_fill_id src
               \<and> d_eq (cs_gross_amount_usd e) (cs_gross_amount_usd src)
               \<and> d_eq (cs_commission_usd e) (cs_commission_usd src)
               \<and> cs_settlement_date e = cs_settlement_date src
               \<and> d_eq (cs_settled_cash_delta_usd e) (cs_unsettled_receivable_delta_usd src)
               \<and> d_eq (cs_unsettled_receivable_delta_usd e) (- cs_unsettled_receivable_delta_usd src)))"

definition arm_events :: "cash_settlement_event list \<Rightarrow> q1_arm_id \<Rightarrow> cash_settlement_event list" where
  "arm_events events arm = filter (\<lambda>e. cs_arm_id e = arm) events"

definition latest_creation :: "cash_settlement_event list \<Rightarrow> instant" where
  "latest_creation events = Max (set (map cs_created_at events))"

text \<open>
  \<^verbatim>\<open>except (ValueError, InvalidOperation): return False\<close>; the replay raises nothing else, as
  \<open>apply_settlement_events_raises\<close> shows.
\<close>

definition arm_cash_replays :: "cash_settlement_event list \<Rightarrow> q1_arm_id \<Rightarrow> bool" where
  "arm_cash_replays events arm \<longleftrightarrow>
     (let es = arm_events events arm in
      case apply_settlement_events es (Aware (latest_creation es)) of Inl _ \<Rightarrow> False | Inr _ \<Rightarrow> True)"

definition fill_has_own_event :: "cash_settlement_event list \<Rightarrow> q1_fill \<Rightarrow> bool" where
  "fill_has_own_event trades f \<longleftrightarrow>
     (case filter (\<lambda>e. cs_source_fill_id e = Some (qf_fill_id f)) trades of
        [e] \<Rightarrow> trade_event_valid f e | _ \<Rightarrow> False)"

definition cash_settlement_economics_valid :: "digest \<Rightarrow> cash_settlement_event list \<Rightarrow> q1_fill list \<Rightarrow> bool" where
  "cash_settlement_economics_valid H events fills \<longleftrightarrow>
     (let fill_by_id = fold (\<lambda>f. AList.update (qf_fill_id f) f) fills [];
          openings = filter (\<lambda>e. cs_event_type e = OPENING_SETTLED_CASH) events;
          trades = filter is_trade_event events;
          created = filter (\<lambda>e. cs_event_type e = SELL_RECEIVABLE_CREATED) events;
          settled = filter (\<lambda>e. cs_event_type e = RECEIVABLE_SETTLED) events in
      list_all (\<lambda>e. stable_id H ''q1-cash-event'' [VDict (replay_cash_identity e)] = cs_cash_settlement_event_id e) events
      \<and> list_all opening_event_valid openings
      \<and> list_all (\<lambda>e. cs_source_fill_id e \<noteq> None) trades
      \<and> list_all (\<lambda>e. cs_receivable_id e \<noteq> None) created \<and> \<not> has_duplicates (map cs_receivable_id created)
      \<and> set (map cs_source_fill_id trades) = Some ` set (dict_keys fill_by_id)
      \<and> list_all (fill_has_own_event trades) (dict_values fill_by_id)
      \<and> list_all (settled_event_valid (created_by_receivable events)) settled
      \<and> list_all (arm_cash_replays events) (map cs_arm_id events)
      \<and> \<not> has_duplicates (map cs_arm_id openings))"

lemma apply_settlement_events_raises: "only_raises is_value_error (apply_settlement_events events as_of)"
  unfolding apply_settlement_events_def validate_unique_events_def apply_cash_event_def apply_receivable_def
    validate_cash_balances_def
  by (intro raise_intros; simp split: prod.splits option.splits add: raise_intros)

section \<open>What an accepted stream says about cash\<close>

text \<open>What a fill does to the cash of its arm.\<close>

definition fill_cash :: "q1_fill \<Rightarrow> rat" where
  "fill_cash f =
     (if qf_side f = BUY then dval (- (qf_quantity f * qf_price f + qf_commission_usd f))
      else dval (qf_quantity f * qf_price f - qf_commission_usd f))"

definition event_cash :: "cash_settlement_event \<Rightarrow> rat" where
  "event_cash e = dval (cs_settled_cash_delta_usd e) + dval (cs_unsettled_receivable_delta_usd e)"

definition opening_cash :: "cash_settlement_event list \<Rightarrow> q1_arm_id \<Rightarrow> rat" where
  "opening_cash events arm =
     (\<Sum>e\<leftarrow>filter (\<lambda>e. cs_event_type e = OPENING_SETTLED_CASH) (arm_events events arm). dval (cs_gross_amount_usd e))"

lemma trade_event_cash: "trade_event_valid f e \<Longrightarrow> event_cash e = fill_cash f"
  by (auto simp: trade_event_valid_def event_cash_def fill_cash_def Let_def dval_simps split: if_splits)

lemma sum_by_key:
  assumes "distinct ks" "\<And>x. x \<in> set xs \<Longrightarrow> k x \<in> set ks"
  shows "(\<Sum>x\<leftarrow>xs. g x :: 'a::comm_monoid_add) = (\<Sum>q\<leftarrow>ks. \<Sum>x\<leftarrow>filter (\<lambda>x. k x = q) xs. g x)"
  using assms
proof (induction ks arbitrary: xs)
  case (Cons q ks)
  let ?rest = "filter (\<lambda>x. k x \<noteq> q) xs"
  have part: "(\<Sum>x\<leftarrow>xs. g x) = (\<Sum>x\<leftarrow>filter (\<lambda>x. k x = q) xs. g x) + (\<Sum>x\<leftarrow>?rest. g x)"
    by (induction xs) (auto simp: ac_simps)
  have "(\<Sum>x\<leftarrow>?rest. g x) = (\<Sum>p\<leftarrow>ks. \<Sum>x\<leftarrow>filter (\<lambda>x. k x = p) ?rest. g x)"
    using Cons.prems by (intro Cons.IH) auto
  also have "map (\<lambda>p. \<Sum>x\<leftarrow>filter (\<lambda>x. k x = p) ?rest. g x) ks = map (\<lambda>p. \<Sum>x\<leftarrow>filter (\<lambda>x. k x = p) xs. g x) ks"
    using Cons.prems(1) by (intro map_cong refl) (auto intro!: arg_cong [of _ _ sum_list] arg_cong [of _ _ "map g"] filter_cong)
  finally show ?case using part by simp
next
  case Nil
  then have "xs = []" by (cases xs) auto
  then show ?case by simp
qed


lemma fold_update_fresh:
  "distinct (map k xs) \<Longrightarrow> fold (\<lambda>x. AList.update (k x) x) xs [] = map (\<lambda>x. (k x, x)) xs"
proof (induction xs rule: rev_induct)
  case (snoc x xs)
  then show ?case by (simp add: update_fresh image_image)
qed simp

lemma own_event:
  assumes "list_all (fill_has_own_event trades) fills" "f \<in> set fills"
  obtains e where "filter (\<lambda>e. cs_source_fill_id e = Some (qf_fill_id f)) trades = [e]" "trade_event_valid f e"
proof -
  let ?xs = "filter (\<lambda>e. cs_source_fill_id e = Some (qf_fill_id f)) trades"
  have own: "case ?xs of [e] \<Rightarrow> trade_event_valid f e | _ \<Rightarrow> False"
    using assms unfolding list_all_iff fill_has_own_event_def by blast
  show thesis
  proof (cases ?xs)
    case (Cons e es)
    then show thesis using own that by (cases es) simp_all
  qed (use own in simp)
qed

lemma trades_cash:
  assumes own: "list_all (fill_has_own_event trades) fills" and ids: "distinct (map qf_fill_id fills)"
    and src: "set (map cs_source_fill_id trades) = Some ` set (map qf_fill_id fills)"
  shows "(\<Sum>e\<leftarrow>filter (\<lambda>e. cs_arm_id e = arm) trades. event_cash e) = (\<Sum>f\<leftarrow>filter (\<lambda>f. qf_arm_id f = arm) fills. fill_cash f)"
proof -
  let ?ts = "filter (\<lambda>e. cs_arm_id e = arm) trades" and ?fs = "filter (\<lambda>f. qf_arm_id f = arm) fills"
  let ?key = "\<lambda>f. Some (qf_fill_id f)"
  have key: "cs_source_fill_id e \<in> set (map ?key ?fs)" if e: "e \<in> set ?ts" for e
  proof -
    have "cs_source_fill_id e \<in> set (map cs_source_fill_id trades)" using e by auto
    then obtain f where f: "f \<in> set fills" "cs_source_fill_id e = Some (qf_fill_id f)" unfolding src by auto
    obtain e' where e': "filter (\<lambda>e. cs_source_fill_id e = Some (qf_fill_id f)) trades = [e']" "trade_event_valid f e'"
      by (rule own_event [OF own f(1)])
    have "e \<in> set (filter (\<lambda>e. cs_source_fill_id e = Some (qf_fill_id f)) trades)" using e f(2) by simp
    then have "e' = e" unfolding e'(1) by simp
    then have "qf_arm_id f = arm" using e'(2) e by (simp add: trade_event_valid_def Let_def)
    then show ?thesis using f by auto
  qed
  have one: "(\<Sum>e\<leftarrow>filter (\<lambda>e. cs_source_fill_id e = ?key f) ?ts. event_cash e) = fill_cash f" if f: "f \<in> set ?fs" for f
  proof -
    obtain e where e: "filter (\<lambda>e. cs_source_fill_id e = Some (qf_fill_id f)) trades = [e]" "trade_event_valid f e"
      by (rule own_event [OF own, of f]) (use f in simp)
    have "filter (\<lambda>e. cs_source_fill_id e = ?key f) ?ts = filter (\<lambda>e. cs_arm_id e = arm) [e]"
      unfolding e(1) [symmetric] by (simp add: conj_commute)
    moreover have "cs_arm_id e = arm" using e(2) f by (simp add: trade_event_valid_def Let_def)
    ultimately show ?thesis using trade_event_cash [OF e(2)] by simp
  qed
  have dist: "distinct (map ?key ?fs)"
    using distinct_map_filter [OF ids, of "\<lambda>f. qf_arm_id f = arm"] by (simp add: distinct_map inj_on_def)
  have "(\<Sum>e\<leftarrow>?ts. event_cash e) = (\<Sum>q\<leftarrow>map ?key ?fs. \<Sum>e\<leftarrow>filter (\<lambda>e. cs_source_fill_id e = q) ?ts. event_cash e)"
    using key by (intro sum_by_key [OF dist]) blast
  also have "map (\<lambda>q. \<Sum>e\<leftarrow>filter (\<lambda>e. cs_source_fill_id e = q) ?ts. event_cash e) (map ?key ?fs) = map fill_cash ?fs"
    unfolding map_map comp_def by (rule map_cong [OF refl one])
  finally show ?thesis .
qed

lemma created_mem: "map_of (created_by_receivable events) rid = Some src \<Longrightarrow> src \<in> set events"
proof -
  have "map_of (fold add_created es d) rid = Some src \<Longrightarrow> src \<in> set es \<or> map_of d rid = Some src" for es d
  proof (induction es arbitrary: d)
    case (Cons e es)
    from Cons.IH [of "add_created e d"] Cons.prems show ?case
      by (auto simp: add_created_def AList.update_conv' split: if_splits option.splits)
  qed simp
  then show "map_of (created_by_receivable events) rid = Some src \<Longrightarrow> src \<in> set events"
    by (fastforce simp: created_by_receivable_def)
qed

lemma settled_event_cash:
  assumes "settled_event_valid (created_by_receivable events) e" "\<And>e. e \<in> set events \<Longrightarrow> grid_event g e"
  shows "event_cash e = 0"
proof -
  obtain rid src where src: "map_of (created_by_receivable events) rid = Some src"
    "d_eq (cs_settled_cash_delta_usd e) (cs_unsettled_receivable_delta_usd src)"
    "d_eq (cs_unsettled_receivable_delta_usd e) (- cs_unsettled_receivable_delta_usd src)"
    using assms(1) by (auto simp: settled_event_valid_def split: option.splits)
  have "grid_event g src" using assms(2) created_mem [OF src(1)] by blast
  then have "dval (- cs_unsettled_receivable_delta_usd src) = - dval (cs_unsettled_receivable_delta_usd src)"
    by (intro dval_uminus_grid) (auto simp: grid_event_def)
  then show ?thesis using src(2,3) by (simp add: event_cash_def dval_simps)
qed


lemma arm_event_cash:
  assumes valid: "cash_settlement_economics_valid H events fills" and ids: "distinct (map qf_fill_id fills)"
    and grid: "\<And>e. e \<in> set events \<Longrightarrow> grid_event g e"
  shows "net_cash (arm_events events arm) = opening_cash events arm + (\<Sum>f\<leftarrow>filter (\<lambda>f. qf_arm_id f = arm) fills. fill_cash f)"
proof -
  let ?es = "arm_events events arm"
  let ?ty = "\<lambda>ty. filter (\<lambda>e. cs_event_type e = ty) ?es"
  have dict: "fold (\<lambda>f. AList.update (qf_fill_id f) f) fills [] = map (\<lambda>f. (qf_fill_id f, f)) fills"
    by (rule fold_update_fresh [OF ids])
  note v = valid [unfolded cash_settlement_economics_valid_def Let_def dict dict_keys_def dict_values_def map_map]
  have trades: "(\<Sum>e\<leftarrow>filter is_trade_event ?es. event_cash e) = (\<Sum>f\<leftarrow>filter (\<lambda>f. qf_arm_id f = arm) fills. fill_cash f)"
  proof -
    have "filter is_trade_event ?es = filter (\<lambda>e. cs_arm_id e = arm) (filter is_trade_event events)"
      by (simp add: arm_events_def conj_commute)
    moreover have "(\<Sum>e\<leftarrow>filter (\<lambda>e. cs_arm_id e = arm) (filter is_trade_event events). event_cash e)
        = (\<Sum>f\<leftarrow>filter (\<lambda>f. qf_arm_id f = arm) fills. fill_cash f)"
      using v by (intro trades_cash [OF _ ids]) (simp_all add: comp_def)
    ultimately show ?thesis by simp
  qed
  have openings: "(\<Sum>e\<leftarrow>?ty OPENING_SETTLED_CASH. event_cash e) = opening_cash events arm"
    unfolding opening_cash_def using v
    by (intro arg_cong [of _ _ sum_list] map_cong refl)
      (auto simp: list_all_iff arm_events_def opening_event_valid_def event_cash_def dval_simps)
  have "event_cash e = 0" if "e \<in> set (?ty RECEIVABLE_SETTLED)" for e
    using v that by (intro settled_event_cash [OF _ grid]) (auto simp: list_all_iff arm_events_def)
  then have zero: "map event_cash (?ty RECEIVABLE_SETTLED) = map (\<lambda>_. 0) (?ty RECEIVABLE_SETTLED)" by (rule map_cong [OF refl])
  have settled: "(\<Sum>e\<leftarrow>?ty RECEIVABLE_SETTLED. event_cash e) = 0" unfolding zero by simp
  have "(\<Sum>e\<leftarrow>es. event_cash e) = (\<Sum>e\<leftarrow>filter (\<lambda>e. cs_event_type e = OPENING_SETTLED_CASH) es. event_cash e)
      + (\<Sum>e\<leftarrow>filter is_trade_event es. event_cash e) + (\<Sum>e\<leftarrow>filter (\<lambda>e. cs_event_type e = RECEIVABLE_SETTLED) es. event_cash e)" for es
  proof (induction es)
    case (Cons e es)
    then show ?case by (cases "cs_event_type e") (simp_all add: is_trade_event_def)
  qed simp
  from this [of ?es] show ?thesis
    unfolding net_cash_def event_cash_def [symmetric] openings trades settled by simp
qed

lemma all_visible:
  assumes "apply_settlement_events es (Aware (latest_creation es)) = Inr b" "\<And>e. e \<in> set es \<Longrightarrow> cs_effective_at e \<le> cs_created_at e"
  shows "visible_cash_events es (latest_creation es) = es"
proof -
  have "cs_created_at e \<le> latest_creation es" if "e \<in> set es" for e
    unfolding latest_creation_def using that by (intro Max_ge) auto
  then show ?thesis using assms(2) unfolding visible_cash_events_def by (intro filter_True) force
qed

section \<open>Properties\<close>

text \<open>
  C34. An accepted cash audit leaves no unexplained money: replaying the stream of any arm succeeds,
  and its total cash, settled and receivable, is exactly the arm's opening cash plus the net
  proceeds of its sells minus the full cost of its buys; settlements only move it.\<close>

theorem audited_cash_explained_by_fills:
  assumes "cash_settlement_economics_valid H events fills" "distinct (map qf_fill_id fills)"
    and "\<forall>e\<in>set events. grid_event g e \<and> cs_effective_at e \<le> cs_created_at e"
    and "gross_cash (arm_events events arm) \<le> pow10 (g + int prec)" "arm_events events arm \<noteq> []"
  shows "\<exists>b. apply_settlement_events (arm_events events arm) (Aware (latest_creation (arm_events events arm))) = Inr b
    \<and> dval (total_cash_usd b) = opening_cash events arm + (\<Sum>f\<leftarrow>filter (\<lambda>f. qf_arm_id f = arm) fills. fill_cash f)"
proof -
  let ?es = "arm_events events arm"
  have "arm \<in> set (map cs_arm_id events)" using assms(5) by (auto simp: arm_events_def filter_empty_conv)
  then have "arm_cash_replays events arm"
    using assms(1) by (simp add: cash_settlement_economics_valid_def Let_def list_all_iff del: set_map)
  then obtain b where b: "apply_settlement_events ?es (Aware (latest_creation ?es)) = Inr b"
    by (auto simp: arm_cash_replays_def Let_def split: sum.splits)
  have mem: "e \<in> set events" if "e \<in> set ?es" for e using that by (simp add: arm_events_def)
  have vis: "visible_cash_events ?es (latest_creation ?es) = ?es" using assms(3) mem by (intro all_visible [OF b]) blast
  have "dval (total_cash_usd b) = net_cash ?es"
    using total_cash_exact(3) [OF b, of g] assms(3,4) mem unfolding vis by blast
  moreover have "net_cash ?es = opening_cash events arm + (\<Sum>f\<leftarrow>filter (\<lambda>f. qf_arm_id f = arm) fills. fill_cash f)"
    using assms(3) by (intro arm_event_cash [OF assms(1,2), of g]) blast
  ultimately show ?thesis using b by auto
qed

text \<open>An opening of one arm, and a sell of three shares of another.\<close>

definition ex_audit_fill :: q1_fill where
  "ex_audit_fill =
     \<lparr>vr_algorithm_version = Q1_ALGORITHM_VERSION, vr_config_manifest_hash = ''cfg'',
      vr_code_version = ''code'', vr_model_version = ''model'', vr_source_manifest_hash = ''src'',
      qf_fill_id = ''f1'', qf_order_intent_id = ''o1'', qf_run_id = ''run'', qf_arm_id = Q1_LLM,
      qf_source_cycle_id = ''cycle'', qf_quote_id = ''q1'', qf_quote_event_time = 20, qf_quote_available_at = 20,
      qf_symbol = ''QQQ'', qf_side = SELL, qf_quantity = D 3 0, qf_price = D 10050 (- 2), qf_commission_usd = D 35 (- 2),
      qf_cumulative_order_commission_usd = D 35 (- 2), qf_execution_scenario_id = ''base'', qf_base_fill_cost_usd = D 35 (- 2),
      qf_sensitivity_5bp_cost_usd = D 50 (- 2), qf_sensitivity_10bp_cost_usd = D 65 (- 2),
      qf_effective_at = 20, qf_created_at = 21, qf_fill_hash = ''hash''\<rparr>"

definition ex_audit_sell :: cash_settlement_event where
  "ex_audit_sell = (example_cash_event ''q1-cash-event_h'' SELL_RECEIVABLE_CREATED (Some ''r1'') (Some (2024, 1, 3)) 0 (D 30115 (- 2)) 20)
     \<lparr>cs_arm_id := Q1_LLM, cs_source_fill_id := Some ''f1'', cs_gross_amount_usd := D 30150 (- 2),
      cs_commission_usd := D 35 (- 2), cs_trade_at := Some 20\<rparr>"

definition ex_audit_opening :: cash_settlement_event where
  "ex_audit_opening = (example_cash_event ''q1-cash-event_h'' OPENING_SETTLED_CASH None None (D 1000 0) 0 10)
     \<lparr>cs_gross_amount_usd := D 1000 0\<rparr>"

theorem audited_cash_explained_by_fills_witness:
  "\<exists>b. apply_settlement_events [ex_audit_sell] (Aware 20) = Inr b \<and> dval (total_cash_usd b) = 30115 / 100"
proof -
  let ?events = "[ex_audit_opening, ex_audit_sell]"
  have audit: "cash_settlement_economics_valid (\<lambda>_. ''h'') ?events [ex_audit_fill]" by code_simp
  have arm: "arm_events ?events Q1_LLM = [ex_audit_sell]"
    by (simp add: arm_events_def ex_audit_opening_def ex_audit_sell_def example_cash_event_def)
  have grid: "\<forall>e\<in>set ?events. grid_event (- 2) e \<and> cs_effective_at e \<le> cs_created_at e"
    by (auto simp: ex_audit_opening_def ex_audit_sell_def example_cash_event_def grid_event_def dval_simps on_grid_def prec_def
        intro: exI [of _ 100000] exI [of _ 30115])
  have "gross_cash (arm_events ?events Q1_LLM) \<le> pow10 (- 2 + int prec)"
    unfolding arm by (simp add: gross_cash_def ex_audit_sell_def example_cash_event_def dval_simps prec_def)
  from audited_cash_explained_by_fills [OF audit _ grid this] arm
  obtain b where b: "apply_settlement_events [ex_audit_sell] (Aware (latest_creation [ex_audit_sell])) = Inr b"
    "dval (total_cash_usd b) = opening_cash ?events Q1_LLM + (\<Sum>f\<leftarrow>filter (\<lambda>f. qf_arm_id f = Q1_LLM) [ex_audit_fill]. fill_cash f)"
    by auto
  have "latest_creation [ex_audit_sell] = 20" by (simp add: latest_creation_def ex_audit_sell_def example_cash_event_def)
  moreover have "opening_cash ?events Q1_LLM = 0"
    unfolding opening_cash_def arm by (simp add: ex_audit_sell_def example_cash_event_def)
  moreover have "qf_quantity ex_audit_fill * qf_price ex_audit_fill - qf_commission_usd ex_audit_fill = D 30115 (- 2)" by code_simp
  then have "fill_cash ex_audit_fill = 30115 / 100" by (simp add: fill_cash_def dval_simps) (simp add: ex_audit_fill_def)
  moreover have "qf_arm_id ex_audit_fill = Q1_LLM" by (simp add: ex_audit_fill_def)
  ultimately show ?thesis using b by simp
qed

end
