(* ===== verification/Text_Time.thy ===== *)
theory Text_Time
  imports Domain
begin

text \<open>
  Reading back what the sources write as text: decimals, integers, dates and timestamps, as
  Python's \<^verbatim>\<open>Decimal(s)\<close>, \<^verbatim>\<open>int(s)\<close>, \<^verbatim>\<open>date.fromisoformat\<close> and \<^verbatim>\<open>datetime.fromisoformat\<close> read it.
  Shown: the calendar functions are inverse to each other, and each reader inverts its writer.
  Of the ISO forms only the extended ones that \<^verbatim>\<open>isoformat\<close> writes are read; \<^verbatim>\<open>Decimal\<close> does not
  accept the special values NaN and Infinity here.
\<close>

section \<open>The calendar\<close>

definition days_of_civil :: "date \<Rightarrow> int" where
  "days_of_civil d =
     (case d of (y, m, dd) \<Rightarrow>
        let y = (if m \<le> 2 then y - 1 else y);
            era = y div 400; yoe = y mod 400;
            doy = (153 * (if 2 < m then m - 3 else m + 9) + 2) div 5 + dd - 1;
            doe = yoe * 365 + yoe div 4 - yoe div 100 + doy in
        era * 146097 + doe - 719468)"

definition leap_year :: "int \<Rightarrow> bool" where
  "leap_year y \<longleftrightarrow> y mod 4 = 0 \<and> (y mod 100 \<noteq> 0 \<or> y mod 400 = 0)"

definition days_in_month :: "int \<Rightarrow> int \<Rightarrow> int" where
  "days_in_month y m = (if m = 2 then if leap_year y then 29 else 28 else if m \<in> {4, 6, 9, 11} then 30 else 31)"

lemma div_bounds: "0 < d \<Longrightarrow> d * (n div d) \<le> n \<and> n < d * (n div d) + (d :: int)"
  using pos_mod_sign [of d n] pos_mod_bound [of d n] mult_div_mod_eq [of d n] by linarith

text \<open>Within an era of 400 years, counted from 1 March: the year and the day of the year.\<close>

lemma year_of_era:
  fixes doe :: int
  assumes "0 \<le> doe" "doe < 146097"
  defines "yoe \<equiv> (doe - doe div 1460 + doe div 36524 - doe div 146096) div 365"
  defines "doy \<equiv> doe - (365 * yoe + yoe div 4 - yoe div 100)"
  shows "0 \<le> yoe \<and> yoe < 400 \<and> 0 \<le> doy \<and> doy \<le> 365 \<and> (doy = 365 \<longrightarrow> leap_year (yoe + 1))"
proof (cases "doe = 146096")
  case True
  then show ?thesis by (simp add: yoe_def doy_def leap_year_def)
next
  case False
  define k where "k = doe div 36524"
  define r where "r = doe mod 36524"
  define a where "a = (24 * k + r) div 1460"
  define y where "y = (r - a) div 365"
  define u where "u = y div 4"
  have doe: "doe = 36524 * k + r" unfolding k_def r_def by simp
  have r: "0 \<le> r" "r < 36524" by (simp_all add: r_def)
  have k: "0 \<le> k" "k \<le> 3" using doe r assms False by linarith+
  have "doe = (24 * k + r) + (25 * k) * 1460" using doe by simp
  then have ka: "doe div 1460 = 25 * k + a" unfolding a_def by (simp only: div_mult_self1)
  have a: "1460 * a \<le> 24 * k + r" "24 * k + r < 1460 * a + 1460" unfolding a_def using div_bounds [of 1460 "24 * k + r"] by simp_all
  have a0: "0 \<le> a" "a \<le> 25" using a k r by linarith+
  have c: "doe div 146096 = 0" using assms False by simp
  have y: "365 * y \<le> r - a" "r - a < 365 * y + 365" unfolding y_def using div_bounds [of 365 "r - a"] by simp_all
  have y0: "0 \<le> y" using y a a0 r k by linarith
  have y99: "y \<le> 99"
  proof (rule ccontr)
    assume "\<not> y \<le> 99"
    then have "36500 + a \<le> r" using y by linarith
    then show False using a r k a0 by linarith
  qed
  have yoe: "yoe = 100 * k + y"
  proof -
    have "doe - doe div 1460 + doe div 36524 - doe div 146096 = (r - a) + (100 * k) * 365"
      unfolding ka c k_def [symmetric] using doe by simp
    then show ?thesis unfolding yoe_def y_def by (simp only: div_mult_self1)
  qed
  have u: "4 * u \<le> y" "y < 4 * u + 4" unfolding u_def using div_bounds [of 4 y] by simp_all
  have "yoe = y + (25 * k) * 4" by (simp add: yoe)
  then have div4: "yoe div 4 = 25 * k + u" unfolding u_def by (simp only: div_mult_self1)
  have div100: "yoe div 100 = k" unfolding yoe using y0 y99 by simp
  have doy: "doy = r - 365 * y - u" unfolding doy_def div4 div100 unfolding yoe doe by simp
  have "u \<le> a" using a u y a0 k by linarith
  moreover have "a \<le> u + 1" using a u y a0 k by linarith
  moreover have "leap_year (yoe + 1)" if "r - 365 * y - u = 365"
  proof -
    have "a = u + 1" using that y calculation by linarith
    moreover have "u \<le> 24" using u y99 by linarith
    ultimately have "y = 4 * u + 3" using a u k that by linarith
    then have n: "yoe + 1 = 100 * k + 4 * (u + 1)" by (simp add: yoe)
    have u24: "0 \<le> u" "u \<le> 24" using u y0 y99 by linarith+
    have "(yoe + 1) mod 4 = 0" unfolding n by presburger
    moreover have "(yoe + 1) mod 100 \<noteq> 0 \<or> (yoe + 1) mod 400 = 0"
    proof (cases "u = 24")
      case True
      then have "k = 3" using that \<open>y = 4 * u + 3\<close> r k by linarith
      then show ?thesis using True by (simp add: n)
    next
      case False
      have "(yoe + 1) mod 100 = (4 * (u + 1)) mod 100" unfolding n by simp
      also have "\<dots> = 4 * (u + 1)" using u24 False by (intro mod_pos_pos_trivial) auto
      finally show ?thesis using u24 by simp
    qed
    ultimately show ?thesis by (simp add: leap_year_def)
  qed
  ultimately show ?thesis using y y0 y99 k a0 unfolding doy by (simp add: yoe)
qed


definition valid_date :: "date \<Rightarrow> bool" where
  "valid_date d \<longleftrightarrow> (case d of (y, m, dd) \<Rightarrow>
     1 \<le> y \<and> y \<le> 9999 \<and> 1 \<le> m \<and> m \<le> 12 \<and> 1 \<le> dd \<and> dd \<le> days_in_month y m)"

lemma month_of_year:
  fixes doy :: int
  assumes "0 \<le> doy" "doy \<le> 365"
  defines "mp \<equiv> (5 * doy + 2) div 153"
  defines "dd \<equiv> doy - (153 * mp + 2) div 5 + 1"
  defines "m \<equiv> (if mp < 10 then mp + 3 else mp - 9)"
  shows "0 \<le> mp \<and> mp \<le> 11 \<and> 1 \<le> dd \<and> 1 \<le> m \<and> m \<le> 12 \<and> (m = 2 \<longrightarrow> dd \<le> 29 \<and> (dd = 29 \<longrightarrow> doy = 365))
    \<and> (m \<noteq> 2 \<longrightarrow> dd \<le> (if m \<in> {4, 6, 9, 11} then 30 else 31))"
proof -
  have mp: "153 * mp \<le> 5 * doy + 2" "5 * doy + 2 < 153 * mp + 153"
    unfolding mp_def using div_bounds [of 153 "5 * doy + 2"] by simp_all
  then have "mp \<in> {0..11}" using assms(1,2) by simp
  then have "mp \<in> {0, 1, 2, 3, 4, 5, 6, 7, 8, 9, 10, 11}" by simp arith
  then show ?thesis using mp assms(1,2) unfolding dd_def m_def
    by (elim insertE emptyE) simp_all
qed

lemma leap_year_era: "leap_year (y + era * 400) = leap_year y"
proof -
  have "(y + era * 400) mod 4 = y mod 4" "(y + era * 400) mod 100 = y mod 100" "(y + era * 400) mod 400 = y mod 400"
    using mod_mult_self1 [of y "era * 100" 4] mod_mult_self1 [of y "era * 4" 100] by (simp_all add: mult.assoc)
  then show ?thesis by (simp add: leap_year_def)
qed

lemma civil_of_days:
  assumes "civil_of_days z = (y, m, dd)"
  shows "days_of_civil (y, m, dd) = z" "1 \<le> m \<and> m \<le> 12 \<and> 1 \<le> dd \<and> dd \<le> days_in_month y m"
proof -
  define era doe where "era = (z + 719468) div 146097" and "doe = (z + 719468) mod 146097"
  define yoe where "yoe = (doe - doe div 1460 + doe div 36524 - doe div 146096) div 365"
  define doy where "doy = doe - (365 * yoe + yoe div 4 - yoe div 100)"
  define mp where "mp = (5 * doy + 2) div 153"
  have "0 \<le> doe" "doe < 146097" by (simp_all add: doe_def)
  note Y = year_of_era [OF this, folded yoe_def, folded doy_def]
  have m: "m = (if mp < 10 then mp + 3 else mp - 9)" and dd: "dd = doy - (153 * mp + 2) div 5 + 1"
    and y: "y = yoe + era * 400 + (if m \<le> 2 then 1 else 0)"
    using assms unfolding civil_of_days_def Let_def era_def [symmetric] doe_def [symmetric]
    unfolding yoe_def [symmetric] doy_def [symmetric] unfolding mp_def [symmetric] by auto
  note M = month_of_year [of doy, folded mp_def, folded dd m]
  have M': "0 \<le> mp" "mp \<le> 11" "1 \<le> dd" "1 \<le> m" "m \<le> 12" "m = 2 \<Longrightarrow> dd \<le> 29 \<and> (dd = 29 \<longrightarrow> doy = 365)"
    "m \<noteq> 2 \<Longrightarrow> dd \<le> (if m \<in> {4, 6, 9, 11} then 30 else 31)" using M Y by blast+
  have y': "(if m \<le> 2 then y - 1 else y) = yoe + era * 400" using y by simp
  have era: "(yoe + era * 400) div 400 = era" "(yoe + era * 400) mod 400 = yoe" using Y by simp_all
  have mp: "(if 2 < m then m - 3 else m + 9) = mp" using m M' by (simp split: if_splits)
  have z: "z = era * 146097 + doe - 719468" unfolding era_def doe_def by simp
  show "days_of_civil (y, m, dd) = z"
    unfolding days_of_civil_def prod.case Let_def y' era mp unfolding z dd doy_def by simp
  have "leap_year y" if "m = 2" "dd = 29"
  proof -
    have "leap_year (yoe + 1)" using M'(6) that Y by blast
    moreover have "y = (yoe + 1) + era * 400" using y that by simp
    ultimately show ?thesis using leap_year_era by simp
  qed
  then show "1 \<le> m \<and> m \<le> 12 \<and> 1 \<le> dd \<and> dd \<le> days_in_month y m"
    using M'(3-7) unfolding days_in_month_def by (cases "m = 2"; cases "dd = 29") auto
qed

section \<open>Readers\<close>

definition is_space :: "char \<Rightarrow> bool" where
  "is_space c \<longleftrightarrow> (let n = (of_char c :: nat) in (9 \<le> n \<and> n \<le> 13) \<or> (28 \<le> n \<and> n \<le> 32) \<or> n = 133 \<or> n = 160)"

definition strip :: "string \<Rightarrow> string" where
  "strip s = rev (dropWhile is_space (rev (dropWhile is_space s)))"

definition digits_value :: "string \<Rightarrow> nat" where
  "digits_value s = foldl (\<lambda>n c. 10 * n + (of_char c - 48)) 0 s"

definition all_digits :: "string \<Rightarrow> bool" where
  "all_digits s \<longleftrightarrow> list_all is_digit s"

text \<open>An optional sign: whether it is negative, and the rest.\<close>

definition read_sign :: "string \<Rightarrow> bool \<times> string" where
  "read_sign s =
     (case s of
        [] \<Rightarrow> (False, s)
      | c # cs \<Rightarrow> if c = CHR ''-'' then (True, cs) else if c = CHR ''+'' then (False, cs) else (False, s))"

definition read_exponent :: "string \<Rightarrow> int option" where
  "read_exponent s =
     (case s of
        [] \<Rightarrow> Some 0
      | _ # cs \<Rightarrow>
          (case read_sign cs of (neg, ds) \<Rightarrow>
             if ds = [] \<or> \<not> all_digits ds then None
             else Some (if neg then - int (digits_value ds) else int (digits_value ds))))"

text \<open>\<^verbatim>\<open>Decimal(s)\<close>.\<close>

definition read_decimal :: "string \<Rightarrow> decimal result" where
  "read_decimal s =
     (case read_sign (filter (\<lambda>c. c \<noteq> CHR ''_'') (strip s)) of (neg, body) \<Rightarrow>
        let no_e = (\<lambda>c. c \<noteq> CHR ''e'' \<and> c \<noteq> CHR ''E'');
            mantissa = takeWhile no_e body;
            ip = takeWhile (\<lambda>c. c \<noteq> CHR ''.'') mantissa;
            fp = drop 1 (dropWhile (\<lambda>c. c \<noteq> CHR ''.'') mantissa) in
        case read_exponent (dropWhile no_e body) of
          None \<Rightarrow> Inl InvalidOperation
        | Some ex \<Rightarrow>
            if ip @ fp = [] \<or> \<not> all_digits (ip @ fp) then Inl InvalidOperation
            else Inr (Dec neg (digits_value (ip @ fp)) (ex - int (length fp))))"

text \<open>\<^verbatim>\<open>int(s)\<close>: single underscores may stand between digits.\<close>

fun underscored :: "string \<Rightarrow> bool" where
  "underscored [] = False"
| "underscored [c] = is_digit c"
| "underscored (c # d # cs) \<longleftrightarrow> is_digit c \<and> (if d = CHR ''_'' then underscored cs else underscored (d # cs))"

definition read_int :: "string \<Rightarrow> int result" where
  "read_int s =
     (case read_sign (strip s) of (neg, body) \<Rightarrow>
        if \<not> underscored body then Inl (ValueError ''invalid literal for int() with base 10'')
        else let n = int (digits_value (filter (\<lambda>c. c \<noteq> CHR ''_'') body)) in Inr (if neg then - n else n))"

text \<open>A number of exactly \<open>w\<close> digits, and the rest.\<close>

definition read_fixed :: "nat \<Rightarrow> string \<Rightarrow> (nat \<times> string) option" where
  "read_fixed w s =
     (if w \<le> length s \<and> all_digits (take w s) then Some (digits_value (take w s), drop w s) else None)"

definition read_char :: "char \<Rightarrow> string \<Rightarrow> string option" where
  "read_char c s = (case s of [] \<Rightarrow> None | x # xs \<Rightarrow> if x = c then Some xs else None)"

definition read_date_prefix :: "string \<Rightarrow> (date \<times> string) option" where
  "read_date_prefix s =
     Option.bind (read_fixed 4 s) (\<lambda>(y, s). Option.bind (read_char (CHR ''-'') s) (\<lambda>s.
     Option.bind (read_fixed 2 s) (\<lambda>(m, s). Option.bind (read_char (CHR ''-'') s) (\<lambda>s.
     Option.bind (read_fixed 2 s) (\<lambda>(d, s).
       if valid_date (int y, int m, int d) then Some ((int y, int m, int d), s) else None)))))"

text \<open>\<^verbatim>\<open>date.fromisoformat\<close>.\<close>

definition read_date :: "string \<Rightarrow> date result" where
  "read_date s =
     (case read_date_prefix s of
        Some (d, []) \<Rightarrow> Inr d | _ \<Rightarrow> Inl (ValueError ''Invalid isoformat string''))"

text \<open>The time of day in microseconds; the fraction may be left out.\<close>

definition read_clock :: "string \<Rightarrow> (int \<times> string) option" where
  "read_clock s =
     Option.bind (read_fixed 2 s) (\<lambda>(h, s). Option.bind (read_char (CHR '':'') s) (\<lambda>s.
     Option.bind (read_fixed 2 s) (\<lambda>(mi, s). Option.bind (read_char (CHR '':'') s) (\<lambda>s.
     Option.bind (read_fixed 2 s) (\<lambda>(sec, s).
       if 24 \<le> h \<or> 60 \<le> mi \<or> 60 \<le> sec then None
       else
         let whole = (int h * 3600 + int mi * 60 + int sec) * 1000000 in
         case read_char (CHR ''.'') s of
           None \<Rightarrow> Some (whole, s)
         | Some s \<Rightarrow> map_option (\<lambda>(us, s). (whole + int us, s)) (read_fixed 6 s))))))"

text \<open>The offset in microseconds; a timestamp without one is naive.\<close>

definition read_offset :: "string \<Rightarrow> int option option" where
  "read_offset s =
     (case s of
        [] \<Rightarrow> Some None
      | c # s \<Rightarrow>
          if c \<noteq> CHR ''+'' \<and> c \<noteq> CHR ''-'' then None
          else
            Option.bind (read_fixed 2 s) (\<lambda>(h, s). Option.bind (read_char (CHR '':'') s) (\<lambda>s.
            Option.bind (read_fixed 2 s) (\<lambda>(mi, s).
              if s \<noteq> [] \<or> 24 \<le> h \<or> 60 \<le> mi then None
              else let o' = (int h * 60 + int mi) * 60000000 in Some (Some (if c = CHR ''-'' then - o' else o'))))))"

text \<open>\<^verbatim>\<open>datetime.fromisoformat\<close>.\<close>

definition read_datetime :: "string \<Rightarrow> datetime result" where
  "read_datetime s =
     (let bad = Inl (ValueError ''Invalid isoformat string'') in
      case read_date_prefix s of
        Some (d, _ # s) \<Rightarrow>
          (case read_clock s of
             None \<Rightarrow> bad
           | Some (us, s) \<Rightarrow>
               let t = days_of_civil d * 86400000000 + us in
               (case read_offset s of
                  None \<Rightarrow> bad
                | Some None \<Rightarrow> Inr (Naive t)
                | Some (Some off) \<Rightarrow> Inr (Aware (t - off))))
      | _ \<Rightarrow> bad)"

text \<open>\<^verbatim>\<open>isoformat()\<close> of a UTC timestamp, which leaves out a zero fraction.\<close>

definition utc_isoformat :: "instant \<Rightarrow> string" where
  "utc_isoformat t =
     (let us = t mod 86400000000; s = us div 1000000 in
      date_iso (civil_of_days (t div 86400000000)) @ ''T''
      @ zpad 2 (nat (s div 3600)) @ '':'' @ zpad 2 (nat (s div 60 mod 60)) @ '':'' @ zpad 2 (nat (s mod 60))
      @ (if us mod 1000000 = 0 then '''' else ''.'' @ zpad 6 (nat (us mod 1000000))) @ ''+00:00'')"

section \<open>Readers invert writers\<close>

definition mantissa_char :: "char \<Rightarrow> bool" where
  "mantissa_char c \<longleftrightarrow> is_digit c \<or> c = CHR ''.''"

lemma digit_char_facts [simp]:
  assumes "d < 10"
  shows "is_digit (digit_char d)" "of_char (digit_char d) = 48 + d"
  using assms by (simp_all add: digit_char_def is_digit_def)

lemma is_digit_other:
  assumes "is_digit c"
  shows "\<not> is_space c" "c \<noteq> CHR ''_''" "c \<noteq> CHR ''.''" "c \<noteq> CHR ''e''" "c \<noteq> CHR ''E''" "c \<noteq> CHR ''-''" "c \<noteq> CHR ''+''"
  using assms by (auto simp: is_digit_def is_space_def Let_def)

lemma all_digits_append [simp]: "all_digits (s @ t) \<longleftrightarrow> all_digits s \<and> all_digits t"
  by (simp add: all_digits_def)

lemma all_digits_simps [simp]: "all_digits []" "all_digits (c # s) \<longleftrightarrow> is_digit c \<and> all_digits s"
  "all_digits (replicate n (CHR ''0''))"
  by (auto simp: all_digits_def list_all_iff is_digit_def)

lemma all_digits_take [simp]: "all_digits s \<Longrightarrow> all_digits (take n s)" "all_digits s \<Longrightarrow> all_digits (drop n s)"
  by (auto simp: all_digits_def list_all_iff dest: in_set_takeD in_set_dropD)

lemma nat_str_all_digits [simp]: "all_digits (nat_str n)"
proof (induction n rule: nat_str.induct)
  case (1 n)
  then show ?case by (subst nat_str.simps) simp
qed

lemma nat_str_nonempty [simp]: "nat_str n \<noteq> []"
  by (subst nat_str.simps) simp

lemma digits_value_append: "digits_value (s @ t) = digits_value s * 10 ^ length t + digits_value t"
proof (induction t rule: rev_induct)
  case (snoc c t)
  have "digits_value (u @ [c]) = 10 * digits_value u + (of_char c - 48)" for u by (simp add: digits_value_def)
  then show ?case using snoc by (simp flip: append_assoc add: algebra_simps)
qed (simp add: digits_value_def)

lemma digits_value_nat_str [simp]: "digits_value (nat_str n) = n"
proof (induction n rule: nat_str.induct)
  case (1 n)
  have one: "d < 10 \<Longrightarrow> digits_value [digit_char d] = d" for d by (simp add: digits_value_def)
  show ?case
  proof (cases "n < 10")
    case True
    then show ?thesis by (subst nat_str.simps) (simp add: one)
  next
    case False
    then show ?thesis using 1 by (subst nat_str.simps) (simp add: digits_value_append one)
  qed
qed

lemma digits_value_zeros: "digits_value (replicate k (CHR ''0'')) = 0"
  by (induction k) (simp_all add: digits_value_def)

lemma digits_value_simps [simp]:
  "digits_value (replicate k (CHR ''0'') @ s) = digits_value s" "digits_value (CHR ''0'' # s) = digits_value s"
  "digits_value (s @ replicate k (CHR ''0'')) = digits_value s * 10 ^ k"
  using digits_value_append [of "[CHR ''0'']" s]
  by (simp_all add: digits_value_append digits_value_zeros) (simp add: digits_value_def)

text \<open>The decimal that is read back: the same number, without a positive exponent.\<close>

definition plain :: "decimal \<Rightarrow> decimal" where
  "plain d = (if 0 < dexp d then Dec (dneg d) (dcoef d * 10 ^ nat (dexp d)) 0 else d)"

lemma strip_id: "list_all (\<lambda>c. \<not> is_space c) s \<Longrightarrow> strip s = s"
proof -
  have drop: "list_all (\<lambda>c. \<not> is_space c) s \<Longrightarrow> dropWhile is_space s = s" for s by (cases s) simp_all
  assume "list_all (\<lambda>c. \<not> is_space c) s"
  then show "strip s = s" by (simp add: strip_def drop)
qed

lemma all_digits_filter: "all_digits s \<Longrightarrow> filter (\<lambda>c. c \<noteq> CHR ''_'') s = s"
  by (induction s) (auto dest: is_digit_other)

lemma all_digits_while:
  "all_digits s \<Longrightarrow> takeWhile (\<lambda>c. c \<noteq> CHR ''.'') (s @ CHR ''.'' # t) = s"
  "all_digits s \<Longrightarrow> dropWhile (\<lambda>c. c \<noteq> CHR ''.'') (s @ CHR ''.'' # t) = CHR ''.'' # t"
  "all_digits s \<Longrightarrow> takeWhile (\<lambda>c. c \<noteq> CHR ''.'') s = s"
  "all_digits s \<Longrightarrow> dropWhile (\<lambda>c. c \<noteq> CHR ''.'') s = []"
  by (induction s) (auto dest: is_digit_other)

lemma all_digits_no_space: "all_digits s \<Longrightarrow> list_all (\<lambda>c. \<not> is_space c) s"
  by (induction s) (auto dest: is_digit_other)

lemma no_exponent:
  assumes "\<And>c. c \<in> set s \<Longrightarrow> c \<noteq> CHR ''e'' \<and> c \<noteq> CHR ''E''"
  shows "takeWhile (\<lambda>c. c \<noteq> CHR ''e'' \<and> c \<noteq> CHR ''E'') s = s" "dropWhile (\<lambda>c. c \<noteq> CHR ''e'' \<and> c \<noteq> CHR ''E'') s = []"
  using assms by (induction s) auto

lemma read_decimal_text:
  assumes "all_digits ip" "ip \<noteq> []" "all_digits fp"
  shows "read_decimal ((if neg then ''-'' else '''') @ ip @ (if fp = [] then [] else CHR ''.'' # fp))
    = Inr (Dec neg (digits_value (ip @ fp)) (- int (length fp)))"
proof -
  let ?body = "ip @ (if fp = [] then [] else CHR ''.'' # fp)" and ?sign = "if neg then ''-'' else ''''"
  have "list_all (\<lambda>c. \<not> is_space c) (?sign @ ?body)"
    using all_digits_no_space [OF assms(1)] all_digits_no_space [OF assms(3)] by (simp add: is_space_def)
  then have strip: "strip (?sign @ ?body) = ?sign @ ?body" by (rule strip_id)
  have filt: "filter (\<lambda>c. c \<noteq> CHR ''_'') (?sign @ ?body) = ?sign @ ?body"
    using all_digits_filter [OF assms(1)] all_digits_filter [OF assms(3)] by simp
  obtain c cs where ip: "ip = c # cs" using assms(2) by (cases ip) auto
  have sign: "read_sign (?sign @ ?body) = (neg, ?body)"
    using assms(1) is_digit_other(6,7) [of c] by (auto simp: read_sign_def ip)
  have ne: "c \<noteq> CHR ''e'' \<and> c \<noteq> CHR ''E''" if "c \<in> set ?body" for c
    using that assms(1,3) is_digit_other(4,5) [of c] by (auto simp: all_digits_def list_all_iff split: if_splits)
  have nexp: "takeWhile (\<lambda>c. c \<noteq> CHR ''e'' \<and> c \<noteq> CHR ''E'') ?body = ?body"
    "dropWhile (\<lambda>c. c \<noteq> CHR ''e'' \<and> c \<noteq> CHR ''E'') ?body = []"
    using no_exponent [of ?body] ne by simp_all
  have ip': "takeWhile (\<lambda>c. c \<noteq> CHR ''.'') ?body = ip"
    "drop 1 (dropWhile (\<lambda>c. c \<noteq> CHR ''.'') ?body) = fp"
    using all_digits_while [OF assms(1)] by simp_all
  define body where "body = ?body"
  have "read_decimal (?sign @ body) = Inr (Dec neg (digits_value (ip @ fp)) (- int (length fp)))"
    unfolding read_decimal_def strip [folded body_def] filt [folded body_def] sign [folded body_def] Let_def prod.case
      nexp [folded body_def] ip' [folded body_def]
    using assms by (simp add: read_exponent_def)
  then show ?thesis by (simp only: body_def)
qed

lemma read_decimal_format [simp]: "read_decimal (format_f d) = Inr (plain d)"
proof -
  define d' where "d' = (if dcoef d = 0 \<and> 0 < dexp d then Dec (dneg d) 0 0 else d)"
  have p: "plain d = plain d'" "dneg d' = dneg d" "\<not> (dcoef d' = 0 \<and> 0 < dexp d')" by (auto simp: d'_def plain_def)
  define s where "s = nat_str (dcoef d')"
  define dot where "dot = dexp d' + int (length s)"
  have s: "all_digits s" "s \<noteq> []" "digits_value s = dcoef d'" by (simp_all add: s_def)
  have format: "format_f d = (let sign = (if dneg d' then ''-'' else '''') in
      if dot < 0 then sign @ ''0.'' @ replicate (nat (- dot)) (CHR ''0'') @ s
      else if int (length s) < dot then sign @ s @ replicate (nat dot - length s) (CHR ''0'')
      else sign @ (if dot = 0 then ''0'' else take (nat dot) s) @ (if drop (nat dot) s = '''' then '''' else ''.'' @ drop (nat dot) s))"
    unfolding format_f_def d'_def [symmetric] Let_def s_def dot_def by simp
  consider "dot < 0" | "0 \<le> dot" "int (length s) < dot" | "0 \<le> dot" "dot \<le> int (length s)" by linarith
  then show ?thesis
  proof cases
    case 1
    let ?fp = "replicate (nat (- dot)) (CHR ''0'') @ s"
    have "format_f d = (if dneg d' then ''-'' else '''') @ ''0'' @ (if ?fp = [] then [] else CHR ''.'' # ?fp)"
      unfolding format using 1 s(2) by simp
    moreover have "int (length ?fp) = - dexp d'" using 1 by (simp add: dot_def)
    moreover have "plain d' = Dec (dneg d') (dcoef d') (dexp d')" using 1 by (simp add: plain_def dot_def)
    ultimately show ?thesis using read_decimal_text [of "''0''" ?fp "dneg d'"] s p(1) by (simp add: is_digit_def)
  next
    case 2
    let ?ip = "s @ replicate (nat dot - length s) (CHR ''0'')"
    have "format_f d = (if dneg d' then ''-'' else '''') @ ?ip @ (if [] = [] then [] else CHR ''.'' # [])"
      unfolding format using 2 by simp
    moreover have "nat dot - length s = nat (dexp d')" "0 < dexp d'" using 2 by (simp_all add: dot_def)
    ultimately show ?thesis using read_decimal_text [of ?ip "[]" "dneg d'"] s p(1) by (simp add: plain_def)
  next
    case 3
    let ?ip = "if dot = 0 then ''0'' else take (nat dot) s" and ?fp = "drop (nat dot) s"
    have "format_f d = (if dneg d' then ''-'' else '''') @ ?ip @ (if ?fp = [] then [] else CHR ''.'' # ?fp)"
      unfolding format using 3 by simp
    moreover have "digits_value (?ip @ ?fp) = dcoef d'" using s(3) by simp
    moreover have "int (length ?fp) = - dexp d'" "\<not> 0 < dexp d'" using 3 by (simp_all add: dot_def)
    moreover have "all_digits ?ip" "?ip \<noteq> []" using 3 s by (simp_all add: is_digit_def)
    ultimately show ?thesis using read_decimal_text [of ?ip ?fp "dneg d'"] s p(1)
      by (cases d') (simp add: plain_def)
  qed
qed

lemma nat_str_length: "0 < w \<Longrightarrow> n < 10 ^ w \<Longrightarrow> length (nat_str n) \<le> w"
proof (induction n arbitrary: w rule: nat_str.induct)
  case (1 n)
  show ?case
  proof (cases "n < 10")
    case True
    then show ?thesis using 1(2) by (subst nat_str.simps) simp
  next
    case False
    obtain v where v: "w = Suc v" using 1(2) by (cases w) auto
    have "0 < v" using False 1(3) v by (cases v) auto
    moreover have "n div 10 < 10 ^ v" using 1(3) v by (simp add: less_mult_imp_div_less mult.commute)
    ultimately have "length (nat_str (n div 10)) \<le> v" using 1(1) False by simp
    then show ?thesis using False v by (subst nat_str.simps) simp
  qed
qed

lemma zpad_facts:
  assumes "0 < w" "n < 10 ^ w"
  shows "length (zpad w n) = w" "all_digits (zpad w n)" "digits_value (zpad w n) = n"
  using nat_str_length [OF assms] by (simp_all add: zpad_def Let_def)

lemma read_fixed_zpad: "0 < w \<Longrightarrow> n < 10 ^ w \<Longrightarrow> read_fixed w (zpad w n @ s) = Some (n, s)"
  by (simp add: read_fixed_def zpad_facts)

lemma read_char_Cons: "read_char c (d # s) = (if d = c then Some s else None)"
  by (simp add: read_char_def)

lemma read_date_prefix_iso:
  assumes "valid_date d"
  shows "read_date_prefix (date_iso d @ s) = Some (d, s)"
proof -
  obtain y m dd where d: "d = (y, m, dd)" by (cases d)
  have b: "1 \<le> y" "y \<le> 9999" "1 \<le> m" "m \<le> 12" "1 \<le> dd" "dd \<le> 31"
    using assms by (auto simp: d valid_date_def days_in_month_def split: if_splits)
  then show ?thesis using assms
    by (simp add: d date_iso_def read_date_prefix_def read_fixed_zpad read_char_Cons)
qed

lemma read_date_iso: "valid_date d \<Longrightarrow> read_date (date_iso d) = Inr d"
  using read_date_prefix_iso [of d "[]"] by (simp add: read_date_def)

text \<open>The timestamps of the years 1 to 9999.\<close>

definition in_calendar :: "instant \<Rightarrow> bool" where
  "in_calendar t \<longleftrightarrow> (case civil_of_days (t div 86400000000) of (y, _, _) \<Rightarrow> 1 \<le> y \<and> y \<le> 9999)"

lemma clock_split: "(x div 3600) * 3600 + (x div 60 mod 60) * 60 + x mod 60 = (x :: int)"
proof -
  have "x div 3600 = x div 60 div 60" by (simp add: zdiv_zmult2_eq [symmetric])
  moreover have "x div 60 = x div 60 div 60 * 60 + x div 60 mod 60" "x = x div 60 * 60 + x mod 60"
    by (simp_all only: div_mult_mod_eq)
  ultimately show ?thesis by linarith
qed

lemma read_clock_text:
  assumes "h < 24" "mi < 60" "sec < 60"
  shows "read_clock (zpad 2 h @ CHR '':'' # zpad 2 mi @ CHR '':'' # zpad 2 sec @ s) =
    (let whole = (int h * 3600 + int mi * 60 + int sec) * 1000000 in
     case read_char (CHR ''.'') s of
       None \<Rightarrow> Some (whole, s)
     | Some s \<Rightarrow> map_option (\<lambda>(us, s). (whole + int us, s)) (read_fixed 6 s))"
proof -
  have m: "h < 10 ^ 2" "mi < 10 ^ 2" "sec < 10 ^ 2" using assms by simp_all
  show ?thesis
    using assms read_fixed_zpad [of 2 h, OF _ m(1)] read_fixed_zpad [of 2 mi, OF _ m(2)] read_fixed_zpad [of 2 sec, OF _ m(3)]
    by (simp add: read_clock_def read_char_Cons)
qed

lemma read_clock_iso:
  assumes "0 \<le> us" "us < 86400000000" "\<And>r. s \<noteq> CHR ''.'' # r"
  defines "x \<equiv> us div 1000000"
  shows "read_clock (zpad 2 (nat (x div 3600)) @ '':'' @ zpad 2 (nat (x div 60 mod 60)) @ '':'' @ zpad 2 (nat (x mod 60))
      @ (if us mod 1000000 = 0 then '''' else ''.'' @ zpad 6 (nat (us mod 1000000))) @ s) = Some (us, s)"
proof -
  have x: "0 \<le> x" "x < 86400" using div_bounds [of 1000000 us] assms(1,2) unfolding x_def by linarith+
  then have h: "0 \<le> x div 3600" "x div 3600 < 24" using div_bounds [of 3600 x] by linarith+
  have whole: "(int (nat (x div 3600)) * 3600 + int (nat (x div 60 mod 60)) * 60 + int (nat (x mod 60))) * 1000000 = x * 1000000"
    using clock_split [of x] h by simp
  have frac: "x * 1000000 + us mod 1000000 = us" by (simp add: x_def)
  have dot: "read_char (CHR ''.'') s = None" using assms(3) by (auto simp: read_char_def split: list.splits)
  have n: "nat (x div 3600) < 24" "nat (x div 60 mod 60) < 60" "nat (x mod 60) < 60" "nat (us mod 1000000) < 10 ^ 6"
    using h by (simp_all add: nat_less_iff)
  have six: "read_fixed 6 (zpad 6 (nat (us mod 1000000)) @ s) = Some (nat (us mod 1000000), s)"
    by (rule read_fixed_zpad [OF _ n(4)]) simp
  note clock = read_clock_text [OF n(1-3), unfolded Let_def whole]
  show ?thesis
  proof (cases "us mod 1000000 = 0")
    case True
    then have "x * 1000000 = us" using frac by simp
    then show ?thesis using True by (simp add: clock dot)
  next
    case False
    then show ?thesis using frac by (simp add: clock read_char_Cons six)
  qed
qed

lemma read_datetime_iso:
  assumes "in_calendar t"
  shows "read_datetime (utc_isoformat t) = Inr (Aware t)"
proof -
  let ?us = "t mod 86400000000"
  obtain y m dd where d: "civil_of_days (t div 86400000000) = (y, m, dd)" by (cases "civil_of_days (t div 86400000000)")
  note c = civil_of_days [OF d]
  have "valid_date (y, m, dd)" using c(2) assms by (auto simp: valid_date_def in_calendar_def d)
  note date = read_date_prefix_iso [OF this]
  have "read_clock (zpad 2 (nat (?us div 1000000 div 3600)) @ '':'' @ zpad 2 (nat (?us div 1000000 div 60 mod 60)) @ '':''
      @ zpad 2 (nat (?us div 1000000 mod 60)) @ (if ?us mod 1000000 = 0 then '''' else ''.'' @ zpad 6 (nat (?us mod 1000000)))
      @ ''+00:00'') = Some (?us, ''+00:00'')"
    by (rule read_clock_iso) simp_all
  moreover have "read_offset ''+00:00'' = Some (Some 0)" by code_simp
  ultimately show ?thesis
    unfolding utc_isoformat_def read_datetime_def Let_def d by (simp add: date c(1))
qed

lemma read_int_str: "read_int (int_str k) = Inr k"
proof -
  have und: "all_digits s \<Longrightarrow> s \<noteq> [] \<Longrightarrow> underscored s" for s
    by (induction s rule: underscored.induct) (auto dest: is_digit_other)
  have read: "read_sign (nat_str n) = (False, nat_str n)" for n
  proof (cases "nat_str n")
    case (Cons c cs)
    then have "is_digit c" using nat_str_all_digits [of n] by simp
    then show ?thesis using is_digit_other(6,7) by (simp add: Cons read_sign_def)
  qed simp
  have strip: "strip (nat_str n) = nat_str n" "strip (CHR ''-'' # nat_str n) = CHR ''-'' # nat_str n" for n
    using all_digits_no_space [OF nat_str_all_digits [of n]] by (auto intro!: strip_id simp: is_space_def)
  have neg: "read_sign (CHR ''-'' # s) = (True, s)" for s by (simp add: read_sign_def)
  show ?thesis
    by (simp add: int_str_def read_int_def strip read neg und all_digits_filter)
qed

end
