(* ===== verification/Arm_Payload.thy ===== *)
theory Arm_Payload
  imports Arm_State Scheduler Text_Time
begin

text \<open>
  Storing an arm state: \<^verbatim>\<open>as_payload\<close> and \<^verbatim>\<open>from_payload\<close> of \<^verbatim>\<open>UnsettledReceivable\<close> and \<^verbatim>\<open>Q1ArmState\<close>
  (\<^verbatim>\<open>src/trading/runtime/q1_state.py\<close>), on JSON data. Shown: reading what was written returns the
  state, with its positions and receivables in sorted order and no decimal changed in value.
\<close>

section \<open>Text of JSON values\<close>

text \<open>\<^verbatim>\<open>repr\<close> of a text.\<close>

definition repr_char :: "char \<Rightarrow> char \<Rightarrow> string" where
  "repr_char quote c =
     (let n = (of_char c :: nat) in
      if c = quote \<or> n = 92 then [char_of (92 :: nat), c]
      else if n = 9 then [char_of (92 :: nat), CHR ''t'']
      else if n = 10 then [char_of (92 :: nat), CHR ''n'']
      else if n = 13 then [char_of (92 :: nat), CHR ''r'']
      else if n < 32 \<or> (127 \<le> n \<and> n \<le> 160) \<or> n = 173
      then [char_of (92 :: nat), CHR ''x'', hex_digit (n div 16), hex_digit (n mod 16)]
      else [c])"

definition repr_string :: "string \<Rightarrow> string" where
  "repr_string s =
     (let single = char_of (39 :: nat); double = char_of (34 :: nat);
          quote = (if single \<in> set s \<and> double \<notin> set s then double else single) in
      [quote] @ concat (map (repr_char quote) s) @ [quote])"

fun py_repr :: "cval \<Rightarrow> string" where
  "py_repr CNull = ''None''"
| "py_repr (CBool b) = (if b then ''True'' else ''False'')"
| "py_repr (CInt i) = int_str i"
| "py_repr (CStr s) = repr_string s"
| "py_repr (CList xs) = ''['' @ join '', '' (map py_repr xs) @ '']''"
| "py_repr (CDict kvs) = ''{'' @ join '', '' (map (\<lambda>(k, v). repr_string k @ '': '' @ py_repr v) kvs) @ ''}''"

text \<open>\<^verbatim>\<open>str(v)\<close>.\<close>

definition py_str :: "cval \<Rightarrow> string" where
  "py_str v = (case v of CStr s \<Rightarrow> s | _ \<Rightarrow> py_repr v)"

section \<open>Writing\<close>

type_synonym payload = "(string, cval) dict"

definition receivable_payload :: "unsettled_receivable \<Rightarrow> payload" where
  "receivable_payload r =
     [(''receivable_id'', CStr (ur_receivable_id r)), (''source_fill_id'', CStr (ur_source_fill_id r)),
      (''amount_usd'', CStr (format_f (ur_amount_usd r))),
      (''settlement_date'', CStr (date_iso (ur_settlement_date r))),
      (''created_at'', CStr (utc_isoformat (aware (ur_created_at r))))]"

definition as_payload :: "q1_arm_state \<Rightarrow> payload" where
  "as_payload s =
     [(''schema_version'', CStr ''q1_arm_state_v1''), (''algorithm_version'', CStr (as_algorithm_version s)),
      (''arm_id'', CStr (as_arm_id s)), (''initial_nav_usd'', CStr (format_f (as_initial_nav_usd s))),
      (''settled_cash_usd'', CStr (format_f (as_settled_cash_usd s))),
      (''unsettled_cash_usd'', CStr (format_f (unsettled_cash_usd s))),
      (''unsettled_receivables'',
         CList (map (\<lambda>r. CDict (receivable_payload r)) (sort_key ur_receivable_id (as_unsettled_receivables s)))),
      (''positions'', CDict (map (\<lambda>(symbol, q). (symbol, CStr (format_f q))) (sorted_items (as_positions s)))),
      (''sequence'', CInt (as_sequence s)),
      (''evaluation_anchor_id'', (case as_evaluation_anchor_id s of None \<Rightarrow> CNull | Some a \<Rightarrow> CStr a))]"

section \<open>Reading\<close>

definition receivable_from_payload :: "payload \<Rightarrow> unsettled_receivable result" where
  "receivable_from_payload p =
     rbind (dict_lookup p ''receivable_id'') (\<lambda>rid.
     rbind (dict_lookup p ''source_fill_id'') (\<lambda>fid.
     rbind (dict_lookup p ''amount_usd'') (\<lambda>a. rbind (read_decimal (py_str a)) (\<lambda>amount.
     rbind (dict_lookup p ''settlement_date'') (\<lambda>d. rbind (read_date (py_str d)) (\<lambda>settlement_date.
     rbind (dict_lookup p ''created_at'') (\<lambda>c. rbind (read_datetime (py_str c)) (\<lambda>created_at.
       validate_unsettled_receivable
         \<lparr>ur_receivable_id = py_str rid, ur_source_fill_id = py_str fid, ur_amount_usd = amount,
          ur_settlement_date = settlement_date, ur_created_at = created_at\<rparr>))))))))"

definition dict_items :: "cval list \<Rightarrow> payload list" where
  "dict_items xs = List.map_filter (\<lambda>x. case x of CDict p \<Rightarrow> Some p | _ \<Rightarrow> None) xs"

definition from_payload :: "payload \<Rightarrow> q1_arm_state result" where
  "from_payload p =
     (if map_of p ''schema_version'' \<noteq> Some (CStr ''q1_arm_state_v1'')
      then Inl (ValueError ''Not a q1_arm_state_v1 payload'')
      else
        case (map_of p ''positions'', map_of p ''unsettled_receivables'') of
          (Some (CDict positions), Some (CList receivables)) \<Rightarrow>
            rbind (dict_lookup p ''arm_id'') (\<lambda>arm.
            rbind (dict_lookup p ''initial_nav_usd'') (\<lambda>n. rbind (read_decimal (py_str n)) (\<lambda>nav.
            rbind (dict_lookup p ''settled_cash_usd'') (\<lambda>c. rbind (read_decimal (py_str c)) (\<lambda>cash.
            rbind (rmap receivable_from_payload (dict_items receivables)) (\<lambda>rs.
            rbind (rmap (\<lambda>(symbol, q). rbind (read_decimal (py_str q)) (\<lambda>q. Inr (symbol, q))) positions) (\<lambda>ps.
            rbind (dict_lookup p ''sequence'') (\<lambda>sq. rbind (read_int (py_str sq)) (\<lambda>sequence.
            rbind (dict_lookup p ''algorithm_version'') (\<lambda>version.
              validate_q1_arm_state
                \<lparr>as_arm_id = py_str arm, as_initial_nav_usd = nav, as_settled_cash_usd = cash,
                 as_unsettled_receivables = rs, as_positions = ps, as_sequence = sequence,
                 as_evaluation_anchor_id =
                   (case map_of p ''evaluation_anchor_id'' of
                      None \<Rightarrow> None | Some CNull \<Rightarrow> None | Some v \<Rightarrow> Some (py_str v)),
                 as_algorithm_version = py_str version\<rparr>))))))))))
        | _ \<Rightarrow> Inl (ValueError ''Malformed Q1 arm state payload''))"

section \<open>Round trip\<close>

text \<open>The state that is read back.\<close>

definition stored_receivable :: "unsettled_receivable \<Rightarrow> unsettled_receivable" where
  "stored_receivable r = r\<lparr>ur_amount_usd := plain (ur_amount_usd r), ur_created_at := Aware (aware (ur_created_at r))\<rparr>"

definition stored_state :: "q1_arm_state \<Rightarrow> q1_arm_state" where
  "stored_state s = s
     \<lparr>as_initial_nav_usd := plain (as_initial_nav_usd s), as_settled_cash_usd := plain (as_settled_cash_usd s),
      as_unsettled_receivables := map stored_receivable (sort_key ur_receivable_id (as_unsettled_receivables s)),
      as_positions := map (\<lambda>(symbol, q). (symbol, plain q)) (sorted_items (as_positions s))\<rparr>"

text \<open>Dates a calendar has.\<close>

definition dates_ok :: "q1_arm_state \<Rightarrow> bool" where
  "dates_ok s \<longleftrightarrow> (\<forall>r\<in>set (as_unsettled_receivables s).
     valid_date (ur_settlement_date r) \<and> in_calendar (aware (ur_created_at r)))"

lemma dval_plain [simp]: "dval (plain d) = dval d"
proof (cases "0 < dexp d")
  case True
  then have "pow10 (dexp d) = 10 ^ nat (dexp d)" using pow10_nat [of "nat (dexp d)"] by simp
  then show ?thesis using True by (cases d) (simp add: plain_def dval_Dec)
qed (simp add: plain_def)

lemma receivable_round_trip:
  assumes "receivable_ok r" "valid_date (ur_settlement_date r)" "in_calendar (aware (ur_created_at r))"
  shows "receivable_from_payload (receivable_payload r) = Inr (stored_receivable r)"
  using assms
  by (cases r) (simp add: receivable_from_payload_def receivable_payload_def dict_lookup_def py_str_def read_date_iso
      read_datetime_iso stored_receivable_def validate_unsettled_receivable_def receivable_ok_def dval_simps)

text \<open>The sum of non-negative decimals within 28 digits, as it is written.\<close>

definition sum_exp :: "decimal list \<Rightarrow> int" where
  "sum_exp xs = Min (insert 0 (dexp ` set xs))"

definition sum_coef :: "decimal list \<Rightarrow> nat" where
  "sum_coef xs = (\<Sum>x\<leftarrow>xs. dcoef x * 10 ^ nat (dexp x - sum_exp xs))"

lemma sum_exp_le: "sum_exp xs \<le> 0" "x \<in> set xs \<Longrightarrow> sum_exp xs \<le> dexp x"
  by (auto simp: sum_exp_def intro: Min_le)

lemma sum_exp_snoc: "sum_exp (xs @ [x]) = min (sum_exp xs) (dexp x)"
proof -
  have "insert 0 (dexp ` set (xs @ [x])) = insert (dexp x) (insert 0 (dexp ` set xs))" by auto
  then show ?thesis unfolding sum_exp_def by (simp add: min.commute)
qed

lemma sum_coef_rescale:
  assumes "e \<le> sum_exp xs"
  shows "(\<Sum>x\<leftarrow>xs. dcoef x * 10 ^ nat (dexp x - e)) = sum_coef xs * 10 ^ nat (sum_exp xs - e)"
proof -
  have "dcoef x * 10 ^ nat (dexp x - e) = dcoef x * 10 ^ nat (dexp x - sum_exp xs) * 10 ^ nat (sum_exp xs - e)"
    if "x \<in> set xs" for x
  proof -
    have "nat (dexp x - e) = nat (dexp x - sum_exp xs) + nat (sum_exp xs - e)"
      using assms sum_exp_le(2) [OF that] by simp
    then show ?thesis by (simp add: power_add)
  qed
  then have "map (\<lambda>x. dcoef x * 10 ^ nat (dexp x - e)) xs
      = map (\<lambda>x. dcoef x * 10 ^ nat (dexp x - sum_exp xs) * 10 ^ nat (sum_exp xs - e)) xs" by (rule map_cong [OF refl])
  then show ?thesis unfolding sum_coef_def by (simp only: sum_list_mult_const)
qed

lemma dsum_written:
  assumes "\<And>x. x \<in> set xs \<Longrightarrow> \<not> dneg x" "sum_coef xs < 10 ^ 28"
  shows "dsum xs = Dec False (sum_coef xs) (sum_exp xs)"
  using assms
proof (induction xs rule: rev_induct)
  case Nil
  show ?case by (simp add: sum_coef_def sum_exp_def zero_decimal_def D_def mkdec_def)
next
  case (snoc x xs)
  let ?e = "sum_exp (xs @ [x])"
  have e: "?e \<le> sum_exp xs" "?e \<le> dexp x" by (simp_all add: sum_exp_snoc)
  have total: "sum_coef (xs @ [x]) = sum_coef xs * 10 ^ nat (sum_exp xs - ?e) + dcoef x * 10 ^ nat (dexp x - ?e)"
    unfolding sum_coef_def [of "xs @ [x]"] using sum_coef_rescale [OF e(1)] by simp
  have "sum_coef xs \<le> sum_coef xs * 10 ^ nat (sum_exp xs - ?e)" by simp
  then have "sum_coef xs < 10 ^ 28" using snoc.prems(2) total by linarith
  then have IH: "dsum xs = Dec False (sum_coef xs) (sum_exp xs)" using snoc by simp
  have neg: "\<not> dneg x" using snoc.prems(1) by simp
  have "dsum (xs @ [x]) = d_add (dsum xs) x" by (simp add: dsum_def plus_decimal_def)
  also have "\<dots> = dfix (Dec False (sum_coef (xs @ [x])) ?e)"
  proof -
    define A B where "A = sum_coef xs * 10 ^ nat (sum_exp xs - ?e)" and "B = dcoef x * 10 ^ nat (dexp x - ?e)"
    have "align (dsum xs) x = (int A, int B)"
      using neg by (simp add: IH align_def Let_def scoef_def sum_exp_snoc A_def B_def)
    then have "d_add (dsum xs) x = dfix (mkdec False (int (A + B)) ?e)" using neg by (simp add: d_add_def IH sum_exp_snoc)
    also have "mkdec False (int (A + B)) ?e = Dec False (A + B) ?e" unfolding mkdec_def by (simp add: nat_add_distrib)
    finally show ?thesis unfolding total A_def B_def .
  qed
  also have "\<dots> = Dec False (sum_coef (xs @ [x])) ?e"
    using snoc.prems(2) ndigits_le_iff [of 28 "sum_coef (xs @ [x])"] by (simp add: dfix_def prec_def)
  finally show ?case .
qed

lemma sum_exp_cong: "mset xs = mset ys \<Longrightarrow> sum_exp xs = sum_exp ys"
  using mset_eq_setD by (fastforce simp: sum_exp_def)

lemma sum_coef_cong: "mset xs = mset ys \<Longrightarrow> sum_coef xs = sum_coef ys"
proof -
  assume m: "mset xs = mset ys"
  let ?f = "\<lambda>x. dcoef x * 10 ^ nat (dexp x - sum_exp ys)"
  have "sum_list (map ?f xs) = sum_mset (image_mset ?f (mset xs))" by (simp add: sum_mset_sum_list flip: mset_map)
  also have "\<dots> = sum_list (map ?f ys)" unfolding m by (simp add: sum_mset_sum_list flip: mset_map)
  finally show "sum_coef xs = sum_coef ys" by (simp add: sum_coef_def sum_exp_cong [OF m])
qed

lemma sum_exp_plain: "sum_exp (map plain xs) = sum_exp xs"
proof -
  have "dexp (plain x) = min (dexp x) 0" for x by (simp add: plain_def)
  then show ?thesis
  proof (induction xs rule: rev_induct)
    case (snoc x xs)
    then show ?case using sum_exp_le(1) [of xs] by (simp add: sum_exp_snoc)
  qed simp
qed

lemma sum_coef_plain: "sum_coef (map plain xs) = sum_coef xs"
proof -
  have "dcoef (plain x) * 10 ^ nat (dexp (plain x) - sum_exp xs) = dcoef x * 10 ^ nat (dexp x - sum_exp xs)" for x
  proof (cases "0 < dexp x")
    case True
    then have "nat (dexp x - sum_exp xs) = nat (dexp x) + nat (- sum_exp xs)" using sum_exp_le(1) [of xs] by simp
    then show ?thesis using True by (simp add: plain_def power_add)
  qed (simp add: plain_def)
  then show ?thesis by (simp add: sum_coef_def sum_exp_plain comp_def)
qed

lemma dict_items_map: "dict_items (map (\<lambda>r. CDict (f r)) xs) = map f xs"
  by (induction xs) (simp_all add: dict_items_def map_filter_simps)

lemma stored_state_wf:
  assumes "arm_wf s"
  shows "arm_wf (stored_state s)"
proof -
  let ?rs = "sort_key ur_receivable_id (as_unsettled_receivables s)" and ?ps = "sorted_items (as_positions s)"
  have "mset (map ur_receivable_id ?rs) = mset (map ur_receivable_id (as_unsettled_receivables s))" by (simp only: mset_map mset_sort)
  then have "distinct (map ur_receivable_id ?rs)" using assms mset_eq_imp_distinct_iff unfolding arm_wf_def by blast
  moreover have "map ur_receivable_id (map stored_receivable ?rs) = map ur_receivable_id ?rs" by (simp add: stored_receivable_def)
  moreover have "distinct (map fst ?ps)" using assms sorted_items_distinct [of "as_positions s"] by (simp add: arm_wf_def dict_keys_def)
  moreover have "map fst (map (\<lambda>(symbol, q). (symbol, plain q)) ?ps) = map fst ?ps" by (simp add: comp_def split_def)
  ultimately show ?thesis using assms
    by (auto simp: arm_wf_def stored_state_def dict_keys_def dict_values_def sorted_items_def receivable_ok_def stored_receivable_def
        list_all_iff simp del: map_map)
qed

lemma arm_round_trip:
  assumes "arm_wf s" "dates_ok s"
  shows "from_payload (as_payload s) = Inr (stored_state s)"
proof -
  have rs: "rmap receivable_from_payload (dict_items (map (\<lambda>r. CDict (receivable_payload r))
      (sort_key ur_receivable_id (as_unsettled_receivables s))))
      = Inr (map stored_receivable (sort_key ur_receivable_id (as_unsettled_receivables s)))"
    unfolding dict_items_map using assms
    by (intro rmap_map receivable_round_trip) (auto simp: arm_wf_def dates_ok_def list_all_iff)
  have ps: "rmap (\<lambda>(symbol, q). rbind (read_decimal (py_str q)) (\<lambda>q. Inr (symbol, q)))
      (map (\<lambda>(symbol, q). (symbol, CStr (format_f q))) (sorted_items (as_positions s)))
      = Inr (map (\<lambda>(symbol, q). (symbol, plain q)) (sorted_items (as_positions s)))"
    by (rule rmap_map) (auto simp: py_str_def)
  have sq: "read_int (py_str (CInt (as_sequence s))) = Inr (as_sequence s)" by (simp add: py_str_def read_int_str)
  have str: "py_str (CStr x) = x" for x by (simp add: py_str_def)
  have "from_payload (as_payload s) = validate_q1_arm_state
      \<lparr>as_arm_id = as_arm_id s, as_initial_nav_usd = plain (as_initial_nav_usd s), as_settled_cash_usd = plain (as_settled_cash_usd s),
       as_unsettled_receivables = map stored_receivable (sort_key ur_receivable_id (as_unsettled_receivables s)),
       as_positions = map (\<lambda>(symbol, q). (symbol, plain q)) (sorted_items (as_positions s)), as_sequence = as_sequence s,
       as_evaluation_anchor_id = as_evaluation_anchor_id s, as_algorithm_version = as_algorithm_version s\<rparr>"
    by (cases "as_evaluation_anchor_id s") (simp_all add: from_payload_def as_payload_def dict_lookup_def rs ps sq str)
  also have "\<dots> = validate_q1_arm_state (stored_state s)" by (cases s) (simp add: stored_state_def)
  also have "\<dots> = Inr (stored_state s)" using stored_state_wf [OF assms(1)] by (rule arm_wf_validated)
  finally show ?thesis .
qed

lemma format_plain [simp]: "format_f (plain d) = format_f d"
proof (cases "0 < dexp d \<and> dcoef d \<noteq> 0")
  case True
  have zeros: "nat_str (n * 10 ^ k) = nat_str n @ replicate k (CHR ''0'')" if "0 < n" for n k
  proof (induction k)
    case (Suc k)
    have "nat_str (n * 10 ^ Suc k) = nat_str (n * 10 ^ k) @ [digit_char 0]"
      using that by (subst nat_str.simps) simp
    also have "digit_char 0 = CHR ''0''" by code_simp
    finally show ?case using Suc by (simp add: replicate_append_same)
  qed simp
  moreover have "nat (int n + dexp d) = n + nat (dexp d)" "nat (dexp d + int n) = n + nat (dexp d)" for n
    using True by linarith+
  ultimately show ?thesis using True by (simp add: plain_def format_f_def Let_def)
next
  case False
  then show ?thesis by (cases d) (auto simp: plain_def format_f_def)
qed

text \<open>The written sum of the receivables, when it needs no rounding.\<close>

definition receivables_exact :: "q1_arm_state \<Rightarrow> bool" where
  "receivables_exact s \<longleftrightarrow> sum_coef (map ur_amount_usd (as_unsettled_receivables s)) < 10 ^ 28"

lemma stored_unsettled_cash:
  assumes "arm_wf s" "receivables_exact s"
  shows "unsettled_cash_usd (stored_state s) = unsettled_cash_usd s"
proof -
  let ?xs = "map ur_amount_usd (as_unsettled_receivables s)"
  let ?ys = "map ur_amount_usd (sort_key ur_receivable_id (as_unsettled_receivables s))"
  have m: "mset ?ys = mset ?xs" by (simp only: mset_map mset_sort)
  have pos: "\<not> dneg x" if "x \<in> set ?xs" for x
  proof -
    have "0 < dval x" using that assms(1) by (auto simp: arm_wf_def list_all_iff receivable_ok_def)
    moreover have "0 \<le> of_nat n * pow10 e" for n e by (simp add: less_imp_le [OF pow10_pos])
    ultimately show ?thesis by (cases x) (auto simp: dval_Dec not_less [symmetric])
  qed
  have same: "map ur_amount_usd (as_unsettled_receivables (stored_state s)) = map plain ?ys"
    by (simp add: stored_state_def stored_receivable_def)
  have bound: "sum_coef (map plain ?ys) < 10 ^ 28"
    using assms(2) unfolding sum_coef_plain sum_coef_cong [OF m] receivables_exact_def .
  have "\<not> dneg x" if y: "x \<in> set (map plain ?ys)" for x
  proof -
    from y obtain z where "z \<in> set ?ys" "x = plain z" by auto
    then show ?thesis using pos [of z] unfolding mset_eq_setD [OF m] by (simp add: plain_def)
  qed
  then have "dsum (map plain ?ys) = Dec False (sum_coef (map plain ?ys)) (sum_exp (map plain ?ys))"
    using bound by (rule dsum_written)
  also have "\<dots> = Dec False (sum_coef ?xs) (sum_exp ?xs)"
    by (simp only: sum_coef_plain sum_exp_plain sum_coef_cong [OF m] sum_exp_cong [OF m])
  also have "\<dots> = dsum ?xs" using pos assms(2) by (intro dsum_written [symmetric]) (auto simp: receivables_exact_def)
  finally show ?thesis by (simp only: unsettled_cash_usd_def same)
qed

lemma sorted_items_map: "sorted_items (map (\<lambda>(k, v). (k, f v)) (sorted_items d)) = map (\<lambda>(k, v). (k, f v)) (sorted_items d)"
proof -
  have eq: "map fst (map (\<lambda>(k, v). (k, f v)) (sorted_items d)) = map fst (sorted_items d)" by (simp add: comp_def split_def)
  have "sorted (map fst (map (\<lambda>(k, v). (k, f v)) (sorted_items d)))" unfolding eq by (simp add: sorted_items_def)
  then show ?thesis unfolding sorted_items_def [of "map _ _"] by (rule sort_key_id_if_sorted)
qed

lemma stored_payload:
  assumes "arm_wf s" "receivables_exact s"
  shows "as_payload (stored_state s) = as_payload s"
proof -
  let ?rs = "sort_key ur_receivable_id (as_unsettled_receivables s)"
  let ?t = "map (\<lambda>(symbol, q). (symbol, CStr (format_f q)))" and ?p = "map (\<lambda>(symbol, q). (symbol, plain q))"
  have rs: "sort_key ur_receivable_id (map stored_receivable ?rs) = map stored_receivable ?rs"
    by (intro sort_key_id_if_sorted) (simp add: comp_def stored_receivable_def)
  have r: "receivable_payload (stored_receivable r) = receivable_payload r" for r
    by (simp add: receivable_payload_def stored_receivable_def)
  have ps: "?t (?p xs) = ?t xs" for xs by (simp add: comp_def split_def)
  have fields: "as_algorithm_version (stored_state s) = as_algorithm_version s" "as_arm_id (stored_state s) = as_arm_id s"
    "as_initial_nav_usd (stored_state s) = plain (as_initial_nav_usd s)"
    "as_settled_cash_usd (stored_state s) = plain (as_settled_cash_usd s)"
    "as_unsettled_receivables (stored_state s) = map stored_receivable ?rs"
    "as_positions (stored_state s) = ?p (sorted_items (as_positions s))" "as_sequence (stored_state s) = as_sequence s"
    "as_evaluation_anchor_id (stored_state s) = as_evaluation_anchor_id s"
    by (simp_all add: stored_state_def)
  show ?thesis
    unfolding as_payload_def fields stored_unsettled_cash [OF assms] rs sorted_items_map ps by (simp add: r)
qed

section \<open>Property\<close>

text \<open>
  C36. A stored arm state is read back unchanged: reading the payload of a well-formed state never
  raises, gives the same cash, sequence number, anchor, positions and receivables (in sorted
  order, every decimal with its value), and writing the result gives the same payload again, so
  the state hash survives. The dates must lie in the years 1 to 9999 and the receivables sum up
  within 28 digits.\<close>

theorem arm_payload_round_trip:
  assumes "arm_wf s" "dates_ok s" "receivables_exact s"
  shows "\<exists>s'. from_payload (as_payload s) = Inr s' \<and> arm_wf s' \<and> as_payload s' = as_payload s
    \<and> as_arm_id s' = as_arm_id s \<and> as_sequence s' = as_sequence s \<and> as_evaluation_anchor_id s' = as_evaluation_anchor_id s
    \<and> dval (as_settled_cash_usd s') = dval (as_settled_cash_usd s)
    \<and> map (\<lambda>(k, q). (k, dval q)) (as_positions s') = map (\<lambda>(k, q). (k, dval q)) (sorted_items (as_positions s))
    \<and> map (\<lambda>r. (ur_receivable_id r, ur_source_fill_id r, dval (ur_amount_usd r), ur_settlement_date r, aware (ur_created_at r)))
        (as_unsettled_receivables s')
      = map (\<lambda>r. (ur_receivable_id r, ur_source_fill_id r, dval (ur_amount_usd r), ur_settlement_date r, aware (ur_created_at r)))
        (sort_key ur_receivable_id (as_unsettled_receivables s))"
  using arm_round_trip [OF assms(1,2)] stored_state_wf [OF assms(1)] stored_payload [OF assms(1,3)]
  by (intro exI [of _ "stored_state s"]) (simp add: stored_state_def stored_receivable_def comp_def split_def)

definition ex_stored_arm :: q1_arm_state where
  "ex_stored_arm = ex_arm\<lparr>as_unsettled_receivables :=
     [\<lparr>ur_receivable_id = ''r2'', ur_source_fill_id = ''f2'', ur_amount_usd = D 199960000 (- 6),
       ur_settlement_date = (2026, 1, 6), ur_created_at = Aware 1767700800000050\<rparr>,
      \<lparr>ur_receivable_id = ''r1'', ur_source_fill_id = ''f1'', ur_amount_usd = D 3 2,
       ur_settlement_date = (2026, 2, 28), ur_created_at = Aware 1767700800000000\<rparr>]\<rparr>"

theorem arm_payload_round_trip_witness:
  "\<exists>s'. from_payload (as_payload ex_stored_arm) = Inr s' \<and> as_payload s' = as_payload ex_stored_arm
    \<and> map ur_receivable_id (as_unsettled_receivables s') = [''r1'', ''r2'']"
proof -
  have wf: "arm_wf ex_stored_arm"
    using ex_arm_facts by (simp add: ex_stored_arm_def arm_wf_def receivable_ok_def dval_D)
  have dates: "dates_ok ex_stored_arm" by code_simp
  have "receivables_exact ex_stored_arm"
    by (simp add: receivables_exact_def ex_stored_arm_def sum_coef_def sum_exp_def D_def mkdec_def)
  from arm_payload_round_trip [OF wf dates this] obtain s' where s': "from_payload (as_payload ex_stored_arm) = Inr s'"
    "as_payload s' = as_payload ex_stored_arm"
    and rs: "map (\<lambda>r. (ur_receivable_id r, ur_source_fill_id r, dval (ur_amount_usd r), ur_settlement_date r, aware (ur_created_at r)))
        (as_unsettled_receivables s')
      = map (\<lambda>r. (ur_receivable_id r, ur_source_fill_id r, dval (ur_amount_usd r), ur_settlement_date r, aware (ur_created_at r)))
        (sort_key ur_receivable_id (as_unsettled_receivables ex_stored_arm))" by blast
  have "map ur_receivable_id (as_unsettled_receivables s') = map ur_receivable_id (sort_key ur_receivable_id (as_unsettled_receivables ex_stored_arm))"
    using arg_cong [OF rs, of "map fst"] by (simp add: comp_def)
  also have "\<dots> = [''r1'', ''r2'']"
  proof -
    have two: "map f (sort_key f [a, b]) = sort_key (\<lambda>x. x) [f a, f b]" for f :: "unsettled_receivable \<Rightarrow> string" and a b by simp
    have "sort_key (\<lambda>x. x) [''r2'', ''r1''] = [''r1'', ''r2'']" by code_simp
    moreover obtain a b where "as_unsettled_receivables ex_stored_arm = [a, b]" "ur_receivable_id a = ''r2''" "ur_receivable_id b = ''r1''"
      by (simp add: ex_stored_arm_def)
    ultimately show ?thesis by (simp only: two)
  qed
  finally show ?thesis using s' by (intro exI [of _ s'] conjI)
qed

end
