(* ===== verification/Reconciliation.thy ===== *)
theory Reconciliation
  imports Arm_Payload Settlement Decision
begin

text \<open>
  Reconciling an arm with its ledgers: \<^verbatim>\<open>risk/reconciliation.py\<close>. The check rebuilds positions,
  settled cash and open receivables of an arm from its opening snapshot, its fills and its cash
  events, and compares them with the state the engine trades on. A stored row carries its
  columns and its parsed payload, which is missing where parsing raises; of the columns only those the check reads. Shown: a state that
  reconciles is exactly explained by its ledgers.
\<close>

section \<open>Rows\<close>

record arm_state_snapshot_row =
  ss_arm_state_snapshot_id :: string
  ss_run_id :: string
  ss_arm_id :: string
  ss_sequence :: int
  ss_created_at :: instant
  ss_payload_json :: payload

record fill_row =
  rf_fill_id :: string
  rf_fill_hash :: "string option"
  rf_run_id :: string
  rf_arm_id :: string
  rf_algorithm_version :: "string option"
  rf_effective_at :: instant
  rf_payload :: "q1_fill option"

record cash_settlement_event_row =
  rc_cash_settlement_event_id :: string
  rc_event_hash :: string
  rc_run_id :: string
  rc_arm_id :: string
  rc_algorithm_version :: string
  rc_effective_at :: instant
  rc_created_at :: instant
  rc_payload :: "cash_settlement_event option"

record order_event_row =
  ro_order_event_id :: string
  ro_run_id :: string
  ro_arm_id :: string
  ro_algorithm_version :: string
  ro_available_at :: instant
  ro_event_type :: string
  ro_payload :: "order_event option"

record q1_ledgers =
  lg_states :: "arm_state_snapshot_row list"
  lg_fills :: "fill_row list"
  lg_cash :: "cash_settlement_event_row list"
  lg_order_events :: "order_event_row list"

section \<open>Queries\<close>

definition opening_row :: "q1_ledgers \<Rightarrow> string \<Rightarrow> string \<Rightarrow> instant \<Rightarrow> arm_state_snapshot_row option" where
  "opening_row l run_id arm_id t =
     (case sort_key (\<lambda>r. (ss_sequence r, ss_created_at r, ss_arm_state_snapshot_id r))
             (filter (\<lambda>r. ss_run_id r = run_id \<and> ss_arm_id r = arm_id \<and> ss_created_at r \<le> t) (lg_states l)) of
        [] \<Rightarrow> None | r # _ \<Rightarrow> Some r)"

definition fill_rows :: "q1_ledgers \<Rightarrow> string \<Rightarrow> string \<Rightarrow> instant \<Rightarrow> fill_row list" where
  "fill_rows l run_id arm_id t =
     sort_key (\<lambda>r. (rf_effective_at r, rf_fill_id r))
       (filter (\<lambda>r. rf_run_id r = run_id \<and> rf_arm_id r = arm_id
          \<and> rf_algorithm_version r = Some Q1_ALGORITHM_VERSION \<and> rf_effective_at r \<le> t) (lg_fills l))"

definition cash_rows :: "q1_ledgers \<Rightarrow> string \<Rightarrow> string \<Rightarrow> instant \<Rightarrow> cash_settlement_event_row list" where
  "cash_rows l run_id arm_id t =
     sort_key (\<lambda>r. (rc_effective_at r, rc_cash_settlement_event_id r))
       (filter (\<lambda>r. rc_run_id r = run_id \<and> rc_arm_id r = arm_id
          \<and> rc_algorithm_version r = Q1_ALGORITHM_VERSION \<and> rc_effective_at r \<le> t \<and> rc_created_at r \<le> t) (lg_cash l))"

definition order_event_rows :: "q1_ledgers \<Rightarrow> string \<Rightarrow> string \<Rightarrow> instant \<Rightarrow> order_event_row list" where
  "order_event_rows l run_id arm_id t =
     sort_key (\<lambda>r. (ro_available_at r, ro_order_event_id r))
       (filter (\<lambda>r. ro_run_id r = run_id \<and> ro_arm_id r = arm_id
          \<and> ro_algorithm_version r = Q1_ALGORITHM_VERSION \<and> ro_available_at r \<le> t) (lg_order_events l))"

section \<open>The check\<close>

datatype reconciliation_condition =
  RECONCILED | LEDGER_UNAVAILABLE | POSITION_OR_CASH_MISMATCH | NEGATIVE_BALANCE | UNKNOWN_FILL

fun reconciliation_condition_value :: "reconciliation_condition \<Rightarrow> string" where
  "reconciliation_condition_value RECONCILED = ''OK''"
| "reconciliation_condition_value LEDGER_UNAVAILABLE = ''LEDGER_UNAVAILABLE''"
| "reconciliation_condition_value POSITION_OR_CASH_MISMATCH = ''POSITION_OR_CASH_MISMATCH''"
| "reconciliation_condition_value NEGATIVE_BALANCE = ''NEGATIVE_BALANCE''"
| "reconciliation_condition_value UNKNOWN_FILL = ''UNKNOWN_FILL''"

record q1_reconciliation_result =
  rr_conditions :: "reconciliation_condition list"
  rr_expected_positions :: "(string, decimal) dict"
  rr_expected_settled_cash_usd :: decimal
  rr_expected_unsettled_receivables :: "(string, decimal) dict"
  rr_checked_fill_ids :: "string list"
  rr_checked_cash_event_ids :: "string list"
  rr_result_hash :: string

definition reconciled_ok :: "q1_reconciliation_result \<Rightarrow> bool" where
  "reconciled_ok r \<longleftrightarrow> rr_conditions r = [RECONCILED]"

definition is_critical :: "q1_reconciliation_result \<Rightarrow> string set \<Rightarrow> bool" where
  "is_critical r configured \<longleftrightarrow> list_ex (\<lambda>c. reconciliation_condition_value c \<in> configured) (rr_conditions r)"

text \<open>The opening state, and whether the ledger has one.\<close>

definition opening_state :: "arm_state_snapshot_row option \<Rightarrow> q1_arm_state \<Rightarrow> q1_arm_state \<times> bool" where
  "opening_state row state =
     (case row of
        None \<Rightarrow> (state, False)
      | Some r \<Rightarrow> (case from_payload (ss_payload_json r) of Inl _ \<Rightarrow> (state, False) | Inr s \<Rightarrow> (s, True)))"

definition known_fill :: "string \<Rightarrow> string \<Rightarrow> instant \<Rightarrow> fill_row \<Rightarrow> q1_fill option" where
  "known_fill run_id arm_id t row =
     (case rf_payload row of
        None \<Rightarrow> None
      | Some f \<Rightarrow>
          if qf_fill_id f \<noteq> rf_fill_id row \<or> Some (qf_fill_hash f) \<noteq> rf_fill_hash row \<or> qf_run_id f \<noteq> run_id
             \<or> arm_value (qf_arm_id f) \<noteq> arm_id \<or> t < qf_created_at f
          then None else Some f)"

definition is_fill_row :: "order_event_row \<Rightarrow> bool" where
  "is_fill_row row \<longleftrightarrow> ro_event_type row \<in> set (map order_event_type_value [PARTIALLY_FILLED, FILLED])"

definition fill_event_of :: "q1_fill \<Rightarrow> order_event \<Rightarrow> bool" where
  "fill_event_of f e \<longleftrightarrow>
     oe_source_id e = Some (qf_fill_id f) \<and> oe_order_intent_id e = qf_order_intent_id f
     \<and> d_eq (oe_quantity_delta e) (qf_quantity f) \<and> d_eq (oe_commission_delta_usd e) (qf_commission_usd f)"

definition positive_positions :: "(string, decimal) dict \<Rightarrow> (string, decimal) dict" where
  "positive_positions positions = filter (\<lambda>(s, q). \<not> d_eq q 0) (sorted_items positions)"

definition signed_quantity :: "q1_fill \<Rightarrow> decimal" where
  "signed_quantity f = (if qf_side f = BUY then qf_quantity f else - qf_quantity f)"

definition add_position :: "q1_fill \<Rightarrow> (string, decimal) dict \<Rightarrow> (string, decimal) dict" where
  "add_position f positions =
     AList.update (qf_symbol f) (dict_get positions (qf_symbol f) 0 + signed_quantity f) positions"

definition known_cash_event :: "cash_settlement_event_row \<Rightarrow> cash_settlement_event option" where
  "known_cash_event row =
     (case rc_payload row of
        None \<Rightarrow> None
      | Some e \<Rightarrow>
          if cs_cash_settlement_event_id e \<noteq> rc_cash_settlement_event_id row \<or> cs_event_hash e \<noteq> rc_event_hash row
          then None else Some e)"

definition add_receivable :: "cash_settlement_event \<Rightarrow> (string, decimal) dict \<Rightarrow> (string, decimal) dict" where
  "add_receivable e receivables =
     (case cs_receivable_id e of
        None \<Rightarrow> receivables
      | Some rid \<Rightarrow>
          AList.update rid (dict_get receivables rid 0 + cs_unsettled_receivable_delta_usd e) receivables)"

text \<open>The types of the cash events of a fill, in the order of the events.\<close>

definition fill_cash_types :: "cash_settlement_event list \<Rightarrow> q1_fill \<Rightarrow> cash_settlement_event_type list" where
  "fill_cash_types events f = map cs_event_type (filter (\<lambda>e. cs_source_fill_id e = Some (qf_fill_id f)) events)"

definition valid_cash_events :: "cash_settlement_event list \<Rightarrow> q1_fill \<Rightarrow> bool" where
  "valid_cash_events events f \<longleftrightarrow>
     (if qf_side f = BUY then fill_cash_types events f = [BUY_SETTLED_CASH_DEBIT]
      else fill_cash_types events f \<in> {[SELL_RECEIVABLE_CREATED], [SELL_RECEIVABLE_CREATED, RECEIVABLE_SETTLED]})"

text \<open>\<^verbatim>\<open>==\<close> of dictionaries of decimals with distinct keys.\<close>

definition dict_d_eq :: "(string, decimal) dict \<Rightarrow> (string, decimal) dict \<Rightarrow> bool" where
  "dict_d_eq a b \<longleftrightarrow>
     length a = length b
     \<and> list_all (\<lambda>(k, x). case map_of b k of None \<Rightarrow> False | Some y \<Rightarrow> d_eq x y) a"

definition actual_receivables :: "q1_arm_state \<Rightarrow> (string, decimal) dict" where
  "actual_receivables state =
     fold (\<lambda>r. AList.update (ur_receivable_id r) (ur_amount_usd r)) (as_unsettled_receivables state) []"

record reconciliation_findings =
  fi_ledger_unavailable :: bool
  fi_mismatch :: bool
  fi_negative :: bool
  fi_unknown_fill :: bool

text \<open>The conditions in the order of the enumeration.\<close>

definition ordered_conditions :: "reconciliation_findings \<Rightarrow> reconciliation_condition list" where
  "ordered_conditions x =
     (let cs = (if fi_ledger_unavailable x then [LEDGER_UNAVAILABLE] else [])
             @ (if fi_mismatch x then [POSITION_OR_CASH_MISMATCH] else [])
             @ (if fi_negative x then [NEGATIVE_BALANCE] else [])
             @ (if fi_unknown_fill x then [UNKNOWN_FILL] else []) in
      if cs = [] then [RECONCILED] else cs)"

definition result_content ::
  "string \<Rightarrow> string \<Rightarrow> instant \<Rightarrow> q1_arm_state \<Rightarrow> q1_reconciliation_result \<Rightarrow> pyval" where
  "result_content run_id arm_id t state r =
     VDict
       [(''run_id'', VStr run_id), (''arm_id'', VStr arm_id), (''as_of'', VTime t), (''state_sequence'', VInt (as_sequence state)),
        (''conditions'', VList (map (\<lambda>c. VStr (reconciliation_condition_value c)) (rr_conditions r))),
        (''expected_positions'', VDict (map (\<lambda>(s, q). (s, VDec q)) (rr_expected_positions r))),
        (''expected_settled_cash_usd'', VDec (rr_expected_settled_cash_usd r)),
        (''expected_unsettled_receivables'', VDict (map (\<lambda>(i, a). (i, VDec a)) (rr_expected_unsettled_receivables r))),
        (''checked_fill_ids'', VList (map VStr (rr_checked_fill_ids r))),
        (''checked_cash_event_ids'', VList (map VStr (rr_checked_cash_event_ids r)))]"

definition checked_fills :: "q1_ledgers \<Rightarrow> string \<Rightarrow> string \<Rightarrow> instant \<Rightarrow> q1_fill list" where
  "checked_fills l run_id arm_id t = List.map_filter (known_fill run_id arm_id t) (fill_rows l run_id arm_id t)"

definition fill_event_rows :: "q1_ledgers \<Rightarrow> string \<Rightarrow> string \<Rightarrow> instant \<Rightarrow> order_event_row list" where
  "fill_event_rows l run_id arm_id t = filter is_fill_row (order_event_rows l run_id arm_id t)"

definition checked_fill_events :: "q1_ledgers \<Rightarrow> string \<Rightarrow> string \<Rightarrow> instant \<Rightarrow> order_event list" where
  "checked_fill_events l run_id arm_id t = List.map_filter ro_payload (fill_event_rows l run_id arm_id t)"

definition checked_cash :: "q1_ledgers \<Rightarrow> string \<Rightarrow> string \<Rightarrow> instant \<Rightarrow> cash_settlement_event list" where
  "checked_cash l run_id arm_id t = List.map_filter known_cash_event (cash_rows l run_id arm_id t)"

definition expected_positions :: "q1_arm_state \<Rightarrow> q1_fill list \<Rightarrow> (string, decimal) dict" where
  "expected_positions opened fills = positive_positions (fold add_position fills (as_positions opened))"

definition expected_receivables :: "cash_settlement_event list \<Rightarrow> (string, decimal) dict" where
  "expected_receivables cash = filter (\<lambda>(i, a). \<not> d_eq a 0) (fold add_receivable cash [])"

definition ledger_unavailable :: "q1_arm_state \<Rightarrow> bool \<Rightarrow> cash_settlement_event list \<Rightarrow> bool" where
  "ledger_unavailable opened available cash \<longleftrightarrow>
     \<not> available \<or> as_sequence opened \<noteq> 0
     \<or> length (filter (\<lambda>e. cs_event_type e = OPENING_SETTLED_CASH) cash) \<noteq> 1"

definition position_or_cash_mismatch ::
  "q1_arm_state \<Rightarrow> q1_arm_state \<Rightarrow> q1_fill list \<Rightarrow> cash_settlement_event list \<Rightarrow> bool" where
  "position_or_cash_mismatch state opened fills cash \<longleftrightarrow>
     as_sequence state \<noteq> int (length fills + length (filter (\<lambda>e. cs_event_type e = RECEIVABLE_SETTLED) cash))
     \<or> \<not> dict_d_eq (expected_positions opened fills) (positive_positions (as_positions state))
     \<or> \<not> d_eq (dsum (map cs_settled_cash_delta_usd cash)) (as_settled_cash_usd state)
     \<or> \<not> dict_d_eq (expected_receivables cash) (actual_receivables state)"

definition negative_balance ::
  "q1_arm_state \<Rightarrow> q1_arm_state \<Rightarrow> q1_fill list \<Rightarrow> cash_settlement_event list \<Rightarrow> bool" where
  "negative_balance state opened fills cash \<longleftrightarrow>
     as_settled_cash_usd state < 0 \<or> dsum (map cs_settled_cash_delta_usd cash) < 0
     \<or> list_ex (\<lambda>(s, q). q < 0) (expected_positions opened fills)
     \<or> list_ex (\<lambda>(i, a). a < 0) (expected_receivables cash)"

definition unknown_fill :: "q1_fill list \<Rightarrow> order_event list \<Rightarrow> cash_settlement_event list \<Rightarrow> bool" where
  "unknown_fill fills fill_events cash \<longleftrightarrow>
     list_ex (\<lambda>f. length (filter (fill_event_of f) fill_events) \<noteq> 1) fills
     \<or> list_ex (\<lambda>e. oe_source_id e \<notin> Some ` set (map qf_fill_id fills)) fill_events
     \<or> set (List.map_filter cs_source_fill_id cash) \<noteq> set (map qf_fill_id fills)
     \<or> list_ex (\<lambda>f. \<not> valid_cash_events cash f) fills"

definition reconcile ::
  "digest \<Rightarrow> q1_ledgers \<Rightarrow> string \<Rightarrow> string \<Rightarrow> q1_arm_state \<Rightarrow> datetime \<Rightarrow> q1_reconciliation_result result" where
  "reconcile H l run_id arm_id state as_of =
     rbind (require_aware_utc ''datetime'' as_of) (\<lambda>t.
     let (opened, available) = opening_state (opening_row l run_id arm_id t) state;
         fills = checked_fills l run_id arm_id t;
         fill_events = checked_fill_events l run_id arm_id t;
         cash = checked_cash l run_id arm_id t;
         findings =
           \<lparr>fi_ledger_unavailable = ledger_unavailable opened available cash,
            fi_mismatch =
              length cash \<noteq> length (cash_rows l run_id arm_id t) \<or> position_or_cash_mismatch state opened fills cash,
            fi_negative = negative_balance state opened fills cash,
            fi_unknown_fill =
              length fills \<noteq> length (fill_rows l run_id arm_id t)
              \<or> length fill_events \<noteq> length (fill_event_rows l run_id arm_id t)
              \<or> unknown_fill fills fill_events cash\<rparr>;
         r = \<lparr>rr_conditions = ordered_conditions findings, rr_expected_positions = expected_positions opened fills,
              rr_expected_settled_cash_usd = dsum (map cs_settled_cash_delta_usd cash),
              rr_expected_unsettled_receivables = expected_receivables cash,
              rr_checked_fill_ids = map qf_fill_id fills,
              rr_checked_cash_event_ids = map cs_cash_settlement_event_id cash, rr_result_hash = []\<rparr> in
     Inr (r\<lparr>rr_result_hash := canonical_hash H (result_content run_id arm_id t state r)\<rparr>))"

section \<open>Exact tallies\<close>

text \<open>Both dictionaries are tallies: a value is added under a key for every element of a list.\<close>

definition tally :: "('a \<Rightarrow> string) \<Rightarrow> ('a \<Rightarrow> decimal) \<Rightarrow> 'a list \<Rightarrow> (string, decimal) dict \<Rightarrow> (string, decimal) dict" where
  "tally key v xs d = fold (\<lambda>x d. AList.update (key x) (dict_get d (key x) 0 + v x) d) xs d"

lemma tally_exact:
  assumes "\<And>x. x \<in> set xs \<Longrightarrow> key x = k \<Longrightarrow> on_grid g (dval (v x))" "on_grid g (dval (dict_get d k 0))"
    and "\<bar>dval (dict_get d k 0)\<bar> + (\<Sum>x\<leftarrow>filter (\<lambda>x. key x = k) xs. \<bar>dval (v x)\<bar>) \<le> pow10 (g + int prec)"
  shows "dval (dict_get (tally key v xs d) k 0) = dval (dict_get d k 0) + (\<Sum>x\<leftarrow>filter (\<lambda>x. key x = k) xs. dval (v x))"
proof -
  have "dval (dict_get (tally key v xs d) k 0) = dval (dict_get d k 0) + (\<Sum>x\<leftarrow>filter (\<lambda>x. key x = k) xs. dval (v x))
      \<and> on_grid g (dval (dict_get d k 0) + (\<Sum>x\<leftarrow>filter (\<lambda>x. key x = k) xs. dval (v x)))"
    using assms
  proof (induction xs rule: rev_induct)
    case (snoc x xs)
    let ?s = "\<lambda>f. \<Sum>x\<leftarrow>filter (\<lambda>x. key x = k) xs. f (dval (v x)) :: rat"
    have le: "\<bar>dval (dict_get d k 0)\<bar> + ?s abs \<le> pow10 (g + int prec)"
      using snoc.prems(3) abs_ge_zero [of "dval (v x)"] by (cases "key x = k") simp_all
    have IH: "dval (dict_get (tally key v xs d) k 0) = dval (dict_get d k 0) + ?s (\<lambda>x. x)"
      "on_grid g (dval (dict_get d k 0) + ?s (\<lambda>x. x))"
      using snoc.IH [OF _ snoc.prems(2) le] snoc.prems(1) by auto
    show ?case
    proof (cases "key x = k")
      case True
      have "\<bar>?s (\<lambda>x. x)\<bar> \<le> ?s abs" using sum_list_abs_le [of "\<lambda>x. dval (v x)" "filter (\<lambda>x. key x = k) xs"] by simp
      then have "\<bar>dval (dict_get d k 0) + ?s (\<lambda>x. x) + dval (v x)\<bar> \<le> pow10 (g + int prec)"
        using snoc.prems(3) True by simp
      moreover have "on_grid g (dval (dict_get d k 0) + ?s (\<lambda>x. x) + dval (v x))" using IH(2) snoc.prems(1) True by auto
      ultimately show ?thesis using IH True by (simp add: tally_def dict_get_update dval_plus ctx_grid add.assoc)
    next
      case False
      then show ?thesis using IH by (simp add: tally_def dict_get_update)
    qed
  qed (simp add: tally_def)
  then show ?thesis by simp
qed

lemma tally_distinct: "distinct (dict_keys d) \<Longrightarrow> distinct (dict_keys (tally key v xs d))"
  unfolding tally_def dict_keys_def by (induction xs arbitrary: d) (simp_all add: distinct_update)

lemma fold_add_position: "fold add_position fills d = tally qf_symbol signed_quantity fills d"
  by (simp add: tally_def add_position_def [abs_def])

lemma fold_add_receivable:
  "fold add_receivable events d
    = tally (\<lambda>e. the (cs_receivable_id e)) cs_unsettled_receivable_delta_usd (filter (\<lambda>e. cs_receivable_id e \<noteq> None) events) d"
  by (induction events arbitrary: d) (auto simp: tally_def add_receivable_def)

section \<open>Equal dictionaries\<close>

lemma dict_get_filter_nonzero:
  assumes "distinct (dict_keys d)"
  shows "dval (dict_get (filter (\<lambda>(s, q). \<not> d_eq q 0) d) k 0) = dval (dict_get d k 0)"
proof (cases "map_of d k")
  case None
  then have "map_of (filter (\<lambda>(s, q). \<not> d_eq q 0) d) k = None" by (force simp: map_of_eq_None_iff)
  then show ?thesis using None by (simp add: dict_get_def)
next
  case (Some q)
  have dist: "distinct (map fst (filter (\<lambda>(s, q). \<not> d_eq q 0) d))" using assms by (simp add: dict_keys_def distinct_map_filter)
  show ?thesis
  proof (cases "d_eq q 0")
    case True
    have "q' = q" if "(k, q') \<in> set d" for q' using that Some assms by (simp add: dict_keys_def)
    then have "map_of (filter (\<lambda>(s, q). \<not> d_eq q 0) d) k = None" using True by (force simp: map_of_eq_None_iff)
    then show ?thesis using Some True by (simp add: dict_get_def dval_simps)
  next
    case False
    then have "(k, q) \<in> set (filter (\<lambda>(s, q). \<not> d_eq q 0) d)" using map_of_SomeD [OF Some] by simp
    then show ?thesis using Some dist by (simp add: dict_get_def)
  qed
qed

lemma dict_get_sorted: "distinct (dict_keys d) \<Longrightarrow> dict_get (sorted_items d) k v = dict_get d k v"
proof -
  assume d: "distinct (dict_keys d)"
  then have "distinct (dict_keys (sorted_items d))" by (rule sorted_items_distinct)
  then have "map_of (sorted_items d) = map_of d"
    using d by (intro map_of_eqI) (auto simp: dict_keys_def sorted_items_def)
  then show ?thesis by (simp add: dict_get_def)
qed

lemma positive_positions_get:
  assumes "distinct (dict_keys d)"
  shows "dval (dict_get (positive_positions d) k 0) = dval (dict_get d k 0)" "distinct (dict_keys (positive_positions d))"
proof -
  have d: "distinct (dict_keys (sorted_items d))" using assms by (rule sorted_items_distinct)
  show "dval (dict_get (positive_positions d) k 0) = dval (dict_get d k 0)"
    using dict_get_filter_nonzero [OF d] dict_get_sorted [OF assms] by (simp add: positive_positions_def)
  show "distinct (dict_keys (positive_positions d))" using d by (simp add: positive_positions_def dict_keys_def distinct_map_filter)
qed

lemma dict_d_eq_get:
  assumes "dict_d_eq a b" "distinct (dict_keys a)" "distinct (dict_keys b)"
  shows "dval (dict_get a k 0) = dval (dict_get b k 0)"
proof -
  have mem: "case map_of b k of None \<Rightarrow> False | Some y \<Rightarrow> d_eq x y" if "(k, x) \<in> set a" for k x
    using assms(1) that by (auto simp: dict_d_eq_def list_all_iff)
  have sub: "set (map fst a) \<subseteq> set (map fst b)"
  proof
    fix k
    assume "k \<in> set (map fst a)"
    then obtain x where "(k, x) \<in> set a" by auto
    from mem [OF this] have "map_of b k \<noteq> None" by (auto split: option.splits)
    then show "k \<in> set (map fst b)" by (simp add: map_of_eq_None_iff)
  qed
  have "card (set (map fst a)) = card (set (map fst b))"
    using assms by (simp add: distinct_card dict_keys_def dict_d_eq_def del: set_map)
  then have keys: "set (map fst a) = set (map fst b)" using sub by (intro card_subset_eq) auto
  show ?thesis
  proof (cases "map_of a k")
    case None
    then have "map_of b k = None" using keys by (simp add: map_of_eq_None_iff)
    then show ?thesis using None by (simp add: dict_get_def)
  next
    case (Some x)
    from mem [OF map_of_SomeD [OF Some]] show ?thesis using Some by (auto simp: dict_get_def dval_simps split: option.splits)
  qed
qed

lemma actual_receivables_get: "distinct (dict_keys (actual_receivables state))"
proof -
  have "distinct (map fst d) \<Longrightarrow> distinct (map fst (fold (\<lambda>r. AList.update (ur_receivable_id r) (ur_amount_usd r)) rs d))" for rs d
    by (induction rs arbitrary: d) (simp_all add: distinct_update)
  from this [of "[]"] show ?thesis by (simp add: actual_receivables_def dict_keys_def)
qed

section \<open>What a reconciled state is\<close>

definition signed_value :: "q1_fill \<Rightarrow> rat" where
  "signed_value f = (if qf_side f = BUY then dval (qf_quantity f) else - dval (qf_quantity f))"

lemma reconcile_conditions:
  "reconcile H l run_id arm_id state (Aware t) = Inr r \<Longrightarrow> opening_state (opening_row l run_id arm_id t) state = (opened, available)
    \<Longrightarrow> rr_conditions r = ordered_conditions
      \<lparr>fi_ledger_unavailable = ledger_unavailable opened available (checked_cash l run_id arm_id t),
       fi_mismatch = length (checked_cash l run_id arm_id t) \<noteq> length (cash_rows l run_id arm_id t)
         \<or> position_or_cash_mismatch state opened (checked_fills l run_id arm_id t) (checked_cash l run_id arm_id t),
       fi_negative = negative_balance state opened (checked_fills l run_id arm_id t) (checked_cash l run_id arm_id t),
       fi_unknown_fill = length (checked_fills l run_id arm_id t) \<noteq> length (fill_rows l run_id arm_id t)
         \<or> length (checked_fill_events l run_id arm_id t) \<noteq> length (fill_event_rows l run_id arm_id t)
         \<or> unknown_fill (checked_fills l run_id arm_id t) (checked_fill_events l run_id arm_id t) (checked_cash l run_id arm_id t)\<rparr>"
  by (auto simp: reconcile_def Let_def)

lemma ordered_conditions_ok:
  "ordered_conditions x = [RECONCILED] \<longleftrightarrow> \<not> fi_ledger_unavailable x \<and> \<not> fi_mismatch x \<and> \<not> fi_negative x \<and> \<not> fi_unknown_fill x"
  by (auto simp: ordered_conditions_def Let_def)

text \<open>A state reconciles exactly when nothing is found.\<close>

lemma reconcile_ok_iff:
  assumes "reconcile H l run_id arm_id state (Aware t) = Inr r" "opening_state (opening_row l run_id arm_id t) state = (opened, available)"
  shows "reconciled_ok r \<longleftrightarrow>
    \<not> ledger_unavailable opened available (checked_cash l run_id arm_id t)
    \<and> length (checked_cash l run_id arm_id t) = length (cash_rows l run_id arm_id t)
    \<and> \<not> position_or_cash_mismatch state opened (checked_fills l run_id arm_id t) (checked_cash l run_id arm_id t)
    \<and> \<not> negative_balance state opened (checked_fills l run_id arm_id t) (checked_cash l run_id arm_id t)
    \<and> length (checked_fills l run_id arm_id t) = length (fill_rows l run_id arm_id t)
    \<and> length (checked_fill_events l run_id arm_id t) = length (fill_event_rows l run_id arm_id t)
    \<and> \<not> unknown_fill (checked_fills l run_id arm_id t) (checked_fill_events l run_id arm_id t) (checked_cash l run_id arm_id t)"
  unfolding reconciled_ok_def reconcile_conditions [OF assms] ordered_conditions_ok by auto

lemma dval_signed_quantity:
  "on_grid g (dval (qf_quantity f)) \<Longrightarrow> \<bar>dval (qf_quantity f)\<bar> \<le> pow10 (g + int prec) \<Longrightarrow> dval (signed_quantity f) = signed_value f"
  by (simp add: signed_quantity_def signed_value_def dval_uminus_grid)

text \<open>Positions and receivables of a reconciled state, exactly.\<close>

lemma expected_positions_exact:
  assumes "distinct (dict_keys (as_positions opened))" "on_grid g (dval (dict_get (as_positions opened) symbol 0))"
    and "\<And>f. f \<in> set fills \<Longrightarrow> on_grid g (dval (qf_quantity f))"
    and "\<bar>dval (dict_get (as_positions opened) symbol 0)\<bar> + (\<Sum>f\<leftarrow>fills. \<bar>dval (qf_quantity f)\<bar>) \<le> pow10 (g + int prec)"
  shows "dval (dict_get (expected_positions opened fills) symbol 0)
    = dval (dict_get (as_positions opened) symbol 0) + (\<Sum>f\<leftarrow>filter (\<lambda>f. qf_symbol f = symbol) fills. signed_value f)"
    "distinct (dict_keys (expected_positions opened fills))"
proof -
  let ?fs = "filter (\<lambda>f. qf_symbol f = symbol) fills"
  have le: "\<bar>dval (qf_quantity f)\<bar> \<le> (\<Sum>f\<leftarrow>fills. \<bar>dval (qf_quantity f)\<bar>)" if "f \<in> set fills" for f
    using that by (intro member_le_sum_list) auto
  have v: "dval (signed_quantity f) = signed_value f" if "f \<in> set fills" for f
  proof (rule dval_signed_quantity)
    show "on_grid g (dval (qf_quantity f))" using assms(3) that .
    show "\<bar>dval (qf_quantity f)\<bar> \<le> pow10 (g + int prec)"
      using assms(4) le [OF that] abs_ge_zero [of "dval (dict_get (as_positions opened) symbol 0)"] by linarith
  qed
  have abs_v: "\<bar>signed_value f\<bar> = \<bar>dval (qf_quantity f)\<bar>" for f by (simp add: signed_value_def)
  have sums: "(\<Sum>f\<leftarrow>?fs. dval (signed_quantity f)) = (\<Sum>f\<leftarrow>?fs. signed_value f)"
    "(\<Sum>f\<leftarrow>?fs. \<bar>dval (signed_quantity f)\<bar>) = (\<Sum>f\<leftarrow>?fs. \<bar>dval (qf_quantity f)\<bar>)"
    using v abs_v by (auto intro!: arg_cong [of _ _ sum_list])
  have "(\<Sum>f\<leftarrow>?fs. \<bar>dval (qf_quantity f)\<bar>) \<le> (\<Sum>f\<leftarrow>fills. \<bar>dval (qf_quantity f)\<bar>)" by (intro sum_list_filter_le) simp
  then have bound: "\<bar>dval (dict_get (as_positions opened) symbol 0)\<bar> + (\<Sum>f\<leftarrow>?fs. \<bar>dval (signed_quantity f)\<bar>) \<le> pow10 (g + int prec)"
    unfolding sums using assms(4) by linarith
  have grid: "on_grid g (dval (signed_quantity f))" if "f \<in> set fills" for f
    using v [OF that] assms(3) [OF that] by (auto simp: signed_value_def)
  have d: "distinct (dict_keys (fold add_position fills (as_positions opened)))"
    unfolding fold_add_position using assms(1) by (rule tally_distinct)
  show "distinct (dict_keys (expected_positions opened fills))" unfolding expected_positions_def using d by (rule positive_positions_get(2))
  show "dval (dict_get (expected_positions opened fills) symbol 0)
      = dval (dict_get (as_positions opened) symbol 0) + (\<Sum>f\<leftarrow>?fs. signed_value f)"
    unfolding expected_positions_def positive_positions_get(1) [OF d] unfolding fold_add_position sums [symmetric]
    using grid assms(2) bound by (intro tally_exact [of _ _ _ g]) auto
qed

lemma expected_receivables_exact:
  assumes "\<And>e. e \<in> set cash \<Longrightarrow> on_grid g (dval (cs_unsettled_receivable_delta_usd e))"
    and "(\<Sum>e\<leftarrow>cash. \<bar>dval (cs_unsettled_receivable_delta_usd e)\<bar>) \<le> pow10 (g + int prec)"
  shows "dval (dict_get (expected_receivables cash) rid 0)
    = (\<Sum>e\<leftarrow>filter (\<lambda>e. cs_receivable_id e = Some rid) cash. dval (cs_unsettled_receivable_delta_usd e))"
    "distinct (dict_keys (expected_receivables cash))"
proof -
  let ?key = "\<lambda>e. the (cs_receivable_id e)" and ?v = cs_unsettled_receivable_delta_usd
  let ?es = "filter (\<lambda>e. cs_receivable_id e \<noteq> None) cash"
  have same: "filter (\<lambda>e. ?key e = rid) ?es = filter (\<lambda>e. cs_receivable_id e = Some rid) cash"
    unfolding filter_filter by (rule filter_cong) auto
  have d: "distinct (dict_keys (fold add_receivable cash []))"
    unfolding fold_add_receivable by (rule tally_distinct) (simp add: dict_keys_def)
  have "(\<Sum>e\<leftarrow>filter (\<lambda>e. cs_receivable_id e = Some rid) cash. \<bar>dval (?v e)\<bar>) \<le> (\<Sum>e\<leftarrow>cash. \<bar>dval (?v e)\<bar>)"
    by (intro sum_list_filter_le) simp
  then have bound: "\<bar>dval (dict_get ([] :: (string, decimal) dict) rid 0)\<bar> + (\<Sum>e\<leftarrow>filter (\<lambda>e. ?key e = rid) ?es. \<bar>dval (?v e)\<bar>) \<le> pow10 (g + int prec)"
    unfolding same using assms(2) by simp
  have "dval (dict_get (tally ?key ?v ?es []) rid 0) = dval (dict_get ([] :: (string, decimal) dict) rid 0) + (\<Sum>e\<leftarrow>filter (\<lambda>e. ?key e = rid) ?es. dval (?v e))"
    using assms(1) by (intro tally_exact [OF _ _ bound]) auto
  then show "dval (dict_get (expected_receivables cash) rid 0) = (\<Sum>e\<leftarrow>filter (\<lambda>e. cs_receivable_id e = Some rid) cash. dval (?v e))"
    unfolding expected_receivables_def dict_get_filter_nonzero [OF d] unfolding fold_add_receivable same by simp
  show "distinct (dict_keys (expected_receivables cash))"
    using d by (simp add: expected_receivables_def dict_keys_def distinct_map_filter)
qed

section \<open>Properties\<close>

text \<open>
  C5. A state that reconciles is explained by its ledgers, with nothing missing and nothing extra:
  the arm has an opening snapshot of sequence zero, its sequence counts the fills and the
  settlements, every position is the opened one plus the bought less the sold quantity, its
  settled cash is the sum of the settled deltas, and every receivable it holds is the sum of the
  deltas recorded for it. Quantities lie on one grid and cash amounts on another, within 28
  digits.\<close>

theorem reconciled_state_explained:
  assumes "reconcile H l run_id arm_id state (Aware t) = Inr r" "reconciled_ok r" "distinct (dict_keys (as_positions state))"
    and "\<And>row s0. opening_row l run_id arm_id t = Some row \<Longrightarrow> from_payload (ss_payload_json row) = Inr s0 \<Longrightarrow>
      distinct (dict_keys (as_positions s0)) \<and> on_grid g (dval (dict_get (as_positions s0) symbol 0))
      \<and> \<bar>dval (dict_get (as_positions s0) symbol 0)\<bar> + (\<Sum>f\<leftarrow>checked_fills l run_id arm_id t. \<bar>dval (qf_quantity f)\<bar>) \<le> pow10 (g + int prec)"
    and "\<And>f. f \<in> set (checked_fills l run_id arm_id t) \<Longrightarrow> on_grid g (dval (qf_quantity f))"
    and "\<And>e. e \<in> set (checked_cash l run_id arm_id t) \<Longrightarrow> grid_event h e"
    and "gross_cash (checked_cash l run_id arm_id t) \<le> pow10 (h + int prec)"
  shows "\<exists>row s0. opening_row l run_id arm_id t = Some row \<and> from_payload (ss_payload_json row) = Inr s0 \<and> as_sequence s0 = 0
    \<and> as_sequence state = int (length (checked_fills l run_id arm_id t)
        + length (filter (\<lambda>e. cs_event_type e = RECEIVABLE_SETTLED) (checked_cash l run_id arm_id t)))
    \<and> dval (dict_get (as_positions state) symbol 0) = dval (dict_get (as_positions s0) symbol 0)
        + (\<Sum>f\<leftarrow>filter (\<lambda>f. qf_symbol f = symbol) (checked_fills l run_id arm_id t). signed_value f)
    \<and> dval (as_settled_cash_usd state) = (\<Sum>e\<leftarrow>checked_cash l run_id arm_id t. dval (cs_settled_cash_delta_usd e))
    \<and> dval (dict_get (actual_receivables state) rid 0)
        = (\<Sum>e\<leftarrow>filter (\<lambda>e. cs_receivable_id e = Some rid) (checked_cash l run_id arm_id t). dval (cs_unsettled_receivable_delta_usd e))"
proof -
  let ?fills = "checked_fills l run_id arm_id t" and ?cash = "checked_cash l run_id arm_id t"
  obtain s0 available where s0: "opening_state (opening_row l run_id arm_id t) state = (s0, available)"
    by (cases "opening_state (opening_row l run_id arm_id t) state")
  note ok = assms(2) [unfolded reconcile_ok_iff [OF assms(1) s0] ledger_unavailable_def position_or_cash_mismatch_def]
  then have "available" by blast
  then obtain row where row: "opening_row l run_id arm_id t = Some row" "from_payload (ss_payload_json row) = Inr s0"
    using s0 by (auto simp: opening_state_def split: option.splits sum.splits)
  note o = assms(4) [OF row]
  have "dval (dict_get (as_positions state) symbol 0) = dval (dict_get (positive_positions (as_positions state)) symbol 0)"
    using positive_positions_get(1) [OF assms(3)] by simp
  also have "\<dots> = dval (dict_get (expected_positions s0 ?fills) symbol 0)"
    using ok expected_positions_exact(2) [of s0 g symbol ?fills] o assms(5) positive_positions_get(2) [OF assms(3)]
    by (intro dict_d_eq_get [symmetric]) blast+
  also have "\<dots> = dval (dict_get (as_positions s0) symbol 0) + (\<Sum>f\<leftarrow>filter (\<lambda>f. qf_symbol f = symbol) ?fills. signed_value f)"
    using o assms(5) by (intro expected_positions_exact(1) [of s0 g]) blast+
  finally have pos: "dval (dict_get (as_positions state) symbol 0) = \<dots>" .
  have le: "(\<Sum>e\<leftarrow>?cash. \<bar>dval (cs_settled_cash_delta_usd e)\<bar>) \<le> gross_cash ?cash"
    "(\<Sum>e\<leftarrow>?cash. \<bar>dval (cs_unsettled_receivable_delta_usd e)\<bar>) \<le> gross_cash ?cash"
    unfolding gross_cash_def by (intro sum_list_mono; simp)+
  have "dval (as_settled_cash_usd state) = dval (dsum (map cs_settled_cash_delta_usd ?cash))"
    using ok by (simp add: dval_simps)
  also have "\<dots> = (\<Sum>e\<leftarrow>?cash. dval (cs_settled_cash_delta_usd e))"
    using dsum_exact(1) [of "map cs_settled_cash_delta_usd ?cash" h] assms(6,7) le(1) by (auto simp: grid_event_def comp_def)
  finally have settled: "dval (as_settled_cash_usd state) = \<dots>" .
  have grid: "\<And>e. e \<in> set ?cash \<Longrightarrow> on_grid h (dval (cs_unsettled_receivable_delta_usd e))" using assms(6) by (simp add: grid_event_def)
  note recv = expected_receivables_exact [OF grid order_trans [OF le(2) assms(7)]]
  have "dval (dict_get (actual_receivables state) rid 0) = dval (dict_get (expected_receivables ?cash) rid 0)"
    using ok recv(2) actual_receivables_get by (intro dict_d_eq_get [symmetric]) blast+
  then show ?thesis using row ok pos settled recv(1) [of rid] by (intro exI [of _ row] exI [of _ s0] conjI) simp_all
qed

text \<open>An arm that sold one of its two shares.\<close>

definition ex_sold_fill :: q1_fill where
  "ex_sold_fill =
     \<lparr>vr_algorithm_version = Q1_ALGORITHM_VERSION, vr_config_manifest_hash = ''cfg'',
      vr_code_version = ''code'', vr_model_version = ''model'', vr_source_manifest_hash = ''src'',
      qf_fill_id = ''f1'', qf_order_intent_id = ''o1'', qf_run_id = ''run'', qf_arm_id = Q1_DET,
      qf_source_cycle_id = ''cycle'', qf_quote_id = ''q1'', qf_quote_event_time = 20, qf_quote_available_at = 20,
      qf_symbol = ''QQQ'', qf_side = SELL, qf_quantity = D 1 0, qf_price = D 4005 (- 1), qf_commission_usd = D 35 (- 2),
      qf_cumulative_order_commission_usd = D 35 (- 2), qf_execution_scenario_id = ''base'', qf_base_fill_cost_usd = D 35 (- 2),
      qf_sensitivity_5bp_cost_usd = D 50 (- 2), qf_sensitivity_10bp_cost_usd = D 65 (- 2),
      qf_effective_at = 20, qf_created_at = 20, qf_fill_hash = ''hash''\<rparr>"

definition ex_sold_event :: order_event where
  "ex_sold_event =
     \<lparr>vr_algorithm_version = Q1_ALGORITHM_VERSION, vr_config_manifest_hash = ''cfg'',
      vr_code_version = ''code'', vr_model_version = ''model'', vr_source_manifest_hash = ''src'',
      oe_event_id = ''e2'', oe_order_intent_id = ''o1'', oe_event_type = FILLED, oe_event_sequence = 2,
      oe_quantity_delta = D 1 0, oe_commission_delta_usd = D 35 (- 2), oe_remaining_quantity = 0,
      oe_cumulative_filled_quantity = D 1 0, oe_cumulative_commission_usd = D 35 (- 2),
      oe_occurred_at = 20, oe_available_at = 20, oe_idempotency_key = ''k'', oe_reason = None, oe_source_id = Some ''f1'',
      oe_quote_id = None, oe_source_cycle_id = None, oe_worker_fence_token = ''fence'', oe_cycle_attempt_count = 1,
      oe_event_hash = ''hash''\<rparr>"

definition ex_sold_cash :: "cash_settlement_event list" where
  "ex_sold_cash =
     [example_cash_event ''c1'' OPENING_SETTLED_CASH None None (D 1000 0) 0 10,
      (example_cash_event ''c2'' SELL_RECEIVABLE_CREATED (Some ''r1'') (Some (2024, 1, 3)) 0 (D 40015 (- 2)) 20)
        \<lparr>cs_source_fill_id := Some ''f1''\<rparr>]"

definition ex_sold_arm :: q1_arm_state where
  "ex_sold_arm = ex_arm\<lparr>as_sequence := 1, as_positions := [(''QQQ'', D 1 0)],
     as_unsettled_receivables := [\<lparr>ur_receivable_id = ''r1'', ur_source_fill_id = ''f1'', ur_amount_usd = D 40015 (- 2),
       ur_settlement_date = (2024, 1, 3), ur_created_at = Aware 20\<rparr>]\<rparr>"

definition ex_sold_ledgers :: q1_ledgers where
  "ex_sold_ledgers =
     \<lparr>lg_states = [\<lparr>ss_arm_state_snapshot_id = ''s0'', ss_run_id = ''run'', ss_arm_id = ''Q1-DET'', ss_sequence = 0,
        ss_created_at = 10, ss_payload_json = as_payload ex_arm\<rparr>],
      lg_fills = [\<lparr>rf_fill_id = ''f1'', rf_fill_hash = Some ''hash'', rf_run_id = ''run'', rf_arm_id = ''Q1-DET'',
        rf_algorithm_version = Some Q1_ALGORITHM_VERSION, rf_effective_at = 20, rf_payload = Some ex_sold_fill\<rparr>],
      lg_cash = map (\<lambda>e. \<lparr>rc_cash_settlement_event_id = cs_cash_settlement_event_id e, rc_event_hash = cs_event_hash e,
        rc_run_id = cs_run_id e, rc_arm_id = arm_value (cs_arm_id e), rc_algorithm_version = vr_algorithm_version e,
        rc_effective_at = cs_effective_at e, rc_created_at = cs_created_at e, rc_payload = Some e\<rparr>) ex_sold_cash,
      lg_order_events = [\<lparr>ro_order_event_id = ''e2'', ro_run_id = ''run'', ro_arm_id = ''Q1-DET'',
        ro_algorithm_version = Q1_ALGORITHM_VERSION, ro_available_at = 20, ro_event_type = ''FILLED'',
        ro_payload = Some ex_sold_event\<rparr>]\<rparr>"

lemma ex_sold_rows:
  "opening_row ex_sold_ledgers ''run'' ''Q1-DET'' 30 = Some \<lparr>ss_arm_state_snapshot_id = ''s0'', ss_run_id = ''run'', ss_arm_id = ''Q1-DET'', ss_sequence = 0,
        ss_created_at = 10, ss_payload_json = as_payload ex_arm\<rparr>"
  "checked_fills ex_sold_ledgers ''run'' ''Q1-DET'' 30 = [ex_sold_fill]"
  "length (fill_rows ex_sold_ledgers ''run'' ''Q1-DET'' 30) = 1"
  "checked_fill_events ex_sold_ledgers ''run'' ''Q1-DET'' 30 = [ex_sold_event]"
  "length (fill_event_rows ex_sold_ledgers ''run'' ''Q1-DET'' 30) = 1"
  "checked_cash ex_sold_ledgers ''run'' ''Q1-DET'' 30 = ex_sold_cash"
  "length (cash_rows ex_sold_ledgers ''run'' ''Q1-DET'' 30) = 2"
proof -
  let ?l = ex_sold_ledgers
  show "opening_row ?l ''run'' ''Q1-DET'' 30 = Some \<lparr>ss_arm_state_snapshot_id = ''s0'', ss_run_id = ''run'', ss_arm_id = ''Q1-DET'', ss_sequence = 0,
        ss_created_at = 10, ss_payload_json = as_payload ex_arm\<rparr>"
    by (simp add: opening_row_def ex_sold_ledgers_def)
  have f: "lg_fills ?l = [\<lparr>rf_fill_id = ''f1'', rf_fill_hash = Some ''hash'', rf_run_id = ''run'', rf_arm_id = ''Q1-DET'',
        rf_algorithm_version = Some Q1_ALGORITHM_VERSION, rf_effective_at = 20, rf_payload = Some ex_sold_fill\<rparr>]"
    by (simp add: ex_sold_ledgers_def)
  show "checked_fills ?l ''run'' ''Q1-DET'' 30 = [ex_sold_fill]" "length (fill_rows ?l ''run'' ''Q1-DET'' 30) = 1"
    by (simp_all add: checked_fills_def fill_rows_def f known_fill_def List.map_filter_def) (simp add: ex_sold_fill_def)
  show "checked_fill_events ?l ''run'' ''Q1-DET'' 30 = [ex_sold_event]" "length (fill_event_rows ?l ''run'' ''Q1-DET'' 30) = 1"
    by (simp_all add: checked_fill_events_def fill_event_rows_def order_event_rows_def ex_sold_ledgers_def is_fill_row_def List.map_filter_def)
  have c: "lg_cash ?l = map (\<lambda>e. \<lparr>rc_cash_settlement_event_id = cs_cash_settlement_event_id e, rc_event_hash = cs_event_hash e,
        rc_run_id = cs_run_id e, rc_arm_id = arm_value (cs_arm_id e), rc_algorithm_version = vr_algorithm_version e,
        rc_effective_at = cs_effective_at e, rc_created_at = cs_created_at e, rc_payload = Some e\<rparr>) ex_sold_cash"
    by (simp add: ex_sold_ledgers_def)
  show "checked_cash ?l ''run'' ''Q1-DET'' 30 = ex_sold_cash" "length (cash_rows ?l ''run'' ''Q1-DET'' 30) = 2"
    unfolding checked_cash_def cash_rows_def c by code_simp+
qed

lemma ex_sold_reconciles:
  "reconcile H ex_sold_ledgers ''run'' ''Q1-DET'' ex_sold_arm (Aware 30) = Inr r \<Longrightarrow> reconciled_ok r"
proof -
  assume r: "reconcile H ex_sold_ledgers ''run'' ''Q1-DET'' ex_sold_arm (Aware 30) = Inr r"
  have s0: "opening_state (opening_row ex_sold_ledgers ''run'' ''Q1-DET'' 30) ex_sold_arm = (stored_state ex_arm, True)"
    using arm_round_trip [OF ex_arm_facts(1)] unfolding ex_sold_rows opening_state_def by (simp add: dates_ok_def ex_arm_def)
  have "\<not> ledger_unavailable (stored_state ex_arm) True ex_sold_cash"
    "\<not> position_or_cash_mismatch ex_sold_arm (stored_state ex_arm) [ex_sold_fill] ex_sold_cash"
    "\<not> negative_balance ex_sold_arm (stored_state ex_arm) [ex_sold_fill] ex_sold_cash"
    "\<not> unknown_fill [ex_sold_fill] [ex_sold_event] ex_sold_cash" "length ex_sold_cash = 2"
    by code_simp+
  then show ?thesis unfolding reconcile_ok_iff [OF r s0] ex_sold_rows by simp
qed

theorem reconciled_state_explained_witness:
  "dval (dict_get (as_positions ex_sold_arm) ''QQQ'' 0) = 1 \<and> dval (as_settled_cash_usd ex_sold_arm) = 1000
    \<and> dval (dict_get (actual_receivables ex_sold_arm) ''r1'' 0) = 40015 / 100"
proof -
  let ?l = ex_sold_ledgers
  obtain r where r: "reconcile (\<lambda>_. ''h'') ?l ''run'' ''Q1-DET'' ex_sold_arm (Aware 30) = Inr r"
    by (auto simp: reconcile_def Let_def split_def)
  have keys: "distinct (dict_keys (as_positions ex_sold_arm))" by (simp add: ex_sold_arm_def dict_keys_def)
  have payload: "from_payload (as_payload ex_arm) = Inr (stored_state ex_arm)"
    using arm_round_trip [OF ex_arm_facts(1)] by (simp add: dates_ok_def ex_arm_def)
  have pos: "as_positions (stored_state ex_arm) = [(''QQQ'', D 2 0)]" by code_simp
  have q: "dval (qf_quantity ex_sold_fill) = 1" by (simp add: ex_sold_fill_def dval_simps)
  have grid: "grid_event (- 2) e" if "e \<in> set ex_sold_cash" for e
    using that by (auto simp: ex_sold_cash_def example_cash_event_def grid_event_def dval_simps on_grid_def prec_def
        intro: exI [of _ 100000] exI [of _ 40015])
  have gross: "gross_cash ex_sold_cash \<le> pow10 (- 2 + int prec)"
    by (simp add: ex_sold_cash_def example_cash_event_def gross_cash_def dval_simps prec_def)
  have opened: "distinct (dict_keys (as_positions s0)) \<and> on_grid 0 (dval (dict_get (as_positions s0) ''QQQ'' 0))
      \<and> \<bar>dval (dict_get (as_positions s0) ''QQQ'' 0)\<bar> + (\<Sum>f\<leftarrow>checked_fills ?l ''run'' ''Q1-DET'' 30. \<bar>dval (qf_quantity f)\<bar>) \<le> pow10 (0 + int prec)"
    if "opening_row ?l ''run'' ''Q1-DET'' 30 = Some row" "from_payload (ss_payload_json row) = Inr s0" for row s0
  proof -
    have "s0 = stored_state ex_arm" using that payload unfolding ex_sold_rows by auto
    then show ?thesis unfolding ex_sold_rows using pos q
      by (auto simp: dict_keys_def dict_get_def dval_simps on_grid_def prec_def intro: exI [of _ 2])
  qed
  have quantities: "on_grid 0 (dval (qf_quantity f))" if "f \<in> set (checked_fills ?l ''run'' ''Q1-DET'' 30)" for f
    using that q unfolding ex_sold_rows by (auto simp: on_grid_def intro: exI [of _ 1])
  from reconciled_state_explained [where rid = "''r1''", OF r ex_sold_reconciles [OF r] keys opened quantities grid [folded ex_sold_rows(6)] gross [folded ex_sold_rows(6)]]
  show ?thesis using payload pos q unfolding ex_sold_rows
    by (auto simp: ex_sold_cash_def example_cash_event_def signed_value_def ex_sold_fill_def dict_get_def dval_simps)
qed

end
