(* ===== verification/Repository.thy ===== *)
theory Repository
  imports Order_State Settlement Arm_Payload Decision
begin

text \<open>
  The append-only repositories of \<^verbatim>\<open>persistence/q1.py\<close> and \<^verbatim>\<open>persistence/q1_runtime.py\<close>: order intents,
  order events, fills, cash events and arm states, behind the lease of a cycle. A table is the
  list of its rows in the order of their insertion; where a column repeats a field of the stored
  record, the row holds the record. \<^verbatim>\<open>session.get\<close> and \<^verbatim>\<open>session.scalar\<close> return the first row that
  matches, \<^verbatim>\<open>session.add\<close> appends a row, and the unique constraints of \<^verbatim>\<open>persistence/models.py\<close> are
  checked there (the session checks them at its next flush, in the same transaction). Amounts are
  assumed to fit the columns, which keep ten decimals. Shown: appends are idempotent and never
  change a row, a worker without the lease adds nothing, and the repository accepts of an order
  what its reducer accepts.
\<close>

section \<open>Cycles and leases\<close>

record paper_cycle_row =
  cy_cycle_id :: string
  cy_status :: string
  cy_lease_owner :: "string option"
  cy_lease_expires_at :: "datetime option"
  cy_attempt_count :: int
  cy_data_available_cutoff :: "datetime option"
  cy_input_manifest_hash :: "string option"
  cy_output_manifest_hash :: "string option"
  cy_completed_at :: "datetime option"
  cy_last_error_code :: "string option"
  cy_last_error_detail :: "string option"
  cy_updated_at :: datetime

text \<open>The dialect of the database; PostgreSQL has a clock, which may be unavailable.\<close>

datatype database = Other_Dialect | PostgreSQL "instant option"

fun aware_utc :: "datetime \<Rightarrow> instant" where
  "aware_utc (Naive t) = t"
| "aware_utc (Aware t) = t"

definition lease_held :: "paper_cycle_row \<Rightarrow> string \<Rightarrow> int \<Rightarrow> instant \<Rightarrow> bool" where
  "lease_held cycle lease_owner attempt_count now \<longleftrightarrow>
     cy_status cycle = ''RUNNING'' \<and> cy_lease_owner cycle = Some lease_owner \<and> cy_attempt_count cycle = attempt_count
     \<and> (case cy_lease_expires_at cycle of None \<Rightarrow> False | Some d \<Rightarrow> now < aware_utc d)"

text \<open>The fence of the repositories, and the one of the runtime.\<close>

definition repository_fence ::
  "database \<Rightarrow> paper_cycle_row list \<Rightarrow> string \<Rightarrow> string \<Rightarrow> int \<Rightarrow> instant \<Rightarrow> paper_cycle_row result" where
  "repository_fence db cycles cycle_id lease_owner attempt_count fallback_now =
     (case List.find (\<lambda>c. cy_cycle_id c = cycle_id) cycles of
        None \<Rightarrow> Inl (Q1CycleFenceError ''Unknown source cycle'')
      | Some cycle \<Rightarrow>
          rbind (case db of
              Other_Dialect \<Rightarrow> Inr fallback_now
            | PostgreSQL None \<Rightarrow> Inl (Q1CycleFenceError ''PostgreSQL database clock is unavailable'')
            | PostgreSQL (Some t) \<Rightarrow> Inr t) (\<lambda>now.
          if lease_held cycle lease_owner attempt_count now then Inr cycle
          else Inl (Q1CycleFenceError ''Cycle lease is not owned'')))"

definition require_cycle_fence ::
  "database \<Rightarrow> paper_cycle_row list \<Rightarrow> string \<Rightarrow> string \<Rightarrow> int \<Rightarrow> datetime \<Rightarrow> paper_cycle_row result" where
  "require_cycle_fence db cycles cycle_id lease_owner attempt_count fallback_now =
     (case List.find (\<lambda>c. cy_cycle_id c = cycle_id) cycles of
        None \<Rightarrow> Inl (Q1StaleWorkerError ''Unknown Q1 cycle'')
      | Some cycle \<Rightarrow>
          rbind (require_aware_utc ''datetime'' fallback_now) (\<lambda>instant.
          rbind (case db of
              Other_Dialect \<Rightarrow> Inr instant
            | PostgreSQL None \<Rightarrow> Inl (Q1RuntimePersistenceError ''PostgreSQL database clock is unavailable'')
            | PostgreSQL (Some t) \<Rightarrow> Inr t) (\<lambda>now.
          if lease_held cycle lease_owner attempt_count now then Inr cycle
          else Inl (Q1StaleWorkerError ''Q1 cycle lease was lost or reclaimed''))))"

definition complete_fenced_cycle ::
  "digest \<Rightarrow> datetime \<Rightarrow> pyval \<Rightarrow> pyval \<Rightarrow> datetime \<Rightarrow> paper_cycle_row \<Rightarrow> paper_cycle_row result" where
  "complete_fenced_cycle H cutoff input_manifest output_manifest completed_at cycle =
     rbind (require_aware_utc ''datetime'' completed_at) (\<lambda>instant.
     rbind (require_aware_utc ''datetime'' cutoff) (\<lambda>cut.
     Inr (cycle\<lparr>cy_data_available_cutoff := Some (Aware cut),
       cy_input_manifest_hash := Some (canonical_hash H input_manifest),
       cy_output_manifest_hash := Some (canonical_hash H output_manifest), cy_status := ''COMPLETED'',
       cy_completed_at := Some (Aware instant), cy_lease_owner := None, cy_lease_expires_at := None,
       cy_last_error_code := None, cy_last_error_detail := None, cy_updated_at := Aware instant\<rparr>)))"

section \<open>The tables\<close>

record order_intent_row =
  or_order_intent_id :: string
  or_run_id :: string
  or_arm_id :: string
  or_quantity :: "decimal option"
  or_created_at :: "instant option"
  or_algorithm_version :: "string option"
  or_idempotency_key :: string
  or_intent_hash :: string
  or_payload :: "q1_order_intent option"

text \<open>An order event with the run and the arm of its intent.\<close>

record stored_order_event =
  se_run_id :: string
  se_arm_id :: string
  se_event :: order_event

record stored_arm_state =
  sn_arm_state_snapshot_id :: string
  sn_run_id :: string
  sn_arm_id :: string
  sn_sequence :: int
  sn_source_cycle_id :: string
  sn_state_hash :: string
  sn_payload_json :: payload
  sn_created_at :: instant

record q1_store =
  st_cycles :: "paper_cycle_row list"
  st_intents :: "order_intent_row list"
  st_order_events :: "stored_order_event list"
  st_fills :: "q1_fill list"
  st_cash :: "cash_settlement_event list"
  st_arm_states :: "stored_arm_state list"

text \<open>A row that violates a unique constraint is not added.\<close>

definition add_row :: "('r \<Rightarrow> 'r \<Rightarrow> bool) \<Rightarrow> 'r \<Rightarrow> 'r list \<Rightarrow> 'r list result" where
  "add_row clash row rows =
     (if list_ex (clash row) rows then Inl (IntegrityError ''unique constraint'') else Inr (rows @ [row]))"

section \<open>Order intents\<close>

definition intent_row :: "q1_order_intent \<Rightarrow> order_intent_row" where
  "intent_row i =
     \<lparr>or_order_intent_id = oi_order_intent_id i, or_run_id = oi_run_id i, or_arm_id = arm_value (oi_arm_id i),
      or_quantity = Some (oi_quantity i), or_created_at = Some (oi_created_at i),
      or_algorithm_version = Some (vr_algorithm_version i), or_idempotency_key = oi_idempotency_key i,
      or_intent_hash = oi_intent_hash i, or_payload = Some i\<rparr>"

definition append_order_intent :: "q1_order_intent \<Rightarrow> q1_store \<Rightarrow> (order_intent_row \<times> q1_store) result" where
  "append_order_intent i st =
     (case List.find (\<lambda>r. or_idempotency_key r = oi_idempotency_key i) (st_intents st) of
        Some existing \<Rightarrow>
          if or_intent_hash existing \<noteq> oi_intent_hash i
          then Inl (Q1RuntimePersistenceError ''Q1 intent idempotency conflict'')
          else Inr (existing, st)
      | None \<Rightarrow>
          rbind (add_row (\<lambda>r s. or_order_intent_id r = or_order_intent_id s \<or> or_idempotency_key r = or_idempotency_key s)
              (intent_row i) (st_intents st)) (\<lambda>rows.
          Inr (intent_row i, st\<lparr>st_intents := rows\<rparr>)))"

section \<open>Order events\<close>

definition latest_for_order :: "string \<Rightarrow> instant option \<Rightarrow> stored_order_event list \<Rightarrow> stored_order_event option" where
  "latest_for_order order_intent_id as_of rows =
     (let matching = filter (\<lambda>r. oe_order_intent_id (se_event r) = order_intent_id
            \<and> (case as_of of None \<Rightarrow> True | Some t \<Rightarrow> oe_available_at (se_event r) \<le> t)) rows in
      if matching = [] then None
      else Some (last (sort_key (\<lambda>r. (oe_event_sequence (se_event r), oe_event_id (se_event r))) matching)))"

definition validate_order_transition :: "order_event \<Rightarrow> order_intent_row \<Rightarrow> order_event option \<Rightarrow> unit result" where
  "validate_order_transition e intent latest =
     (case or_quantity intent of
        None \<Rightarrow> Inl (Q1PersistenceConflict ''Q1 order intent requires typed quantity'')
      | Some quantity \<Rightarrow>
     (case latest of
        None \<Rightarrow>
          if oe_event_sequence e \<noteq> 1 \<or> oe_event_type e \<noteq> CREATED
          then Inl (Q1PersistenceConflict ''First order event must be CREATED sequence 1'')
          else if \<not> d_eq (oe_quantity_delta e) 0 \<or> \<not> d_eq (oe_cumulative_filled_quantity e) 0
             \<or> \<not> d_eq (oe_cumulative_commission_usd e) 0 \<or> \<not> d_eq (oe_remaining_quantity e) quantity
          then Inl (Q1PersistenceConflict ''CREATED event quantities do not match intent'')
          else Inr ()
      | Some l \<Rightarrow>
          if is_terminal_order_event (oe_event_type l)
          then Inl (Q1PersistenceConflict ''Terminal order cannot accept another event'')
          else if oe_event_sequence e \<noteq> oe_event_sequence l + 1
          then Inl (Q1PersistenceConflict ''Order event sequence is not contiguous'')
          else
            let fill = is_fill_type (oe_event_type e);
                expected_fill = (if fill then oe_cumulative_filled_quantity l + oe_quantity_delta e
                  else oe_cumulative_filled_quantity l);
                expected_remaining = (if fill then oe_remaining_quantity l - oe_quantity_delta e
                  else oe_remaining_quantity l) in
            if \<not> d_eq (oe_cumulative_filled_quantity e) expected_fill
            then Inl (Q1PersistenceConflict ''Order cumulative fill is inconsistent'')
            else if \<not> d_eq (oe_remaining_quantity e) expected_remaining
            then Inl (Q1PersistenceConflict ''Order remaining quantity is inconsistent'')
            else if \<not> d_eq (oe_cumulative_commission_usd e) (oe_cumulative_commission_usd l + oe_commission_delta_usd e)
            then Inl (Q1PersistenceConflict ''Order cumulative commission is inconsistent'')
            else Inr ()))"

text \<open>The constraints of \<^verbatim>\<open>order_events\<close>: primary key, idempotency key, sequence per order.\<close>

definition event_clash :: "stored_order_event \<Rightarrow> stored_order_event \<Rightarrow> bool" where
  "event_clash r s \<longleftrightarrow>
     oe_event_id (se_event r) = oe_event_id (se_event s)
     \<or> oe_idempotency_key (se_event r) = oe_idempotency_key (se_event s)
     \<or> oe_order_intent_id (se_event r) = oe_order_intent_id (se_event s)
        \<and> oe_event_sequence (se_event r) = oe_event_sequence (se_event s)"

definition store_order_event :: "database \<Rightarrow> order_event \<Rightarrow> q1_store \<Rightarrow> (stored_order_event \<times> q1_store) result" where
  "store_order_event db e st =
     (case List.find (\<lambda>r. oe_idempotency_key (se_event r) = oe_idempotency_key e) (st_order_events st) of
        Some existing \<Rightarrow>
          if oe_event_hash (se_event existing) \<noteq> oe_event_hash e
          then Inl (Q1PersistenceConflict ''Order-event idempotency key has different immutable content'')
          else Inr (existing, st)
      | None \<Rightarrow>
     (case oe_source_cycle_id e of
        None \<Rightarrow> Inl (Q1CycleFenceError ''Q1 order events require a source cycle'')
      | Some cycle_id \<Rightarrow>
          rbind (repository_fence db (st_cycles st) cycle_id (oe_worker_fence_token e) (oe_cycle_attempt_count e)
              (oe_available_at e)) (\<lambda>_.
          case List.find (\<lambda>r. or_order_intent_id r = oe_order_intent_id e) (st_intents st) of
            None \<Rightarrow> Inl (Q1PersistenceConflict ''Unknown order intent'')
          | Some intent \<Rightarrow>
              rbind (validate_order_transition e intent
                  (map_option se_event (latest_for_order (oe_order_intent_id e) None (st_order_events st)))) (\<lambda>_.
              let row = \<lparr>se_run_id = or_run_id intent, se_arm_id = or_arm_id intent, se_event = e\<rparr> in
              rbind (if oe_remaining_quantity e < 0 then Inl (IntegrityError ''check constraint'')
                  else add_row event_clash row (st_order_events st)) (\<lambda>rows.
              Inr (row, st\<lparr>st_order_events := rows\<rparr>))))))"

section \<open>Fills\<close>

definition append_fill :: "q1_fill \<Rightarrow> q1_store \<Rightarrow> (q1_fill \<times> q1_store) result" where
  "append_fill f st =
     (case List.find (\<lambda>r. qf_fill_id r = qf_fill_id f) (st_fills st) of
        Some existing \<Rightarrow>
          if qf_fill_hash existing \<noteq> qf_fill_hash f
          then Inl (Q1RuntimePersistenceError ''Q1 fill identity conflict'')
          else Inr (existing, st)
      | None \<Rightarrow>
     (case List.find (\<lambda>r. qf_order_intent_id r = qf_order_intent_id f \<and> qf_quote_id r = qf_quote_id f
            \<and> qf_execution_scenario_id r = qf_execution_scenario_id f) (st_fills st) of
        Some duplicate \<Rightarrow>
          if qf_fill_hash duplicate \<noteq> qf_fill_hash f
          then Inl (Q1RuntimePersistenceError ''Order/quote/scenario already produced a different fill'')
          else Inr (duplicate, st)
      | None \<Rightarrow> Inr (f, st\<lparr>st_fills := st_fills st @ [f]\<rparr>)))"

section \<open>Cash events\<close>

definition same_receivable :: "cash_settlement_event \<Rightarrow> cash_settlement_event \<Rightarrow> bool" where
  "same_receivable e r \<longleftrightarrow>
     cs_receivable_id e \<noteq> None \<and> cs_receivable_id r = cs_receivable_id e \<and> cs_event_type r = cs_event_type e"

definition same_fill :: "cash_settlement_event \<Rightarrow> cash_settlement_event \<Rightarrow> bool" where
  "same_fill e r \<longleftrightarrow>
     cs_source_fill_id e \<noteq> None \<and> cs_source_fill_id r = cs_source_fill_id e \<and> cs_event_type r = cs_event_type e"

definition identity_match :: "cash_settlement_event \<Rightarrow> cash_settlement_event list \<Rightarrow> cash_settlement_event option" where
  "identity_match e rows =
     (case List.find (same_receivable e) rows of
        None \<Rightarrow> List.find (same_fill e) rows
      | Some r \<Rightarrow> Some r)"

definition store_cash_event ::
  "database \<Rightarrow> cash_settlement_event \<Rightarrow> q1_store \<Rightarrow> (cash_settlement_event \<times> q1_store) result" where
  "store_cash_event db e st =
     (case List.find (\<lambda>r. cs_idempotency_key r = cs_idempotency_key e) (st_cash st) of
        Some existing \<Rightarrow>
          if cs_event_hash existing \<noteq> cs_event_hash e
          then Inl (Q1PersistenceConflict ''Settlement idempotency key has different immutable content'')
          else Inr (existing, st)
      | None \<Rightarrow>
     (case identity_match e (st_cash st) of
        Some r \<Rightarrow>
          if cs_event_hash r \<noteq> cs_event_hash e
          then Inl (Q1PersistenceConflict ''Settlement economic identity has different immutable content'')
          else Inr (r, st)
      | None \<Rightarrow>
          rbind (repository_fence db (st_cycles st) (cs_source_cycle_id e) (cs_worker_fence_token e)
              (cs_cycle_attempt_count e) (cs_created_at e)) (\<lambda>_.
          rbind (add_row (\<lambda>r s. cs_cash_settlement_event_id r = cs_cash_settlement_event_id s) e (st_cash st)) (\<lambda>rows.
          Inr (e, st\<lparr>st_cash := rows\<rparr>)))))"

text \<open>The sum of a numeric column is exact; of no rows it is zero.\<close>

definition exact_add :: "decimal \<Rightarrow> decimal \<Rightarrow> decimal" where
  "exact_add a b = (case align a b of (x, y) \<Rightarrow> mkdec False (x + y) (min (dexp a) (dexp b)))"

definition column_sum :: "decimal list \<Rightarrow> decimal" where
  "column_sum xs = foldl exact_add 0 xs"

record cash_balance_projection =
  cp_settled_cash_usd :: decimal
  cp_unsettled_receivables_usd :: decimal

definition projected_total_cash_usd :: "cash_balance_projection \<Rightarrow> decimal" where
  "projected_total_cash_usd p = cp_settled_cash_usd p + cp_unsettled_receivables_usd p"

definition stored_balances :: "string \<Rightarrow> string \<Rightarrow> instant \<Rightarrow> q1_store \<Rightarrow> cash_balance_projection" where
  "stored_balances run_id arm_id as_of st =
     (let rows = filter (\<lambda>e. cs_run_id e = run_id \<and> arm_value (cs_arm_id e) = arm_id
            \<and> cs_effective_at e \<le> as_of \<and> cs_created_at e \<le> as_of) (st_cash st) in
      \<lparr>cp_settled_cash_usd = column_sum (map cs_settled_cash_delta_usd rows),
       cp_unsettled_receivables_usd = column_sum (map cs_unsettled_receivable_delta_usd rows)\<rparr>)"

section \<open>Arm states\<close>

text \<open>A payload as a Python value.\<close>

fun py_of :: "cval \<Rightarrow> pyval" where
  "py_of CNull = VNone"
| "py_of (CBool b) = VBool b"
| "py_of (CInt i) = VInt i"
| "py_of (CStr s) = VStr s"
| "py_of (CList xs) = VList (map py_of xs)"
| "py_of (CDict kvs) = VDict (map (\<lambda>(k, v). (k, py_of v)) kvs)"

definition latest_arm_row :: "string \<Rightarrow> string \<Rightarrow> stored_arm_state list \<Rightarrow> stored_arm_state option" where
  "latest_arm_row run_id arm_id rows =
     (let matching = filter (\<lambda>r. sn_run_id r = run_id \<and> sn_arm_id r = arm_id) rows in
      if matching = [] then None
      else Some (last (sort_key (\<lambda>r. (sn_sequence r, sn_arm_state_snapshot_id r)) matching)))"

definition latest_arm_state :: "string \<Rightarrow> string \<Rightarrow> q1_store \<Rightarrow> q1_arm_state option result" where
  "latest_arm_state run_id arm_id st =
     (case latest_arm_row run_id arm_id (st_arm_states st) of
        None \<Rightarrow> Inr None
      | Some row \<Rightarrow> rbind (from_payload (sn_payload_json row)) (\<lambda>s. Inr (Some s)))"

definition arm_state_row :: "digest \<Rightarrow> string \<Rightarrow> q1_arm_state \<Rightarrow> string \<Rightarrow> instant \<Rightarrow> stored_arm_state" where
  "arm_state_row H run_id state source_cycle_id instant =
     (let payload = as_payload state;
          state_hash = canonical_hash H (py_of (CDict payload)) in
      \<lparr>sn_arm_state_snapshot_id = stable_id H ''q1-arm-state''
         [VStr run_id, VStr (as_arm_id state), VInt (as_sequence state), VStr source_cycle_id, VStr state_hash],
       sn_run_id = run_id, sn_arm_id = as_arm_id state, sn_sequence = as_sequence state,
       sn_source_cycle_id = source_cycle_id, sn_state_hash = state_hash, sn_payload_json = payload,
       sn_created_at = instant\<rparr>)"

definition append_arm_state ::
  "digest \<Rightarrow> string \<Rightarrow> q1_arm_state \<Rightarrow> string \<Rightarrow> datetime \<Rightarrow> int option \<Rightarrow> q1_store
    \<Rightarrow> (stored_arm_state \<times> q1_store) result" where
  "append_arm_state H run_id state source_cycle_id created_at expected_previous_sequence st =
     rbind (require_aware_utc ''datetime'' created_at) (\<lambda>instant.
     rbind (latest_arm_state run_id (as_arm_id state) st) (\<lambda>current.
     if map_option as_sequence current \<noteq> expected_previous_sequence
     then Inl (Q1RuntimePersistenceError ''Arm state changed during Q1 preparation'')
     else if as_sequence state \<noteq> (case current of None \<Rightarrow> 0 | Some s \<Rightarrow> as_sequence s + 1)
     then Inl (Q1RuntimePersistenceError ''Arm sequence must advance'')
     else
       let row = arm_state_row H run_id state source_cycle_id instant in
       (case List.find (\<lambda>r. sn_arm_state_snapshot_id r = sn_arm_state_snapshot_id row) (st_arm_states st) of
          Some existing \<Rightarrow>
            if sn_state_hash existing \<noteq> sn_state_hash row
            then Inl (Q1RuntimePersistenceError ''Q1 arm-state identity conflict'')
            else Inr (existing, st)
        | None \<Rightarrow>
            rbind (add_row (\<lambda>r s. sn_run_id r = sn_run_id s \<and> sn_arm_id r = sn_arm_id s \<and> sn_sequence r = sn_sequence s)
                row (st_arm_states st)) (\<lambda>rows.
            Inr (row, st\<lparr>st_arm_states := rows\<rparr>)))))"

section \<open>The contract of an append\<close>

text \<open>
  What the repositories share: an append returns a row of the table, leaves the table as it is or
  adds that row at its end, and once accepted is answered with the same row again, whatever has
  been added since and whatever the clock and the leases are by then.
\<close>

locale append_only =
  fixes append :: "'c \<Rightarrow> 'x \<Rightarrow> 's \<Rightarrow> ('r \<times> 's) result"
    and rows :: "'s \<Rightarrow> 'r list"
    and compatible :: "'x \<Rightarrow> 'r list \<Rightarrow> bool"
  assumes grows: "append c x s = Inr (r, s') \<Longrightarrow> s' = s \<and> r \<in> set (rows s) \<or> rows s' = rows s @ [r]"
    and again: "append c x s = Inr (r, s') \<Longrightarrow> rows s'' = rows s' @ ys \<Longrightarrow> compatible x (rows s'') \<Longrightarrow> append c' x s'' = Inr (r, s'')"
begin

abbreviation append_all :: "'c \<Rightarrow> 'x list \<Rightarrow> 's \<Rightarrow> 's result" where
  "append_all c \<equiv> rfold (\<lambda>x s. rbind (append c x s) (\<lambda>p. Inr (snd p)))"

lemma append_all_grows: "append_all c xs s = Inr s' \<Longrightarrow> \<exists>ys. rows s' = rows s @ ys"
proof (induction xs arbitrary: s)
  case (Cons x xs)
  then obtain r s1 where s1: "append c x s = Inr (r, s1)" "append_all c xs s1 = Inr s'" by (auto simp: result_simps)
  from grows [OF s1(1)] Cons.IH [OF s1(2)] show ?case by auto
qed simp

text \<open>A batch that went through can be sent again as a whole.\<close>

lemma append_all_again:
  "append_all c xs s = Inr s' \<Longrightarrow> rows s'' = rows s' @ ys \<Longrightarrow> (\<And>x. x \<in> set xs \<Longrightarrow> compatible x (rows s'')) \<Longrightarrow> append_all c' xs s'' = Inr s''"
proof (induction xs arbitrary: s)
  case (Cons x xs)
  then obtain r s1 where s1: "append c x s = Inr (r, s1)" "append_all c xs s1 = Inr s'" by (auto simp: result_simps)
  from append_all_grows [OF s1(2)] obtain zs where "rows s' = rows s1 @ zs" by blast
  then have "append c' x s'' = Inr (r, s'')" using again [OF s1(1), of s'' "zs @ ys" c'] Cons.prems(2,3) by simp
  moreover have "append_all c' xs s'' = Inr s''" using Cons.IH [OF s1(2) Cons.prems(2)] Cons.prems(3) by simp
  ultimately show ?case by simp
qed simp

text \<open>An accepted row stays.\<close>

lemma row_stays: "append c x s = Inr (r, s') \<Longrightarrow> append_all c xs s' = Inr s'' \<Longrightarrow> r \<in> set (rows s'')"
  using grows [of c x s r s'] append_all_grows [of c xs s' s''] by auto

end

lemma find_append: "List.find P (xs @ ys) = (case List.find P xs of None \<Rightarrow> List.find P ys | Some x \<Rightarrow> Some x)"
  by (induction xs) auto

lemma find_SomeD: "List.find P xs = Some x \<Longrightarrow> x \<in> set xs \<and> P x"
  by (auto simp: find_Some_iff)

lemma append_order_intent_Inr:
  "append_order_intent i st = Inr (r, st') \<longleftrightarrow>
     (case List.find (\<lambda>r. or_idempotency_key r = oi_idempotency_key i) (st_intents st) of
        Some existing \<Rightarrow> or_intent_hash existing = oi_intent_hash i \<and> r = existing \<and> st' = st
      | None \<Rightarrow> oi_order_intent_id i \<notin> set (map or_order_intent_id (st_intents st)) \<and> r = intent_row i
          \<and> st' = st\<lparr>st_intents := st_intents st @ [r]\<rparr>)"
proof (cases "List.find (\<lambda>r. or_idempotency_key r = oi_idempotency_key i) (st_intents st)")
  case None
  then have "\<forall>s\<in>set (st_intents st). oi_idempotency_key i \<noteq> or_idempotency_key s" by (auto simp: find_None_iff)
  then have "list_ex (\<lambda>s. or_order_intent_id (intent_row i) = or_order_intent_id s \<or> or_idempotency_key (intent_row i) = or_idempotency_key s)
      (st_intents st) \<longleftrightarrow> oi_order_intent_id i \<in> set (map or_order_intent_id (st_intents st))"
    by (auto simp: list_ex_iff intent_row_def)
  then show ?thesis using None by (auto simp: append_order_intent_def result_simps add_row_def)
qed (auto simp: append_order_intent_def)

interpretation intent_table: append_only "\<lambda>_ :: unit. append_order_intent" st_intents "\<lambda>_ _. True"
proof
  fix x s r s'
  assume a: "append_order_intent x s = Inr (r, s')"
  then show "s' = s \<and> r \<in> set (st_intents s) \<or> st_intents s' = st_intents s @ [r]"
    by (auto simp: append_order_intent_Inr split: option.splits dest: find_SomeD)
  fix s'' :: q1_store and ys
  assume "st_intents s'' = st_intents s' @ ys"
  then show "append_order_intent x s'' = Inr (r, s'')"
    using a by (auto simp: append_order_intent_Inr find_append intent_row_def split: option.splits)
qed

lemma store_order_event_Inr:
  "store_order_event db e st = Inr (r, st') \<longleftrightarrow>
     (case List.find (\<lambda>r. oe_idempotency_key (se_event r) = oe_idempotency_key e) (st_order_events st) of
        Some existing \<Rightarrow> oe_event_hash (se_event existing) = oe_event_hash e \<and> r = existing \<and> st' = st
      | None \<Rightarrow> (\<exists>c cycle intent. oe_source_cycle_id e = Some c
          \<and> repository_fence db (st_cycles st) c (oe_worker_fence_token e) (oe_cycle_attempt_count e) (oe_available_at e) = Inr cycle
          \<and> List.find (\<lambda>r. or_order_intent_id r = oe_order_intent_id e) (st_intents st) = Some intent
          \<and> validate_order_transition e intent
              (map_option se_event (latest_for_order (oe_order_intent_id e) None (st_order_events st))) = Inr ()
          \<and> 0 \<le> dval (oe_remaining_quantity e) \<and> \<not> list_ex (event_clash r) (st_order_events st)
          \<and> r = \<lparr>se_run_id = or_run_id intent, se_arm_id = or_arm_id intent, se_event = e\<rparr>
          \<and> st' = st\<lparr>st_order_events := st_order_events st @ [r]\<rparr>))"
  by (auto simp: store_order_event_def result_simps add_row_def Let_def dval_simps not_less split: option.splits if_splits)

interpretation order_table: append_only store_order_event st_order_events "\<lambda>_ _. True"
proof
  fix db x s r s'
  assume a: "store_order_event db x s = Inr (r, s')"
  then show "s' = s \<and> r \<in> set (st_order_events s) \<or> st_order_events s' = st_order_events s @ [r]"
    by (auto simp: store_order_event_Inr split: option.splits dest: find_SomeD)
  fix s'' :: q1_store and ys db'
  assume "st_order_events s'' = st_order_events s' @ ys"
  then show "store_order_event db' x s'' = Inr (r, s'')"
    using a by (auto simp: store_order_event_Inr find_append split: option.splits)
qed

text \<open>Fills and cash events with the same content have the same key, since the hash covers it.\<close>

definition same_fill_key :: "q1_fill \<Rightarrow> q1_fill list \<Rightarrow> bool" where
  "same_fill_key f rows \<longleftrightarrow> (\<forall>r\<in>set rows. qf_fill_hash r = qf_fill_hash f \<longrightarrow> qf_fill_id r = qf_fill_id f)"

definition same_cash_key :: "cash_settlement_event \<Rightarrow> cash_settlement_event list \<Rightarrow> bool" where
  "same_cash_key e rows \<longleftrightarrow> (\<forall>r\<in>set rows. cs_event_hash r = cs_event_hash e \<longrightarrow> cs_idempotency_key r = cs_idempotency_key e)"

lemma append_fill_found:
  assumes "append_fill f st = Inr (r, st')" "same_fill_key f (st_fills st')"
  shows "List.find (\<lambda>r. qf_fill_id r = qf_fill_id f) (st_fills st') = Some r \<and> qf_fill_hash r = qf_fill_hash f"
proof (cases "List.find (\<lambda>r. qf_fill_id r = qf_fill_id f) (st_fills st)")
  case None
  let ?same = "\<lambda>r. qf_order_intent_id r = qf_order_intent_id f \<and> qf_quote_id r = qf_quote_id f
    \<and> qf_execution_scenario_id r = qf_execution_scenario_id f"
  show ?thesis
  proof (cases "List.find ?same (st_fills st)")
    case (Some d)
    then have "qf_fill_hash d = qf_fill_hash f" "st' = st" "d \<in> set (st_fills st)"
      using assms(1) None find_SomeD [OF Some] by (auto simp: append_fill_def split: if_splits)
    then have "qf_fill_id d = qf_fill_id f" using assms(2) by (simp add: same_fill_key_def)
    then show ?thesis using None \<open>d \<in> set (st_fills st)\<close> by (simp add: find_None_iff)
  qed (use assms(1) None in \<open>auto simp: append_fill_def find_append\<close>)
qed (use assms(1) in \<open>auto simp: append_fill_def split: if_splits\<close>)

interpretation fill_table: append_only "\<lambda>_ :: unit. append_fill" st_fills same_fill_key
proof
  fix x s r s'
  assume a: "append_fill x s = Inr (r, s')"
  then show "s' = s \<and> r \<in> set (st_fills s) \<or> st_fills s' = st_fills s @ [r]"
    by (auto simp: append_fill_def split: option.splits if_splits dest: find_SomeD)
  fix s'' :: q1_store and ys
  assume s'': "st_fills s'' = st_fills s' @ ys" "same_fill_key x (st_fills s'')"
  then have "same_fill_key x (st_fills s')" by (simp add: same_fill_key_def)
  from append_fill_found [OF a this] s'' show "append_fill x s'' = Inr (r, s'')"
    by (simp add: append_fill_def find_append)
qed

lemma store_cash_event_Inr:
  "store_cash_event db e st = Inr (r, st') \<longleftrightarrow>
     (case List.find (\<lambda>r. cs_idempotency_key r = cs_idempotency_key e) (st_cash st) of
        Some existing \<Rightarrow> cs_event_hash existing = cs_event_hash e \<and> r = existing \<and> st' = st
      | None \<Rightarrow>
     (case identity_match e (st_cash st) of
        Some m \<Rightarrow> cs_event_hash m = cs_event_hash e \<and> r = m \<and> st' = st
      | None \<Rightarrow> (\<exists>cycle. repository_fence db (st_cycles st) (cs_source_cycle_id e) (cs_worker_fence_token e)
              (cs_cycle_attempt_count e) (cs_created_at e) = Inr cycle)
          \<and> cs_cash_settlement_event_id e \<notin> set (map cs_cash_settlement_event_id (st_cash st))
          \<and> r = e \<and> st' = st\<lparr>st_cash := st_cash st @ [e]\<rparr>))"
  by (auto simp: store_cash_event_def result_simps add_row_def list_ex_iff split: option.splits)

lemma identity_matchD: "identity_match e rows = Some r \<Longrightarrow> r \<in> set rows"
  by (auto simp: identity_match_def split: option.splits dest: find_SomeD)

lemma store_cash_event_found:
  assumes "store_cash_event db e st = Inr (r, st')" "same_cash_key e (st_cash st')"
  shows "List.find (\<lambda>r. cs_idempotency_key r = cs_idempotency_key e) (st_cash st') = Some r \<and> cs_event_hash r = cs_event_hash e"
proof (cases "List.find (\<lambda>r. cs_idempotency_key r = cs_idempotency_key e) (st_cash st)")
  case None
  show ?thesis
  proof (cases "identity_match e (st_cash st)")
    case (Some m)
    then have m: "cs_event_hash m = cs_event_hash e" "st' = st" "m \<in> set (st_cash st)"
      using assms(1) None identity_matchD [OF Some] by (auto simp: store_cash_event_Inr)
    then have "cs_idempotency_key m = cs_idempotency_key e" using assms(2) by (simp add: same_cash_key_def)
    then show ?thesis using None m(3) by (simp add: find_None_iff)
  qed (use assms(1) None in \<open>auto simp: store_cash_event_Inr find_append\<close>)
qed (use assms(1) in \<open>auto simp: store_cash_event_Inr\<close>)

interpretation cash_table: append_only store_cash_event st_cash same_cash_key
proof
  fix db x s r s'
  assume a: "store_cash_event db x s = Inr (r, s')"
  then show "s' = s \<and> r \<in> set (st_cash s) \<or> st_cash s' = st_cash s @ [r]"
    by (auto simp: store_cash_event_Inr split: option.splits dest: find_SomeD identity_matchD)
  fix s'' :: q1_store and ys db'
  assume s'': "st_cash s'' = st_cash s' @ ys" "same_cash_key x (st_cash s'')"
  then have "same_cash_key x (st_cash s')" by (simp add: same_cash_key_def)
  from store_cash_event_found [OF a this] s'' show "store_cash_event db' x s'' = Inr (r, s'')"
    by (simp add: store_cash_event_Inr find_append)
qed

section \<open>The repository and the reducer\<close>

text \<open>The latest row of an order is the last event of its stream.\<close>

lemma sorted_pairs_fst:
  fixes f :: "'a \<Rightarrow> 'b::linorder" and g :: "'a \<Rightarrow> 'c::linorder"
  shows "sorted (map (\<lambda>x. (f x, g x)) xs) \<Longrightarrow> sorted (map f xs)"
  by (induction xs) (auto simp: less_eq_prod_def)

lemma sort_key_pair_distinct:
  fixes f :: "'a \<Rightarrow> 'b::linorder" and g :: "'a \<Rightarrow> 'c::linorder"
  assumes "distinct (map f xs)"
  shows "sort_key (\<lambda>x. (f x, g x)) xs = sort_key f xs"
proof (rule sort_key_inj_key_eq [symmetric])
  show "mset xs = mset (sort_key (\<lambda>x. (f x, g x)) xs)" by simp
  show "inj_on f (set xs)" using assms by (rule distinct_map_inj_on)
  show "sorted (map f (sort_key (\<lambda>x. (f x, g x)) xs))" by (rule sorted_pairs_fst) (rule sorted_sort_key)
qed

abbreviation stored_events :: "q1_store \<Rightarrow> order_event list" where
  "stored_events st \<equiv> map se_event (st_order_events st)"

lemma latest_is_last:
  assumes "accepted_stream order (stream_of order (stored_events st) None) s"
  shows "map_option se_event (latest_for_order (od_order_intent_id order) None (st_order_events st))
    = Some (last (stream_of order (stored_events st) None))"
proof -
  let ?rows = "filter (\<lambda>r. oe_order_intent_id (se_event r) = od_order_intent_id order) (st_order_events st)"
  let ?k = "\<lambda>r. (oe_event_sequence (se_event r), oe_event_id (se_event r))"
  have vis: "visible_events order (stored_events st) None = map se_event ?rows"
    by (simp add: visible_events_def filter_map comp_def)
  have "contiguous_from 1 (map oe_event_sequence (stream_of order (stored_events st) None))"
    using assms by (simp add: accepted_stream_def)
  then have "distinct (map oe_event_sequence (stream_of order (stored_events st) None))"
    by (auto simp: contiguous_from_nth distinct_conv_nth)
  then have "distinct (map oe_event_sequence (map se_event ?rows))" unfolding vis by (simp add: distinct_map_mset_cong [OF mset_sort])
  from sort_key_pair_distinct [OF this, of oe_event_id] have "map se_event (sort_key ?k ?rows) = sort_key oe_event_sequence (map se_event ?rows)"
    by (simp add: sort_key_map)
  moreover have "?rows \<noteq> []" using assms vis by (auto simp: accepted_stream_def)
  moreover have "sort_key ?k ?rows \<noteq> []" using \<open>?rows \<noteq> []\<close> by (metis mset_sort mset_zero_iff)
  ultimately show ?thesis using last_map [of "sort_key ?k ?rows" se_event] by (simp add: latest_for_order_def vis)
qed

lemma latest_none: "visible_events order (stored_events st) None = [] \<Longrightarrow> latest_for_order (od_order_intent_id order) None (st_order_events st) = None"
  by (simp add: latest_for_order_def visible_events_def filter_map comp_def)

text \<open>Commissions of an accepted stream fit 28 digits.\<close>

lemma commission_ctx:
  assumes "rfold (reduce_step order) es s = Inr s'" "ctx (dval (of_commission s)) = dval (of_commission s)"
  shows "ctx (dval (of_commission s')) = dval (of_commission s')"
  using assms
proof (induction es arbitrary: s)
  case (Cons e es)
  then obtain s1 where s1: "reduce_step order e s = Inr s1" "rfold (reduce_step order) es s1 = Inr s'" by (auto simp: result_simps)
  have "ctx (dval (of_commission s1)) = dval (of_commission s1)"
    using s1(1) Cons.prems(2) by (elim reduce_step_Inr) (cases "is_fill_type (oe_event_type e)";
      auto dest: apply_event_deltas_Inr(3) apply_event_deltas_Inr(4) simp: dval_plus)
  from Cons.IH [OF s1(2) this] show ?case .
qed simp

text \<open>What the reducer rejects and the repository does not.\<close>

definition reducer_only_check :: "order_descriptor \<Rightarrow> order_event \<Rightarrow> bool" where
  "reducer_only_check order e \<longleftrightarrow>
     oe_occurred_at e < od_created_at order
     \<or> oe_event_type e = CREATED \<and> oe_event_sequence e \<noteq> 1
     \<or> oe_event_type e = PARTIALLY_FILLED \<and> d_eq (oe_remaining_quantity e) 0"

lemma validated_event:
  assumes "validate_order_event e = Inr e"
  shows "0 \<le> dval (oe_remaining_quantity e)" "oe_event_type e = FILLED \<Longrightarrow> dval (oe_remaining_quantity e) = 0"
    "is_fill_type (oe_event_type e) \<Longrightarrow> 0 < dval (oe_quantity_delta e)"
    "\<not> is_fill_type (oe_event_type e) \<Longrightarrow> dval (oe_quantity_delta e) = 0 \<and> dval (oe_commission_delta_usd e) = 0"
  using assms by (auto simp: validate_order_event_def dval_simps not_less not_le split: if_splits)

lemma ctx_nonneg_iff: "0 \<le> ctx x \<longleftrightarrow> 0 \<le> x"
  using ctx_nonneg [of x] ctx_pos [of "- x"] by (cases "0 \<le> x") auto

lemma step_iff:
  assumes "validate_order_event e = Inr e" "oe_event_type e \<noteq> CREATED" "of_previous s = Some t"
  shows "(\<exists>s'. reduce_step order e s = Inr s') \<longleftrightarrow>
    od_created_at order \<le> oe_occurred_at e \<and> \<not> is_terminal_order_event t
    \<and> dval (oe_remaining_quantity e) = dval (if is_fill_type (oe_event_type e) then of_remaining s - oe_quantity_delta e else of_remaining s)
    \<and> dval (oe_cumulative_filled_quantity e) = dval (if is_fill_type (oe_event_type e) then of_filled s + oe_quantity_delta e else of_filled s)
    \<and> dval (oe_cumulative_commission_usd e) = dval (if is_fill_type (oe_event_type e) then of_commission s + oe_commission_delta_usd e else of_commission s)
    \<and> (oe_event_type e = PARTIALLY_FILLED \<longrightarrow> dval (oe_remaining_quantity e) \<noteq> 0)"
proof (cases "is_fill_type (oe_event_type e)")
  case True
  note v = validated_event [OF assms(1)]
  have type: "oe_event_type e = PARTIALLY_FILLED \<or> oe_event_type e = FILLED" using True by (auto simp: is_fill_type_def)
  have le: "dval (oe_quantity_delta e) \<le> dval (of_remaining s)" if "dval (oe_remaining_quantity e) = ctx (dval (of_remaining s) - dval (oe_quantity_delta e))"
    using v(1) that ctx_nonneg_iff [of "dval (of_remaining s) - dval (oe_quantity_delta e)"] by simp
  show ?thesis
    using True v(1-3) assms(2,3) type le
    by (auto simp: reduce_step_def apply_event_deltas_def result_simps Let_def dval_simps not_less)
next
  case False
  then show ?thesis using validated_event(4) [OF assms(1)] assms(2,3)
    by (auto simp: reduce_step_def apply_event_deltas_def result_simps Let_def dval_simps not_less is_fill_type_def)
qed

lemma transition_iff_step:
  assumes "accepted_stream order es s" "validate_order_event e = Inr e" "or_quantity row = Some q"
  shows "validate_order_transition e row (Some (last es)) = Inr () \<and> \<not> reducer_only_check order e
    \<longleftrightarrow> oe_event_sequence e = oe_event_sequence (last es) + 1 \<and> (\<exists>s'. reduce_step order e s = Inr s')"
proof -
  let ?l = "last es"
  have rf: "rfold (reduce_step order) es (fold_start order) = Inr s" "es \<noteq> []" using assms(1) by (simp_all add: accepted_stream_def)
  then obtain xs s0 where "es = xs @ [?l]" "reduce_step order ?l s0 = Inr s"
    by (cases es rule: rev_cases) (auto simp: rfold_snoc rbind_eq_Inr)
  then have l: "dval (oe_remaining_quantity ?l) = dval (of_remaining s)" "dval (oe_cumulative_filled_quantity ?l) = dval (of_filled s)"
    "dval (oe_cumulative_commission_usd ?l) = dval (of_commission s)" by (auto elim: reduce_step_Inr)
  have c: "ctx (dval (of_commission s)) = dval (of_commission s)"
    using commission_ctx [OF rf(1)] by (simp add: fold_start_def)
  have p: "of_previous s = Some (oe_event_type ?l)" using rfold_previous [OF rf] .
  have seq: "1 \<le> oe_event_sequence ?l" using accepted_sequence(2) [OF assms(1)] .
  show ?thesis
  proof (cases "oe_event_type e = CREATED")
    case True
    then have "\<not> (\<exists>s'. reduce_step order e s = Inr s')"
      using p by (auto elim!: reduce_step_Inr dest: apply_event_deltas_Inr(2))
    moreover have "validate_order_transition e row (Some ?l) = Inr () \<Longrightarrow> oe_event_sequence e = oe_event_sequence ?l + 1"
      by (simp add: validate_order_transition_def Let_def assms(3) split: if_splits)
    ultimately show ?thesis using True seq by (auto simp: reducer_only_check_def)
  next
    case False
    show ?thesis
      using validated_event(4) [OF assms(2)] c False l
      unfolding step_iff [OF assms(2) False p] validate_order_transition_def reducer_only_check_def
      by (auto simp: Let_def assms(3) dval_simps)
  qed
qed

lemma transition_iff_first:
  assumes "validate_order_event e = Inr e" "or_quantity row = Some (od_quantity order)"
  shows "validate_order_transition e row None = Inr () \<and> \<not> reducer_only_check order e
    \<longleftrightarrow> oe_event_sequence e = 1 \<and> oe_event_type e = CREATED \<and> (\<exists>s'. reduce_step order e (fold_start order) = Inr s')"
  using validated_event(4) [OF assms(1)]
  by (auto simp: validate_order_transition_def reducer_only_check_def reduce_step_def apply_event_deltas_def result_simps
      fold_start_def assms(2) dval_simps is_fill_type_def)

lemma contiguous_from_set:
  assumes "contiguous_from 1 xs"
  shows "distinct xs" "set xs = {1..int (length xs)}"
proof -
  show "distinct xs" using assms by (auto simp: contiguous_from_nth distinct_conv_nth)
  show "set xs = {1..int (length xs)}"
  proof (intro subset_antisym subsetI)
    fix x
    assume "x \<in> {1..int (length xs)}"
    then have "nat (x - 1) < length xs" "xs ! nat (x - 1) = x" using assms by (auto simp: contiguous_from_nth)
    then show "x \<in> set xs" by (metis nth_mem)
  qed (use contiguous_from_ge [OF assms] in force)
qed

text \<open>An event that extends an accepted stream carries the next number.\<close>

lemma stream_extension:
  assumes "accepted_stream order (stream_of order evs None) s" "visible_events order [e] None = [e]"
    and "accepted_stream order (stream_of order (evs @ [e]) None) s'"
  shows "oe_event_sequence e = oe_event_sequence (last (stream_of order evs None)) + 1"
proof -
  let ?es = "stream_of order evs None" and ?es' = "stream_of order (evs @ [e]) None"
  have c: "contiguous_from 1 (map oe_event_sequence ?es)" "contiguous_from 1 (map oe_event_sequence ?es')"
    using assms by (simp_all add: accepted_stream_def)
  have len: "length ?es' = Suc (length ?es)" using assms(2) by (simp add: visible_events_append)
  have m: "mset (map oe_event_sequence ?es') = mset (map oe_event_sequence (e # ?es))"
    using assms(2) by (simp add: visible_events_append)
  from distinct_map_mset_cong [of "?es'" "e # ?es" oe_event_sequence] have "distinct (map oe_event_sequence (e # ?es))"
    using contiguous_from_set(1) [OF c(2)] m assms(2) by (metis mset_eq_imp_distinct_iff)
  moreover have "set (map oe_event_sequence (e # ?es)) = {1..int (length ?es')}"
    using contiguous_from_set(2) [OF c(2)] mset_eq_setD [OF m] by simp
  ultimately have "oe_event_sequence e \<in> {1..int (length ?es')} - {1..int (length ?es)}"
    using contiguous_from_set(2) [OF c(1)] by auto
  then show ?thesis using accepted_sequence(1) [OF assms(1)] len by auto
qed

lemma stored_visible: "oe_order_intent_id e = od_order_intent_id order \<Longrightarrow> visible_events order [e] None = [e]"
  by (simp add: visible_events_def)

text \<open>Appending to the stream of an order, for the reducer.\<close>

lemma reduce_extend_iff:
  assumes "accepted_stream order (stream_of order evs None) s" "oe_order_intent_id e = od_order_intent_id order"
    and "oe_event_id e \<notin> oe_event_id ` set evs" "oe_idempotency_key e \<notin> oe_idempotency_key ` set evs"
  shows "(\<exists>a. reduce_order_events order (evs @ [e]) None = Inr a)
    \<longleftrightarrow> oe_event_sequence e = oe_event_sequence (last (stream_of order evs None)) + 1 \<and> (\<exists>s'. reduce_step order e s = Inr s')"
proof -
  let ?es = "stream_of order evs None"
  note vis = stored_visible [OF assms(2)]
  have snoc: "stream_of order (evs @ [e]) None = ?es @ [e]" if "oe_event_sequence e = oe_event_sequence (last ?es) + 1"
    unfolding visible_events_append vis
  proof (rule order_log.sort_key_snoc)
    fix x
    assume "x \<in> set (visible_events order evs None)"
    then have "oe_event_sequence x \<le> oe_event_sequence (last ?es)" using accepted_sequence(3) [OF assms(1)] by simp
    then show "oe_event_sequence x \<le> oe_event_sequence e" using that by simp
  qed
  have fresh: "fresh_event ?es e" using assms(3,4) by (auto simp: fresh_event_def visible_events_def)
  have acc: "(\<exists>s'. accepted_stream order (?es @ [e]) s') \<longleftrightarrow> (\<exists>s'. reduce_step order e s = Inr s')"
    if "oe_event_sequence e = oe_event_sequence (last ?es) + 1"
    using accepted_stream_snoc [OF assms(1) _ that fresh] assms(1)
    by (auto simp: accepted_stream_def rfold_snoc rbind_eq_Inr)
  show ?thesis
    using snoc acc stream_extension [OF assms(1) vis] unfolding reduce_None_Inr by metis
qed

lemma reduce_first_iff:
  assumes "visible_events order evs None = []" "oe_order_intent_id e = od_order_intent_id order"
  shows "(\<exists>a. reduce_order_events order (evs @ [e]) None = Inr a)
    \<longleftrightarrow> oe_event_sequence e = 1 \<and> oe_event_type e = CREATED \<and> (\<exists>s'. reduce_step order e (fold_start order) = Inr s')"
  by (auto simp: reduce_None_Inr visible_events_append assms(1) stored_visible [OF assms(2)] accepted_stream_def result_simps)

lemma store_succeeds_iff:
  assumes "List.find (\<lambda>r. or_order_intent_id r = oe_order_intent_id e) (st_intents st) = Some row"
    and "validate_order_event e = Inr e"
    and "oe_event_id e \<notin> oe_event_id ` set (stored_events st)" "oe_idempotency_key e \<notin> oe_idempotency_key ` set (stored_events st)"
    and "oe_source_cycle_id e = Some c"
    and "repository_fence db (st_cycles st) c (oe_worker_fence_token e) (oe_cycle_attempt_count e) (oe_available_at e) = Inr cycle"
  shows "(\<exists>r st'. store_order_event db e st = Inr (r, st')) \<longleftrightarrow>
    validate_order_transition e row (map_option se_event (latest_for_order (oe_order_intent_id e) None (st_order_events st))) = Inr ()
    \<and> (\<forall>x\<in>set (stored_events st). oe_order_intent_id x = oe_order_intent_id e \<longrightarrow> oe_event_sequence x \<noteq> oe_event_sequence e)"
proof -
  have "List.find (\<lambda>r. oe_idempotency_key (se_event r) = oe_idempotency_key e) (st_order_events st) = None"
    using assms(4) by (simp add: find_None_iff image_iff) metis
  moreover have "list_ex (event_clash r) (st_order_events st) \<longleftrightarrow>
      \<not> (\<forall>x\<in>set (stored_events st). oe_order_intent_id x = oe_order_intent_id e \<longrightarrow> oe_event_sequence x \<noteq> oe_event_sequence e)"
    if "se_event r = e" for r
    using assms(3,4) that by (auto simp: list_ex_iff event_clash_def image_iff) (metis (full_types))
  ultimately show ?thesis using assms(1,5,6) validated_event(1) [OF assms(2)] by (simp add: store_order_event_Inr)
qed

section \<open>Properties\<close>

text \<open>
  C6. The repository and the reducer agree on what may follow in the life of an order: a validated
  event with fresh identifiers, written by the holder of the lease, is stored exactly when the
  reducer accepts the stream it extends, except for three kinds of event that only the reducer
  rejects: one that predates the intent, a second \<open>CREATED\<close> and a partial fill that leaves
  nothing.\<close>

theorem repository_agrees_with_reducer:
  assumes "List.find (\<lambda>r. or_order_intent_id r = od_order_intent_id order) (st_intents st) = Some row"
    "or_quantity row = Some (od_quantity order)" "oe_order_intent_id e = od_order_intent_id order" "validate_order_event e = Inr e"
    and "oe_event_id e \<notin> oe_event_id ` set (stored_events st)" "oe_idempotency_key e \<notin> oe_idempotency_key ` set (stored_events st)"
    and "oe_source_cycle_id e = Some c"
    "repository_fence db (st_cycles st) c (oe_worker_fence_token e) (oe_cycle_attempt_count e) (oe_available_at e) = Inr cycle"
    and "visible_events order (stored_events st) None = [] \<or> (\<exists>a. reduce_order_events order (stored_events st) None = Inr a)"
  shows "(\<exists>r st'. store_order_event db e st = Inr (r, st')) \<and> \<not> reducer_only_check order e
    \<longleftrightarrow> (\<exists>a. reduce_order_events order (stored_events st @ [e]) None = Inr a)"
proof -
  note store = store_succeeds_iff [OF assms(1) [folded assms(3)] assms(4-8), unfolded assms(3)]
  from assms(9) show ?thesis
  proof
    assume none: "visible_events order (stored_events st) None = []"
    then have "\<forall>x\<in>set (stored_events st). oe_order_intent_id x \<noteq> od_order_intent_id order" by (auto simp: visible_events_def filter_empty_conv)
    then show ?thesis
      unfolding store latest_none [OF none] reduce_first_iff [OF none assms(3)] transition_iff_first [OF assms(4,2), symmetric]
      by auto
  next
    assume "\<exists>a. reduce_order_events order (stored_events st) None = Inr a"
    then obtain s where s: "accepted_stream order (stream_of order (stored_events st) None) s" by (auto simp: reduce_None_Inr)
    have "oe_event_sequence x \<le> oe_event_sequence (last (stream_of order (stored_events st) None))"
      if "x \<in> set (stored_events st)" "oe_order_intent_id x = od_order_intent_id order" for x
      using accepted_sequence(3) [OF s] that by (auto simp: visible_events_def)
    then have clash: "oe_event_sequence e = oe_event_sequence (last (stream_of order (stored_events st) None)) + 1 \<Longrightarrow>
      \<forall>x\<in>set (stored_events st). oe_order_intent_id x = od_order_intent_id order \<longrightarrow> oe_event_sequence x \<noteq> oe_event_sequence e" by fastforce
    show ?thesis
      using transition_iff_step [OF s assms(4,2)] clash
      unfolding store latest_is_last [OF s] reduce_extend_iff [OF s assms(3,5,6)] by blast
  qed
qed

lemma cash_frame:
  "rfold (\<lambda>e st. rbind (store_cash_event db e st) (\<lambda>p. Inr (snd p))) cs st = Inr st' \<Longrightarrow> st_order_events st' = st_order_events st"
  by (erule rfold_invariant) (auto simp: result_simps store_cash_event_Inr split: option.splits)

text \<open>
  C10. Work that went through can be sent again: whatever a worker stored in one batch of order
  events and one of cash events is accepted once more as a whole and adds no row, on a store that
  has grown since, by any clock and whoever holds the lease by then. Cash events of equal hash
  must have equal keys.\<close>

theorem retried_batch_adds_nothing:
  assumes "rfold (\<lambda>e st. rbind (store_order_event db e st) (\<lambda>p. Inr (snd p))) es st = Inr st1"
    "rfold (\<lambda>e st. rbind (store_cash_event db e st) (\<lambda>p. Inr (snd p))) cs st1 = Inr st2"
    and "st_order_events st3 = st_order_events st2 @ later_events"
    "st_cash st3 = st_cash st2 @ later_cash" "list_all (\<lambda>e. same_cash_key e (st_cash st3)) cs"
  shows "rbind (rfold (\<lambda>e st. rbind (store_order_event db' e st) (\<lambda>p. Inr (snd p))) es st3)
      (rfold (\<lambda>e st. rbind (store_cash_event db' e st) (\<lambda>p. Inr (snd p))) cs) = Inr st3"
proof -
  have "st_order_events st2 = st_order_events st1" using cash_frame [OF assms(2)] .
  then show ?thesis
    using order_table.append_all_again [OF assms(1), of st3 later_events db'] cash_table.append_all_again [OF assms(2,4), of db'] assms(3,5)
    by (simp add: list_all_iff)
qed

text \<open>
  A worker has no lease on a cycle for a write when the cycle is unknown, not running, owned by
  another worker or attempt, or its lease is over at the time of the write, which the database
  clock tells if there is one.
\<close>

definition write_clock :: "database \<Rightarrow> instant \<Rightarrow> instant option" where
  "write_clock db event_time = (case db of Other_Dialect \<Rightarrow> Some event_time | PostgreSQL t \<Rightarrow> t)"

definition without_lease :: "paper_cycle_row list \<Rightarrow> string \<Rightarrow> string \<Rightarrow> int \<Rightarrow> instant option \<Rightarrow> bool" where
  "without_lease cycles cycle_id owner attempt now \<longleftrightarrow>
     (case List.find (\<lambda>c. cy_cycle_id c = cycle_id) cycles of
        None \<Rightarrow> True
      | Some cycle \<Rightarrow>
          cy_status cycle \<noteq> ''RUNNING'' \<or> cy_lease_owner cycle \<noteq> Some owner \<or> cy_attempt_count cycle \<noteq> attempt
          \<or> (case (cy_lease_expires_at cycle, now) of
               (Some expiry, Some t) \<Rightarrow> aware_utc expiry \<le> t
             | _ \<Rightarrow> True))"

lemma no_fence:
  "without_lease cycles cycle_id owner attempt (write_clock db t) \<Longrightarrow> repository_fence db cycles cycle_id owner attempt t \<noteq> Inr x"
  by (auto simp: without_lease_def write_clock_def repository_fence_def lease_held_def result_simps
      split: database.splits option.splits if_splits)

text \<open>
  C11. A worker without the lease adds nothing: when the cycle of an event is not running, belongs to
  another worker or attempt, or its lease is over at the time of the write, storing the event
  raises or returns a row that was there before. No worker has the lease of a completed cycle.\<close>

theorem stale_worker_adds_nothing:
  shows "(oe_source_cycle_id e = Some cycle_id
      \<and> without_lease (st_cycles st) cycle_id (oe_worker_fence_token e) (oe_cycle_attempt_count e) (write_clock db (oe_available_at e))
      \<and> store_order_event db e st = Inr (r, st') \<longrightarrow> st' = st \<and> r \<in> set (st_order_events st))
    \<and> (without_lease (st_cycles st) (cs_source_cycle_id ce) (cs_worker_fence_token ce) (cs_cycle_attempt_count ce)
          (write_clock db (cs_created_at ce))
      \<and> store_cash_event db ce st = Inr (cr, st'') \<longrightarrow> st'' = st \<and> cr \<in> set (st_cash st))
    \<and> (complete_fenced_cycle H cutoff inputs outputs completed_at open_cycle = Inr cycle
      \<and> List.find (\<lambda>c. cy_cycle_id c = completed_id) (st_cycles st) = Some cycle
      \<longrightarrow> without_lease (st_cycles st) completed_id owner attempt now)"
proof (rule conjI [OF impI conjI [OF impI impI]])
  assume "oe_source_cycle_id e = Some cycle_id
    \<and> without_lease (st_cycles st) cycle_id (oe_worker_fence_token e) (oe_cycle_attempt_count e) (write_clock db (oe_available_at e))
    \<and> store_order_event db e st = Inr (r, st')"
  then show "st' = st \<and> r \<in> set (st_order_events st)"
    using no_fence by (auto simp: store_order_event_Inr split: option.splits dest: find_SomeD)
next
  assume "without_lease (st_cycles st) (cs_source_cycle_id ce) (cs_worker_fence_token ce) (cs_cycle_attempt_count ce)
      (write_clock db (cs_created_at ce)) \<and> store_cash_event db ce st = Inr (cr, st'')"
  then show "st'' = st \<and> cr \<in> set (st_cash st)"
    using no_fence by (auto simp: store_cash_event_Inr split: option.splits dest: find_SomeD identity_matchD)
next
  assume "complete_fenced_cycle H cutoff inputs outputs completed_at open_cycle = Inr cycle
    \<and> List.find (\<lambda>c. cy_cycle_id c = completed_id) (st_cycles st) = Some cycle"
  then show "without_lease (st_cycles st) completed_id owner attempt now"
    by (auto simp: without_lease_def complete_fenced_cycle_def result_simps)
qed

section \<open>Balances\<close>

lemma dval_exact_add: "dval (exact_add a b) = dval a + dval b"
  by (cases "align a b") (simp add: exact_add_def dval_mkdec align_values distrib_right)

lemma dval_column_sum: "dval (column_sum xs) = (\<Sum>x\<leftarrow>xs. dval x)"
  unfolding column_sum_def by (induction xs rule: rev_induct) (simp_all add: dval_exact_add)

text \<open>
  The balances the database sums up are those the settlement service replays: for the cash
  events of an arm that replay without error, settled cash, receivables and total of the
  projection are the settled cash, receivables and total of the replay, for events on one grid
  within 28 digits.\<close>

theorem stored_balances_are_replayed:
  assumes "arm_events = filter (\<lambda>e. cs_run_id e = run_id \<and> arm_value (cs_arm_id e) = arm_id) (st_cash st)"
    and "apply_settlement_events arm_events (Aware t) = Inr b"
    and "\<And>e. e \<in> set (visible_cash_events arm_events t) \<Longrightarrow> grid_event g e"
    and "gross_cash (visible_cash_events arm_events t) \<le> pow10 (g + int prec)"
  shows "dval (cp_settled_cash_usd (stored_balances run_id arm_id t st)) = dval (cb_settled_cash_usd b)
    \<and> dval (cp_unsettled_receivables_usd (stored_balances run_id arm_id t st)) = dval (unsettled_receivables_usd b)
    \<and> dval (projected_total_cash_usd (stored_balances run_id arm_id t st)) = dval (total_cash_usd b)"
proof -
  have rows: "filter (\<lambda>e. cs_run_id e = run_id \<and> arm_value (cs_arm_id e) = arm_id \<and> cs_effective_at e \<le> t \<and> cs_created_at e \<le> t) (st_cash st)
      = visible_cash_events arm_events t"
    unfolding visible_cash_events_def assms(1) filter_filter by (rule filter_cong) auto
  have sums: "dval (cp_settled_cash_usd (stored_balances run_id arm_id t st)) = dval (cb_settled_cash_usd b)"
    "dval (cp_unsettled_receivables_usd (stored_balances run_id arm_id t st)) = dval (unsettled_receivables_usd b)"
    using total_cash_exact(1,2) [OF assms(2-4)]
    by (simp_all add: stored_balances_def Let_def rows dval_column_sum comp_def)
  then show ?thesis by (simp add: projected_total_cash_usd_def total_cash_usd_def dval_plus)
qed

section \<open>The chain of arm states\<close>

text \<open>
  The snapshots of an arm are numbered from zero without a gap, and every payload reads back as a
  state with the number of its row.
\<close>

definition arm_rows :: "string \<Rightarrow> string \<Rightarrow> q1_store \<Rightarrow> stored_arm_state list" where
  "arm_rows run_id arm_id st = filter (\<lambda>r. sn_run_id r = run_id \<and> sn_arm_id r = arm_id) (st_arm_states st)"

definition arm_chain :: "string \<Rightarrow> string \<Rightarrow> q1_store \<Rightarrow> bool" where
  "arm_chain run_id arm_id st \<longleftrightarrow>
     contiguous_from 0 (map sn_sequence (arm_rows run_id arm_id st))
     \<and> list_all (\<lambda>r. case from_payload (sn_payload_json r) of Inl _ \<Rightarrow> False | Inr s \<Rightarrow> as_sequence s = sn_sequence r)
         (arm_rows run_id arm_id st)"

lemma contiguous_from_sorted_distinct: "contiguous_from n xs \<Longrightarrow> sorted xs \<and> distinct xs"
  by (auto simp: contiguous_from_nth sorted_iff_nth_mono distinct_conv_nth)

lemma latest_arm_row_last:
  assumes "contiguous_from 0 (map sn_sequence (arm_rows run_id arm_id st))"
  shows "latest_arm_row run_id arm_id (st_arm_states st)
    = (if arm_rows run_id arm_id st = [] then None else Some (last (arm_rows run_id arm_id st)))"
proof -
  have "distinct (map sn_sequence (arm_rows run_id arm_id st))" "sorted (map sn_sequence (arm_rows run_id arm_id st))"
    using contiguous_from_sorted_distinct [OF assms] by simp_all
  then have "sort_key (\<lambda>r. (sn_sequence r, sn_arm_state_snapshot_id r)) (arm_rows run_id arm_id st) = arm_rows run_id arm_id st"
    by (simp add: sort_key_pair_distinct sort_key_id_if_sorted)
  then show ?thesis by (simp add: latest_arm_row_def Let_def arm_rows_def)
qed

lemma latest_arm_state_chain:
  assumes "arm_chain run_id arm_id st" "latest_arm_state run_id arm_id st = Inr current"
  shows "int (length (arm_rows run_id arm_id st)) = (case current of None \<Rightarrow> 0 | Some s \<Rightarrow> as_sequence s + 1) \<and> (current = None \<longleftrightarrow> arm_rows run_id arm_id st = [])"
proof (cases "arm_rows run_id arm_id st" rule: rev_cases)
  case Nil
  then show ?thesis using assms(2) latest_arm_row_last [of run_id arm_id st] by (simp add: latest_arm_state_def)
next
  case (snoc rs r)
  then have "sn_sequence r = int (length rs)" using assms(1) by (simp add: arm_chain_def contiguous_from_append)
  moreover have "\<exists>s. current = Some s \<and> as_sequence s = sn_sequence r"
    using assms snoc latest_arm_row_last [of run_id arm_id st]
    by (auto simp: latest_arm_state_def arm_chain_def result_simps split: sum.splits)
  ultimately show ?thesis using snoc by auto
qed

lemma append_arm_state_Inr:
  assumes "append_arm_state H run_id s cycle_id (Aware t) expected st = Inr (r, st')" "arm_chain run_id (as_arm_id s) st"
    and "\<And>x. x \<in> set (st_arm_states st) \<Longrightarrow> sn_arm_state_snapshot_id x = sn_arm_state_snapshot_id (arm_state_row H run_id s cycle_id t)
      \<Longrightarrow> sn_run_id x = run_id \<and> sn_arm_id x = as_arm_id s \<and> sn_sequence x = as_sequence s"
  shows "as_sequence s = int (length (arm_rows run_id (as_arm_id s) st))"
    "expected = (if as_sequence s = 0 then None else Some (as_sequence s - 1))"
    "st' = st\<lparr>st_arm_states := st_arm_states st @ [arm_state_row H run_id s cycle_id t]\<rparr>"
proof -
  let ?row = "arm_state_row H run_id s cycle_id t"
  obtain current where c: "latest_arm_state run_id (as_arm_id s) st = Inr current" "expected = map_option as_sequence current"
    "as_sequence s = (case current of None \<Rightarrow> 0 | Some s \<Rightarrow> as_sequence s + 1)"
    using assms(1) by (auto simp: append_arm_state_def result_simps split: if_splits)
  note len = latest_arm_state_chain [OF assms(2) c(1)]
  then show seq: "as_sequence s = int (length (arm_rows run_id (as_arm_id s) st))" using c(3) by simp
  show "expected = (if as_sequence s = 0 then None else Some (as_sequence s - 1))"
    using c(2,3) len by (cases current; cases "arm_rows run_id (as_arm_id s) st") auto
  have "sn_arm_state_snapshot_id x \<noteq> sn_arm_state_snapshot_id ?row" if x: "x \<in> set (st_arm_states st)" for x
  proof
    assume "sn_arm_state_snapshot_id x = sn_arm_state_snapshot_id ?row"
    from assms(3) [OF x this] x have "x \<in> set (arm_rows run_id (as_arm_id s) st)" "sn_sequence x = as_sequence s" by (simp_all add: arm_rows_def)
    then have "as_sequence s \<in> set (map sn_sequence (arm_rows run_id (as_arm_id s) st))" by force
    then show False using assms(2) contiguous_from_ge [of 0 "map sn_sequence (arm_rows run_id (as_arm_id s) st)" "as_sequence s"] seq
      by (simp add: arm_chain_def)
  qed
  then have "List.find (\<lambda>r. sn_arm_state_snapshot_id r = sn_arm_state_snapshot_id ?row) (st_arm_states st) = None"
    by (auto simp: find_None_iff)
  then show "st' = st\<lparr>st_arm_states := st_arm_states st @ [?row]\<rparr>"
    using assms(1) by (auto simp: append_arm_state_def result_simps Let_def add_row_def split: if_splits)
qed

lemma arm_chain_append:
  assumes "append_arm_state H run_id s cycle_id (Aware t) expected st = Inr (r, st')" "arm_chain run_id (as_arm_id s) st"
    and "arm_wf s" "dates_ok s"
    and "\<And>x. x \<in> set (st_arm_states st) \<Longrightarrow> sn_arm_state_snapshot_id x = sn_arm_state_snapshot_id (arm_state_row H run_id s cycle_id t)
      \<Longrightarrow> sn_run_id x = run_id \<and> sn_arm_id x = as_arm_id s \<and> sn_sequence x = as_sequence s"
  shows "arm_chain run_id (as_arm_id s) st'" "latest_arm_state run_id (as_arm_id s) st' = Inr (Some (stored_state s))"
proof -
  let ?row = "arm_state_row H run_id s cycle_id t" and ?a = "as_arm_id s"
  note app = append_arm_state_Inr [OF assms(1,2,5)]
  have row: "sn_run_id ?row = run_id" "sn_arm_id ?row = ?a" "sn_sequence ?row = as_sequence s" "sn_payload_json ?row = as_payload s"
    by (simp_all add: arm_state_row_def Let_def)
  have rows: "arm_rows run_id ?a st' = arm_rows run_id ?a st @ [?row]" using app(3) row by (simp add: arm_rows_def)
  have payload: "from_payload (sn_payload_json ?row) = Inr (stored_state s)" using arm_round_trip [OF assms(3,4)] row by simp
  have seq: "as_sequence (stored_state s) = as_sequence s" by (simp add: stored_state_def)
  show chain: "arm_chain run_id ?a st'"
    using assms(2) app(1) payload seq row(3) unfolding arm_chain_def rows by (simp add: contiguous_from_append)
  then have "latest_arm_row run_id ?a (st_arm_states st') = Some ?row" using latest_arm_row_last [of run_id ?a st'] rows by (simp add: arm_chain_def)
  then show "latest_arm_state run_id ?a st' = Inr (Some (stored_state s))" using payload by (simp add: latest_arm_state_def)
qed

text \<open>
  C9. Snapshots of an arm form one chain, whoever writes them: an accepted append of a well-formed
  state numbers the rows of the arm on without a gap, the state is read back unchanged as the
  latest one, and no writer that prepared its state from the same predecessor is accepted any
  more. Distinct runs, arms and sequence numbers must have distinct snapshot identifiers.\<close>

theorem arm_states_form_a_chain:
  assumes "append_arm_state H run_id s cycle_id (Aware t) expected st = Inr (r, st')" "arm_chain run_id (as_arm_id s) st"
    and "arm_wf s" "dates_ok s"
    and "\<And>x. x \<in> set (st_arm_states st) \<Longrightarrow> sn_arm_state_snapshot_id x = sn_arm_state_snapshot_id (arm_state_row H run_id s cycle_id t)
      \<Longrightarrow> sn_run_id x = run_id \<and> sn_arm_id x = as_arm_id s \<and> sn_sequence x = as_sequence s"
  shows "arm_chain run_id (as_arm_id s) st' \<and> latest_arm_state run_id (as_arm_id s) st' = Inr (Some (stored_state s))
    \<and> (as_arm_id s2 = as_arm_id s \<longrightarrow> append_arm_state H2 run_id s2 cycle_id2 created_at2 expected st' \<noteq> Inr result)"
proof -
  note chain = arm_chain_append [OF assms]
  have "expected \<noteq> Some (as_sequence s)" using append_arm_state_Inr(2) [OF assms(1,2,5)] by auto
  then have "append_arm_state H2 run_id s2 cycle_id2 created_at2 expected st' \<noteq> Inr result" if "as_arm_id s2 = as_arm_id s"
    using chain(2) that by (auto simp: append_arm_state_def result_simps stored_state_def)
  with chain show ?thesis by blast
qed

section \<open>Examples\<close>

definition ex_cycle_row :: paper_cycle_row where
  "ex_cycle_row =
     \<lparr>cy_cycle_id = ''cycle'', cy_status = ''RUNNING'', cy_lease_owner = Some ''fence'', cy_lease_expires_at = Some (Aware 1000),
      cy_attempt_count = 1, cy_data_available_cutoff = None, cy_input_manifest_hash = None, cy_output_manifest_hash = None,
      cy_completed_at = None, cy_last_error_code = None, cy_last_error_detail = None, cy_updated_at = Aware 0\<rparr>"

definition ex_store :: q1_store where
  "ex_store =
     \<lparr>st_cycles = [ex_cycle_row],
      st_intents = [\<lparr>or_order_intent_id = ''o1'', or_run_id = ''run'', or_arm_id = ''Q1-DET'', or_quantity = Some (D 10 0),
        or_created_at = Some 5, or_algorithm_version = Some Q1_ALGORITHM_VERSION, or_idempotency_key = ''i1'',
        or_intent_hash = ''hash'', or_payload = None\<rparr>],
      st_order_events = [], st_fills = [], st_cash = [], st_arm_states = []\<rparr>"

definition ex_created :: order_event where
  "ex_created = (example_event ''o1'' 1 CREATED 0 (D 10 0) 0 5)\<lparr>oe_source_cycle_id := Some ''cycle''\<rparr>"

definition ex_partial :: order_event where
  "ex_partial = (example_event ''o1'' 2 PARTIALLY_FILLED (D 4 0) (D 6 0) (D 4 0) 7)\<lparr>oe_source_cycle_id := Some ''cycle''\<rparr>"

definition ex_stored :: q1_store where
  "ex_stored = ex_store\<lparr>st_order_events := [\<lparr>se_run_id = ''run'', se_arm_id = ''Q1-DET'', se_event = ex_created\<rparr>]\<rparr>"

theorem repository_agrees_with_reducer_witness:
  "\<exists>r st'. store_order_event Other_Dialect ex_partial ex_stored = Inr (r, st')"
proof -
  let ?order = "example_order ''o1'' BUY"
  have row: "List.find (\<lambda>r. or_order_intent_id r = od_order_intent_id ?order) (st_intents ex_stored) = Some (hd (st_intents ex_store))"
    "or_quantity (hd (st_intents ex_store)) = Some (od_quantity ?order)" "oe_order_intent_id ex_partial = od_order_intent_id ?order"
    by (simp_all add: ex_stored_def ex_store_def example_order_def ex_partial_def example_event_def)
  have ok: "validate_order_event ex_partial = Inr ex_partial" by code_simp
  have fresh: "oe_event_id ex_partial \<notin> oe_event_id ` set (stored_events ex_stored)"
    "oe_idempotency_key ex_partial \<notin> oe_idempotency_key ` set (stored_events ex_stored)" by code_simp+
  have cycle: "oe_source_cycle_id ex_partial = Some ''cycle''" by (simp add: ex_partial_def)
  have fence: "repository_fence Other_Dialect (st_cycles ex_stored) ''cycle'' (oe_worker_fence_token ex_partial)
      (oe_cycle_attempt_count ex_partial) (oe_available_at ex_partial) = Inr ex_cycle_row" by code_simp
  have "case reduce_order_events ?order (stored_events ex_stored) None of Inl _ \<Rightarrow> False | Inr _ \<Rightarrow> True"
    "case reduce_order_events ?order (stored_events ex_stored @ [ex_partial]) None of Inl _ \<Rightarrow> False | Inr _ \<Rightarrow> True" by code_simp+
  then have "\<exists>a. reduce_order_events ?order (stored_events ex_stored) None = Inr a"
    "\<exists>a. reduce_order_events ?order (stored_events ex_stored @ [ex_partial]) None = Inr a" by (auto split: sum.splits)
  then show ?thesis using repository_agrees_with_reducer [OF row ok fresh cycle fence] by blast
qed

theorem retried_batch_adds_nothing_witness:
  "\<exists>st1. rfold (\<lambda>e st. rbind (store_order_event Other_Dialect e st) (\<lambda>p. Inr (snd p))) [ex_created, ex_partial] ex_store = Inr st1
    \<and> length (st_order_events st1) = 2
    \<and> rfold (\<lambda>e st. rbind (store_order_event (PostgreSQL (Some 2000)) e st) (\<lambda>p. Inr (snd p))) [ex_created, ex_partial] st1 = Inr st1"
proof -
  let ?store = "\<lambda>db. rfold (\<lambda>e st. rbind (store_order_event db e st) (\<lambda>p. Inr (snd p)))"
  have "case ?store Other_Dialect [ex_created, ex_partial] ex_store of Inl _ \<Rightarrow> False | Inr st \<Rightarrow> length (st_order_events st) = 2" by code_simp
  then obtain st1 where st1: "?store Other_Dialect [ex_created, ex_partial] ex_store = Inr st1" "length (st_order_events st1) = 2"
    by (auto split: sum.splits)
  from retried_batch_adds_nothing [OF st1(1), of "[]" st1 st1 "[]" "[]" "PostgreSQL (Some 2000)"]
  have "?store (PostgreSQL (Some 2000)) [ex_created, ex_partial] st1 = Inr st1" by (simp only: rbind_eq_Inr) auto
  with st1 show ?thesis by (intro exI [of _ st1] conjI)
qed

theorem stale_worker_adds_nothing_witness:
  "(case complete_fenced_cycle (\<lambda>_. ''h'') (Aware 6) VNone VNone (Aware 6) ex_cycle_row of Inl _ \<Rightarrow> False
    | Inr fin \<Rightarrow> \<not> (\<exists>r st'. store_order_event Other_Dialect ex_partial (ex_stored\<lparr>st_cycles := [fin]\<rparr>) = Inr (r, st')
       \<and> length (st_order_events st') = 2))
   \<and> \<not> (\<exists>r st'. store_order_event (PostgreSQL (Some 2000)) ex_partial ex_stored = Inr (r, st') \<and> length (st_order_events st') = 2)"
proof -
  have e: "oe_source_cycle_id ex_partial = Some ''cycle''" by (simp add: ex_partial_def)
  have late: "without_lease (st_cycles ex_stored) ''cycle'' (oe_worker_fence_token ex_partial) (oe_cycle_attempt_count ex_partial)
      (write_clock (PostgreSQL (Some 2000)) (oe_available_at ex_partial))" by code_simp
  obtain fin where fin: "complete_fenced_cycle (\<lambda>_. ''h'') (Aware 6) VNone VNone (Aware 6) ex_cycle_row = Inr fin"
    by (auto simp: complete_fenced_cycle_def)
  let ?st = "ex_stored\<lparr>st_cycles := [fin]\<rparr>"
  have "cy_cycle_id fin = ''cycle''" using fin by (auto simp: complete_fenced_cycle_def ex_cycle_row_def)
  then have find: "List.find (\<lambda>c. cy_cycle_id c = ''cycle'') (st_cycles ?st) = Some fin" by simp
  have over: "without_lease (st_cycles ?st) ''cycle'' owner attempt now" for owner attempt now
    using stale_worker_adds_nothing [of _ _ ?st] fin find by blast
  have "st' = ?st" if "store_order_event Other_Dialect ex_partial ?st = Inr (r, st')" for r st'
    using stale_worker_adds_nothing [of ex_partial "''cycle''" ?st] e over that by blast
  moreover have "st' = ex_stored" if "store_order_event (PostgreSQL (Some 2000)) ex_partial ex_stored = Inr (r, st')" for r st'
    using stale_worker_adds_nothing [of ex_partial "''cycle''" ex_stored "PostgreSQL (Some 2000)"] e late that by blast
  moreover have "length (st_order_events ?st) \<noteq> 2" "length (st_order_events ex_stored) \<noteq> 2" by (simp_all add: ex_stored_def)
  ultimately show ?thesis by (auto simp: fin)
qed

theorem stored_balances_are_replayed_witness:
  "dval (cp_settled_cash_usd (stored_balances ''run'' ''Q1-DET'' 40 (ex_store\<lparr>st_cash := example_cash_events\<rparr>))) = 59950 / 100"
proof -
  let ?st = "ex_store\<lparr>st_cash := example_cash_events\<rparr>"
  have events: "example_cash_events = filter (\<lambda>e. cs_run_id e = ''run'' \<and> arm_value (cs_arm_id e) = ''Q1-DET'') (st_cash ?st)"
    by (simp add: example_cash_events_def example_cash_event_def)
  obtain b where b: "apply_settlement_events example_cash_events (Aware 40) = Inr b" using example_cash_facts(2) by blast
  have grid: "grid_event (- 2) e" if "e \<in> set (visible_cash_events example_cash_events 40)" for e
    using that example_cash_grid(1) by (simp add: example_cash_facts(1))
  have gross: "gross_cash (visible_cash_events example_cash_events 40) \<le> pow10 (- 2 + int prec)"
    by (simp add: example_cash_facts(1) example_cash_grid(2) prec_def)
  have "dval (cb_settled_cash_usd b) = 59950 / 100"
    using total_cash_exact(1) [OF b grid gross] unfolding example_cash_facts(1)
    by (simp add: example_cash_events_def example_cash_event_def dval_simps)
  then show ?thesis using stored_balances_are_replayed [OF events b grid gross] by simp
qed

theorem arm_states_form_a_chain_witness:
  "\<exists>st'. append_arm_state (\<lambda>_. ''h'') ''run'' ex_arm ''cycle'' (Aware 10) None ex_store = Inr st'
    \<and> latest_arm_state ''run'' ''Q1-DET'' (snd st') = Inr (Some (stored_state ex_arm))"
proof -
  let ?st = "ex_store\<lparr>st_arm_states := [arm_state_row (\<lambda>_. ''h'') ''run'' ex_arm ''cycle'' 10]\<rparr>"
  have app: "append_arm_state (\<lambda>_. ''h'') ''run'' ex_arm ''cycle'' (Aware 10) None ex_store
      = Inr (arm_state_row (\<lambda>_. ''h'') ''run'' ex_arm ''cycle'' 10, ?st)"
    by (simp add: append_arm_state_def latest_arm_state_def latest_arm_row_def ex_store_def add_row_def Let_def)
      (simp add: ex_arm_def)
  have "arm_chain ''run'' (as_arm_id ex_arm) ex_store" by (simp add: arm_chain_def arm_rows_def ex_store_def)
  from arm_states_form_a_chain [OF app this ex_arm_facts(1)] have "latest_arm_state ''run'' (as_arm_id ex_arm) ?st = Inr (Some (stored_state ex_arm))"
    by (simp add: dates_ok_def ex_store_def) (simp add: ex_arm_def)
  with app show ?thesis by (simp add: ex_arm_def)
qed

end
