(* ===== verification/Execution_Commit.thy ===== *)
theory Execution_Commit
  imports Repository Reconciliation Execution_Safety "HOL-Library.Option_ord"
begin

text \<open>
  The execution cycle as a whole, \<^verbatim>\<open>process\<close> of \<^verbatim>\<open>runtime/q1_execution_cycle.py\<close>: the order book is
  loaded, pending orders are expired, blocked or turned into candidates, mutations are prepared
  and committed in one transaction behind the fence of the cycle. Reading quotes and average
  volumes is a parameter (\<open>market_access\<close>). An exception inside the transaction rolls it back, so
  the model returns a store only where the commit succeeds. Shown: a cycle commits at most once,
  a commit extends every table and every chain of arm states and stores every mutation, and it
  raises when an order or an arm has changed since the preparation.
\<close>

section \<open>The order book\<close>

record q1_order_book =
  ob_intents :: "q1_order_intent list"
  ob_descriptors :: "order_descriptor list"
  ob_events :: "order_event list"

definition validated_intent :: "order_intent_row \<Rightarrow> q1_order_intent result" where
  "validated_intent row =
     (case or_payload row of None \<Rightarrow> Inl (ValidationError ''order intent payload'') | Some i \<Rightarrow> Inr i)"

definition load_q1_order_book :: "string \<Rightarrow> string option \<Rightarrow> q1_store \<Rightarrow> q1_order_book result" where
  "load_q1_order_book run_id arm_id st =
     (let intent_rows = sort_key (\<lambda>r. (or_created_at r, or_order_intent_id r))
            (filter (\<lambda>r. or_run_id r = run_id \<and> or_algorithm_version r = Some ''q1_math_core_v1''
               \<and> (case arm_id of None \<Rightarrow> True | Some a \<Rightarrow> or_arm_id r = a)) (st_intents st));
          event_rows = sort_key (\<lambda>r. (oe_order_intent_id (se_event r), oe_event_sequence (se_event r)))
            (filter (\<lambda>r. se_run_id r = run_id \<and> vr_algorithm_version (se_event r) = ''q1_math_core_v1''
               \<and> (case arm_id of None \<Rightarrow> True | Some a \<Rightarrow> se_arm_id r = a)) (st_order_events st)) in
      rbind (rmap validated_intent intent_rows) (\<lambda>intents.
      rbind (rmap intent_descriptor intents) (\<lambda>descriptors.
      Inr \<lparr>ob_intents = intents, ob_descriptors = descriptors, ob_events = map se_event event_rows\<rparr>)))"

definition intent_by_id :: "q1_order_intent list \<Rightarrow> string \<Rightarrow> q1_order_intent result" where
  "intent_by_id intents order_intent_id =
     (case List.find (\<lambda>i. oi_order_intent_id i = order_intent_id) (rev intents) of
        None \<Rightarrow> Inl (KeyError order_intent_id)
      | Some i \<Rightarrow> Inr i)"

section \<open>Expired and blocked orders\<close>

definition expiry_mutation ::
  "digest \<Rightarrow> order_event list \<Rightarrow> order_event_provenance \<Rightarrow> paper_cycle \<Rightarrow> instant \<Rightarrow> q1_order_intent list
    \<Rightarrow> order_event \<Rightarrow> prepared_mutation result" where
  "expiry_mutation H book_events provenance cycle now intents provisional =
     rbind (intent_by_id intents (oe_order_intent_id provisional)) (\<lambda>intent.
     rbind (intent_descriptor intent) (\<lambda>order.
     rbind (append_order_event H order book_events
         (status_request EXPIRED (Aware now) (Aware now) ''ORDER_VALIDITY_WINDOW_ENDED'' (pc_cycle_id cycle)) provenance) (\<lambda>event.
     rbind (aggregate_for intent book_events) (\<lambda>aggregate.
     Inr (status_mutation aggregate intent event)))))"

definition prepare_expiry_mutations ::
  "digest \<Rightarrow> order_event list \<Rightarrow> order_event_provenance \<Rightarrow> paper_cycle \<Rightarrow> instant \<Rightarrow> q1_order_intent list
    \<Rightarrow> order_event list \<Rightarrow> prepared_mutation list result" where
  "prepare_expiry_mutations H book_events provenance cycle now intents expired =
     rmap (expiry_mutation H book_events provenance cycle now intents) expired"

type_synonym blocked_reasons = "(string, string \<times> string option) dict"

definition blocked_mutation ::
  "digest \<Rightarrow> order_event list \<Rightarrow> order_event_provenance \<Rightarrow> paper_cycle \<Rightarrow> instant \<Rightarrow> q1_order_intent list
    \<Rightarrow> order_aggregate \<times> string \<times> string option \<Rightarrow> prepared_mutation result" where
  "blocked_mutation H book_events provenance cycle now intents b =
     (case b of (aggregate, reason, quote_id) \<Rightarrow>
     rbind (intent_by_id intents (od_order_intent_id (oa_order aggregate))) (\<lambda>intent.
     rbind (append_order_event H (oa_order aggregate) book_events
         (blocked_request BLOCKED_BY_DATA now reason quote_id cycle) provenance) (\<lambda>event.
     Inr (status_mutation aggregate intent event))))"

definition prepare_blocked_mutations ::
  "digest \<Rightarrow> order_event list \<Rightarrow> order_event_provenance \<Rightarrow> paper_cycle \<Rightarrow> instant \<Rightarrow> q1_order_intent list
    \<Rightarrow> order_aggregate list \<Rightarrow> blocked_reasons \<Rightarrow> prepared_mutation list result" where
  "prepare_blocked_mutations H book_events provenance cycle now intents pending reasons =
     rmap (blocked_mutation H book_events provenance cycle now intents)
       (List.map_filter (\<lambda>a. map_option (\<lambda>r. (a, r)) (map_of reasons (od_order_intent_id (oa_order a)))) pending)"

section \<open>Candidates\<close>

record market_access =
  ma_first_executable_quote :: "order_descriptor \<Rightarrow> instant \<Rightarrow> market_quote option"
  ma_completed_adv_shares :: "string \<Rightarrow> (decimal \<times> string list) option"
  ma_quotes :: "market_quote list"
  ma_stream_state :: string

definition quote_cursor :: "market_quote list \<Rightarrow> order_event list \<Rightarrow> order_aggregate \<Rightarrow> instant result" where
  "quote_cursor quotes events aggregate =
     (let quote_ids = List.map_filter oe_quote_id
            (filter (\<lambda>e. oe_order_intent_id e = od_order_intent_id (oa_order aggregate)) events) in
      if quote_ids = [] then Inr (od_created_at (oa_order aggregate))
      else
        let rows = filter (\<lambda>q. mq_quote_id q \<in> set quote_ids) quotes in
        if length rows \<noteq> length (remdups quote_ids)
        then Inl (Q1ExecutionCycleError ''Order-event quote cursor references missing market data'')
        else Inr (fold max (map (\<lambda>q. max (aware_utc (mq_event_time q)) (aware_utc (mq_available_at q))) rows)
               (od_created_at (oa_order aggregate))))"

definition session_consumed_quantity ::
  "q1_store \<Rightarrow> string \<Rightarrow> string \<Rightarrow> string \<Rightarrow> instant \<Rightarrow> instant \<Rightarrow> decimal" where
  "session_consumed_quantity st run_id arm_id symbol session_open as_of =
     column_sum (map qf_quantity (filter (\<lambda>f. qf_run_id f = run_id \<and> arm_value (qf_arm_id f) = arm_id \<and> qf_symbol f = symbol
       \<and> vr_algorithm_version f = ''q1_math_core_v1'' \<and> session_open \<le> qf_effective_at f \<and> qf_effective_at f \<le> as_of) (st_fills st)))"

definition order_cumulative_notional :: "q1_store \<Rightarrow> string \<Rightarrow> decimal" where
  "order_cumulative_notional st order_intent_id =
     dsum (map (\<lambda>f. qf_quantity f * qf_price f) (filter (\<lambda>f. qf_order_intent_id f = order_intent_id
       \<and> vr_algorithm_version f = ''q1_math_core_v1'') (st_fills st)))"

text \<open>What becomes of a pending order: nothing, a blocking reason, or a candidate with the volume consumed.\<close>

datatype screening = Left_Out | Blocked_Order string "string option" | Candidate_Order quote_candidate decimal

definition screen_order ::
  "session_clock \<Rightarrow> execution_runtime \<Rightarrow> market_access \<Rightarrow> q1_store \<Rightarrow> paper_cycle \<Rightarrow> versioned_market_session \<Rightarrow> instant
    \<Rightarrow> q1_order_book \<Rightarrow> string list \<Rightarrow> order_aggregate \<Rightarrow> screening result" where
  "screen_order clock_at rt market st cycle calendar now book expired_ids aggregate =
     (let order = oa_order aggregate in
      rbind (intent_by_id (ob_intents book) (od_order_intent_id order)) (\<lambda>intent.
      if od_order_intent_id order \<in> set expired_ids then Inr Left_Out
      else if \<not> is_regular_session_time (Aware now) calendar
      then Inr (Blocked_Order ''OUTSIDE_ACTUAL_REGULAR_SESSION'' None)
      else if od_order_class order = NORMAL_ORDER \<and> now < fst (normal_order_window clock_at calendar (er_schedule rt))
      then Inr Left_Out
      else if ma_stream_state market \<noteq> ''CONNECTED'' then Inr (Blocked_Order ''MARKET_STREAM_NOT_CONNECTED'' None)
      else
        rbind (quote_cursor (ma_quotes market) (ob_events book) aggregate) (\<lambda>cursor.
        case ma_first_executable_quote market order cursor of
          None \<Rightarrow> Inr (Blocked_Order ''NO_FRESH_POST_INTENT_EXECUTABLE_QUOTE'' None)
        | Some quote \<Rightarrow>
            (case ma_completed_adv_shares market (od_symbol order) of
               None \<Rightarrow> Inr (Blocked_Order ''POINT_IN_TIME_ADV_UNAVAILABLE'' (Some (mq_quote_id quote)))
             | Some (adv, bar_ids) \<Rightarrow>
                 let consumed = session_consumed_quantity st (pc_run_id cycle) (od_arm_id order) (od_symbol order)
                       (vm_open_at calendar) now;
                     cap = py_max 0 (adv * xc_adv_participation (er_execution_config rt) - consumed) in
                 Inr (Candidate_Order
                   \<lparr>qc_aggregate = aggregate, qc_intent = intent, qc_quote = quote, qc_adv_shares = adv,
                    qc_adv_bar_ids = bar_ids, qc_remaining_adv_capacity = cap,
                    qc_cumulative_notional_before = order_cumulative_notional st (od_order_intent_id order)\<rparr> consumed)))))"

text \<open>
  The spread of the quote times of one decision in seconds. The float of \<^verbatim>\<open>total_seconds()\<close> prints as
  the exact number of microseconds below 31 years.
\<close>

definition quote_skew_seconds :: "quote_candidate list \<Rightarrow> decimal" where
  "quote_skew_seconds candidates =
     (case map (\<lambda>c. aware_utc (mq_event_time (qc_quote c))) candidates of
        [] \<Rightarrow> 0
      | t # ts \<Rightarrow> D (fold max ts t - fold min ts t) (- 6))"

definition decision_bundle :: "quote_candidate list \<Rightarrow> quote_candidate \<Rightarrow> quote_candidate list" where
  "decision_bundle candidates c =
     filter (\<lambda>d. oi_portfolio_decision_id (qc_intent d) = oi_portfolio_decision_id (qc_intent c)) candidates"

definition skew_blocked :: "execution_runtime \<Rightarrow> quote_candidate list \<Rightarrow> quote_candidate \<Rightarrow> bool" where
  "skew_blocked rt candidates c \<longleftrightarrow>
     \<not> quote_skew_seconds (decision_bundle candidates c) \<le> D (er_maximum_quote_skew_seconds rt) 0"

section \<open>The transaction\<close>

record commit_state =
  co_store :: q1_store
  co_fill_ids :: "string list"
  co_event_ids :: "string list"
  co_state_sequences :: "(string, int) dict"

text \<open>Storing the fill of a mutation: fill, cash event and the next state of the arm.\<close>

definition commit_fill ::
  "digest \<Rightarrow> database \<Rightarrow> paper_cycle \<Rightarrow> instant \<Rightarrow> prepared_mutation \<Rightarrow> q1_fill \<Rightarrow> commit_state \<Rightarrow> commit_state result" where
  "commit_fill H db cycle now m f cs =
     rbind (latest_arm_state (pc_run_id cycle) (arm_value (oi_arm_id (pm_intent m))) (co_store cs)) (\<lambda>state.
     case (state, pm_state_before_sequence m, pm_state_after m) of
       (Some s, Some before, Some after) \<Rightarrow>
         if as_sequence s \<noteq> before
         then Inl (Q1ExecutionCycleError ''Arm state changed during execution preparation'')
         else
           rbind (append_fill f (co_store cs)) (\<lambda>(_, st1).
           case pm_settlement_event m of
             None \<Rightarrow> Inl (Q1ExecutionCycleError ''Fill is missing a settlement event'')
           | Some event \<Rightarrow>
               rbind (store_cash_event db event st1) (\<lambda>(_, st2).
               rbind (append_arm_state H (pc_run_id cycle) after (pc_cycle_id cycle) (Aware now) (Some (as_sequence s)) st2) (\<lambda>(_, st3).
               Inr (cs\<lparr>co_store := st3, co_fill_ids := co_fill_ids cs @ [qf_fill_id f],
                 co_state_sequences := AList.update (arm_value (oi_arm_id (pm_intent m))) (as_sequence after) (co_state_sequences cs)\<rparr>))))
     | _ \<Rightarrow> Inl (Q1ExecutionCycleError ''Arm state changed during execution preparation''))"

definition commit_mutation ::
  "digest \<Rightarrow> database \<Rightarrow> paper_cycle \<Rightarrow> instant \<Rightarrow> order_aggregate list \<Rightarrow> prepared_mutation \<Rightarrow> commit_state \<Rightarrow> commit_state result" where
  "commit_mutation H db cycle now pending m cs =
     (case List.find (\<lambda>a. od_order_intent_id (oa_order a) = oi_order_intent_id (pm_intent m)) (rev pending) of
        None \<Rightarrow> Inl (Q1ExecutionCycleError ''Order state changed during execution preparation'')
      | Some actual \<Rightarrow>
          if oa_latest_event_id actual \<noteq> oa_latest_event_id (pm_aggregate m)
          then Inl (Q1ExecutionCycleError ''Order state changed during execution preparation'')
          else
            rbind (case pm_fill m of None \<Rightarrow> Inr cs | Some f \<Rightarrow> commit_fill H db cycle now m f cs) (\<lambda>cs'.
            rbind (store_order_event db (pm_event m) (co_store cs')) (\<lambda>(_, st').
            Inr (cs'\<lparr>co_store := st', co_event_ids := co_event_ids cs' @ [oe_event_id (pm_event m)]\<rparr>))))"

definition commit_output :: "commit_state \<Rightarrow> prepared_mutation list \<Rightarrow> string \<Rightarrow> pyval" where
  "commit_output cs mutations stream_state =
     VDict [(''status'', VStr (if mutations = [] then ''NO_PENDING_EXECUTION'' else ''Q1_EXECUTION_EVENTS_COMMITTED'')),
            (''fill_ids'', VList (map VStr (co_fill_ids cs))), (''order_event_ids'', VList (map VStr (co_event_ids cs))),
            (''state_sequences'', VDict (map (\<lambda>(a, n). (a, VInt n)) (co_state_sequences cs))),
            (''stream_state'', VStr stream_state), (''real_order_routing'', VBool False)]"

definition commit_execution ::
  "digest \<Rightarrow> database \<Rightarrow> execution_runtime \<Rightarrow> versioned_market_session \<Rightarrow> string \<Rightarrow> string \<Rightarrow> paper_cycle \<Rightarrow> instant
    \<Rightarrow> prepared_mutation list \<Rightarrow> q1_store \<Rightarrow> (pyval \<times> q1_store) result" where
  "commit_execution H db rt calendar stream_state source_manifest_hash cycle now mutations st =
     rbind (lease_owner cycle) (\<lambda>owner.
     rbind (require_cycle_fence db (st_cycles st) (pc_cycle_id cycle) owner (pc_attempt_count cycle) (Aware now)) (\<lambda>locked.
     rbind (load_q1_order_book (pc_run_id cycle) None st) (\<lambda>book.
     rbind (pending_orders (ob_descriptors book) (ob_events book) (Some (Aware now))) (\<lambda>pending.
     rbind (rfold (commit_mutation H db cycle now pending) mutations
         \<lparr>co_store = st, co_fill_ids = [], co_event_ids = [], co_state_sequences = []\<rparr>) (\<lambda>cs.
     let output = commit_output cs mutations stream_state in
     rbind (complete_fenced_cycle H (Aware now)
         (VDict [(''cycle_id'', VStr (pc_cycle_id cycle)), (''calendar_session_id'', VStr (vm_calendar_session_id calendar)),
            (''source_manifest_hash'', VStr source_manifest_hash), (''config_manifest_hash'', VStr (er_manifest_hash rt)),
            (''real_order_routing'', VBool False)]) output (Aware now) locked) (\<lambda>completed.
     Inr (output, (co_store cs)\<lparr>st_cycles :=
       map (\<lambda>c. if cy_cycle_id c = pc_cycle_id cycle then completed else c) (st_cycles (co_store cs))\<rparr>)))))))"

section \<open>The cycle\<close>

definition read_states :: "string \<Rightarrow> q1_order_book \<Rightarrow> q1_store \<Rightarrow> (string, q1_arm_state) dict result" where
  "read_states run_id book st =
     rbind (rmap (\<lambda>a. rbind (latest_arm_state run_id a st) (\<lambda>s. Inr (a, s))) (sort (remdups (map od_arm_id (ob_descriptors book))))) (\<lambda>xs.
     Inr (List.map_filter (\<lambda>(a, s). map_option (\<lambda>x. (a, x)) s) xs))"

definition screened_candidates :: "(order_aggregate \<times> screening) list \<Rightarrow> (quote_candidate \<times> decimal) list" where
  "screened_candidates screened = List.map_filter (\<lambda>(_, s). case s of Candidate_Order c consumed \<Rightarrow> Some (c, consumed) | _ \<Rightarrow> None) screened"

definition screened_reasons :: "(order_aggregate \<times> screening) list \<Rightarrow> blocked_reasons" where
  "screened_reasons screened = List.map_filter (\<lambda>(a, s). case s of
     Blocked_Order reason quote_id \<Rightarrow> Some (od_order_intent_id (oa_order a), reason, quote_id) | _ \<Rightarrow> None) screened"

definition skew_reasons :: "execution_runtime \<Rightarrow> quote_candidate list \<Rightarrow> blocked_reasons" where
  "skew_reasons rt candidates =
     map (\<lambda>c. (oi_order_intent_id (qc_intent c), ''MULTI_SYMBOL_QUOTE_SKEW_EXCEEDED'', Some (mq_quote_id (qc_quote c))))
       (filter (skew_blocked rt candidates) candidates)"

definition execution_manifest ::
  "versioned_market_session \<Rightarrow> string \<Rightarrow> order_aggregate list \<Rightarrow> (quote_candidate \<times> decimal) list \<Rightarrow> blocked_reasons \<Rightarrow> date list \<Rightarrow> pyval" where
  "execution_manifest calendar stream_state pending candidates reasons calendar_dates =
     VDict
       [(''calendar_session_id'', VStr (vm_calendar_session_id calendar)), (''stream_state'', VStr stream_state),
        (''pending_latest_event_ids'', VDict (map (\<lambda>a. (od_order_intent_id (oa_order a), VStr (oa_latest_event_id a))) pending)),
        (''quotes'', VDict (map (\<lambda>(c, _). (od_order_intent_id (oa_order (qc_aggregate c)),
           VDict [(''quote_id'', VStr (mq_quote_id (qc_quote c))), (''event_time'', VTime (aware_utc (mq_event_time (qc_quote c)))),
                  (''available_at'', VTime (aware_utc (mq_available_at (qc_quote c))))])) candidates)),
        (''adv'', VDict (map (\<lambda>(c, consumed). (od_order_intent_id (oa_order (qc_aggregate c)),
           VDict [(''adv_shares'', VDec (qc_adv_shares c)), (''bar_ids'', VList (map VStr (qc_adv_bar_ids c))),
                  (''consumed_quantity'', VDec consumed), (''remaining_capacity'', VDec (qc_remaining_adv_capacity c))])) candidates)),
        (''blocked'', VDict (map (\<lambda>(i, reason, quote_id). (i, VList [VStr reason, vopt VStr quote_id])) reasons)),
        (''settlement_calendar_dates'', VList (map VDate calendar_dates))]"

definition process_execution ::
  "digest \<Rightarrow> database \<Rightarrow> session_clock \<Rightarrow> execution_runtime \<Rightarrow> market_access \<Rightarrow> versioned_market_session \<Rightarrow> date list \<Rightarrow> paper_cycle
    \<Rightarrow> instant \<Rightarrow> q1_store \<Rightarrow> (pyval \<times> q1_store) result" where
  "process_execution H db clock_at rt market calendar calendar_dates cycle now st =
     rbind (load_q1_order_book (pc_run_id cycle) None st) (\<lambda>book.
     rbind (read_states (pc_run_id cycle) book st) (\<lambda>states.
     rbind (pending_orders (ob_descriptors book) (ob_events book) (Some (Aware now))) (\<lambda>pending.
     rbind (cycle_provenance rt cycle (canonical_hash H (VDict [(''cycle_id'', VStr (pc_cycle_id cycle)),
         (''calendar_session_id'', VStr (vm_calendar_session_id calendar)), (''status'', VStr ''EXPIRY_PREPARATION'')]))) (\<lambda>expiry.
     rbind (expire_orders H (ob_descriptors book) (ob_events book) (Aware now) expiry (pc_cycle_id cycle)
         (vm_close_at calendar \<le> now)) (\<lambda>expired.
     rbind (rmap (\<lambda>a. rbind (screen_order clock_at rt market st cycle calendar now book (map oe_order_intent_id expired) a)
         (\<lambda>s. Inr (a, s))) pending) (\<lambda>screened.
     let candidates = screened_candidates screened;
         reasons = screened_reasons screened @ skew_reasons rt (map fst candidates);
         kept = filter (\<lambda>c. \<not> skew_blocked rt (map fst candidates) c) (map fst candidates);
         source_manifest_hash = canonical_hash H
           (execution_manifest calendar (ma_stream_state market) pending candidates reasons calendar_dates) in
     rbind (cycle_provenance rt cycle source_manifest_hash) (\<lambda>provenance.
     rbind (prepare_expiry_mutations H (ob_events book) provenance cycle now (ob_intents book) expired) (\<lambda>expiries.
     rbind (prepare_blocked_mutations H (ob_events book) provenance cycle now (ob_intents book) pending reasons) (\<lambda>blocked.
     rbind (prepare_fill_mutations H rt cycle calendar calendar_dates provenance (ob_events book) now source_manifest_hash kept states) (\<lambda>fills.
     commit_execution H db rt calendar (ma_stream_state market) source_manifest_hash cycle now (expiries @ blocked @ fills) st))))))))))"

section \<open>What a commit does\<close>

text \<open>Every append touches one table, at its end.\<close>

lemma append_fill_frame:
  assumes "append_fill f st = Inr (r, st')"
  shows "\<exists>fs. st' = st\<lparr>st_fills := st_fills st @ fs\<rparr>" "r \<in> set (st_fills st') \<and> qf_fill_hash r = qf_fill_hash f"
proof -
  have "st' = st\<lparr>st_fills := st_fills st @ []\<rparr> \<or> st' = st\<lparr>st_fills := st_fills st @ [f]\<rparr>"
    using assms by (auto simp: append_fill_def split: option.splits if_splits)
  then show "\<exists>fs. st' = st\<lparr>st_fills := st_fills st @ fs\<rparr>" by blast
  show "r \<in> set (st_fills st') \<and> qf_fill_hash r = qf_fill_hash f"
    using assms by (auto simp: append_fill_def split: option.splits if_splits dest: find_SomeD)
qed

lemma store_cash_frame:
  assumes "store_cash_event db e st = Inr (r, st')"
  shows "\<exists>cs. st' = st\<lparr>st_cash := st_cash st @ cs\<rparr>" "r \<in> set (st_cash st') \<and> cs_event_hash r = cs_event_hash e"
proof -
  have "st' = st\<lparr>st_cash := st_cash st @ []\<rparr> \<or> st' = st\<lparr>st_cash := st_cash st @ [e]\<rparr>"
    using assms by (auto simp: store_cash_event_Inr split: option.splits)
  then show "\<exists>cs. st' = st\<lparr>st_cash := st_cash st @ cs\<rparr>" by blast
  show "r \<in> set (st_cash st') \<and> cs_event_hash r = cs_event_hash e"
    using assms by (auto simp: store_cash_event_Inr split: option.splits dest: find_SomeD identity_matchD)
qed

lemma store_order_frame:
  assumes "store_order_event db e st = Inr (r, st')"
  shows "\<exists>es. st' = st\<lparr>st_order_events := st_order_events st @ es\<rparr>"
    "r \<in> set (st_order_events st') \<and> oe_idempotency_key (se_event r) = oe_idempotency_key e \<and> oe_event_hash (se_event r) = oe_event_hash e"
proof -
  have "st' = st\<lparr>st_order_events := st_order_events st @ []\<rparr> \<or> (\<exists>r. st' = st\<lparr>st_order_events := st_order_events st @ [r]\<rparr>)"
    using assms by (auto simp: store_order_event_Inr split: option.splits)
  then show "\<exists>es. st' = st\<lparr>st_order_events := st_order_events st @ es\<rparr>" by blast
  show "r \<in> set (st_order_events st') \<and> oe_idempotency_key (se_event r) = oe_idempotency_key e \<and> oe_event_hash (se_event r) = oe_event_hash e"
    using assms by (auto simp: store_order_event_Inr split: option.splits dest: find_SomeD)
qed

definition committed_state :: "prepared_mutation \<Rightarrow> q1_arm_state option" where
  "committed_state m = (case pm_fill m of None \<Rightarrow> None | Some _ \<Rightarrow> pm_state_after m)"

definition mutation_ok :: "prepared_mutation \<Rightarrow> bool" where
  "mutation_ok m \<longleftrightarrow> (case committed_state m of None \<Rightarrow> True
     | Some s \<Rightarrow> arm_wf s \<and> dates_ok s \<and> as_arm_id s = arm_value (oi_arm_id (pm_intent m)))"

definition mutation_stored :: "q1_store \<Rightarrow> prepared_mutation \<Rightarrow> bool" where
  "mutation_stored st m \<longleftrightarrow>
     (\<exists>r\<in>set (st_order_events st). oe_idempotency_key (se_event r) = oe_idempotency_key (pm_event m)
        \<and> oe_event_hash (se_event r) = oe_event_hash (pm_event m))
     \<and> (\<forall>f. pm_fill m = Some f \<longrightarrow> (\<exists>r\<in>set (st_fills st). qf_fill_hash r = qf_fill_hash f)
          \<and> (\<exists>e. pm_settlement_event m = Some e \<and> (\<exists>r\<in>set (st_cash st). cs_event_hash r = cs_event_hash e)))"

text \<open>A store extends another, with the given arm states.\<close>

definition extends_by :: "stored_arm_state list \<Rightarrow> q1_store \<Rightarrow> q1_store \<Rightarrow> bool" where
  "extends_by rows st st' \<longleftrightarrow>
     st_cycles st' = st_cycles st \<and> st_arm_states st' = st_arm_states st @ rows
     \<and> (\<exists>es. st_order_events st' = st_order_events st @ es) \<and> (\<exists>fs. st_fills st' = st_fills st @ fs)
     \<and> (\<exists>cs. st_cash st' = st_cash st @ cs)"

lemma extends_by_trans: "extends_by a st1 st2 \<Longrightarrow> extends_by b st2 st3 \<Longrightarrow> extends_by (a @ b) st1 st3"
  by (auto simp: extends_by_def)

lemma extends_by_stored: "extends_by a st st' \<Longrightarrow> mutation_stored st m \<Longrightarrow> mutation_stored st' m"
  unfolding extends_by_def mutation_stored_def by auto blast+

lemma commit_fill_Inr:
  assumes "commit_fill H db cycle now m f cs = Inr cs'" "pm_fill m = Some f" "mutation_ok m"
    and "\<forall>arm. arm_chain (pc_run_id cycle) arm (co_store cs)"
    and "\<forall>s. committed_state m = Some s \<longrightarrow>
      sn_arm_state_snapshot_id (arm_state_row H (pc_run_id cycle) s (pc_cycle_id cycle) now)
        \<notin> set (map sn_arm_state_snapshot_id (st_arm_states (co_store cs)))"
  shows "\<exists>s. committed_state m = Some s
    \<and> extends_by [arm_state_row H (pc_run_id cycle) s (pc_cycle_id cycle) now] (co_store cs) (co_store cs')
    \<and> (\<exists>r\<in>set (st_fills (co_store cs')). qf_fill_hash r = qf_fill_hash f)
    \<and> (\<exists>e. pm_settlement_event m = Some e \<and> (\<exists>r\<in>set (st_cash (co_store cs')). cs_event_hash r = cs_event_hash e))
    \<and> (\<forall>arm. arm_chain (pc_run_id cycle) arm (co_store cs'))"
proof -
  let ?run = "pc_run_id cycle" and ?st = "co_store cs"
  obtain state where state: "latest_arm_state ?run (arm_value (oi_arm_id (pm_intent m))) ?st = Inr state"
    using assms(1) by (auto simp: commit_fill_def rbind_eq_Inr)
  obtain after r1 st1 e r2 st2 expected r3 st3 where
    "pm_state_after m = Some after" "append_fill f ?st = Inr (r1, st1)" "pm_settlement_event m = Some e"
    "store_cash_event db e st1 = Inr (r2, st2)"
    "append_arm_state H ?run after (pc_cycle_id cycle) (Aware now) expected st2 = Inr (r3, st3)" "co_store cs' = st3"
    using assms(1) state
    by (cases state; cases "pm_state_before_sequence m"; cases "pm_state_after m"; cases "pm_settlement_event m")
      (fastforce simp: commit_fill_def result_simps split: if_splits)+
  note run = this
  let ?row = "arm_state_row H ?run after (pc_cycle_id cycle) now"
  have after: "committed_state m = Some after" using run(1) assms(2) by (simp add: committed_state_def)
  then have ok: "arm_wf after" "dates_ok after" "as_arm_id after = arm_value (oi_arm_id (pm_intent m))" using assms(3) by (simp_all add: mutation_ok_def)
  obtain fs cash where st2: "st2 = ?st\<lparr>st_fills := st_fills ?st @ fs, st_cash := st_cash ?st @ cash\<rparr>"
    using append_fill_frame(1) [OF run(2)] store_cash_frame(1) [OF run(4)] by auto
  then have chain2: "arm_chain ?run arm st2" for arm using assms(4) by (simp add: arm_chain_def arm_rows_def)
  have fresh: "sn_arm_state_snapshot_id x = sn_arm_state_snapshot_id ?row \<Longrightarrow>
      sn_run_id x = ?run \<and> sn_arm_id x = as_arm_id after \<and> sn_sequence x = as_sequence after" if "x \<in> set (st_arm_states st2)" for x
    using that assms(5) after st2 by (auto simp: image_iff)
  have st3: "st3 = st2\<lparr>st_arm_states := st_arm_states st2 @ [?row]\<rparr>" by (rule append_arm_state_Inr(3) [OF run(5) chain2 fresh])
  have "arm_chain ?run arm st3" for arm
  proof (cases "arm = as_arm_id after")
    case True
    then show ?thesis using arm_chain_append [OF run(5) chain2 ok(1,2) fresh] by simp
  next
    case False
    then have "arm_rows ?run arm st3 = arm_rows ?run arm st2" by (simp add: st3 arm_rows_def arm_state_row_def Let_def)
    then show ?thesis using chain2 [of arm] by (simp add: arm_chain_def)
  qed
  moreover have "extends_by [?row] ?st st3" by (simp add: extends_by_def st3 st2)
  moreover have "\<exists>r\<in>set (st_fills st3). qf_fill_hash r = qf_fill_hash f"
    using append_fill_frame [OF run(2)] store_cash_frame(1) [OF run(4)] st3 by auto
  moreover have "\<exists>r\<in>set (st_cash st3). cs_event_hash r = cs_event_hash e" using store_cash_frame(2) [OF run(4)] st3 by auto
  ultimately show ?thesis using after run(3,6) by blast
qed

lemma commit_mutation_Inr:
  assumes "commit_mutation H db cycle now pending m cs = Inr cs'" "mutation_ok m"
    and "\<forall>arm. arm_chain (pc_run_id cycle) arm (co_store cs)"
    and "\<forall>s. committed_state m = Some s \<longrightarrow>
      sn_arm_state_snapshot_id (arm_state_row H (pc_run_id cycle) s (pc_cycle_id cycle) now)
        \<notin> set (map sn_arm_state_snapshot_id (st_arm_states (co_store cs)))"
  shows "extends_by (map (\<lambda>s. arm_state_row H (pc_run_id cycle) s (pc_cycle_id cycle) now) (List.map_filter committed_state [m]))
      (co_store cs) (co_store cs')
    \<and> mutation_stored (co_store cs') m \<and> (\<forall>arm. arm_chain (pc_run_id cycle) arm (co_store cs'))"
proof -
  let ?row = "\<lambda>s. arm_state_row H (pc_run_id cycle) s (pc_cycle_id cycle) now"
  obtain cs1 r where cs1: "(case pm_fill m of None \<Rightarrow> Inr cs | Some f \<Rightarrow> commit_fill H db cycle now m f cs) = Inr cs1"
    "store_order_event db (pm_event m) (co_store cs1) = Inr (r, co_store cs')"
    using assms(1) by (auto simp: commit_mutation_def rbind_eq_Inr split: option.splits if_splits)
  obtain es where es: "co_store cs' = (co_store cs1)\<lparr>st_order_events := st_order_events (co_store cs1) @ es\<rparr>"
    using store_order_frame(1) [OF cs1(2)] by blast
  have fill: "extends_by (map ?row (List.map_filter committed_state [m])) (co_store cs) (co_store cs1)
      \<and> (\<forall>arm. arm_chain (pc_run_id cycle) arm (co_store cs1))
      \<and> (\<forall>f. pm_fill m = Some f \<longrightarrow> (\<exists>r\<in>set (st_fills (co_store cs1)). qf_fill_hash r = qf_fill_hash f)
          \<and> (\<exists>e. pm_settlement_event m = Some e \<and> (\<exists>r\<in>set (st_cash (co_store cs1)). cs_event_hash r = cs_event_hash e)))"
  proof (cases "pm_fill m")
    case None
    then show ?thesis using cs1(1) assms(3) by (simp add: extends_by_def committed_state_def List.map_filter_def)
  next
    case (Some f)
    then have "commit_fill H db cycle now m f cs = Inr cs1" using cs1(1) by simp
    from commit_fill_Inr [OF this Some assms(2-4)] Some show ?thesis by (auto simp: List.map_filter_def)
  qed
  have "extends_by [] (co_store cs1) (co_store cs')" by (simp add: es extends_by_def)
  from extends_by_trans [OF conjunct1 [OF fill] this]
  have "extends_by (map ?row (List.map_filter committed_state [m])) (co_store cs) (co_store cs')" by simp
  moreover have "mutation_stored (co_store cs') m"
    using fill store_order_frame(2) [OF cs1(2)] unfolding mutation_stored_def by (auto simp: es)
  moreover have "arm_chain (pc_run_id cycle) arm (co_store cs')" for arm
    using fill by (simp add: es arm_chain_def arm_rows_def)
  ultimately show ?thesis by blast
qed

lemma commit_loop:
  assumes "rfold (commit_mutation H db cycle now pending) ms cs = Inr cs'" "\<forall>m\<in>set ms. mutation_ok m"
    and "\<forall>arm. arm_chain (pc_run_id cycle) arm (co_store cs)"
    and "distinct (map sn_arm_state_snapshot_id (st_arm_states (co_store cs)
      @ map (\<lambda>s. arm_state_row H (pc_run_id cycle) s (pc_cycle_id cycle) now) (List.map_filter committed_state ms)))"
  shows "extends_by (map (\<lambda>s. arm_state_row H (pc_run_id cycle) s (pc_cycle_id cycle) now) (List.map_filter committed_state ms))
      (co_store cs) (co_store cs')
    \<and> (\<forall>m\<in>set ms. mutation_stored (co_store cs') m) \<and> (\<forall>arm. arm_chain (pc_run_id cycle) arm (co_store cs'))"
  using assms
proof (induction ms arbitrary: cs)
  case (Cons m ms)
  let ?rows = "\<lambda>ms. map (\<lambda>s. arm_state_row H (pc_run_id cycle) s (pc_cycle_id cycle) now) (List.map_filter committed_state ms)"
  obtain cs1 where cs1: "commit_mutation H db cycle now pending m cs = Inr cs1"
    "rfold (commit_mutation H db cycle now pending) ms cs1 = Inr cs'" using Cons.prems(1) by (auto simp: result_simps)
  have split: "?rows (m # ms) = ?rows [m] @ ?rows ms" by (simp add: List.map_filter_def)
  have fresh: "\<forall>s. committed_state m = Some s \<longrightarrow>
      sn_arm_state_snapshot_id (arm_state_row H (pc_run_id cycle) s (pc_cycle_id cycle) now)
        \<notin> set (map sn_arm_state_snapshot_id (st_arm_states (co_store cs)))"
    using Cons.prems(4) unfolding split by (auto simp: List.map_filter_def)
  have "mutation_ok m" using Cons.prems(2) by simp
  from commit_mutation_Inr [OF cs1(1) this Cons.prems(3) fresh]
  have m: "extends_by (?rows [m]) (co_store cs) (co_store cs1)" "mutation_stored (co_store cs1) m"
    "\<forall>arm. arm_chain (pc_run_id cycle) arm (co_store cs1)" by blast+
  have "distinct (map sn_arm_state_snapshot_id (st_arm_states (co_store cs1) @ ?rows ms))"
    using Cons.prems(4) m(1) unfolding split by (simp add: extends_by_def)
  from Cons.IH [OF cs1(2) _ m(3) this] Cons.prems(2)
  have ms: "extends_by (?rows ms) (co_store cs1) (co_store cs')" "\<forall>m\<in>set ms. mutation_stored (co_store cs') m"
    "\<forall>arm. arm_chain (pc_run_id cycle) arm (co_store cs')" by simp_all
  show ?case unfolding split using extends_by_trans [OF m(1) ms(1)] extends_by_stored [OF ms(1) m(2)] ms(2,3) by simp
qed (simp add: extends_by_def List.map_filter_def)

lemma append_arm_cycles: "append_arm_state H run s c t p st = Inr (r, st') \<Longrightarrow> st_cycles st' = st_cycles st"
  by (auto simp: append_arm_state_def Let_def result_simps split: if_splits option.splits)

lemma commit_fill_cycles: "commit_fill H db cycle now m f cs = Inr cs' \<Longrightarrow> st_cycles (co_store cs') = st_cycles (co_store cs)"
  unfolding commit_fill_def rbind_eq_Inr
  by (elim exE conjE) (auto simp: result_simps dest!: append_fill_frame(1) store_cash_frame(1) append_arm_cycles split: option.splits if_splits)

lemma commit_mutation_cycles:
  assumes "commit_mutation H db cycle now pending m cs = Inr cs'"
  shows "st_cycles (co_store cs') = st_cycles (co_store cs)"
proof -
  obtain cs1 r where cs1: "(case pm_fill m of None \<Rightarrow> Inr cs | Some f \<Rightarrow> commit_fill H db cycle now m f cs) = Inr cs1"
    "store_order_event db (pm_event m) (co_store cs1) = Inr (r, co_store cs')"
    using assms by (auto simp: commit_mutation_def rbind_eq_Inr split: option.splits if_splits)
  then show ?thesis using store_order_frame(1) [OF cs1(2)] by (auto split: option.splits dest: commit_fill_cycles)
qed

lemma rfold_each: "rfold f xs s = Inr s' \<Longrightarrow> x \<in> set xs \<Longrightarrow> \<exists>s1 s2. f x s1 = Inr s2"
  by (induction xs arbitrary: s) (auto simp: rbind_eq_Inr)

lemma commit_mutation_pending:
  "commit_mutation H db cycle now pending m cs = Inr cs' \<Longrightarrow>
    \<exists>a\<in>set pending. od_order_intent_id (oa_order a) = oi_order_intent_id (pm_intent m) \<and> oa_latest_event_id a = oa_latest_event_id (pm_aggregate m)"
  by (auto simp: commit_mutation_def split: option.splits if_splits dest!: find_SomeD)

lemma find_replaced:
  assumes "List.find (\<lambda>c. cy_cycle_id c = k) cs = Some c" "cy_cycle_id fin = k"
  shows "List.find (\<lambda>c. cy_cycle_id c = k) (map (\<lambda>c. if cy_cycle_id c = k then fin else c) cs) = Some fin"
  using assms by (induction cs) (auto split: if_splits)

lemma commit_execution_Inr:
  assumes "commit_execution H db rt calendar ss smh cycle now ms st = Inr (out, st')"
  obtains book pending cs fin where "load_q1_order_book (pc_run_id cycle) None st = Inr book"
    "pending_orders (ob_descriptors book) (ob_events book) (Some (Aware now)) = Inr pending"
    "rfold (commit_mutation H db cycle now pending) ms \<lparr>co_store = st, co_fill_ids = [], co_event_ids = [], co_state_sequences = []\<rparr> = Inr cs"
    "cy_status fin = ''COMPLETED''" "List.find (\<lambda>c. cy_cycle_id c = pc_cycle_id cycle) (st_cycles st') = Some fin"
    "st' = (co_store cs)\<lparr>st_cycles := st_cycles st'\<rparr>"
proof -
  let ?start = "\<lparr>co_store = st, co_fill_ids = [], co_event_ids = [], co_state_sequences = []\<rparr>"
  let ?find = "List.find (\<lambda>c. cy_cycle_id c = pc_cycle_id cycle)"
  obtain owner locked book pending cs fin where *:
    "require_cycle_fence db (st_cycles st) (pc_cycle_id cycle) owner (pc_attempt_count cycle) (Aware now) = Inr locked"
    "load_q1_order_book (pc_run_id cycle) None st = Inr book"
    "pending_orders (ob_descriptors book) (ob_events book) (Some (Aware now)) = Inr pending"
    "rfold (commit_mutation H db cycle now pending) ms ?start = Inr cs"
    "\<exists>i. complete_fenced_cycle H (Aware now) i (commit_output cs ms ss) (Aware now) locked = Inr fin"
    "st' = (co_store cs)\<lparr>st_cycles := map (\<lambda>c. if cy_cycle_id c = pc_cycle_id cycle then fin else c) (st_cycles (co_store cs))\<rparr>"
    using assms unfolding commit_execution_def Let_def rbind_eq_Inr
    by (elim exE conjE) (rule that, assumption+, rule exI, assumption, simp)
  have locked: "?find (st_cycles st) = Some locked" using *(1) by (auto simp: require_cycle_fence_def rbind_eq_Inr split: option.splits if_splits)
  moreover have "cy_cycle_id fin = cy_cycle_id locked \<and> cy_status fin = ''COMPLETED''"
    using *(5) by (auto simp: complete_fenced_cycle_def)
  moreover have "st_cycles (co_store cs) = st_cycles (co_store ?start)"
    using *(4) by (rule rfold_invariant) (auto dest: commit_mutation_cycles)
  ultimately have "?find (st_cycles st') = Some fin" "cy_status fin = ''COMPLETED''"
    using find_replaced [of "pc_cycle_id cycle" "st_cycles st" locked fin] find_SomeD [OF locked] by (auto simp: *(6))
  then show thesis using that [of book pending cs fin] * by simp
qed

section \<open>Properties\<close>

text \<open>
  C7. An execution cycle commits at most once: after a commit, no other commit and no other run of
  the same cycle succeeds, with any worker, lease attempt, clock and mutations, as long as the row
  of the cycle stays as the commit left it.\<close>

theorem cycle_commits_once:
  assumes "commit_execution H db rt calendar ss smh cycle now ms st = Inr (out, st')" "pc_cycle_id cycle2 = pc_cycle_id cycle"
    and "List.find (\<lambda>c. cy_cycle_id c = pc_cycle_id cycle) (st_cycles st2) = List.find (\<lambda>c. cy_cycle_id c = pc_cycle_id cycle) (st_cycles st')"
  shows "commit_execution H2 db2 rt2 calendar2 ss2 smh2 cycle2 now2 ms2 st2 \<noteq> Inr x
    \<and> process_execution H2 db2 clock rt2 market calendar2 dates cycle2 now2 st2 \<noteq> Inr x"
proof -
  obtain fin where fin: "cy_status fin = ''COMPLETED''" "List.find (\<lambda>c. cy_cycle_id c = pc_cycle_id cycle) (st_cycles st2) = Some fin"
    using assms(1,3) by (elim commit_execution_Inr) simp
  then have "require_cycle_fence db2 (st_cycles st2) (pc_cycle_id cycle2) owner n d \<noteq> Inr y" for owner n d y
    using assms(2) by (auto simp: require_cycle_fence_def lease_held_def result_simps)
  then have no: "commit_execution H2 db2 rt2 calendar2 ss3 smh3 cycle2 now2 ms3 st2 \<noteq> Inr x" for ss3 smh3 ms3
    by (simp add: commit_execution_def rbind_eq_Inr)
  then show ?thesis by (simp add: process_execution_def rbind_eq_Inr Let_def)
qed

text \<open>
  C8. A commit only extends the store: it adds exactly the states of its fills to the chains of arm
  states, which stay gapless, keeps every stored row, stores the order event of every mutation
  and the fill and cash event of every fill, and touches only orders that were still pending with
  the event they were prepared from. The new states are well-formed and the snapshot identifiers
  distinct.\<close>

theorem commit_extends_store:
  assumes "commit_execution H db rt calendar ss smh cycle now ms st = Inr (out, st')"
    and "\<forall>arm. arm_chain (pc_run_id cycle) arm st" "\<forall>m\<in>set ms. mutation_ok m"
    and "distinct (map sn_arm_state_snapshot_id (st_arm_states st
      @ map (\<lambda>s. arm_state_row H (pc_run_id cycle) s (pc_cycle_id cycle) now) (List.map_filter committed_state ms)))"
  shows "(\<forall>arm. arm_chain (pc_run_id cycle) arm st')
    \<and> st_arm_states st' = st_arm_states st
        @ map (\<lambda>s. arm_state_row H (pc_run_id cycle) s (pc_cycle_id cycle) now) (List.map_filter committed_state ms)
    \<and> (\<exists>es. st_order_events st' = st_order_events st @ es) \<and> (\<exists>fs. st_fills st' = st_fills st @ fs)
    \<and> (\<exists>cs. st_cash st' = st_cash st @ cs) \<and> (\<forall>m\<in>set ms. mutation_stored st' m)
    \<and> (\<exists>book pending. load_q1_order_book (pc_run_id cycle) None st = Inr book
        \<and> pending_orders (ob_descriptors book) (ob_events book) (Some (Aware now)) = Inr pending
        \<and> (\<forall>m\<in>set ms. \<exists>a\<in>set pending. od_order_intent_id (oa_order a) = oi_order_intent_id (pm_intent m)
             \<and> oa_latest_event_id a = oa_latest_event_id (pm_aggregate m)))"
proof -
  obtain book pending cs where book: "load_q1_order_book (pc_run_id cycle) None st = Inr book"
      "pending_orders (ob_descriptors book) (ob_events book) (Some (Aware now)) = Inr pending"
    and cs: "rfold (commit_mutation H db cycle now pending) ms
      \<lparr>co_store = st, co_fill_ids = [], co_event_ids = [], co_state_sequences = []\<rparr> = Inr cs" "st' = (co_store cs)\<lparr>st_cycles := st_cycles st'\<rparr>"
    using assms(1) by (elim commit_execution_Inr)
  have same: "st_arm_states st' = st_arm_states (co_store cs)" "st_order_events st' = st_order_events (co_store cs)"
    "st_fills st' = st_fills (co_store cs)" "st_cash st' = st_cash (co_store cs)" by (subst cs(2), simp)+
  then have "mutation_stored st' m = mutation_stored (co_store cs) m" "arm_chain run arm st' = arm_chain run arm (co_store cs)" for m run arm
    by (simp_all add: mutation_stored_def arm_chain_def arm_rows_def)
  moreover have "\<forall>m\<in>set ms. \<exists>a\<in>set pending. od_order_intent_id (oa_order a) = oi_order_intent_id (pm_intent m)
      \<and> oa_latest_event_id a = oa_latest_event_id (pm_aggregate m)"
    using rfold_each [OF cs(1)] commit_mutation_pending by blast
  ultimately show ?thesis using commit_loop [OF cs(1) assms(3)] assms(2,4) same book unfolding extends_by_def by simp
qed

section \<open>Examples\<close>

text \<open>The arm of \<open>ex_sold_arm\<close>, before the order that sells its share is committed.\<close>

definition ex_sold_intent :: q1_order_intent where
  "ex_sold_intent = (ex_intent ''o1'' SELL)\<lparr>oi_run_id := ''run'', oi_arm_id := Q1_DET, oi_symbol := ''QQQ'', oi_quantity := D 1 0,
     oi_created_at := 5, oi_valid_until := 100\<rparr>"

definition ex_sold_created :: order_event where
  "ex_sold_created = (example_event ''o1'' 1 CREATED 0 (D 1 0) 0 5)\<lparr>oe_source_cycle_id := Some ''cycle''\<rparr>"

definition ex_commit_store :: "stored_arm_state list \<Rightarrow> q1_store" where
  "ex_commit_store rows =
     \<lparr>st_cycles = [ex_cycle_row], st_intents = [intent_row ex_sold_intent],
      st_order_events = [\<lparr>se_run_id = ''run'', se_arm_id = ''Q1-DET'', se_event = ex_sold_created\<rparr>],
      st_fills = [], st_cash = [hd ex_sold_cash], st_arm_states = rows\<rparr>"

definition ex_opening_rows :: "stored_arm_state list" where
  "ex_opening_rows = [(arm_state_row (\<lambda>_. ''h'') ''run'' ex_arm ''c0'' 10)\<lparr>sn_arm_state_snapshot_id := ''s0''\<rparr>]"

definition ex_commit_mutation :: prepared_mutation where
  "ex_commit_mutation =
     \<lparr>pm_aggregate = \<lparr>oa_order = example_order ''o1'' SELL, oa_status = CREATED, oa_remaining_quantity = D 1 0,
        oa_cumulative_filled_quantity = 0, oa_cumulative_commission_usd = 0, oa_latest_event_sequence = 1, oa_latest_event_id = ''o11''\<rparr>,
      pm_intent = ex_sold_intent, pm_event = ex_sold_event\<lparr>oe_source_cycle_id := Some ''cycle''\<rparr>, pm_fill = Some ex_sold_fill,
      pm_state_before_sequence = Some 0, pm_state_after = Some ex_sold_arm, pm_settlement_event = Some (ex_sold_cash ! 1)\<rparr>"

lemma ex_commit_book:
  "case load_q1_order_book ''run'' None (ex_commit_store rows) of Inl _ \<Rightarrow> False
   | Inr book \<Rightarrow> (case pending_orders (ob_descriptors book) (ob_events book) (Some (Aware 20)) of Inl _ \<Rightarrow> False
      | Inr ps \<Rightarrow> map (\<lambda>a. (od_order_intent_id (oa_order a), oa_latest_event_id a)) ps = [(''o1'', ''o11'')])"
  by code_simp

lemma ex_commit_state:
  "latest_arm_state ''run'' ''Q1-DET'' ((ex_commit_store ex_opening_rows)\<lparr>st_fills := fs, st_cash := cs\<rparr>) = Inr (Some (stored_state ex_arm))"
  "as_sequence (stored_state ex_arm) = 0" "\<forall>arm. arm_chain ''run'' arm (ex_commit_store ex_opening_rows)"
proof -
  have rows: "arm_rows ''run'' arm ((ex_commit_store ex_opening_rows)\<lparr>st_fills := fs, st_cash := cs\<rparr>)
      = (if arm = ''Q1-DET'' then ex_opening_rows else [])" for arm fs cs
    by (simp add: arm_rows_def ex_commit_store_def ex_opening_rows_def arm_state_row_def Let_def ex_arm_def)
  have payload: "from_payload (as_payload ex_arm) = Inr (stored_state ex_arm)"
    using arm_round_trip [OF ex_arm_facts(1)] by (simp add: dates_ok_def ex_arm_def)
  obtain r where row: "ex_opening_rows = [r]" "sn_payload_json r = as_payload ex_arm" "sn_sequence r = 0"
    by (simp add: ex_opening_rows_def arm_state_row_def Let_def ex_arm_def)
  show seq: "as_sequence (stored_state ex_arm) = 0" by (simp add: stored_state_def ex_arm_def)
  have chain: "arm_chain ''run'' arm ((ex_commit_store ex_opening_rows)\<lparr>st_fills := fs, st_cash := cs\<rparr>)" for arm fs cs
    using payload row(2,3) seq unfolding arm_chain_def rows unfolding row(1) by simp
  from chain [where fs = "[]" and cs = "[hd ex_sold_cash]"] show "\<forall>arm. arm_chain ''run'' arm (ex_commit_store ex_opening_rows)"
    by (simp add: ex_commit_store_def)
  show "latest_arm_state ''run'' ''Q1-DET'' ((ex_commit_store ex_opening_rows)\<lparr>st_fills := fs, st_cash := cs\<rparr>) = Inr (Some (stored_state ex_arm))"
    using latest_arm_row_last [of "''run''" "''Q1-DET''" "(ex_commit_store ex_opening_rows)\<lparr>st_fills := fs, st_cash := cs\<rparr>"] chain payload row(2,3)
    unfolding latest_arm_state_def arm_chain_def rows unfolding row(1) by simp
qed

lemma ex_commit_fill:
  "\<exists>cs'. commit_fill constant_digest Other_Dialect ex_cycle 20 ex_commit_mutation ex_sold_fill
      \<lparr>co_store = ex_commit_store ex_opening_rows, co_fill_ids = [], co_event_ids = [], co_state_sequences = []\<rparr> = Inr cs'
    \<and> co_store cs' = (ex_commit_store (ex_opening_rows @ [arm_state_row constant_digest ''run'' ex_sold_arm ''cycle'' 20]))
        \<lparr>st_fills := [ex_sold_fill], st_cash := ex_sold_cash\<rparr>"
proof -
  let ?st = "ex_commit_store ex_opening_rows" and ?row = "arm_state_row constant_digest ''run'' ex_sold_arm ''cycle'' 20"
  have fill: "append_fill ex_sold_fill ?st = Inr (ex_sold_fill, ?st\<lparr>st_fills := [ex_sold_fill]\<rparr>)"
    by (simp add: append_fill_def ex_commit_store_def)
  have cash: "store_cash_event Other_Dialect (ex_sold_cash ! 1) (?st\<lparr>st_fills := [ex_sold_fill]\<rparr>)
      = Inr (ex_sold_cash ! 1, ?st\<lparr>st_fills := [ex_sold_fill], st_cash := ex_sold_cash\<rparr>)"
    by (simp add: store_cash_event_Inr identity_match_def same_receivable_def same_fill_def ex_commit_store_def ex_sold_cash_def
        example_cash_event_def repository_fence_def lease_held_def ex_cycle_row_def)
  have ids: "sn_arm_state_snapshot_id ?row \<noteq> ''s0''" by (simp add: arm_state_row_def Let_def stable_id_def)
  have arm: "as_arm_id ex_sold_arm = ''Q1-DET''" "as_sequence ex_sold_arm = 1" by (simp_all add: ex_sold_arm_def ex_arm_def)
  have clash: "List.find (\<lambda>r. sn_arm_state_snapshot_id r = sn_arm_state_snapshot_id ?row) ex_opening_rows = None"
    "sn_sequence ?row = 1" "\<forall>r\<in>set ex_opening_rows. sn_sequence r = 0"
    using ids by (simp_all add: ex_opening_rows_def) (simp_all add: arm_state_row_def Let_def ex_sold_arm_def ex_arm_def)
  have "append_arm_state constant_digest ''run'' ex_sold_arm ''cycle'' (Aware 20) (Some 0) (?st\<lparr>st_fills := [ex_sold_fill], st_cash := ex_sold_cash\<rparr>)
      = Inr (?row, (ex_commit_store (ex_opening_rows @ [?row]))\<lparr>st_fills := [ex_sold_fill], st_cash := ex_sold_cash\<rparr>)"
    using clash unfolding append_arm_state_def arm ex_commit_state(1)
    by (auto simp: ex_commit_state(2) add_row_def list_ex_iff ex_commit_store_def Let_def)
  then show ?thesis using fill cash ex_commit_state(1) [where fs = "[]" and cs = "[hd ex_sold_cash]"] ex_commit_state(2)
    by (simp add: commit_fill_def ex_commit_mutation_def ex_cycle_def ex_sold_intent_def ex_commit_store_def [of ex_opening_rows])
qed

lemma ex_commit:
  "\<exists>out st'. commit_execution constant_digest Other_Dialect ex_runtime ex_session ''CONNECTED'' ''src'' ex_cycle 20 [ex_commit_mutation]
     (ex_commit_store ex_opening_rows) = Inr (out, st')"
proof -
  let ?start = "\<lparr>co_store = ex_commit_store ex_opening_rows, co_fill_ids = [], co_event_ids = [], co_state_sequences = []\<rparr>"
  obtain book pending where book: "load_q1_order_book ''run'' None (ex_commit_store ex_opening_rows) = Inr book"
    "pending_orders (ob_descriptors book) (ob_events book) (Some (Aware 20)) = Inr pending"
    "map (\<lambda>a. (od_order_intent_id (oa_order a), oa_latest_event_id a)) pending = [(''o1'', ''o11'')]"
    using ex_commit_book [of ex_opening_rows] by (auto split: sum.splits)
  have fence: "require_cycle_fence Other_Dialect (st_cycles (ex_commit_store ex_opening_rows)) ''cycle'' ''fence'' 1 (Aware 20) = Inr ex_cycle_row"
    by (simp add: ex_commit_store_def require_cycle_fence_def ex_cycle_row_def lease_held_def)
  obtain cs1 where cs1: "commit_fill constant_digest Other_Dialect ex_cycle 20 ex_commit_mutation ex_sold_fill ?start = Inr cs1"
    "co_store cs1 = (ex_commit_store (ex_opening_rows @ [arm_state_row constant_digest ''run'' ex_sold_arm ''cycle'' 20]))
        \<lparr>st_fills := [ex_sold_fill], st_cash := ex_sold_cash\<rparr>" using ex_commit_fill by blast
  have "case store_order_event Other_Dialect (pm_event ex_commit_mutation) ((ex_commit_store rows)\<lparr>st_fills := fs, st_cash := cs\<rparr>) of
      Inl _ \<Rightarrow> False | Inr _ \<Rightarrow> True" for rows fs cs by code_simp
  from case_Inr_exists [OF this] obtain p where "store_order_event Other_Dialect (pm_event ex_commit_mutation) (co_store cs1) = Inr p"
    unfolding cs1(2) by blast
  then obtain r st2 where st2: "store_order_event Other_Dialect (pm_event ex_commit_mutation) (co_store cs1) = Inr (r, st2)" by (cases p) simp
  obtain a where a: "pending = [a]" "od_order_intent_id (oa_order a) = ''o1''" "oa_latest_event_id a = ''o11''" using book(3) by auto
  have m: "pm_fill ex_commit_mutation = Some ex_sold_fill" "oi_order_intent_id (pm_intent ex_commit_mutation) = ''o1''"
    "oa_latest_event_id (pm_aggregate ex_commit_mutation) = ''o11''"
    by (simp_all add: ex_commit_mutation_def ex_sold_intent_def ex_intent_def)
  have "\<exists>cs2. rfold (commit_mutation constant_digest Other_Dialect ex_cycle 20 pending) [ex_commit_mutation] ?start = Inr cs2"
    using cs1(1) st2 by (simp add: commit_mutation_def a m)
  then show ?thesis using book fence
    by (auto simp: commit_execution_def lease_owner_def ex_cycle_def complete_fenced_cycle_def Let_def simp del: rfold.simps)
qed

theorem cycle_commits_once_witness:
  "\<exists>out st'. commit_execution constant_digest Other_Dialect ex_runtime ex_session ''CONNECTED'' ''src'' ex_cycle 20 [ex_commit_mutation]
     (ex_commit_store ex_opening_rows) = Inr (out, st')
   \<and> (\<forall>now x. commit_execution constant_digest Other_Dialect ex_runtime ex_session ''CONNECTED'' ''src'' ex_cycle now [] st' \<noteq> Inr x)"
proof -
  obtain out st' where c: "commit_execution constant_digest Other_Dialect ex_runtime ex_session ''CONNECTED'' ''src'' ex_cycle 20 [ex_commit_mutation]
     (ex_commit_store ex_opening_rows) = Inr (out, st')" using ex_commit by blast
  from cycle_commits_once [OF c refl refl] c show ?thesis by (intro exI [of _ out] exI [of _ st']) simp
qed

theorem commit_extends_store_witness:
  "\<exists>out st'. commit_execution constant_digest Other_Dialect ex_runtime ex_session ''CONNECTED'' ''src'' ex_cycle 20 [ex_commit_mutation]
     (ex_commit_store ex_opening_rows) = Inr (out, st') \<and> length (st_arm_states st') = 2 \<and> mutation_stored st' ex_commit_mutation"
proof -
  obtain out st' where c: "commit_execution constant_digest Other_Dialect ex_runtime ex_session ''CONNECTED'' ''src'' ex_cycle 20 [ex_commit_mutation]
     (ex_commit_store ex_opening_rows) = Inr (out, st')" using ex_commit by blast
  have run: "pc_run_id ex_cycle = ''run''" "pc_cycle_id ex_cycle = ''cycle''" by (simp_all add: ex_cycle_def)
  have state: "List.map_filter committed_state [ex_commit_mutation] = [ex_sold_arm]"
    by (simp add: List.map_filter_def committed_state_def ex_commit_mutation_def)
  have "arm_wf ex_sold_arm" using ex_arm_facts(1) by (simp add: ex_sold_arm_def arm_wf_def receivable_ok_def dict_values_def dict_keys_def dval_simps)
  moreover have "dates_ok ex_sold_arm" by code_simp
  ultimately have ok: "\<forall>m\<in>set [ex_commit_mutation]. mutation_ok m"
    by (simp add: mutation_ok_def committed_state_def ex_commit_mutation_def ex_sold_arm_def ex_arm_def ex_sold_intent_def)
  have ids: "distinct (map sn_arm_state_snapshot_id (st_arm_states (ex_commit_store ex_opening_rows)
      @ map (\<lambda>s. arm_state_row constant_digest (pc_run_id ex_cycle) s (pc_cycle_id ex_cycle) 20) (List.map_filter committed_state [ex_commit_mutation])))"
    unfolding state by (simp add: ex_commit_store_def ex_opening_rows_def) (simp add: arm_state_row_def Let_def stable_id_def)
  have "length (st_arm_states (ex_commit_store ex_opening_rows)) = 1" by (simp add: ex_commit_store_def ex_opening_rows_def)
  with commit_extends_store [OF c ex_commit_state(3) [folded run(1)] ok ids] c state show ?thesis
    by (intro exI [of _ out] exI [of _ st']) simp
qed

end
