(* ===== verification/Binary64.thy ===== *)
theory Binary64
  imports Decimal
begin

text \<open>
  Python's \<^verbatim>\<open>float\<close>, as far as the sources use it: a finite double is the rational number it
  denotes, and an operation rounds its exact result to the nearest double, ties to an even
  mantissa (\<open>fl\<close>). \<^verbatim>\<open>Decimal(str(x))\<close> is the shortest decimal that rounds back to \<open>x\<close>, written
  the way \<^verbatim>\<open>repr\<close> writes it. Overflow, infinities, NaN and the sign of zero are left out: the
  modelled values are weights and risk multipliers of magnitude about one. Shown: rounding is
  monotone, odd, and leaves representable numbers alone.
\<close>

section \<open>Rounding to a double\<close>

abbreviation pow2 :: "int \<Rightarrow> rat" where
  "pow2 e \<equiv> 2 powi e"

fun nbits :: "nat \<Rightarrow> nat" where
  "nbits n = (if n < 2 then 1 else Suc (nbits (n div 2)))"

declare nbits.simps [simp del]

text \<open>The exponent of the leading bit of a non-zero rational.\<close>

definition lead_bit :: "rat \<Rightarrow> int" where
  "lead_bit x =
     (case quotient_of \<bar>x\<bar> of
        (n, d) \<Rightarrow>
          let k = int (nbits (nat n)) - int (nbits (nat d)) in
          if pow2 k \<le> \<bar>x\<bar> then k else k - 1)"

text \<open>The exponent of the last bit of a double near \<open>x\<close>, bounded below by the subnormals.\<close>

definition last_bit :: "rat \<Rightarrow> int" where
  "last_bit x = max (- 1074) (lead_bit x - 52)"

definition fl :: "rat \<Rightarrow> rat" where
  "fl x = (if x = 0 then 0 else of_int (rhe (x / pow2 (last_bit x))) * pow2 (last_bit x))"

definition is_double :: "rat \<Rightarrow> bool" where
  "is_double x \<longleftrightarrow> fl x = x"

section \<open>The decimal text of a double\<close>

text \<open>The exponent of the leading digit.\<close>

definition lead_digit :: "rat \<Rightarrow> int" where
  "lead_digit x =
     (case quotient_of \<bar>x\<bar> of
        (n, d) \<Rightarrow>
          let k = int (ndigits (nat n)) - int (ndigits (nat d)) in
          if pow10 k \<le> \<bar>x\<bar> then k else k - 1)"

text \<open>
  The nearest of the two decimals with \<open>n\<close> digits around a positive \<open>x\<close> that round to \<open>x\<close>: its
  coefficient and exponent.
\<close>

definition digits_of :: "rat \<Rightarrow> nat \<Rightarrow> (nat \<times> int) option" where
  "digits_of x n =
     (let e = lead_digit x - int n + 1; lo = \<lfloor>x / pow10 e\<rfloor>; hi = \<lceil>x / pow10 e\<rceil>;
          ok = (\<lambda>c. fl (of_int c * pow10 e) = x);
          c = rhe (x / pow10 e) in
      if ok c then Some (nat c, e)
      else if ok lo then Some (nat lo, e)
      else if ok hi then Some (nat hi, e)
      else None)"

text \<open>The first number of digits that suffices; 17 always do.\<close>

definition shortest_digits :: "rat \<Rightarrow> nat \<times> int" where
  "shortest_digits x =
     (case List.map_filter (digits_of x) [1..<18] of [] \<Rightarrow> (0, 0) | ce # _ \<Rightarrow> ce)"

text \<open>
  \<^verbatim>\<open>Decimal(str(x))\<close>: \<^verbatim>\<open>repr\<close> adds \<^verbatim>\<open>.0\<close> to an integral value below ten to the sixteen and
  uses scientific notation outside the range from 0.0001 to there.
\<close>

definition float_decimal :: "rat \<Rightarrow> decimal" where
  "float_decimal x =
     (if x = 0 then D 0 (- 1)
      else
        case shortest_digits \<bar>x\<bar> of (c, e) \<Rightarrow>
          if 0 \<le> e \<and> int (ndigits c) + e \<le> 16
          then Dec (x < 0) (c * 10 ^ nat (e + 1)) (- 1)
          else Dec (x < 0) c e)"

section \<open>Rounding is monotone\<close>

lemma pow2_less_iff: "pow2 a < pow2 b \<longleftrightarrow> a < b"
  by (metis linorder_not_less power_int_increasing power_int_strict_increasing one_less_numeral_iff one_le_numeral semiring_norm(76))

lemma pow2_nat: "pow2 (int n) = 2 ^ n"
  by (simp add: power_int_def)

lemma nbits_bounds: "n < 2 ^ nbits n" "0 < n \<Longrightarrow> 2 ^ (nbits n - 1) \<le> n" "0 < nbits n"
proof -
  have "n < 2 ^ nbits n \<and> (0 < n \<longrightarrow> 2 ^ (nbits n - 1) \<le> n) \<and> 0 < nbits n"
  proof (induction n rule: nbits.induct)
    case (1 n)
    show ?case
    proof (cases "n < 2")
      case True
      then show ?thesis by (subst nbits.simps, subst nbits.simps, subst nbits.simps) auto
    next
      case False
      then have IH: "n div 2 < 2 ^ nbits (n div 2)" "2 ^ (nbits (n div 2) - 1) \<le> n div 2" "0 < nbits (n div 2)"
        using 1 by auto
      have e: "nbits n = Suc (nbits (n div 2))" using False by (subst nbits.simps) simp
      obtain k where k: "nbits (n div 2) = Suc k" using IH(3) gr0_implies_Suc by blast
      show ?thesis using IH(1,2) unfolding e k by auto
    qed
  qed
  then show "n < 2 ^ nbits n" "0 < n \<Longrightarrow> 2 ^ (nbits n - 1) \<le> n" "0 < nbits n" by auto
qed

lemma lead_bit_bounds:
  assumes "x \<noteq> 0"
  shows "pow2 (lead_bit x) \<le> \<bar>x\<bar>" "\<bar>x\<bar> < pow2 (lead_bit x + 1)"
proof -
  obtain n d where q: "quotient_of \<bar>x\<bar> = (n, d)" by (cases "quotient_of \<bar>x\<bar>")
  have d: "0 < d" and x: "\<bar>x\<bar> = of_int n / of_int d" using quotient_of_denom_pos [OF q] quotient_of_div [OF q] by auto
  have "0 < (of_int n :: rat)" using x d assms by (metis abs_ge_zero abs_eq_0 order_less_le zero_less_divide_iff of_int_0_less_iff divide_eq_0_iff not_less)
  then have n: "0 < n" by simp
  let ?a = "nbits (nat n)" and ?b = "nbits (nat d)"
  have bits: "(of_int m :: rat) < pow2 (int (nbits (nat m)))" "pow2 (int (nbits (nat m)) - 1) \<le> (of_int m :: rat)" if "0 < m" for m
  proof -
    have m: "(of_int m :: rat) = of_nat (nat m)" using that by simp
    have "(of_nat (nat m) :: rat) < of_nat (2 ^ nbits (nat m))" using nbits_bounds(1) [of "nat m"] by (simp only: of_nat_less_iff)
    then show "(of_int m :: rat) < pow2 (int (nbits (nat m)))" unfolding m pow2_nat by simp
    have low: "(of_nat (2 ^ (nbits (nat m) - 1)) :: rat) \<le> of_nat (nat m)"
      using nbits_bounds(2) [of "nat m"] that unfolding of_nat_le_iff by simp
    have e: "int (nbits (nat m)) - 1 = int (nbits (nat m) - 1)" using nbits_bounds(3) [of "nat m"] by simp
    show "pow2 (int (nbits (nat m)) - 1) \<le> (of_int m :: rat)" using low unfolding m e pow2_nat of_nat_power of_nat_numeral .
  qed
  let ?k = "int ?a - int ?b"
  have "\<bar>x\<bar> < pow2 (int ?a) / pow2 (int ?b - 1)"
    unfolding x using bits [OF n] bits [OF d] n d by (intro frac_less) auto
  then have up: "\<bar>x\<bar> < pow2 (?k + 1)" by (simp add: power_int_diff power_int_add field_simps)
  have "pow2 (int ?a - 1) / pow2 (int ?b) \<le> \<bar>x\<bar>"
    unfolding x using bits [OF n] bits [OF d] n d by (intro frac_le) auto
  then have lo: "pow2 (?k - 1) \<le> \<bar>x\<bar>" by (simp add: power_int_diff power_int_add field_simps)
  have lead: "lead_bit x = (if pow2 ?k \<le> \<bar>x\<bar> then ?k else ?k - 1)" by (simp add: lead_bit_def q Let_def)
  show "pow2 (lead_bit x) \<le> \<bar>x\<bar>" "\<bar>x\<bar> < pow2 (lead_bit x + 1)" using up lo by (simp_all add: lead)
qed

lemma lead_bit_uminus [simp]: "lead_bit (- x) = lead_bit x"
  by (simp add: lead_bit_def)

lemma lead_bit_mono:
  assumes "0 < x" "x \<le> y"
  shows "lead_bit x \<le> lead_bit y"
proof -
  have "pow2 (lead_bit x) < pow2 (lead_bit y + 1)"
    using lead_bit_bounds [of x] lead_bit_bounds [of y] assms by linarith
  then show ?thesis by (simp add: pow2_less_iff)
qed

lemma fl_0 [simp]: "fl 0 = 0"
  by (simp add: fl_def)

lemma fl_uminus [simp]: "fl (- x) = - fl x"
  by (simp add: fl_def last_bit_def rhe_uminus)

lemma fl_scaled: "x \<noteq> 0 \<Longrightarrow> fl x / pow2 (last_bit x) = of_int (rhe (x / pow2 (last_bit x)))"
  by (simp add: fl_def)

lemma fl_nonneg: "0 \<le> x \<Longrightarrow> 0 \<le> fl x"
  using rhe_mono [of 0 "x / pow2 (last_bit x)"] rhe_of_int [of 0] by (cases "x = 0") (auto simp: fl_def)

text \<open>No double lies strictly between a number and its rounding.\<close>

lemma fl_below:
  assumes "0 < x" "x \<le> of_int m * pow2 e" "last_bit x \<le> e"
  shows "fl x \<le> of_int m * pow2 e"
proof -
  obtain n where n: "e = last_bit x + int n" using assms(3) zle_iff_zadd by blast
  let ?u = "pow2 (last_bit x)"
  have me: "of_int m * pow2 e = of_int (m * 2 ^ n) * ?u" by (simp add: n power_int_add pow2_nat)
  have "x / ?u \<le> of_int (m * 2 ^ n)" using assms(2) unfolding me by (simp add: field_simps)
  from rhe_mono [OF this] have "rhe (x / ?u) \<le> m * 2 ^ n" by (simp only: rhe_of_int)
  then have "of_int (rhe (x / ?u)) * ?u \<le> of_int (m * 2 ^ n) * ?u" by (intro mult_right_mono) (simp_all only: of_int_le_iff, simp)
  then show ?thesis unfolding me using assms(1) by (simp add: fl_def)
qed

lemma fl_above:
  assumes "0 < x" "of_int m * pow2 e \<le> x" "last_bit x \<le> e"
  shows "of_int m * pow2 e \<le> fl x"
proof -
  obtain n where n: "e = last_bit x + int n" using assms(3) zle_iff_zadd by blast
  let ?u = "pow2 (last_bit x)"
  have me: "of_int m * pow2 e = of_int (m * 2 ^ n) * ?u" by (simp add: n power_int_add pow2_nat)
  have "of_int (m * 2 ^ n) \<le> x / ?u" using assms(2) unfolding me by (simp add: field_simps)
  from rhe_mono [OF this] have "m * 2 ^ n \<le> rhe (x / ?u)" by (simp only: rhe_of_int)
  then have "of_int (m * 2 ^ n) * ?u \<le> of_int (rhe (x / ?u)) * ?u" by (intro mult_right_mono) (simp_all only: of_int_le_iff, simp)
  then show ?thesis unfolding me using assms(1) by (simp add: fl_def)
qed

lemma fl_mono_pos:
  assumes "0 < x" "x \<le> y"
  shows "fl x \<le> fl y"
proof (cases "last_bit x = last_bit y")
  case True
  have "rhe (x / pow2 (last_bit x)) \<le> rhe (y / pow2 (last_bit y))"
    unfolding True using assms by (intro rhe_mono) (simp add: divide_right_mono)
  then show ?thesis using assms unfolding fl_def True by simp
next
  case False
  have "lead_bit x \<le> lead_bit y" by (rule lead_bit_mono [OF assms])
  with False have lt: "last_bit x < last_bit y" "last_bit y = lead_bit y - 52" "lead_bit x + 1 \<le> lead_bit y" "last_bit x \<le> lead_bit y"
    by (auto simp: last_bit_def)
  have "x \<le> pow2 (lead_bit y)"
  proof -
    have "x < pow2 (lead_bit x + 1)" using lead_bit_bounds(2) [of x] assms(1) by simp
    also have "\<dots> \<le> pow2 (lead_bit y)" using lt(3) by (intro power_int_increasing) auto
    finally show ?thesis by simp
  qed
  then have "fl x \<le> pow2 (lead_bit y)" using fl_below [of x 1 "lead_bit y"] assms(1) lt(4) by simp
  also have "\<dots> \<le> fl y" using fl_above [of y 1 "lead_bit y"] lead_bit_bounds(1) [of y] assms lt(2) by simp
  finally show ?thesis .
qed

lemma fl_mono:
  assumes "x \<le> y"
  shows "fl x \<le> fl y"
proof -
  consider "0 < x" | "x \<le> 0" "0 \<le> y" | "y < 0" by linarith
  then show ?thesis
  proof cases
    case 2
    then have "0 \<le> fl y" "0 \<le> fl (- x)" by (auto intro: fl_nonneg simp del: fl_uminus)
    then show ?thesis by simp
  next
    case 3
    then have "fl (- y) \<le> fl (- x)" using assms by (intro fl_mono_pos) auto
    then show ?thesis by simp
  qed (rule fl_mono_pos [OF _ assms])
qed

text \<open>An integer of at most 53 bits times a power of two not below the subnormals is a double.\<close>

lemma double_scaled:
  assumes "\<bar>m\<bar> \<le> 2 ^ 53" "- 1074 \<le> e"
  shows "is_double (of_int m * pow2 e)"
proof -
  have pos: "fl (of_int m * pow2 e) = of_int m * pow2 e" if m: "0 < m" "m \<le> 2 ^ 53" for m
  proof (cases "last_bit (of_int m * pow2 e) \<le> e")
    case True
    let ?x = "of_int m * pow2 e :: rat"
    have "0 < ?x" using m by simp
    from fl_below [OF this order_refl True] fl_above [OF this order_refl True] show ?thesis by simp
  next
    case False
    let ?x = "of_int m * pow2 e :: rat"
    have "pow2 (lead_bit ?x) \<le> ?x" using lead_bit_bounds(1) [of ?x] m by simp
    also have "\<dots> \<le> of_int (2 ^ 53) * pow2 e" using m by (intro mult_right_mono) (simp_all only: of_int_le_iff, simp)
    also have "\<dots> = pow2 (e + 53)" by (simp add: power_int_add)
    finally have le: "lead_bit ?x \<le> e + 53" using pow2_less_iff [of "e + 53" "lead_bit ?x"] by linarith
    moreover have "e + 53 \<le> lead_bit ?x" using False assms(2) by (auto simp: last_bit_def)
    ultimately have lead: "lead_bit ?x = e + 53" by simp
    then have "pow2 (e + 53) \<le> ?x" using lead_bit_bounds(1) [of ?x] m by simp
    then have "m = 2 ^ 53"
    proof -
      have "of_int (2 ^ 53) * pow2 e \<le> of_int m * pow2 e" using \<open>pow2 (e + 53) \<le> ?x\<close> by (simp add: power_int_add)
      then have "(of_int (2 ^ 53) :: rat) \<le> of_int m" by (simp only: mult_le_cancel_right) simp
      then show ?thesis using m(2) by (simp only: of_int_le_iff)
    qed
    moreover have "last_bit ?x = e + 1" using lead assms(2) by (simp add: last_bit_def)
    moreover have "?x = of_int (2 ^ 52) * pow2 (e + 1)" using \<open>m = 2 ^ 53\<close> by (simp add: power_int_add)
    ultimately show ?thesis
      using fl_below [of ?x "2 ^ 52" "e + 1"] fl_above [of ?x "2 ^ 52" "e + 1"] m by simp
  qed
  consider "m = 0" | "0 < m" | "0 < - m" by linarith
  then show ?thesis
  proof cases
    case 3
    then have "fl (of_int (- m) * pow2 e) = of_int (- m) * pow2 e" using assms by (intro pos) auto
    then show ?thesis by (simp add: is_double_def)
  qed (use pos assms in \<open>auto simp: is_double_def\<close>)
qed

lemma is_double_simps [simp]: "is_double 0" "is_double 1" "is_double (3 / 4)" "is_double (1 / 2)" "is_double (1 / 4)"
  using double_scaled [of 0 0] double_scaled [of 1 0] double_scaled [of 3 "- 2"] double_scaled [of 1 "- 1"] double_scaled [of 1 "- 2"]
  by (simp_all add: power_int_minus)

end
