(* ===== verification/Overlay.thy ===== *)
theory Overlay
  imports Binary64 Arm_State Turnover
begin

text \<open>
  The language-model overlay: \<^verbatim>\<open>llm/q1_overlay.py\<close> and \<^verbatim>\<open>_apply_llm_overlay\<close> of
  \<^verbatim>\<open>runtime/q1_cycle.py\<close>. A decision of the provider may scale the risky weights down or block
  entries for a while; the arithmetic runs in floats and its result is compared with the
  deterministic weights, which are decimals. Shown: an overlay never raises a risky weight nor
  lowers cash, and when it does nothing; and exactly when the final comparison raises although
  the provider said nothing at all.
\<close>

section \<open>Decisions\<close>

definition Q1_RISKY_SYMBOLS :: "string list" where
  "Q1_RISKY_SYMBOLS = [''QQQ'', ''SOXX'']"

definition Q1_ALLOWED_RISK_MULTIPLIERS :: "rat list" where
  "Q1_ALLOWED_RISK_MULTIPLIERS = [1, 3 / 4, 1 / 2]"

definition Q1_TARGET_WEIGHT_SUM_TOLERANCE :: decimal where
  "Q1_TARGET_WEIGHT_SUM_TOLERANCE = D 1 (- 12)"

datatype q1_overlay_state = NO_CHANGE | ACTIVE_OVERLAY | EXPIRED_AWAITING_NEXT_REBALANCE | SUPERSEDED_OVERLAY

record q1_llm_overlay_decision =
  ov_request_id :: string
  ov_context_manifest_hash :: string
  ov_risk_multiplier :: rat
  ov_block_new_entries :: bool
  ov_evidence_event_ids :: "string list"
  ov_rationale :: string
  ov_effective_time :: instant
  ov_expiry_time :: instant
  ov_created_at :: instant

text \<open>\<^verbatim>\<open>[0-9a-f]\<close>.\<close>

definition is_hex_char :: "char \<Rightarrow> bool" where
  "is_hex_char c \<longleftrightarrow>
     (let n = (of_char c :: nat) in (48 \<le> n \<and> n \<le> 57) \<or> (97 \<le> n \<and> n \<le> 102))"

definition validate_q1_llm_overlay_decision :: "q1_llm_overlay_decision \<Rightarrow> q1_llm_overlay_decision result" where
  "validate_q1_llm_overlay_decision d =
     (if \<not> (1 \<le> py_len (ov_request_id d) \<and> py_len (ov_request_id d) \<le> 100
            \<and> length (ov_context_manifest_hash d) = 64 \<and> list_all is_hex_char (ov_context_manifest_hash d)
            \<and> length (ov_evidence_event_ids d) \<le> 100
            \<and> 1 \<le> py_len (ov_rationale d) \<and> py_len (ov_rationale d) \<le> 2000)
      then Inl (ValidationError ''overlay field constraint'')
      else if ov_risk_multiplier d \<notin> set Q1_ALLOWED_RISK_MULTIPLIERS
      then Inl (ValidationError ''Q1 overlay risk multiplier is outside the versioned schema'')
      else if ov_expiry_time d \<le> ov_effective_time d
      then Inl (ValidationError ''Q1 overlay expiry must follow effective time'')
      else if ov_effective_time d < ov_created_at d
      then Inl (ValidationError ''Q1 overlay cannot become effective before creation'')
      else if (ov_risk_multiplier d < 1 \<or> ov_block_new_entries d) \<and> ov_evidence_event_ids d = []
      then Inl (ValidationError ''Risk-reducing Q1 overlay requires bounded evidence'')
      else Inr d)"

definition validate_bounded_evidence :: "q1_llm_overlay_decision \<Rightarrow> string set \<Rightarrow> unit result" where
  "validate_bounded_evidence d allowed =
     guard_not (\<not> set (ov_evidence_event_ids d) \<subseteq> allowed) (ValueError ''Q1 overlay cited evidence outside the request'')"

section \<open>Applying a decision\<close>

type_synonym float_weights = "(string, rat) dict"

text \<open>
  The sum of two floats: \<^verbatim>\<open>sum\<close> compensates rounding errors, which for two summands is the
  rounded exact sum.
\<close>

definition normalize_target :: "float_weights \<Rightarrow> float_weights result" where
  "normalize_target target =
     (if \<not> set (dict_keys target) \<subseteq> set (Q1_RISKY_SYMBOLS @ [''USD_CASH''])
      then Inl (ValueError ''Q1 overlay target contains unknown symbols'')
      else
        let qqq = py_max 0 (dict_get target ''QQQ'' 0); soxx = py_max 0 (dict_get target ''SOXX'' 0);
            risky = fl (qqq + soxx) in
        if D 1 0 + Q1_TARGET_WEIGHT_SUM_TOLERANCE < float_decimal risky
        then Inl (ValueError ''Q1 deterministic target is leveraged'')
        else Inr [(''QQQ'', qqq), (''SOXX'', soxx), (''USD_CASH'', fl (1 - risky))])"

definition overlay_weight :: "q1_llm_overlay_decision \<Rightarrow> float_weights \<Rightarrow> float_weights \<Rightarrow> string \<Rightarrow> rat" where
  "overlay_weight decision base current_weights symbol =
     (let deterministic_weight = dict_get base symbol 0;
          scaled = fl (deterministic_weight * ov_risk_multiplier decision);
          reduced = (if ov_block_new_entries decision
                     then py_min scaled (py_max 0 (dict_get current_weights symbol 0)) else scaled) in
      py_min deterministic_weight (py_max 0 reduced))"

definition apply_reduce_only_overlay ::
  "float_weights \<Rightarrow> float_weights \<Rightarrow> q1_llm_overlay_decision option \<Rightarrow> datetime
    \<Rightarrow> (float_weights \<times> q1_overlay_state) result" where
  "apply_reduce_only_overlay deterministic_target current_weights decision as_of =
     rbind (normalize_target deterministic_target) (\<lambda>base.
     case decision of
       None \<Rightarrow> Inr (base, NO_CHANGE)
     | Some d \<Rightarrow>
         rbind (require_aware_utc ''datetime'' as_of) (\<lambda>instant.
         if instant < ov_effective_time d then Inr (base, NO_CHANGE)
         else if ov_expiry_time d \<le> instant
         then rbind (normalize_target current_weights) (\<lambda>w. Inr (w, EXPIRED_AWAITING_NEXT_REBALANCE))
         else
           let qqq = overlay_weight d base current_weights ''QQQ'';
               soxx = overlay_weight d base current_weights ''SOXX'' in
           Inr ([(''QQQ'', qqq), (''SOXX'', soxx), (''USD_CASH'', fl (1 - fl (qqq + soxx)))], ACTIVE_OVERLAY)))"

section \<open>The overlay in a strategic cycle\<close>

text \<open>\<^verbatim>\<open>any(result[symbol] > deterministic[symbol] for symbol in risky_symbols)\<close>.\<close>

fun any_increase :: "(string, decimal) dict \<Rightarrow> (string, decimal) dict \<Rightarrow> string list \<Rightarrow> bool result" where
  "any_increase result deterministic [] = Inr False"
| "any_increase result deterministic (s # ss) =
     rbind (dict_lookup result s) (\<lambda>r. rbind (dict_lookup deterministic s) (\<lambda>d.
       if d < r then Inr True else any_increase result deterministic ss))"

text \<open>\<open>base\<close> are the target weights of the allocation.\<close>

definition apply_llm_overlay ::
  "q1_math_config \<Rightarrow> (string, decimal) dict \<Rightarrow> q1_arm_state \<Rightarrow> (string, decimal) dict
    \<Rightarrow> q1_llm_overlay_decision option \<Rightarrow> datetime \<Rightarrow> ((string, decimal) dict \<times> q1_overlay_state) result" where
  "apply_llm_overlay config base state midpoint_quotes decision as_of =
     rbind (compute_current_weights (as_positions state) (as_settled_cash_usd state)
              (fold (\<lambda>r. AList.update (ur_receivable_id r) (ur_amount_usd r)) (as_unsettled_receivables state) [])
              midpoint_quotes config) (\<lambda>current.
     rbind (apply_reduce_only_overlay
              (fold (\<lambda>(s, v). AList.update s (fl (dval v))) base [])
              (fold (\<lambda>(s, v). AList.update s (fl (dval v))) (cw_weights current) [])
              decision as_of) (\<lambda>(applied, overlay_state).
     let result = map (\<lambda>(s, x). (s, float_decimal x)) applied;
         deterministic = fold (\<lambda>(s, v). AList.update s v) base [] in
     rbind (any_increase result deterministic (mc_risky_symbols config)) (\<lambda>increased.
       if increased then Inl (Q1CycleError ''LLM overlay attempted to increase risk'')
       else Inr (result, overlay_state))))"

section \<open>Reductions only\<close>

lemma normalize_target_Inr:
  assumes "normalize_target target = Inr base"
  obtains qqq soxx where "qqq = max 0 (dict_get target ''QQQ'' 0)" "soxx = max 0 (dict_get target ''SOXX'' 0)"
    "base = [(''QQQ'', qqq), (''SOXX'', soxx), (''USD_CASH'', fl (1 - fl (qqq + soxx)))]"
  using assms that by (auto simp: normalize_target_def Let_def py_max_def max_def split: if_splits)

lemma overlay_weight_bounds:
  assumes "0 \<le> dict_get base symbol 0" "ov_risk_multiplier d \<le> 1" "0 \<le> ov_risk_multiplier d"
  shows "0 \<le> overlay_weight d base current_weights symbol" "overlay_weight d base current_weights symbol \<le> dict_get base symbol 0"
    "overlay_weight d base current_weights symbol \<le> fl (dict_get base symbol 0 * ov_risk_multiplier d)"
    "ov_block_new_entries d \<Longrightarrow> overlay_weight d base current_weights symbol \<le> max 0 (dict_get current_weights symbol 0)"
  using assms fl_nonneg [of "dict_get base symbol 0 * ov_risk_multiplier d"]
  by (auto simp: overlay_weight_def Let_def py_min_def py_max_def)

lemma overlay_weight_exact:
  assumes "0 \<le> dict_get base symbol 0" "ov_risk_multiplier d \<le> 1" "0 \<le> ov_risk_multiplier d"
  shows "overlay_weight d base current_weights symbol = min (dict_get base symbol 0)
    (if ov_block_new_entries d
     then min (fl (dict_get base symbol 0 * ov_risk_multiplier d)) (max 0 (dict_get current_weights symbol 0))
     else fl (dict_get base symbol 0 * ov_risk_multiplier d))"
  using assms fl_nonneg [of "dict_get base symbol 0 * ov_risk_multiplier d"]
  by (auto simp: overlay_weight_def Let_def py_min_def py_max_def min_def max_def)

lemma allowed_multiplier:
  "validate_q1_llm_overlay_decision d = Inr d \<Longrightarrow> 0 \<le> ov_risk_multiplier d \<and> ov_risk_multiplier d \<le> 1"
  by (auto simp: validate_q1_llm_overlay_decision_def Q1_ALLOWED_RISK_MULTIPLIERS_def split: if_splits)

lemma cash_antimono: "q' \<le> q \<Longrightarrow> s' \<le> s \<Longrightarrow> fl (1 - fl (q + s)) \<le> fl (1 - fl (q' + s'))"
  by (intro fl_mono) (simp add: fl_mono add_mono)

text \<open>
  C38. The language model can only reduce risk. Before the effective time of a validated decision the
  overlay returns the deterministic weights, from its expiry on the current ones. In between every
  risky weight is the smaller of the deterministic weight and its scaled value, when entries are
  blocked also at most the current weight, so it lies between zero and the deterministic weight;
  and the cash weight never shrinks, rounding included.\<close>

theorem overlay_reduce_only:
  assumes "validate_q1_llm_overlay_decision d = Inr d"
    and "apply_reduce_only_overlay target current_weights (Some d) as_of = Inr (w, state)"
  shows "\<exists>base instant. normalize_target target = Inr base \<and> as_of = Aware instant \<and>
    (if instant < ov_effective_time d then state = NO_CHANGE \<and> w = base
     else if ov_expiry_time d \<le> instant
     then state = EXPIRED_AWAITING_NEXT_REBALANCE \<and> normalize_target current_weights = Inr w
     else state = ACTIVE_OVERLAY \<and> dict_keys w = dict_keys base
         \<and> (\<forall>s\<in>set Q1_RISKY_SYMBOLS. 0 \<le> dict_get w s 0 \<and> dict_get w s 0 \<le> dict_get base s 0
              \<and> dict_get w s 0 \<le> fl (dict_get base s 0 * ov_risk_multiplier d)
              \<and> (ov_block_new_entries d \<longrightarrow> dict_get w s 0 \<le> max 0 (dict_get current_weights s 0))
              \<and> dict_get w s 0 = min (dict_get base s 0)
                  (if ov_block_new_entries d
                   then min (fl (dict_get base s 0 * ov_risk_multiplier d)) (max 0 (dict_get current_weights s 0))
                   else fl (dict_get base s 0 * ov_risk_multiplier d)))
         \<and> dict_get base ''USD_CASH'' 0 \<le> dict_get w ''USD_CASH'' 0)"
proof -
  obtain base instant where base: "normalize_target target = Inr base" and now: "as_of = Aware instant"
    using assms(2) by (auto simp: apply_reduce_only_overlay_def result_simps)
  obtain qqq soxx where b: "qqq = max 0 (dict_get target ''QQQ'' 0)" "soxx = max 0 (dict_get target ''SOXX'' 0)"
    "base = [(''QQQ'', qqq), (''SOXX'', soxx), (''USD_CASH'', fl (1 - fl (qqq + soxx)))]"
    using base by (rule normalize_target_Inr)
  note m = allowed_multiplier [OF assms(1)]
  have get: "dict_get base ''QQQ'' 0 = qqq" "dict_get base ''SOXX'' 0 = soxx" using b(3) by (simp_all add: dict_get_def)
  then have nn: "0 \<le> dict_get base ''QQQ'' 0" "0 \<le> dict_get base ''SOXX'' 0" using b(1,2) by simp_all
  let ?q = "overlay_weight d base current_weights ''QQQ''" and ?s = "overlay_weight d base current_weights ''SOXX''"
  note wq = overlay_weight_bounds [OF nn(1), of d current_weights] and ws = overlay_weight_bounds [OF nn(2), of d current_weights]
  have cash: "fl (1 - fl (qqq + soxx)) \<le> fl (1 - fl (?q + ?s))" using wq(2) ws(2) m get by (intro cash_antimono) simp_all
  note run = assms(2) [unfolded apply_reduce_only_overlay_def base now, simplified]
  consider (early) "instant < ov_effective_time d" | (late) "\<not> instant < ov_effective_time d" "ov_expiry_time d \<le> instant"
    | (active) "\<not> instant < ov_effective_time d" "\<not> ov_expiry_time d \<le> instant" by linarith
  then show ?thesis
  proof cases
    case active
    then have w: "state = ACTIVE_OVERLAY" "w = [(''QQQ'', ?q), (''SOXX'', ?s), (''USD_CASH'', fl (1 - fl (?q + ?s)))]"
      using run by (simp_all add: Let_def)
    have gets: "dict_get w ''QQQ'' 0 = ?q" "dict_get w ''SOXX'' 0 = ?s" "dict_get w ''USD_CASH'' 0 = fl (1 - fl (?q + ?s))"
      "dict_get base ''USD_CASH'' 0 = fl (1 - fl (qqq + soxx))" "dict_keys w = dict_keys base"
      by (simp_all add: w(2) b(3) dict_get_def dict_keys_def)
    have weights: "\<forall>s\<in>set Q1_RISKY_SYMBOLS. dict_get w s 0 = overlay_weight d base current_weights s \<and> 0 \<le> dict_get base s 0"
      using gets(1,2) nn by (simp add: Q1_RISKY_SYMBOLS_def)
    note bounds = overlay_weight_bounds [of base _ d current_weights, OF _ conjunct2 [OF m] conjunct1 [OF m]]
      and exact = overlay_weight_exact [of base _ d current_weights, OF _ conjunct2 [OF m] conjunct1 [OF m]]
    show ?thesis
    proof (rule exI [of _ base], rule exI [of _ instant], unfold if_not_P [OF active(1)] if_not_P [OF active(2)],
        intro conjI ballI, rule base, rule now, rule w(1), rule gets(5))
      show "dict_get base ''USD_CASH'' 0 \<le> dict_get w ''USD_CASH'' 0" unfolding gets(3,4) by (rule cash)
      fix s assume "s \<in> set Q1_RISKY_SYMBOLS"
      then have s: "dict_get w s 0 = overlay_weight d base current_weights s" "0 \<le> dict_get base s 0" using weights by blast+
      show "0 \<le> dict_get w s 0" "dict_get w s 0 \<le> dict_get base s 0" "dict_get w s 0 \<le> fl (dict_get base s 0 * ov_risk_multiplier d)"
        "ov_block_new_entries d \<longrightarrow> dict_get w s 0 \<le> max 0 (dict_get current_weights s 0)"
        unfolding s(1) using bounds [OF s(2)] by blast+
      show "dict_get w s 0 = min (dict_get base s 0)
          (if ov_block_new_entries d
           then min (fl (dict_get base s 0 * ov_risk_multiplier d)) (max 0 (dict_get current_weights s 0))
           else fl (dict_get base s 0 * ov_risk_multiplier d))"
        unfolding s(1) by (rule exact [OF s(2)])
    qed
  qed (use base now run in \<open>auto simp: rbind_eq_Inr\<close>)
qed

text \<open>A decision in force that halves the risky weights.\<close>

definition ex_overlay :: q1_llm_overlay_decision where
  "ex_overlay =
     \<lparr>ov_request_id = ''req'', ov_context_manifest_hash = replicate 64 (CHR ''a''), ov_risk_multiplier = 1 / 2,
      ov_block_new_entries = True, ov_evidence_event_ids = [''news''], ov_rationale = ''cautious'',
      ov_effective_time = 10, ov_expiry_time = 20, ov_created_at = 5\<rparr>"

lemma lead_bit_unique:
  assumes "pow2 k \<le> \<bar>x\<bar>" "\<bar>x\<bar> < pow2 (k + 1)"
  shows "lead_bit x = k"
proof -
  have "0 < \<bar>x\<bar>" by (rule less_le_trans [OF _ assms(1)]) simp
  then have "x \<noteq> 0" by simp
  from lead_bit_bounds [OF this] assms have "pow2 k < pow2 (lead_bit x + 1)" "pow2 (lead_bit x) < pow2 (k + 1)" by linarith+
  then show ?thesis by (simp add: pow2_less_iff)
qed

lemma lead_digit_half: "lead_digit (1 / 2) = - 1"
  by code_simp

lemma fl_half [simp]: "fl (1 / 2) = 1 / 2"
  using is_double_simps(4) unfolding is_double_def .

lemma float_decimal_simps [simp]: "float_decimal 0 = D 0 (- 1)" "float_decimal (1 / 2) = Dec False 5 (- 1)"
proof -
  have d: "digits_of (1 / 2) (Suc 0) = Some (5, - 1)"
    using rhe_of_int [of 5] by (simp add: digits_of_def lead_digit_half Let_def)
  have "List.map_filter (digits_of (1 / 2)) [1..<18] = (5, - 1) # List.map_filter (digits_of (1 / 2)) [2..<18]"
    by (subst upt_conv_Cons) (simp_all add: map_filter_simps d numeral_2_eq_2 [symmetric])
  then have "shortest_digits (1 / 2) = (5, - 1)" by (simp only: shortest_digits_def list.case)
  then show "float_decimal (1 / 2) = Dec False 5 (- 1)" by (simp add: float_decimal_def)
qed (simp add: float_decimal_def)

lemma leverage_bound: "dval (D 1 0 + Q1_TARGET_WEIGHT_SUM_TOLERANCE) = 1 + 1 / 10 ^ 12"
  using ctx_exact [of "1 + 1 / 10 ^ 12" 1000000000001 "- 12"]
  by (simp add: Q1_TARGET_WEIGHT_SUM_TOLERANCE_def dval_simps prec_def)

theorem overlay_reduce_only_witness:
  "\<exists>w. apply_reduce_only_overlay [(''QQQ'', 1 / 2)] [(''QQQ'', 1 / 8)] (Some ex_overlay) (Aware 12) = Inr (w, ACTIVE_OVERLAY)
    \<and> dict_get w ''QQQ'' 0 \<le> 1 / 8 \<and> 1 / 2 \<le> dict_get w ''USD_CASH'' 0"
proof -
  have valid: "validate_q1_llm_overlay_decision ex_overlay = Inr ex_overlay" by code_simp
  have base: "normalize_target [(''QQQ'', 1 / 2)] = Inr [(''QQQ'', 1 / 2), (''SOXX'', 0), (''USD_CASH'', 1 / 2)]"
    by (simp add: normalize_target_def Q1_RISKY_SYMBOLS_def dict_keys_def dict_get_def py_max_def Let_def
        less_decimal_dval leverage_bound dval_Dec)
  obtain w where w: "apply_reduce_only_overlay [(''QQQ'', 1 / 2)] [(''QQQ'', 1 / 8)] (Some ex_overlay) (Aware 12) = Inr (w, ACTIVE_OVERLAY)"
    unfolding apply_reduce_only_overlay_def base by (auto simp: ex_overlay_def Let_def)
  from overlay_reduce_only [OF valid w] have "dict_get w ''QQQ'' 0 \<le> 1 / 8 \<and> 1 / 2 \<le> dict_get w ''USD_CASH'' 0"
    unfolding base by (auto simp: Q1_RISKY_SYMBOLS_def ex_overlay_def dict_get_def)
  then show ?thesis using w by (intro exI [of _ w] conjI) simp_all
qed

text \<open>
  C39. A silent provider can stop a strategic cycle. Without any decision the overlay returns the
  deterministic weights rounded to floats and back to decimals, and then compares them with the
  deterministic weights as if the provider had changed them: the cycle raises "LLM overlay
  attempted to increase risk" exactly when the shortest text of the rounded weight of a risky
  symbol exceeds the weight, and otherwise returns the rounded weights.\<close>

theorem silent_overlay_raises_iff:
  assumes "mc_risky_symbols config = Q1_RISKY_SYMBOLS" "0 \<le> dval q" "0 \<le> dval s"
    and "compute_current_weights (as_positions state) (as_settled_cash_usd state)
           (fold (\<lambda>r. AList.update (ur_receivable_id r) (ur_amount_usd r)) (as_unsettled_receivables state) [])
           quotes config = Inr current"
    and "float_decimal (fl (fl (dval q) + fl (dval s))) \<le> D 1 0 + Q1_TARGET_WEIGHT_SUM_TOLERANCE"
  shows "apply_llm_overlay config [(''QQQ'', q), (''SOXX'', s), (''USD_CASH'', c)] state quotes None as_of
    = (if q < float_decimal (fl (dval q)) \<or> s < float_decimal (fl (dval s))
       then Inl (Q1CycleError ''LLM overlay attempted to increase risk'')
       else Inr ([(''QQQ'', float_decimal (fl (dval q))), (''SOXX'', float_decimal (fl (dval s))),
              (''USD_CASH'', float_decimal (fl (1 - fl (fl (dval q) + fl (dval s)))))], NO_CHANGE))"
proof -
  let ?w = "[(''QQQ'', fl (dval q)), (''SOXX'', fl (dval s)), (''USD_CASH'', fl (dval c))]"
  have max: "py_max 0 (fl (dval q)) = fl (dval q)" "py_max 0 (fl (dval s)) = fl (dval s)"
    using fl_nonneg [OF assms(2)] fl_nonneg [OF assms(3)] by (simp_all add: py_max_def)
  have lev: "\<not> D 1 0 + Q1_TARGET_WEIGHT_SUM_TOLERANCE < float_decimal (fl (fl (dval q) + fl (dval s)))"
    using assms(5) by (simp only: dval_simps not_less)
  have "normalize_target ?w = Inr [(''QQQ'', fl (dval q)), (''SOXX'', fl (dval s)), (''USD_CASH'', fl (1 - fl (fl (dval q) + fl (dval s))))]"
    using lev by (simp add: normalize_target_def Q1_RISKY_SYMBOLS_def dict_keys_def dict_get_def max Let_def)
  then have "apply_reduce_only_overlay ?w cur None as_of
      = Inr ([(''QQQ'', fl (dval q)), (''SOXX'', fl (dval s)), (''USD_CASH'', fl (1 - fl (fl (dval q) + fl (dval s))))], NO_CHANGE)" for cur
    by (simp add: apply_reduce_only_overlay_def)
  then show ?thesis
    unfolding apply_llm_overlay_def assms(4) by (simp add: assms(1) Q1_RISKY_SYMBOLS_def dict_lookup_def Let_def)
qed

definition ex_allocated :: decimal where
  "ex_allocated = D 49999999999999999999 (- 20)"

lemma ex_allocated_float: "fl (dval ex_allocated) = 1 / 2"
proof -
  let ?x = "49999999999999999999 / 100000000000000000000 :: rat"
  have "lead_bit ?x = - 2" by (rule lead_bit_unique) (simp_all add: power_int_minus)
  then have "last_bit ?x = - 54" by (simp add: last_bit_def)
  moreover have "\<lfloor>858993459199999999982820130816 / 95367431640625 :: rat\<rfloor> = 9007199254740991" by (rule floor_unique) simp_all
  ultimately have "fl ?x = 1 / 2" by (simp add: fl_def rhe_def power_int_minus Let_def)
  then show ?thesis by (simp add: ex_allocated_def dval_D power_int_minus)
qed

theorem silent_overlay_raises_iff_witness:
  "apply_llm_overlay ex_math [(''QQQ'', ex_allocated), (''SOXX'', 0), (''USD_CASH'', D 50000000000000000001 (- 20))]
     (ex_arm\<lparr>as_positions := []\<rparr>) [(''QQQ'', D 500 0), (''SOXX'', D 200 0)] None (Aware 0)
   = Inl (Q1CycleError ''LLM overlay attempted to increase risk'')"
proof -
  let ?s = "ex_arm\<lparr>as_positions := []\<rparr>" and ?q = "[(''QQQ'', D 500 0), (''SOXX'', D 200 0)]"
  have "\<not> isl (compute_current_weights (as_positions ?s) (as_settled_cash_usd ?s)
      (fold (\<lambda>r. AList.update (ur_receivable_id r) (ur_amount_usd r)) (as_unsettled_receivables ?s) []) ?q ex_math)" by code_simp
  note cur = sum.collapse(2) [OF this, symmetric]
  have "mc_risky_symbols ex_math = Q1_RISKY_SYMBOLS" "0 \<le> dval ex_allocated"
    by (simp_all add: ex_math_def Q1_RISKY_SYMBOLS_def ex_allocated_def dval_D)
  moreover have "float_decimal (fl (fl (dval ex_allocated) + fl (dval 0))) \<le> D 1 0 + Q1_TARGET_WEIGHT_SUM_TOLERANCE"
    by (simp add: ex_allocated_float less_eq_decimal_dval leverage_bound dval_Dec)
  moreover have "ex_allocated < float_decimal (fl (dval ex_allocated))"
    unfolding ex_allocated_float by (simp add: less_decimal_dval ex_allocated_def dval_D dval_Dec power_int_minus)
  ultimately show ?thesis
    using silent_overlay_raises_iff [OF _ _ _ cur, of ex_allocated 0 "D 50000000000000000001 (- 20)" "Aware 0"] by simp
qed

end
