(* ===== verification/Policy.thy ===== *)
theory Policy
  imports Binary64 Domain
begin

text \<open>
  Policy patches of a language model: \<^verbatim>\<open>llm/policy_compiler.py\<close>, the records of
  \<^verbatim>\<open>domain/contracts.py\<close> it compiles, and the forward targets that consume the compiled policy
  (\<^verbatim>\<open>target_for_arm\<close> and \<^verbatim>\<open>apply_core_rebalance_band\<close> of \<^verbatim>\<open>portfolio/forward.py\<close>). A compiled
  policy scales the risk budget down, blocks entries and owns the buckets it controls. Shown: a
  compiled policy is always within its limits, tightens unless it restores the default, equals
  the composition of its active patches, and never raises the weight of the risk-managed arm.
\<close>

section \<open>Patches\<close>

datatype condition_type =
  TIME_REACHED | SOURCE_RETRACTION | OFFICIAL_CONFIRMATION | MARKET_FEATURE_THRESHOLD | EVENT_STATUS_CHANGED
| PATCH_ATTRIBUTED_PNL | DATA_STALENESS

datatype policy_action = BLOCK_NEW_ENTRIES | REDUCE_RISK_BUDGET | APPLY_STRATEGY_TILT | RESTORE_DEFAULT

datatype policy_target_kind = STRATEGY | FACTOR | PORTFOLIO | SYMBOL

fun target_kind_value :: "policy_target_kind \<Rightarrow> string" where
  "target_kind_value STRATEGY = ''STRATEGY''"
| "target_kind_value FACTOR = ''FACTOR''"
| "target_kind_value PORTFOLIO = ''PORTFOLIO''"
| "target_kind_value SYMBOL = ''SYMBOL''"

datatype comparison_operator = LT | LTE | EQ | GTE | GT

datatype condition_value = TextValue string | IntValue int | FloatValue rat | BoolValue bool | NullValue

record typed_condition =
  tc_condition_id :: string
  tc_condition_type :: condition_type
  tc_field :: string
  tc_operator :: comparison_operator
  tc_value :: condition_value
  tc_evaluation_window :: "string option"
  tc_source_ids :: "string list"

record policy_operation =
  op_action :: policy_action
  op_target_kind :: policy_target_kind
  op_target_id :: string
  op_risk_budget_delta :: "rat option"
  op_risk_multiplier :: "rat option"
  op_blocked :: "bool option"

record policy_patch =
  pp_patch_id :: string
  pp_schema_version :: string
  pp_arm_scope :: string
  pp_base_policy_version :: int
  pp_effective_from :: instant
  pp_expires_at :: instant
  pp_operations :: "policy_operation list"
  pp_evidence_news_event_ids :: "string list"
  pp_raw_confidence :: rat
  pp_rollback_conditions :: "typed_condition list"
  pp_model_run_id :: string
  pp_prompt_hash :: string
  pp_context_manifest_hash :: string
  pp_created_at :: instant

definition validate_policy_patch :: "policy_patch \<Rightarrow> policy_patch result" where
  "validate_policy_patch p =
     (if pp_base_policy_version p < 0 \<or> pp_operations p = [] \<or> pp_evidence_news_event_ids p = []
         \<or> \<not> (0 \<le> pp_raw_confidence p \<and> pp_raw_confidence p \<le> 1)
      then Inl (ValidationError ''policy patch field constraint'')
      else if pp_expires_at p \<le> pp_effective_from p
      then Inl (ValidationError ''PolicyPatch expires_at must be after effective_from'')
      else Inr p)"

section \<open>Policy states\<close>

record policy_state =
  ps_arm_id :: string
  ps_version :: int
  ps_portfolio_risk_multiplier :: rat
  ps_strategy_risk_deltas :: "(string, rat) dict"
  ps_blocked_targets :: "string set"
  ps_active_buckets :: "string set"
  ps_source_patch_id :: "string option"

definition default_policy :: "string \<Rightarrow> policy_state" where
  "default_policy arm_id =
     \<lparr>ps_arm_id = arm_id, ps_version = 0, ps_portfolio_risk_multiplier = 1, ps_strategy_risk_deltas = [],
      ps_blocked_targets = {}, ps_active_buckets = {}, ps_source_patch_id = None\<rparr>"

section \<open>The compiler\<close>

definition MAX_PAPER_RISK_DELTA :: rat where
  "MAX_PAPER_RISK_DELTA = fl (15 / 100)"

definition ALLOWED_SYMBOLS :: "string set" where
  "ALLOWED_SYMBOLS = {''SPY'', ''QQQ'', ''IWM'', ''SOXX'', ''SMH'', ''XLK'', ''TLT'', ''HYG'', ''GLD''}"

definition ALLOWED_FACTORS :: "string set" where
  "ALLOWED_FACTORS =
     {''US_EQUITY_BETA'', ''US_TECH_BETA'', ''SEMICONDUCTOR_BETA'', ''DURATION'', ''CREDIT'', ''GOLD_DEFENSIVE''}"

fun CONDITION_FIELDS :: "condition_type \<Rightarrow> string set" where
  "CONDITION_FIELDS TIME_REACHED = {''current_time''}"
| "CONDITION_FIELDS SOURCE_RETRACTION = {''source_id''}"
| "CONDITION_FIELDS OFFICIAL_CONFIRMATION = {''event_status''}"
| "CONDITION_FIELDS MARKET_FEATURE_THRESHOLD = {''QQQ_RETURN_BPS'', ''SOXX_RETURN_BPS'', ''VIX_LEVEL''}"
| "CONDITION_FIELDS EVENT_STATUS_CHANGED = {''event_status''}"
| "CONDITION_FIELDS PATCH_ATTRIBUTED_PNL = {''attributed_pnl_usd''}"
| "CONDITION_FIELDS DATA_STALENESS = {''data_age_seconds''}"

definition validate_condition :: "typed_condition \<Rightarrow> unit \<Rightarrow> unit result" where
  "validate_condition c u =
     guard_not (tc_field c \<notin> CONDITION_FIELDS (tc_condition_type c)) (PolicyCompileError ''Condition field is not allowed'')"

definition validate_forward_b3_operation :: "policy_operation \<Rightarrow> unit result" where
  "validate_forward_b3_operation op =
     (case op_action op of
        REDUCE_RISK_BUDGET \<Rightarrow>
          if op_target_kind op \<noteq> PORTFOLIO \<or> op_target_id op \<noteq> ''TOTAL''
          then Inl (PolicyCompileError ''B3-RISK risk reduction must target PORTFOLIO:TOTAL'')
          else if op_risk_multiplier op = None
          then Inl (PolicyCompileError ''B3-RISK risk reduction requires risk_multiplier'')
          else guard_not (op_risk_budget_delta op \<noteq> None)
                 (PolicyCompileError ''B3-RISK forward core does not consume risk_budget_delta'')
      | BLOCK_NEW_ENTRIES \<Rightarrow>
          if \<not> (op_target_kind op = SYMBOL \<and> op_target_id op = ''QQQ''
                \<or> op_target_kind op = FACTOR \<and> op_target_id op \<in> {''US_EQUITY_BETA'', ''US_TECH_BETA''})
          then Inl (PolicyCompileError ''B3-RISK entry block must target QQQ or a consumed equity factor'')
          else guard_not (op_blocked op = Some False)
                 (PolicyCompileError ''BLOCK_NEW_ENTRIES cannot set blocked=false'')
      | RESTORE_DEFAULT \<Rightarrow>
          guard_not (op_target_kind op \<noteq> PORTFOLIO \<or> op_target_id op \<noteq> ''TOTAL'')
            (PolicyCompileError ''B3-RISK restore must target PORTFOLIO:TOTAL'')
      | APPLY_STRATEGY_TILT \<Rightarrow> Inr ())"

definition validate_operation :: "string \<Rightarrow> bool \<Rightarrow> policy_operation \<Rightarrow> unit result" where
  "validate_operation arm_id shadow_mode op =
     rbind (guard_not (arm_id = ''B3-RISK'' \<and> op_action op = APPLY_STRATEGY_TILT)
              (PolicyCompileError ''B3-RISK cannot apply strategy tilts'')) (\<lambda>_.
     rbind (if arm_id = ''B3-RISK'' then validate_forward_b3_operation op else Inr ()) (\<lambda>_.
     rbind (guard_not (arm_id = ''B3-FULL'' \<and> op_action op = APPLY_STRATEGY_TILT \<and> \<not> shadow_mode)
              (PolicyCompileError ''B3-FULL strategy tilt is shadow-only'')) (\<lambda>_.
     rbind (guard_not (op_target_kind op = SYMBOL \<and> op_target_id op \<notin> ALLOWED_SYMBOLS)
              (PolicyCompileError ''Symbol is not in the execution universe'')) (\<lambda>_.
     rbind (guard_not (op_target_kind op = SYMBOL \<and> op_action op \<noteq> BLOCK_NEW_ENTRIES)
              (PolicyCompileError ''Symbol targets may only block new entries'')) (\<lambda>_.
     rbind (guard_not (op_target_kind op = FACTOR \<and> op_target_id op \<notin> ALLOWED_FACTORS)
              (PolicyCompileError ''Factor is not in the fixed registry'')) (\<lambda>_.
     rbind (case op_risk_budget_delta op of
              None \<Rightarrow> Inr ()
            | Some delta \<Rightarrow>
                rbind (guard_not (MAX_PAPER_RISK_DELTA < \<bar>delta\<bar>)
                         (PolicyCompileError ''Risk budget delta exceeds paper limit'')) (\<lambda>_.
                  guard_not (arm_id = ''B3-RISK'' \<and> 0 < delta)
                    (PolicyCompileError ''B3-RISK cannot increase risk''))) (\<lambda>_.
     rbind (case op_risk_multiplier op of
              None \<Rightarrow> Inr ()
            | Some m \<Rightarrow>
                guard_not (\<not> (1 / 4 \<le> m \<and> m \<le> 1))
                  (PolicyCompileError ''Paper risk multiplier must be within [0.25, 1.00]'')) (\<lambda>_.
       guard_not (op_action op = REDUCE_RISK_BUDGET \<and> op_risk_budget_delta op = None \<and> op_risk_multiplier op = None)
         (PolicyCompileError ''Risk reduction needs a delta or multiplier'')))))))))"

text \<open>The local variables of both loops: multiplier, deltas, blocked targets and buckets.\<close>

record policy_effects =
  pe_multiplier :: rat
  pe_deltas :: "(string, rat) dict"
  pe_blocked :: "string set"
  pe_buckets :: "string set"

definition default_effects :: policy_effects where
  "default_effects = \<lparr>pe_multiplier = 1, pe_deltas = [], pe_blocked = {}, pe_buckets = {}\<rparr>"

definition policy_bucket :: "policy_operation \<Rightarrow> string" where
  "policy_bucket op = target_kind_value (op_target_kind op) @ '':'' @ op_target_id op"

text \<open>One iteration of the loop over operations; \<open>msg\<close> is the message of a bucket conflict.\<close>

definition apply_operation :: "string \<Rightarrow> string \<Rightarrow> bool \<Rightarrow> policy_operation \<Rightarrow> policy_effects \<Rightarrow> policy_effects result" where
  "apply_operation msg arm_id shadow_mode op e =
     rbind (validate_operation arm_id shadow_mode op) (\<lambda>_.
     let bucket = policy_bucket op in
     if op_action op = RESTORE_DEFAULT then Inr default_effects
     else if bucket \<in> pe_buckets e then Inl (PolicyCompileError msg)
     else
       let budget = op_action op \<in> {REDUCE_RISK_BUDGET, APPLY_STRATEGY_TILT} in
       Inr \<lparr>pe_multiplier =
              (case op_risk_multiplier op of
                 Some m \<Rightarrow> if budget then py_min (pe_multiplier e) m else pe_multiplier e
               | None \<Rightarrow> pe_multiplier e),
            pe_deltas =
              (case op_risk_budget_delta op of
                 Some d \<Rightarrow>
                   if budget
                   then AList.update (op_target_id op) (fl (dict_get (pe_deltas e) (op_target_id op) 0 + d)) (pe_deltas e)
                   else pe_deltas e
               | None \<Rightarrow> pe_deltas e),
            pe_blocked = (if op_action op = BLOCK_NEW_ENTRIES then insert bucket (pe_blocked e) else pe_blocked e),
            pe_buckets = insert bucket (pe_buckets e)\<rparr>)"

definition state_effects :: "policy_state \<Rightarrow> policy_effects" where
  "state_effects s =
     \<lparr>pe_multiplier = ps_portfolio_risk_multiplier s, pe_deltas = ps_strategy_risk_deltas s,
      pe_blocked = ps_blocked_targets s, pe_buckets = ps_active_buckets s\<rparr>"

definition effects_state :: "string \<Rightarrow> int \<Rightarrow> string option \<Rightarrow> policy_effects \<Rightarrow> policy_state" where
  "effects_state arm_id version source e =
     \<lparr>ps_arm_id = arm_id, ps_version = version, ps_portfolio_risk_multiplier = pe_multiplier e,
      ps_strategy_risk_deltas = pe_deltas e, ps_blocked_targets = pe_blocked e, ps_active_buckets = pe_buckets e,
      ps_source_patch_id = source\<rparr>"

definition compile_policy :: "policy_patch \<Rightarrow> policy_state \<Rightarrow> datetime \<Rightarrow> bool \<Rightarrow> policy_state result" where
  "compile_policy patch current now shadow_mode =
     rbind (require_aware_utc ''now'' now) (\<lambda>t.
     if pp_arm_scope patch \<noteq> ps_arm_id current
     then Inl (PolicyCompileError ''Patch arm_scope does not match policy state'')
     else if pp_base_policy_version patch \<noteq> ps_version current
     then Inl (PolicyCompileError ''Patch base policy version mismatch'')
     else if \<not> (pp_effective_from patch \<le> t \<and> t < pp_expires_at patch)
     then Inl (PolicyCompileError ''Patch is not active at compile time'')
     else if pp_arm_scope patch \<notin> {''B3-RISK'', ''B3-FULL''}
     then Inl (PolicyCompileError ''Only B3 arms accept LLM policy patches'')
     else
       rbind (rfold validate_condition (pp_rollback_conditions patch) ()) (\<lambda>_.
       rbind (rfold (apply_operation ''An active patch already controls bucket'' (pp_arm_scope patch) shadow_mode)
                (pp_operations patch) (state_effects current)) (\<lambda>e.
         Inr (effects_state (ps_arm_id current) (ps_version current + 1) (Some (pp_patch_id patch)) e))))"

text \<open>One iteration of the loop over patches in \<^verbatim>\<open>compose\<close>.\<close>

definition compose_patch ::
  "string \<Rightarrow> instant \<Rightarrow> bool \<Rightarrow> policy_patch \<Rightarrow> policy_effects \<times> string option \<Rightarrow> (policy_effects \<times> string option) result" where
  "compose_patch arm_id t shadow_mode patch acc =
     (if pp_arm_scope patch \<noteq> arm_id then Inl (PolicyCompileError ''Patch arm_scope does not match composition'')
      else if \<not> (pp_effective_from patch \<le> t \<and> t < pp_expires_at patch)
      then Inl (PolicyCompileError ''Policy composition received an inactive patch'')
      else
        rbind (rfold validate_condition (pp_rollback_conditions patch) ()) (\<lambda>_.
        rbind (rfold (apply_operation ''More than one active patch controls bucket'' arm_id shadow_mode)
                 (pp_operations patch) (fst acc)) (\<lambda>e. Inr (e, Some (pp_patch_id patch)))))"

definition compose_policy :: "string \<Rightarrow> policy_patch list \<Rightarrow> int \<Rightarrow> datetime \<Rightarrow> bool \<Rightarrow> policy_state result" where
  "compose_policy arm_id patches version now shadow_mode =
     rbind (require_aware_utc ''now'' now) (\<lambda>t.
     if version < 0 then Inl (PolicyCompileError ''Policy version cannot be negative'')
     else
       rbind (rfold (compose_patch arm_id t shadow_mode) patches (default_effects, None)) (\<lambda>(e, source).
         Inr (effects_state arm_id version source e)))"

definition expire_policy :: "policy_state \<Rightarrow> datetime \<Rightarrow> datetime \<Rightarrow> policy_state result" where
  "expire_policy current now expires_at =
     rbind (require_aware_utc ''now'' now) (\<lambda>t.
     rbind (require_aware_utc ''expires_at'' expires_at) (\<lambda>x.
     if t < x then Inl (PolicyCompileError ''Policy cannot be restored before patch expiry'')
     else Inr ((default_policy (ps_arm_id current))\<lparr>ps_version := ps_version current + 1\<rparr>)))"

section \<open>Forward targets\<close>

record forward_core_forecast =
  cf_version :: string
  cf_lookback_sessions :: int
  cf_observations :: int
  cf_annualized_vol :: rat
  cf_qqq_weight :: rat

record forward_target =
  ft_arm_id :: string
  ft_target_weights :: "(string, rat) dict"
  ft_core_forecast :: forward_core_forecast
  ft_policy_version :: int
  ft_policy_risk_multiplier :: rat
  ft_blocked_new_entries :: "string set"
  ft_target_reason :: string

definition target_for_arm :: "string \<Rightarrow> forward_core_forecast \<Rightarrow> policy_state option \<Rightarrow> forward_target result" where
  "target_for_arm arm_id core policy =
     (let active_policy = (case policy of Some p \<Rightarrow> p | None \<Rightarrow> default_policy arm_id);
          build = (\<lambda>(weight, reason).
            let qqq_weight = py_min (py_max weight 0) 1 in
            Inr \<lparr>ft_arm_id = arm_id, ft_target_weights = [(''QQQ'', qqq_weight), (''USD_CASH'', fl (1 - qqq_weight))],
                 ft_core_forecast = core, ft_policy_version = ps_version active_policy,
                 ft_policy_risk_multiplier = ps_portfolio_risk_multiplier active_policy,
                 ft_blocked_new_entries = ps_blocked_targets active_policy, ft_target_reason = reason\<rparr>) in
      if arm_id = ''B0-CASH'' then build (0, ''USD_CASH_CONTROL'')
      else if arm_id = ''B0-QQQ'' then build (1, ''QQQ_BUY_AND_HOLD_CONTROL'')
      else if arm_id = ''B0-VOL'' then build (cf_qqq_weight core, ''VOL_TARGETED_QQQ_CASH_CORE'')
      else if arm_id = ''B3-RISK''
      then build (fl (cf_qqq_weight core * ps_portfolio_risk_multiplier active_policy), ''VOL_CORE_WITH_LLM_RISK_REDUCTION'')
      else Inl (ForwardPortfolioError ''Arm is not forward order-enabled''))"

text \<open>\<open>quotes\<close> gives the midpoint of every quoted symbol.\<close>

definition apply_core_rebalance_band ::
  "forward_target \<Rightarrow> decimal \<Rightarrow> (string, decimal) dict \<Rightarrow> (string, decimal) dict \<Rightarrow> rat \<Rightarrow> forward_target result" where
  "apply_core_rebalance_band target cash_usd positions quotes min_weight_delta =
     (if ft_arm_id target \<notin> {''B0-VOL'', ''B3-RISK''} then Inr target
      else if \<not> (0 \<le> min_weight_delta \<and> min_weight_delta \<le> 1)
      then Inl (ForwardPortfolioError ''min_rebalance_weight_delta must be within [0, 1]'')
      else if \<exists>(s, q)\<in>set positions. s \<noteq> ''QQQ'' \<and> \<not> d_eq q 0 then Inr target
      else if ft_arm_id target = ''B3-RISK'' \<and> ft_policy_risk_multiplier target < 1 then Inr target
      else
        case map_of quotes ''QQQ'' of
          None \<Rightarrow> Inl (ForwardPortfolioError ''QQQ quote is required for the rebalance band'')
        | Some midpoint \<Rightarrow>
            let q = dict_get positions ''QQQ'' 0; nav = cash_usd + q * midpoint in
            if nav \<le> 0 then Inl (ForwardPortfolioError ''Core NAV must be positive'')
            else
              let current_weight = fl (dval (d_div (q * midpoint) nav)) in
              if min_weight_delta \<le> \<bar>fl (dict_get (ft_target_weights target) ''QQQ'' 0 - current_weight)\<bar> then Inr target
              else Inr (target\<lparr>ft_target_weights := [(''QQQ'', current_weight), (''USD_CASH'', fl (1 - current_weight))],
                     ft_target_reason := ft_target_reason target @ ''_WITHIN_REBALANCE_BAND''\<rparr>))"

text \<open>\<^verbatim>\<open>_qqq_entry_is_blocked\<close> of \<^verbatim>\<open>risk/forward.py\<close>.\<close>

definition qqq_entry_is_blocked :: "string set \<Rightarrow> bool" where
  "qqq_entry_is_blocked blocked_targets \<longleftrightarrow>
     blocked_targets \<inter> {''SYMBOL:QQQ'', ''FACTOR:US_EQUITY_BETA'', ''FACTOR:US_TECH_BETA''} \<noteq> {}"

section \<open>Limits of a policy\<close>

definition consumed_blocks :: "string set" where
  "consumed_blocks = {''SYMBOL:QQQ'', ''FACTOR:US_EQUITY_BETA'', ''FACTOR:US_TECH_BETA''}"

definition effects_ok :: "string \<Rightarrow> policy_effects \<Rightarrow> bool" where
  "effects_ok arm_id e \<longleftrightarrow>
     1 / 4 \<le> pe_multiplier e \<and> pe_multiplier e \<le> 1 \<and> pe_blocked e \<subseteq> pe_buckets e
     \<and> (arm_id = ''B3-RISK'' \<longrightarrow> pe_deltas e = [] \<and> pe_blocked e \<subseteq> consumed_blocks)"

lemma default_effects_ok [wf_intros]: "effects_ok arm_id default_effects"
  by (simp add: effects_ok_def default_effects_def)

lemma b3_operation_Inr:
  assumes "validate_operation ''B3-RISK'' shadow_mode op = Inr u"
  shows "op_action op = BLOCK_NEW_ENTRIES \<Longrightarrow> policy_bucket op \<in> consumed_blocks"
    "op_action op = REDUCE_RISK_BUDGET \<Longrightarrow> op_risk_budget_delta op = None" "op_action op \<noteq> APPLY_STRATEGY_TILT"
  using assms
  by (auto simp: validate_operation_def validate_forward_b3_operation_def result_simps policy_bucket_def consumed_blocks_def
      split: if_splits)

lemma operation_multiplier:
  "validate_operation arm_id shadow_mode op = Inr u \<Longrightarrow> op_risk_multiplier op = Some m \<Longrightarrow> 1 / 4 \<le> m \<and> m \<le> 1"
  by (auto simp: validate_operation_def result_simps split: option.splits)

lemma apply_operation_Inr:
  assumes "apply_operation msg arm_id shadow_mode op e = Inr e'"
  shows "op_action op = RESTORE_DEFAULT \<and> e' = default_effects
    \<or> op_action op \<noteq> RESTORE_DEFAULT \<and> policy_bucket op \<notin> pe_buckets e \<and> pe_buckets e' = insert (policy_bucket op) (pe_buckets e)
      \<and> pe_multiplier e' \<le> pe_multiplier e \<and> pe_blocked e \<subseteq> pe_blocked e' \<and> pe_blocked e' \<subseteq> insert (policy_bucket op) (pe_blocked e)"
  using assms
  by (auto simp: apply_operation_def rbind_eq_Inr Let_def py_min_def split: if_splits option.splits)

lemma apply_operation_ok [wf_intros]:
  assumes "apply_operation msg arm_id shadow_mode op e = Inr e'" "effects_ok arm_id e"
  shows "effects_ok arm_id e'"
proof -
  obtain u where u: "validate_operation arm_id shadow_mode op = Inr u" using assms(1) by (auto simp: apply_operation_def rbind_eq_Inr)
  have mult: "1 / 4 \<le> pe_multiplier e'" "pe_multiplier e' \<le> 1"
    using assms operation_multiplier [OF u]
    by (auto simp: apply_operation_def rbind_eq_Inr Let_def effects_ok_def default_effects_def py_min_def split: if_splits option.splits)
  have sub: "pe_blocked e' \<subseteq> pe_buckets e'" using apply_operation_Inr [OF assms(1)] assms(2) by (auto simp: effects_ok_def default_effects_def)
  have "pe_deltas e' = [] \<and> pe_blocked e' \<subseteq> consumed_blocks" if "arm_id = ''B3-RISK''"
    using assms that b3_operation_Inr [of shadow_mode op u] u
    by (auto simp: apply_operation_def rbind_eq_Inr Let_def effects_ok_def default_effects_def split: if_splits option.splits)
  then show ?thesis using mult sub by (simp add: effects_ok_def)
qed

lemma operations_ok:
  "rfold (apply_operation msg arm_id shadow_mode) ops e = Inr e' \<Longrightarrow> effects_ok arm_id e \<Longrightarrow> effects_ok arm_id e'"
  by (erule rfold_invariant) (auto intro: wf_intros)

definition policy_ok :: "policy_state \<Rightarrow> bool" where
  "policy_ok s \<longleftrightarrow> effects_ok (ps_arm_id s) (state_effects s) \<and> 0 \<le> ps_version s"

lemma state_effects_simps [simp]:
  "state_effects (effects_state arm_id version source e) = e" "ps_arm_id (effects_state arm_id version source e) = arm_id"
  "ps_version (effects_state arm_id version source e) = version" "ps_source_patch_id (effects_state arm_id version source e) = source"
  "effects_state (ps_arm_id s) (ps_version s) (ps_source_patch_id s) (state_effects s) = s"
  by (simp_all add: state_effects_def effects_state_def)

lemma compile_policy_Inr:
  assumes "compile_policy patch current now shadow_mode = Inr s"
  obtains e where "rfold (apply_operation ''An active patch already controls bucket'' (ps_arm_id current) shadow_mode)
      (pp_operations patch) (state_effects current) = Inr e"
    "s = effects_state (ps_arm_id current) (ps_version current + 1) (Some (pp_patch_id patch)) e"
    "pp_arm_scope patch = ps_arm_id current" "ps_arm_id current \<in> {''B3-RISK'', ''B3-FULL''}"
  using assms that by (auto simp: compile_policy_def rbind_eq_Inr split: if_splits)

inductive policy_step :: "policy_state \<Rightarrow> policy_state \<Rightarrow> bool" where
  compile: "compile_policy patch s now shadow_mode = Inr s' \<Longrightarrow> policy_step s s'"
| expire: "expire_policy s now expires_at = Inr s' \<Longrightarrow> policy_step s s'"

inductive_cases policy_stepE [elim]: "policy_step s s'"

lemma default_policy_ok [wf_intros]: "policy_ok (default_policy arm_id)"
  by (simp add: policy_ok_def default_policy_def state_effects_def effects_ok_def)

lemma policy_step_ok [wf_intros]:
  assumes "policy_step s s'" "policy_ok s"
  shows "policy_ok s' \<and> ps_arm_id s' = ps_arm_id s \<and> ps_version s' = ps_version s + 1"
  using assms(1)
proof cases
  case (compile patch now shadow_mode)
  then obtain e where "rfold (apply_operation ''An active patch already controls bucket'' (ps_arm_id s) shadow_mode)
      (pp_operations patch) (state_effects s) = Inr e"
    "s' = effects_state (ps_arm_id s) (ps_version s + 1) (Some (pp_patch_id patch)) e"
    by (rule compile_policy_Inr)
  then show ?thesis using assms(2) operations_ok by (auto simp: policy_ok_def)
next
  case (expire now expires_at)
  then show ?thesis using assms(2)
    by (auto simp: expire_policy_def rbind_eq_Inr policy_ok_def default_policy_def state_effects_def effects_ok_def split: if_splits)
qed

section \<open>Composition\<close>

text \<open>Conflicts are reported with different messages only.\<close>

lemma apply_operation_msg:
  "apply_operation msg arm_id shadow_mode op e = Inr e' \<longleftrightarrow> apply_operation msg' arm_id shadow_mode op e = Inr e'"
  by (auto simp: apply_operation_def rbind_eq_Inr Let_def split: if_splits)

lemma operations_msg:
  "rfold (apply_operation msg arm_id shadow_mode) ops e = Inr e' \<longleftrightarrow> rfold (apply_operation msg' arm_id shadow_mode) ops e = Inr e'"
proof (induction ops arbitrary: e)
  case (Cons op ops)
  then show ?case using apply_operation_msg by (simp add: rbind_eq_Inr) metis
qed simp

text \<open>Patches numbered consecutively from a version on.\<close>

fun rebase :: "int \<Rightarrow> policy_patch list \<Rightarrow> policy_patch list" where
  "rebase n [] = []"
| "rebase n (p # ps) = p\<lparr>pp_base_policy_version := n\<rparr> # rebase (n + 1) ps"

lemma compile_compose_step:
  assumes "arm_id \<in> {''B3-RISK'', ''B3-FULL''}"
  shows "compile_policy (p\<lparr>pp_base_policy_version := n\<rparr>) (effects_state arm_id n source e) (Aware t) shadow_mode = Inr s \<longleftrightarrow>
    (\<exists>e'. compose_patch arm_id t shadow_mode p (e, source) = Inr (e', Some (pp_patch_id p))
      \<and> s = effects_state arm_id (n + 1) (Some (pp_patch_id p)) e')"
  using assms operations_msg [of "''An active patch already controls bucket''" arm_id shadow_mode _ _ _ "''More than one active patch controls bucket''"]
  by (auto simp: compile_policy_def compose_patch_def rbind_eq_Inr)

lemma compose_patch_source: "compose_patch arm_id t shadow_mode p acc = Inr (e, source) \<Longrightarrow> source = Some (pp_patch_id p)"
  by (auto simp: compose_patch_def rbind_eq_Inr split: if_splits)

lemma compile_compose:
  assumes "arm_id \<in> {''B3-RISK'', ''B3-FULL''}"
  shows "rfold (\<lambda>p s. compile_policy p s (Aware t) shadow_mode) (rebase n ps) (effects_state arm_id n source e) = Inr s \<longleftrightarrow>
    (\<exists>e' source'. rfold (compose_patch arm_id t shadow_mode) ps (e, source) = Inr (e', source')
      \<and> s = effects_state arm_id (n + int (length ps)) source' e')"
proof (induction ps arbitrary: n source e)
  case (Cons p ps)
  show ?case (is "?l = ?r")
  proof
    assume ?l
    then obtain e1 where "compose_patch arm_id t shadow_mode p (e, source) = Inr (e1, Some (pp_patch_id p))"
      "rfold (\<lambda>p s. compile_policy p s (Aware t) shadow_mode) (rebase (n + 1) ps) (effects_state arm_id (n + 1) (Some (pp_patch_id p)) e1) = Inr s"
      by (auto simp: rbind_eq_Inr compile_compose_step [OF assms])
    then show ?r using Cons.IH [of "n + 1" "Some (pp_patch_id p)" e1] by (auto simp: rbind_eq_Inr algebra_simps)
  next
    assume ?r
    then obtain e1 src e' source' where step: "compose_patch arm_id t shadow_mode p (e, source) = Inr (e1, src)"
      and rest: "rfold (compose_patch arm_id t shadow_mode) ps (e1, src) = Inr (e', source')"
      and s: "s = effects_state arm_id (n + int (length (p # ps))) source' e'" by (auto simp: rbind_eq_Inr)
    have src: "src = Some (pp_patch_id p)" using step by (rule compose_patch_source)
    have "rfold (\<lambda>p s. compile_policy p s (Aware t) shadow_mode) (rebase (n + 1) ps) (effects_state arm_id (n + 1) src e1) = Inr s"
      using Cons.IH [of "n + 1" src e1] rest s by (auto simp: algebra_simps)
    then show ?l using step unfolding src by (simp add: rbind_eq_Inr compile_compose_step [OF assms])
  qed
qed auto

section \<open>Properties\<close>

text \<open>
  Every policy an arm can reach from its default by compiling patches and expiring them keeps
  the paper limits: a risk multiplier between a quarter and one, blocks only on buckets it
  controls, and for the risk-managed arm no budget deltas and only blocks that the order planner
  consumes. Every step raises the version by one, so a patch is compiled at most once.\<close>

theorem policy_reachable_ok:
  assumes "policy_step\<^sup>*\<^sup>* (default_policy arm_id) s"
  shows "policy_ok s \<and> ps_arm_id s = arm_id
    \<and> (\<forall>s'. policy_step s s' \<longrightarrow> ps_version s' = ps_version s + 1)"
  using assms
proof (induction rule: rtranclp_induct)
  case base
  have "policy_ok (default_policy arm_id)" by (rule default_policy_ok)
  then show ?case using policy_step_ok by (simp add: default_policy_def)
next
  case (step s s')
  then show ?case using policy_step_ok [of s s'] policy_step_ok [of s'] by simp
qed

text \<open>
  A patch that does not restore the default only tightens: the multiplier does not rise, no
  block is lifted, and the patch takes exactly the buckets of its operations, all of which were
  free before.\<close>

theorem compile_only_tightens:
  assumes "compile_policy patch current now shadow_mode = Inr s"
    and "\<forall>op\<in>set (pp_operations patch). op_action op \<noteq> RESTORE_DEFAULT"
  shows "ps_portfolio_risk_multiplier s \<le> ps_portfolio_risk_multiplier current
    \<and> ps_blocked_targets current \<subseteq> ps_blocked_targets s
    \<and> ps_active_buckets s = ps_active_buckets current \<union> set (map policy_bucket (pp_operations patch))
    \<and> distinct (map policy_bucket (pp_operations patch))
    \<and> ps_active_buckets current \<inter> set (map policy_bucket (pp_operations patch)) = {}"
proof -
  let ?f = "apply_operation ''An active patch already controls bucket'' (ps_arm_id current) shadow_mode"
  obtain e where e: "rfold ?f (pp_operations patch) (state_effects current) = Inr e"
    and s: "s = effects_state (ps_arm_id current) (ps_version current + 1) (Some (pp_patch_id patch)) e"
    using assms(1) by (rule compile_policy_Inr)
  have "pe_multiplier e \<le> pe_multiplier e0 \<and> pe_blocked e0 \<subseteq> pe_blocked e
      \<and> pe_buckets e = pe_buckets e0 \<union> set (map policy_bucket ops) \<and> distinct (map policy_bucket ops)
      \<and> pe_buckets e0 \<inter> set (map policy_bucket ops) = {}"
    if "rfold ?f ops e0 = Inr e" "\<forall>op\<in>set ops. op_action op \<noteq> RESTORE_DEFAULT" for ops e0
    using that
  proof (induction ops arbitrary: e0)
    case (Cons op ops)
    then obtain e1 where e1: "?f op e0 = Inr e1" "rfold ?f ops e1 = Inr e" by (auto simp: rbind_eq_Inr)
    have op: "policy_bucket op \<notin> pe_buckets e0" "pe_buckets e1 = insert (policy_bucket op) (pe_buckets e0)"
      "pe_multiplier e1 \<le> pe_multiplier e0" "pe_blocked e0 \<subseteq> pe_blocked e1"
      using apply_operation_Inr [OF e1(1)] Cons.prems(2) by simp_all
    have "pe_multiplier e \<le> pe_multiplier e1" "pe_blocked e1 \<subseteq> pe_blocked e"
      "pe_buckets e = pe_buckets e1 \<union> set (map policy_bucket ops)" "distinct (map policy_bucket ops)"
      "pe_buckets e1 \<inter> set (map policy_bucket ops) = {}" using Cons.IH [OF e1(2)] Cons.prems(2) by simp_all
    then show ?case using op by auto
  qed simp
  from this [OF e assms(2)] show ?thesis unfolding s by (simp add: state_effects_def effects_state_def)
qed

text \<open>
  Rebuilding a policy from its active patches is compiling them: for an arm that accepts
  patches, the composition succeeds exactly when compiling the patches one after the other from
  the default succeeds, and the result is the same but for the version number.\<close>

theorem compose_is_iterated_compile:
  assumes "arm_id \<in> {''B3-RISK'', ''B3-FULL''}" "0 \<le> version"
  shows "compose_policy arm_id patches version (Aware t) shadow_mode = Inr s \<longleftrightarrow>
    (\<exists>s'. rfold (\<lambda>p s. compile_policy p s (Aware t) shadow_mode) (rebase 0 patches) (default_policy arm_id) = Inr s'
      \<and> s = s'\<lparr>ps_version := version\<rparr>)"
proof -
  have d: "default_policy arm_id = effects_state arm_id 0 None default_effects"
    by (simp add: default_policy_def effects_state_def default_effects_def)
  have v: "(effects_state arm_id n source e)\<lparr>ps_version := version\<rparr> = effects_state arm_id version source e" for n source e
    by (simp add: effects_state_def)
  show ?thesis
    unfolding d compile_compose [OF assms(1)] using assms(2) v
    by (auto simp: compose_policy_def rbind_eq_Inr)
qed

text \<open>
  C40. The risk-managed arm never holds more than the volatility-targeted control it is compared
  with: under any reachable policy its target exists, its QQQ weight is at most that of the
  control and its cash weight at least, rounding included; and whenever the policy blocks
  anything, entries into QQQ are blocked.\<close>

theorem forward_target_reduce_only:
  assumes "policy_step\<^sup>*\<^sup>* (default_policy ''B3-RISK'') s" "is_double (cf_qqq_weight core)" "0 \<le> cf_qqq_weight core"
  shows "\<exists>t t0. target_for_arm ''B3-RISK'' core (Some s) = Inr t \<and> target_for_arm ''B0-VOL'' core None = Inr t0
    \<and> 0 \<le> dict_get (ft_target_weights t) ''QQQ'' 0
    \<and> dict_get (ft_target_weights t) ''QQQ'' 0 \<le> dict_get (ft_target_weights t0) ''QQQ'' 0
    \<and> dict_get (ft_target_weights t0) ''USD_CASH'' 0 \<le> dict_get (ft_target_weights t) ''USD_CASH'' 0
    \<and> (ft_blocked_new_entries t \<noteq> {} \<longrightarrow> qqq_entry_is_blocked (ft_blocked_new_entries t))"
proof -
  let ?w = "cf_qqq_weight core" and ?m = "ps_portfolio_risk_multiplier s"
  have ok: "policy_ok s \<and> ps_arm_id s = ''B3-RISK''"
    using assms(1)
  proof (induction rule: rtranclp_induct)
    case base
    show ?case using default_policy_ok by (simp add: default_policy_def)
  next
    case (step s s')
    then show ?case using policy_step_ok [of s s'] by simp
  qed
  then have m: "0 \<le> ?m" "?m \<le> 1" and b: "ps_blocked_targets s \<subseteq> consumed_blocks"
    by (auto simp: policy_ok_def effects_ok_def state_effects_def)
  have "fl (?w * ?m) \<le> fl (?w * 1)" using m assms(3) by (intro fl_mono mult_left_mono) auto
  then have le: "fl (?w * ?m) \<le> ?w" using assms(2) by (simp add: is_double_def)
  have nn: "0 \<le> fl (?w * ?m)" using m assms(3) by (intro fl_nonneg) simp
  let ?q = "py_min (py_max (fl (?w * ?m)) 0) 1" and ?r = "py_min (py_max ?w 0) 1"
  have q: "0 \<le> ?q" "?q \<le> ?r" using le nn by (auto simp: py_min_def py_max_def)
  then have "fl (1 - ?r) \<le> fl (1 - ?q)" by (intro fl_mono) simp
  moreover have "ps_blocked_targets s \<noteq> {} \<longrightarrow> qqq_entry_is_blocked (ps_blocked_targets s)"
    using b unfolding consumed_blocks_def qqq_entry_is_blocked_def by blast
  moreover have "\<exists>t. target_for_arm ''B3-RISK'' core (Some s) = Inr t \<and> ft_blocked_new_entries t = ps_blocked_targets s
      \<and> ft_target_weights t = [(''QQQ'', ?q), (''USD_CASH'', fl (1 - ?q))]"
    "\<exists>t. target_for_arm ''B0-VOL'' core None = Inr t \<and> ft_target_weights t = [(''QQQ'', ?r), (''USD_CASH'', fl (1 - ?r))]"
    by (simp_all add: target_for_arm_def Let_def)
  then obtain t t0 where "target_for_arm ''B3-RISK'' core (Some s) = Inr t" "ft_blocked_new_entries t = ps_blocked_targets s"
    "ft_target_weights t = [(''QQQ'', ?q), (''USD_CASH'', fl (1 - ?q))]"
    "target_for_arm ''B0-VOL'' core None = Inr t0" "ft_target_weights t0 = [(''QQQ'', ?r), (''USD_CASH'', fl (1 - ?r))]"
    by (elim exE conjE)
  moreover have "dict_get [(''QQQ'', a), (''USD_CASH'', b)] ''QQQ'' 0 = a" "dict_get [(''QQQ'', a), (''USD_CASH'', b)] ''USD_CASH'' 0 = b" for a b :: rat
    by (simp_all add: dict_get_def)
  ultimately show ?thesis using q
    by - (rule exI [of _ t], rule exI [of _ t0], simp only:)
qed

text \<open>A patch that halves the risk budget and blocks QQQ, and one that blocks a factor.\<close>

definition ex_patch :: "string \<Rightarrow> policy_operation list \<Rightarrow> policy_patch" where
  "ex_patch pid ops =
     \<lparr>pp_patch_id = pid, pp_schema_version = ''policy_patch_v1'', pp_arm_scope = ''B3-RISK'', pp_base_policy_version = 0,
      pp_effective_from = 0, pp_expires_at = 100, pp_operations = ops, pp_evidence_news_event_ids = [''news''],
      pp_raw_confidence = 1 / 2, pp_rollback_conditions = [], pp_model_run_id = ''run'', pp_prompt_hash = ''prompt'',
      pp_context_manifest_hash = ''context'', pp_created_at = 0\<rparr>"

definition ex_operation :: "policy_action \<Rightarrow> policy_target_kind \<Rightarrow> string \<Rightarrow> rat option \<Rightarrow> policy_operation" where
  "ex_operation action kind target m =
     \<lparr>op_action = action, op_target_kind = kind, op_target_id = target, op_risk_budget_delta = None,
      op_risk_multiplier = m, op_blocked = None\<rparr>"

definition ex_reduction :: policy_patch where
  "ex_reduction = ex_patch ''p1''
     [ex_operation REDUCE_RISK_BUDGET PORTFOLIO ''TOTAL'' (Some (1 / 2)), ex_operation BLOCK_NEW_ENTRIES SYMBOL ''QQQ'' None]"

definition ex_factor_block :: policy_patch where
  "ex_factor_block = ex_patch ''p2'' [ex_operation BLOCK_NEW_ENTRIES FACTOR ''US_TECH_BETA'' None]"

definition ex_policy :: policy_state where
  "ex_policy =
     \<lparr>ps_arm_id = ''B3-RISK'', ps_version = 1, ps_portfolio_risk_multiplier = 1 / 2, ps_strategy_risk_deltas = [],
      ps_blocked_targets = {''SYMBOL:QQQ''}, ps_active_buckets = {''SYMBOL:QQQ'', ''PORTFOLIO:TOTAL''},
      ps_source_patch_id = Some ''p1''\<rparr>"

lemmas policy_eval = compile_policy_def apply_operation_def validate_operation_def validate_forward_b3_operation_def policy_bucket_def
  state_effects_def effects_state_def default_policy_def default_effects_def ex_patch_def ex_operation_def ALLOWED_SYMBOLS_def
  ALLOWED_FACTORS_def py_min_def Let_def

lemma ex_policy_compiled: "compile_policy ex_reduction (default_policy ''B3-RISK'') (Aware 10) True = Inr ex_policy"
  by (simp add: policy_eval ex_reduction_def ex_policy_def)

theorem policy_reachable_ok_witness:
  "policy_step\<^sup>*\<^sup>* (default_policy ''B3-RISK'') ex_policy \<and> policy_ok ex_policy \<and> ps_portfolio_risk_multiplier ex_policy = 1 / 2"
proof -
  have "policy_step\<^sup>*\<^sup>* (default_policy ''B3-RISK'') ex_policy" using policy_step.compile [OF ex_policy_compiled] by blast
  then show ?thesis using policy_reachable_ok [of "''B3-RISK''" ex_policy] by (simp add: ex_policy_def)
qed

theorem compile_only_tightens_witness:
  "ps_active_buckets ex_policy = set (map policy_bucket (pp_operations ex_reduction)) \<and> ps_portfolio_risk_multiplier ex_policy \<le> 1"
proof -
  have "\<forall>op\<in>set (pp_operations ex_reduction). op_action op \<noteq> RESTORE_DEFAULT"
    by (simp add: ex_reduction_def ex_patch_def ex_operation_def)
  from compile_only_tightens [OF ex_policy_compiled this] show ?thesis by (simp add: default_policy_def)
qed

theorem compose_is_iterated_compile_witness:
  "\<exists>s. compose_policy ''B3-RISK'' [ex_reduction, ex_factor_block] 7 (Aware 10) True = Inr s
    \<and> ps_blocked_targets s = {''FACTOR:US_TECH_BETA'', ''SYMBOL:QQQ''} \<and> ps_version s = 7"
proof -
  let ?s = "ex_policy\<lparr>ps_version := 2, ps_blocked_targets := {''FACTOR:US_TECH_BETA'', ''SYMBOL:QQQ''},
      ps_active_buckets := {''FACTOR:US_TECH_BETA'', ''SYMBOL:QQQ'', ''PORTFOLIO:TOTAL''}, ps_source_patch_id := Some ''p2''\<rparr>"
  have "compile_policy (ex_factor_block\<lparr>pp_base_policy_version := 1\<rparr>) ex_policy (Aware 10) True = Inr ?s"
    by (simp add: policy_eval ex_factor_block_def ex_policy_def)
  moreover have "ex_reduction\<lparr>pp_base_policy_version := 0\<rparr> = ex_reduction" by (simp add: ex_reduction_def ex_patch_def)
  ultimately have "rfold (\<lambda>p s. compile_policy p s (Aware 10) True) (rebase 0 [ex_reduction, ex_factor_block]) (default_policy ''B3-RISK'') = Inr ?s"
    using ex_policy_compiled by simp
  then have "compose_policy ''B3-RISK'' [ex_reduction, ex_factor_block] 7 (Aware 10) True = Inr (?s\<lparr>ps_version := 7\<rparr>)"
    by (subst compose_is_iterated_compile) (simp, simp, rule exI [of _ ?s], simp)
  then show ?thesis by (intro exI [of _ "?s\<lparr>ps_version := 7\<rparr>"]) simp
qed

definition ex_forecast :: forward_core_forecast where
  "ex_forecast = \<lparr>cf_version = ''core'', cf_lookback_sessions = 20, cf_observations = 20, cf_annualized_vol = 1 / 4, cf_qqq_weight = 3 / 4\<rparr>"

theorem forward_target_reduce_only_witness:
  "\<exists>t t0. target_for_arm ''B3-RISK'' ex_forecast (Some ex_policy) = Inr t \<and> target_for_arm ''B0-VOL'' ex_forecast None = Inr t0
    \<and> dict_get (ft_target_weights t) ''QQQ'' 0 \<le> dict_get (ft_target_weights t0) ''QQQ'' 0
    \<and> (ft_blocked_new_entries t \<noteq> {} \<longrightarrow> qqq_entry_is_blocked (ft_blocked_new_entries t))"
proof -
  have "policy_step\<^sup>*\<^sup>* (default_policy ''B3-RISK'') ex_policy" using policy_step.compile [OF ex_policy_compiled] by blast
  moreover have "is_double (cf_qqq_weight ex_forecast)" "0 \<le> cf_qqq_weight ex_forecast" by (simp_all add: ex_forecast_def)
  ultimately show ?thesis using forward_target_reduce_only [of ex_policy ex_forecast] by blast
qed

end
