(* ===== verification/Spec2Isabelle.thy ===== *)
theory Spec2Isabelle
  imports Ledger Order_State Settlement Risk_Engine Fill_Economics Turnover Arm_State Planning Execution_Safety
    Replay_Safety Replay_Cash Arm_Payload Reconciliation Execution_Commit Overlay Policy
begin

text \<open>
  Verification of the deterministic core of the paper-trading system under
  \<^verbatim>\<open>src/src/trading\<close> (paths below are relative to it).

  \<^bold>\<open>The program.\<close> A run holds several strategy arms. On schedule an arm's current weights are
  compared with its targets, turnover control limits the move, planning turns the remaining
  trades into order intents, every intent becomes an append-only stream of order events, paper
  execution fills orders against quotes under caps and a price guard, each fill changes the arm
  state and emits a cash-settlement event, and a double-entry ledger records it. Independently
  a risk engine checks losses and drives reduction episodes. All amounts are Python decimals
  with 28 significant digits; all identities are hashes of canonical JSON.

  \<^bold>\<open>Theories.\<close>
  \<^item> \<^verbatim>\<open>Prelude\<close>: exceptions as values (\<open>result\<close>), loops that stop at the first exception,
    dictionaries as association lists, sorting, sums.
  \<^item> \<^verbatim>\<open>Decimal\<close>: \<^verbatim>\<open>decimal.Decimal\<close> (finite values) with context rounding, division,
    square root and \<^verbatim>\<open>quantize\<close>, executable on sign, coefficient and exponent; \<open>dval\<close> reads
    a decimal as a rational and \<open>ctx\<close> is the rounding to 28 digits, with error bounds,
    monotonicity, and exactness on a common grid.
  \<^item> \<^verbatim>\<open>Hashing\<close>: \<^verbatim>\<open>domain/time.py\<close> and \<^verbatim>\<open>domain/hashing.py\<close>; SHA-256 is a parameter.
  \<^item> \<^verbatim>\<open>Domain\<close>: records and validators of \<^verbatim>\<open>domain/q1.py\<close>, \<^verbatim>\<open>domain/contracts.py\<close>.
  \<^item> \<^verbatim>\<open>Event_Log\<close>: the interfaces of event-sourced state as locales (replay in key order,
    invariants along a replay, emitters that close what they touch), interpreted by the
    ledger, the order book, the cash events and the risk episodes.
  \<^item> \<^verbatim>\<open>Ledger\<close>: \<^verbatim>\<open>ledger/journal.py\<close>, \<^verbatim>\<open>ledger/nav.py\<close>. Entries balance, replay is exact
    and independent of order, opening entries round-trip, NAV is within a cent.
  \<^item> \<^verbatim>\<open>Order_State\<close>: \<^verbatim>\<open>execution/order_state.py\<close>. Lifecycles, conservation of quantity,
    appending, cancelling, superseding, expiring, validating a book.
  \<^item> \<^verbatim>\<open>Settlement\<close>: \<^verbatim>\<open>settlement/service.py\<close>. Calendar arithmetic, conservation of cash,
    settled-cash rule, idempotent settlement.
  \<^item> \<^verbatim>\<open>Risk_Check\<close>, \<^verbatim>\<open>Risk_Engine\<close>: \<^verbatim>\<open>risk/state_machine.py\<close>. Loss bounds and monotone
    severity, reduction targets, episode streams as runs of a phase machine, transitions that
    never relax.
  \<^item> \<^verbatim>\<open>Fill_Economics\<close>: \<^verbatim>\<open>execution/q1_paper.py\<close>. Caps, price guard, commission charged once.
  \<^item> \<^verbatim>\<open>Turnover\<close>: the turnover part of \<^verbatim>\<open>quant/allocator.py\<close> and its configuration records.
  \<^item> \<^verbatim>\<open>Arm_State\<close>: \<^verbatim>\<open>runtime/q1_state.py\<close>. Runs accounted for exactly, accepted fills,
    conservation of net asset value.
  \<^item> \<^verbatim>\<open>Decision\<close>, \<^verbatim>\<open>Planning\<close>: \<^verbatim>\<open>runtime/q1_planning.py\<close>, \<^verbatim>\<open>domain/q1_runtime.py\<close> and the
    decision records of \<^verbatim>\<open>domain/q1.py\<close>. Funded plans, sells down to a target, and a planning
    error on plans whose trades were all omitted.
  \<^item> \<^verbatim>\<open>Scheduler\<close>: \<^verbatim>\<open>runtime/q1_scheduler.py\<close> and the parts of \<^verbatim>\<open>runtime/scheduler.py\<close> and
    \<^verbatim>\<open>data/alpaca_reference.py\<close> it uses. The loops that build the slots of a session end and give
    exactly the due slots in running order.
  \<^item> \<^verbatim>\<open>Affordability\<close>, \<^verbatim>\<open>Execution\<close>, \<^verbatim>\<open>Execution_Safety\<close>: the preparation of an execution cycle
    in \<^verbatim>\<open>runtime/q1_execution_cycle.py\<close> and \<^verbatim>\<open>runtime/q1_paper.py\<close>. The search for an affordable
    quantity ends, the settled-cash guard never fires, the cash events of a cycle explain the
    arm states it produces, and a sell worth less than its commission aborts the cycle.
  \<^item> \<^verbatim>\<open>Canonical_Json\<close>, \<^verbatim>\<open>Text_Time\<close>: what canonical JSON text determines, and the readers of
    decimals, integers, dates and timestamps, inverse to the writers of \<^verbatim>\<open>Hashing\<close>.
  \<^item> \<^verbatim>\<open>Arm_Payload\<close>: the payload conversions of \<^verbatim>\<open>runtime/q1_state.py\<close>, which round-trip.
  \<^item> \<^verbatim>\<open>Replay\<close>, \<^verbatim>\<open>Replay_Safety\<close>, \<^verbatim>\<open>Replay_Cash\<close>: the audit of \<^verbatim>\<open>replay/q1.py\<close>. What planning and
    execution store passes it, and what passes it explains the cash of every arm.
  \<^item> \<^verbatim>\<open>Reconciliation\<close>: \<^verbatim>\<open>risk/reconciliation.py\<close>. A state that reconciles equals what its
    opening snapshot, fills, order events and cash events add up to.
  \<^item> \<^verbatim>\<open>Repository\<close>: the append-only tables of \<^verbatim>\<open>persistence/q1.py\<close> and \<^verbatim>\<open>persistence/q1_runtime.py\<close>
    as state passing on a record of row lists, with leases and unique keys. Retries add nothing,
    a worker without the lease adds nothing, the repository stores exactly what the reducer of
    \<^verbatim>\<open>Order_State\<close> accepts but for three kinds of event, and arm states form gapless chains.
  \<^item> \<^verbatim>\<open>Execution_Commit\<close>: \<^verbatim>\<open>process\<close> of \<^verbatim>\<open>runtime/q1_execution_cycle.py\<close>, from loading the order
    book to committing every mutation. A cycle commits at most once and only extends the store.
  \<^item> \<^verbatim>\<open>Binary64\<close>, \<^verbatim>\<open>Overlay\<close>: doubles with rounding to nearest even and their shortest text, and
    the overlay of \<^verbatim>\<open>llm/q1_overlay.py\<close> as the strategic cycle \<^verbatim>\<open>runtime/q1_cycle.py\<close> applies it.
    An overlay only reduces risk, despite its arithmetic on doubles.
  \<^item> \<^verbatim>\<open>Policy\<close>: \<^verbatim>\<open>llm/policy_compiler.py\<close>, \<^verbatim>\<open>portfolio/forward.py\<close> and the target part of
    \<^verbatim>\<open>risk/forward.py\<close>. Every reachable policy keeps the managed arm below its control.

  \<^bold>\<open>Conventions.\<close> An operation that raises returns \<open>Inl\<close> with the exception class and the
  fixed part of its message. A pydantic model or dataclass is a record with a \<open>validate_...\<close>
  function for its constructor checks. A timestamp that passed \<open>require_aware_utc\<close> is an
  instant in microseconds. Statements about exact amounts assume a grid: all amounts are
  multiples of a power of ten and fit in 28 digits, which covers cents, millionths of shares
  and ten-thousandths of dollars up to ten to the eighteen.
  Loops that may not end use \<open>partial_function (option)\<close> or a
  measure, and their results are shown to exist. A database table is the list of its rows in
  insertion order, a transaction is a function that returns the new store or an exception, and
  an exception leaves the store as it was; numeric columns (38 digits, 10 of
  them decimals) are taken to hold the decimals written to them. Quotes, bars and
  calendars enter as arguments of the definitions that read them.

  \<^bold>\<open>Not modelled.\<close> Decimal infinities and NaN (the validators reject them); doubles that
  overflow; the allocation and signal mathematics of \<^verbatim>\<open>quant\<close>, which
  computes in a local context of configurable precision; matched evaluation in
  \<^verbatim>\<open>evaluation\<close>; in the replay audit the consistency of rows across tables, the daily
  results and the state hashes; in \<^verbatim>\<open>runtime/q1_cycle.py\<close> everything around the overlay; the
  order planner and rollback conditions of \<^verbatim>\<open>risk/forward.py\<close>; the repositories of risk
  episodes, calendars and results; the command line, dashboard, control service, market
  data, broker adapter, language-model transport and research tooling, which read and write
  databases, files and sockets around the functions modelled here.
\<close>

end
